(* ===== verification/Topomap_Types.thy ===== *)
theory Topomap_Types
  imports Prelude
begin

text \<open>
  The data of the topological map (\<open>navbim_util/topological_map_types.hpp\<close>) and of the ROS
  messages that carry it (\<open>navbim_msgs/msg\<close>). A C++ struct is a record whose fields keep the
  source's names behind a prefix (\<open>np_\<close> for \<open>NodeProperties\<close>, \<open>ep_\<close> for
  \<open>EdgeProperties\<close>, \<open>tn_\<close>, \<open>te_\<close>, \<open>tm_\<close> for the messages); a \<open>std::optional\<close> and a
  \<open>std::shared_ptr\<close> that may be null are options. A polygon of Boost.Geometry is its outer
  ring and its inner rings, each a list of points.
\<close>

section \<open>Positions, boxes, polygons\<close>

record Position =
  pos_x :: real
  pos_y :: real
  pos_z :: real

definition Position_init :: Position where
  "Position_init = \<lparr>pos_x = 0, pos_y = 0, pos_z = 0\<rparr>"

record BoundingBox =
  bb_min_x :: real
  bb_max_x :: real
  bb_min_y :: real
  bb_max_y :: real
  bb_min_z :: real
  bb_max_z :: real

definition BoundingBox_init :: BoundingBox where
  "BoundingBox_init =
     \<lparr>bb_min_x = 0, bb_max_x = 0, bb_min_y = 0, bb_max_y = 0, bb_min_z = 0, bb_max_z = 0\<rparr>"

type_synonym Point2D = "real \<times> real"
type_synonym ring = "Point2D list"

record Polygon =
  poly_outer :: ring
  poly_inners :: "ring list"

definition Polygon_init :: Polygon where
  "Polygon_init = \<lparr>poly_outer = [], poly_inners = []\<rparr>"

type_synonym waypoint = "real \<times> real \<times> real"

section \<open>Properties of the nodes and edges of the graph\<close>

type_synonym Vertex = nat

record NodeProperties =
  np_id :: int
  np_name :: string
  np_type :: string
  np_subtype :: "string option"
  np_position :: Position
  np_ifc_guid :: "string option"
  np_min_z :: "real option"
  np_max_z :: "real option"
  np_bbox :: "BoundingBox option"
  np_polygon :: "Polygon option"
  np_floor :: "string list option"

definition NodeProperties_init :: NodeProperties where
  "NodeProperties_init =
     \<lparr>np_id = -1, np_name = '''', np_type = ''unknown'', np_subtype = None,
      np_position = Position_init, np_ifc_guid = None, np_min_z = None, np_max_z = None,
      np_bbox = None, np_polygon = None, np_floor = None\<rparr>"

record EdgeProperties =
  ep_id :: int
  ep_type :: string
  ep_subtype :: "string option"
  ep_estimated_distance :: double
  ep_planned_distance :: double
  ep_estimated_cost :: double
  ep_planned_cost :: double
  ep_path :: "waypoint list option"
  ep_path_frame_id :: string
  ep_room_id :: "int option"

definition EdgeProperties_init :: EdgeProperties where
  "EdgeProperties_init =
     \<lparr>ep_id = -1, ep_type = ''unknown'', ep_subtype = None,
      ep_estimated_distance = Fin 0, ep_planned_distance = Fin (-1),
      ep_estimated_cost = Fin 0, ep_planned_cost = Fin (-1),
      ep_path = None, ep_path_frame_id = ''ifc'', ep_room_id = None\<rparr>"

section \<open>Messages\<close>

text \<open>
  \<open>geometry_msgs/Point\<close> is a \<^typ>\<open>Position\<close>; a \<open>geometry_msgs/Polygon\<close> of
  single-precision points is a list of points (their \<open>z\<close> is never read). Of
  \<open>nav_msgs/Path\<close> the frame and, of each pose, the frame, the position and the orientation are
  kept: the code reads nothing else of it.
\<close>

record polygon_msg =
  pm_outer :: "Point2D list"
  pm_holes :: "Point2D list list"

record Quaternion =
  quat_x :: real
  quat_y :: real
  quat_z :: real
  quat_w :: real

definition Quaternion_init :: Quaternion where
  "Quaternion_init = \<lparr>quat_x = 0, quat_y = 0, quat_z = 0, quat_w = 1\<rparr>"

record pose_stamped =
  ps_frame_id :: string
  ps_position :: Position
  ps_orientation :: Quaternion

record path_msg =
  path_frame_id :: string
  path_poses :: "pose_stamped list"

definition path_msg_init :: path_msg where
  "path_msg_init = \<lparr>path_frame_id = '''', path_poses = []\<rparr>"

record bbox_msg =
  bm_min :: Position
  bm_max :: Position

record TopomapNode =
  tn_id :: string
  tn_name :: string
  tn_type :: string
  tn_ifc_guid :: string
  tn_position :: Position
  tn_min_z :: real
  tn_max_z :: real
  tn_floor :: "string list"
  tn_subtype :: string
  tn_bbox :: bbox_msg
  tn_polygon :: polygon_msg

definition TopomapNode_init :: TopomapNode where
  "TopomapNode_init =
     \<lparr>tn_id = '''', tn_name = '''', tn_type = '''', tn_ifc_guid = '''',
      tn_position = Position_init, tn_min_z = 0, tn_max_z = 0, tn_floor = [], tn_subtype = '''',
      tn_bbox = \<lparr>bm_min = Position_init, bm_max = Position_init\<rparr>,
      tn_polygon = \<lparr>pm_outer = [], pm_holes = []\<rparr>\<rparr>"

record TopomapEdge =
  te_source :: string
  te_target :: string
  te_id :: string
  te_type :: string
  te_subtype :: string
  te_room_id :: string
  te_estimated_distance :: double
  te_planned_distance :: double
  te_estimated_cost :: double
  te_planned_cost :: double
  te_path :: path_msg

definition TopomapEdge_init :: TopomapEdge where
  "TopomapEdge_init =
     \<lparr>te_source = '''', te_target = '''', te_id = '''', te_type = '''', te_subtype = '''',
      te_room_id = '''', te_estimated_distance = Fin 0, te_planned_distance = Fin 0,
      te_estimated_cost = Fin 0, te_planned_cost = Fin 0, te_path = path_msg_init\<rparr>"

record Topomap =
  tm_source_file :: string
  tm_building_name :: string
  tm_total_floors :: "32 word"
  tm_floor_names :: "string list"
  tm_nodes :: "TopomapNode list"
  tm_edges :: "TopomapEdge list"

definition Topomap_init :: Topomap where
  "Topomap_init =
     \<lparr>tm_source_file = '''', tm_building_name = '''', tm_total_floors = 0, tm_floor_names = [],
      tm_nodes = [], tm_edges = []\<rparr>"

lemmas init_defs =
  Position_init_def BoundingBox_init_def Polygon_init_def NodeProperties_init_def
  EdgeProperties_init_def path_msg_init_def TopomapNode_init_def TopomapEdge_init_def
  Topomap_init_def

text \<open>The waypoint a pose stands for, and back (an identity orientation is written).\<close>

definition waypoint_of_pose :: "pose_stamped \<Rightarrow> waypoint" where
  "waypoint_of_pose ps = (pos_x (ps_position ps), pos_y (ps_position ps), pos_z (ps_position ps))"

definition pose_of_waypoint :: "string \<Rightarrow> waypoint \<Rightarrow> pose_stamped" where
  "pose_of_waypoint frame w =
     \<lparr>ps_frame_id = frame,
      ps_position = \<lparr>pos_x = fst w, pos_y = fst (snd w), pos_z = snd (snd w)\<rparr>,
      ps_orientation = Quaternion_init\<rparr>"

lemma waypoint_of_pose_of_waypoint [simp]: "waypoint_of_pose (pose_of_waypoint frame w) = w"
  by (simp add: waypoint_of_pose_def pose_of_waypoint_def)

lemma map_waypoint_of_pose [simp]:
  "map waypoint_of_pose (map (pose_of_waypoint frame) ws) = ws"
  by (simp add: comp_def)

end
