(* ===== verification/Boost_Graph.thy ===== *)
theory Boost_Graph
  imports Topomap_Types
begin

text \<open>
  The interface of Boost.Graph the topological map is built on:
  \<open>boost::adjacency_list<vecS, vecS, undirectedS, NodeProperties, EdgeProperties>\<close>
  (\<open>TopologicalGraph\<close>). The library is not part of the repository, so its operations are a
  parameter of the model: the record \<open>bgl\<close>, one field per function the code calls. The locale
  \<open>boost_graph\<close> states the documented behaviour the code relies on, as equations for the
  \<^emph>\<open>view\<close> of a graph: its node properties in vertex order and its edges in edge order.

  The second half gives a plain adjacency list that satisfies the interface; the witnesses of
  the properties run on it.
\<close>

section \<open>The operations\<close>

text \<open>
  With \<open>vecS\<close> vertices a descriptor is an index, so \<open>Vertex\<close> is \<^typ>\<open>nat\<close> and
  \<open>boost::vertices(g)\<close> runs over \<open>[0..<num_vertices g]\<close>. Edge descriptors are the abstract
  type \<open>'e\<close>. \<open>g_out_edges v g\<close> lists the out-edges of \<open>v\<close> with, for each, the vertex
  \<open>boost::target\<close> gives for it, that is the neighbour \<open>boost::adjacent_vertices\<close> lists.
\<close>

record ('g, 'e) bgl =
  g_empty :: 'g
  g_clear :: "'g \<Rightarrow> 'g"
  g_num_vertices :: "'g \<Rightarrow> nat"
  g_node :: "'g \<Rightarrow> Vertex \<Rightarrow> NodeProperties"
  g_set_node :: "Vertex \<Rightarrow> NodeProperties \<Rightarrow> 'g \<Rightarrow> 'g"
  g_add_vertex :: "'g \<Rightarrow> Vertex \<times> 'g"
  g_edges :: "'g \<Rightarrow> 'e list"
  g_source :: "'g \<Rightarrow> 'e \<Rightarrow> Vertex"
  g_target :: "'g \<Rightarrow> 'e \<Rightarrow> Vertex"
  g_eprops :: "'g \<Rightarrow> 'e \<Rightarrow> EdgeProperties"
  g_set_eprops :: "'e \<Rightarrow> EdgeProperties \<Rightarrow> 'g \<Rightarrow> 'g"
  g_add_edge :: "Vertex \<Rightarrow> Vertex \<Rightarrow> 'g \<Rightarrow> ('e \<times> bool) \<times> 'g"
  g_edge :: "Vertex \<Rightarrow> Vertex \<Rightarrow> 'g \<Rightarrow> 'e option"
  g_out_edges :: "Vertex \<Rightarrow> 'g \<Rightarrow> ('e \<times> Vertex) list"
  g_clear_vertex :: "Vertex \<Rightarrow> 'g \<Rightarrow> 'g"
  g_remove_vertex :: "Vertex \<Rightarrow> 'g \<Rightarrow> 'g"

abbreviation g_vertices :: "('g, 'e) bgl \<Rightarrow> 'g \<Rightarrow> Vertex list" where
  "g_vertices B g \<equiv> [0..<g_num_vertices B g]"

definition g_adjacent_vertices :: "('g, 'e) bgl \<Rightarrow> Vertex \<Rightarrow> 'g \<Rightarrow> Vertex list" where
  "g_adjacent_vertices B v g = map snd (g_out_edges B v g)"

section \<open>The view of a graph\<close>

type_synonym edge_view = "Vertex \<times> Vertex \<times> EdgeProperties"

definition nodes_view :: "('g, 'e) bgl \<Rightarrow> 'g \<Rightarrow> NodeProperties list" where
  "nodes_view B g = map (g_node B g) (g_vertices B g)"

definition edge_view_of :: "('g, 'e) bgl \<Rightarrow> 'g \<Rightarrow> 'e \<Rightarrow> edge_view" where
  "edge_view_of B g e = (g_source B g e, g_target B g e, g_eprops B g e)"

definition edges_view :: "('g, 'e) bgl \<Rightarrow> 'g \<Rightarrow> edge_view list" where
  "edges_view B g = map (edge_view_of B g) (g_edges B g)"

text \<open>The edge joins the two vertices, in either direction.\<close>

fun joins :: "Vertex \<Rightarrow> Vertex \<Rightarrow> edge_view \<Rightarrow> bool" where
  "joins u v (s, t, p) \<longleftrightarrow> (s = u \<and> t = v) \<or> (s = v \<and> t = u)"

fun incident :: "Vertex \<Rightarrow> edge_view \<Rightarrow> bool" where
  "incident v (s, t, p) \<longleftrightarrow> s = v \<or> t = v"

text \<open>The neighbours an edge contributes to a vertex: a self loop is in its out-edges twice.\<close>

fun neighbours :: "Vertex \<Rightarrow> edge_view \<Rightarrow> Vertex list" where
  "neighbours v (s, t, p) = (if s = v then [t] else []) @ (if t = v then [s] else [])"

definition shift_down :: "Vertex \<Rightarrow> Vertex \<Rightarrow> Vertex" where
  "shift_down v w = (if v < w then w - 1 else w)"

definition remove_nth :: "nat \<Rightarrow> 'a list \<Rightarrow> 'a list" where
  "remove_nth i xs = take i xs @ drop (Suc i) xs"

fun shift_edge :: "Vertex \<Rightarrow> edge_view \<Rightarrow> edge_view" where
  "shift_edge v (s, t, p) = (shift_down v s, shift_down v t, p)"

text \<open>A graph whose edges end at existing vertices.\<close>

definition wf_graph :: "('g, 'e) bgl \<Rightarrow> 'g \<Rightarrow> bool" where
  "wf_graph B g \<longleftrightarrow>
     list_all (\<lambda>(s, t, p). s < g_num_vertices B g \<and> t < g_num_vertices B g) (edges_view B g)"

text \<open>Graphs that differ in the properties of their edges only.\<close>

definition same_shape :: "('g, 'e) bgl \<Rightarrow> 'g \<Rightarrow> 'g \<Rightarrow> bool" where
  "same_shape B g g' \<longleftrightarrow>
     nodes_view B g' = nodes_view B g \<and> g_edges B g' = g_edges B g \<and>
     (\<forall>e \<in> set (g_edges B g). g_source B g' e = g_source B g e \<and> g_target B g' e = g_target B g e) \<and>
     (\<forall>u v. g_edge B u v g' = g_edge B u v g) \<and> (\<forall>v. g_out_edges B v g' = g_out_edges B v g)"

text \<open>One step of a loop that rewrites the edges with a property and counts them.\<close>

definition rewrite_edge ::
  "('g, 'e) bgl \<Rightarrow> (EdgeProperties \<Rightarrow> bool) \<Rightarrow> (EdgeProperties \<Rightarrow> EdgeProperties) \<Rightarrow> 'e \<Rightarrow>
     'g \<times> int \<Rightarrow> 'g \<times> int" where
  "rewrite_edge B P f e st =
     (case st of (g, count) \<Rightarrow>
        if P (g_eprops B g e) then (g_set_eprops B e (f (g_eprops B g e)) g, count + 1)
        else (g, count))"

text \<open>Adding an edge and, when it was inserted, rewriting its fresh properties with \<open>f\<close>.\<close>

definition add_edge_with ::
  "('g, 'e) bgl \<Rightarrow> Vertex \<Rightarrow> Vertex \<Rightarrow> (EdgeProperties \<Rightarrow> EdgeProperties) \<Rightarrow> 'g \<Rightarrow> 'g" where
  "add_edge_with B u v f g =
     (case g_add_edge B u v g of ((e, inserted), g1) \<Rightarrow>
        if inserted then g_set_eprops B e (f (g_eprops B g1 e)) g1 else g1)"

section \<open>The contract\<close>

locale boost_graph =
  fixes B :: "('g, 'e) bgl"
  assumes empty_view: "g_num_vertices B (g_empty B) = 0" "g_edges B (g_empty B) = []"
    and clear_view: "g_num_vertices B (g_clear B g) = 0" "g_edges B (g_clear B g) = []"
    and set_node_view: "v < g_num_vertices B g \<Longrightarrow>
          nodes_view B (g_set_node B v p g) = (nodes_view B g)[v := p] \<and>
          edges_view B (g_set_node B v p g) = edges_view B g"
    and add_vertex_view: "fst (g_add_vertex B g) = g_num_vertices B g"
          "nodes_view B (snd (g_add_vertex B g)) = nodes_view B g @ [NodeProperties_init]"
          "edges_view B (snd (g_add_vertex B g)) = edges_view B g"
    and set_eprops_view: "i < length (g_edges B g) \<Longrightarrow>
          nodes_view B (g_set_eprops B (g_edges B g ! i) ep g) = nodes_view B g \<and>
          g_edges B (g_set_eprops B (g_edges B g ! i) ep g) = g_edges B g \<and>
          edges_view B (g_set_eprops B (g_edges B g ! i) ep g)
            = (edges_view B g)[i := (case edges_view B g ! i of (s, t, q) \<Rightarrow> (s, t, ep))]"
    and add_edge_view: "u < g_num_vertices B g \<Longrightarrow> v < g_num_vertices B g \<Longrightarrow>
          g_add_edge B u v g = ((e, b), g') \<Longrightarrow>
          b \<and> nodes_view B g' = nodes_view B g \<and>
          edges_view B g' = edges_view B g @ [(u, v, EdgeProperties_init)] \<and>
          g_edges B g' ! length (g_edges B g) = e"
    and edge_None: "g_edge B u v g = None \<longleftrightarrow> (\<forall>x \<in> set (edges_view B g). \<not> joins u v x)"
    and edge_Some: "g_edge B u v g = Some e \<Longrightarrow>
          \<exists>i < length (g_edges B g). g_edges B g ! i = e \<and> joins u v (edge_view_of B g e)"
    and adjacent_view: "g_adjacent_vertices B v g = concat (map (neighbours v) (edges_view B g))"
    and out_edges_view: "(e, w) \<in> set (g_out_edges B v g) \<Longrightarrow>
          e \<in> set (g_edges B g) \<and> joins v w (edge_view_of B g e)"
    and clear_vertex_view:
          "nodes_view B (g_clear_vertex B v g) = nodes_view B g"
          "edges_view B (g_clear_vertex B v g)
             = filter (\<lambda>x. \<not> incident v x) (edges_view B g)"
    and remove_vertex_view: "v < g_num_vertices B g \<Longrightarrow>
          (\<forall>x \<in> set (edges_view B g). \<not> incident v x) \<Longrightarrow>
          nodes_view B (g_remove_vertex B v g) = remove_nth v (nodes_view B g) \<and>
          edges_view B (g_remove_vertex B v g) = map (shift_edge v) (edges_view B g)"
    and edge_sym: "g_edge B u v g = g_edge B v u g"
    and edge_set_eprops: "i < length (g_edges B g) \<Longrightarrow>
          g_edge B u v (g_set_eprops B (g_edges B g ! i) ep g) = g_edge B u v g"
    and out_edges_set_eprops: "i < length (g_edges B g) \<Longrightarrow>
          g_out_edges B v (g_set_eprops B (g_edges B g ! i) ep g) = g_out_edges B v g"
begin

lemma length_nodes_view [simp]: "length (nodes_view B g) = g_num_vertices B g"
  by (simp add: nodes_view_def)

lemma length_edges_view [simp]: "length (edges_view B g) = length (g_edges B g)"
  by (simp add: edges_view_def)

lemma nth_nodes_view [simp]: "v < g_num_vertices B g \<Longrightarrow> nodes_view B g ! v = g_node B g v"
  by (simp add: nodes_view_def)

lemma num_vertices_cong: "nodes_view B g = nodes_view B g' \<Longrightarrow> g_num_vertices B g = g_num_vertices B g'"
  by (metis length_nodes_view)

lemma empty_views [simp]:
  "nodes_view B (g_empty B) = []" "edges_view B (g_empty B) = []"
  by (simp_all add: nodes_view_def edges_view_def empty_view)

lemma clear_views [simp]:
  "nodes_view B (g_clear B g) = []" "edges_view B (g_clear B g) = []"
  by (simp_all add: nodes_view_def edges_view_def clear_view)

lemma num_vertices_set_node [simp]:
  "v < g_num_vertices B g \<Longrightarrow> g_num_vertices B (g_set_node B v p g) = g_num_vertices B g"
  by (metis length_list_update length_nodes_view set_node_view)

lemma num_vertices_add_vertex [simp]:
  "g_num_vertices B (snd (g_add_vertex B g)) = Suc (g_num_vertices B g)"
  by (metis add_vertex_view(2) length_append_singleton length_nodes_view)

lemma node_add_vertex_new [simp]:
  "g_node B (snd (g_add_vertex B g)) (g_num_vertices B g) = NodeProperties_init"
  by (metis add_vertex_view(2) length_nodes_view lessI nth_append_length nth_nodes_view
      num_vertices_add_vertex)

text \<open>Adding a vertex and filling its properties, as the loaders do.\<close>

lemma add_vertex_set_node_view:
  assumes "g_add_vertex B g = (v, g')"
  shows "v = g_num_vertices B g"
    and "nodes_view B (g_set_node B v p g') = nodes_view B g @ [p]"
    and "edges_view B (g_set_node B v p g') = edges_view B g"
    and "g_node B g' v = NodeProperties_init"
proof -
  have g': "g' = snd (g_add_vertex B g)" and v: "v = g_num_vertices B g"
    using assms add_vertex_view(1) [of g] by auto
  then have lt: "v < g_num_vertices B g'" by simp
  show "v = g_num_vertices B g" by (rule v)
  show "nodes_view B (g_set_node B v p g') = nodes_view B g @ [p]"
    using set_node_view [OF lt, of p] v length_nodes_view [of g]
    by (simp add: g' add_vertex_view list_update_append)
  show "edges_view B (g_set_node B v p g') = edges_view B g"
    using set_node_view [OF lt, of p] by (simp add: g' add_vertex_view)
  show "g_node B g' v = NodeProperties_init" by (simp add: g' v)
qed

text \<open>Adding an edge and filling its properties.\<close>

lemma add_edge_set_eprops_view:
  assumes "u < g_num_vertices B g" and "v < g_num_vertices B g"
    and "g_add_edge B u v g = ((e, b), g')"
  shows "b"
    and "nodes_view B g' = nodes_view B g"
    and "edges_view B g' = edges_view B g @ [(u, v, EdgeProperties_init)]"
    and "g_eprops B g' e = EdgeProperties_init"
    and "nodes_view B (g_set_eprops B e p g') = nodes_view B g"
    and "edges_view B (g_set_eprops B e p g') = edges_view B g @ [(u, v, p)]"
proof -
  let ?n = "length (g_edges B g)"
  note E = add_edge_view [OF assms]
  show "b" and N: "nodes_view B g' = nodes_view B g"
    and V: "edges_view B g' = edges_view B g @ [(u, v, EdgeProperties_init)]"
    using E by blast+
  have len: "?n < length (g_edges B g')"
    using V by (metis length_append_singleton length_edges_view lessI)
  have e: "g_edges B g' ! ?n = e" using E by blast
  have last: "edges_view B g' ! ?n = (u, v, EdgeProperties_init)"
    using V length_edges_view [of g] by (metis nth_append_length)
  have "edge_view_of B g' e = edges_view B g' ! ?n"
    using len e by (simp add: edges_view_def)
  then show "g_eprops B g' e = EdgeProperties_init"
    using last by (simp add: edge_view_of_def)
  have S: "nodes_view B (g_set_eprops B e p g') = nodes_view B g'"
    "edges_view B (g_set_eprops B e p g') = (edges_view B g')[?n := (u, v, p)]"
    using set_eprops_view [OF len, of p] e last by simp_all
  show "nodes_view B (g_set_eprops B e p g') = nodes_view B g"
    using S N by simp
  show "edges_view B (g_set_eprops B e p g') = edges_view B g @ [(u, v, p)]"
    using S(2) V length_edges_view [of g] by (simp add: list_update_append)
qed

lemma add_edge_with_view:
  assumes "u < g_num_vertices B g" and "v < g_num_vertices B g"
  shows "nodes_view B (add_edge_with B u v f g) = nodes_view B g"
    and "edges_view B (add_edge_with B u v f g) = edges_view B g @ [(u, v, f EdgeProperties_init)]"
proof -
  obtain e b g1 where a: "g_add_edge B u v g = ((e, b), g1)" by (metis prod.collapse)
  note E = add_edge_set_eprops_view [OF assms a]
  show "nodes_view B (add_edge_with B u v f g) = nodes_view B g"
    and "edges_view B (add_edge_with B u v f g) = edges_view B g @ [(u, v, f EdgeProperties_init)]"
    using E by (simp_all add: add_edge_with_def a)
qed

text \<open>A loop over the edges that rewrites the properties of those with \<open>P\<close> and counts them.\<close>

lemma nth_edges_view: "i < length (g_edges B g) \<Longrightarrow>
    edges_view B g ! i = (g_source B g (g_edges B g ! i), g_target B g (g_edges B g ! i),
      g_eprops B g (g_edges B g ! i))"
  by (simp add: edges_view_def edge_view_of_def)

lemma rewrite_edges_prefix:
  assumes "k \<le> length (g_edges B g)"
  shows "\<exists>g'. fold (rewrite_edge B P f) (take k (g_edges B g)) (g, c) =
             (g', c + int (length (filter (\<lambda>(s, t, q). P q) (take k (edges_view B g))))) \<and>
           g_edges B g' = g_edges B g \<and> nodes_view B g' = nodes_view B g \<and>
           edges_view B g' = map (\<lambda>(s, t, q). (s, t, if P q then f q else q)) (take k (edges_view B g)) @
             drop k (edges_view B g)"
  using assms
proof (induction k)
  case (Suc k)
  let ?V = "edges_view B g" and ?F = "\<lambda>(s, t, q). (s, t, if P q then f q else q)"
  from Suc obtain g1 where g1: "fold (rewrite_edge B P f) (take k (g_edges B g)) (g, c) =
        (g1, c + int (length (filter (\<lambda>(s, t, q). P q) (take k ?V))))"
      "g_edges B g1 = g_edges B g" "nodes_view B g1 = nodes_view B g"
      "edges_view B g1 = map ?F (take k ?V) @ drop k ?V"
    using Suc_leD by blast
  let ?e = "g_edges B g ! k"
  have k: "k < length (g_edges B g1)" "k < length ?V" using Suc.prems g1(2) by simp_all
  obtain s t q where q: "?V ! k = (s, t, q)" by (metis prod.collapse)
  have drop: "drop k ?V = (s, t, q) # drop (Suc k) ?V" using k(2) q by (metis Cons_nth_drop_Suc)
  have "edges_view B g1 ! k = (s, t, q)" using g1(4) k(2) q by (simp add: nth_append min_def)
  then have ep: "g_eprops B g1 ?e = q" using nth_edges_view [OF k(1)] g1(2) by simp
  have take: "take (Suc k) ?V = take k ?V @ [(s, t, q)]" "take (Suc k) (g_edges B g) = take k (g_edges B g) @ [?e]"
    using k q g1(2) by (simp_all add: take_Suc_conv_app_nth)
  note S = set_eprops_view [OF k(1), of "f q"]
  show ?case
  proof (cases "P q")
    case True
    have "edges_view B (g_set_eprops B ?e (f q) g1) = (map ?F (take k ?V) @ drop k ?V)[k := (s, t, f q)]"
      using S g1(2,4) \<open>edges_view B g1 ! k = (s, t, q)\<close> by simp
    also have "\<dots> = map ?F (take (Suc k) ?V) @ drop (Suc k) ?V"
      using True k(2) by (simp add: take drop list_update_append min_def)
    finally have "edges_view B (g_set_eprops B ?e (f q) g1) = map ?F (take (Suc k) ?V) @ drop (Suc k) ?V" .
    moreover have "rewrite_edge B P f ?e (g1, n) = (g_set_eprops B ?e (f q) g1, n + 1)" for n
      using True by (simp add: rewrite_edge_def ep)
    ultimately show ?thesis
      using True S g1(1,2,3) by (intro exI [of _ "g_set_eprops B ?e (f q) g1"]) (simp add: take)
  next
    case False
    then have "rewrite_edge B P f ?e (g1, n) = (g1, n)" for n by (simp add: rewrite_edge_def ep)
    with False show ?thesis using g1 by (intro exI [of _ g1]) (simp add: take drop)
  qed
qed simp

lemma rewrite_edges:
  "\<exists>g'. fold (rewrite_edge B P f) (g_edges B g) (g, c) =
        (g', c + int (length (filter (\<lambda>(s, t, q). P q) (edges_view B g)))) \<and>
      nodes_view B g' = nodes_view B g \<and>
      edges_view B g' = map (\<lambda>(s, t, q). (s, t, if P q then f q else q)) (edges_view B g)"
  using rewrite_edges_prefix [of "length (g_edges B g)" g P f c] by auto

text \<open>Rewriting the properties of an edge leaves everything else of the graph alone.\<close>

lemma set_eprops_shape:
  assumes "e \<in> set (g_edges B g)"
  shows "same_shape B g (g_set_eprops B e p g)"
    and "g_eprops B (g_set_eprops B e p g) e = p"
    and "e' \<in> set (g_edges B g) \<Longrightarrow> e' \<noteq> e \<Longrightarrow> g_eprops B (g_set_eprops B e p g) e' = g_eprops B g e'"
proof -
  let ?g = "g_set_eprops B e p g"
  obtain i where i: "i < length (g_edges B g)" "g_edges B g ! i = e" using assms by (meson in_set_conv_nth)
  note S = set_eprops_view [OF i(1), of p, unfolded i(2)]
  have view: "edge_view_of B ?g (g_edges B g ! j) =
      (if j = i then (g_source B g e, g_target B g e, p) else edge_view_of B g (g_edges B g ! j))"
    if j: "j < length (g_edges B g)" for j
  proof -
    have "edge_view_of B ?g (g_edges B g ! j) = edges_view B ?g ! j" using j S by (simp add: edges_view_def)
    also have "\<dots> = (if j = i then (g_source B g e, g_target B g e, p) else edges_view B g ! j)"
      using S i j nth_edges_view [OF i(1)] by (simp add: nth_list_update)
    finally show ?thesis using j by (simp add: edges_view_def)
  qed
  have ends: "g_source B ?g e' = g_source B g e' \<and> g_target B ?g e' = g_target B g e' \<and>
      g_eprops B ?g e' = (if e' = e then p else g_eprops B g e')"
    if e': "e' \<in> set (g_edges B g)" for e'
  proof -
    obtain j where j: "j < length (g_edges B g)" "g_edges B g ! j = e'" using e' by (meson in_set_conv_nth)
    show ?thesis
    proof (cases "e' = e")
      case True
      with view [OF i(1)] i(2) show ?thesis by (simp add: edge_view_of_def)
    next
      case False
      with i(2) j(2) have "j \<noteq> i" by auto
      with view [OF j(1)] j(2) False show ?thesis by (simp add: edge_view_of_def)
    qed
  qed
  from ends S show "same_shape B g ?g"
    using edge_set_eprops [OF i(1)] out_edges_set_eprops [OF i(1)] i(2) by (simp add: same_shape_def)
  show "g_eprops B ?g e = p" using ends [OF assms] by simp
  show "e' \<in> set (g_edges B g) \<Longrightarrow> e' \<noteq> e \<Longrightarrow> g_eprops B ?g e' = g_eprops B g e'" using ends by simp
qed

lemma same_shape_trans: "same_shape B g g' \<Longrightarrow> same_shape B g' g'' \<Longrightarrow> same_shape B g g''"
  unfolding same_shape_def by simp

lemma same_shape_node:
  "same_shape B g g' \<Longrightarrow> g_num_vertices B g' = g_num_vertices B g"
  "same_shape B g g' \<Longrightarrow> v < g_num_vertices B g \<Longrightarrow> g_node B g' v = g_node B g v"
  unfolding same_shape_def by (metis length_nodes_view, metis length_nodes_view nth_nodes_view)

end

section \<open>A plain adjacency list with this contract\<close>

record vgraph =
  vg_nodes :: "NodeProperties list"
  vg_edges :: "edge_view list"

definition vg_init :: vgraph where
  "vg_init = \<lparr>vg_nodes = [], vg_edges = []\<rparr>"

definition vg_out_edges :: "Vertex \<Rightarrow> vgraph \<Rightarrow> (nat \<times> Vertex) list" where
  "vg_out_edges v g =
     concat (map (\<lambda>(i, x). map (Pair i) (neighbours v x)) (enumerate 0 (vg_edges g)))"

definition vg_edge :: "Vertex \<Rightarrow> Vertex \<Rightarrow> vgraph \<Rightarrow> nat option" where
  "vg_edge u v g = map_option fst (find (\<lambda>(i, x). joins u v x) (enumerate 0 (vg_edges g)))"

definition vec_graph :: "(vgraph, nat) bgl" where
  "vec_graph =
     \<lparr>g_empty = vg_init,
      g_clear = (\<lambda>g. vg_init),
      g_num_vertices = (\<lambda>g. length (vg_nodes g)),
      g_node = (\<lambda>g v. vg_nodes g ! v),
      g_set_node = (\<lambda>v p g. g\<lparr>vg_nodes := (vg_nodes g)[v := p]\<rparr>),
      g_add_vertex = (\<lambda>g. (length (vg_nodes g), g\<lparr>vg_nodes := vg_nodes g @ [NodeProperties_init]\<rparr>)),
      g_edges = (\<lambda>g. [0..<length (vg_edges g)]),
      g_source = (\<lambda>g e. fst (vg_edges g ! e)),
      g_target = (\<lambda>g e. fst (snd (vg_edges g ! e))),
      g_eprops = (\<lambda>g e. snd (snd (vg_edges g ! e))),
      g_set_eprops = (\<lambda>e p g. g\<lparr>vg_edges := (vg_edges g)
         [e := (fst (vg_edges g ! e), fst (snd (vg_edges g ! e)), p)]\<rparr>),
      g_add_edge = (\<lambda>u v g. ((length (vg_edges g), True),
         g\<lparr>vg_edges := vg_edges g @ [(u, v, EdgeProperties_init)]\<rparr>)),
      g_edge = vg_edge,
      g_out_edges = vg_out_edges,
      g_clear_vertex = (\<lambda>v g. g\<lparr>vg_edges := filter (\<lambda>x. \<not> incident v x) (vg_edges g)\<rparr>),
      g_remove_vertex = (\<lambda>v g. g\<lparr>vg_nodes := remove_nth v (vg_nodes g),
         vg_edges := map (shift_edge v) (vg_edges g)\<rparr>)\<rparr>"

lemma vec_graph_sel [simp]:
  "g_empty vec_graph = vg_init"
  "g_clear vec_graph g = vg_init"
  "g_num_vertices vec_graph g = length (vg_nodes g)"
  "g_node vec_graph g v = vg_nodes g ! v"
  "g_set_node vec_graph v p g = g\<lparr>vg_nodes := (vg_nodes g)[v := p]\<rparr>"
  "g_add_vertex vec_graph g =
     (length (vg_nodes g), g\<lparr>vg_nodes := vg_nodes g @ [NodeProperties_init]\<rparr>)"
  "g_edges vec_graph g = [0..<length (vg_edges g)]"
  "g_source vec_graph g i = fst (vg_edges g ! i)"
  "g_target vec_graph g i = fst (snd (vg_edges g ! i))"
  "g_eprops vec_graph g i = snd (snd (vg_edges g ! i))"
  "g_set_eprops vec_graph i q g = g\<lparr>vg_edges := (vg_edges g)
     [i := (fst (vg_edges g ! i), fst (snd (vg_edges g ! i)), q)]\<rparr>"
  "g_add_edge vec_graph u w g = ((length (vg_edges g), True),
     g\<lparr>vg_edges := vg_edges g @ [(u, w, EdgeProperties_init)]\<rparr>)"
  "g_edge vec_graph = vg_edge"
  "g_out_edges vec_graph = vg_out_edges"
  "g_clear_vertex vec_graph v g = g\<lparr>vg_edges := filter (\<lambda>x. \<not> incident v x) (vg_edges g)\<rparr>"
  "g_remove_vertex vec_graph v g =
     g\<lparr>vg_nodes := remove_nth v (vg_nodes g), vg_edges := map (shift_edge v) (vg_edges g)\<rparr>"
  by (simp_all add: vec_graph_def)

lemma vec_graph_edge_view [simp]: "edge_view_of vec_graph g i = vg_edges g ! i"
  by (simp add: edge_view_of_def)

lemma vec_graph_views [simp]:
  "nodes_view vec_graph g = vg_nodes g" "edges_view vec_graph g = vg_edges g"
  by (auto simp: nodes_view_def edges_view_def intro!: nth_equalityI)

lemma map_snd_concat_Pair:
  "map snd (concat (map (\<lambda>(i, x). map (Pair i) (f x)) (enumerate n xs))) = concat (map f xs)"
  by (induction xs arbitrary: n) (auto simp: comp_def)

lemma find_enumerate_None:
  "find (\<lambda>(i, x). P x) (enumerate n xs) = None \<longleftrightarrow> (\<forall>x \<in> set xs. \<not> P x)"
  by (induction xs arbitrary: n) auto

lemma find_enumerate_Some:
  "find (\<lambda>(i, x). P x) (enumerate n xs) = Some (k, y) \<Longrightarrow>
     n \<le> k \<and> k < n + length xs \<and> xs ! (k - n) = y \<and> P y"
proof (induction xs arbitrary: n)
  case (Cons a xs)
  show ?case
  proof (cases "P a")
    case True
    with Cons.prems show ?thesis by simp
  next
    case False
    with Cons.prems Cons.IH [of "Suc n"] show ?thesis
      by (auto simp: nth_Cons' Suc_diff_le)
  qed
qed simp

lemma vg_edge_None: "vg_edge u v g = None \<longleftrightarrow> (\<forall>x \<in> set (vg_edges g). \<not> joins u v x)"
  by (simp add: vg_edge_def find_enumerate_None)

lemma vg_edge_Some:
  "vg_edge u v g = Some e \<Longrightarrow> e < length (vg_edges g) \<and> joins u v (vg_edges g ! e)"
  by (auto simp: vg_edge_def dest: find_enumerate_Some)

text \<open>The search and the out-edges depend on the ends of the edges only.\<close>

lemma vg_edge_cong:
  assumes "map (joins u v) (vg_edges g) = map (joins u' v') (vg_edges g')"
  shows "vg_edge u v g = vg_edge u' v' g'"
proof -
  have "map (joins u v) xs = map (joins u' v') ys \<Longrightarrow>
      map_option fst (find (\<lambda>(i, x). joins u v x) (enumerate n xs)) =
      map_option fst (find (\<lambda>(i, x). joins u' v' x) (enumerate n ys))" for xs ys n
  proof (induction xs arbitrary: n ys)
    case (Cons x xs)
    then obtain y ys' where "ys = y # ys'" "joins u v x = joins u' v' y" "map (joins u v) xs = map (joins u' v') ys'"
      by (cases ys) auto
    with Cons.IH [of ys' "Suc n"] show ?case by simp
  qed simp
  with assms show ?thesis by (simp add: vg_edge_def)
qed

lemma vg_out_edges_cong:
  assumes "map (neighbours v) (vg_edges g) = map (neighbours v) (vg_edges g')"
  shows "vg_out_edges v g = vg_out_edges v g'"
proof -
  have "map (neighbours v) xs = map (neighbours v) ys \<Longrightarrow>
      map (\<lambda>(i, x). map (Pair i) (neighbours v x)) (enumerate n xs) =
      map (\<lambda>(i, x). map (Pair i) (neighbours v x)) (enumerate n ys)" for xs ys n
  proof (induction xs arbitrary: n ys)
    case (Cons x xs)
    then obtain y ys' where "ys = y # ys'" "neighbours v x = neighbours v y" "map (neighbours v) xs = map (neighbours v) ys'"
      by (cases ys) auto
    with Cons.IH [of ys' "Suc n"] show ?case by simp
  qed simp
  from this [OF assms] show ?thesis by (simp add: vg_out_edges_def)
qed

lemma same_ends_update:
  assumes "i < length xs"
  shows "map (joins u v) (xs[i := (fst (xs ! i), fst (snd (xs ! i)), p)]) = map (joins u v) xs"
    and "map (neighbours v) (xs[i := (fst (xs ! i), fst (snd (xs ! i)), p)]) = map (neighbours v) xs"
proof -
  have ends: "joins u v (fst x, fst (snd x), p) = joins u v x" "neighbours v (fst x, fst (snd x), p) = neighbours v x" for x
    by (cases x; simp)+
  show "map (joins u v) (xs[i := (fst (xs ! i), fst (snd (xs ! i)), p)]) = map (joins u v) xs"
    and "map (neighbours v) (xs[i := (fst (xs ! i), fst (snd (xs ! i)), p)]) = map (neighbours v) xs"
    using assms list_update_id [of "map (joins u v) xs" i] list_update_id [of "map (neighbours v) xs" i]
    by (simp_all add: map_update ends del: joins.simps neighbours.simps)
qed

lemma neighbours_joins: "w \<in> set (neighbours v x) \<Longrightarrow> joins v w x"
  by (cases x) auto

interpretation vg: boost_graph vec_graph
proof (unfold_locales, goal_cases)
  case (11 u v g)
  show ?case by (simp add: vg_edge_None)
next
  case (12 u v g e)
  then show ?case by (auto dest!: vg_edge_Some)
next
  case (13 v g)
  show ?case by (simp add: g_adjacent_vertices_def vg_out_edges_def map_snd_concat_Pair)
next
  case (14 e w v g)
  then have "e < length (vg_edges g)" "w \<in> set (neighbours v (vg_edges g ! e))"
    by (auto simp: vg_out_edges_def in_set_enumerate_eq)
  then show ?case by (simp add: neighbours_joins)
next
  case (18 u v g)
  have "joins u v = joins v u" by (rule ext) auto
  then show ?case by (auto intro: vg_edge_cong)
next
  case (19 i g u v ep)
  then show ?case using same_ends_update(1) [of i "vg_edges g" u v ep] by (auto intro: vg_edge_cong)
next
  case (20 i g v ep)
  then show ?case using same_ends_update(2) [of i "vg_edges g" v ep] by (auto intro: vg_out_edges_cong)
qed (auto simp: vg_init_def prod.case_eq_if nth_append)

end
