(* ===== verification/Topological_Map.thy ===== *)
theory Topological_Map
  imports Boost_Graph
begin

text \<open>
  \<open>navbim_util::TopologicalMap\<close> (\<open>topological_map.hpp\<close>, \<open>topological_map.cpp\<close>): the planner's
  copy of the topological map. It is deserialised from a \<open>Topomap\<close> message
  (\<open>loadFromMessage\<close>), keeps lookup tables and cached maxima beside the graph, and can be turned
  back into a message (\<open>convertGraphToMessage\<close>).

  The lemmas refine the loader to a description of the graph it builds, show that the tables and
  caches agree with the graph after a load, and give the round trip of the two conversions.
\<close>

section \<open>State and construction\<close>

record 'g TopologicalMap =
  tp_graph :: 'g
  tp_source_file :: string
  tp_building_name :: string
  tp_total_floors :: "32 word"
  tp_floor_names :: "string list"
  tp_id_to_vertex :: "string \<rightharpoonup> Vertex"
  tp_name_to_vertex :: "string \<rightharpoonup> Vertex"
  tp_cached_max_node_id :: int
  tp_cached_max_edge_id :: int
  tp_floor_vertices :: "Vertex set"

definition TopologicalMap_init :: "('g, 'e) bgl \<Rightarrow> 'g TopologicalMap" where
  "TopologicalMap_init B =
     \<lparr>tp_graph = g_empty B, tp_source_file = '''', tp_building_name = '''', tp_total_floors = 0,
      tp_floor_names = [], tp_id_to_vertex = Map.empty, tp_name_to_vertex = Map.empty,
      tp_cached_max_node_id = -1, tp_cached_max_edge_id = -1, tp_floor_vertices = {}\<rparr>"

definition clear :: "('g, 'e) bgl \<Rightarrow> 'g TopologicalMap \<Rightarrow> 'g TopologicalMap" where
  "clear B m =
     m\<lparr>tp_graph := g_clear B (tp_graph m),
       tp_source_file := '''',
       tp_building_name := '''',
       tp_total_floors := 0,
       tp_floor_names := [],
       tp_id_to_vertex := Map.empty,
       tp_name_to_vertex := Map.empty,
       tp_cached_max_node_id := -1,
       tp_cached_max_edge_id := -1\<rparr>"

section \<open>Loading from a message\<close>

text \<open>A ring is closed by repeating its first point, unless it ends there already.\<close>

definition close_ring :: "ring \<Rightarrow> ring" where
  "close_ring r =
     (if r \<noteq> [] \<and> (fst (hd r) \<noteq> fst (last r) \<or> snd (hd r) \<noteq> snd (last r))
      then r @ [hd r] else r)"

definition convertPolygonFromMessage :: "polygon_msg \<Rightarrow> Polygon" where
  "convertPolygonFromMessage pm =
     \<lparr>poly_outer = close_ring (pm_outer pm), poly_inners = map close_ring (pm_holes pm)\<rparr>"

definition bbox_of_msg :: "bbox_msg \<Rightarrow> BoundingBox" where
  "bbox_of_msg bm =
     \<lparr>bb_min_x = pos_x (bm_min bm), bb_max_x = pos_x (bm_max bm),
      bb_min_y = pos_y (bm_min bm), bb_max_y = pos_y (bm_max bm),
      bb_min_z = pos_z (bm_min bm), bb_max_z = pos_z (bm_max bm)\<rparr>"

text \<open>The properties of one node, written over those of the fresh vertex.\<close>

definition node_of_msg :: "TopomapNode \<Rightarrow> int \<Rightarrow> NodeProperties \<Rightarrow> NodeProperties" where
  "node_of_msg msg i props =
     props\<lparr>np_id := i,
       np_name := tn_name msg,
       np_type := tn_type msg,
       np_ifc_guid := (if tn_ifc_guid msg \<noteq> [] then Some (tn_ifc_guid msg) else np_ifc_guid props),
       np_subtype := (if tn_subtype msg \<noteq> [] then Some (tn_subtype msg) else np_subtype props),
       np_position := tn_position msg,
       np_min_z := (if tn_type msg = ''floor'' then Some (tn_min_z msg) else np_min_z props),
       np_max_z := (if tn_type msg = ''floor'' then Some (tn_max_z msg) else np_max_z props),
       np_floor := (if tn_floor msg \<noteq> [] then Some (tn_floor msg) else np_floor props),
       np_bbox :=
         (if (tn_type msg = ''room'' \<or> tn_type msg = ''transition'') \<and>
             (pos_x (bm_min (tn_bbox msg)) \<noteq> 0 \<or> pos_x (bm_max (tn_bbox msg)) \<noteq> 0)
          then Some (bbox_of_msg (tn_bbox msg)) else np_bbox props),
       np_polygon :=
         (if tn_type msg = ''room'' \<and> pm_outer (tn_polygon msg) \<noteq> []
          then Some (convertPolygonFromMessage (tn_polygon msg)) else np_polygon props)\<rparr>"

definition load_node ::
  "('g, 'e) bgl \<Rightarrow> TopomapNode \<Rightarrow> 'g \<times> (string \<rightharpoonup> Vertex) \<Rightarrow> ('g \<times> (string \<rightharpoonup> Vertex)) result" where
  "load_node B msg st =
     (case st of (g, id_map) \<Rightarrow>
        case g_add_vertex B g of (v, g1) \<Rightarrow>
          bind_result (stoi (tn_id msg)) (\<lambda>i.
            Inr (g_set_node B v (node_of_msg msg i (g_node B g1 v)) g1, id_map(tn_id msg \<mapsto> v))))"

definition edge_of_msg :: "TopomapEdge \<Rightarrow> int \<Rightarrow> int option \<Rightarrow> EdgeProperties \<Rightarrow> EdgeProperties" where
  "edge_of_msg msg i room props =
     props\<lparr>ep_id := i,
       ep_type := te_type msg,
       ep_subtype := (if te_subtype msg \<noteq> [] then Some (te_subtype msg) else ep_subtype props),
       ep_room_id := (case room of Some r \<Rightarrow> Some r | None \<Rightarrow> ep_room_id props),
       ep_estimated_distance := te_estimated_distance msg,
       ep_planned_distance := te_planned_distance msg,
       ep_estimated_cost := te_estimated_cost msg,
       ep_planned_cost := te_planned_cost msg,
       ep_path :=
         (if path_poses (te_path msg) \<noteq> []
          then Some ((case ep_path props of Some ws \<Rightarrow> ws | None \<Rightarrow> []) @
                     map waypoint_of_pose (path_poses (te_path msg)))
          else ep_path props)\<rparr>"

definition parse_room_id :: "string \<Rightarrow> int option result" where
  "parse_room_id s = (if s = [] then Inr None else bind_result (stoi s) (\<lambda>r. Inr (Some r)))"

definition load_edge ::
  "('g, 'e) bgl \<Rightarrow> (string \<rightharpoonup> Vertex) \<Rightarrow> TopomapEdge \<Rightarrow> 'g \<Rightarrow> 'g result" where
  "load_edge B id_map msg g =
     (case (id_map (te_source msg), id_map (te_target msg)) of
        (Some s, Some t) \<Rightarrow>
          (case g_add_edge B s t g of ((e, added), g1) \<Rightarrow>
             if added then
               bind_result (stoi (te_id msg)) (\<lambda>i.
                 bind_result (parse_room_id (te_room_id msg)) (\<lambda>room.
                   Inr (g_set_eprops B e (edge_of_msg msg i room (g_eprops B g1 e)) g1)))
             else Inr g1)
      | _ \<Rightarrow> Inr g)"

definition buildLookupMaps :: "('g, 'e) bgl \<Rightarrow> 'g TopologicalMap \<Rightarrow> 'g TopologicalMap" where
  "buildLookupMaps B m =
     fold (\<lambda>v m.
         let node = g_node B (tp_graph m) v;
             m1 = m\<lparr>tp_id_to_vertex := (tp_id_to_vertex m)(to_string (np_id node) \<mapsto> v)\<rparr>
         in if np_name node \<noteq> []
            then m1\<lparr>tp_name_to_vertex := (tp_name_to_vertex m1)(np_name node \<mapsto> v)\<rparr>
            else m1)
       (g_vertices B (tp_graph m))
       (m\<lparr>tp_id_to_vertex := Map.empty, tp_name_to_vertex := Map.empty\<rparr>)"

definition max_ids_node :: "('g, 'e) bgl \<Rightarrow> 'g \<Rightarrow> Vertex \<Rightarrow> int \<times> Vertex set \<Rightarrow> int \<times> Vertex set" where
  "max_ids_node B g v st =
     (case st of (mx, floors) \<Rightarrow>
        (if mx < np_id (g_node B g v) then np_id (g_node B g v) else mx,
         if np_type (g_node B g v) = ''floor'' then insert v floors else floors))"

definition updateMaxIds :: "('g, 'e) bgl \<Rightarrow> 'g TopologicalMap \<Rightarrow> 'g TopologicalMap" where
  "updateMaxIds B m =
     (let g = tp_graph m;
          st = fold (max_ids_node B g) (g_vertices B g) (-1, {});
          mx = fold (\<lambda>e mx. if mx < ep_id (g_eprops B g e) then ep_id (g_eprops B g e) else mx)
                 (g_edges B g) (-1)
      in m\<lparr>tp_cached_max_node_id := fst st, tp_floor_vertices := snd st,
           tp_cached_max_edge_id := mx\<rparr>)"

text \<open>
  The body of the \<open>try\<close> block: all nodes, then all edges. An exception anywhere ends in the
  handler, which clears the map.
\<close>

definition load_graph :: "('g, 'e) bgl \<Rightarrow> Topomap \<Rightarrow> 'g \<Rightarrow> 'g result" where
  "load_graph B msg g =
     bind_result (fold_result (load_node B) (tm_nodes msg) (g, Map.empty))
       (\<lambda>(g1, id_map). fold_result (load_edge B id_map) (tm_edges msg) g1)"

definition loadFromMessage ::
  "('g, 'e) bgl \<Rightarrow> Topomap \<Rightarrow> 'g TopologicalMap \<Rightarrow> bool \<times> 'g TopologicalMap" where
  "loadFromMessage B msg m =
     (let m0 = (clear B m)\<lparr>tp_source_file := tm_source_file msg,
                 tp_building_name := tm_building_name msg,
                 tp_total_floors := tm_total_floors msg,
                 tp_floor_names := tm_floor_names msg\<rparr>
      in case load_graph B msg (tp_graph m0) of
           Inl exn \<Rightarrow> (False, clear B m0)
         | Inr g \<Rightarrow> (True, updateMaxIds B (buildLookupMaps B (m0\<lparr>tp_graph := g\<rparr>))))"

section \<open>Queries\<close>

definition findVertexById :: "'g TopologicalMap \<Rightarrow> string \<Rightarrow> Vertex option" where
  "findVertexById m node_id = tp_id_to_vertex m node_id"

definition findVertexByName :: "'g TopologicalMap \<Rightarrow> string \<Rightarrow> Vertex option" where
  "findVertexByName m node_name = tp_name_to_vertex m node_name"

definition getVerticesByType :: "('g, 'e) bgl \<Rightarrow> 'g TopologicalMap \<Rightarrow> string \<Rightarrow> Vertex list" where
  "getVerticesByType B m ty =
     filter (\<lambda>v. np_type (g_node B (tp_graph m) v) = ty) (g_vertices B (tp_graph m))"

definition isEmpty :: "('g, 'e) bgl \<Rightarrow> 'g TopologicalMap \<Rightarrow> bool" where
  "isEmpty B m \<longleftrightarrow> g_num_vertices B (tp_graph m) = 0"

definition numVertices :: "('g, 'e) bgl \<Rightarrow> 'g TopologicalMap \<Rightarrow> nat" where
  "numVertices B m = g_num_vertices B (tp_graph m)"

definition numEdges :: "('g, 'e) bgl \<Rightarrow> 'g TopologicalMap \<Rightarrow> nat" where
  "numEdges B m = length (g_edges B (tp_graph m))"

definition getMaxNodeId :: "'g TopologicalMap \<Rightarrow> int" where
  "getMaxNodeId m = tp_cached_max_node_id m"

definition getMaxEdgeId :: "'g TopologicalMap \<Rightarrow> int" where
  "getMaxEdgeId m = tp_cached_max_edge_id m"

definition getFloorVertices :: "'g TopologicalMap \<Rightarrow> Vertex set" where
  "getFloorVertices m = tp_floor_vertices m"

definition position_distance :: "Position \<Rightarrow> Position \<Rightarrow> real \<Rightarrow> real" where
  "position_distance p1 p2 penalize_z =
     (let dx = pos_x p1 - pos_x p2;
          dy = pos_y p1 - pos_y p2;
          dz = (pos_z p1 - pos_z p2) * penalize_z
      in sqrt (dx * dx + dy * dy + dz * dz))"

definition euclideanDistanceBetweenNodes :: "('g, 'e) bgl \<Rightarrow> 'g \<Rightarrow> Vertex \<Rightarrow> Vertex \<Rightarrow> real" where
  "euclideanDistanceBetweenNodes B g v1 v2 =
     (let p1 = np_position (g_node B g v1);
          p2 = np_position (g_node B g v2);
          dx = pos_x p1 - pos_x p2;
          dy = pos_y p1 - pos_y p2;
          dz = pos_z p1 - pos_z p2
      in sqrt (dx * dx + dy * dy + dz * dz))"

definition costBetweenNodes :: "('g, 'e) bgl \<Rightarrow> 'g \<Rightarrow> Vertex \<Rightarrow> Vertex \<Rightarrow> real \<Rightarrow> real" where
  "costBetweenNodes B g v1 v2 penalize_z_movement =
     position_distance (np_position (g_node B g v1)) (np_position (g_node B g v2))
       penalize_z_movement"

fun isOnSameFloor :: "string list option \<Rightarrow> string list option \<Rightarrow> bool" where
  "isOnSameFloor (Some floor1) (Some floor2) =
     list_ex (\<lambda>f1. list_ex (\<lambda>f2. f1 = f2) floor2) floor1"
| "isOnSameFloor _ _ = False"

section \<open>Conversion to a message\<close>

text \<open>
  \<open>f32\<close> is the conversion of a \<open>double\<close> to a \<open>float\<close>, whose rounding C++ leaves to the
  implementation. A room id, an \<open>int\<close>, is assigned to the \<open>std::string\<close> field \<open>room_id\<close> without
  \<open>std::to_string\<close>: the assignment operator taken is that of a single \<open>char\<close>, so the field holds
  the one character with that code (modulo 256).
\<close>

definition ring_to_msg :: "(real \<Rightarrow> real) \<Rightarrow> ring \<Rightarrow> Point2D list" where
  "ring_to_msg f32 r = map (\<lambda>(x, y). (f32 x, f32 y)) r"

definition bbox_to_msg :: "BoundingBox \<Rightarrow> bbox_msg" where
  "bbox_to_msg bb =
     \<lparr>bm_min = \<lparr>pos_x = bb_min_x bb, pos_y = bb_min_y bb, pos_z = bb_min_z bb\<rparr>,
      bm_max = \<lparr>pos_x = bb_max_x bb, pos_y = bb_max_y bb, pos_z = bb_max_z bb\<rparr>\<rparr>"

definition polygon_to_msg :: "(real \<Rightarrow> real) \<Rightarrow> Polygon \<Rightarrow> polygon_msg" where
  "polygon_to_msg f32 poly =
     \<lparr>pm_outer = ring_to_msg f32 (poly_outer poly),
      pm_holes = map (ring_to_msg f32) (poly_inners poly)\<rparr>"

definition value_or :: "'a option \<Rightarrow> 'a \<Rightarrow> 'a" where
  "value_or x d = (case x of Some y \<Rightarrow> y | None \<Rightarrow> d)"

definition node_to_msg :: "(real \<Rightarrow> real) \<Rightarrow> NodeProperties \<Rightarrow> TopomapNode" where
  "node_to_msg f32 node =
     TopomapNode_init\<lparr>tn_id := to_string (np_id node),
       tn_name := np_name node,
       tn_type := np_type node,
       tn_floor := value_or (np_floor node) [],
       tn_position := np_position node,
       tn_min_z := (if np_type node = ''floor'' then value_or (np_min_z node) 0
                    else tn_min_z TopomapNode_init),
       tn_max_z := (if np_type node = ''floor'' then value_or (np_max_z node) 0
                    else tn_max_z TopomapNode_init),
       tn_bbox := (case np_bbox node of Some bb \<Rightarrow> bbox_to_msg bb
                   | None \<Rightarrow> tn_bbox TopomapNode_init),
       tn_polygon := (case np_polygon node of Some poly \<Rightarrow> polygon_to_msg f32 poly
                      | None \<Rightarrow> tn_polygon TopomapNode_init),
       tn_ifc_guid := value_or (np_ifc_guid node) [],
       tn_subtype := value_or (np_subtype node) []\<rparr>"

definition assign_int_to_string :: "int \<Rightarrow> string" where
  "assign_int_to_string r = [char_of (nat (r mod 256))]"

definition edge_to_msg :: "int \<Rightarrow> int \<Rightarrow> EdgeProperties \<Rightarrow> TopomapEdge" where
  "edge_to_msg source_id target_id edge =
      TopomapEdge_init\<lparr>te_id := to_string (ep_id edge),
        te_source := to_string source_id,
        te_target := to_string target_id,
        te_type := ep_type edge,
        te_estimated_distance := ep_estimated_distance edge,
        te_planned_distance := ep_planned_distance edge,
        te_estimated_cost := ep_estimated_cost edge,
        te_planned_cost := ep_planned_cost edge,
        te_path := (case ep_path edge of
            Some ws \<Rightarrow> if ws \<noteq> []
              then \<lparr>path_frame_id = ''ifc'', path_poses = map (pose_of_waypoint ''ifc'') ws\<rparr>
              else path_msg_init
          | None \<Rightarrow> path_msg_init),
        te_subtype := value_or (ep_subtype edge) [],
        te_room_id := (case ep_room_id edge of Some r \<Rightarrow> assign_int_to_string r | None \<Rightarrow> [])\<rparr>"

text \<open>The messages of all nodes and of all edges of a graph, in order.\<close>

definition graph_to_msg ::
  "('g, 'e) bgl \<Rightarrow> (NodeProperties \<Rightarrow> TopomapNode) \<Rightarrow> (int \<Rightarrow> int \<Rightarrow> EdgeProperties \<Rightarrow> TopomapEdge) \<Rightarrow>
     'g \<Rightarrow> Topomap \<Rightarrow> Topomap" where
  "graph_to_msg B node_msg edge_msg g msg =
     msg\<lparr>tm_nodes := map (\<lambda>v. node_msg (g_node B g v)) (g_vertices B g),
         tm_edges := map (\<lambda>e. edge_msg (np_id (g_node B g (g_source B g e)))
                                (np_id (g_node B g (g_target B g e))) (g_eprops B g e)) (g_edges B g)\<rparr>"

definition convertGraphToMessage :: "(real \<Rightarrow> real) \<Rightarrow> ('g, 'e) bgl \<Rightarrow> 'g \<Rightarrow> Topomap" where
  "convertGraphToMessage f32 B g = graph_to_msg B (node_to_msg f32) edge_to_msg g Topomap_init"

section \<open>What the loader builds\<close>

text \<open>
  The specification of the loader over plain lists: the node properties in message order, the
  vertex each id string stands for (the last node with that id wins), and the edges whose two
  ends are known.
\<close>

definition parsed_node :: "TopomapNode \<Rightarrow> NodeProperties" where
  "parsed_node msg = node_of_msg msg (projr (stoi (tn_id msg))) NodeProperties_init"

primrec ids_of :: "nat \<Rightarrow> TopomapNode list \<Rightarrow> (string \<rightharpoonup> Vertex) \<Rightarrow> (string \<rightharpoonup> Vertex)" where
  "ids_of n [] ids = ids"
| "ids_of n (m # ms) ids = ids_of (Suc n) ms (ids(tn_id m \<mapsto> n))"

definition parsed_edge :: "TopomapEdge \<Rightarrow> EdgeProperties" where
  "parsed_edge msg =
     edge_of_msg msg (projr (stoi (te_id msg))) (projr (parse_room_id (te_room_id msg)))
       EdgeProperties_init"

definition resolve_edge :: "(string \<rightharpoonup> Vertex) \<Rightarrow> TopomapEdge \<Rightarrow> edge_view list" where
  "resolve_edge ids msg =
     (case (ids (te_source msg), ids (te_target msg)) of
        (Some s, Some t) \<Rightarrow> [(s, t, parsed_edge msg)]
      | _ \<Rightarrow> [])"

definition node_loadable :: "TopomapNode \<Rightarrow> bool" where
  "node_loadable msg \<longleftrightarrow> \<not> isl (stoi (tn_id msg))"

definition edge_loadable :: "(string \<rightharpoonup> Vertex) \<Rightarrow> TopomapEdge \<Rightarrow> bool" where
  "edge_loadable ids msg \<longleftrightarrow>
     ids (te_source msg) = None \<or> ids (te_target msg) = None \<or>
     (\<not> isl (stoi (te_id msg)) \<and> \<not> isl (parse_room_id (te_room_id msg)))"

definition loadable :: "Topomap \<Rightarrow> bool" where
  "loadable msg \<longleftrightarrow>
     list_all node_loadable (tm_nodes msg) \<and>
     list_all (edge_loadable (ids_of 0 (tm_nodes msg) Map.empty)) (tm_edges msg)"

definition loaded_nodes :: "Topomap \<Rightarrow> NodeProperties list" where
  "loaded_nodes msg = map parsed_node (tm_nodes msg)"

definition loaded_edges :: "Topomap \<Rightarrow> edge_view list" where
  "loaded_edges msg =
     concat (map (resolve_edge (ids_of 0 (tm_nodes msg) Map.empty)) (tm_edges msg))"

lemma ids_of_range:
  "ids_of n ms ids s = Some v \<Longrightarrow> ids s = Some v \<or> (n \<le> v \<and> v < n + length ms)"
  by (induction ms arbitrary: n ids) (fastforce split: if_splits)+

lemma ids_of_unchanged: "s \<notin> tn_id ` set ms \<Longrightarrow> ids_of n ms ids s = ids s"
  by (induction ms arbitrary: n ids) auto

lemma ids_of_distinct:
  "distinct (map tn_id ms) \<Longrightarrow> i < length ms \<Longrightarrow> ids_of n ms ids (tn_id (ms ! i)) = Some (n + i)"
proof (induction ms arbitrary: n ids i)
  case (Cons m ms)
  show ?case
  proof (cases i)
    case 0
    with Cons.prems show ?thesis by (simp add: ids_of_unchanged)
  next
    case (Suc j)
    with Cons.prems Cons.IH [of j "Suc n"] show ?thesis by simp
  qed
qed simp

context boost_graph
begin

lemma load_node_fails: "\<not> node_loadable msg \<Longrightarrow> \<exists>e. load_node B msg st = Inl e"
  by (cases st; cases "g_add_vertex B (fst st)"; cases "stoi (tn_id msg)")
     (auto simp: load_node_def node_loadable_def)

lemma load_node_succeeds:
  assumes "node_loadable msg"
  obtains g' where "load_node B msg (g, ids) = Inr (g', ids(tn_id msg \<mapsto> g_num_vertices B g))"
    and "nodes_view B g' = nodes_view B g @ [parsed_node msg]"
    and "edges_view B g' = edges_view B g"
proof -
  obtain v g1 where a: "g_add_vertex B g = (v, g1)" by fastforce
  obtain i where i: "stoi (tn_id msg) = Inr i"
    using assms by (cases "stoi (tn_id msg)") (auto simp: node_loadable_def)
  note V = add_vertex_set_node_view [OF a]
  show thesis
    by (rule that [of "g_set_node B v (parsed_node msg) g1"])
       (simp_all add: load_node_def a i V parsed_node_def del: V(1), simp add: V(1))
qed

lemma load_nodes_succeed:
  assumes "list_all node_loadable ms"
  shows "\<exists>g'. fold_result (load_node B) ms (g, ids) = Inr (g', ids_of (g_num_vertices B g) ms ids) \<and>
           nodes_view B g' = nodes_view B g @ map parsed_node ms \<and>
           edges_view B g' = edges_view B g"
  using assms
proof (induction ms arbitrary: g ids)
  case (Cons m ms)
  then have "node_loadable m" by simp
  then obtain g1 where g1: "load_node B m (g, ids) = Inr (g1, ids(tn_id m \<mapsto> g_num_vertices B g))"
    "nodes_view B g1 = nodes_view B g @ [parsed_node m]" "edges_view B g1 = edges_view B g"
    by (rule load_node_succeeds)
  have n: "g_num_vertices B g1 = Suc (g_num_vertices B g)"
    using g1(2) by (metis length_append_singleton length_nodes_view)
  from Cons.IH [of g1 "ids(tn_id m \<mapsto> g_num_vertices B g)"] Cons.prems
  obtain g' where "fold_result (load_node B) ms (g1, ids(tn_id m \<mapsto> g_num_vertices B g))
      = Inr (g', ids_of (g_num_vertices B g1) ms (ids(tn_id m \<mapsto> g_num_vertices B g)))"
    "nodes_view B g' = nodes_view B g1 @ map parsed_node ms" "edges_view B g' = edges_view B g1"
    by (auto simp del: fun_upd_apply)
  then show ?case using g1 n by (intro exI [of _ g']) (simp del: fun_upd_apply)
qed simp

lemma load_nodes_fail:
  assumes "\<not> list_all node_loadable ms"
  shows "\<exists>e. fold_result (load_node B) ms st = Inl e"
  using assms
proof (induction ms arbitrary: st)
  case (Cons m ms)
  show ?case
  proof (cases "load_node B m st")
    case (Inr st')
    then have "node_loadable m" using load_node_fails [of m st] by auto
    with Cons Inr show ?thesis by simp
  qed simp
qed simp

lemma load_edge_fails: "\<not> edge_loadable ids msg \<Longrightarrow>
    s < g_num_vertices B g \<Longrightarrow> t < g_num_vertices B g \<Longrightarrow>
    ids (te_source msg) = Some s \<Longrightarrow> ids (te_target msg) = Some t \<Longrightarrow>
    \<exists>e. load_edge B ids msg g = Inl e"
  by (cases "g_add_edge B s t g"; cases "stoi (te_id msg)"; cases "parse_room_id (te_room_id msg)")
     (auto simp: load_edge_def edge_loadable_def dest: add_edge_view)

lemma load_edge_succeeds:
  assumes "edge_loadable ids msg" and "\<And>s v. ids s = Some v \<Longrightarrow> v < g_num_vertices B g"
  obtains g' where "load_edge B ids msg g = Inr g'"
    and "nodes_view B g' = nodes_view B g"
    and "edges_view B g' = edges_view B g @ resolve_edge ids msg"
proof (cases "ids (te_source msg) = None \<or> ids (te_target msg) = None")
  case True
  then show thesis
    by (intro that [of g]) (auto simp: load_edge_def resolve_edge_def split: option.splits)
next
  case False
  then obtain s t where st: "ids (te_source msg) = Some s" "ids (te_target msg) = Some t" by auto
  obtain i room where p: "stoi (te_id msg) = Inr i" "parse_room_id (te_room_id msg) = Inr room"
    using assms(1) st
    by (cases "stoi (te_id msg)"; cases "parse_room_id (te_room_id msg)")
       (auto simp: edge_loadable_def)
  obtain e b g1 where a: "g_add_edge B s t g = ((e, b), g1)" by (metis prod.collapse)
  note E = add_edge_set_eprops_view [OF assms(2) [OF st(1)] assms(2) [OF st(2)] a]
  show thesis
    by (rule that [of "g_set_eprops B e (parsed_edge msg) g1"])
       (simp_all add: load_edge_def st a p E parsed_edge_def resolve_edge_def)
qed

lemma load_edges_succeed:
  assumes "list_all (edge_loadable ids) es" and "\<And>s v. ids s = Some v \<Longrightarrow> v < g_num_vertices B g"
  shows "\<exists>g'. fold_result (load_edge B ids) es g = Inr g' \<and> nodes_view B g' = nodes_view B g \<and>
           edges_view B g' = edges_view B g @ concat (map (resolve_edge ids) es)"
  using assms
proof (induction es arbitrary: g)
  case (Cons m es)
  then have "edge_loadable ids m" by simp
  then obtain g1 where g1: "load_edge B ids m g = Inr g1" "nodes_view B g1 = nodes_view B g"
    "edges_view B g1 = edges_view B g @ resolve_edge ids m"
    using Cons.prems(2) by (rule load_edge_succeeds)
  from Cons.IH [of g1] Cons.prems g1 num_vertices_cong [OF g1(2)] show ?case by auto
qed simp

lemma load_edges_fail:
  assumes "\<not> list_all (edge_loadable ids) es" and "\<And>s v. ids s = Some v \<Longrightarrow> v < g_num_vertices B g"
  shows "\<exists>e. fold_result (load_edge B ids) es g = Inl e"
  using assms
proof (induction es arbitrary: g)
  case (Cons m es)
  show ?case
  proof (cases "edge_loadable ids m")
    case True
    from True Cons.prems(2) obtain g1 where "load_edge B ids m g = Inr g1"
      and "nodes_view B g1 = nodes_view B g" by (rule load_edge_succeeds)
    moreover from this(2) have "g_num_vertices B g1 = g_num_vertices B g"
      by (rule num_vertices_cong)
    ultimately show ?thesis using Cons.IH [of g1] Cons.prems True by simp
  next
    case False
    then obtain s t where "ids (te_source m) = Some s" "ids (te_target m) = Some t"
      by (auto simp: edge_loadable_def)
    with load_edge_fails [OF False, of s g t] Cons.prems(2) show ?thesis by auto
  qed
qed simp

lemma load_graph_succeeds:
  assumes "loadable msg" and "nodes_view B g = []" and "edges_view B g = []"
  shows "\<exists>g'. load_graph B msg g = Inr g' \<and>
           nodes_view B g' = loaded_nodes msg \<and> edges_view B g' = loaded_edges msg"
proof -
  have n: "g_num_vertices B g = 0" using assms(2) by (metis length_nodes_view list.size(3))
  let ?ids = "ids_of 0 (tm_nodes msg) Map.empty"
  from load_nodes_succeed [of "tm_nodes msg" g Map.empty] assms n obtain g1 where
    g1: "fold_result (load_node B) (tm_nodes msg) (g, Map.empty) = Inr (g1, ?ids)"
      "nodes_view B g1 = loaded_nodes msg" "edges_view B g1 = []"
    by (auto simp: loadable_def loaded_nodes_def)
  have "v < g_num_vertices B g1" if "?ids s = Some v" for s v
    using ids_of_range [OF that] g1(2) length_nodes_view [of g1] by (simp add: loaded_nodes_def)
  from load_edges_succeed [of ?ids "tm_edges msg" g1, OF _ this] assms(1) g1 show ?thesis
    by (auto simp: load_graph_def loadable_def loaded_edges_def)
qed

lemma load_graph_fails:
  assumes "\<not> loadable msg" and "nodes_view B g = []"
  shows "\<exists>e. load_graph B msg g = Inl e"
proof (cases "list_all node_loadable (tm_nodes msg)")
  case False
  then show ?thesis using load_nodes_fail [of "tm_nodes msg" "(g, Map.empty)"]
    by (auto simp: load_graph_def)
next
  case True
  have n: "g_num_vertices B g = 0" using assms(2) by (metis length_nodes_view list.size(3))
  let ?ids = "ids_of 0 (tm_nodes msg) Map.empty"
  from load_nodes_succeed [OF True, of g Map.empty] n assms(2) obtain g1 where
    g1: "fold_result (load_node B) (tm_nodes msg) (g, Map.empty) = Inr (g1, ?ids)"
      "nodes_view B g1 = loaded_nodes msg"
    by (auto simp: loaded_nodes_def)
  have "v < g_num_vertices B g1" if "?ids s = Some v" for s v
    using ids_of_range [OF that] g1(2) length_nodes_view [of g1] by (simp add: loaded_nodes_def)
  from load_edges_fail [of ?ids "tm_edges msg" g1, OF _ this] assms(1) True g1(1) show ?thesis
    by (auto simp: load_graph_def loadable_def)
qed

end

section \<open>The lookup tables and the cached maxima\<close>

definition index_by :: "('v \<Rightarrow> string) \<Rightarrow> 'v list \<Rightarrow> (string \<rightharpoonup> 'v) \<Rightarrow> (string \<rightharpoonup> 'v)" where
  "index_by k vs f = fold (\<lambda>v f. f(k v \<mapsto> v)) vs f"

lemma index_by_Some: "index_by k vs f s = Some v \<Longrightarrow> f s = Some v \<or> (v \<in> set vs \<and> k v = s)"
  unfolding index_by_def
  by (induction vs arbitrary: f) (fastforce split: if_splits)+

lemma index_by_defined: "f (k v) \<noteq> None \<or> v \<in> set vs \<Longrightarrow> index_by k vs f (k v) \<noteq> None"
  unfolding index_by_def
proof (induction vs arbitrary: f)
  case (Cons w ws)
  then show ?case by (cases "k w = k v") auto
qed simp

lemma buildLookupMaps_eq:
  "buildLookupMaps B m =
     (let g = tp_graph m in
      m\<lparr>tp_id_to_vertex := index_by (\<lambda>v. to_string (np_id (g_node B g v))) (g_vertices B g) Map.empty,
        tp_name_to_vertex := index_by (\<lambda>v. np_name (g_node B g v))
          (filter (\<lambda>v. np_name (g_node B g v) \<noteq> []) (g_vertices B g)) Map.empty\<rparr>)"
proof -
  have "fold (\<lambda>v m.
         let node = g_node B (tp_graph m) v;
             m1 = m\<lparr>tp_id_to_vertex := (tp_id_to_vertex m)(to_string (np_id node) \<mapsto> v)\<rparr>
         in if np_name node \<noteq> []
            then m1\<lparr>tp_name_to_vertex := (tp_name_to_vertex m1)(np_name node \<mapsto> v)\<rparr>
            else m1) vs m' =
      m'\<lparr>tp_id_to_vertex :=
           index_by (\<lambda>v. to_string (np_id (g_node B (tp_graph m') v))) vs (tp_id_to_vertex m'),
         tp_name_to_vertex := index_by (\<lambda>v. np_name (g_node B (tp_graph m') v))
           (filter (\<lambda>v. np_name (g_node B (tp_graph m') v) \<noteq> []) vs) (tp_name_to_vertex m')\<rparr>"
    for vs and m' :: "'a TopologicalMap"
    by (induction vs arbitrary: m') (simp_all add: index_by_def Let_def)
  then show ?thesis by (simp add: buildLookupMaps_def Let_def)
qed

text \<open>A running maximum.\<close>

lemma fold_running_max:
  fixes f :: "'x \<Rightarrow> int"
  defines "r xs a \<equiv> fold (\<lambda>x mx. if mx < f x then f x else mx) xs a"
  shows "a \<le> r xs a" and "x \<in> set xs \<Longrightarrow> f x \<le> r xs a"
    and "r xs a = a \<or> (\<exists>x \<in> set xs. r xs a = f x)"
proof -
  show ge: "a \<le> r xs a" for xs a
    unfolding r_def by (induction xs arbitrary: a) (auto, meson less_imp_le order_trans)
  show "x \<in> set xs \<Longrightarrow> f x \<le> r xs a"
  proof (induction xs arbitrary: a)
    case (Cons y ys)
    have "f y \<le> r (y # ys) a"
      using ge [of "if a < f y then f y else a" ys] by (auto simp: r_def)
    with Cons show ?case by (auto simp: r_def)
  qed simp
  show "r xs a = a \<or> (\<exists>x \<in> set xs. r xs a = f x)"
    unfolding r_def by (induction xs arbitrary: a) (simp, simp, blast)
qed

lemma fold_max_ids_node:
  "fold (max_ids_node B g) vs (mx, floors) =
     (fold (\<lambda>v mx. if mx < np_id (g_node B g v) then np_id (g_node B g v) else mx) vs mx,
      floors \<union> {v \<in> set vs. np_type (g_node B g v) = ''floor''})"
  by (induction vs arbitrary: mx floors) (auto simp: max_ids_node_def)

text \<open>
  The tables and caches agree with the graph: an id or name resolves to a node that has it,
  every node's id and every nonempty name resolves, the cached maxima bound all ids and are
  attained (or are \<open>-1\<close>), and the floor cache holds exactly the floor nodes.
\<close>

definition coherent :: "('g, 'e) bgl \<Rightarrow> 'g TopologicalMap \<Rightarrow> bool" where
  "coherent B m \<longleftrightarrow>
     (let g = tp_graph m; n = g_num_vertices B g in
      (\<forall>s v. findVertexById m s = Some v \<longrightarrow> v < n \<and> to_string (np_id (g_node B g v)) = s) \<and>
      (\<forall>v < n. findVertexById m (to_string (np_id (g_node B g v))) \<noteq> None) \<and>
      (\<forall>s v. findVertexByName m s = Some v \<longrightarrow> v < n \<and> np_name (g_node B g v) = s \<and> s \<noteq> []) \<and>
      (\<forall>v < n. np_name (g_node B g v) \<noteq> [] \<longrightarrow> findVertexByName m (np_name (g_node B g v)) \<noteq> None) \<and>
      (\<forall>v < n. np_id (g_node B g v) \<le> tp_cached_max_node_id m) \<and>
      (tp_cached_max_node_id m = -1 \<or> (\<exists>v < n. tp_cached_max_node_id m = np_id (g_node B g v))) \<and>
      (\<forall>e \<in> set (g_edges B g). ep_id (g_eprops B g e) \<le> tp_cached_max_edge_id m) \<and>
      (tp_cached_max_edge_id m = -1 \<or>
        (\<exists>e \<in> set (g_edges B g). tp_cached_max_edge_id m = ep_id (g_eprops B g e))) \<and>
      tp_floor_vertices m = {v. v < n \<and> np_type (g_node B g v) = ''floor''})"

lemma tp_graph_rebuild [simp]: "tp_graph (updateMaxIds B (buildLookupMaps B m)) = tp_graph m"
  by (simp add: updateMaxIds_def buildLookupMaps_eq Let_def)

lemma rebuild_coherent: "coherent B (updateMaxIds B (buildLookupMaps B m))"
proof -
  let ?g = "tp_graph m" and ?m = "updateMaxIds B (buildLookupMaps B m)"
  let ?vs = "g_vertices B ?g"
  let ?key = "\<lambda>v. to_string (np_id (g_node B ?g v))" and ?name = "\<lambda>v. np_name (g_node B ?g v)"
  have ids: "tp_id_to_vertex ?m = index_by ?key ?vs Map.empty"
    and names: "tp_name_to_vertex ?m = index_by ?name (filter (\<lambda>v. ?name v \<noteq> []) ?vs) Map.empty"
    by (simp_all add: updateMaxIds_def buildLookupMaps_eq Let_def)
  have mx: "tp_cached_max_node_id ?m =
      fold (\<lambda>v mx. if mx < np_id (g_node B ?g v) then np_id (g_node B ?g v) else mx) ?vs (-1)"
    and floors: "tp_floor_vertices ?m = {v \<in> set ?vs. np_type (g_node B ?g v) = ''floor''}"
    and mxe: "tp_cached_max_edge_id ?m =
      fold (\<lambda>e mx. if mx < ep_id (g_eprops B ?g e) then ep_id (g_eprops B ?g e) else mx)
        (g_edges B ?g) (-1)"
    by (simp_all add: updateMaxIds_def buildLookupMaps_eq Let_def fold_max_ids_node)
  note node_max = fold_running_max [where f = "\<lambda>v. np_id (g_node B ?g v)" and xs = ?vs and a = "-1",
      folded mx]
  note edge_max = fold_running_max [where f = "\<lambda>e. ep_id (g_eprops B ?g e)" and xs = "g_edges B ?g"
      and a = "-1", folded mxe]
  have "\<forall>s v. tp_id_to_vertex ?m s = Some v \<longrightarrow> v < g_num_vertices B ?g \<and> ?key v = s"
    unfolding ids by (auto dest: index_by_Some)
  moreover have "\<forall>v < g_num_vertices B ?g. tp_id_to_vertex ?m (?key v) \<noteq> None"
    unfolding ids using index_by_defined [of Map.empty ?key _ ?vs] by simp
  moreover have "\<forall>s v. tp_name_to_vertex ?m s = Some v \<longrightarrow>
      v < g_num_vertices B ?g \<and> ?name v = s \<and> s \<noteq> []"
    unfolding names by (auto dest: index_by_Some)
  moreover have "\<forall>v < g_num_vertices B ?g. ?name v \<noteq> [] \<longrightarrow> tp_name_to_vertex ?m (?name v) \<noteq> None"
    unfolding names
    using index_by_defined [of Map.empty ?name _ "filter (\<lambda>v. ?name v \<noteq> []) ?vs"] by simp
  ultimately show ?thesis
    unfolding coherent_def Let_def findVertexById_def findVertexByName_def tp_graph_rebuild
    using node_max edge_max floors by auto
qed

section \<open>Messages that load back as the graph they were made from\<close>

text \<open>
  A message built node by node and edge by edge loads back as the graph when the ids are distinct
  and each conversion is undone by the loader's.
\<close>

definition faithful_msg ::
  "('g, 'e) bgl \<Rightarrow> 'g \<Rightarrow> (NodeProperties \<Rightarrow> TopomapNode) \<Rightarrow> ('e \<Rightarrow> TopomapEdge) \<Rightarrow> bool" where
  "faithful_msg B g nm em \<longleftrightarrow>
     wf_graph B g \<and> distinct (map np_id (nodes_view B g)) \<and>
     (\<forall>p \<in> set (nodes_view B g).
        in_int (np_id p) \<and> tn_id (nm p) = to_string (np_id p) \<and>
        node_of_msg (nm p) (np_id p) NodeProperties_init = p) \<and>
     (\<forall>e \<in> set (g_edges B g).
        in_int (ep_id (g_eprops B g e)) \<and>
        te_id (em e) = to_string (ep_id (g_eprops B g e)) \<and>
        te_source (em e) = to_string (np_id (g_node B g (g_source B g e))) \<and>
        te_target (em e) = to_string (np_id (g_node B g (g_target B g e))) \<and>
        parse_room_id (te_room_id (em e)) = Inr (ep_room_id (g_eprops B g e)) \<and>
        edge_of_msg (em e) (ep_id (g_eprops B g e)) (ep_room_id (g_eprops B g e)) EdgeProperties_init
          = g_eprops B g e)"

lemma parse_room_id_to_string: "in_int r \<Longrightarrow> parse_room_id (to_string r) = Inr (Some r)"
  by (simp add: parse_room_id_def stoi_to_string)

context boost_graph
begin

lemma faithful_msg_ids:
  assumes "faithful_msg B g nm em" and "v < g_num_vertices B g"
  shows "ids_of 0 (map (\<lambda>v. nm (g_node B g v)) (g_vertices B g)) Map.empty
           (to_string (np_id (g_node B g v))) = Some v"
proof -
  let ?ms = "map (\<lambda>v. nm (g_node B g v)) (g_vertices B g)"
  have ids: "tn_id (nm p) = to_string (np_id p)" "in_int (np_id p)" if "p \<in> set (nodes_view B g)" for p
    using assms(1) that by (auto simp: faithful_msg_def)
  have "map tn_id ?ms = map to_string (map np_id (nodes_view B g))"
    using ids by (auto simp: nodes_view_def)
  moreover have "distinct (map to_string (map np_id (nodes_view B g)))"
  proof (subst distinct_map, intro conjI)
    show "distinct (map np_id (nodes_view B g))" using assms(1) by (simp add: faithful_msg_def)
    show "inj_on to_string (set (map np_id (nodes_view B g)))" using ids(2) by (auto simp: inj_on_def)
  qed
  ultimately have "distinct (map tn_id ?ms)" by simp
  then have "ids_of 0 ?ms Map.empty (tn_id (?ms ! v)) = Some (0 + v)"
    using assms(2) by (intro ids_of_distinct) simp_all
  moreover have "tn_id (?ms ! v) = to_string (np_id (g_node B g v))"
    using assms(2) ids(1) by (simp add: nodes_view_def)
  ultimately show ?thesis by simp
qed

lemma faithful_msg_loads:
  assumes "faithful_msg B g nm em"
    and "tm_nodes msg = map (\<lambda>v. nm (g_node B g v)) (g_vertices B g)"
    and "tm_edges msg = map em (g_edges B g)"
  shows "loadable msg" and "loaded_nodes msg = nodes_view B g" and "loaded_edges msg = edges_view B g"
proof -
  let ?ids = "ids_of 0 (tm_nodes msg) Map.empty"
  have node: "stoi (tn_id (nm p)) = Inr (np_id p) \<and> parsed_node (nm p) = p"
    if "p \<in> set (nodes_view B g)" for p
    using assms(1) that by (auto simp: faithful_msg_def stoi_to_string parsed_node_def)
  have edge: "edge_loadable ?ids (em e) \<and> resolve_edge ?ids (em e) = [edge_view_of B g e]"
    if e: "e \<in> set (g_edges B g)" for e
  proof -
    have "edge_view_of B g e \<in> set (edges_view B g)" using e by (simp add: edges_view_def)
    then have ends: "g_source B g e < g_num_vertices B g" "g_target B g e < g_num_vertices B g"
      using assms(1) by (auto simp: faithful_msg_def wf_graph_def list_all_iff edge_view_of_def)
    show ?thesis
      using assms(1) e faithful_msg_ids [OF assms(1) ends(1)] faithful_msg_ids [OF assms(1) ends(2)]
      by (auto simp: faithful_msg_def edge_loadable_def resolve_edge_def parsed_edge_def
          stoi_to_string edge_view_of_def assms(2))
  qed
  show "loadable msg"
    using node edge by (auto simp: loadable_def assms(2,3) list_all_iff node_loadable_def nodes_view_def)
  show "loaded_nodes msg = nodes_view B g"
    using node by (simp add: loaded_nodes_def assms(2) nodes_view_def)
  have "concat (map (\<lambda>e. resolve_edge ?ids (em e)) es) = map (edge_view_of B g) es"
    if "set es \<subseteq> set (g_edges B g)" for es
    using that edge by (induction es) auto
  from this [of "g_edges B g"] show "loaded_edges msg = edges_view B g"
    by (simp add: loaded_edges_def assms(3) edges_view_def comp_def)
qed

lemma loaded_wf:
  assumes "nodes_view B g = loaded_nodes msg" and "edges_view B g = loaded_edges msg"
  shows "wf_graph B g"
proof -
  have "g_num_vertices B g = length (tm_nodes msg)"
    using assms(1) by (metis length_map length_nodes_view loaded_nodes_def)
  then show ?thesis
    unfolding wf_graph_def assms(2) loaded_edges_def resolve_edge_def list_all_iff
    by (auto split: option.splits dest!: ids_of_range [OF sym])
qed

end


lemma rebuild_metadata [simp]:
  "tp_source_file (updateMaxIds B (buildLookupMaps B m)) = tp_source_file m"
  "tp_building_name (updateMaxIds B (buildLookupMaps B m)) = tp_building_name m"
  "tp_total_floors (updateMaxIds B (buildLookupMaps B m)) = tp_total_floors m"
  "tp_floor_names (updateMaxIds B (buildLookupMaps B m)) = tp_floor_names m"
  by (simp_all add: updateMaxIds_def buildLookupMaps_eq Let_def)

text \<open>The two outcomes of a load, from any earlier state of the map.\<close>

context boost_graph
begin

lemma load_outcome_success:
  assumes "loadable msg"
  shows "\<exists>g. loadFromMessage B msg m =
           (True, updateMaxIds B (buildLookupMaps B
              ((clear B m)\<lparr>tp_source_file := tm_source_file msg,
                tp_building_name := tm_building_name msg, tp_total_floors := tm_total_floors msg,
                tp_floor_names := tm_floor_names msg, tp_graph := g\<rparr>))) \<and>
           nodes_view B g = loaded_nodes msg \<and> edges_view B g = loaded_edges msg"
proof -
  obtain g where "load_graph B msg (g_clear B (tp_graph m)) = Inr g"
    "nodes_view B g = loaded_nodes msg" "edges_view B g = loaded_edges msg"
    using load_graph_succeeds [OF assms clear_views] by blast
  then show ?thesis by (intro exI [of _ g]) (simp add: loadFromMessage_def Let_def clear_def)
qed

lemma load_outcome_failure:
  assumes "\<not> loadable msg"
  shows "\<exists>g. loadFromMessage B msg m = (False, (clear B m)\<lparr>tp_graph := g_clear B g\<rparr>)"
proof -
  obtain x where "load_graph B msg (g_clear B (tp_graph m)) = Inl x"
    using load_graph_fails [OF assms clear_views(1)] by blast
  then show ?thesis
    by (intro exI [of _ "g_clear B (tp_graph m)"]) (simp add: loadFromMessage_def Let_def clear_def)
qed

lemma load_faithful:
  assumes "faithful_msg B g nm em"
    and "tm_nodes msg = map (\<lambda>v. nm (g_node B g v)) (g_vertices B g)"
    and "tm_edges msg = map em (g_edges B g)"
  shows "\<exists>m'. loadFromMessage B msg m = (True, m') \<and> coherent B m' \<and>
           nodes_view B (tp_graph m') = nodes_view B g \<and> edges_view B (tp_graph m') = edges_view B g \<and>
           tp_source_file m' = tm_source_file msg \<and> tp_building_name m' = tm_building_name msg \<and>
           tp_total_floors m' = tm_total_floors msg \<and> tp_floor_names m' = tm_floor_names msg"
  using load_outcome_success [OF faithful_msg_loads(1) [OF assms], of m] rebuild_coherent
    faithful_msg_loads(2,3) [OF assms] by fastforce

end

text \<open>
  The contract of a conversion into messages: what the loader makes of a converted node or edge is
  the node or edge again. Two components provide such a conversion, this one and the server.
\<close>

locale message_codec =
  fixes node_msg :: "NodeProperties \<Rightarrow> TopomapNode"
    and edge_msg :: "int \<Rightarrow> int \<Rightarrow> EdgeProperties \<Rightarrow> TopomapEdge"
    and node_ok :: "NodeProperties \<Rightarrow> bool"
    and edge_ok :: "EdgeProperties \<Rightarrow> bool"
  assumes node_id: "tn_id (node_msg p) = to_string (np_id p)"
    and node_in_int: "node_ok p \<Longrightarrow> in_int (np_id p)"
    and node_decode: "node_ok p \<Longrightarrow> node_of_msg (node_msg p) (np_id p) NodeProperties_init = p"
    and edge_ids: "te_id (edge_msg s t q) = to_string (ep_id q)"
          "te_source (edge_msg s t q) = to_string s" "te_target (edge_msg s t q) = to_string t"
    and edge_in_int: "edge_ok q \<Longrightarrow> in_int (ep_id q)"
    and edge_room: "edge_ok q \<Longrightarrow> parse_room_id (te_room_id (edge_msg s t q)) = Inr (ep_room_id q)"
    and edge_decode: "edge_ok q \<Longrightarrow>
          edge_of_msg (edge_msg s t q) (ep_id q) (ep_room_id q) EdgeProperties_init = q"
begin

lemma codec_roundtrip:
  assumes "boost_graph B" and "wf_graph B g" and "distinct (map np_id (nodes_view B g))"
    and "list_all node_ok (nodes_view B g)" and "list_all (\<lambda>(s, t, q). edge_ok q) (edges_view B g)"
  shows "\<exists>m'. loadFromMessage B (graph_to_msg B node_msg edge_msg g msg) m = (True, m') \<and>
           coherent B m' \<and> nodes_view B (tp_graph m') = nodes_view B g \<and>
           edges_view B (tp_graph m') = edges_view B g \<and>
           tp_source_file m' = tm_source_file msg \<and> tp_building_name m' = tm_building_name msg \<and>
           tp_total_floors m' = tm_total_floors msg \<and> tp_floor_names m' = tm_floor_names msg"
proof -
  let ?em = "\<lambda>e. edge_msg (np_id (g_node B g (g_source B g e))) (np_id (g_node B g (g_target B g e)))
                 (g_eprops B g e)"
  have n: "node_ok p" if "p \<in> set (nodes_view B g)" for p
    using assms(4) that by (simp add: list_all_iff)
  have e: "edge_ok (g_eprops B g x)" if "x \<in> set (g_edges B g)" for x
    using assms(5) that by (auto simp: list_all_iff edges_view_def edge_view_of_def)
  have "faithful_msg B g node_msg ?em"
    using assms(2,3) n e
    by (simp add: faithful_msg_def node_id node_in_int node_decode edge_ids edge_in_int edge_room
        edge_decode)
  from boost_graph.load_faithful [OF assms(1) this, of "graph_to_msg B node_msg edge_msg g msg" m]
  show ?thesis by (simp add: graph_to_msg_def)
qed

end

section \<open>Graphs the conversion keeps\<close>

text \<open>
  What a message can carry of a node: an empty optional string or list reads back as no value,
  heights exist on floors only, a box only on rooms and transitions and only when its \<open>x\<close> extent
  is not zero, a polygon only on rooms, with closed rings whose coordinates are single precision.
\<close>

definition canonical_ring :: "(real \<Rightarrow> real) \<Rightarrow> ring \<Rightarrow> bool" where
  "canonical_ring f32 r \<longleftrightarrow> close_ring r = r \<and> list_all (\<lambda>(x, y). f32 x = x \<and> f32 y = y) r"

definition canonical_node :: "(real \<Rightarrow> real) \<Rightarrow> NodeProperties \<Rightarrow> bool" where
  "canonical_node f32 p \<longleftrightarrow>
     in_int (np_id p) \<and> np_subtype p \<noteq> Some [] \<and> np_ifc_guid p \<noteq> Some [] \<and> np_floor p \<noteq> Some [] \<and>
     (np_min_z p = None \<longleftrightarrow> np_type p \<noteq> ''floor'') \<and> (np_max_z p = None \<longleftrightarrow> np_type p \<noteq> ''floor'') \<and>
     (case np_bbox p of None \<Rightarrow> True
      | Some bb \<Rightarrow> (np_type p = ''room'' \<or> np_type p = ''transition'') \<and>
                   (bb_min_x bb \<noteq> 0 \<or> bb_max_x bb \<noteq> 0)) \<and>
     (case np_polygon p of None \<Rightarrow> True
      | Some poly \<Rightarrow> np_type p = ''room'' \<and> poly_outer poly \<noteq> [] \<and>
          canonical_ring f32 (poly_outer poly) \<and> list_all (canonical_ring f32) (poly_inners poly))"

definition canonical_edge :: "EdgeProperties \<Rightarrow> bool" where
  "canonical_edge q \<longleftrightarrow>
     in_int (ep_id q) \<and> ep_subtype q \<noteq> Some [] \<and> ep_path q \<noteq> Some [] \<and> ep_path_frame_id q = ''ifc''"

lemma canonical_ring_msg: "canonical_ring f32 r \<Longrightarrow> close_ring (ring_to_msg f32 r) = r"
proof -
  assume c: "canonical_ring f32 r"
  then have "ring_to_msg f32 r = r"
    unfolding canonical_ring_def ring_to_msg_def list_all_iff by (intro map_idI) auto
  with c show ?thesis by (simp add: canonical_ring_def)
qed

lemma canonical_polygon_msg:
  "canonical_ring f32 (poly_outer poly) \<Longrightarrow> list_all (canonical_ring f32) (poly_inners poly) \<Longrightarrow>
     convertPolygonFromMessage (polygon_to_msg f32 poly) = poly"
  unfolding convertPolygonFromMessage_def polygon_to_msg_def list_all_iff
  by (auto simp: canonical_ring_msg intro!: map_idI Polygon.equality)

lemma pm_outer_polygon_to_msg [simp]: "pm_outer (polygon_to_msg f32 q) = [] \<longleftrightarrow> poly_outer q = []"
  by (simp add: polygon_to_msg_def ring_to_msg_def)

lemma bbox_of_bbox_to_msg: "bbox_of_msg (bbox_to_msg bb) = bb"
  by (simp add: bbox_of_msg_def bbox_to_msg_def)

lemma canonical_node_msg:
  assumes "canonical_node f32 p"
  shows "node_of_msg (node_to_msg f32 p) i NodeProperties_init = p\<lparr>np_id := i\<rparr>"
proof -
  have bb: "(case np_bbox p of Some bb \<Rightarrow> bbox_to_msg bb | None \<Rightarrow> tn_bbox TopomapNode_init) = b \<Longrightarrow>
      (if (np_type p = ''room'' \<or> np_type p = ''transition'') \<and> (pos_x (bm_min b) \<noteq> 0 \<or> pos_x (bm_max b) \<noteq> 0)
       then Some (bbox_of_msg b) else None) = np_bbox p" for b
    using assms
    by (auto simp: canonical_node_def bbox_of_bbox_to_msg bbox_to_msg_def init_defs bbox_of_msg_def
        split: option.splits)
  have poly: "(case np_polygon p of Some q \<Rightarrow> polygon_to_msg f32 q | None \<Rightarrow> tn_polygon TopomapNode_init) = b \<Longrightarrow>
      (if np_type p = ''room'' \<and> pm_outer b \<noteq> [] then Some (convertPolygonFromMessage b) else None)
        = np_polygon p" for b
    using assms
    by (auto simp: canonical_node_def canonical_polygon_msg init_defs split: option.splits)
  have opt: "x \<noteq> Some [] \<Longrightarrow> (if value_or x [] \<noteq> [] then Some (value_or x []) else None) = x" for x
    by (cases x) (auto simp: value_or_def)
  have z: "np_min_z p = (if np_type p = ''floor'' then Some (value_or (np_min_z p) 0) else None)"
    "np_max_z p = (if np_type p = ''floor'' then Some (value_or (np_max_z p) 0) else None)"
    using assms by (auto simp: canonical_node_def value_or_def split: option.splits)
  have s: "np_subtype p \<noteq> Some []" "np_ifc_guid p \<noteq> Some []" "np_floor p \<noteq> Some []"
    using assms by (auto simp: canonical_node_def)
  let ?q = "node_of_msg (node_to_msg f32 p) i NodeProperties_init"
  have "np_bbox ?q = np_bbox p" "np_polygon ?q = np_polygon p"
    using bb [OF refl] poly [OF refl]
    by (simp_all add: node_of_msg_def node_to_msg_def NodeProperties_init_def split del: if_split
        cong del: if_weak_cong)
  moreover have "np_subtype ?q = np_subtype p" "np_ifc_guid ?q = np_ifc_guid p" "np_floor ?q = np_floor p"
    using opt [OF s(1)] opt [OF s(2)] opt [OF s(3)]
    by (simp_all add: node_of_msg_def node_to_msg_def NodeProperties_init_def split del: if_split
        cong del: if_weak_cong)
  moreover have "np_min_z ?q = np_min_z p" "np_max_z ?q = np_max_z p"
    using z [symmetric]
    by (simp_all add: node_of_msg_def node_to_msg_def NodeProperties_init_def split: if_splits)
  ultimately show ?thesis
    by (intro NodeProperties.equality) (simp_all add: node_of_msg_def node_to_msg_def)
qed

lemma canonical_edge_msg:
  assumes "canonical_edge q"
  shows "edge_of_msg (edge_to_msg s t q) (ep_id q) (ep_room_id q) EdgeProperties_init = q"
  using assms
  by (intro EdgeProperties.equality)
     (auto simp: edge_of_msg_def edge_to_msg_def canonical_edge_def EdgeProperties_init_def
        value_or_def path_msg_init_def comp_def split: option.splits)

interpretation client: message_codec "node_to_msg f32" edge_to_msg "canonical_node f32"
  "\<lambda>q. canonical_edge q \<and> ep_room_id q = None" for f32
proof (unfold_locales, goal_cases)
  case (3 p)
  then show ?case using canonical_node_msg [of f32 p "np_id p"] by simp
next
  case (9 q s t)
  then show ?case using canonical_edge_msg by blast
qed (simp_all add: node_to_msg_def edge_to_msg_def canonical_node_def canonical_edge_def parse_room_id_def)

section \<open>Properties\<close>

text \<open>A two-node message the witnesses load.\<close>

definition sample_room :: TopomapNode where
  "sample_room = TopomapNode_init\<lparr>tn_id := ''1'', tn_name := ''R1'', tn_type := ''room'',
     tn_floor := [''EG'']\<rparr>"

definition sample_floor :: TopomapNode where
  "sample_floor = TopomapNode_init\<lparr>tn_id := ''2'', tn_name := ''EG'', tn_type := ''floor'',
     tn_max_z := 3\<rparr>"

definition sample_msg :: Topomap where
  "sample_msg = Topomap_init\<lparr>tm_nodes := [sample_room, sample_floor],
     tm_edges := [TopomapEdge_init\<lparr>te_id := ''7'', te_source := ''2'', te_target := ''1'',
       te_type := ''has_room'', te_room_id := ''1''\<rparr>]\<rparr>"

definition sample_bad_msg :: Topomap where
  "sample_bad_msg = Topomap_init\<lparr>tm_nodes := [TopomapNode_init\<lparr>tn_id := ''x''\<rparr>]\<rparr>"

lemmas sample_defs = sample_room_def sample_floor_def sample_msg_def sample_bad_msg_def

text \<open>
  C7: \<open>loadFromMessage\<close> refines its specification over lists, from any earlier state of the map
  and for every message. It returns true exactly for loadable messages (all node ids and the edge
  and room ids of the edges with known ends parse as \<open>int\<close>); the graph then has the parsed nodes
  in message order and the resolvable edges in message order, and the metadata of the message. On
  an exception the map is left empty: no vertex, no edge, no table entry, no cached id.
\<close>

theorem loadFromMessage_refines:
  assumes "boost_graph B"
  shows "if loadable msg
         then fst (loadFromMessage B msg m) \<and>
              nodes_view B (tp_graph (snd (loadFromMessage B msg m))) = loaded_nodes msg \<and>
              edges_view B (tp_graph (snd (loadFromMessage B msg m))) = loaded_edges msg \<and>
              tp_source_file (snd (loadFromMessage B msg m)) = tm_source_file msg \<and>
              tp_building_name (snd (loadFromMessage B msg m)) = tm_building_name msg \<and>
              tp_total_floors (snd (loadFromMessage B msg m)) = tm_total_floors msg \<and>
              tp_floor_names (snd (loadFromMessage B msg m)) = tm_floor_names msg
         else \<not> fst (loadFromMessage B msg m) \<and>
              isEmpty B (snd (loadFromMessage B msg m)) \<and>
              numEdges B (snd (loadFromMessage B msg m)) = 0 \<and>
              findVertexById (snd (loadFromMessage B msg m)) = Map.empty \<and>
              findVertexByName (snd (loadFromMessage B msg m)) = Map.empty \<and>
              getMaxNodeId (snd (loadFromMessage B msg m)) = -1 \<and>
              getMaxEdgeId (snd (loadFromMessage B msg m)) = -1 \<and>
              tp_floor_names (snd (loadFromMessage B msg m)) = []"
proof (cases "loadable msg")
  case True
  from boost_graph.load_outcome_success [OF assms True, of m] obtain g where
    "loadFromMessage B msg m =
       (True, updateMaxIds B (buildLookupMaps B
          ((clear B m)\<lparr>tp_source_file := tm_source_file msg,
            tp_building_name := tm_building_name msg, tp_total_floors := tm_total_floors msg,
            tp_floor_names := tm_floor_names msg, tp_graph := g\<rparr>)))"
    "nodes_view B g = loaded_nodes msg" "edges_view B g = loaded_edges msg" by blast
  with True show ?thesis by simp
next
  case False
  from boost_graph.load_outcome_failure [OF assms False, of m] obtain g where
    "loadFromMessage B msg m = (False, (clear B m)\<lparr>tp_graph := g_clear B g\<rparr>)" by blast
  with False show ?thesis
    by (simp add: isEmpty_def numEdges_def boost_graph.clear_view [OF assms] clear_def
        findVertexById_def [abs_def] findVertexByName_def [abs_def] getMaxNodeId_def getMaxEdgeId_def)
qed

lemma sample_msg_loadable: "loadable sample_msg"
  by (simp add: loadable_def sample_defs init_defs node_loadable_def edge_loadable_def stoi_def
      parse_room_id_def is_space_def is_digit_def digits_value_def digit_val_def in_int_def
      int_min_def int_max_def)

lemma sample_bad_msg_not_loadable: "\<not> loadable sample_bad_msg"
  by (simp add: loadable_def sample_defs init_defs node_loadable_def stoi_def is_space_def
      is_digit_def)

theorem loadFromMessage_refines_witness:
  "fst (loadFromMessage vec_graph sample_msg (TopologicalMap_init vec_graph)) \<and>
   map np_id (nodes_view vec_graph
     (tp_graph (snd (loadFromMessage vec_graph sample_msg (TopologicalMap_init vec_graph))))) = [1, 2] \<and>
   \<not> fst (loadFromMessage vec_graph sample_bad_msg (TopologicalMap_init vec_graph))"
proof -
  have "map np_id (loaded_nodes sample_msg) = [1, 2]"
    by (simp add: loaded_nodes_def sample_defs init_defs parsed_node_def node_of_msg_def stoi_def
        is_space_def is_digit_def digits_value_def digit_val_def in_int_def int_min_def int_max_def)
  then show ?thesis
    using loadFromMessage_refines [OF vg.boost_graph_axioms, of sample_msg "TopologicalMap_init vec_graph"]
      loadFromMessage_refines [OF vg.boost_graph_axioms, of sample_bad_msg "TopologicalMap_init vec_graph"]
    by (simp add: sample_msg_loadable sample_bad_msg_not_loadable)
qed

text \<open>
  C19: after a successful load the lookup tables and caches agree with the graph, whatever the map
  held before: \<open>findVertexById\<close> and \<open>findVertexByName\<close> return a vertex with the id or name asked
  for and find one whenever it exists, \<open>getMaxNodeId\<close> and \<open>getMaxEdgeId\<close> are the largest ids, the
  floor cache holds exactly the floor nodes; and every edge of the graph ends at existing vertices.
\<close>

theorem loadFromMessage_coherent:
  assumes "boost_graph B" and "loadFromMessage B msg m = (True, m')"
  shows "coherent B m' \<and> wf_graph B (tp_graph m')"
proof -
  have "loadable msg"
    using boost_graph.load_outcome_failure [OF assms(1), of msg m] assms(2) by fastforce
  from boost_graph.load_outcome_success [OF assms(1) this, of m] assms(2) show ?thesis
    using rebuild_coherent boost_graph.loaded_wf [OF assms(1)] by fastforce
qed

theorem loadFromMessage_coherent_witness:
  "\<exists>m'. loadFromMessage vec_graph sample_msg (TopologicalMap_init vec_graph) = (True, m') \<and>
     coherent vec_graph m' \<and> wf_graph vec_graph (tp_graph m')"
  using vg.load_outcome_success [OF sample_msg_loadable, of "TopologicalMap_init vec_graph"]
    loadFromMessage_coherent [OF vg.boost_graph_axioms, of sample_msg "TopologicalMap_init vec_graph"]
  by blast

text \<open>
  \<open>clear\<close> does not clear the floor cache. After a load that failed, \<open>getFloorVertices\<close> still
  returns the floor vertices of the map held before, although the graph is empty; tables and
  caches agree with the graph only if there were none.
\<close>

theorem failed_load_keeps_floor_vertices:
  assumes "boost_graph B" and "\<not> loadable msg"
  shows "getFloorVertices (snd (loadFromMessage B msg m)) = getFloorVertices m \<and>
         (coherent B (snd (loadFromMessage B msg m)) \<longleftrightarrow> getFloorVertices m = {})"
proof -
  from boost_graph.load_outcome_failure [OF assms, of m] obtain g where
    r: "loadFromMessage B msg m = (False, (clear B m)\<lparr>tp_graph := g_clear B g\<rparr>)" by blast
  show ?thesis
    by (simp add: r coherent_def clear_def Let_def getFloorVertices_def findVertexById_def
        findVertexByName_def boost_graph.clear_view [OF assms(1)])
qed

theorem failed_load_keeps_floor_vertices_witness:
  "getFloorVertices (snd (loadFromMessage vec_graph sample_bad_msg
      ((TopologicalMap_init vec_graph)\<lparr>tp_floor_vertices := {1}\<rparr>))) = {1} \<and>
   \<not> coherent vec_graph (snd (loadFromMessage vec_graph sample_bad_msg
      ((TopologicalMap_init vec_graph)\<lparr>tp_floor_vertices := {1}\<rparr>)))"
  using failed_load_keeps_floor_vertices [OF vg.boost_graph_axioms sample_bad_msg_not_loadable,
      of "(TopologicalMap_init vec_graph)\<lparr>tp_floor_vertices := {1}\<rparr>"]
  by (simp add: getFloorVertices_def)

text \<open>
  The message \<open>convertGraphToMessage\<close> makes of a graph loads back as the same graph, node by
  node and edge by edge, when the ids are distinct, the properties are ones a message can carry
  and no edge has a room id.
\<close>

theorem convertGraphToMessage_roundtrip:
  assumes "boost_graph B" and "wf_graph B g"
    and "distinct (map np_id (nodes_view B g))"
    and "list_all (canonical_node f32) (nodes_view B g)"
    and "list_all (\<lambda>(s, t, q). canonical_edge q \<and> ep_room_id q = None) (edges_view B g)"
  shows "\<exists>m'. loadFromMessage B (convertGraphToMessage f32 B g) m = (True, m') \<and>
           nodes_view B (tp_graph m') = nodes_view B g \<and>
           edges_view B (tp_graph m') = edges_view B g"
  unfolding convertGraphToMessage_def using client.codec_roundtrip [OF assms] by blast

definition sample_graph :: vgraph where
  "sample_graph =
     \<lparr>vg_nodes = [NodeProperties_init\<lparr>np_id := 1, np_name := ''R1'', np_type := ''room'',
          np_bbox := Some (BoundingBox_init\<lparr>bb_max_x := 4, bb_max_y := 3\<rparr>),
          np_polygon := Some \<lparr>poly_outer = [(0, 0), (4, 0), (4, 3), (0, 0)], poly_inners = []\<rparr>,
          np_floor := Some [''EG'']\<rparr>,
        NodeProperties_init\<lparr>np_id := 2, np_name := ''EG'', np_type := ''floor'',
          np_min_z := Some 0, np_max_z := Some 3\<rparr>],
      vg_edges = [(1, 0, EdgeProperties_init\<lparr>ep_id := 5, ep_type := ''has_room''\<rparr>)]\<rparr>"

theorem convertGraphToMessage_roundtrip_witness:
  "\<exists>m'. loadFromMessage vec_graph (convertGraphToMessage id vec_graph sample_graph)
           (TopologicalMap_init vec_graph) = (True, m') \<and>
     nodes_view vec_graph (tp_graph m') = vg_nodes sample_graph \<and>
     edges_view vec_graph (tp_graph m') = vg_edges sample_graph"
  using convertGraphToMessage_roundtrip [OF vg.boost_graph_axioms, of sample_graph id]
  by (simp add: wf_graph_def sample_graph_def canonical_node_def canonical_edge_def canonical_ring_def
      close_ring_def init_defs in_int_def int_min_def int_max_def)

text \<open>
  A room id does not survive the conversion. \<open>convertGraphToMessage\<close> assigns the \<open>int\<close> to the
  string field as one character; the loader's \<open>std::stoi\<close> throws on it, unless the character
  happens to be a decimal digit, and then it reads the digit, which is never the room id.
\<close>

theorem convertGraphToMessage_loses_room_id:
  assumes "ep_room_id q = Some r"
  shows "parse_room_id (te_room_id (edge_to_msg s t q)) =
           (if 48 \<le> r mod 256 \<and> r mod 256 \<le> 57 then Inr (Some (r mod 256 - 48))
            else Inl Invalid_argument) \<and>
         parse_room_id (te_room_id (edge_to_msg s t q)) \<noteq> Inr (Some r)"
proof -
  let ?c = "char_of (nat (r mod 256)) :: char"
  have k: "0 \<le> r mod 256" "r mod 256 < 256" by simp_all
  have "nat (r mod 256) < 256" using k by linarith
  then have c: "of_char ?c = nat (r mod 256)" by simp
  have sign: "?c = CHR ''-'' \<Longrightarrow> nat (r mod 256) = 45" "?c = CHR ''+'' \<Longrightarrow> nat (r mod 256) = 43"
    using c by auto
  have room: "te_room_id (edge_to_msg s t q) = [?c]"
    using assms by (simp add: edge_to_msg_def assign_int_to_string_def)
  have digit: "is_digit ?c \<longleftrightarrow> 48 \<le> r mod 256 \<and> r mod 256 \<le> 57"
    unfolding is_digit_def c using k by linarith
  have "parse_room_id [?c] =
      (if 48 \<le> r mod 256 \<and> r mod 256 \<le> 57 then Inr (Some (r mod 256 - 48)) else Inl Invalid_argument)"
  proof (cases "is_digit ?c")
    case True
    then have "stoi [?c] = Inr (int (digit_val ?c))"
      using is_digit_not_space is_digit_not_sign
      by (auto simp: stoi_def digits_value_def in_int_def int_min_def int_max_def is_digit_def digit_val_def)
    moreover have "int (digit_val ?c) = r mod 256 - 48"
      using True digit by (auto simp: digit_val_def c of_nat_diff)
    ultimately show ?thesis using True digit by (simp add: parse_room_id_def)
  next
    case False
    then have "stoi [?c] = Inl Invalid_argument" by (auto simp: stoi_def)
    then show ?thesis using False digit by (simp add: parse_room_id_def)
  qed
  moreover have "r mod 256 - 48 \<noteq> r" by presburger
  ultimately show ?thesis unfolding room by simp
qed

theorem convertGraphToMessage_loses_room_id_witness:
  "parse_room_id (te_room_id (edge_to_msg 1 2 (EdgeProperties_init\<lparr>ep_room_id := Some 12\<rparr>)))
   = Inl Invalid_argument"
  using convertGraphToMessage_loses_room_id [of "EdgeProperties_init\<lparr>ep_room_id := Some 12\<rparr>" 12 1 2]
  by simp

end
