(* ===== verification/Topomap_Utils.thy ===== *)
theory Topomap_Utils
  imports Topological_Map
begin

text \<open>
  \<open>navbim_topomap_server::TopologicalMapUtils\<close> (\<open>topological_map_utils.cpp\<close>): the queries the
  topological map server answers from its graph. Floors are found by height, rooms by a
  point and a growing buffer around each room polygon, neighbours by walking the adjacency.
  \<open>boost::geometry::within\<close> and \<open>boost::geometry::buffer\<close> are the parameters \<open>pt_within\<close> and
  \<open>buffer\<close>.
\<close>

section \<open>Floors by height\<close>

text \<open>One step of the search: \<open>(smallest_z_diff, best_floor)\<close> after looking at vertex \<open>v\<close>.\<close>

definition floor_step ::
  "('g, 'e) bgl \<Rightarrow> 'g \<Rightarrow> real \<Rightarrow> Vertex \<Rightarrow> double \<times> Vertex option \<Rightarrow> double \<times> Vertex option" where
  "floor_step B g height v st =
     (let node = g_node B g v in
      case (np_min_z node, np_max_z node) of
        (Some min_z, Some max_z) \<Rightarrow>
          if np_type node = ''floor'' \<and> min_z \<le> height \<and> height < max_z \<and>
             dlt (Fin (height - min_z)) (fst st)
          then (Fin (height - min_z), Some v) else st
      | _ \<Rightarrow> st)"

definition findFloorByHeight :: "('g, 'e) bgl \<Rightarrow> 'g \<Rightarrow> real \<Rightarrow> Vertex option" where
  "findFloorByHeight B g height =
     snd (fold (floor_step B g height) (g_vertices B g) (PosInf, None))"

section \<open>Rooms by coordinates\<close>

type_synonym within_fn = "Point2D \<Rightarrow> Polygon \<Rightarrow> bool"
type_synonym buffer_fn = "real \<Rightarrow> Polygon \<Rightarrow> Polygon list"

definition isPointInPolygon :: "within_fn \<Rightarrow> Polygon \<Rightarrow> real \<Rightarrow> real \<Rightarrow> bool" where
  "isPointInPolygon pt_within polygon x y = pt_within (x, y) polygon"

definition room_hit ::
  "within_fn \<Rightarrow> buffer_fn \<Rightarrow> string \<Rightarrow> real \<Rightarrow> real \<Rightarrow> real \<Rightarrow> NodeProperties \<Rightarrow> bool" where
  "room_hit pt_within buffer floor_name x y buffer_radius node =
     (case (np_floor node, np_polygon node) of
        (Some floor_list, Some polygon) \<Rightarrow>
          np_type node = ''room'' \<and> floor_name \<in> set floor_list \<and>
          (if 0 < buffer_radius then list_ex (pt_within (x, y)) (buffer buffer_radius polygon)
           else isPointInPolygon pt_within polygon x y)
      | _ \<Rightarrow> False)"

text \<open>The \<open>while\<close> loop over the buffer radius; the vertices are scanned once per radius.\<close>

function buffer_loop :: "(real \<Rightarrow> Vertex option) \<Rightarrow> real \<Rightarrow> Vertex option" where
  "buffer_loop scan buffer_radius =
     (if buffer_radius \<le> 1 / 2
      then (case scan buffer_radius of
              Some v \<Rightarrow> Some v
            | None \<Rightarrow> buffer_loop scan (buffer_radius + 1 / 10))
      else None)"
  by pat_completeness auto
termination
  by (relation "measure (\<lambda>(scan, r). nat \<lfloor>10 * (1 - r)\<rfloor>)") (auto, linarith)

declare buffer_loop.simps [simp del]

definition findRoomByCoordinates ::
  "within_fn \<Rightarrow> buffer_fn \<Rightarrow> ('g, 'e) bgl \<Rightarrow> 'g \<Rightarrow> real \<Rightarrow> real \<Rightarrow> real \<Rightarrow> Vertex option" where
  "findRoomByCoordinates pt_within buffer B g x y z =
     (case findFloorByHeight B g z of
        None \<Rightarrow> None
      | Some f \<Rightarrow>
          buffer_loop (\<lambda>r. find (\<lambda>v. room_hit pt_within buffer (np_name (g_node B g f)) x y r (g_node B g v))
                             (g_vertices B g)) 0)"

section \<open>Nodes by type, id and name\<close>

definition getFloorNodes :: "('g, 'e) bgl \<Rightarrow> 'g \<Rightarrow> Vertex list" where
  "getFloorNodes B g = filter (\<lambda>v. np_type (g_node B g v) = ''floor'') (g_vertices B g)"

definition getRoomNodes :: "('g, 'e) bgl \<Rightarrow> 'g \<Rightarrow> Vertex list" where
  "getRoomNodes B g = filter (\<lambda>v. np_type (g_node B g v) = ''room'') (g_vertices B g)"

definition getRoomNodesOnFloor :: "('g, 'e) bgl \<Rightarrow> 'g \<Rightarrow> string \<Rightarrow> Vertex list" where
  "getRoomNodesOnFloor B g floor_name =
     filter (\<lambda>v. let node = g_node B g v in
         np_type node = ''room'' \<and>
         (case np_floor node of Some floor_list \<Rightarrow> floor_name \<in> set floor_list | None \<Rightarrow> False))
       (g_vertices B g)"

definition getVertexById :: "('g, 'e) bgl \<Rightarrow> 'g \<Rightarrow> string \<Rightarrow> Vertex option" where
  "getVertexById B g node_id =
     find (\<lambda>v. to_string (np_id (g_node B g v)) = node_id) (g_vertices B g)"

definition getVertexByName :: "('g, 'e) bgl \<Rightarrow> 'g \<Rightarrow> string \<Rightarrow> Vertex option" where
  "getVertexByName B g node_name = find (\<lambda>v. np_name (g_node B g v) = node_name) (g_vertices B g)"

section \<open>Neighbours\<close>

text \<open>The set \<open>unique_neighbors\<close> is ordered, so the result lists it in increasing order.\<close>

definition getRoomNeighbors :: "('g, 'e) bgl \<Rightarrow> 'g \<Rightarrow> string \<Rightarrow> Vertex list" where
  "getRoomNeighbors B g room_id =
     (case getVertexById B g room_id of
        None \<Rightarrow> []
      | Some v \<Rightarrow>
          if np_type (g_node B g v) = ''room'' then
            sorted_list_of_set (set (concat (map
              (\<lambda>t. if np_type (g_node B g t) = ''transition''
                   then filter (\<lambda>w. w \<noteq> v \<and> np_type (g_node B g w) = ''room'')
                          (g_adjacent_vertices B t g)
                   else [])
              (g_adjacent_vertices B v g))))
          else if np_type (g_node B g v) = ''transition'' then
            sorted_list_of_set (set (filter (\<lambda>w. np_type (g_node B g w) = ''room'')
              (g_adjacent_vertices B v g)))
          else [])"

definition getAdjacentTransitionNodes :: "('g, 'e) bgl \<Rightarrow> 'g \<Rightarrow> string \<Rightarrow> Vertex list" where
  "getAdjacentTransitionNodes B g room_name =
     (case getVertexByName B g room_name of
        None \<Rightarrow> []
      | Some v \<Rightarrow>
          if np_type (g_node B g v) \<noteq> ''room'' then []
          else filter (\<lambda>t. np_type (g_node B g t) = ''transition'') (g_adjacent_vertices B v g))"

section \<open>Height range\<close>

definition node_min_z :: "NodeProperties \<Rightarrow> real option" where
  "node_min_z node =
     (if np_type node = ''floor'' \<and> np_min_z node \<noteq> None then np_min_z node
      else if np_type node = ''room'' \<or> np_type node = ''transition''
      then map_option bb_min_z (np_bbox node) else None)"

definition node_max_z :: "NodeProperties \<Rightarrow> real option" where
  "node_max_z node =
     (if np_type node = ''floor'' \<and> np_max_z node \<noteq> None then np_max_z node
      else if np_type node = ''room'' \<or> np_type node = ''transition''
      then map_option bb_max_z (np_bbox node) else None)"

definition getMinZ :: "('g, 'e) bgl \<Rightarrow> 'g \<Rightarrow> real option" where
  "getMinZ B g =
     (if g_num_vertices B g = 0 then None
      else case fold (\<lambda>v (min_z, found).
              case node_min_z (g_node B g v) of Some z \<Rightarrow> (min min_z z, True) | None \<Rightarrow> (min_z, found))
            (g_vertices B g) (dbl_max, False)
           of (min_z, found) \<Rightarrow> if found then Some min_z else None)"

definition getMaxZ :: "('g, 'e) bgl \<Rightarrow> 'g \<Rightarrow> real option" where
  "getMaxZ B g =
     (if g_num_vertices B g = 0 then None
      else case fold (\<lambda>v (max_z, found).
              case node_max_z (g_node B g v) of Some z \<Rightarrow> (max max_z z, True) | None \<Rightarrow> (max_z, found))
            (g_vertices B g) (- dbl_max, False)
           of (max_z, found) \<Rightarrow> if found then Some max_z else None)"

definition isApproximatelyEqual :: "real \<Rightarrow> real \<Rightarrow> real \<Rightarrow> bool" where
  "isApproximatelyEqual z1 z2 tolerance \<longleftrightarrow> \<bar>z1 - z2\<bar> \<le> tolerance"

section \<open>The searches and their specifications\<close>

text \<open>The floors that contain a height.\<close>

definition floor_contains :: "real \<Rightarrow> NodeProperties \<Rightarrow> bool" where
  "floor_contains height node =
     (case (np_min_z node, np_max_z node) of
        (Some min_z, Some max_z) \<Rightarrow> np_type node = ''floor'' \<and> min_z \<le> height \<and> height < max_z
      | _ \<Rightarrow> False)"

text \<open>What the search promises about the part \<open>vs\<close> of the vertices it has looked at.\<close>

definition floor_search_inv ::
  "('g, 'e) bgl \<Rightarrow> 'g \<Rightarrow> real \<Rightarrow> Vertex list \<Rightarrow> double \<times> Vertex option \<Rightarrow> bool" where
  "floor_search_inv B g height vs st =
     (case st of
        (d, None) \<Rightarrow> d = PosInf \<and> (\<forall>v \<in> set vs. \<not> floor_contains height (g_node B g v))
      | (d, Some b) \<Rightarrow> b \<in> set vs \<and> floor_contains height (g_node B g b) \<and>
          d = Fin (height - the (np_min_z (g_node B g b))) \<and>
          (\<forall>v \<in> set vs. floor_contains height (g_node B g v) \<longrightarrow>
             (if v < b then the (np_min_z (g_node B g v)) < the (np_min_z (g_node B g b))
              else the (np_min_z (g_node B g v)) \<le> the (np_min_z (g_node B g b)))))"

lemma floor_step_eq:
  "floor_step B g height v st =
     (if floor_contains height (g_node B g v) \<and>
         dlt (Fin (height - the (np_min_z (g_node B g v)))) (fst st)
      then (Fin (height - the (np_min_z (g_node B g v))), Some v) else st)"
  by (auto simp: floor_step_def floor_contains_def Let_def split: option.splits)

lemma floor_search_step:
  assumes "floor_search_inv B g height vs st" and "\<forall>u \<in> set vs. u < v"
  shows "floor_search_inv B g height (vs @ [v]) (floor_step B g height v st)"
  using assms unfolding floor_step_eq
  by (cases st; cases "snd st") (fastforce simp: floor_search_inv_def split: if_splits)+

lemma floor_search_loop:
  "floor_search_inv B g height [0..<n] (fold (floor_step B g height) [0..<n] (PosInf, None))"
proof (induction n)
  case (Suc n)
  from floor_search_step [OF this, of n] show ?case by simp
qed (simp add: floor_search_inv_def)

lemma findFloorByHeight_inv:
  "case findFloorByHeight B g height of
     None \<Rightarrow> \<forall>v < g_num_vertices B g. \<not> floor_contains height (g_node B g v)
   | Some b \<Rightarrow> b < g_num_vertices B g \<and> floor_contains height (g_node B g b) \<and>
       (\<forall>v < g_num_vertices B g. floor_contains height (g_node B g v) \<longrightarrow>
          (if v < b then the (np_min_z (g_node B g v)) < the (np_min_z (g_node B g b))
           else the (np_min_z (g_node B g v)) \<le> the (np_min_z (g_node B g b))))"
proof -
  let ?st = "fold (floor_step B g height) (g_vertices B g) (PosInf, None)"
  have "floor_search_inv B g height (g_vertices B g) ?st" by (rule floor_search_loop)
  then show ?thesis
    by (cases ?st) (auto simp: findFloorByHeight_def floor_search_inv_def split: option.splits)
qed

text \<open>The six radii the buffer loop tries.\<close>

lemma buffer_loop_radii:
  "buffer_loop scan 0 =
     (case List.map_filter scan [0, 1/10, 2/10, 3/10, 4/10, 5/10] of [] \<Rightarrow> None | v # _ \<Rightarrow> Some v)"
proof -
  have stop: "buffer_loop scan (6/10) = None" by (simp add: buffer_loop.simps)
  have s5: "buffer_loop scan (5/10) = (case scan (5/10) of Some v \<Rightarrow> Some v | None \<Rightarrow> None)"
    using stop by (subst buffer_loop.simps) (simp split: option.split)
  have s4: "buffer_loop scan (4/10) = (case scan (4/10) of Some v \<Rightarrow> Some v | None \<Rightarrow> buffer_loop scan (5/10))"
    by (subst buffer_loop.simps) (simp split: option.split)
  have s3: "buffer_loop scan (3/10) = (case scan (3/10) of Some v \<Rightarrow> Some v | None \<Rightarrow> buffer_loop scan (4/10))"
    by (subst buffer_loop.simps) (simp split: option.split)
  have s2: "buffer_loop scan (2/10) = (case scan (2/10) of Some v \<Rightarrow> Some v | None \<Rightarrow> buffer_loop scan (3/10))"
    by (subst buffer_loop.simps) (simp split: option.split)
  have s1: "buffer_loop scan (1/10) = (case scan (1/10) of Some v \<Rightarrow> Some v | None \<Rightarrow> buffer_loop scan (2/10))"
    by (subst buffer_loop.simps) (simp split: option.split)
  have s0: "buffer_loop scan 0 = (case scan 0 of Some v \<Rightarrow> Some v | None \<Rightarrow> buffer_loop scan (1/10))"
    by (subst buffer_loop.simps) (simp split: option.split)
  show ?thesis
    unfolding s0 s1 s2 s3 s4 s5 by (simp add: List.map_filter_simps split: option.split)
qed

lemma six_radii:
  fixes P Q :: "real \<Rightarrow> bool"
  defines "rs \<equiv> [0, 1/10, 2/10, 3/10, 4/10, 5/10]"
  shows "(\<exists>i < length rs. P (rs ! i) \<and> (\<forall>j < i. Q (rs ! j))) \<longleftrightarrow>
         (\<exists>i < 6. P (real i / 10) \<and> (\<forall>j < i. Q (real j / 10)))"
proof -
  have "rs ! k = real k / 10" if "k < 6" for k
    using that by (auto simp: rs_def numeral_eq_Suc less_Suc_eq)
  moreover have "length rs = 6" by (simp add: rs_def)
  ultimately show ?thesis by (metis (no_types, lifting) less_trans)
qed

text \<open>Finding the first element with a property.\<close>

lemma find_upt_Some_iff:
  "find P [0..<n] = Some v \<longleftrightarrow> v < n \<and> P v \<and> (\<forall>u < v. \<not> P u)"
  by (auto simp: find_Some_iff)

lemma find_upt_None_iff: "find P [0..<n] = None \<longleftrightarrow> (\<forall>v < n. \<not> P v)"
  by (auto simp: find_None_iff)

lemma first_Some_iff:
  "(case List.map_filter f xs of [] \<Rightarrow> None | v # _ \<Rightarrow> Some v) = Some v \<longleftrightarrow>
     (\<exists>i < length xs. f (xs ! i) = Some v \<and> (\<forall>j < i. f (xs ! j) = None))"
proof (induction xs)
  case (Cons x xs)
  show ?case
  proof (cases "f x")
    case None
    with Cons show ?thesis
      by (simp add: List.map_filter_simps Ex_less_Suc2 All_less_Suc2)
  next
    case (Some y)
    then show ?thesis by (auto simp: List.map_filter_simps Ex_less_Suc2)
  qed
qed (simp add: List.map_filter_simps)

lemma buffer_loop_Some_iff:
  "buffer_loop scan 0 = Some v \<longleftrightarrow>
     (\<exists>k < 6. scan (real k / 10) = Some v \<and> (\<forall>j < k. scan (real j / 10) = None))"
  unfolding buffer_loop_radii first_Some_iff by (rule six_radii)

lemma find_unique:
  "v < n \<Longrightarrow> P v \<Longrightarrow> (\<And>u. u < n \<Longrightarrow> P u \<Longrightarrow> u = v) \<Longrightarrow> find P [0..<n] = Some v"
  unfolding find_upt_Some_iff by (metis less_irrefl less_trans)

text \<open>The height range: the minimum and the maximum of what the nodes contribute.\<close>

lemma fold_min_contributions:
  "fold (\<lambda>v (m, found). case f v of Some z \<Rightarrow> (min m z, True) | None \<Rightarrow> (m, found)) vs (a, b) =
     (fold min (List.map_filter f vs) (a :: real), b \<or> List.map_filter f vs \<noteq> [])"
  by (induction vs arbitrary: a b) (auto simp: List.map_filter_simps min.commute split: option.split)

lemma fold_max_contributions:
  "fold (\<lambda>v (m, found). case f v of Some z \<Rightarrow> (max m z, True) | None \<Rightarrow> (m, found)) vs (a, b) =
     (fold max (List.map_filter f vs) (a :: real), b \<or> List.map_filter f vs \<noteq> [])"
  by (induction vs arbitrary: a b) (auto simp: List.map_filter_simps max.commute split: option.split)

lemma fold_min_Min: "xs \<noteq> [] \<Longrightarrow> (\<forall>x \<in> set xs. x \<le> a) \<Longrightarrow> fold min xs (a :: real) = Min (set xs)"
  using Min.set_eq_fold [of a xs] by (simp add: Min.insert_not_elem min.absorb2)

lemma fold_max_Max: "xs \<noteq> [] \<Longrightarrow> (\<forall>x \<in> set xs. a \<le> x) \<Longrightarrow> fold max xs (a :: real) = Max (set xs)"
  using Max.set_eq_fold [of a xs] by (simp add: max.absorb2)

lemma getMinZ_eq:
  "getMinZ B g = (let zs = List.map_filter (\<lambda>v. node_min_z (g_node B g v)) (g_vertices B g) in
     if zs = [] then None else Some (fold min zs dbl_max))"
  by (cases "g_num_vertices B g = 0")
     (simp_all add: getMinZ_def fold_min_contributions Let_def List.map_filter_simps)

lemma getMaxZ_eq:
  "getMaxZ B g = (let zs = List.map_filter (\<lambda>v. node_max_z (g_node B g v)) (g_vertices B g) in
     if zs = [] then None else Some (fold max zs (- dbl_max)))"
  by (cases "g_num_vertices B g = 0")
     (simp_all add: getMaxZ_def fold_max_contributions Let_def List.map_filter_simps)

lemma set_map_filter_Some: "set (List.map_filter f xs) = {y. \<exists>x \<in> set xs. f x = Some y}"
  by (induction xs) (auto simp: List.map_filter_simps split: option.splits)

text \<open>Adjacency, as the graph operations present it.\<close>

lemma neighbours_iff_joins: "w \<in> set (neighbours v x) \<longleftrightarrow> joins v w x"
  by (cases x) auto

lemma joins_sym: "joins v w x \<longleftrightarrow> joins w v x"
  by (cases x) auto

context boost_graph
begin

lemma mem_adjacent_iff:
  "w \<in> set (g_adjacent_vertices B v g) \<longleftrightarrow> (\<exists>x \<in> set (edges_view B g). joins v w x)"
  unfolding adjacent_view by (simp add: neighbours_iff_joins)

lemma adjacent_sym: "w \<in> set (g_adjacent_vertices B v g) \<longleftrightarrow> v \<in> set (g_adjacent_vertices B w g)"
  unfolding mem_adjacent_iff using joins_sym by blast

lemma adjacent_in_range:
  "wf_graph B g \<Longrightarrow> w \<in> set (g_adjacent_vertices B v g) \<Longrightarrow> w < g_num_vertices B g"
  by (auto simp: mem_adjacent_iff wf_graph_def list_all_iff)

end

lemma getVertexById_unique:
  assumes "distinct (map np_id (nodes_view B g))" and "v < g_num_vertices B g"
  shows "getVertexById B g (to_string (np_id (g_node B g v))) = Some v"
  unfolding getVertexById_def
proof (rule find_unique [OF assms(2) refl])
  fix u assume u: "u < g_num_vertices B g"
    and eq: "to_string (np_id (g_node B g u)) = to_string (np_id (g_node B g v))"
  then have "map np_id (nodes_view B g) ! u = map np_id (nodes_view B g) ! v"
    using assms(2) by (simp add: nodes_view_def)
  moreover have "length (map np_id (nodes_view B g)) = g_num_vertices B g" by (simp add: nodes_view_def)
  ultimately show "u = v" using assms(1,2) u nth_eq_iff_index_eq by metis
qed

lemma getVertexById_Some:
  "getVertexById B g (to_string i) = Some v \<Longrightarrow> v < g_num_vertices B g \<and> np_id (g_node B g v) = i"
  by (simp add: getVertexById_def find_upt_Some_iff)

section \<open>Properties\<close>

text \<open>
  \<open>findFloorByHeight\<close> finds the floor a height is on: it returns nothing exactly when no
  floor node contains the height, and otherwise the containing floor with the highest lower
  bound, the first such floor when several share that bound.
\<close>

theorem findFloorByHeight_correct:
  "findFloorByHeight B g height = Some b \<longleftrightarrow>
     b < g_num_vertices B g \<and> floor_contains height (g_node B g b) \<and>
     (\<forall>v < g_num_vertices B g. floor_contains height (g_node B g v) \<longrightarrow>
        (if v < b then the (np_min_z (g_node B g v)) < the (np_min_z (g_node B g b))
         else the (np_min_z (g_node B g v)) \<le> the (np_min_z (g_node B g b))))"
proof (cases "findFloorByHeight B g height")
  case None
  with findFloorByHeight_inv [of B g height] show ?thesis by auto
next
  case (Some c)
  with findFloorByHeight_inv [of B g height] have c: "c < g_num_vertices B g"
    "floor_contains height (g_node B g c)"
    "\<forall>v < g_num_vertices B g. floor_contains height (g_node B g v) \<longrightarrow>
        (if v < c then the (np_min_z (g_node B g v)) < the (np_min_z (g_node B g c))
         else the (np_min_z (g_node B g v)) \<le> the (np_min_z (g_node B g c)))" by auto
  have "b = c" if "b < g_num_vertices B g" "floor_contains height (g_node B g b)"
    "\<forall>v < g_num_vertices B g. floor_contains height (g_node B g v) \<longrightarrow>
        (if v < b then the (np_min_z (g_node B g v)) < the (np_min_z (g_node B g b))
         else the (np_min_z (g_node B g v)) \<le> the (np_min_z (g_node B g b)))"
    using that(3) [rule_format, OF c(1,2)] c(3) [rule_format, OF that(1,2)]
    by (cases b c rule: linorder_cases) auto
  with Some c show ?thesis by auto
qed

definition two_floors :: vgraph where
  "two_floors =
     \<lparr>vg_nodes = [NodeProperties_init\<lparr>np_id := 1, np_name := ''EG'', np_type := ''floor'',
          np_min_z := Some 0, np_max_z := Some 4\<rparr>,
        NodeProperties_init\<lparr>np_id := 2, np_name := ''OG'', np_type := ''floor'',
          np_min_z := Some 3, np_max_z := Some 7\<rparr>,
        NodeProperties_init\<lparr>np_id := 3, np_name := ''R'', np_type := ''room'',
          np_floor := Some [''OG''], np_polygon := Some Polygon_init\<rparr>],
      vg_edges = []\<rparr>"

theorem findFloorByHeight_correct_witness:
  "findFloorByHeight vec_graph two_floors (7 / 2) = Some 1"
  by (subst findFloorByHeight_correct)
     (simp add: two_floors_def floor_contains_def All_less_Suc2 numeral_3_eq_3 init_defs)

text \<open>
  C39: \<open>findRoomByCoordinates\<close> returns a room exactly when a floor contains the height, and then
  the first room in vertex order that contains the point at the smallest of the radii
  \<open>0, 0.1, ..., 0.5\<close> at which any room of that floor contains it; the loop ends after these six.
\<close>

theorem findRoomByCoordinates_correct:
  "findRoomByCoordinates pt_within buffer B g x y z = Some v \<longleftrightarrow>
     (\<exists>f k. findFloorByHeight B g z = Some f \<and> k < 6 \<and> v < g_num_vertices B g \<and>
        room_hit pt_within buffer (np_name (g_node B g f)) x y (real k / 10) (g_node B g v) \<and>
        (\<forall>u < v. \<not> room_hit pt_within buffer (np_name (g_node B g f)) x y (real k / 10) (g_node B g u)) \<and>
        (\<forall>j < k. \<forall>u < g_num_vertices B g.
           \<not> room_hit pt_within buffer (np_name (g_node B g f)) x y (real j / 10) (g_node B g u)))"
proof (cases "findFloorByHeight B g z")
  case (Some f)
  show ?thesis
    unfolding findRoomByCoordinates_def Some option.case buffer_loop_Some_iff
      find_upt_Some_iff find_upt_None_iff
    by auto
qed (simp add: findRoomByCoordinates_def)

theorem findRoomByCoordinates_correct_witness:
  "findRoomByCoordinates (\<lambda>p q. q \<noteq> Polygon_init) (\<lambda>r q. [q, Polygon_init\<lparr>poly_outer := [(0, r)]\<rparr>])
     vec_graph two_floors 0 0 5 = Some 2"
proof -
  have "findFloorByHeight vec_graph two_floors 5 = Some 1"
    by (simp add: findFloorByHeight_def floor_step_def two_floors_def init_defs numeral_3_eq_3 Let_def)
  then show ?thesis
    by (subst findRoomByCoordinates_correct)
       (intro exI [of _ 1], simp add: two_floors_def room_hit_def isPointInPolygon_def init_defs
          numeral_2_eq_2 numeral_3_eq_3 All_less_Suc2)
qed

text \<open>
  \<open>getRoomNeighbors\<close> of a room lists, in increasing order and without duplicates, exactly the
  other rooms that share a transition node with it; being a neighbour is symmetric.
\<close>

theorem getRoomNeighbors_room:
  assumes "boost_graph B" and "distinct (map np_id (nodes_view B g))"
    and "v < g_num_vertices B g" and "np_type (g_node B g v) = ''room''"
    and "w < g_num_vertices B g" and "np_type (g_node B g w) = ''room''"
  shows "sorted (getRoomNeighbors B g (to_string (np_id (g_node B g v)))) \<and>
         distinct (getRoomNeighbors B g (to_string (np_id (g_node B g v)))) \<and>
         (w \<in> set (getRoomNeighbors B g (to_string (np_id (g_node B g v)))) \<longleftrightarrow>
            w \<noteq> v \<and> (\<exists>t. np_type (g_node B g t) = ''transition'' \<and>
                list_ex (joins v t) (edges_view B g) \<and> list_ex (joins t w) (edges_view B g))) \<and>
         (w \<in> set (getRoomNeighbors B g (to_string (np_id (g_node B g v)))) \<longleftrightarrow>
            v \<in> set (getRoomNeighbors B g (to_string (np_id (g_node B g w)))))"
proof -
  have mem: "b \<in> set (getRoomNeighbors B g (to_string (np_id (g_node B g a)))) \<longleftrightarrow>
      b \<noteq> a \<and> (\<exists>t. np_type (g_node B g t) = ''transition'' \<and>
        t \<in> set (g_adjacent_vertices B a g) \<and> b \<in> set (g_adjacent_vertices B t g))"
    if "a < g_num_vertices B g" "np_type (g_node B g a) = ''room''" "np_type (g_node B g b) = ''room''"
    for a b
    using that by (auto simp: getRoomNeighbors_def getVertexById_unique [OF assms(2)]
        split: if_splits)
  have "sorted (getRoomNeighbors B g s)" "distinct (getRoomNeighbors B g s)" for s
    by (simp_all add: getRoomNeighbors_def split: option.split)
  moreover have "list_ex (joins a b) (edges_view B g) \<longleftrightarrow> b \<in> set (g_adjacent_vertices B a g)" for a b
    by (simp add: boost_graph.mem_adjacent_iff [OF assms(1)] list_ex_iff)
  moreover note mem [OF assms(3,4,6)] mem [OF assms(5,6,4)] boost_graph.adjacent_sym [OF assms(1)]
  ultimately show ?thesis by metis
qed

definition two_rooms :: vgraph where
  "two_rooms =
     \<lparr>vg_nodes = [NodeProperties_init\<lparr>np_id := 1, np_type := ''room''\<rparr>,
        NodeProperties_init\<lparr>np_id := 2, np_type := ''transition''\<rparr>,
        NodeProperties_init\<lparr>np_id := 3, np_type := ''room''\<rparr>],
      vg_edges = [(0, 1, EdgeProperties_init), (2, 1, EdgeProperties_init)]\<rparr>"

theorem getRoomNeighbors_room_witness:
  "2 \<in> set (getRoomNeighbors vec_graph two_rooms (to_string 1))"
proof -
  have "\<exists>t. np_type (g_node vec_graph two_rooms t) = ''transition'' \<and>
      list_ex (joins 0 t) (edges_view vec_graph two_rooms) \<and>
      list_ex (joins t 2) (edges_view vec_graph two_rooms)"
    by (intro exI [of _ 1]) (simp add: two_rooms_def)
  then show ?thesis
    using getRoomNeighbors_room [OF vg.boost_graph_axioms, of two_rooms 0 2]
    by (simp add: two_rooms_def init_defs)
qed

text \<open>
  The linear scan \<open>getVertexById\<close> of the server and the lookup table the planner's map keeps
  answer alike, for every string asked for, on a map whose node ids are distinct.
\<close>

theorem getVertexById_agrees_with_table:
  assumes "coherent B m" and "distinct (map np_id (nodes_view B (tp_graph m)))"
  shows "getVertexById B (tp_graph m) s = findVertexById m s"
proof (cases "findVertexById m s")
  case None
  have "to_string (np_id (g_node B (tp_graph m) v)) \<noteq> s" if "v < g_num_vertices B (tp_graph m)" for v
    using assms(1) None that by (auto simp: coherent_def Let_def)
  with None show ?thesis by (simp add: getVertexById_def find_upt_None_iff)
next
  case (Some v)
  then have "v < g_num_vertices B (tp_graph m)" "to_string (np_id (g_node B (tp_graph m) v)) = s"
    using assms(1) by (auto simp: coherent_def Let_def)
  with getVertexById_unique [OF assms(2) this(1)] Some show ?thesis by simp
qed

theorem getVertexById_agrees_with_table_witness:
  "getVertexById vec_graph two_rooms (to_string 3) =
     findVertexById (updateMaxIds vec_graph (buildLookupMaps vec_graph
       ((TopologicalMap_init vec_graph)\<lparr>tp_graph := two_rooms\<rparr>))) (to_string 3)"
  using getVertexById_agrees_with_table [OF rebuild_coherent, of vec_graph
      "(TopologicalMap_init vec_graph)\<lparr>tp_graph := two_rooms\<rparr>" "to_string 3"]
  by (simp add: two_rooms_def)

text \<open>
  \<open>getMinZ\<close> and \<open>getMaxZ\<close> are the exact minimum and maximum over the nodes that have a
  vertical extent (floors by their bounds, rooms and transitions by their box), and no value when
  there is none; the sentinels the loops start from never show.
\<close>

theorem getMinZ_getMaxZ_correct:
  fixes B :: "('g, 'e) bgl" and g
  defines "lows \<equiv> {z. \<exists>v < g_num_vertices B g. node_min_z (g_node B g v) = Some z}"
    and "highs \<equiv> {z. \<exists>v < g_num_vertices B g. node_max_z (g_node B g v) = Some z}"
  assumes "\<forall>z \<in> lows. z \<le> dbl_max" and "\<forall>z \<in> highs. - dbl_max \<le> z"
  shows "getMinZ B g = (if lows = {} then None else Some (Min lows)) \<and>
         getMaxZ B g = (if highs = {} then None else Some (Max highs))"
proof -
  let ?lo = "List.map_filter (\<lambda>v. node_min_z (g_node B g v)) (g_vertices B g)"
  let ?hi = "List.map_filter (\<lambda>v. node_max_z (g_node B g v)) (g_vertices B g)"
  have lo: "set ?lo = lows" and hi: "set ?hi = highs"
    by (auto simp: set_map_filter_Some lows_def highs_def)
  have "fold min ?lo dbl_max = Min lows" if "?lo \<noteq> []"
    using fold_min_Min [OF that, of dbl_max] assms(3) lo by simp
  moreover have "fold max ?hi (- dbl_max) = Max highs" if "?hi \<noteq> []"
    using fold_max_Max [OF that, of "- dbl_max"] assms(4) hi by simp
  ultimately show ?thesis
    unfolding getMinZ_eq getMaxZ_eq Let_def using lo hi by auto
qed

theorem getMinZ_getMaxZ_correct_witness:
  "getMinZ vec_graph two_floors = Some 0 \<and> getMaxZ vec_graph two_floors = Some 7"
proof -
  have big: "(3 :: real) \<le> dbl_max" "(0::real) \<le> dbl_max" by (simp_all add: dbl_max_def)
  have nodes: "vg_nodes two_floors ! 0 = NodeProperties_init\<lparr>np_id := 1, np_name := ''EG'',
        np_type := ''floor'', np_min_z := Some 0, np_max_z := Some 4\<rparr>"
    "node_min_z (vg_nodes two_floors ! 2) = None" "node_max_z (vg_nodes two_floors ! 2) = None"
    "node_min_z (vg_nodes two_floors ! 1) = Some 3" "node_max_z (vg_nodes two_floors ! 1) = Some 7"
    "node_min_z (vg_nodes two_floors ! 0) = Some 0" "node_max_z (vg_nodes two_floors ! 0) = Some 4"
    by (simp_all add: two_floors_def node_min_z_def node_max_z_def init_defs)
  have n: "v < g_num_vertices vec_graph two_floors \<longleftrightarrow> v = 0 \<or> v = 1 \<or> v = 2" for v
    by (auto simp: two_floors_def)
  have "{z. \<exists>v < g_num_vertices vec_graph two_floors. node_min_z (g_node vec_graph two_floors v) = Some z}
      = {0, 3}"
    "{z. \<exists>v < g_num_vertices vec_graph two_floors. node_max_z (g_node vec_graph two_floors v) = Some z}
      = {4, 7}"
    unfolding n using nodes(2-7) by auto
  then show ?thesis
    using getMinZ_getMaxZ_correct [of vec_graph two_floors] big by simp
qed

end
