(* ===== verification/Json_Library.thy ===== *)
theory Json_Library
  imports Boost_Graph
begin

text \<open>
  The interface of nlohmann/json the map files are read and written with. The library is not part
  of the repository, so its operations are a parameter of the model: the record \<open>json_ops\<close> over an
  abstract type of JSON values and an abstract type of file contents. The locale \<open>json_lib\<close> states
  the documented behaviour the loader relies on. \<open>j_stored j\<close> is the value a reader gets back
  after \<open>j\<close> was written: the library writes infinities and NaN as \<open>null\<close>.

  The second half gives a concrete JSON data type with this contract, on which the witnesses run.
\<close>

section \<open>The operations\<close>

text \<open>
  \<open>j_at\<close> is \<open>operator[]\<close> with a key on a value that has it, \<open>j_elems\<close> what a range-based \<open>for\<close> visits,
  \<open>j_set k v\<close> the assignment \<open>j[k] = v\<close>, \<open>j_of_doubles\<close> and \<open>j_of_pairs\<close> the values built from braced
  lists of numbers and of key-number pairs, \<open>j_of_strings\<close> the value of a vector of strings,
  \<open>j_write\<close> the file contents after \<open>file << j.dump(4) << std::endl\<close>, and \<open>j_read\<close> what
  \<open>file >> j\<close> reads from them.
\<close>

record ('j, 't) json_ops =
  j_contains :: "'j \<Rightarrow> string \<Rightarrow> bool"
  j_at :: "'j \<Rightarrow> string \<Rightarrow> 'j"
  j_is_object :: "'j \<Rightarrow> bool"
  j_is_array :: "'j \<Rightarrow> bool"
  j_is_string :: "'j \<Rightarrow> bool"
  j_elems :: "'j \<Rightarrow> 'j list"
  j_size :: "'j \<Rightarrow> nat"
  j_idx :: "'j \<Rightarrow> nat \<Rightarrow> 'j"
  j_get_int :: "'j \<Rightarrow> int result"
  j_get_double :: "'j \<Rightarrow> double result"
  j_get_string :: "'j \<Rightarrow> string result"
  j_null :: 'j
  j_object :: 'j
  j_array :: 'j
  j_set :: "string \<Rightarrow> 'j \<Rightarrow> 'j \<Rightarrow> 'j"
  j_push_back :: "'j \<Rightarrow> 'j \<Rightarrow> 'j"
  j_of_bool :: "bool \<Rightarrow> 'j"
  j_of_int :: "int \<Rightarrow> 'j"
  j_of_double :: "double \<Rightarrow> 'j"
  j_of_string :: "string \<Rightarrow> 'j"
  j_of_strings :: "string list \<Rightarrow> 'j"
  j_of_doubles :: "double list \<Rightarrow> 'j"
  j_of_pairs :: "(string \<times> double) list \<Rightarrow> 'j"
  j_stored :: "'j \<Rightarrow> 'j"
  j_write :: "'j \<Rightarrow> 't result"
  j_read :: "'t \<Rightarrow> 'j result"

fun is_finite :: "double \<Rightarrow> bool" where
  "is_finite (Fin x) = True"
| "is_finite _ = False"

definition j_objlike :: "('j, 't) json_ops \<Rightarrow> 'j \<Rightarrow> bool" where
  "j_objlike J j \<longleftrightarrow> j = j_null J \<or> j_is_object J j"

text \<open>
  The code fills an object key by key, some of them only under a condition: a list of keys with
  optional values, assigned in order.
\<close>

definition j_fields :: "('j, 't) json_ops \<Rightarrow> (string \<times> 'j option) list \<Rightarrow> 'j \<Rightarrow> 'j" where
  "j_fields J kvs j = fold (\<lambda>(k, ov) j. case ov of Some v \<Rightarrow> j_set J k v j | None \<Rightarrow> j) kvs j"

definition field_of :: "(string \<times> 'j option) list \<Rightarrow> string \<Rightarrow> 'j option" where
  "field_of kvs k = (case map_of kvs k of Some ov \<Rightarrow> ov | None \<Rightarrow> None)"

section \<open>The contract\<close>

locale json_lib =
  fixes J :: "('j, 't) json_ops"
  assumes null_contains: "\<not> j_contains J (j_null J) k"
    and object: "j_is_object J (j_object J)" "\<not> j_contains J (j_object J) k"
    and set_object: "j_objlike J j \<Longrightarrow> j_is_object J (j_set J k v j)"
    and set_contains: "j_objlike J j \<Longrightarrow>
          j_contains J (j_set J k v j) k' \<longleftrightarrow> k' = k \<or> j_contains J j k'"
    and set_at: "j_objlike J j \<Longrightarrow>
          j_at J (j_set J k v j) k' = (if k' = k then v else j_at J j k')"
    and array: "j_is_array J (j_array J)" "j_elems J (j_array J) = []"
    and push_back: "j_is_array J a \<Longrightarrow> j_is_array J (j_push_back J v a)"
          "j_is_array J a \<Longrightarrow> j_elems J (j_push_back J v a) = j_elems J a @ [v]"
    and size: "j_is_array J a \<Longrightarrow> j_size J a = length (j_elems J a)"
    and idx: "j_is_array J a \<Longrightarrow> i < length (j_elems J a) \<Longrightarrow> j_idx J a i = j_elems J a ! i"
    and get_int: "in_int n \<Longrightarrow> j_get_int J (j_of_int J n) = Inr n"
    and get_double: "j_get_double J (j_of_double J d) = Inr d"
    and get_double_null: "j_get_double J (j_null J) = Inl Json_type_error"
    and get_string: "j_get_string J (j_of_string J s) = Inr s"
    and of_strings: "j_of_strings J ss = fold (\<lambda>s. j_push_back J (j_of_string J s)) ss (j_array J)"
    and of_doubles: "j_of_doubles J ds = fold (\<lambda>d. j_push_back J (j_of_double J d)) ds (j_array J)"
    and of_pairs: "distinct (map fst kds) \<Longrightarrow>
          j_of_pairs J kds = fold (\<lambda>(k, d). j_set J k (j_of_double J d)) kds (j_object J)"
    and stored_null: "j_stored J (j_null J) = j_null J"
    and stored_object: "j_stored J (j_object J) = j_object J"
    and stored_array: "j_stored J (j_array J) = j_array J"
    and stored_bool: "j_stored J (j_of_bool J b) = j_of_bool J b"
    and stored_int: "j_stored J (j_of_int J n) = j_of_int J n"
    and stored_string: "j_stored J (j_of_string J s) = j_of_string J s"
    and stored_double: "j_stored J (j_of_double J d) = (if is_finite d then j_of_double J d else j_null J)"
    and stored_set: "j_objlike J j \<Longrightarrow>
          j_stored J (j_set J k v j) = j_set J k (j_stored J v) (j_stored J j)"
    and stored_push_back: "j_is_array J a \<Longrightarrow>
          j_stored J (j_push_back J v a) = j_push_back J (j_stored J v) (j_stored J a)"
    and write_read: "j_write J j = Inr t \<Longrightarrow> j_read J t = Inr (j_stored J j)"
begin

text \<open>Objects filled key by key.\<close>

lemma objlike_null [simp]: "j_objlike J (j_null J)"
  by (simp add: j_objlike_def)

lemma objlike_object [simp]: "j_objlike J (j_object J)"
  by (simp add: j_objlike_def object)

lemma objlike_set [simp]: "j_objlike J j \<Longrightarrow> j_objlike J (j_set J k v j)"
  by (simp add: j_objlike_def [of J "j_set J k v j"] set_object)

lemma objlike_fields: "j_objlike J j \<Longrightarrow> j_objlike J (j_fields J kvs j)"
  unfolding j_fields_def by (induction kvs arbitrary: j) (auto split: option.split)

lemma fields_lookup:
  assumes "j_objlike J j" and "distinct (map fst kvs)"
  shows "j_contains J (j_fields J kvs j) k \<longleftrightarrow> field_of kvs k \<noteq> None \<or> j_contains J j k"
    and "j_at J (j_fields J kvs j) k = (case field_of kvs k of Some v \<Rightarrow> v | None \<Rightarrow> j_at J j k)"
proof -
  have "(j_contains J (j_fields J kvs j) k \<longleftrightarrow> field_of kvs k \<noteq> None \<or> j_contains J j k) \<and>
        j_at J (j_fields J kvs j) k = (case field_of kvs k of Some v \<Rightarrow> v | None \<Rightarrow> j_at J j k)"
    using assms
  proof (induction kvs arbitrary: j)
    case Nil
    then show ?case by (simp add: j_fields_def field_of_def)
  next
    case (Cons kv kvs)
    obtain k0 ov where kv: "kv = (k0, ov)" by fastforce
    have fresh: "field_of kvs k0 = None"
      using Cons.prems(2) kv map_of_eq_None_iff [of kvs k0] by (simp add: field_of_def)
    have step: "field_of (kv # kvs) k = (if k = k0 then ov else field_of kvs k)"
      by (simp add: field_of_def kv)
    show ?case
    proof (cases ov)
      case None
      with Cons.IH [OF Cons.prems(1)] Cons.prems(2) step fresh kv show ?thesis
        by (auto simp: j_fields_def)
    next
      case (Some v)
      have "j_fields J (kv # kvs) j = j_fields J kvs (j_set J k0 v j)"
        by (simp add: j_fields_def kv Some)
      with Cons.IH [of "j_set J k0 v j"] Cons.prems step fresh kv Some show ?thesis
        by (auto simp: set_contains set_at split: option.splits)
    qed
  qed
  then show "j_contains J (j_fields J kvs j) k \<longleftrightarrow> field_of kvs k \<noteq> None \<or> j_contains J j k"
    and "j_at J (j_fields J kvs j) k = (case field_of kvs k of Some v \<Rightarrow> v | None \<Rightarrow> j_at J j k)"
    by blast+
qed

lemma stored_fields:
  "j_objlike J j \<Longrightarrow> j_stored J (j_fields J kvs j) =
     j_fields J (map (\<lambda>(k, ov). (k, map_option (j_stored J) ov)) kvs) (j_stored J j)"
proof (induction kvs arbitrary: j)
  case (Cons kv kvs)
  then show ?case by (cases kv; cases "snd kv") (auto simp: j_fields_def stored_set)
qed (simp add: j_fields_def)

text \<open>Arrays filled element by element.\<close>

lemma push_backs:
  assumes "j_is_array J a"
  shows "j_is_array J (fold (j_push_back J) vs a)"
    and "j_elems J (fold (j_push_back J) vs a) = j_elems J a @ vs"
    and "j_stored J (fold (j_push_back J) vs a) = fold (j_push_back J) (map (j_stored J) vs) (j_stored J a)"
  using assms by (induction vs arbitrary: a) (auto simp: push_back stored_push_back)

lemma array_of [simp]:
  "j_is_array J (fold (j_push_back J) vs (j_array J))"
  "j_elems J (fold (j_push_back J) vs (j_array J)) = vs"
  "j_stored J (fold (j_push_back J) vs (j_array J)) = fold (j_push_back J) (map (j_stored J) vs) (j_array J)"
  using push_backs [of "j_array J" vs] by (simp_all add: array stored_array)

lemma of_strings_array: "j_of_strings J ss = fold (j_push_back J) (map (j_of_string J) ss) (j_array J)"
  by (simp add: of_strings fold_map comp_def)

lemma of_doubles_array: "j_of_doubles J ds = fold (j_push_back J) (map (j_of_double J) ds) (j_array J)"
  by (simp add: of_doubles fold_map comp_def)

lemma of_pairs_fields:
  "distinct (map fst kds) \<Longrightarrow>
     j_of_pairs J kds = j_fields J (map (\<lambda>(k, d). (k, Some (j_of_double J d))) kds) (j_object J)"
  by (simp add: of_pairs j_fields_def fold_map comp_def case_prod_unfold)

end

section \<open>A JSON data type with this contract\<close>

datatype json =
    JNull
  | JBool bool
  | JInt int
  | JFloat double
  | is_JStr: JStr string
  | is_JArr: JArr "json list"
  | is_JObj: JObj "string \<Rightarrow> json option"

primrec json_stored :: "json \<Rightarrow> json" where
  "json_stored JNull = JNull"
| "json_stored (JBool b) = JBool b"
| "json_stored (JInt i) = JInt i"
| "json_stored (JFloat d) = (if is_finite d then JFloat d else JNull)"
| "json_stored (JStr s) = JStr s"
| "json_stored (JArr vs) = JArr (map json_stored vs)"
| "json_stored (JObj m) = JObj (\<lambda>k. map_option json_stored (m k))"

fun json_set :: "string \<Rightarrow> json \<Rightarrow> json \<Rightarrow> json" where
  "json_set k v (JObj m) = JObj (m(k \<mapsto> v))"
| "json_set k v j = JObj [k \<mapsto> v]"

fun json_push_back :: "json \<Rightarrow> json \<Rightarrow> json" where
  "json_push_back v (JArr vs) = JArr (vs @ [v])"
| "json_push_back v j = JArr [v]"

fun json_elems :: "json \<Rightarrow> json list" where
  "json_elems (JArr vs) = vs"
| "json_elems j = []"

fun json_map :: "json \<Rightarrow> string \<Rightarrow> json option" where
  "json_map (JObj m) = m"
| "json_map j = Map.empty"

fun json_get_int :: "json \<Rightarrow> int result" where
  "json_get_int (JInt i) = Inr i"
| "json_get_int j = Inl Json_type_error"

fun json_get_double :: "json \<Rightarrow> double result" where
  "json_get_double (JFloat d) = Inr d"
| "json_get_double (JInt i) = Inr (Fin (real_of_int i))"
| "json_get_double j = Inl Json_type_error"

fun json_get_string :: "json \<Rightarrow> string result" where
  "json_get_string (JStr s) = Inr s"
| "json_get_string j = Inl Json_type_error"

definition json_data :: "(json, json) json_ops" where
  "json_data =
     \<lparr>j_contains = (\<lambda>j k. json_map j k \<noteq> None),
      j_at = (\<lambda>j k. case json_map j k of Some v \<Rightarrow> v | None \<Rightarrow> JNull),
      j_is_object = is_JObj,
      j_is_array = is_JArr,
      j_is_string = is_JStr,
      j_elems = json_elems,
      j_size = (\<lambda>j. length (json_elems j)),
      j_idx = (\<lambda>j i. json_elems j ! i),
      j_get_int = json_get_int,
      j_get_double = json_get_double,
      j_get_string = json_get_string,
      j_null = JNull,
      j_object = JObj Map.empty,
      j_array = JArr [],
      j_set = json_set,
      j_push_back = json_push_back,
      j_of_bool = JBool,
      j_of_int = JInt,
      j_of_double = JFloat,
      j_of_string = JStr,
      j_of_strings = (\<lambda>ss. JArr (map JStr ss)),
      j_of_doubles = (\<lambda>ds. JArr (map JFloat ds)),
      j_of_pairs = (\<lambda>kds. JObj (\<lambda>k. map_option JFloat (map_of kds k))),
      j_stored = json_stored,
      j_write = (\<lambda>j. Inr (json_stored j)),
      j_read = Inr\<rparr>"

lemma json_objlike: "j_objlike json_data j \<longleftrightarrow> j = JNull \<or> (\<exists>m. j = JObj m)"
  by (auto simp: j_objlike_def json_data_def is_JObj_def)

lemma json_push_backs: "fold (\<lambda>x. json_push_back (f x)) xs (JArr vs) = JArr (vs @ map f xs)"
  by (induction xs arbitrary: vs) simp_all

lemma json_sets:
  "distinct (map fst kds) \<Longrightarrow>
     fold (\<lambda>(k, d). json_set k (JFloat d)) kds (JObj m) =
       JObj (\<lambda>k. case map_of kds k of Some d \<Rightarrow> Some (JFloat d) | None \<Rightarrow> m k)"
proof (induction kds arbitrary: m)
  case (Cons kd kds)
  obtain k d where kd: "kd = (k, d)" by fastforce
  then have "map_of kds k = None" using Cons.prems by (simp add: map_of_eq_None_iff)
  with Cons kd show ?case by (auto intro!: ext split: option.split)
qed simp

interpretation jd: json_lib json_data
proof (unfold_locales, goal_cases)
  case (19 kds)
  then show ?case
    by (auto simp: json_data_def json_sets option.map_comp map_option_case intro!: ext)
qed (auto simp: json_objlike, auto simp: json_data_def json_push_backs is_JArr_def split: if_splits intro!: ext)

end
