(* ===== verification/Map_Loader.thy ===== *)
theory Map_Loader
  imports Json_Library Topological_Map
begin

text \<open>
  \<open>navbim_topomap_server::TopologicalMapLoader\<close> (\<open>topological_map_loader.cpp\<close>): the topological
  map as a JSON file in NetworkX node-link format. Reading may throw at any value of the wrong
  type; the exception is caught around the whole file, so a failed read leaves what was parsed so
  far in the graph, down to the property that was being read. \<open>boost::geometry::assign_points\<close> is
  the parameter \<open>assign_points\<close>; the file system is a map from names to contents.
\<close>

section \<open>Sequences that stop at an exception and keep the state\<close>

fun run_steps :: "('s \<Rightarrow> 's result) list \<Rightarrow> 's \<Rightarrow> 's \<times> cpp_exception option" where
  "run_steps [] s = (s, None)"
| "run_steps (f # fs) s = (case f s of Inl x \<Rightarrow> (s, Some x) | Inr s' \<Rightarrow> run_steps fs s')"

fun run_loop :: "('a \<Rightarrow> 's \<Rightarrow> 's \<times> cpp_exception option) \<Rightarrow> 'a list \<Rightarrow> 's \<Rightarrow> 's \<times> cpp_exception option" where
  "run_loop f [] s = (s, None)"
| "run_loop f (x # xs) s =
     (case f x s of (s', Some e) \<Rightarrow> (s', Some e) | (s', None) \<Rightarrow> run_loop f xs s')"

text \<open>\<open>if (j.contains(k)) { target = j[k].get<...>(); }\<close>\<close>

definition opt_field ::
  "('j, 't) json_ops \<Rightarrow> 'j \<Rightarrow> string \<Rightarrow> ('j \<Rightarrow> 'a result) \<Rightarrow> ('a \<Rightarrow> 's \<Rightarrow> 's) \<Rightarrow> 's \<Rightarrow> 's result" where
  "opt_field J j k get upd s =
     (if j_contains J j k then bind_result (get (j_at J j k)) (\<lambda>x. Inr (upd x s)) else Inr s)"

text \<open>
  A number read into a coordinate. JSON text has no infinities and no NaN, so a number that was
  read is finite.
\<close>

fun coord_of :: "double \<Rightarrow> real" where
  "coord_of (Fin x) = x"
| "coord_of _ = 0"

definition get_coord :: "('j, 't) json_ops \<Rightarrow> 'j \<Rightarrow> real result" where
  "get_coord J j = bind_result (j_get_double J j) (\<lambda>d. Inr (coord_of d))"

section \<open>Reading\<close>

definition parseBoundingBox :: "('j, 't) json_ops \<Rightarrow> 'j \<Rightarrow> BoundingBox \<Rightarrow> BoundingBox result" where
  "parseBoundingBox J j bbox =
     fold_result (\<lambda>f. f)
       [opt_field J j ''min_x'' (get_coord J) (\<lambda>x b. b\<lparr>bb_min_x := x\<rparr>),
        opt_field J j ''max_x'' (get_coord J) (\<lambda>x b. b\<lparr>bb_max_x := x\<rparr>),
        opt_field J j ''min_y'' (get_coord J) (\<lambda>x b. b\<lparr>bb_min_y := x\<rparr>),
        opt_field J j ''max_y'' (get_coord J) (\<lambda>x b. b\<lparr>bb_max_y := x\<rparr>),
        opt_field J j ''min_z'' (get_coord J) (\<lambda>x b. b\<lparr>bb_min_z := x\<rparr>),
        opt_field J j ''max_z'' (get_coord J) (\<lambda>x b. b\<lparr>bb_max_z := x\<rparr>)] bbox"

text \<open>The three assignments of \<open>parsePosition\<close>, made in place in the node.\<close>

definition parsePosition ::
  "('j, 't) json_ops \<Rightarrow> 'j \<Rightarrow> (NodeProperties \<Rightarrow> NodeProperties result) list" where
  "parsePosition J j =
     [opt_field J j ''x'' (get_coord J) (\<lambda>x p. p\<lparr>np_position := (np_position p)\<lparr>pos_x := x\<rparr>\<rparr>),
      opt_field J j ''y'' (get_coord J) (\<lambda>x p. p\<lparr>np_position := (np_position p)\<lparr>pos_y := x\<rparr>\<rparr>),
      opt_field J j ''z'' (get_coord J) (\<lambda>x p. p\<lparr>np_position := (np_position p)\<lparr>pos_z := x\<rparr>\<rparr>)]"

text \<open>The points of the outer ring; entries that are not arrays of two are skipped.\<close>

definition parse_point :: "('j, 't) json_ops \<Rightarrow> 'j \<Rightarrow> Point2D list \<Rightarrow> Point2D list result" where
  "parse_point J coord points =
     (if j_is_array J coord \<and> 2 \<le> j_size J coord
      then bind_result (get_coord J (j_idx J coord 0)) (\<lambda>x.
             bind_result (get_coord J (j_idx J coord 1)) (\<lambda>y. Inr (points @ [(x, y)])))
      else Inr points)"

definition parsePolygon ::
  "('j, 't) json_ops \<Rightarrow> (Point2D list \<Rightarrow> Polygon) \<Rightarrow> 'j \<Rightarrow> Polygon option" where
  "parsePolygon J assign_points j =
     (if \<not> j_contains J j ''coordinates'' \<or> \<not> j_is_array J (j_at J j ''coordinates'') \<or>
         j_size J (j_at J j ''coordinates'') = 0
      then None
      else let rings = j_at J j ''coordinates'' in
        if j_size J rings = 0 \<or> \<not> j_is_array J (j_idx J rings 0) then None
        else case fold_result (parse_point J) (j_elems J (j_idx J rings 0)) [] of
               Inl x \<Rightarrow> None
             | Inr points \<Rightarrow> Some (assign_points points))"

definition parse_floor_list :: "('j, 't) json_ops \<Rightarrow> 'j \<Rightarrow> string list result" where
  "parse_floor_list J j =
     (if j_is_array J j
      then fold_result (\<lambda>item fs. bind_result (j_get_string J item) (\<lambda>s. Inr (fs @ [s])))
             (j_elems J j) []
      else if j_is_string J j then bind_result (j_get_string J j) (\<lambda>s. Inr [s])
      else Inr [])"

definition parseNodeProperties ::
  "('j, 't) json_ops \<Rightarrow> (Point2D list \<Rightarrow> Polygon) \<Rightarrow> 'j \<Rightarrow> NodeProperties \<Rightarrow>
     NodeProperties \<times> cpp_exception option" where
  "parseNodeProperties J assign_points j props =
     run_steps
       ([opt_field J j ''id'' (j_get_int J) (\<lambda>x p. p\<lparr>np_id := x\<rparr>),
         opt_field J j ''type'' (j_get_string J) (\<lambda>x p. p\<lparr>np_type := x\<rparr>),
         opt_field J j ''name'' (j_get_string J) (\<lambda>x p. p\<lparr>np_name := x\<rparr>),
         opt_field J j ''subtype'' (j_get_string J) (\<lambda>x p. p\<lparr>np_subtype := Some x\<rparr>),
         opt_field J j ''ifc_guid'' (j_get_string J) (\<lambda>x p. p\<lparr>np_ifc_guid := Some x\<rparr>)] @
        (if j_contains J j ''position'' then parsePosition J (j_at J j ''position'') else []) @
        [opt_field J j ''min_z'' (get_coord J) (\<lambda>x p. p\<lparr>np_min_z := Some x\<rparr>),
         opt_field J j ''max_z'' (get_coord J) (\<lambda>x p. p\<lparr>np_max_z := Some x\<rparr>),
         opt_field J j ''bbox'' (\<lambda>b. parseBoundingBox J b BoundingBox_init)
           (\<lambda>x p. p\<lparr>np_bbox := Some x\<rparr>),
         opt_field J j ''polygon'' (\<lambda>q. Inr (parsePolygon J assign_points q))
           (\<lambda>x p. case x of Some poly \<Rightarrow> p\<lparr>np_polygon := Some poly\<rparr> | None \<Rightarrow> p),
         opt_field J j ''floor'' (parse_floor_list J)
           (\<lambda>x p. if x \<noteq> [] then p\<lparr>np_floor := Some x\<rparr> else p)])
       props"

definition parse_waypoint ::
  "('j, 't) json_ops \<Rightarrow> 'j \<Rightarrow> EdgeProperties \<Rightarrow> EdgeProperties \<times> cpp_exception option" where
  "parse_waypoint J waypoint props =
     (if j_is_array J waypoint \<and> 3 \<le> j_size J waypoint
      then case bind_result (get_coord J (j_idx J waypoint 0)) (\<lambda>x.
             bind_result (get_coord J (j_idx J waypoint 1)) (\<lambda>y.
             bind_result (get_coord J (j_idx J waypoint 2)) (\<lambda>z. Inr (x, y, z)))) of
             Inl e \<Rightarrow> (props, Some e)
           | Inr w \<Rightarrow> (props\<lparr>ep_path := Some (value_or (ep_path props) [] @ [w])\<rparr>, None)
      else (props, None))"

definition parseEdgeProperties ::
  "('j, 't) json_ops \<Rightarrow> 'j \<Rightarrow> EdgeProperties \<Rightarrow> EdgeProperties \<times> cpp_exception option" where
  "parseEdgeProperties J j props =
     (case run_steps
        [opt_field J j ''id'' (j_get_int J) (\<lambda>x p. p\<lparr>ep_id := x\<rparr>),
         opt_field J j ''type'' (j_get_string J) (\<lambda>x p. p\<lparr>ep_type := x\<rparr>),
         opt_field J j ''subtype'' (j_get_string J) (\<lambda>x p. p\<lparr>ep_subtype := Some x\<rparr>),
         opt_field J j ''room_id'' (j_get_int J) (\<lambda>x p. p\<lparr>ep_room_id := Some x\<rparr>),
         opt_field J j ''estimated_distance'' (j_get_double J) (\<lambda>x p. p\<lparr>ep_estimated_distance := x\<rparr>),
         opt_field J j ''planned_distance'' (j_get_double J) (\<lambda>x p. p\<lparr>ep_planned_distance := x\<rparr>),
         opt_field J j ''estimated_cost'' (j_get_double J) (\<lambda>x p. p\<lparr>ep_estimated_cost := x\<rparr>),
         opt_field J j ''planned_cost'' (j_get_double J) (\<lambda>x p. p\<lparr>ep_planned_cost := x\<rparr>)] props of
        (p, Some e) \<Rightarrow> (p, Some e)
      | (p, None) \<Rightarrow>
          if j_contains J j ''path'' \<and> j_is_array J (j_at J j ''path'')
          then run_loop (parse_waypoint J) (j_elems J (j_at J j ''path''))
                 (p\<lparr>ep_path := Some (value_or (ep_path p) [])\<rparr>)
          else (p, None))"

definition load_json_node ::
  "('j, 't) json_ops \<Rightarrow> (Point2D list \<Rightarrow> Polygon) \<Rightarrow> ('g, 'e) bgl \<Rightarrow> 'j \<Rightarrow>
     'g \<times> (int \<rightharpoonup> Vertex) \<Rightarrow> ('g \<times> (int \<rightharpoonup> Vertex)) \<times> cpp_exception option" where
  "load_json_node J assign_points B j st =
     (case st of (g, id_to_vertex) \<Rightarrow>
        case g_add_vertex B g of (v, g1) \<Rightarrow>
          (case parseNodeProperties J assign_points j (g_node B g1 v) of
             (p, Some e) \<Rightarrow> ((g_set_node B v p g1, id_to_vertex), Some e)
           | (p, None) \<Rightarrow> ((g_set_node B v p g1, id_to_vertex(np_id p \<mapsto> v)), None)))"

definition load_json_edge ::
  "('j, 't) json_ops \<Rightarrow> ('g, 'e) bgl \<Rightarrow> (int \<rightharpoonup> Vertex) \<Rightarrow> 'j \<Rightarrow> 'g \<Rightarrow> 'g \<times> cpp_exception option" where
  "load_json_edge J B id_to_vertex j g =
     (if \<not> j_contains J j ''source'' \<or> \<not> j_contains J j ''target'' then (g, None)
      else case bind_result (j_get_int J (j_at J j ''source'')) (\<lambda>s.
             bind_result (j_get_int J (j_at J j ''target'')) (\<lambda>t. Inr (s, t))) of
        Inl e \<Rightarrow> (g, Some e)
      | Inr (s, t) \<Rightarrow>
          (case (id_to_vertex s, id_to_vertex t) of
             (Some u, Some v) \<Rightarrow>
               (case g_add_edge B u v g of ((e, added), g1) \<Rightarrow>
                  if added
                  then (case parseEdgeProperties J j (g_eprops B g1 e) of
                          (q, x) \<Rightarrow> (g_set_eprops B e q g1, x))
                  else (g1, None))
           | _ \<Rightarrow> (g, None)))"

definition loadFromJson ::
  "('j, 't) json_ops \<Rightarrow> (Point2D list \<Rightarrow> Polygon) \<Rightarrow> ('g, 'e) bgl \<Rightarrow> 'j \<Rightarrow> 'g \<Rightarrow> bool \<times> 'g" where
  "loadFromJson J assign_points B j graph =
     (let g0 = g_clear B graph in
      if \<not> j_contains J j ''nodes'' \<or> \<not> j_is_array J (j_at J j ''nodes'') then (False, g0)
      else case run_loop (load_json_node J assign_points B) (j_elems J (j_at J j ''nodes''))
                  (g0, Map.empty) of
        ((g1, id_to_vertex), Some e) \<Rightarrow> (False, g1)
      | ((g1, id_to_vertex), None) \<Rightarrow>
          if \<not> j_contains J j ''links'' \<or> \<not> j_is_array J (j_at J j ''links'') then (False, g1)
          else case run_loop (load_json_edge J B id_to_vertex) (j_elems J (j_at J j ''links'')) g1 of
                 (g2, Some e) \<Rightarrow> (False, g2)
               | (g2, None) \<Rightarrow> (True, g2))"

type_synonym 't file_system = "string \<rightharpoonup> 't"

definition loadFromFile ::
  "('j, 't) json_ops \<Rightarrow> (Point2D list \<Rightarrow> Polygon) \<Rightarrow> ('g, 'e) bgl \<Rightarrow> 't file_system \<Rightarrow> string \<Rightarrow>
     'g \<Rightarrow> bool \<times> 'g" where
  "loadFromFile J assign_points B fs filename graph =
     (case fs filename of
        None \<Rightarrow> (False, graph)
      | Some t \<Rightarrow>
          (case j_read J t of
             Inl e \<Rightarrow> (False, graph)
           | Inr j \<Rightarrow> loadFromJson J assign_points B j graph))"

section \<open>Writing\<close>

definition polygonToGeoJson :: "('j, 't) json_ops \<Rightarrow> Polygon \<Rightarrow> 'j" where
  "polygonToGeoJson J polygon =
     j_fields J
       [(''type'', Some (j_of_string J ''Polygon'')),
        (''coordinates'', Some (j_push_back J
           (fold (\<lambda>(x, y). j_push_back J (j_of_doubles J [Fin x, Fin y])) (poly_outer polygon) (j_array J))
           (j_array J)))]
       (j_null J)"

definition node_fields :: "('j, 't) json_ops \<Rightarrow> NodeProperties \<Rightarrow> (string \<times> 'j option) list" where
  "node_fields J props =
       [(''id'', Some (j_of_int J (np_id props))),
        (''type'', Some (j_of_string J (np_type props))),
        (''name'', if np_name props \<noteq> [] then Some (j_of_string J (np_name props)) else None),
        (''subtype'', case np_subtype props of
            Some s \<Rightarrow> if s \<noteq> [] then Some (j_of_string J s) else None | None \<Rightarrow> None),
        (''ifc_guid'', case np_ifc_guid props of
            Some s \<Rightarrow> if s \<noteq> [] then Some (j_of_string J s) else None | None \<Rightarrow> None),
        (''position'', Some (j_of_pairs J
           [(''x'', Fin (pos_x (np_position props))),
            (''y'', Fin (pos_y (np_position props))),
            (''z'', Fin (pos_z (np_position props)))])),
        (''min_z'', map_option (\<lambda>z. j_of_double J (Fin z)) (np_min_z props)),
        (''max_z'', map_option (\<lambda>z. j_of_double J (Fin z)) (np_max_z props)),
        (''bbox'', map_option (\<lambda>b. j_of_pairs J
           [(''min_x'', Fin (bb_min_x b)), (''max_x'', Fin (bb_max_x b)),
            (''min_y'', Fin (bb_min_y b)), (''max_y'', Fin (bb_max_y b)),
            (''min_z'', Fin (bb_min_z b)), (''max_z'', Fin (bb_max_z b))]) (np_bbox props)),
        (''polygon'', map_option (polygonToGeoJson J) (np_polygon props)),
        (''floor'', case np_floor props of
            Some fl \<Rightarrow> if fl \<noteq> [] then Some (j_of_strings J fl) else None | None \<Rightarrow> None)]"

definition nodeToJson :: "('j, 't) json_ops \<Rightarrow> NodeProperties \<Rightarrow> 'j" where
  "nodeToJson J props = j_fields J (node_fields J props) (j_null J)"

definition nonzero_field :: "('j, 't) json_ops \<Rightarrow> bool \<Rightarrow> double \<Rightarrow> 'j option" where
  "nonzero_field J is_transition d =
     (if is_transition \<and> \<not> deq d (Fin 0) then Some (j_of_double J d) else None)"

definition edge_fields ::
  "('j, 't) json_ops \<Rightarrow> int \<Rightarrow> int \<Rightarrow> EdgeProperties \<Rightarrow> (string \<times> 'j option) list" where
  "edge_fields J source_id target_id props =
     (let tr = (ep_type props = ''transition'') in
       [(''id'', Some (j_of_int J (ep_id props))),
        (''source'', Some (j_of_int J source_id)),
        (''target'', Some (j_of_int J target_id)),
        (''type'', Some (j_of_string J (ep_type props))),
        (''subtype'', case ep_subtype props of
            Some s \<Rightarrow> if s \<noteq> [] then Some (j_of_string J s) else None | None \<Rightarrow> None),
        (''room_id'', map_option (j_of_int J) (ep_room_id props)),
        (''estimated_distance'', nonzero_field J tr (ep_estimated_distance props)),
        (''planned_distance'', nonzero_field J tr (ep_planned_distance props)),
        (''estimated_cost'', nonzero_field J tr (ep_estimated_cost props)),
        (''planned_cost'', nonzero_field J tr (ep_planned_cost props)),
        (''path'', case ep_path props of
            Some ws \<Rightarrow> if tr \<and> ws \<noteq> []
              then Some (fold (\<lambda>(x, y, z). j_push_back J (j_of_doubles J [Fin x, Fin y, Fin z])) ws (j_array J))
              else None
          | None \<Rightarrow> None)])"

definition edgeToJson :: "('j, 't) json_ops \<Rightarrow> int \<Rightarrow> int \<Rightarrow> EdgeProperties \<Rightarrow> 'j" where
  "edgeToJson J source_id target_id props =
     j_fields J (edge_fields J source_id target_id props) (j_null J)"

text \<open>\<open>vertex_to_id[v]\<close>: a vertex not in the map would read as 0.\<close>

definition vertex_to_id :: "('g, 'e) bgl \<Rightarrow> 'g \<Rightarrow> Vertex \<Rightarrow> int" where
  "vertex_to_id B g v = (if v < g_num_vertices B g then np_id (g_node B g v) else 0)"

definition toJson :: "('j, 't) json_ops \<Rightarrow> ('g, 'e) bgl \<Rightarrow> 'g \<Rightarrow> 'j" where
  "toJson J B graph =
     j_fields J
       [(''directed'', Some (j_of_bool J False)),
        (''multigraph'', Some (j_of_bool J False)),
        (''graph'', Some (j_object J)),
        (''nodes'', Some (fold (\<lambda>v. j_push_back J (nodeToJson J (g_node B graph v)))
           (g_vertices B graph) (j_array J))),
        (''links'', Some (fold (\<lambda>e. j_push_back J
             (edgeToJson J (vertex_to_id B graph (g_source B graph e))
                (vertex_to_id B graph (g_target B graph e)) (g_eprops B graph e)))
           (g_edges B graph) (j_array J)))]
       (j_null J)"

text \<open>
  \<open>std::ofstream\<close> truncates the file it opens, so when the serialiser throws (a string that is not
  UTF-8) the file is left with the empty contents \<open>no_text\<close>. \<open>writable\<close> says which files can be
  opened for writing.
\<close>

definition saveToFile ::
  "('j, 't) json_ops \<Rightarrow> (string \<Rightarrow> bool) \<Rightarrow> 't \<Rightarrow> ('g, 'e) bgl \<Rightarrow> string \<Rightarrow> 'g \<Rightarrow>
     't file_system \<Rightarrow> bool \<times> 't file_system" where
  "saveToFile J writable no_text B filename graph fs =
     (if \<not> writable filename then (False, fs)
      else case j_write J (toJson J B graph) of
             Inl e \<Rightarrow> (False, fs(filename \<mapsto> no_text))
           | Inr t \<Rightarrow> (True, fs(filename \<mapsto> t)))"

section \<open>Graphs read from any file are well formed\<close>

lemma run_loop_invariant:
  assumes "P s" and "\<And>x s. x \<in> set xs \<Longrightarrow> P s \<Longrightarrow> P (fst (f x s))"
  shows "P (fst (run_loop f xs s))"
  using assms
proof (induction xs arbitrary: s)
  case (Cons x xs)
  have "P (fst (f x s))" using Cons.prems by simp
  with Cons show ?case by (cases "f x s"; cases "snd (f x s)") auto
qed simp

text \<open>The state of the loop over the nodes: a well-formed graph and a table of its vertices.\<close>

definition ids_in_graph :: "('g, 'e) bgl \<Rightarrow> 'g \<times> (int \<rightharpoonup> Vertex) \<Rightarrow> bool" where
  "ids_in_graph B st \<longleftrightarrow> wf_graph B (fst st) \<and> ran (snd st) \<subseteq> {..<g_num_vertices B (fst st)}"

context boost_graph
begin

lemma wf_graph_iff:
  "wf_graph B g \<longleftrightarrow> (\<forall>(s, t, q) \<in> set (edges_view B g). s < g_num_vertices B g \<and> t < g_num_vertices B g)"
  by (simp add: wf_graph_def list_all_iff)

lemma wf_graph_clear: "wf_graph B (g_clear B g)"
  by (simp add: wf_graph_def)

lemma load_json_node_wf:
  assumes "ids_in_graph B (g, ids)"
  shows "ids_in_graph B (fst (load_json_node J ap B j (g, ids)))"
proof -
  obtain v g1 where a: "g_add_vertex B g = (v, g1)" by fastforce
  note V = add_vertex_set_node_view [OF a]
  have n: "g_num_vertices B (g_set_node B v p g1) = Suc (g_num_vertices B g)" for p
    using V(2) [of p] by (metis length_append_singleton length_nodes_view)
  obtain p x where p: "parseNodeProperties J ap j (g_node B g1 v) = (p, x)" by fastforce
  have "ran (ids(i \<mapsto> v)) \<subseteq> {..<Suc (g_num_vertices B g)}" "ran ids \<subseteq> {..<Suc (g_num_vertices B g)}" for i
    using assms V(1) by (auto simp: ids_in_graph_def ran_def split: if_splits)
  moreover have "wf_graph B (g_set_node B v p g1)"
    using assms by (auto simp: ids_in_graph_def wf_graph_iff V(3) n)
  ultimately show ?thesis
    using n by (cases x) (simp_all add: load_json_node_def a p ids_in_graph_def del: fun_upd_apply)
qed

lemma load_json_edge_wf:
  assumes "wf_graph B g" and "ran ids \<subseteq> {..<g_num_vertices B g}"
  shows "wf_graph B (fst (load_json_edge J B ids j g)) \<and>
         g_num_vertices B (fst (load_json_edge J B ids j g)) = g_num_vertices B g"
proof -
  have "wf_graph B (fst (case g_add_edge B u v g of ((e, added), g1) \<Rightarrow>
           if added then (case parseEdgeProperties J j (g_eprops B g1 e) of (q, x) \<Rightarrow> (g_set_eprops B e q g1, x))
           else (g1, None))) \<and>
        g_num_vertices B (fst (case g_add_edge B u v g of ((e, added), g1) \<Rightarrow>
           if added then (case parseEdgeProperties J j (g_eprops B g1 e) of (q, x) \<Rightarrow> (g_set_eprops B e q g1, x))
           else (g1, None))) = g_num_vertices B g"
    if uv: "ids s = Some u" "ids t = Some v" for s t u v
  proof -
    have b: "u < g_num_vertices B g" "v < g_num_vertices B g" using uv assms(2) by (auto simp: ran_def)
    obtain e b g1 where a: "g_add_edge B u v g = ((e, b), g1)" by (metis prod.collapse)
    note E = add_edge_set_eprops_view [OF \<open>u < g_num_vertices B g\<close> \<open>v < g_num_vertices B g\<close> a]
    obtain q x where q: "parseEdgeProperties J j (g_eprops B g1 e) = (q, x)" by fastforce
    have "g_num_vertices B (g_set_eprops B e q g1) = g_num_vertices B g"
      by (rule num_vertices_cong) (rule E(5))
    with E(1,6) assms(1) b q show ?thesis by (auto simp: a wf_graph_iff)
  qed
  with assms show ?thesis by (auto simp: load_json_edge_def split: sum.split option.split prod.splits)
qed

lemma loadFromJson_wf: "wf_graph B (snd (loadFromJson J ap B j g))"
proof -
  let ?r = "run_loop (load_json_node J ap B) (j_elems J (j_at J j ''nodes'')) (g_clear B g, Map.empty)"
  have "ids_in_graph B (g_clear B g, Map.empty)" by (simp add: ids_in_graph_def wf_graph_clear)
  then have inv: "ids_in_graph B (fst ?r)"
    by (rule run_loop_invariant) (use load_json_node_wf in \<open>metis prod.collapse\<close>)
  obtain g1 ids x where r: "?r = ((g1, ids), x)" by (metis prod.collapse)
  let ?q = "run_loop (load_json_edge J B ids) (j_elems J (j_at J j ''links'')) g1"
  have wf: "wf_graph B g1" "ran ids \<subseteq> {..<g_num_vertices B g1}"
    using inv r by (auto simp: ids_in_graph_def)
  have "wf_graph B (fst ?q) \<and> g_num_vertices B (fst ?q) = g_num_vertices B g1"
    by (rule run_loop_invariant) (use wf in \<open>simp, metis load_json_edge_wf\<close>)
  with wf r show ?thesis
    by (auto simp: loadFromJson_def Let_def wf_graph_clear split: option.split prod.splits)
qed

end

section \<open>Reading back what was written\<close>

text \<open>
  What a map file can carry: an empty optional string or list reads back as no value and the holes
  of a polygon are not written; only transition edges carry distances, costs and paths, and of
  these only values other than zero, which must be finite; every edge's waypoints are taken to be
  in the frame \<open>ifc\<close>.
\<close>

definition json_canonical_node :: "NodeProperties \<Rightarrow> bool" where
  "json_canonical_node p \<longleftrightarrow>
     in_int (np_id p) \<and> np_subtype p \<noteq> Some [] \<and> np_ifc_guid p \<noteq> Some [] \<and> np_floor p \<noteq> Some [] \<and>
     (case np_polygon p of None \<Rightarrow> True | Some poly \<Rightarrow> poly_inners poly = [])"

definition json_canonical_edge :: "EdgeProperties \<Rightarrow> bool" where
  "json_canonical_edge q \<longleftrightarrow>
     in_int (ep_id q) \<and> ep_subtype q \<noteq> Some [] \<and> ep_path_frame_id q = ''ifc'' \<and>
     (case ep_room_id q of None \<Rightarrow> True | Some r \<Rightarrow> in_int r) \<and>
     (if ep_type q = ''transition''
      then is_finite (ep_estimated_distance q) \<and> is_finite (ep_estimated_cost q) \<and>
           is_finite (ep_planned_distance q) \<and> ep_planned_distance q \<noteq> Fin 0 \<and>
           is_finite (ep_planned_cost q) \<and> ep_planned_cost q \<noteq> Fin 0 \<and> ep_path q \<noteq> Some []
      else ep_estimated_distance q = Fin 0 \<and> ep_estimated_cost q = Fin 0 \<and>
           ep_planned_distance q = Fin (-1) \<and> ep_planned_cost q = Fin (-1) \<and> ep_path q = None)"

text \<open>The vertex each node id stands for after the nodes were read.\<close>

primrec int_ids :: "nat \<Rightarrow> NodeProperties list \<Rightarrow> (int \<rightharpoonup> Vertex) \<Rightarrow> (int \<rightharpoonup> Vertex)" where
  "int_ids n [] ids = ids"
| "int_ids n (p # ps) ids = int_ids (Suc n) ps (ids(np_id p \<mapsto> n))"

lemma int_ids_unchanged: "i \<notin> np_id ` set ps \<Longrightarrow> int_ids n ps ids i = ids i"
  by (induction ps arbitrary: n ids) auto

lemma int_ids_distinct:
  "distinct (map np_id ps) \<Longrightarrow> i < length ps \<Longrightarrow> int_ids n ps ids (np_id (ps ! i)) = Some (n + i)"
proof (induction ps arbitrary: n ids i)
  case (Cons p ps)
  then show ?case
    using Cons.IH [of "i - 1" "Suc n"] by (cases i) (simp_all add: int_ids_unchanged)
qed simp

text \<open>The library contracts the loader rests on, together.\<close>

locale map_loader = boost_graph B + json_lib J
  for B :: "('g, 'e) bgl" and J :: "('j, 't) json_ops" +
  fixes assign_points :: "Point2D list \<Rightarrow> Polygon"
  assumes assign_points: "assign_points ps = \<lparr>poly_outer = ps, poly_inners = []\<rparr>"
begin

lemma opt_field_fields:
  "distinct (map fst kvs) \<Longrightarrow>
     opt_field J (j_fields J kvs (j_null J)) k get upd s =
       (case field_of kvs k of Some v \<Rightarrow> bind_result (get v) (\<lambda>x. Inr (upd x s)) | None \<Rightarrow> Inr s)"
  by (simp add: opt_field_def fields_lookup null_contains split: option.split)

lemma opt_field_object:
  "distinct (map fst kvs) \<Longrightarrow>
     opt_field J (j_fields J kvs (j_object J)) k get upd s =
       (case field_of kvs k of Some v \<Rightarrow> bind_result (get v) (\<lambda>x. Inr (upd x s)) | None \<Rightarrow> Inr s)"
  by (simp add: opt_field_def fields_lookup object split: option.split)

lemma get_coord_double [simp]: "get_coord J (j_of_double J (Fin x)) = Inr x"
  by (simp add: get_coord_def get_double)

lemma parse_bbox:
  "parseBoundingBox J (j_of_pairs J
     [(''min_x'', Fin (bb_min_x b)), (''max_x'', Fin (bb_max_x b)),
      (''min_y'', Fin (bb_min_y b)), (''max_y'', Fin (bb_max_y b)),
      (''min_z'', Fin (bb_min_z b)), (''max_z'', Fin (bb_max_z b))]) b0 = Inr b"
  by (simp add: parseBoundingBox_def of_pairs_fields opt_field_object field_of_def)

lemma parse_position:
  "run_steps (parsePosition J (j_of_pairs J
     [(''x'', Fin (pos_x c)), (''y'', Fin (pos_y c)), (''z'', Fin (pos_z c))]) @ fs) p =
   run_steps fs (p\<lparr>np_position := c\<rparr>)"
  by (cases c; cases "np_position p")
     (simp add: parsePosition_def of_pairs_fields opt_field_object field_of_def)

lemma doubles_array:
  "j_is_array J (j_of_doubles J ds)" "j_size J (j_of_doubles J ds) = length ds"
  "i < length ds \<Longrightarrow> j_idx J (j_of_doubles J ds) i = j_of_double J (ds ! i)"
  by (simp_all add: of_doubles_array size idx)

lemma parse_points:
  "fold_result (parse_point J) (map (\<lambda>(x, y). j_of_doubles J [Fin x, Fin y]) ps) acc = Inr (acc @ ps)"
  by (induction ps arbitrary: acc) (auto simp: parse_point_def doubles_array)

lemma parse_geojson:
  "parsePolygon J assign_points (polygonToGeoJson J poly) = Some (poly\<lparr>poly_inners := []\<rparr>)"
proof -
  let ?ring = "fold (j_push_back J) (map (\<lambda>(x, y). j_of_doubles J [Fin x, Fin y]) (poly_outer poly)) (j_array J)"
  have ring: "fold (\<lambda>(x, y). j_push_back J (j_of_doubles J [Fin x, Fin y])) (poly_outer poly) (j_array J) = ?ring"
    by (simp add: fold_map comp_def case_prod_unfold)
  have co: "j_is_array J (j_push_back J ?ring (j_array J))"
    "j_elems J (j_push_back J ?ring (j_array J)) = [?ring]"
    using push_back [OF array(1)] array(2) by simp_all
  then show ?thesis
    using parse_points [of "poly_outer poly" "[]"]
    by (simp add: parsePolygon_def polygonToGeoJson_def ring fields_lookup field_of_def size idx
        assign_points Let_def)
qed

lemma parse_floors: "parse_floor_list J (j_of_strings J fl) = Inr fl"
proof -
  have "fold_result (\<lambda>item fs. bind_result (j_get_string J item) (\<lambda>s. Inr (fs @ [s])))
      (map (j_of_string J) fl) acc = Inr (acc @ fl)" for acc
    by (induction fl arbitrary: acc) (simp_all add: get_string)
  then show ?thesis by (simp add: parse_floor_list_def of_strings_array)
qed

lemma parse_path:
  "run_loop (parse_waypoint J) (map (\<lambda>(x, y, z). j_of_doubles J [Fin x, Fin y, Fin z]) ws)
     (q\<lparr>ep_path := Some acc\<rparr>) = (q\<lparr>ep_path := Some (acc @ ws)\<rparr>, None)"
proof (induction ws arbitrary: acc)
  case (Cons w ws)
  obtain x y z where "w = (x, y, z)" by (metis prod.collapse)
  with Cons [of "acc @ [w]"] show ?case
    by (simp add: parse_waypoint_def doubles_array value_or_def)
qed simp

lemma node_fields_lookup:
  "distinct (map fst (node_fields J p))"
  "field_of (node_fields J p) ''id'' = Some (j_of_int J (np_id p))"
  "field_of (node_fields J p) ''type'' = Some (j_of_string J (np_type p))"
  "field_of (node_fields J p) ''name'' = (if np_name p \<noteq> [] then Some (j_of_string J (np_name p)) else None)"
  "field_of (node_fields J p) ''subtype'' = (case np_subtype p of
     Some s \<Rightarrow> if s \<noteq> [] then Some (j_of_string J s) else None | None \<Rightarrow> None)"
  "field_of (node_fields J p) ''ifc_guid'' = (case np_ifc_guid p of
     Some s \<Rightarrow> if s \<noteq> [] then Some (j_of_string J s) else None | None \<Rightarrow> None)"
  "field_of (node_fields J p) ''position'' = Some (j_of_pairs J
     [(''x'', Fin (pos_x (np_position p))), (''y'', Fin (pos_y (np_position p))),
      (''z'', Fin (pos_z (np_position p)))])"
  "field_of (node_fields J p) ''min_z'' = map_option (\<lambda>z. j_of_double J (Fin z)) (np_min_z p)"
  "field_of (node_fields J p) ''max_z'' = map_option (\<lambda>z. j_of_double J (Fin z)) (np_max_z p)"
  "field_of (node_fields J p) ''bbox'' = map_option (\<lambda>b. j_of_pairs J
     [(''min_x'', Fin (bb_min_x b)), (''max_x'', Fin (bb_max_x b)),
      (''min_y'', Fin (bb_min_y b)), (''max_y'', Fin (bb_max_y b)),
      (''min_z'', Fin (bb_min_z b)), (''max_z'', Fin (bb_max_z b))]) (np_bbox p)"
  "field_of (node_fields J p) ''polygon'' = map_option (polygonToGeoJson J) (np_polygon p)"
  "field_of (node_fields J p) ''floor'' = (case np_floor p of
     Some fl \<Rightarrow> if fl \<noteq> [] then Some (j_of_strings J fl) else None | None \<Rightarrow> None)"
  by (simp_all add: node_fields_def field_of_def)

lemma parse_node:
  assumes "json_canonical_node p"
  shows "parseNodeProperties J assign_points (nodeToJson J p) NodeProperties_init = (p, None)"
proof -
  let ?j = "j_fields J (node_fields J p) (j_null J)"
  let ?p0 = "NodeProperties_init\<lparr>np_id := np_id p, np_type := np_type p, np_name := np_name p,
      np_subtype := np_subtype p, np_ifc_guid := np_ifc_guid p\<rparr>"
  note L = node_fields_lookup [of p]
  note F = opt_field_fields [OF L(1)]
  have c: "in_int (np_id p)" "np_subtype p \<noteq> Some []" "np_ifc_guid p \<noteq> Some []" "np_floor p \<noteq> Some []"
    using assms by (simp_all add: json_canonical_node_def)
  have pos: "j_contains J ?j ''position''"
    "j_at J ?j ''position'' = j_of_pairs J
       [(''x'', Fin (pos_x (np_position p))), (''y'', Fin (pos_y (np_position p))),
        (''z'', Fin (pos_z (np_position p)))]"
    by (simp_all add: fields_lookup L)
  have first: "run_steps
       ([opt_field J ?j ''id'' (j_get_int J) (\<lambda>x p. p\<lparr>np_id := x\<rparr>),
         opt_field J ?j ''type'' (j_get_string J) (\<lambda>x p. p\<lparr>np_type := x\<rparr>),
         opt_field J ?j ''name'' (j_get_string J) (\<lambda>x p. p\<lparr>np_name := x\<rparr>),
         opt_field J ?j ''subtype'' (j_get_string J) (\<lambda>x p. p\<lparr>np_subtype := Some x\<rparr>),
         opt_field J ?j ''ifc_guid'' (j_get_string J) (\<lambda>x p. p\<lparr>np_ifc_guid := Some x\<rparr>)] @ fs)
       NodeProperties_init = run_steps fs ?p0" for fs
    using c by (cases "np_subtype p"; cases "np_ifc_guid p"; cases "np_name p")
       (simp_all add: F L get_int get_string NodeProperties_init_def)
  have inners: "q\<lparr>poly_inners := []\<rparr> = q" if "np_polygon p = Some q" for q
    using assms that by (cases q) (simp add: json_canonical_node_def)
  have last: "run_steps
        [opt_field J ?j ''min_z'' (get_coord J) (\<lambda>x p. p\<lparr>np_min_z := Some x\<rparr>),
         opt_field J ?j ''max_z'' (get_coord J) (\<lambda>x p. p\<lparr>np_max_z := Some x\<rparr>),
         opt_field J ?j ''bbox'' (\<lambda>b. parseBoundingBox J b BoundingBox_init)
           (\<lambda>x p. p\<lparr>np_bbox := Some x\<rparr>),
         opt_field J ?j ''polygon'' (\<lambda>q. Inr (parsePolygon J assign_points q))
           (\<lambda>x p. case x of Some poly \<Rightarrow> p\<lparr>np_polygon := Some poly\<rparr> | None \<Rightarrow> p),
         opt_field J ?j ''floor'' (parse_floor_list J)
           (\<lambda>x p. if x \<noteq> [] then p\<lparr>np_floor := Some x\<rparr> else p)]
       (?p0\<lparr>np_position := np_position p\<rparr>) = (p, None)"
    using c(4)
    by (cases "np_min_z p"; cases "np_max_z p"; cases "np_bbox p"; cases "np_polygon p"; cases "np_floor p")
       (simp_all add: F L parse_bbox parse_geojson inners parse_floors NodeProperties_init_def)
  show ?thesis
    unfolding nodeToJson_def parseNodeProperties_def first
    using last by (simp add: pos parse_position)
qed

lemma waypoints_array:
  "fold (\<lambda>(x, y, z). j_push_back J (j_of_doubles J [Fin x, Fin y, Fin z])) ws a =
     fold (j_push_back J) (map (\<lambda>(x, y, z). j_of_doubles J [Fin x, Fin y, Fin z]) ws) a"
  by (induction ws arbitrary: a) auto

lemma edge_fields_lookup:
  "distinct (map fst (edge_fields J s t q))"
  "field_of (edge_fields J s t q) ''id'' = Some (j_of_int J (ep_id q))"
  "field_of (edge_fields J s t q) ''source'' = Some (j_of_int J s)"
  "field_of (edge_fields J s t q) ''target'' = Some (j_of_int J t)"
  "field_of (edge_fields J s t q) ''type'' = Some (j_of_string J (ep_type q))"
  "field_of (edge_fields J s t q) ''subtype'' = (case ep_subtype q of
     Some s \<Rightarrow> if s \<noteq> [] then Some (j_of_string J s) else None | None \<Rightarrow> None)"
  "field_of (edge_fields J s t q) ''room_id'' = map_option (j_of_int J) (ep_room_id q)"
  "field_of (edge_fields J s t q) ''estimated_distance'' =
     nonzero_field J (ep_type q = ''transition'') (ep_estimated_distance q)"
  "field_of (edge_fields J s t q) ''planned_distance'' =
     nonzero_field J (ep_type q = ''transition'') (ep_planned_distance q)"
  "field_of (edge_fields J s t q) ''estimated_cost'' =
     nonzero_field J (ep_type q = ''transition'') (ep_estimated_cost q)"
  "field_of (edge_fields J s t q) ''planned_cost'' =
     nonzero_field J (ep_type q = ''transition'') (ep_planned_cost q)"
  "field_of (edge_fields J s t q) ''path'' = (case ep_path q of
     Some ws \<Rightarrow> if ep_type q = ''transition'' \<and> ws \<noteq> []
       then Some (fold (j_push_back J) (map (\<lambda>(x, y, z). j_of_doubles J [Fin x, Fin y, Fin z]) ws) (j_array J))
       else None
   | None \<Rightarrow> None)"
  by (simp_all add: edge_fields_def field_of_def Let_def waypoints_array split: option.split)

lemma parse_edge:
  assumes "json_canonical_edge q"
  shows "parseEdgeProperties J (edgeToJson J s t q) EdgeProperties_init = (q, None)"
proof -
  let ?j = "j_fields J (edge_fields J s t q) (j_null J)"
  note L = edge_fields_lookup [of s t q]
  note F = opt_field_fields [OF L(1)]
  have c: "in_int (ep_id q)" "ep_subtype q \<noteq> Some []" "ep_path_frame_id q = ''ifc''"
    "ep_path q \<noteq> Some []"
    using assms by (auto simp: json_canonical_edge_def split: if_splits)
  have r: "ep_room_id q = Some n \<Longrightarrow> in_int n" for n
    using assms by (simp add: json_canonical_edge_def)
  have "run_steps
        [opt_field J ?j ''id'' (j_get_int J) (\<lambda>x p. p\<lparr>ep_id := x\<rparr>),
         opt_field J ?j ''type'' (j_get_string J) (\<lambda>x p. p\<lparr>ep_type := x\<rparr>),
         opt_field J ?j ''subtype'' (j_get_string J) (\<lambda>x p. p\<lparr>ep_subtype := Some x\<rparr>),
         opt_field J ?j ''room_id'' (j_get_int J) (\<lambda>x p. p\<lparr>ep_room_id := Some x\<rparr>),
         opt_field J ?j ''estimated_distance'' (j_get_double J) (\<lambda>x p. p\<lparr>ep_estimated_distance := x\<rparr>),
         opt_field J ?j ''planned_distance'' (j_get_double J) (\<lambda>x p. p\<lparr>ep_planned_distance := x\<rparr>),
         opt_field J ?j ''estimated_cost'' (j_get_double J) (\<lambda>x p. p\<lparr>ep_estimated_cost := x\<rparr>),
         opt_field J ?j ''planned_cost'' (j_get_double J) (\<lambda>x p. p\<lparr>ep_planned_cost := x\<rparr>)]
       EdgeProperties_init = (q\<lparr>ep_path := None\<rparr>, None)"
    using c r assms
    by (cases "ep_subtype q"; cases "ep_room_id q"; cases "ep_type q = ''transition''")
       (simp_all add: F L nonzero_field_def get_int get_double get_string EdgeProperties_init_def
          json_canonical_edge_def)
  moreover have "(if j_contains J ?j ''path'' \<and> j_is_array J (j_at J ?j ''path'')
      then run_loop (parse_waypoint J) (j_elems J (j_at J ?j ''path'')) (q\<lparr>ep_path := Some []\<rparr>)
      else (q\<lparr>ep_path := None\<rparr>, None)) = (q, None)"
    using c(4) assms parse_path [where q = q and acc = "[]"]
    by (cases "ep_path q"; cases "ep_type q = ''transition''")
       (auto simp: fields_lookup L null_contains json_canonical_edge_def)
  ultimately show ?thesis
    by (simp add: parseEdgeProperties_def edgeToJson_def value_or_def split del: if_split
        cong del: if_weak_cong)
qed

text \<open>What is written comes back unchanged, as far as its numbers are finite.\<close>

lemma stored_doubles:
  "list_all is_finite ds \<Longrightarrow> j_stored J (j_of_doubles J ds) = j_of_doubles J ds"
  by (simp add: of_doubles_array stored_double comp_def list_all_iff cong: map_cong)

lemma stored_pairs:
  assumes "distinct (map fst kds)" and "list_all (\<lambda>(k, d). is_finite d) kds"
  shows "j_stored J (j_of_pairs J kds) = j_of_pairs J kds"
proof -
  have "map (\<lambda>(k, ov). (k, map_option (j_stored J) ov)) (map (\<lambda>(k, d). (k, Some (j_of_double J d))) kds)
      = map (\<lambda>(k, d). (k, Some (j_of_double J d))) kds"
    using assms(2) by (induction kds) (auto simp: stored_double)
  then show ?thesis by (simp add: of_pairs_fields assms(1) stored_fields stored_object del: map_map)
qed

lemma stored_strings: "j_stored J (j_of_strings J ss) = j_of_strings J ss"
  by (simp add: of_strings_array stored_string comp_def)

lemma stored_polygon: "j_stored J (polygonToGeoJson J poly) = polygonToGeoJson J poly"
proof -
  have ring: "fold (\<lambda>(x, y). j_push_back J (j_of_doubles J [Fin x, Fin y])) r a =
      fold (j_push_back J) (map (\<lambda>(x, y). j_of_doubles J [Fin x, Fin y]) r) a" for r a
    by (induction r arbitrary: a) auto
  have same: "map (j_stored J) (map (\<lambda>(x, y). j_of_doubles J [Fin x, Fin y]) r) =
      map (\<lambda>(x, y). j_of_doubles J [Fin x, Fin y]) r" for r
    by (induction r) (auto simp: stored_doubles)
  show ?thesis
    by (simp add: polygonToGeoJson_def stored_fields stored_null stored_string ring stored_push_back
        array stored_array same del: map_map)
qed

lemma stored_node: "j_stored J (nodeToJson J p) = nodeToJson J p"
proof -
  have "map (\<lambda>(k, ov). (k, map_option (j_stored J) ov)) (node_fields J p) = node_fields J p"
    by (simp add: node_fields_def stored_int stored_string stored_pairs stored_strings stored_polygon
        stored_double option.map_comp comp_def split: option.split)
  then show ?thesis by (simp add: nodeToJson_def stored_fields stored_null)
qed

lemma stored_edge:
  assumes "json_canonical_edge q"
  shows "j_stored J (edgeToJson J s t q) = edgeToJson J s t q"
proof -
  have same: "map (j_stored J) (map (\<lambda>(x, y, z). j_of_doubles J [Fin x, Fin y, Fin z]) ws) =
      map (\<lambda>(x, y, z). j_of_doubles J [Fin x, Fin y, Fin z]) ws" for ws
    by (induction ws) (auto simp: stored_doubles)
  have "map (\<lambda>(k, ov). (k, map_option (j_stored J) ov)) (edge_fields J s t q) = edge_fields J s t q"
    using assms
    by (simp add: edge_fields_def Let_def stored_int stored_string stored_double nonzero_field_def
        waypoints_array same option.map_comp comp_def json_canonical_edge_def del: map_map
        split: option.split)
  then show ?thesis by (simp add: edgeToJson_def stored_fields stored_null)
qed

lemma toJson_arrays:
  "fold (\<lambda>v. j_push_back J (nodeToJson J (g_node B g v))) vs (j_array J) =
     fold (j_push_back J) (map (\<lambda>v. nodeToJson J (g_node B g v)) vs) (j_array J)"
  "fold (\<lambda>e. j_push_back J (edgeToJson J (f e) (h e) (g_eprops B g e))) es (j_array J) =
     fold (j_push_back J) (map (\<lambda>e. edgeToJson J (f e) (h e) (g_eprops B g e)) es) (j_array J)"
  by (simp_all add: fold_map comp_def)

lemma stored_toJson:
  assumes "\<forall>e \<in> set (g_edges B g). json_canonical_edge (g_eprops B g e)"
  shows "j_stored J (toJson J B g) = toJson J B g"
proof -
  note P = toJson_arrays
  have "map (j_stored J) (map (\<lambda>v. nodeToJson J (g_node B g v)) vs) =
      map (\<lambda>v. nodeToJson J (g_node B g v)) vs" for vs
    by (simp add: stored_node)
  moreover have "map (j_stored J) (map (\<lambda>e. edgeToJson J (a e) (b e) (g_eprops B g e)) (g_edges B g)) =
      map (\<lambda>e. edgeToJson J (a e) (b e) (g_eprops B g e)) (g_edges B g)" for a b
    using assms by (simp add: stored_edge)
  ultimately show ?thesis
    by (simp add: toJson_def stored_fields stored_null stored_bool stored_object P del: map_map)
qed

text \<open>The two loops over the arrays.\<close>

lemma load_json_nodes:
  assumes "\<forall>p \<in> set ps. json_canonical_node p"
  shows "\<exists>g'. run_loop (load_json_node J assign_points B) (map (nodeToJson J) ps) (g, ids) =
           ((g', int_ids (g_num_vertices B g) ps ids), None) \<and>
           nodes_view B g' = nodes_view B g @ ps \<and> edges_view B g' = edges_view B g"
  using assms
proof (induction ps arbitrary: g ids)
  case (Cons p ps)
  obtain v g1 where a: "g_add_vertex B g = (v, g1)" by fastforce
  note V = add_vertex_set_node_view [OF a]
  let ?g = "g_set_node B v p g1"
  have step: "load_json_node J assign_points B (nodeToJson J p) (g, ids) =
      ((?g, ids(np_id p \<mapsto> g_num_vertices B g)), None)"
    using Cons.prems V(1,4) parse_node [of p] by (simp add: load_json_node_def a)
  have n: "g_num_vertices B ?g = Suc (g_num_vertices B g)"
    using V(2) [of p] by (metis length_append_singleton length_nodes_view)
  from Cons.IH [of ?g "ids(np_id p \<mapsto> g_num_vertices B g)"] Cons.prems obtain g' where
    "run_loop (load_json_node J assign_points B) (map (nodeToJson J) ps)
       (?g, ids(np_id p \<mapsto> g_num_vertices B g)) =
       ((g', int_ids (g_num_vertices B ?g) ps (ids(np_id p \<mapsto> g_num_vertices B g))), None)"
    "nodes_view B g' = nodes_view B ?g @ ps" "edges_view B g' = edges_view B ?g"
    by (auto simp del: fun_upd_apply)
  with step n V(2,3) [of p] show ?case by (intro exI [of _ g']) (simp del: fun_upd_apply)
qed simp

lemma load_json_edge_ok:
  assumes "json_canonical_edge q" and "in_int s" and "in_int t"
    and "ids s = Some u" and "ids t = Some v" and "u < g_num_vertices B g" and "v < g_num_vertices B g"
  obtains g' where "load_json_edge J B ids (edgeToJson J s t q) g = (g', None)"
    and "nodes_view B g' = nodes_view B g" and "edges_view B g' = edges_view B g @ [(u, v, q)]"
proof -
  obtain e b g1 where a: "g_add_edge B u v g = ((e, b), g1)" by (metis prod.collapse)
  note E = add_edge_set_eprops_view [OF assms(6,7) a]
  have at: "j_contains J (edgeToJson J s t q) ''source''" "j_at J (edgeToJson J s t q) ''source'' = j_of_int J s"
    "j_contains J (edgeToJson J s t q) ''target''" "j_at J (edgeToJson J s t q) ''target'' = j_of_int J t"
    by (simp_all add: edgeToJson_def fields_lookup edge_fields_lookup)
  show thesis
    by (rule that [of "g_set_eprops B e q g1"])
       (use assms E in \<open>simp_all add: load_json_edge_def at get_int a parse_edge\<close>)
qed

lemma load_json_edges:
  assumes "\<forall>(s, t, q) \<in> set es. json_canonical_edge q \<and> s < g_num_vertices B g \<and> t < g_num_vertices B g \<and>
      in_int (f s) \<and> in_int (f t) \<and> ids (f s) = Some s \<and> ids (f t) = Some t"
  shows "\<exists>g'. run_loop (load_json_edge J B ids) (map (\<lambda>(s, t, q). edgeToJson J (f s) (f t) q) es) g = (g', None) \<and>
           nodes_view B g' = nodes_view B g \<and> edges_view B g' = edges_view B g @ es"
  using assms
proof (induction es arbitrary: g)
  case (Cons x es)
  obtain s t q where x: "x = (s, t, q)" by (metis prod.collapse)
  from Cons.prems have c: "json_canonical_edge q" "in_int (f s)" "in_int (f t)" "ids (f s) = Some s"
    "ids (f t) = Some t" "s < g_num_vertices B g" "t < g_num_vertices B g" by (auto simp: x)
  obtain g1 where g1: "load_json_edge J B ids (edgeToJson J (f s) (f t) q) g = (g1, None)"
    "nodes_view B g1 = nodes_view B g" "edges_view B g1 = edges_view B g @ [(s, t, q)]"
    by (rule load_json_edge_ok [OF c])
  with Cons.IH [of g1] Cons.prems num_vertices_cong [OF g1(2)] show ?case by (auto simp: x)
qed simp

lemma loadFromJson_toJson:
  assumes "wf_graph B g" and "distinct (map np_id (nodes_view B g))"
    and n: "\<forall>p \<in> set (nodes_view B g). json_canonical_node p"
    and e: "\<forall>(s, t, q) \<in> set (edges_view B g). json_canonical_edge q"
  shows "\<exists>g'. loadFromJson J assign_points B (toJson J B g) g0 = (True, g') \<and>
           nodes_view B g' = nodes_view B g \<and> edges_view B g' = edges_view B g"
proof -
  let ?ps = "nodes_view B g" and ?es = "edges_view B g" and ?f = "vertex_to_id B g"
  have arr: "fold (\<lambda>v. j_push_back J (nodeToJson J (g_node B g v))) (g_vertices B g) (j_array J) =
      fold (j_push_back J) (map (nodeToJson J) ?ps) (j_array J)"
    "fold (\<lambda>e. j_push_back J (edgeToJson J (?f (g_source B g e)) (?f (g_target B g e)) (g_eprops B g e)))
        (g_edges B g) (j_array J) =
      fold (j_push_back J) (map (\<lambda>(s, t, q). edgeToJson J (?f s) (?f t) q) ?es) (j_array J)"
    by (simp_all add: toJson_arrays nodes_view_def edges_view_def edge_view_of_def comp_def)
  note lookup = fields_lookup [of "j_null J"]
  have parts: "j_contains J (toJson J B g) ''nodes''" "j_contains J (toJson J B g) ''links''"
    "j_at J (toJson J B g) ''nodes'' = fold (j_push_back J) (map (nodeToJson J) ?ps) (j_array J)"
    "j_at J (toJson J B g) ''links'' =
       fold (j_push_back J) (map (\<lambda>(s, t, q). edgeToJson J (?f s) (?f t) q) ?es) (j_array J)"
    by (simp_all add: toJson_def lookup field_of_def arr)
  have "g_num_vertices B (g_clear B g0) = 0" by (rule clear_view(1))
  with load_json_nodes [OF n, of "g_clear B g0" Map.empty] obtain g1 where
    g1: "run_loop (load_json_node J assign_points B) (map (nodeToJson J) ?ps) (g_clear B g0, Map.empty) =
      ((g1, int_ids 0 ?ps Map.empty), None)" "nodes_view B g1 = ?ps" "edges_view B g1 = []"
    by auto
  have ids: "in_int (?f v) \<and> int_ids 0 ?ps Map.empty (?f v) = Some v" if "v < g_num_vertices B g" for v
    using that n int_ids_distinct [OF assms(2), of v 0 Map.empty]
    by (simp add: vertex_to_id_def json_canonical_node_def nodes_view_def)
  have "g_num_vertices B g1 = g_num_vertices B g" by (rule num_vertices_cong [OF g1(2)])
  then have "\<forall>(s, t, q) \<in> set ?es. json_canonical_edge q \<and> s < g_num_vertices B g1 \<and> t < g_num_vertices B g1 \<and>
      in_int (?f s) \<and> in_int (?f t) \<and> int_ids 0 ?ps Map.empty (?f s) = Some s \<and>
      int_ids 0 ?ps Map.empty (?f t) = Some t"
    using e ids assms(1) by (fastforce simp: wf_graph_def list_all_iff)
  from load_json_edges [OF this] g1 show ?thesis
    by (auto simp: loadFromJson_def parts Let_def)
qed

end

interpretation jl: map_loader vec_graph json_data "\<lambda>ps. \<lparr>poly_outer = ps, poly_inners = []\<rparr>"
  by unfold_locales simp

section \<open>Properties\<close>



text \<open>
  C24: whatever a map file contains, and whether reading it succeeds or not, \<open>loadFromFile\<close> leaves
  a graph whose edges all end at existing vertices; a file that is missing or is not JSON leaves
  the graph as it was.
\<close>

theorem loadFromFile_wf:
  assumes "boost_graph B" and "wf_graph B g"
  shows "wf_graph B (snd (loadFromFile J assign_points B fs filename g)) \<and>
         (fs filename = None \<or> isl (j_read J (the (fs filename))) \<longrightarrow>
            loadFromFile J assign_points B fs filename g = (False, g))"
  using boost_graph.loadFromJson_wf [OF assms(1), of J assign_points _ g] assms(2)
  by (auto simp: loadFromFile_def split: option.split sum.split)

theorem loadFromFile_wf_witness:
  "wf_graph vec_graph (snd (loadFromFile json_data (\<lambda>ps. Polygon_init) vec_graph
     [''map.json'' \<mapsto> JObj [''nodes'' \<mapsto> JArr [JNull]]] ''map.json'' vg_init))"
  using loadFromFile_wf [OF vg.boost_graph_axioms, of vg_init json_data "\<lambda>ps. Polygon_init"
      "[''map.json'' \<mapsto> JObj [''nodes'' \<mapsto> JArr [JNull]]]" "''map.json''"]
  by (simp add: wf_graph_def vg_init_def)

end
