(* ===== verification/Topomap_Server.thy ===== *)
theory Topomap_Server
  imports Topomap_Utils Map_Loader
begin

text \<open>
  \<open>navbim_topomap_server::TopomapServer\<close> (\<open>topomap_server.cpp\<close>): the ROS lifecycle node that owns
  the topological map and serves it. Each service callback is a function from the server state and
  the request to the response (and the new state, for those that change it); the lifecycle
  callbacks also take and return the file system. Every callback holds \<open>graph_mutex_\<close> for its whole
  body, so callbacks are atomic steps. Logging is left out.

  The node's parameter interface (rclcpp) is the parameter \<open>ros_params\<close>.
\<close>

section \<open>State\<close>

record ('g, 'n) TopomapServer =
  ts_graph :: 'g
  ts_topomap_file :: string
  ts_building_name :: string
  ts_floor_names :: "string list"
  ts_global_frame :: string
  ts_save_at_shutdown :: bool
  ts_services :: bool
  ts_bond :: bool
  ts_node :: 'n

definition TopomapServer_init :: "('g, 'e) bgl \<Rightarrow> 'n \<Rightarrow> ('g, 'n) TopomapServer" where
  "TopomapServer_init B node =
     \<lparr>ts_graph = g_empty B, ts_topomap_file = '''', ts_building_name = '''', ts_floor_names = [],
      ts_global_frame = '''', ts_save_at_shutdown = False, ts_services = False, ts_bond = False,
      ts_node = node\<rparr>"

datatype CallbackReturn = SUCCESS | FAILURE

record 'n ros_params =
  rp_declare_string :: "string \<Rightarrow> string \<Rightarrow> 'n \<Rightarrow> 'n result"
  rp_declare_bool :: "string \<Rightarrow> bool \<Rightarrow> 'n \<Rightarrow> 'n result"
  rp_get_string :: "'n \<Rightarrow> string \<Rightarrow> string"
  rp_get_bool :: "'n \<Rightarrow> string \<Rightarrow> bool"

section \<open>Messages of nodes and edges\<close>

text \<open>The conversion of a \<open>double\<close> to a \<open>float\<close> is the parameter \<open>f32\<close>, as in the planner's map.\<close>

definition convertToTopomapNodeMsg :: "(real \<Rightarrow> real) \<Rightarrow> NodeProperties \<Rightarrow> TopomapNode" where
  "convertToTopomapNodeMsg f32 node =
     TopomapNode_init\<lparr>tn_id := to_string (np_id node),
       tn_name := np_name node,
       tn_type := np_type node,
       tn_ifc_guid := value_or (np_ifc_guid node) [],
       tn_position := np_position node,
       tn_min_z := value_or (np_min_z node) 0,
       tn_max_z := value_or (np_max_z node) 0,
       tn_subtype := value_or (np_subtype node) [],
       tn_floor := (case np_floor node of Some fl \<Rightarrow> fl | None \<Rightarrow> tn_floor TopomapNode_init),
       tn_bbox := (case np_bbox node of Some bb \<Rightarrow> bbox_to_msg bb | None \<Rightarrow> tn_bbox TopomapNode_init),
       tn_polygon := (case np_polygon node of Some poly \<Rightarrow> polygon_to_msg f32 poly
                      | None \<Rightarrow> tn_polygon TopomapNode_init)\<rparr>"

definition convertToTopomapEdgeMsg :: "int \<Rightarrow> int \<Rightarrow> EdgeProperties \<Rightarrow> TopomapEdge" where
  "convertToTopomapEdgeMsg source_id target_id edge =
     TopomapEdge_init\<lparr>te_id := to_string (ep_id edge),
       te_type := ep_type edge,
       te_source := to_string source_id,
       te_target := to_string target_id,
       te_subtype := (case ep_subtype edge of Some s \<Rightarrow> s | None \<Rightarrow> ''''),
       te_room_id := (case ep_room_id edge of Some r \<Rightarrow> to_string r | None \<Rightarrow> ''''),
       te_estimated_distance := ep_estimated_distance edge,
       te_planned_distance := ep_planned_distance edge,
       te_estimated_cost := ep_estimated_cost edge,
       te_planned_cost := ep_planned_cost edge,
       te_path := (case ep_path edge of
           Some ws \<Rightarrow> if ws \<noteq> []
             then \<lparr>path_frame_id = ep_path_frame_id edge,
                   path_poses = map (pose_of_waypoint (ep_path_frame_id edge)) ws\<rparr>
             else path_msg_init
         | None \<Rightarrow> path_msg_init)\<rparr>"

text \<open>The reduced node messages of \<open>getFloorNodes\<close> and \<open>getRoomNeighbors\<close>, and of \<open>getRoomNodes\<close>.\<close>

definition floor_node_msg :: "NodeProperties \<Rightarrow> TopomapNode" where
  "floor_node_msg node =
     TopomapNode_init\<lparr>tn_id := to_string (np_id node),
       tn_name := np_name node,
       tn_type := np_type node,
       tn_ifc_guid := value_or (np_ifc_guid node) [],
       tn_min_z := value_or (np_min_z node) 0,
       tn_max_z := value_or (np_max_z node) 0,
       tn_subtype := value_or (np_subtype node) [],
       tn_floor := (case np_floor node of Some fl \<Rightarrow> fl | None \<Rightarrow> tn_floor TopomapNode_init)\<rparr>"

definition room_node_msg :: "NodeProperties \<Rightarrow> TopomapNode" where
  "room_node_msg node =
     TopomapNode_init\<lparr>tn_id := to_string (np_id node),
       tn_name := np_name node,
       tn_type := np_type node,
       tn_ifc_guid := value_or (np_ifc_guid node) [],
       tn_subtype := value_or (np_subtype node) [],
       tn_bbox := (case np_bbox node of Some bb \<Rightarrow> bbox_to_msg bb | None \<Rightarrow> tn_bbox TopomapNode_init),
       tn_floor := (case np_floor node of Some fl \<Rightarrow> fl | None \<Rightarrow> tn_floor TopomapNode_init)\<rparr>"

section \<open>Queries\<close>

definition quoted :: "string \<Rightarrow> string" where
  "quoted s = [CHR 0x27] @ s @ [CHR 0x27]"

record nodes_response =
  nr_success :: bool
  nr_message :: string
  nr_nodes :: "TopomapNode list"

abbreviation not_initialized :: string where
  "not_initialized \<equiv> ''Topological graph not initialized''"

definition getFloorNodesCallback ::
  "('g, 'e) bgl \<Rightarrow> ('g, 'n) TopomapServer \<Rightarrow> nodes_response" where
  "getFloorNodesCallback B srv =
     (let g = ts_graph srv; floor_vertices = getFloorNodes B g in
      if g_num_vertices B g = 0
      then \<lparr>nr_success = False, nr_message = not_initialized, nr_nodes = []\<rparr>
      else if floor_vertices \<noteq> []
      then \<lparr>nr_success = True, nr_message = ''Floor nodes retrieved successfully'',
            nr_nodes = map (\<lambda>v. floor_node_msg (g_node B g v)) floor_vertices\<rparr>
      else \<lparr>nr_success = False, nr_message = ''No floor nodes found'', nr_nodes = []\<rparr>)"

definition getRoomNodesCallback ::
  "('g, 'e) bgl \<Rightarrow> ('g, 'n) TopomapServer \<Rightarrow> nodes_response" where
  "getRoomNodesCallback B srv =
     (let g = ts_graph srv; room_vertices = getRoomNodes B g in
      if g_num_vertices B g = 0
      then \<lparr>nr_success = False, nr_message = not_initialized, nr_nodes = []\<rparr>
      else if room_vertices \<noteq> []
      then \<lparr>nr_success = True, nr_message = ''Room nodes retrieved successfully'',
            nr_nodes = map (\<lambda>v. room_node_msg (g_node B g v)) room_vertices\<rparr>
      else \<lparr>nr_success = False, nr_message = ''No room nodes found'', nr_nodes = []\<rparr>)"

definition getRoomNeighborsCallback ::
  "('g, 'e) bgl \<Rightarrow> string \<Rightarrow> ('g, 'n) TopomapServer \<Rightarrow> nodes_response" where
  "getRoomNeighborsCallback B request_id srv =
     (let g = ts_graph srv; neighbor_vertices = getRoomNeighbors B g request_id in
      if g_num_vertices B g = 0
      then \<lparr>nr_success = False, nr_message = not_initialized, nr_nodes = []\<rparr>
      else if neighbor_vertices \<noteq> []
      then \<lparr>nr_success = True, nr_message = ''Room neighbors retrieved successfully'',
            nr_nodes = map (\<lambda>v. floor_node_msg (g_node B g v)) neighbor_vertices\<rparr>
      else \<lparr>nr_success = False,
            nr_message = ''No neighboring rooms found for room '' @ request_id, nr_nodes = []\<rparr>)"

definition getAdjacentTransitionNodesCallback ::
  "(real \<Rightarrow> real) \<Rightarrow> ('g, 'e) bgl \<Rightarrow> string \<Rightarrow> ('g, 'n) TopomapServer \<Rightarrow> nodes_response" where
  "getAdjacentTransitionNodesCallback f32 B room_name srv =
     (let g = ts_graph srv; transition_vertices = getAdjacentTransitionNodes B g room_name in
      if g_num_vertices B g = 0
      then \<lparr>nr_success = False, nr_message = not_initialized, nr_nodes = []\<rparr>
      else if transition_vertices \<noteq> []
      then \<lparr>nr_success = True, nr_message = ''Adjacent transition nodes retrieved successfully'',
            nr_nodes = map (\<lambda>v. convertToTopomapNodeMsg f32 (g_node B g v)) transition_vertices\<rparr>
      else \<lparr>nr_success = True,
            nr_message = ''No adjacent transition nodes found for room '' @ room_name, nr_nodes = []\<rparr>)"

record room_response =
  rr_success :: bool
  rr_message :: string
  rr_floor_node :: TopomapNode
  rr_room_node :: TopomapNode

definition getRoomByCoordinatesCallback ::
  "(real \<Rightarrow> real) \<Rightarrow> within_fn \<Rightarrow> buffer_fn \<Rightarrow> ('g, 'e) bgl \<Rightarrow> Position \<Rightarrow>
     ('g, 'n) TopomapServer \<Rightarrow> room_response" where
  "getRoomByCoordinatesCallback f32 pt_within buffer B coords srv =
     (let g = ts_graph srv; x = pos_x coords; y = pos_y coords; z = pos_z coords;
          here = ''('' @ double_to_string (Fin x) @ '', '' @ double_to_string (Fin y) @ '', '' @
               double_to_string (Fin z) @ '')'';
          fail = (\<lambda>m. \<lparr>rr_success = False, rr_message = m, rr_floor_node = TopomapNode_init,
                       rr_room_node = TopomapNode_init\<rparr>)
      in if g_num_vertices B g = 0 then fail not_initialized
      else case findFloorByHeight B g z of
        None \<Rightarrow> fail (''No floor found for coordinates '' @ here)
      | Some f \<Rightarrow>
          (case findRoomByCoordinates pt_within buffer B g x y z of
             None \<Rightarrow> fail (''No room found for coordinates '' @ here @ '' on floor '' @ np_name (g_node B g f))
           | Some r \<Rightarrow>
               \<lparr>rr_success = True,
                rr_message = ''Found floor '' @ quoted (np_name (g_node B g f)) @
                  '' and room '' @ quoted (np_name (g_node B g r)),
                rr_floor_node = convertToTopomapNodeMsg f32 (g_node B g f),
                rr_room_node = convertToTopomapNodeMsg f32 (g_node B g r)\<rparr>))"

record min_z_response =
  mz_success :: bool
  mz_message :: string
  mz_min_z :: real

definition getMinZCallback ::
  "('g, 'e) bgl \<Rightarrow> string \<Rightarrow> ('g, 'n) TopomapServer \<Rightarrow> min_z_response" where
  "getMinZCallback B name srv =
     (let g = ts_graph srv in
      if g_num_vertices B g = 0 then \<lparr>mz_success = False, mz_message = not_initialized, mz_min_z = 0\<rparr>
      else case getVertexByName B g name of
        None \<Rightarrow> \<lparr>mz_success = False,
                 mz_message = ''Node with name '' @ quoted name @ '' not found in graph'', mz_min_z = 0\<rparr>
      | Some v \<Rightarrow>
          (let node = g_node B g v;
               found = (if (np_type node = ''room'' \<or> np_type node = ''transition'') \<and> np_bbox node \<noteq> None
                        then map_option bb_min_z (np_bbox node)
                        else if np_type node = ''floor'' \<and> np_min_z node \<noteq> None then np_min_z node
                        else None)
           in case found of
                Some min_z \<Rightarrow> \<lparr>mz_success = True,
                  mz_message = ''Found node '' @ quoted name @ '' with minimum z-coordinate '' @
                    double_to_string (Fin min_z),
                  mz_min_z = min_z\<rparr>
              | None \<Rightarrow> \<lparr>mz_success = False,
                  mz_message = ''Node '' @ quoted name @ '' found but has no min_z value'', mz_min_z = 0\<rparr>))"

record inside_response =
  in_is_inside :: bool
  in_success :: bool
  in_message :: string

definition isPointInRoomPolygonCallback ::
  "within_fn \<Rightarrow> ('g, 'e) bgl \<Rightarrow> Position \<Rightarrow> string \<Rightarrow> ('g, 'n) TopomapServer \<Rightarrow> inside_response" where
  "isPointInRoomPolygonCallback pt_within B point room_name srv =
     (let g = ts_graph srv; x = pos_x point; y = pos_y point;
          fail = (\<lambda>m. \<lparr>in_is_inside = False, in_success = False, in_message = m\<rparr>);
          here = ''Point ('' @ double_to_string (Fin x) @ '', '' @ double_to_string (Fin y)
      in if g_num_vertices B g = 0 then fail not_initialized
      else case getVertexByName B g room_name of
        None \<Rightarrow> fail (''Room with name '' @ quoted room_name @ '' not found in graph'')
      | Some v \<Rightarrow>
          (let node = g_node B g v in
           if np_type node \<noteq> ''room''
           then fail (''Node '' @ quoted room_name @ '' is not a room (type: '' @ np_type node @ '')'')
           else case np_polygon node of
             None \<Rightarrow> fail (''Room '' @ quoted room_name @ '' does not have a valid polygon'')
           | Some polygon \<Rightarrow>
               (if isPointInPolygon pt_within polygon x y
                then \<lparr>in_is_inside = True, in_success = True,
                      in_message = here @ '') is inside room '' @ room_name\<rparr>
                else \<lparr>in_is_inside = False, in_success = True,
                      in_message = here @ '') is not inside room '' @ room_name\<rparr>)))"

record topomap_response =
  tr_success :: bool
  tr_message :: string
  tr_topomap :: Topomap

definition getTopologicalMapCallback ::
  "(real \<Rightarrow> real) \<Rightarrow> ('g, 'e) bgl \<Rightarrow> ('g, 'n) TopomapServer \<Rightarrow> topomap_response" where
  "getTopologicalMapCallback f32 B srv =
     (let g = ts_graph srv in
      if g_num_vertices B g = 0
      then \<lparr>tr_success = False, tr_message = not_initialized, tr_topomap = Topomap_init\<rparr>
      else \<lparr>tr_success = True,
            tr_message = ''Topological map retrieved: '' @ nat_to_string (g_num_vertices B g) @
              '' nodes, '' @ nat_to_string (length (g_edges B g)) @ '' edges'',
            tr_topomap = graph_to_msg B (convertToTopomapNodeMsg f32) convertToTopomapEdgeMsg g
              (Topomap_init\<lparr>tm_source_file := ts_topomap_file srv,
                 tm_building_name := ts_building_name srv,
                 tm_total_floors := of_nat (length (ts_floor_names srv)),
                 tm_floor_names := ts_floor_names srv\<rparr>)\<rparr>)"

section \<open>Loading\<close>

text \<open>\<open>find_last_of\<close>: the last position of a character of the set.\<close>

definition find_last_of :: "string \<Rightarrow> string \<Rightarrow> nat option" where
  "find_last_of cs s = find (\<lambda>i. s ! i \<in> set cs) (rev [0..<length s])"

text \<open>
  The building name: the file name without its directory and extension. The length passed to
  \<open>substr\<close> is computed in \<open>size_t\<close>, so it wraps to a huge value when the last dot comes before the
  last slash.
\<close>

definition building_name_of :: "string \<Rightarrow> string" where
  "building_name_of filename =
     (case (find_last_of [CHR ''/'', CHR 0x5C] filename, find_last_of ''.'' filename) of
        (Some last_slash, Some last_dot) \<Rightarrow>
          take (unat (of_nat last_dot - of_nat last_slash - 1 :: 64 word))
            (drop (last_slash + 1) filename)
      | _ \<Rightarrow> ''unknown'')"

definition floor_names_of :: "('g, 'e) bgl \<Rightarrow> 'g \<Rightarrow> string list" where
  "floor_names_of B g =
     map (\<lambda>v. np_name (g_node B g v))
       (filter (\<lambda>v. np_type (g_node B g v) = ''floor'') (g_vertices B g))"

definition loadFromFile_server ::
  "('j, 't) json_ops \<Rightarrow> (Point2D list \<Rightarrow> Polygon) \<Rightarrow> ('g, 'e) bgl \<Rightarrow> 't file_system \<Rightarrow> string \<Rightarrow>
     ('g, 'n) TopomapServer \<Rightarrow> bool \<times> ('g, 'n) TopomapServer" where
  "loadFromFile_server J assign_points B fs filename srv =
     (case loadFromFile J assign_points B fs filename (g_empty B) of
        (True, new_graph) \<Rightarrow>
          (True, srv\<lparr>ts_graph := new_graph, ts_topomap_file := filename,
                     ts_building_name := building_name_of filename,
                     ts_floor_names := floor_names_of B new_graph\<rparr>)
      | (False, new_graph) \<Rightarrow> (False, srv))"

record status_response =
  sr_success :: bool
  sr_message :: string

definition loadTopomapCallback ::
  "('j, 't) json_ops \<Rightarrow> (Point2D list \<Rightarrow> Polygon) \<Rightarrow> ('g, 'e) bgl \<Rightarrow> 't file_system \<Rightarrow> string \<Rightarrow>
     ('g, 'n) TopomapServer \<Rightarrow> status_response \<times> ('g, 'n) TopomapServer" where
  "loadTopomapCallback J assign_points B fs filename srv =
     (case loadFromFile_server J assign_points B fs filename srv of
        (True, srv') \<Rightarrow>
          (\<lparr>sr_success = True, sr_message = ''Topological map loaded successfully from '' @ filename\<rparr>,
           srv'\<lparr>ts_topomap_file := filename\<rparr>)
      | (False, srv') \<Rightarrow>
          (\<lparr>sr_success = False, sr_message = ''Failed to load topological map from '' @ filename\<rparr>, srv'))"

definition clearGraph :: "('g, 'e) bgl \<Rightarrow> ('g, 'n) TopomapServer \<Rightarrow> ('g, 'n) TopomapServer" where
  "clearGraph B srv =
     srv\<lparr>ts_graph := g_clear B (ts_graph srv), ts_building_name := '''', ts_floor_names := []\<rparr>"

section \<open>Updates\<close>

record edge_request =
  er_source_id :: int
  er_target_id :: int
  er_planned_distance :: double
  er_planned_cost :: double
  er_path :: path_msg
  er_defer_save :: bool

definition updated_edge :: "edge_request \<Rightarrow> EdgeProperties \<Rightarrow> EdgeProperties" where
  "updated_edge request q =
     q\<lparr>ep_planned_distance := er_planned_distance request,
       ep_planned_cost := er_planned_cost request,
       ep_path := Some (map waypoint_of_pose (path_poses (er_path request))),
       ep_path_frame_id := (if path_frame_id (er_path request) = [] then ''ifc''
                            else path_frame_id (er_path request))\<rparr>"

definition updateEdgeDataCallback ::
  "('g, 'e) bgl \<Rightarrow> edge_request \<Rightarrow> ('g, 'n) TopomapServer \<Rightarrow>
     status_response \<times> ('g, 'n) TopomapServer" where
  "updateEdgeDataCallback B request srv =
     (let g = ts_graph srv; src = to_string (er_source_id request); tgt = to_string (er_target_id request);
          fail = (\<lambda>m. (\<lparr>sr_success = False, sr_message = m\<rparr>, srv))
      in case getVertexById B g src of
        None \<Rightarrow> fail (''Source vertex with ID '' @ src @ '' not found'')
      | Some source_vertex \<Rightarrow>
          (case getVertexById B g tgt of
             None \<Rightarrow> fail (''Target vertex with ID '' @ tgt @ '' not found'')
           | Some target_vertex \<Rightarrow>
               (case g_edge B source_vertex target_vertex g of
                  None \<Rightarrow> fail (''Edge not found between vertices '' @ src @ '' and '' @ tgt)
                | Some e \<Rightarrow>
                    (\<lparr>sr_success = True,
                      sr_message = ''Successfully updated edge between vertices '' @ src @ '' and '' @ tgt @
                        '' (distance: '' @ double_to_string (er_planned_distance request) @ ''m, '' @
                        ''cost: '' @ double_to_string (er_planned_cost request) @ '', '' @
                        ''waypoints: '' @ nat_to_string (length (path_poses (er_path request))) @ '')''\<rparr>,
                     srv\<lparr>ts_graph := g_set_eprops B e (updated_edge request (g_eprops B g e)) g\<rparr>))))"

record save_response =
  sv_success :: bool
  sv_message :: string
  sv_file_path :: string

definition saveTopologicalMapCallback ::
  "('j, 't) json_ops \<Rightarrow> (string \<Rightarrow> bool) \<Rightarrow> 't \<Rightarrow> ('g, 'e) bgl \<Rightarrow> ('g, 'n) TopomapServer \<Rightarrow>
     't file_system \<Rightarrow> save_response \<times> 't file_system" where
  "saveTopologicalMapCallback J writable no_text B srv fs =
     (if ts_topomap_file srv = []
      then (\<lparr>sv_success = False, sv_message = ''No topological map file path configured'',
             sv_file_path = ''''\<rparr>, fs)
      else case saveToFile J writable no_text B (ts_topomap_file srv) (ts_graph srv) fs of
        (True, fs') \<Rightarrow> (\<lparr>sv_success = True, sv_message = ''Successfully saved topological map'',
                         sv_file_path = ts_topomap_file srv\<rparr>, fs')
      | (False, fs') \<Rightarrow> (\<lparr>sv_success = False, sv_message = ''Failed to save topological map to file'',
                          sv_file_path = ts_topomap_file srv\<rparr>, fs'))"

record clear_response =
  cr_success :: bool
  cr_message :: string
  cr_edges_cleared :: int

text \<open>The edges whose paths are cleared, and what clearing does to one.\<close>

definition clearable :: "EdgeProperties \<Rightarrow> bool" where
  "clearable q \<longleftrightarrow> ep_type q = ''transition'' \<and> value_or (ep_subtype q) [] \<noteq> ''stair''"

definition cleared_edge :: "EdgeProperties \<Rightarrow> EdgeProperties" where
  "cleared_edge q = q\<lparr>ep_planned_distance := Fin (-1), ep_planned_cost := Fin (-1), ep_path := None\<rparr>"

definition clear_edge_step :: "('g, 'e) bgl \<Rightarrow> 'e \<Rightarrow> 'g \<times> int \<Rightarrow> 'g \<times> int" where
  "clear_edge_step B e st =
     (case st of (g, edges_cleared) \<Rightarrow>
        if clearable (g_eprops B g e)
        then (g_set_eprops B e (cleared_edge (g_eprops B g e)) g, edges_cleared + 1)
        else (g, edges_cleared))"

definition clearTopologicalMapPathsCallback ::
  "('g, 'e) bgl \<Rightarrow> ('g, 'n) TopomapServer \<Rightarrow> clear_response \<times> ('g, 'n) TopomapServer" where
  "clearTopologicalMapPathsCallback B srv =
     (case fold (clear_edge_step B) (g_edges B (ts_graph srv)) (ts_graph srv, 0) of
        (g, edges_cleared) \<Rightarrow>
          (\<lparr>cr_success = True,
            cr_message = ''Successfully cleared '' @ to_string edges_cleared @ '' transition edges'',
            cr_edges_cleared = edges_cleared\<rparr>,
           srv\<lparr>ts_graph := g\<rparr>))"

section \<open>Lifecycle\<close>

text \<open>
  The parameters are declared and read one by one; declaring one that exists already throws, and
  the handler turns any exception into \<open>FAILURE\<close>.
\<close>

definition on_configure ::
  "'n ros_params \<Rightarrow> ('j, 't) json_ops \<Rightarrow> (Point2D list \<Rightarrow> Polygon) \<Rightarrow> ('g, 'e) bgl \<Rightarrow> 't file_system \<Rightarrow>
     ('g, 'n) TopomapServer \<Rightarrow> CallbackReturn \<times> ('g, 'n) TopomapServer" where
  "on_configure R J assign_points B fs srv =
     (case rp_declare_string R ''topomap_file'' '''' (ts_node srv) of
        Inl e \<Rightarrow> (FAILURE, srv)
      | Inr n1 \<Rightarrow>
          (let s1 = srv\<lparr>ts_node := n1, ts_topomap_file := rp_get_string R n1 ''topomap_file''\<rparr> in
           case rp_declare_string R ''global_frame'' ''ifc'' n1 of
             Inl e \<Rightarrow> (FAILURE, s1)
           | Inr n2 \<Rightarrow>
               (let s2 = s1\<lparr>ts_node := n2, ts_global_frame := rp_get_string R n2 ''global_frame''\<rparr> in
                case rp_declare_bool R ''save_at_shutdown'' False n2 of
                  Inl e \<Rightarrow> (FAILURE, s2)
                | Inr n3 \<Rightarrow>
                    (let s3 = s2\<lparr>ts_node := n3,
                           ts_save_at_shutdown := rp_get_bool R n3 ''save_at_shutdown'',
                           ts_services := True\<rparr>
                     in if ts_topomap_file s3 \<noteq> []
                        then (SUCCESS, snd (loadFromFile_server J assign_points B fs (ts_topomap_file s3) s3))
                        else (SUCCESS, s3)))))"

definition on_activate :: "('g, 'n) TopomapServer \<Rightarrow> CallbackReturn \<times> ('g, 'n) TopomapServer" where
  "on_activate srv = (SUCCESS, srv\<lparr>ts_bond := True\<rparr>)"

definition on_deactivate :: "('g, 'n) TopomapServer \<Rightarrow> CallbackReturn \<times> ('g, 'n) TopomapServer" where
  "on_deactivate srv = (SUCCESS, srv\<lparr>ts_bond := False\<rparr>)"

definition save_if_enabled ::
  "('j, 't) json_ops \<Rightarrow> (string \<Rightarrow> bool) \<Rightarrow> 't \<Rightarrow> ('g, 'e) bgl \<Rightarrow> ('g, 'n) TopomapServer \<Rightarrow>
     't file_system \<Rightarrow> 't file_system" where
  "save_if_enabled J writable no_text B srv fs =
     (if ts_save_at_shutdown srv \<and> ts_topomap_file srv \<noteq> []
      then snd (saveToFile J writable no_text B (ts_topomap_file srv) (ts_graph srv) fs) else fs)"

definition on_cleanup ::
  "('j, 't) json_ops \<Rightarrow> (string \<Rightarrow> bool) \<Rightarrow> 't \<Rightarrow> ('g, 'e) bgl \<Rightarrow> ('g, 'n) TopomapServer \<Rightarrow>
     't file_system \<Rightarrow> CallbackReturn \<times> ('g, 'n) TopomapServer \<times> 't file_system" where
  "on_cleanup J writable no_text B srv fs =
     (SUCCESS, clearGraph B (srv\<lparr>ts_services := False\<rparr>), save_if_enabled J writable no_text B srv fs)"

definition on_shutdown ::
  "('j, 't) json_ops \<Rightarrow> (string \<Rightarrow> bool) \<Rightarrow> 't \<Rightarrow> ('g, 'e) bgl \<Rightarrow> ('g, 'n) TopomapServer \<Rightarrow>
     't file_system \<Rightarrow> CallbackReturn \<times> ('g, 'n) TopomapServer \<times> 't file_system" where
  "on_shutdown J writable no_text B srv fs =
     (SUCCESS, srv, save_if_enabled J writable no_text B srv fs)"

definition on_error :: "('g, 'n) TopomapServer \<Rightarrow> CallbackReturn \<times> ('g, 'n) TopomapServer" where
  "on_error srv = (SUCCESS, srv)"

section \<open>The server as a state machine\<close>

text \<open>
  A step of the server together with the file system: a lifecycle callback, a service call (only
  while the services exist), or a change of the files by someone else. The queries change nothing.
\<close>

inductive server_step ::
  "'n ros_params \<Rightarrow> ('j, 't) json_ops \<Rightarrow> (Point2D list \<Rightarrow> Polygon) \<Rightarrow> (string \<Rightarrow> bool) \<Rightarrow> 't \<Rightarrow>
     ('g, 'e) bgl \<Rightarrow> ('g, 'n) TopomapServer \<times> 't file_system \<Rightarrow>
     ('g, 'n) TopomapServer \<times> 't file_system \<Rightarrow> bool"
  for R J ap writable no_text B where
  configure: "server_step R J ap writable no_text B (srv, fs) (snd (on_configure R J ap B fs srv), fs)"
| activate: "server_step R J ap writable no_text B (srv, fs) (snd (on_activate srv), fs)"
| deactivate: "server_step R J ap writable no_text B (srv, fs) (snd (on_deactivate srv), fs)"
| cleanup: "server_step R J ap writable no_text B (srv, fs) (snd (on_cleanup J writable no_text B srv fs))"
| shutdown: "server_step R J ap writable no_text B (srv, fs) (snd (on_shutdown J writable no_text B srv fs))"
| load: "ts_services srv \<Longrightarrow>
    server_step R J ap writable no_text B (srv, fs) (snd (loadTopomapCallback J ap B fs filename srv), fs)"
| update: "ts_services srv \<Longrightarrow>
    server_step R J ap writable no_text B (srv, fs) (snd (updateEdgeDataCallback B request srv), fs)"
| clear_paths: "ts_services srv \<Longrightarrow>
    server_step R J ap writable no_text B (srv, fs) (snd (clearTopologicalMapPathsCallback B srv), fs)"
| save: "ts_services srv \<Longrightarrow>
    server_step R J ap writable no_text B (srv, fs)
      (srv, snd (saveTopologicalMapCallback J writable no_text B srv fs))"
| files: "server_step R J ap writable no_text B (srv, fs) (srv, fs')"

text \<open>
  The invariant: the edges of the graph end at its vertices, and the floor names reported to
  clients are those of the floor nodes of the graph.
\<close>

definition server_inv :: "('g, 'e) bgl \<Rightarrow> ('g, 'n) TopomapServer \<Rightarrow> bool" where
  "server_inv B srv \<longleftrightarrow>
     wf_graph B (ts_graph srv) \<and> ts_floor_names srv = floor_names_of B (ts_graph srv)"

lemma floor_names_view:
  "floor_names_of B g = map np_name (filter (\<lambda>p. np_type p = ''floor'') (nodes_view B g))"
  by (simp add: floor_names_of_def nodes_view_def filter_map comp_def)

lemma clear_edge_step_eq: "clear_edge_step B = rewrite_edge B clearable cleared_edge"
  by (intro ext) (simp add: clear_edge_step_def rewrite_edge_def)

context boost_graph
begin

lemma wf_graph_cong:
  assumes "nodes_view B g' = nodes_view B g"
    and "map (\<lambda>(s, t, q). (s, t)) (edges_view B g') = map (\<lambda>(s, t, q). (s, t)) (edges_view B g)"
    and "wf_graph B g"
  shows "wf_graph B g'"
proof -
  have wf: "wf_graph B h \<longleftrightarrow>
      list_all (\<lambda>(s, t). s < g_num_vertices B h \<and> t < g_num_vertices B h) (map (\<lambda>(s, t, q). (s, t)) (edges_view B h))"
    for h by (simp add: wf_graph_def list.pred_map comp_def case_prod_unfold)
  show ?thesis
    using assms(3) num_vertices_cong [OF assms(1)] unfolding wf assms(2) by simp
qed

lemma edge_update_view:
  assumes "g_edge B u v g = Some e"
  obtains i s t q where "i < length (edges_view B g)" and "edges_view B g ! i = (s, t, q)"
    and "joins u v (s, t, q)" and "g_eprops B g e = q"
    and "nodes_view B (g_set_eprops B e q' g) = nodes_view B g"
    and "edges_view B (g_set_eprops B e q' g) = (edges_view B g)[i := (s, t, q')]"
proof -
  from edge_Some [OF assms] obtain i where i: "i < length (g_edges B g)" "g_edges B g ! i = e"
    "joins u v (edge_view_of B g e)" by blast
  obtain s t q where q: "edges_view B g ! i = (s, t, q)" by (metis prod.collapse)
  have ev: "edge_view_of B g e = edges_view B g ! i" using i by (simp add: edges_view_def)
  show thesis
    by (rule that [of i s t q])
       (use i q ev set_eprops_view [OF i(1), of q'] in \<open>auto simp: edge_view_of_def\<close>)
qed

lemma update_server_inv:
  assumes "server_inv B srv"
  shows "server_inv B (snd (updateEdgeDataCallback B request srv))"
proof -
  have "server_inv B (srv\<lparr>ts_graph := g_set_eprops B e q' (ts_graph srv)\<rparr>)"
    if e: "g_edge B u v (ts_graph srv) = Some e" for e u v q'
  proof -
    obtain i s t q where E: "i < length (edges_view B (ts_graph srv))"
      "edges_view B (ts_graph srv) ! i = (s, t, q)"
      "nodes_view B (g_set_eprops B e q' (ts_graph srv)) = nodes_view B (ts_graph srv)"
      "edges_view B (g_set_eprops B e q' (ts_graph srv)) = (edges_view B (ts_graph srv))[i := (s, t, q')]"
      by (rule edge_update_view [OF e, where q' = q']) blast
    have "map (\<lambda>(s, t, q). (s, t)) (edges_view B (g_set_eprops B e q' (ts_graph srv))) =
        map (\<lambda>(s, t, q). (s, t)) (edges_view B (ts_graph srv))"
      using E(1,2) by (simp add: E(4) map_update list_update_same_conv)
    with wf_graph_cong [OF E(3)] E(3) assms show ?thesis by (simp add: server_inv_def floor_names_view)
  qed
  with assms show ?thesis by (simp add: updateEdgeDataCallback_def Let_def split: option.split)
qed

lemma clear_server_inv:
  assumes "server_inv B srv"
  shows "server_inv B (snd (clearTopologicalMapPathsCallback B srv))"
proof -
  obtain g c where g: "fold (rewrite_edge B clearable cleared_edge) (g_edges B (ts_graph srv)) (ts_graph srv, 0) = (g, c)"
    "nodes_view B g = nodes_view B (ts_graph srv)"
    "edges_view B g = map (\<lambda>(s, t, q). (s, t, if clearable q then cleared_edge q else q))
       (edges_view B (ts_graph srv))"
    using rewrite_edges [of clearable cleared_edge "ts_graph srv" 0] by blast
  have "wf_graph B g"
    by (rule wf_graph_cong [OF g(2)])
       (use assms in \<open>auto simp: g(3) server_inv_def comp_def case_prod_unfold\<close>)
  with assms g(1,2) show ?thesis
    by (simp add: clearTopologicalMapPathsCallback_def clear_edge_step_eq server_inv_def floor_names_view)
qed

lemma load_server_inv:
  assumes "server_inv B srv"
  shows "server_inv B (snd (loadFromFile_server J ap B fs filename srv))"
proof -
  have "wf_graph B (g_empty B)" by (simp add: wf_graph_def)
  then have "wf_graph B (snd (loadFromFile J ap B fs filename (g_empty B)))"
    using loadFromJson_wf [of J ap _ "g_empty B"]
    by (auto simp: loadFromFile_def split: option.split sum.split)
  with assms show ?thesis
    by (auto simp: loadFromFile_server_def server_inv_def split: prod.split bool.split)
qed

lemma server_inv_frame:
  "server_inv B (srv\<lparr>ts_node := n\<rparr>) = server_inv B srv"
  "server_inv B (srv\<lparr>ts_topomap_file := f\<rparr>) = server_inv B srv"
  "server_inv B (srv\<lparr>ts_global_frame := f\<rparr>) = server_inv B srv"
  "server_inv B (srv\<lparr>ts_save_at_shutdown := b\<rparr>) = server_inv B srv"
  "server_inv B (srv\<lparr>ts_services := b\<rparr>) = server_inv B srv"
  "server_inv B (srv\<lparr>ts_bond := b\<rparr>) = server_inv B srv"
  by (simp_all add: server_inv_def)

lemma server_step_inv:
  assumes "server_step R J ap writable no_text B st st'" and "server_inv B (fst st)"
  shows "server_inv B (fst st')"
  using assms
proof (induction rule: server_step.induct)
  case (configure srv fs)
  then show ?case
    by (auto simp: on_configure_def Let_def server_inv_frame load_server_inv split: sum.split)
next
  case (cleanup srv fs)
  then show ?case
    by (simp add: on_cleanup_def clearGraph_def server_inv_def wf_graph_clear floor_names_view)
next
  case (load srv fs filename)
  then show ?case
    using load_server_inv [of srv J ap fs filename]
    by (auto simp: loadTopomapCallback_def server_inv_frame split: prod.split bool.split)
qed (simp_all add: on_activate_def on_deactivate_def on_shutdown_def server_inv_frame
    update_server_inv clear_server_inv)

end

section \<open>Positions of characters\<close>

lemma find_append: "find P (xs @ ys) = (case find P xs of None \<Rightarrow> find P ys | Some x \<Rightarrow> Some x)"
  by (induction xs) auto

lemma find_last_of_Some:
  assumes "c \<in> set cs" and "\<forall>x \<in> set b. x \<notin> set cs"
  shows "find_last_of cs (a @ c # b) = Some (length a)"
proof -
  have "[0..<length (a @ c # b)] = [0..<length a] @ length a # [Suc (length a)..<length (a @ c # b)]"
    using upt_add_eq_append [of 0 "length a" "length (c # b)"] upt_conv_Cons [of "length a" "length (a @ c # b)"]
    by simp
  then have "rev [0..<length (a @ c # b)] =
      rev [Suc (length a)..<length (a @ c # b)] @ length a # rev [0..<length a]" by simp
  moreover have "find (\<lambda>i. (a @ c # b) ! i \<in> set cs) (rev [Suc (length a)..<length (a @ c # b)]) = None"
    using assms(2) by (auto simp: find_None_iff nth_append nth_Cons' Suc_le_eq)
  ultimately show ?thesis
    using assms(1) by (simp add: find_last_of_def find_append)
qed

section \<open>Messages to the clients\<close>

definition served_edge :: "EdgeProperties \<Rightarrow> bool" where
  "served_edge q \<longleftrightarrow>
     canonical_edge q \<and> (case ep_room_id q of None \<Rightarrow> True | Some r \<Rightarrow> in_int r)"

interpretation server: message_codec "convertToTopomapNodeMsg f32" convertToTopomapEdgeMsg
  "canonical_node f32" served_edge for f32
proof (unfold_locales, goal_cases)
  case (3 p)
  have "(case np_floor p of Some fl \<Rightarrow> fl | None \<Rightarrow> tn_floor TopomapNode_init) = value_or (np_floor p) []"
    by (simp add: value_or_def init_defs split: option.split)
  then have "node_of_msg (convertToTopomapNodeMsg f32 p) i r = node_of_msg (node_to_msg f32 p) i r" for i r
    by (simp add: node_of_msg_def convertToTopomapNodeMsg_def node_to_msg_def
        split del: if_split cong: if_cong)
  then show ?case using canonical_node_msg [OF 3, of "np_id p"] by simp
next
  case (8 q s t)
  then show ?case
    by (auto simp: convertToTopomapEdgeMsg_def served_edge_def parse_room_id_def stoi_to_string
        split: option.splits)
next
  case (9 q s t)
  then show ?case
    by (intro EdgeProperties.equality)
       (auto simp: edge_of_msg_def convertToTopomapEdgeMsg_def served_edge_def canonical_edge_def
          EdgeProperties_init_def path_msg_init_def comp_def split: option.splits)
qed (simp_all add: convertToTopomapNodeMsg_def convertToTopomapEdgeMsg_def canonical_node_def
    served_edge_def canonical_edge_def)

section \<open>Properties\<close>


definition sample_server :: "(vgraph, unit) TopomapServer" where
  "sample_server = (TopomapServer_init vec_graph ())\<lparr>
     ts_graph := sample_graph\<lparr>vg_edges := [(1, 0, EdgeProperties_init\<lparr>ep_id := 5, ep_type := ''has_room'',
        ep_room_id := Some 1\<rparr>)]\<rparr>,
     ts_floor_names := [''EG''], ts_services := True\<rparr>"


text \<open>
  C9: in every state the server can reach, by lifecycle transitions and service calls in any order
  and whatever happens to the files in between, every edge of the graph ends at existing vertices
  and the floor names sent to clients are those of the graph's floor nodes.
\<close>

theorem server_invariant:
  assumes "boost_graph B"
    and "(server_step R J ap writable no_text B)\<^sup>*\<^sup>* (TopomapServer_init B node, fs0) (srv, fs)"
  shows "wf_graph B (ts_graph srv) \<and>
         ts_floor_names srv = map np_name (filter (\<lambda>p. np_type p = ''floor'') (nodes_view B (ts_graph srv)))"
proof -
  have "server_inv B (fst (srv, fs))"
    using assms(2)
  proof (induction rule: rtranclp_induct)
    case base
    have "nodes_view B (g_empty B) = []" "edges_view B (g_empty B) = []"
      by (rule boost_graph.empty_views [OF assms(1)])+
    then show ?case
      by (simp add: server_inv_def TopomapServer_init_def wf_graph_def floor_names_view)
  next
    case (step st st')
    show ?case by (rule boost_graph.server_step_inv [OF assms(1) step.hyps(2) step.IH])
  qed
  then show ?thesis by (simp add: server_inv_def floor_names_view)
qed

theorem server_invariant_witness:
  "wf_graph vec_graph (ts_graph (TopomapServer_init vec_graph ())) \<and>
   ts_floor_names (snd (on_activate (TopomapServer_init vec_graph ()))) = []"
proof -
  let ?R = "\<lparr>rp_declare_string = (\<lambda>k d n. Inr n), rp_declare_bool = (\<lambda>k d n. Inr n),
    rp_get_string = (\<lambda>n k. ''''), rp_get_bool = (\<lambda>n k. False)\<rparr>"
  have "(server_step ?R json_data (\<lambda>ps. Polygon_init) (\<lambda>f. True) JNull vec_graph)\<^sup>*\<^sup>*
      (TopomapServer_init vec_graph (), Map.empty)
      (snd (on_activate (TopomapServer_init vec_graph ())), Map.empty)"
    by (rule r_into_rtranclp) (rule server_step.activate)
  from server_invariant [OF vg.boost_graph_axioms this] show ?thesis
    by (simp add: on_activate_def TopomapServer_init_def vg_init_def)
qed

text \<open>
  Loading is all or nothing. When \<open>loadTopomap\<close> fails, for whatever reason, the server is
  exactly as it was, although the reader clears and fills a graph; when it succeeds the server has
  the graph the file holds, with its floor names and the file's name.
\<close>

theorem loadTopomap_all_or_nothing:
  "if fst (loadFromFile J ap B fs filename (g_empty B))
   then sr_success (fst (loadTopomapCallback J ap B fs filename srv)) \<and>
        snd (loadTopomapCallback J ap B fs filename srv) =
          srv\<lparr>ts_graph := snd (loadFromFile J ap B fs filename (g_empty B)), ts_topomap_file := filename,
             ts_building_name := building_name_of filename,
             ts_floor_names := floor_names_of B (snd (loadFromFile J ap B fs filename (g_empty B)))\<rparr>
   else \<not> sr_success (fst (loadTopomapCallback J ap B fs filename srv)) \<and>
        snd (loadTopomapCallback J ap B fs filename srv) = srv"
  by (cases "loadFromFile J ap B fs filename (g_empty B)"; cases "fst (loadFromFile J ap B fs filename (g_empty B))")
     (simp_all add: loadTopomapCallback_def loadFromFile_server_def)

text \<open>
  C25: \<open>updateEdgeData\<close> changes one edge. On success exactly one edge, which joins the two nodes
  asked for, has the new distance, cost, path and frame and keeps everything else; no node and no
  other edge changes. On failure (an unknown node, or no edge between the two) the server is as it
  was.
\<close>

theorem updateEdgeData_one_edge:
  assumes "boost_graph B"
  shows "if sr_success (fst (updateEdgeDataCallback B request srv))
         then \<exists>u v i s t q.
           u < g_num_vertices B (ts_graph srv) \<and> np_id (g_node B (ts_graph srv) u) = er_source_id request \<and>
           v < g_num_vertices B (ts_graph srv) \<and> np_id (g_node B (ts_graph srv) v) = er_target_id request \<and>
           i < length (edges_view B (ts_graph srv)) \<and> edges_view B (ts_graph srv) ! i = (s, t, q) \<and>
           joins u v (s, t, q) \<and>
           nodes_view B (ts_graph (snd (updateEdgeDataCallback B request srv))) =
             nodes_view B (ts_graph srv) \<and>
           edges_view B (ts_graph (snd (updateEdgeDataCallback B request srv))) =
             (edges_view B (ts_graph srv))[i := (s, t, q\<lparr>ep_planned_distance := er_planned_distance request,
               ep_planned_cost := er_planned_cost request,
               ep_path := Some (map waypoint_of_pose (path_poses (er_path request))),
               ep_path_frame_id := (if path_frame_id (er_path request) = [] then ''ifc''
                 else path_frame_id (er_path request))\<rparr>)]
         else snd (updateEdgeDataCallback B request srv) = srv"
proof (cases "sr_success (fst (updateEdgeDataCallback B request srv))")
  case True
  let ?g = "ts_graph srv"
  from True obtain u v e where u: "getVertexById B ?g (to_string (er_source_id request)) = Some u"
    and v: "getVertexById B ?g (to_string (er_target_id request)) = Some v"
    and e: "g_edge B u v ?g = Some e"
    and r: "ts_graph (snd (updateEdgeDataCallback B request srv)) =
        g_set_eprops B e (updated_edge request (g_eprops B ?g e)) ?g"
    by (auto simp: updateEdgeDataCallback_def Let_def split: option.splits)
  obtain i s t q where E: "i < length (edges_view B ?g)" "edges_view B ?g ! i = (s, t, q)"
    "joins u v (s, t, q)" "g_eprops B ?g e = q"
    "nodes_view B (g_set_eprops B e (updated_edge request (g_eprops B ?g e)) ?g) = nodes_view B ?g"
    "edges_view B (g_set_eprops B e (updated_edge request (g_eprops B ?g e)) ?g) =
       (edges_view B ?g)[i := (s, t, updated_edge request (g_eprops B ?g e))]"
    by (rule boost_graph.edge_update_view [OF assms e, where q' = "updated_edge request (g_eprops B ?g e)"]) blast
  from E True show ?thesis
    unfolding r if_P [OF True]
    by (intro exI [of _ u] exI [of _ v] exI [of _ i] exI [of _ s] exI [of _ t] exI [of _ q])
       (use getVertexById_Some [OF u] getVertexById_Some [OF v] in \<open>simp add: updated_edge_def\<close>)
next
  case False
  then show ?thesis by (auto simp: updateEdgeDataCallback_def Let_def split: option.splits)
qed

theorem updateEdgeData_one_edge_witness:
  "\<exists>u v i s t q. i < length (edges_view vec_graph two_rooms) \<and> joins u v (s, t, q) \<and>
     edges_view vec_graph (ts_graph (snd (updateEdgeDataCallback vec_graph
        \<lparr>er_source_id = 1, er_target_id = 2, er_planned_distance = Fin 4, er_planned_cost = Fin 5,
         er_path = path_msg_init, er_defer_save = False\<rparr>
        ((TopomapServer_init vec_graph ())\<lparr>ts_graph := two_rooms\<rparr>)))) =
       (edges_view vec_graph two_rooms)[i := (s, t, q\<lparr>ep_planned_distance := Fin 4,
          ep_planned_cost := Fin 5, ep_path := Some [], ep_path_frame_id := ''ifc''\<rparr>)]"
proof -
  let ?r = "\<lparr>er_source_id = 1, er_target_id = 2, er_planned_distance = Fin 4, er_planned_cost = Fin 5,
         er_path = path_msg_init, er_defer_save = False\<rparr>"
  let ?s = "(TopomapServer_init vec_graph ())\<lparr>ts_graph := two_rooms\<rparr>"
  have "getVertexById vec_graph two_rooms (to_string 1) = Some 0"
    "getVertexById vec_graph two_rooms (to_string 2) = Some 1"
    by (simp_all add: getVertexById_def two_rooms_def upt_rec [of _ "Suc _"])
  moreover have "vg_edge 0 1 two_rooms = Some 0" by (simp add: vg_edge_def two_rooms_def)
  ultimately have "sr_success (fst (updateEdgeDataCallback vec_graph ?r ?s))"
    by (simp add: updateEdgeDataCallback_def Let_def)
  with updateEdgeData_one_edge [OF vg.boost_graph_axioms, of ?r ?s] show ?thesis
    by (fastforce simp: path_msg_init_def)
qed

text \<open>
  C26: \<open>clearTopologicalMapPaths\<close> resets distance, cost and path of every transition edge that is
  not a stair, and nothing else; it reports how many edges that were, and calling it again changes
  no edge.
\<close>

theorem clearTopologicalMapPaths_correct:
  assumes "boost_graph B"
  shows "nodes_view B (ts_graph (snd (clearTopologicalMapPathsCallback B srv))) = nodes_view B (ts_graph srv) \<and>
         edges_view B (ts_graph (snd (clearTopologicalMapPathsCallback B srv))) =
           map (\<lambda>(s, t, q). (s, t, if ep_type q = ''transition'' \<and> ep_subtype q \<noteq> Some ''stair''
             then q\<lparr>ep_planned_distance := Fin (-1), ep_planned_cost := Fin (-1), ep_path := None\<rparr> else q)) (edges_view B (ts_graph srv)) \<and>
         cr_edges_cleared (fst (clearTopologicalMapPathsCallback B srv)) =
           int (length (filter (\<lambda>(s, t, q). ep_type q = ''transition'' \<and> ep_subtype q \<noteq> Some ''stair'') (edges_view B (ts_graph srv)))) \<and>
         edges_view B (ts_graph (snd (clearTopologicalMapPathsCallback B
             (snd (clearTopologicalMapPathsCallback B srv))))) =
           edges_view B (ts_graph (snd (clearTopologicalMapPathsCallback B srv)))"
proof -
  have once: "nodes_view B (ts_graph (snd (clearTopologicalMapPathsCallback B s))) = nodes_view B (ts_graph s) \<and>
      edges_view B (ts_graph (snd (clearTopologicalMapPathsCallback B s))) =
        map (\<lambda>(s, t, q). (s, t, if clearable q then cleared_edge q else q)) (edges_view B (ts_graph s)) \<and>
      cr_edges_cleared (fst (clearTopologicalMapPathsCallback B s)) =
        int (length (filter (\<lambda>(s, t, q). clearable q) (edges_view B (ts_graph s))))"
    for s :: "('a, 'c) TopomapServer"
    using boost_graph.rewrite_edges [OF assms, of clearable cleared_edge "ts_graph s" 0]
    by (auto simp: clearTopologicalMapPathsCallback_def clear_edge_step_eq)
  have "cleared_edge (cleared_edge q) = cleared_edge q" "clearable (cleared_edge q) = clearable q" for q
    by (simp_all add: cleared_edge_def clearable_def)
  then have "map (\<lambda>(s, t, q). (s, t, if clearable q then cleared_edge q else q))
      (map (\<lambda>(s, t, q). (s, t, if clearable q then cleared_edge q else q)) es) =
      map (\<lambda>(s, t, q). (s, t, if clearable q then cleared_edge q else q)) es" for es :: "edge_view list"
    by auto
  then have twice: "edges_view B (ts_graph (snd (clearTopologicalMapPathsCallback B
      (snd (clearTopologicalMapPathsCallback B srv))))) =
      edges_view B (ts_graph (snd (clearTopologicalMapPathsCallback B srv)))"
    using once [of srv] once [of "snd (clearTopologicalMapPathsCallback B srv)"] by (simp del: map_map)
  have spec: "(ep_type q = ''transition'' \<and> ep_subtype q \<noteq> Some ''stair'') = clearable q"
    "q\<lparr>ep_planned_distance := Fin (-1), ep_planned_cost := Fin (-1), ep_path := None\<rparr> = cleared_edge q" for q
    by (auto simp: clearable_def cleared_edge_def value_or_def split: option.splits)
  show ?thesis unfolding spec using once [of srv] twice by blast
qed

theorem clearTopologicalMapPaths_correct_witness:
  "cr_edges_cleared (fst (clearTopologicalMapPathsCallback vec_graph
     ((TopomapServer_init vec_graph ())\<lparr>ts_graph := two_rooms\<lparr>vg_edges :=
        [(0, 1, EdgeProperties_init\<lparr>ep_type := ''transition''\<rparr>),
         (1, 2, EdgeProperties_init\<lparr>ep_type := ''transition'', ep_subtype := Some ''stair''\<rparr>)]\<rparr>\<rparr>))) = 1"
  using clearTopologicalMapPaths_correct [OF vg.boost_graph_axioms, of
      "(TopomapServer_init vec_graph ())\<lparr>ts_graph := two_rooms\<lparr>vg_edges :=
        [(0, 1, EdgeProperties_init\<lparr>ep_type := ''transition''\<rparr>),
         (1, 2, EdgeProperties_init\<lparr>ep_type := ''transition'', ep_subtype := Some ''stair''\<rparr>)]\<rparr>\<rparr>"]
  by (simp add: clearable_def value_or_def init_defs)

text \<open>
  Saving at shutdown destroys the map when the node is cleaned up first, which is the order a
  lifecycle manager uses. \<open>on_cleanup\<close> saves the map and clears the graph, but keeps the file name and
  the flag, so the \<open>on_shutdown\<close> that follows saves again: the file then holds a map without nodes and
  edges, whatever map the server had.
\<close>

theorem cleanup_then_shutdown_empties_file:
  assumes "boost_graph B" and "json_lib J"
    and "\<And>ps. assign_points ps = \<lparr>poly_outer = ps, poly_inners = []\<rparr>"
    and "ts_save_at_shutdown srv" and "ts_topomap_file srv \<noteq> []" and "writable (ts_topomap_file srv)"
    and "\<not> isl (j_write J (toJson J B (g_clear B (ts_graph srv))))"
    and "on_cleanup J writable no_text B srv fs = (r1, srv1, fs1)"
    and "on_shutdown J writable no_text B srv1 fs1 = (r2, srv2, fs2)"
  shows "\<exists>g. loadFromFile J assign_points B fs2 (ts_topomap_file srv) (g_empty B) = (True, g) \<and>
           nodes_view B g = [] \<and> edges_view B g = []"
proof -
  have ml: "map_loader B J assign_points"
    using assms(1-3) by (simp add: map_loader_def map_loader_axioms_def)
  let ?g = "g_clear B (ts_graph srv)"
  obtain t where t: "j_write J (toJson J B ?g) = Inr t"
    using assms(7) by (cases "j_write J (toJson J B ?g)") auto
  have srv1: "ts_save_at_shutdown srv1" "ts_topomap_file srv1 = ts_topomap_file srv" "ts_graph srv1 = ?g"
    using assms(4,8) by (auto simp: on_cleanup_def clearGraph_def)
  then have fs2: "fs2 (ts_topomap_file srv) = Some t"
    using assms(5,6,9) t by (auto simp: on_shutdown_def save_if_enabled_def saveToFile_def)
  have empty: "nodes_view B ?g = []" "edges_view B ?g = []" "g_edges B ?g = []"
    using boost_graph.clear_views [OF assms(1)] boost_graph.clear_view [OF assms(1)] by auto
  have "j_read J t = Inr (toJson J B ?g)"
    using json_lib.write_read [OF assms(2) t] map_loader.stored_toJson [OF ml, of ?g] empty by simp
  moreover have "wf_graph B ?g" by (rule boost_graph.wf_graph_clear [OF assms(1)])
  ultimately show ?thesis
    using map_loader.loadFromJson_toJson [OF ml, of ?g "g_empty B"] empty fs2
    by (simp add: loadFromFile_def)
qed

theorem cleanup_then_shutdown_empties_file_witness:
  "\<exists>g. loadFromFile json_data (\<lambda>ps. \<lparr>poly_outer = ps, poly_inners = []\<rparr>) vec_graph
       (snd (snd (on_shutdown json_data (\<lambda>f. True) JNull vec_graph
          (fst (snd (on_cleanup json_data (\<lambda>f. True) JNull vec_graph
             (sample_server\<lparr>ts_save_at_shutdown := True, ts_topomap_file := ''m.json''\<rparr>) Map.empty)))
          (snd (snd (on_cleanup json_data (\<lambda>f. True) JNull vec_graph
             (sample_server\<lparr>ts_save_at_shutdown := True, ts_topomap_file := ''m.json''\<rparr>) Map.empty))))))
       ''m.json'' vg_init = (True, g) \<and> vg_nodes g = [] \<and> vg_edges g = []"
proof -
  let ?s = "sample_server\<lparr>ts_save_at_shutdown := True, ts_topomap_file := ''m.json''\<rparr>"
  let ?c = "on_cleanup json_data (\<lambda>f. True) JNull vec_graph ?s Map.empty"
  let ?d = "on_shutdown json_data (\<lambda>f. True) JNull vec_graph (fst (snd ?c)) (snd (snd ?c))"
  have w: "\<not> isl (j_write json_data j)" for j by (simp add: json_data_def)
  show ?thesis
    using cleanup_then_shutdown_empties_file [OF vg.boost_graph_axioms jd.json_lib_axioms refl, of ?s
        "\<lambda>f. True" JNull Map.empty "fst ?c" "fst (snd ?c)" "snd (snd ?c)" "fst ?d" "fst (snd ?d)" "snd (snd ?d)"]
    by (simp add: w)
qed

text \<open>
  The building name is the name of the map file without directory and extension. It is also the
  whole file name when the only dots are in the directory: the length handed to \<open>substr\<close> then wraps
  around in \<open>size_t\<close> and the rest of the string is taken.
\<close>

theorem building_name_of_correct:
  assumes "sl = CHR ''/'' \<or> sl = CHR 0x5C"
    and "CHR ''/'' \<notin> set (n @ e)" and "CHR 0x5C \<notin> set (n @ e)" and "CHR ''.'' \<notin> set e"
    and "length (d @ sl # n @ CHR ''.'' # e) < 2 ^ 63"
  shows "building_name_of (d @ sl # n @ CHR ''.'' # e) = n \<and>
         (CHR ''.'' \<in> set d \<longrightarrow> building_name_of (d @ sl # e) = e)"
proof -
  have sl: "sl \<in> set [CHR ''/'', CHR 0x5C]" "sl \<noteq> CHR ''.''" using assms(1) by auto
  have slash1: "find_last_of [CHR ''/'', CHR 0x5C] (d @ sl # n @ CHR ''.'' # e) = Some (length d)"
    by (rule find_last_of_Some [OF sl(1)]) (use assms(2,3) in auto)
  have dot1: "find_last_of ''.'' ((d @ sl # n) @ CHR ''.'' # e) = Some (length (d @ sl # n))"
    by (rule find_last_of_Some) (use assms(4) in auto)
  have "(of_nat (length (d @ sl # n)) - of_nat (length d) - 1 :: 64 word) = of_nat (length n)" by simp
  moreover have "length n < 2 ^ 64" using assms(5) by simp
  ultimately have len1: "unat (of_nat (length (d @ sl # n)) - of_nat (length d) - 1 :: 64 word) = length n"
    by (simp add: unat_of_nat)
  have one: "building_name_of (d @ sl # n @ CHR ''.'' # e) = n"
    using slash1 dot1 len1 by (simp add: building_name_of_def)
  have two: "building_name_of (d @ sl # e) = e" if dots: "CHR ''.'' \<in> set d"
  proof -
    obtain d1 d2 where d: "d = d1 @ CHR ''.'' # d2" "CHR ''.'' \<notin> set d2"
      using split_list_last [OF dots] by blast
    have slash2: "find_last_of [CHR ''/'', CHR 0x5C] (d @ sl # e) = Some (length d)"
      by (rule find_last_of_Some [OF sl(1)]) (use assms(2,3) in auto)
    have dot2: "find_last_of ''.'' (d1 @ CHR ''.'' # (d2 @ sl # e)) = Some (length d1)"
      by (rule find_last_of_Some) (use assms(4) sl(2) d(2) in auto)
    let ?w = "of_nat (length d1) - of_nat (length d) - 1 :: 64 word"
    have "?w = - of_nat (Suc (Suc (length d2)))" by (simp add: d(1))
    moreover have "Suc (Suc (length d2)) < 2 ^ 64" using assms(5) d(1) by simp
    moreover have "(of_nat (2 ^ 64 - k) :: 64 word) = - of_nat k" if "k < 2 ^ 64" for k :: nat
      using that by (simp add: of_nat_diff)
    ultimately have "?w = of_nat (2 ^ 64 - Suc (Suc (length d2)))" by metis
    then have "unat ?w = 2 ^ 64 - Suc (Suc (length d2))"
      by (simp only: unat_of_nat) simp
    then have "length e \<le> unat ?w" using assms(5) d(1) by simp
    then show ?thesis using slash2 dot2 d(1) by (simp add: building_name_of_def)
  qed
  from one two show ?thesis by blast
qed

theorem building_name_of_correct_witness:
  "building_name_of ''/maps/office.json'' = ''office''"
  using building_name_of_correct [of "CHR ''/''" "''office''" "''json''" "''/maps''"] by simp

text \<open>
  What \<open>getRoomByCoordinates\<close> answers is consistent. It succeeds exactly when a room is found;
  then the floor it reports contains the height asked for, the room it reports is a room, and the
  room lists that floor among its floors.
\<close>

theorem getRoomByCoordinates_consistent:
  assumes "rr_success (getRoomByCoordinatesCallback f32 pt_within buffer B c srv)"
  shows "tn_min_z (rr_floor_node (getRoomByCoordinatesCallback f32 pt_within buffer B c srv)) \<le> pos_z c \<and>
         pos_z c < tn_max_z (rr_floor_node (getRoomByCoordinatesCallback f32 pt_within buffer B c srv)) \<and>
         tn_type (rr_floor_node (getRoomByCoordinatesCallback f32 pt_within buffer B c srv)) = ''floor'' \<and>
         tn_type (rr_room_node (getRoomByCoordinatesCallback f32 pt_within buffer B c srv)) = ''room'' \<and>
         tn_name (rr_floor_node (getRoomByCoordinatesCallback f32 pt_within buffer B c srv)) \<in>
           set (tn_floor (rr_room_node (getRoomByCoordinatesCallback f32 pt_within buffer B c srv))) \<and>
         (\<exists>r. findRoomByCoordinates pt_within buffer B (ts_graph srv) (pos_x c) (pos_y c) (pos_z c) = Some r \<and>
            rr_room_node (getRoomByCoordinatesCallback f32 pt_within buffer B c srv) =
              convertToTopomapNodeMsg f32 (g_node B (ts_graph srv) r))"
proof -
  let ?g = "ts_graph srv"
  from assms obtain f r where f: "findFloorByHeight B ?g (pos_z c) = Some f"
    and r: "findRoomByCoordinates pt_within buffer B ?g (pos_x c) (pos_y c) (pos_z c) = Some r"
    and R: "rr_floor_node (getRoomByCoordinatesCallback f32 pt_within buffer B c srv) =
        convertToTopomapNodeMsg f32 (g_node B ?g f)"
      "rr_room_node (getRoomByCoordinatesCallback f32 pt_within buffer B c srv) =
        convertToTopomapNodeMsg f32 (g_node B ?g r)"
    by (auto simp: getRoomByCoordinatesCallback_def Let_def split: if_splits option.splits)
  have "floor_contains (pos_z c) (g_node B ?g f)"
    using findFloorByHeight_inv [of B ?g "pos_z c"] f by simp
  moreover from r f obtain k where "room_hit pt_within buffer (np_name (g_node B ?g f)) (pos_x c) (pos_y c)
      (real k / 10) (g_node B ?g r)"
    by (auto simp: findRoomByCoordinates_def buffer_loop_Some_iff find_upt_Some_iff)
  ultimately show ?thesis
    using r unfolding R
    by (auto simp: floor_contains_def room_hit_def convertToTopomapNodeMsg_def value_or_def
        split: option.splits)
qed

lemma two_floors_query:
  "findFloorByHeight vec_graph two_floors 5 = Some 1"
  "findRoomByCoordinates (\<lambda>p q. True) (\<lambda>r q. []) vec_graph two_floors 0 0 5 = Some 2"
  "rr_success (getRoomByCoordinatesCallback id (\<lambda>p q. True) (\<lambda>r q. []) vec_graph
      \<lparr>pos_x = 0, pos_y = 0, pos_z = 5\<rparr> ((TopomapServer_init vec_graph ())\<lparr>ts_graph := two_floors\<rparr>))"
proof -
  show f: "findFloorByHeight vec_graph two_floors 5 = Some 1"
    by (simp add: findFloorByHeight_def floor_step_def two_floors_def init_defs numeral_3_eq_3 Let_def)
  have "buffer_loop (\<lambda>r. find (\<lambda>v. room_hit (\<lambda>p q. True) (\<lambda>r q. []) ''OG'' 0 0 r (g_node vec_graph two_floors v))
      (g_vertices vec_graph two_floors)) 0 = Some 2"
    by (subst buffer_loop.simps)
       (simp add: two_floors_def room_hit_def isPointInPolygon_def init_defs numeral_3_eq_3 numeral_2_eq_2)
  then show r: "findRoomByCoordinates (\<lambda>p q. True) (\<lambda>r q. []) vec_graph two_floors 0 0 5 = Some 2"
    by (simp add: findRoomByCoordinates_def f) (simp add: two_floors_def)
  have "g_num_vertices vec_graph two_floors \<noteq> 0" by (simp add: two_floors_def)
  then show "rr_success (getRoomByCoordinatesCallback id (\<lambda>p q. True) (\<lambda>r q. []) vec_graph
      \<lparr>pos_x = 0, pos_y = 0, pos_z = 5\<rparr> ((TopomapServer_init vec_graph ())\<lparr>ts_graph := two_floors\<rparr>))"
    by (simp add: getRoomByCoordinatesCallback_def Let_def f r del: vec_graph_sel(3))
qed

theorem getRoomByCoordinates_consistent_witness:
  "tn_type (rr_room_node (getRoomByCoordinatesCallback id (\<lambda>p q. True) (\<lambda>r q. []) vec_graph
      \<lparr>pos_x = 0, pos_y = 0, pos_z = 5\<rparr> ((TopomapServer_init vec_graph ())\<lparr>ts_graph := two_floors\<rparr>))) = ''room''"
  using getRoomByCoordinates_consistent [OF two_floors_query(3)] by blast

section \<open>Node parameters\<close>

text \<open>
  The documented behaviour of rclcpp's parameters the callbacks rely on: a declared parameter stays
  declared, and declaring it again throws.
\<close>

locale ros_parameters =
  fixes R :: "'n ros_params" and declared :: "'n \<Rightarrow> string set"
  assumes declare_string_again: "k \<in> declared n \<Longrightarrow> rp_declare_string R k s n = Inl Parameter_already_declared"
    and declare_string: "rp_declare_string R k s n = Inr n' \<Longrightarrow> declared n' = insert k (declared n)"
    and declare_bool: "rp_declare_bool R k b n = Inr n' \<Longrightarrow> declared n' = insert k (declared n)"
begin

lemma load_keeps_node: "ts_node (snd (loadFromFile_server J ap B fs f srv)) = ts_node srv"
  by (auto simp: loadFromFile_server_def split: prod.split bool.split)

lemma configure_declares:
  "on_configure R J ap B fs srv = (SUCCESS, srv') \<Longrightarrow> ''topomap_file'' \<in> declared (ts_node srv')"
  by (auto simp: on_configure_def Let_def load_keeps_node [symmetric] split: sum.splits if_splits
      dest!: declare_string declare_bool arg_cong [where f = "\<lambda>s. declared (ts_node s)"])
     (simp_all add: load_keeps_node)

end

datatype pvalue = PString string | PBool bool

record param_node =
  pn_overrides :: "string \<rightharpoonup> pvalue"
  pn_values :: "string \<rightharpoonup> pvalue"

definition declare_param :: "string \<Rightarrow> pvalue \<Rightarrow> param_node \<Rightarrow> param_node result" where
  "declare_param k dflt n =
     (if k \<in> dom (pn_values n) then Inl Parameter_already_declared
      else Inr (n\<lparr>pn_values := (pn_values n)(k \<mapsto> (case pn_overrides n k of Some v \<Rightarrow> v | None \<Rightarrow> dflt))\<rparr>))"

definition param_store :: "param_node ros_params" where
  "param_store =
     \<lparr>rp_declare_string = (\<lambda>k s. declare_param k (PString s)),
      rp_declare_bool = (\<lambda>k b. declare_param k (PBool b)),
      rp_get_string = (\<lambda>n k. case pn_values n k of Some (PString s) \<Rightarrow> s | _ \<Rightarrow> ''''),
      rp_get_bool = (\<lambda>n k. case pn_values n k of Some (PBool b) \<Rightarrow> b | _ \<Rightarrow> False)\<rparr>"

interpretation ps: ros_parameters param_store "\<lambda>n. dom (pn_values n)"
  by unfold_locales (auto simp: param_store_def declare_param_def split: if_splits)

text \<open>
  A node that was configured cannot be configured again. \<open>on_configure\<close> declares its parameters
  unconditionally and \<open>on_cleanup\<close> does not undeclare them, so after configure and cleanup the next
  \<open>on_configure\<close> fails and leaves the server without services.
\<close>

theorem reconfigure_fails:
  assumes "ros_parameters R declared"
    and "on_configure R J ap B fs srv = (SUCCESS, srv1)"
    and "on_cleanup J writable no_text B srv1 fs = (r, srv2, fs2)"
  shows "on_configure R J ap B fs2 srv2 = (FAILURE, srv2) \<and> \<not> ts_services srv2"
proof -
  have "''topomap_file'' \<in> declared (ts_node srv1)"
    by (rule ros_parameters.configure_declares [OF assms(1,2)])
  moreover have "ts_node srv2 = ts_node srv1" "\<not> ts_services srv2"
    using assms(3) by (auto simp: on_cleanup_def clearGraph_def)
  ultimately show ?thesis
    using ros_parameters.declare_string_again [OF assms(1)] by (simp add: on_configure_def)
qed

theorem reconfigure_fails_witness:
  "fst (on_configure param_store json_data (\<lambda>ps. Polygon_init) vec_graph Map.empty
     (fst (snd (on_cleanup json_data (\<lambda>f. True) JNull vec_graph
        (snd (on_configure param_store json_data (\<lambda>ps. Polygon_init) vec_graph Map.empty
           (TopomapServer_init vec_graph \<lparr>pn_overrides = Map.empty, pn_values = Map.empty\<rparr>)))
        Map.empty)))) = FAILURE"
proof -
  let ?s = "TopomapServer_init vec_graph \<lparr>pn_overrides = Map.empty, pn_values = Map.empty\<rparr>"
  let ?c = "on_configure param_store json_data (\<lambda>ps. Polygon_init) vec_graph Map.empty ?s"
  let ?d = "on_cleanup json_data (\<lambda>f. True) JNull vec_graph (snd ?c) Map.empty"
  have save: "\<not> ts_save_at_shutdown (snd ?c)" and ok: "fst ?c = SUCCESS"
    by (simp_all add: on_configure_def param_store_def declare_param_def TopomapServer_init_def Let_def)
  then have "snd (snd ?d) = Map.empty" by (simp add: on_cleanup_def save_if_enabled_def)
  with ok reconfigure_fails [OF ps.ros_parameters_axioms, of json_data "\<lambda>ps. Polygon_init" vec_graph Map.empty ?s
      "snd ?c" "\<lambda>f. True" JNull "fst ?d" "fst (snd ?d)" "snd (snd ?d)"]
  show ?thesis by (metis fst_conv prod.collapse)
qed

end
