(* ===== verification/Graph_Utils.thy ===== *)
theory Graph_Utils
  imports Topomap_Utils
begin

text \<open>
  \<open>navbim_gpp_bim/graph_utils.cpp\<close>: the planner's graph functions. \<open>insertStartAndGoal\<close> extends a
  copy of the map by a start and a goal node; \<open>pruneGraph\<close> computes the set of vertices the planner
  may ignore, by floors, by connected components and by dead-end transitions.
  \<open>boost::connected_components\<close> is the parameter \<open>cc\<close>, whose contract is the locale \<open>components\<close>.
\<close>

section \<open>Inserting start and goal\<close>

definition endpoint_props ::
  "int \<Rightarrow> string \<Rightarrow> Position \<Rightarrow> string list option \<Rightarrow> NodeProperties \<Rightarrow> NodeProperties" where
  "endpoint_props i name pos fl p =
     p\<lparr>np_id := i, np_name := name, np_type := ''transition'', np_position := pos, np_floor := fl\<rparr>"

text \<open>A node of that kind is added, on the floors of the room it is in.\<close>

definition add_endpoint ::
  "('g, 'e) bgl \<Rightarrow> int \<Rightarrow> string \<Rightarrow> Position \<Rightarrow> Vertex \<Rightarrow> 'g \<Rightarrow> Vertex \<times> 'g" where
  "add_endpoint B i name pos room g =
     (case g_add_vertex B g of (v, g1) \<Rightarrow>
        (v, g_set_node B v (endpoint_props i name pos (np_floor (g_node B g1 room)) (g_node B g1 v)) g1))"

definition transition_props ::
  "int \<Rightarrow> int \<Rightarrow> real \<Rightarrow> real \<Rightarrow> EdgeProperties \<Rightarrow> EdgeProperties" where
  "transition_props edge_id room_id d c q =
     q\<lparr>ep_id := edge_id, ep_type := ''transition'', ep_room_id := Some room_id,
       ep_estimated_distance := Fin d, ep_planned_distance := Fin (-1),
       ep_estimated_cost := Fin c, ep_planned_cost := Fin (-1), ep_path := None\<rparr>"

definition add_transition_edge ::
  "('g, 'e) bgl \<Rightarrow> real \<Rightarrow> Vertex \<Rightarrow> Vertex \<Rightarrow> int \<Rightarrow> int \<Rightarrow> 'g \<Rightarrow> 'g" where
  "add_transition_edge B penalize_z_movement v1 v2 edge_id room_id g =
     add_edge_with B v1 v2
       (transition_props edge_id room_id (euclideanDistanceBetweenNodes B g v1 v2)
          (costBetweenNodes B g v1 v2 penalize_z_movement)) g"

text \<open>
  The loop over the neighbours of a room. The new edges never touch the room itself, so its
  out-edges do not change while they are iterated.
\<close>

definition add_door_edges ::
  "('g, 'e) bgl \<Rightarrow> real \<Rightarrow> Vertex \<Rightarrow> Vertex \<Rightarrow> int \<Rightarrow> 'g \<times> int \<Rightarrow> 'g \<times> int" where
  "add_door_edges B z vertex room room_id st =
     fold (\<lambda>neighbor (g, next_edge_id).
         if np_type (g_node B g neighbor) \<noteq> ''transition'' then (g, next_edge_id)
         else (add_transition_edge B z vertex neighbor next_edge_id room_id g, next_edge_id + 1))
       (g_adjacent_vertices B room (fst st)) st"

definition add_room_edge :: "('g, 'e) bgl \<Rightarrow> Vertex \<Rightarrow> Vertex \<Rightarrow> 'g \<times> int \<Rightarrow> 'g \<times> int" where
  "add_room_edge B vertex room st =
     (case st of (g, next_edge_id) \<Rightarrow>
        case g_add_edge B vertex room g of ((e, inserted), g1) \<Rightarrow>
          if inserted
          then (g_set_eprops B e ((g_eprops B g1 e)\<lparr>ep_id := next_edge_id, ep_type := ''room''\<rparr>) g1,
                next_edge_id + 1)
          else (g1, next_edge_id))"

definition insertStartAndGoal ::
  "('g, 'e) bgl \<Rightarrow> 'g TopologicalMap \<Rightarrow> Vertex \<Rightarrow> Vertex \<Rightarrow> Position \<Rightarrow> Position \<Rightarrow> real \<Rightarrow> 'g" where
  "insertStartAndGoal B topological_map start_room end_room start_coords end_coords z =
     (let g = tp_graph topological_map;
          START_ID = getMaxNodeId topological_map + 1;
          GOAL_ID = getMaxNodeId topological_map + 2;
          next_edge_id = getMaxEdgeId topological_map + 1;
          start_room_id = np_id (g_node B g start_room);
          end_room_id = np_id (g_node B g end_room);
          (start_vertex, g2) = add_endpoint B START_ID ''start'' start_coords start_room g;
          (goal_vertex, g4) = add_endpoint B GOAL_ID ''goal'' end_coords end_room g2;
          st = (if start_room = end_room
                then (add_transition_edge B z start_vertex goal_vertex next_edge_id start_room_id g4,
                      next_edge_id + 1)
                else (g4, next_edge_id));
          st = add_door_edges B z start_vertex start_room start_room_id st;
          st = add_door_edges B z goal_vertex end_room end_room_id st;
          st = add_room_edge B start_vertex start_room st;
          st = add_room_edge B goal_vertex end_room st
      in fst st)"

section \<open>Pruning\<close>

text \<open>
  \<open>boost::connected_components\<close> on a graph given by its vertices and its edges: the number of
  components, and a component number for each vertex.
\<close>

type_synonym components_fn = "Vertex list \<Rightarrow> (Vertex \<times> Vertex) list \<Rightarrow> nat \<times> (Vertex \<Rightarrow> nat)"

definition edge_ends :: "('g, 'e) bgl \<Rightarrow> 'g \<Rightarrow> (Vertex \<times> Vertex) list" where
  "edge_ends B g = map (\<lambda>e. (g_source B g e, g_target B g e)) (g_edges B g)"

text \<open>
  The components of the graph filtered by \<open>EnabledVertexPredicate\<close> and \<open>EnabledEdgePredicate\<close>; the
  entry of a disabled vertex is the initial 0.
\<close>

definition filtered_components ::
  "components_fn \<Rightarrow> ('g, 'e) bgl \<Rightarrow> 'g \<Rightarrow> Vertex set \<Rightarrow> nat \<times> (Vertex \<Rightarrow> nat)" where
  "filtered_components cc B g disabled =
     (case cc (filter (\<lambda>v. v \<notin> disabled) (g_vertices B g))
              (filter (\<lambda>(s, t). s \<notin> disabled \<and> t \<notin> disabled) (edge_ends B g)) of
        (n, component) \<Rightarrow>
          (n, \<lambda>v. if v < g_num_vertices B g \<and> v \<notin> disabled then component v else 0))"

fun find_start_goal ::
  "('g, 'e) bgl \<Rightarrow> 'g \<Rightarrow> Vertex list \<Rightarrow> Vertex option \<times> Vertex option \<Rightarrow> Vertex option \<times> Vertex option" where
  "find_start_goal B g [] st = st"
| "find_start_goal B g (v # vs) (start_opt, goal_opt) =
     (let start_opt' = (if np_name (g_node B g v) = ''start'' then Some v else start_opt);
          goal_opt' = (if np_name (g_node B g v) \<noteq> ''start'' \<and> np_name (g_node B g v) = ''goal''
                       then Some v else goal_opt)
      in if start_opt' \<noteq> None \<and> goal_opt' \<noteq> None then (start_opt', goal_opt')
         else find_start_goal B g vs (start_opt', goal_opt'))"

definition prune_other_floors ::
  "components_fn \<Rightarrow> ('g, 'e) bgl \<Rightarrow> 'g \<Rightarrow> Vertex \<Rightarrow> Vertex \<Rightarrow> Vertex set \<Rightarrow> Vertex set" where
  "prune_other_floors cc B g start_vertex goal_vertex disabled =
     (if isOnSameFloor (np_floor (g_node B g start_vertex)) (np_floor (g_node B g goal_vertex))
      then let other = set (filter (\<lambda>v. \<not> isOnSameFloor (np_floor (g_node B g v))
                                          (np_floor (g_node B g start_vertex))) (g_vertices B g))
           in if other \<noteq> {} \<and>
                 snd (filtered_components cc B g (disabled \<union> other)) start_vertex =
                 snd (filtered_components cc B g (disabled \<union> other)) goal_vertex
              then disabled \<union> other else disabled
      else disabled)"

definition other_components ::
  "components_fn \<Rightarrow> ('g, 'e) bgl \<Rightarrow> 'g \<Rightarrow> Vertex \<Rightarrow> Vertex set \<Rightarrow> Vertex set" where
  "other_components cc B g start_vertex disabled =
     set (filter (\<lambda>v. v \<notin> disabled \<and>
         snd (filtered_components cc B g disabled) v \<noteq>
         snd (filtered_components cc B g disabled) start_vertex) (g_vertices B g))"

definition prune_unreachable ::
  "components_fn \<Rightarrow> ('g, 'e) bgl \<Rightarrow> 'g \<Rightarrow> Vertex \<Rightarrow> Vertex set \<Rightarrow> Vertex set" where
  "prune_unreachable cc B g start_vertex disabled =
     (if 1 < fst (filtered_components cc B g disabled)
      then disabled \<union> other_components cc B g start_vertex disabled else disabled)"

definition num_room_edges :: "('g, 'e) bgl \<Rightarrow> 'g \<Rightarrow> Vertex \<Rightarrow> Vertex set \<Rightarrow> nat" where
  "num_room_edges B g v disabled =
     length (filter (\<lambda>w. w \<notin> disabled \<and>
         (case g_edge B v w g of Some e \<Rightarrow> ep_type (g_eprops B g e) = ''room'' | None \<Rightarrow> False))
       (g_adjacent_vertices B v g))"

definition prune_transition ::
  "components_fn \<Rightarrow> ('g, 'e) bgl \<Rightarrow> 'g \<Rightarrow> Vertex \<Rightarrow> Vertex \<Rightarrow> Vertex \<Rightarrow> Vertex set \<Rightarrow> Vertex set" where
  "prune_transition cc B g start_vertex goal_vertex v disabled =
     (if v \<in> disabled then disabled
      else if num_room_edges B g v disabled < 2 then insert v disabled
      else if 1 < fst (filtered_components cc B g (insert v disabled)) \<and>
              snd (filtered_components cc B g (insert v disabled)) start_vertex =
              snd (filtered_components cc B g (insert v disabled)) goal_vertex
      then insert v disabled \<union> other_components cc B g start_vertex (insert v disabled)
      else disabled)"

definition prune_dead_ends ::
  "components_fn \<Rightarrow> ('g, 'e) bgl \<Rightarrow> 'g \<Rightarrow> Vertex \<Rightarrow> Vertex \<Rightarrow> Vertex set \<Rightarrow> Vertex set" where
  "prune_dead_ends cc B g start_vertex goal_vertex disabled =
     fold (prune_transition cc B g start_vertex goal_vertex)
       (filter (\<lambda>v. v \<notin> disabled \<and> np_type (g_node B g v) = ''transition'' \<and>
           np_name (g_node B g v) \<noteq> ''start'' \<and> np_name (g_node B g v) \<noteq> ''goal'') (g_vertices B g))
       disabled"

definition pruneGraph ::
  "components_fn \<Rightarrow> ('g, 'e) bgl \<Rightarrow> 'g \<Rightarrow> Vertex set \<Rightarrow> Vertex option \<Rightarrow> Vertex option \<Rightarrow> Vertex set" where
  "pruneGraph cc B g floor_vertices start_room goal_room =
     (case find_start_goal B g (g_vertices B g) (None, None) of
        (Some start_vertex, Some goal_vertex) \<Rightarrow>
          (let same_room_navigation =
                 (start_room \<noteq> None \<and> goal_room \<noteq> None \<and> start_room = goal_room \<and>
                  g_edge B start_vertex goal_vertex g \<noteq> None);
               disabled = floor_vertices;
               component = snd (filtered_components cc B g disabled)
           in if component start_vertex \<noteq> component goal_vertex then disabled
              else if same_room_navigation then disabled
              else prune_dead_ends cc B g start_vertex goal_vertex
                     (prune_unreachable cc B g start_vertex
                        (prune_other_floors cc B g start_vertex goal_vertex disabled)))
      | _ \<Rightarrow> {})"

section \<open>Lookups\<close>

definition findVertexByNodeId :: "('g, 'e) bgl \<Rightarrow> 'g \<Rightarrow> int \<Rightarrow> Vertex option" where
  "findVertexByNodeId B g node_id = find (\<lambda>v. np_id (g_node B g v) = node_id) (g_vertices B g)"

text \<open>
  The planner has its own copies of the floor and room searches of the server's
  \<open>TopologicalMapUtils\<close>, over its own graph; loop body and room test are those of the server's.
\<close>

definition planner_findFloorByHeight :: "('g, 'e) bgl \<Rightarrow> 'g \<Rightarrow> real \<Rightarrow> Vertex option" where
  "planner_findFloorByHeight B g height =
     snd (fold (floor_step B g height) (g_vertices B g) (PosInf, None))"

definition planner_isPointInPolygon :: "within_fn \<Rightarrow> Polygon \<Rightarrow> real \<Rightarrow> real \<Rightarrow> bool" where
  "planner_isPointInPolygon pt_within polygon x y = pt_within (x, y) polygon"

definition planner_findRoomByCoordinates ::
  "within_fn \<Rightarrow> buffer_fn \<Rightarrow> ('g, 'e) bgl \<Rightarrow> 'g \<Rightarrow> real \<Rightarrow> real \<Rightarrow> real \<Rightarrow> Vertex option" where
  "planner_findRoomByCoordinates pt_within buffer B g x y z =
     (case planner_findFloorByHeight B g z of
        None \<Rightarrow> None
      | Some f \<Rightarrow>
          buffer_loop (\<lambda>r. find (\<lambda>v. let node = g_node B g v in
              np_type node = ''room'' \<and> np_floor node \<noteq> None \<and> np_polygon node \<noteq> None \<and>
              np_name (g_node B g f) \<in> set (the (np_floor node)) \<and>
              (if 0 < r then list_ex (pt_within (x, y)) (buffer r (the (np_polygon node)))
               else planner_isPointInPolygon pt_within (the (np_polygon node)) x y))
            (g_vertices B g)) 0)"

lemma planner_searches_agree:
  "planner_findFloorByHeight B g height = findFloorByHeight B g height"
  "planner_findRoomByCoordinates pt_within buffer B g x y z =
     findRoomByCoordinates pt_within buffer B g x y z"
proof -
  show f: "planner_findFloorByHeight B g height = findFloorByHeight B g height" for height
    by (simp add: planner_findFloorByHeight_def findFloorByHeight_def)
  have hit: "room_hit pt_within buffer nm x y r node =
      (np_type node = ''room'' \<and> np_floor node \<noteq> None \<and> np_polygon node \<noteq> None \<and>
       nm \<in> set (the (np_floor node)) \<and>
       (if 0 < r then list_ex (pt_within (x, y)) (buffer r (the (np_polygon node)))
        else planner_isPointInPolygon pt_within (the (np_polygon node)) x y))" for nm r node
    by (auto simp: room_hit_def planner_isPointInPolygon_def isPointInPolygon_def split: option.split)
  show "planner_findRoomByCoordinates pt_within buffer B g x y z =
     findRoomByCoordinates pt_within buffer B g x y z"
    unfolding planner_findRoomByCoordinates_def findRoomByCoordinates_def f Let_def hit by (rule refl)
qed

section \<open>The contract of connected components, and an implementation\<close>

definition links :: "(Vertex \<times> Vertex) list \<Rightarrow> (Vertex \<times> Vertex) set" where
  "links es = set es \<union> (set es)\<inverse>"

locale components =
  fixes cc :: components_fn
  assumes component_iff: "set es \<subseteq> set vs \<times> set vs \<Longrightarrow> u \<in> set vs \<Longrightarrow> v \<in> set vs \<Longrightarrow>
      snd (cc vs es) u = snd (cc vs es) v \<longleftrightarrow> (u, v) \<in> (links es)\<^sup>*"
    and component_count: "fst (cc vs es) = card (snd (cc vs es) ` set vs)"

text \<open>Relabelling: each edge gives the component of its second end the label of its first.\<close>

fun relabel :: "(Vertex \<times> Vertex) list \<Rightarrow> (Vertex \<Rightarrow> nat) \<Rightarrow> Vertex \<Rightarrow> nat" where
  "relabel [] f = f"
| "relabel ((s, t) # es) f = relabel es (\<lambda>x. if f x = f t then f s else f x)"

definition relabel_components :: components_fn where
  "relabel_components vs es =
     (length (remdups (map (relabel es id) vs)), relabel es id)"

lemma links_insert: "links ((s, t) # es) = insert (s, t) (insert (t, s) (links es))"
  by (auto simp: links_def)

lemma relabel_iff:
  assumes "\<forall>x y. f x = f y \<longleftrightarrow> (x, y) \<in> R\<^sup>*" and "sym R"
  shows "relabel es f x = relabel es f y \<longleftrightarrow> (x, y) \<in> (R \<union> links es)\<^sup>*"
  using assms
proof (induction es arbitrary: f R)
  case Nil
  then show ?case by (simp add: links_def)
next
  case (Cons e es)
  obtain s t where e: "e = (s, t)" by fastforce
  let ?f = "\<lambda>x. if f x = f t then f s else f x" and ?R = "R \<union> {(s, t), (t, s)}"
  have sound: "(x, y) \<in> ?R\<^sup>*" if "f x = f y" for x y
    using that Cons.prems(1) by (meson Un_upper1 in_mono rtrancl_mono)
  have st: "(s, t) \<in> ?R\<^sup>*" "(t, s) \<in> ?R\<^sup>*" by blast+
  have "?f x = ?f y \<longleftrightarrow> (x, y) \<in> ?R\<^sup>*" for x y
  proof
    assume "?f x = ?f y"
    then consider "f x = f y" | "f x = f t" "f y = f s" | "f x = f s" "f y = f t"
      by (auto split: if_splits)
    then show "(x, y) \<in> ?R\<^sup>*"
      by cases (metis sound st rtrancl_trans)+
  next
    assume "(x, y) \<in> ?R\<^sup>*"
    then show "?f x = ?f y"
    proof (induction rule: rtrancl_induct)
      case (step y z)
      have "f y = f z" if "(y, z) \<in> R" using that Cons.prems(1) by blast
      then have "?f y = ?f z" using step.hyps(2) by auto
      with step.IH show ?case by simp
    qed simp
  qed
  moreover have "sym ?R" using Cons.prems(2) by (auto simp: sym_def)
  ultimately have "relabel es ?f x = relabel es ?f y \<longleftrightarrow> (x, y) \<in> (?R \<union> links es)\<^sup>*"
    by (intro Cons.IH) auto
  moreover have "?R \<union> links es = R \<union> links (e # es)" by (auto simp: e links_insert)
  ultimately show ?case by (simp add: e)
qed

interpretation rc: components relabel_components
proof unfold_locales
  fix es vs and u v :: Vertex
  have "relabel es id u = relabel es id v \<longleftrightarrow> (u, v) \<in> ({} \<union> links es)\<^sup>*"
    by (rule relabel_iff) (auto simp: sym_def)
  then show "snd (relabel_components vs es) u = snd (relabel_components vs es) v \<longleftrightarrow> (u, v) \<in> (links es)\<^sup>*"
    by (simp add: relabel_components_def)
  show "fst (relabel_components vs es) = card (snd (relabel_components vs es) ` set vs)"
    by (simp add: relabel_components_def length_remdups_card_conv)
qed

section \<open>What pruning keeps\<close>

text \<open>Vertices are linked when a path of enabled vertices joins them.\<close>

definition enabled_ends :: "('g, 'e) bgl \<Rightarrow> 'g \<Rightarrow> Vertex set \<Rightarrow> (Vertex \<times> Vertex) list" where
  "enabled_ends B g D = filter (\<lambda>(s, t). s \<notin> D \<and> t \<notin> D) (edge_ends B g)"

definition linked :: "('g, 'e) bgl \<Rightarrow> 'g \<Rightarrow> Vertex set \<Rightarrow> Vertex \<Rightarrow> Vertex \<Rightarrow> bool" where
  "linked B g D u v \<longleftrightarrow> (u, v) \<in> (links (enabled_ends B g D))\<^sup>*"

text \<open>The states the loop over the transitions goes through.\<close>

fun dead_end_steps ::
  "components_fn \<Rightarrow> ('g, 'e) bgl \<Rightarrow> 'g \<Rightarrow> Vertex \<Rightarrow> Vertex \<Rightarrow> Vertex list \<Rightarrow> Vertex set \<Rightarrow>
     (Vertex \<times> Vertex set) list" where
  "dead_end_steps cc B g s t [] D = []"
| "dead_end_steps cc B g s t (v # vs) D =
     (v, D) # dead_end_steps cc B g s t vs (prune_transition cc B g s t v D)"

definition prunable_transitions :: "('g, 'e) bgl \<Rightarrow> 'g \<Rightarrow> Vertex set \<Rightarrow> Vertex list" where
  "prunable_transitions B g D =
     filter (\<lambda>v. v \<notin> D \<and> np_type (g_node B g v) = ''transition'' \<and>
         np_name (g_node B g v) \<noteq> ''start'' \<and> np_name (g_node B g v) \<noteq> ''goal'') (g_vertices B g)"

lemma isOnSameFloor_sym: "isOnSameFloor a b \<longleftrightarrow> isOnSameFloor b a"
  by (cases a; cases b) (auto simp: list_ex_iff)

lemma isOnSameFloor_self: "isOnSameFloor a b \<Longrightarrow> isOnSameFloor a a"
  by (cases a; cases b) (auto simp: list_ex_iff)

lemma find_start_goal_names:
  assumes "find_start_goal B g vs (a, b) = (Some s, Some t)"
    and "\<forall>v. a = Some v \<longrightarrow> P v \<and> np_name (g_node B g v) = ''start''"
    and "\<forall>v. b = Some v \<longrightarrow> P v \<and> np_name (g_node B g v) = ''goal''"
    and "\<forall>v \<in> set vs. P v"
  shows "P s \<and> np_name (g_node B g s) = ''start'' \<and> P t \<and> np_name (g_node B g t) = ''goal''"
  using assms
proof (induction vs arbitrary: a b)
  case (Cons v vs)
  let ?a = "if np_name (g_node B g v) = ''start'' then Some v else a"
  let ?b = "if np_name (g_node B g v) \<noteq> ''start'' \<and> np_name (g_node B g v) = ''goal'' then Some v else b"
  have a: "\<forall>v. ?a = Some v \<longrightarrow> P v \<and> np_name (g_node B g v) = ''start''"
    and b: "\<forall>v. ?b = Some v \<longrightarrow> P v \<and> np_name (g_node B g v) = ''goal''"
    using Cons.prems(2-4) by (simp_all split: if_split)
  have "find_start_goal B g (v # vs) (a, b) =
      (if ?a \<noteq> None \<and> ?b \<noteq> None then (?a, ?b) else find_start_goal B g vs (?a, ?b))"
    by (simp only: find_start_goal.simps Let_def)
  with Cons.prems(1) consider "(?a, ?b) = (Some s, Some t)" | "find_start_goal B g vs (?a, ?b) = (Some s, Some t)"
    by argo
  then show ?case
  proof cases
    case 1
    then have "?a = Some s" "?b = Some t" by (simp_all only: prod.inject)
    with a b show ?thesis by blast
  next
    case 2
    from Cons.IH [OF this a b] Cons.prems(4) show ?thesis by simp
  qed
qed simp

locale pruning = boost_graph B + components cc
  for B :: "('g, 'e) bgl" and cc :: components_fn +
  fixes g :: 'g and s t :: Vertex
  assumes wf: "wf_graph B g" and endpoints: "s < g_num_vertices B g" "t < g_num_vertices B g"
begin

lemma edge_ends_range: "(u, v) \<in> set (edge_ends B g) \<Longrightarrow> u < g_num_vertices B g \<and> v < g_num_vertices B g"
  using wf by (auto simp: wf_graph_def edge_ends_def edges_view_def edge_view_of_def list_all_iff)

lemma link_enabled:
  "(u, v) \<in> links (enabled_ends B g D) \<Longrightarrow>
     u < g_num_vertices B g \<and> v < g_num_vertices B g \<and> u \<notin> D \<and> v \<notin> D"
  by (auto simp: links_def enabled_ends_def dest: edge_ends_range)

lemma component_linked:
  assumes "u < g_num_vertices B g" "v < g_num_vertices B g" "u \<notin> D" "v \<notin> D"
  shows "snd (filtered_components cc B g D) u = snd (filtered_components cc B g D) v \<longleftrightarrow> linked B g D u v"
proof -
  let ?vs = "filter (\<lambda>v. v \<notin> D) (g_vertices B g)"
  have "set (enabled_ends B g D) \<subseteq> set ?vs \<times> set ?vs"
    by (auto simp: enabled_ends_def dest: edge_ends_range)
  from component_iff [OF this, of u v] assms show ?thesis
    by (simp add: filtered_components_def enabled_ends_def linked_def case_prod_unfold)
qed

lemma linked_in_component:
  assumes "linked B g D s v" and "s \<notin> D"
  shows "v < g_num_vertices B g \<and> v \<notin> D"
  using assms(1) unfolding linked_def
  by (induction rule: rtrancl_induct) (use assms(2) endpoints link_enabled in auto)

lemma start_not_other: "s \<notin> other_components cc B g s D"
  by (simp add: other_components_def)

lemma other_components_linked:
  assumes "linked B g D s v" and "s \<notin> D"
  shows "linked B g (D \<union> other_components cc B g s D) s v"
  using assms(1) unfolding linked_def
proof (induction rule: rtrancl_induct)
  case (step y z)
  have y: "linked B g D s y" using step.hyps(1) by (simp add: linked_def)
  have z: "linked B g D s z" using step.hyps by (simp add: linked_def)
  have same: "w \<notin> other_components cc B g s D" if w: "linked B g D s w" for w
  proof -
    have "snd (filtered_components cc B g D) s = snd (filtered_components cc B g D) w"
      using component_linked [of s w D] linked_in_component [OF w assms(2)] endpoints assms(2) w by blast
    then show ?thesis by (simp add: other_components_def)
  qed
  have "(y, z) \<in> links (enabled_ends B g (D \<union> other_components cc B g s D))"
    using step.hyps(2) same [OF y] same [OF z] by (auto simp: links_def enabled_ends_def)
  with step.IH show ?case by (rule rtrancl_into_rtrancl)
qed simp

text \<open>Each phase keeps the endpoints enabled and linked.\<close>

lemma other_floors_keeps:
  assumes "s \<notin> D" and "t \<notin> D" and "linked B g D s t"
  shows "s \<notin> prune_other_floors cc B g s t D \<and> t \<notin> prune_other_floors cc B g s t D \<and>
         linked B g (prune_other_floors cc B g s t D) s t"
proof -
  let ?other = "set (filter (\<lambda>v. \<not> isOnSameFloor (np_floor (g_node B g v)) (np_floor (g_node B g s))) (g_vertices B g))"
  show ?thesis
  proof (cases "isOnSameFloor (np_floor (g_node B g s)) (np_floor (g_node B g t)) \<and> ?other \<noteq> {} \<and>
      snd (filtered_components cc B g (D \<union> ?other)) s = snd (filtered_components cc B g (D \<union> ?other)) t")
    case True
    then have st: "isOnSameFloor (np_floor (g_node B g s)) (np_floor (g_node B g t))" by blast
    have "isOnSameFloor (np_floor (g_node B g s)) (np_floor (g_node B g s))"
      "isOnSameFloor (np_floor (g_node B g t)) (np_floor (g_node B g s))"
      using isOnSameFloor_self [OF st] isOnSameFloor_sym [THEN iffD1, OF st] .
    then have n: "s \<notin> D \<union> ?other" "t \<notin> D \<union> ?other" using assms(1,2) by simp_all
    moreover have "linked B g (D \<union> ?other) s t"
      by (rule component_linked [OF endpoints n, THEN iffD1]) (use True in blast)
    moreover have "prune_other_floors cc B g s t D = D \<union> ?other"
      using True by (simp add: prune_other_floors_def Let_def)
    ultimately show ?thesis by simp
  next
    case False
    then have "prune_other_floors cc B g s t D = D" by (auto simp: prune_other_floors_def Let_def)
    with assms show ?thesis by simp
  qed
qed

lemma goal_not_other:
  assumes "s \<notin> D" and "t \<notin> D"
    and "snd (filtered_components cc B g D) s = snd (filtered_components cc B g D) t"
  shows "t \<notin> other_components cc B g s D"
  using assms by (simp add: other_components_def)

lemma unreachable_keeps:
  assumes "s \<notin> D" and "t \<notin> D" and "linked B g D s t"
  shows "s \<notin> prune_unreachable cc B g s D \<and> t \<notin> prune_unreachable cc B g s D \<and>
         linked B g (prune_unreachable cc B g s D) s t"
  using assms start_not_other [of D] goal_not_other [OF assms(1,2)] component_linked [OF endpoints assms(1,2)]
    other_components_linked [OF assms(3,1)]
  by (simp add: prune_unreachable_def)

lemma transition_keeps_endpoints:
  assumes "s \<notin> D" and "t \<notin> D" and "v \<noteq> s" and "v \<noteq> t"
  shows "s \<notin> prune_transition cc B g s t v D \<and> t \<notin> prune_transition cc B g s t v D"
  using assms start_not_other [of "insert v D"] goal_not_other [of "insert v D"]
  by (simp add: prune_transition_def)

lemma transition_keeps_link:
  assumes "s \<notin> D" and "t \<notin> D" and "v \<noteq> s" and "v \<noteq> t" and "linked B g D s t"
    and "v \<notin> D \<Longrightarrow> num_room_edges B g v D < 2 \<Longrightarrow> linked B g (insert v D) s t"
  shows "linked B g (prune_transition cc B g s t v D) s t"
  using assms component_linked [OF endpoints, of "insert v D"] other_components_linked [of "insert v D" t]
  by (auto simp: prune_transition_def)

lemma dead_ends_keep_endpoints:
  assumes "s \<notin> D" and "t \<notin> D" and "s \<notin> set vs" and "t \<notin> set vs"
  shows "s \<notin> fold (prune_transition cc B g s t) vs D \<and> t \<notin> fold (prune_transition cc B g s t) vs D"
  using assms
proof (induction vs arbitrary: D)
  case (Cons v vs)
  with transition_keeps_endpoints [of D v] show ?case by simp
qed simp

lemma dead_end_steps_avoid:
  assumes "s \<notin> D" and "t \<notin> D" and "s \<notin> set vs" and "t \<notin> set vs"
    and "(v, D') \<in> set (dead_end_steps cc B g s t vs D)"
  shows "s \<notin> insert v D'" and "t \<notin> insert v D'"
  using assms
proof (induction vs arbitrary: D)
  case (Cons w vs)
  { case 1 with Cons.IH(1) [of "prune_transition cc B g s t w D"] transition_keeps_endpoints [of D w]
    show ?case by auto }
  { case 2 with Cons.IH(2) [of "prune_transition cc B g s t w D"] transition_keeps_endpoints [of D w]
    show ?case by auto }
qed simp_all

lemma dead_ends_keep_link:
  assumes "s \<notin> D" and "t \<notin> D" and "s \<notin> set vs" and "t \<notin> set vs" and "linked B g D s t"
    and "\<forall>(v, D') \<in> set (dead_end_steps cc B g s t vs D).
           v \<notin> D' \<longrightarrow> num_room_edges B g v D' < 2 \<longrightarrow> linked B g D' s t \<longrightarrow> linked B g (insert v D') s t"
  shows "linked B g (fold (prune_transition cc B g s t) vs D) s t"
  using assms
proof (induction vs arbitrary: D)
  case (Cons v vs)
  have vst: "v \<noteq> s" "v \<noteq> t" using Cons.prems(3,4) by auto
  have "linked B g (prune_transition cc B g s t v D) s t"
    by (rule transition_keeps_link [OF Cons.prems(1,2) vst Cons.prems(5)]) (use Cons.prems(5,6) in simp)
  with Cons.IH [of "prune_transition cc B g s t v D"] Cons.prems
    transition_keeps_endpoints [OF Cons.prems(1,2) vst] show ?case by simp
qed simp

end

section \<open>The graph with start and goal\<close>

text \<open>
  What the insertion adds, as data: the transition neighbours of a room, edges numbered from the
  next free edge id, and the view of such an edge.
\<close>

definition doors :: "('g, 'e) bgl \<Rightarrow> 'g \<Rightarrow> Vertex \<Rightarrow> Vertex list" where
  "doors B g room = filter (\<lambda>v. np_type (g_node B g v) = ''transition'') (g_adjacent_vertices B room g)"

primrec numbered :: "int \<Rightarrow> 'a list \<Rightarrow> (int \<times> 'a) list" where
  "numbered k [] = []"
| "numbered k (x # xs) = (k, x) # numbered (k + 1) xs"

lemma numbered_append: "numbered k (xs @ ys) = numbered k xs @ numbered (k + int (length xs)) ys"
  by (induction xs arbitrary: k) (simp_all add: algebra_simps)

lemma length_numbered [simp]: "length (numbered k xs) = length xs"
  by (induction xs arbitrary: k) simp_all

lemma fst_numbered: "map fst (numbered k xs) = [k..k + int (length xs) - 1]"
  by (induction xs arbitrary: k) (simp_all add: upto_rec1)

fun transition_view :: "real \<Rightarrow> NodeProperties list \<Rightarrow> int \<times> Vertex \<times> Vertex \<times> int \<Rightarrow> edge_view" where
  "transition_view z N (k, u, w, r) =
     (u, w, transition_props k r (position_distance (np_position (N ! u)) (np_position (N ! w)) 1)
       (position_distance (np_position (N ! u)) (np_position (N ! w)) z) EdgeProperties_init)"

fun room_view :: "int \<times> Vertex \<times> Vertex \<Rightarrow> edge_view" where
  "room_view (k, u, w) = (u, w, EdgeProperties_init\<lparr>ep_id := k, ep_type := ''room''\<rparr>)"

definition same_room_link :: "Vertex \<Rightarrow> Vertex \<Rightarrow> nat \<Rightarrow> int \<Rightarrow> (Vertex \<times> Vertex \<times> int) list" where
  "same_room_link sr er n r = (if sr = er then [(n, Suc n, r)] else [])"

definition inserted_links ::
  "('g, 'e) bgl \<Rightarrow> 'g \<Rightarrow> Vertex \<Rightarrow> Vertex \<Rightarrow> (Vertex \<Rightarrow> int) \<Rightarrow> (Vertex \<Rightarrow> int) \<Rightarrow>
     (Vertex \<times> Vertex \<times> int) list" where
  "inserted_links B g sr er rs re =
     same_room_link sr er (g_num_vertices B g) (np_id (g_node B g sr)) @
     map (\<lambda>d. (g_num_vertices B g, d, rs d)) (doors B g sr) @
     map (\<lambda>d. (Suc (g_num_vertices B g), d, re d)) (doors B g er)"

definition inserted_nodes ::
  "('g, 'e) bgl \<Rightarrow> 'g TopologicalMap \<Rightarrow> Vertex \<Rightarrow> Vertex \<Rightarrow> Position \<Rightarrow> Position \<Rightarrow> NodeProperties list" where
  "inserted_nodes B m sr er p q =
     [endpoint_props (getMaxNodeId m + 1) ''start'' p (np_floor (g_node B (tp_graph m) sr)) NodeProperties_init,
      endpoint_props (getMaxNodeId m + 2) ''goal'' q (np_floor (g_node B (tp_graph m) er)) NodeProperties_init]"

definition inserted_edges ::
  "real \<Rightarrow> NodeProperties list \<Rightarrow> int \<Rightarrow> (Vertex \<times> Vertex \<times> int) list \<Rightarrow> (Vertex \<times> Vertex) list \<Rightarrow> edge_view list" where
  "inserted_edges z N k ls rs =
     map (transition_view z N) (numbered k ls) @ map room_view (numbered (k + int (length ls)) rs)"

lemma euclidean_position_distance:
  "euclideanDistanceBetweenNodes B g u w =
     position_distance (np_position (g_node B g u)) (np_position (g_node B g w)) 1"
  by (simp add: euclideanDistanceBetweenNodes_def position_distance_def Let_def)

context boost_graph
begin

lemma node_of_view: "nodes_view B g = N \<Longrightarrow> v < length N \<Longrightarrow> g_node B g v = N ! v"
  by auto

lemma add_transition_edge_view:
  assumes "nodes_view B g = N" and "u < length N" and "w < length N"
  shows "nodes_view B (add_transition_edge B z u w k r g) = N"
    and "edges_view B (add_transition_edge B z u w k r g) = edges_view B g @ [transition_view z N (k, u, w, r)]"
proof -
  have lt: "u < g_num_vertices B g" "w < g_num_vertices B g" using assms by auto
  note nd = node_of_view [OF assms(1,2)] node_of_view [OF assms(1,3)]
  show "nodes_view B (add_transition_edge B z u w k r g) = N"
    and "edges_view B (add_transition_edge B z u w k r g) = edges_view B g @ [transition_view z N (k, u, w, r)]"
    using assms(1)
    by (simp_all add: add_transition_edge_def add_edge_with_view [OF lt] euclidean_position_distance
        costBetweenNodes_def nd)
qed

lemma add_door_edges_fold:
  assumes "nodes_view B g = N" and "u < length N" and "\<forall>w \<in> set ws. w < length N"
  shows "\<exists>g'. fold (\<lambda>neighbor (g, k).
             if np_type (g_node B g neighbor) \<noteq> ''transition'' then (g, k)
             else (add_transition_edge B z u neighbor k r g, k + 1)) ws (g, k) =
           (g', k + int (length (filter (\<lambda>w. np_type (N ! w) = ''transition'') ws))) \<and>
         nodes_view B g' = N \<and>
         edges_view B g' = edges_view B g @ map (transition_view z N)
           (numbered k (map (\<lambda>d. (u, d, r)) (filter (\<lambda>w. np_type (N ! w) = ''transition'') ws)))"
  using assms
proof (induction ws arbitrary: g k)
  case (Cons w ws)
  have nd: "g_node B g w = N ! w" using Cons.prems by auto
  show ?case
  proof (cases "np_type (N ! w) = ''transition''")
    case True
    let ?g = "add_transition_edge B z u w k r g"
    have v: "nodes_view B ?g = N" "edges_view B ?g = edges_view B g @ [transition_view z N (k, u, w, r)]"
      using add_transition_edge_view [OF Cons.prems(1,2)] Cons.prems(3) by simp_all
    from Cons.IH [OF v(1) Cons.prems(2), of "k + 1"] Cons.prems(3) True nd v(2) show ?thesis
      by (simp add: algebra_simps)
  next
    case False
    with Cons.IH [OF Cons.prems(1,2), of k] Cons.prems(3) nd show ?thesis by simp
  qed
qed simp

end

context boost_graph
begin

lemma adjacent_range:
  assumes "wf_graph B g" and "w \<in> set (g_adjacent_vertices B v g)"
  shows "w < g_num_vertices B g"
  using assms by (fastforce simp: adjacent_view wf_graph_def list_all_iff split: if_splits)

lemma adjacent_append:
  assumes "edges_view B g' = edges_view B g @ X" and "\<forall>x \<in> set X. \<not> incident v x"
  shows "g_adjacent_vertices B v g' = g_adjacent_vertices B v g"
proof -
  have "\<not> incident v x \<Longrightarrow> neighbours v x = []" for x by (cases x) simp
  with assms(2) have "neighbours v x = []" if "x \<in> set X" for x using that by blast
  then have "concat (map (neighbours v) X) = []" by (simp add: concat_eq_Nil_conv)
  with assms(1) show ?thesis by (simp add: adjacent_view)
qed

lemma add_door_edges_view:
  assumes "nodes_view B g' = N" and "edges_view B g' = edges_view B g @ X"
    and N: "N = nodes_view B g @ ns" and "wf_graph B g"
    and "\<forall>x \<in> set X. \<not> incident room x" and "u < length N"
  obtains g'' where "add_door_edges B z u room r (g', k) = (g'', k + int (length (doors B g room)))"
    and "nodes_view B g'' = N"
    and "edges_view B g'' = edges_view B g' @ map (transition_view z N)
           (numbered k (map (\<lambda>d. (u, d, r)) (doors B g room)))"
proof -
  let ?ws = "g_adjacent_vertices B room g"
  have ws: "g_adjacent_vertices B room g' = ?ws" by (rule adjacent_append [OF assms(2,5)])
  have lt: "\<forall>w \<in> set ?ws. w < length N" using adjacent_range [OF assms(4)] N by fastforce
  have "filter (\<lambda>w. np_type (N ! w) = ''transition'') ?ws = doors B g room"
    unfolding doors_def
    by (rule filter_cong [OF refl]) (use adjacent_range [OF assms(4)] N in \<open>simp add: nth_append\<close>)
  with add_door_edges_fold [OF assms(1,6) lt, of z r k] that show thesis
    unfolding add_door_edges_def by (auto simp: ws)
qed

lemma add_room_edge_view:
  assumes "nodes_view B g = N" and "u < length N" and "w < length N"
  obtains g' where "add_room_edge B u w (g, k) = (g', k + 1)" and "nodes_view B g' = N"
    and "edges_view B g' = edges_view B g @ [room_view (k, u, w)]"
proof -
  obtain e b g1 where a: "g_add_edge B u w g = ((e, b), g1)" by (metis prod.collapse)
  have lt: "u < g_num_vertices B g" "w < g_num_vertices B g" using assms by auto
  note E = add_edge_set_eprops_view [OF lt a]
  from that show thesis using E assms(1) by (simp add: add_room_edge_def a)
qed

lemma door_links_avoid_room:
  assumes "np_type (g_node B g room) \<noteq> ''transition''" and "room < n" and "n \<le> u"
    and "x \<in> set (map (transition_view z N) (numbered k (map (\<lambda>d. (u, d, r)) (doors B g room'))))"
  shows "\<not> incident room x"
proof -
  have d: "\<forall>d \<in> set ds. d \<noteq> room \<Longrightarrow>
      y \<in> set (map (transition_view z N) (numbered k (map (\<lambda>d. (u, d, r)) ds))) \<Longrightarrow> \<not> incident room y" for ds y k
    using assms(2,3) by (induction ds arbitrary: k) auto
  show ?thesis by (rule d [OF _ assms(4)]) (use assms(1) in \<open>auto simp: doors_def\<close>)
qed

lemma add_endpoint_view:
  assumes "room < g_num_vertices B g"
  obtains g' where "add_endpoint B i name pos room g = (g_num_vertices B g, g')"
    and "nodes_view B g' = nodes_view B g @
           [endpoint_props i name pos (np_floor (g_node B g room)) NodeProperties_init]"
    and "edges_view B g' = edges_view B g"
proof -
  obtain v g1 where a: "g_add_vertex B g = (v, g1)" by fastforce
  then have g1: "g1 = snd (g_add_vertex B g)" by simp
  have "nodes_view B g1 ! room = g_node B g room" "room < g_num_vertices B g1"
    using assms by (simp_all add: g1 add_vertex_view(2) nth_append)
  then have "g_node B g1 room = g_node B g room" by simp
  with that show thesis using add_vertex_set_node_view [OF a] by (simp add: add_endpoint_def a)
qed

text \<open>The edges between the new nodes and the doors, from the graph with the two nodes.\<close>

lemma link_phase_view:
  assumes "nodes_view B g4 = N" and "edges_view B g4 = edges_view B g" and N: "N = nodes_view B g @ [a, b]"
    and "wf_graph B g" and "sr < n" and "er < n"
    and "np_type (g_node B g sr) \<noteq> ''transition''" and "np_type (g_node B g er) \<noteq> ''transition''"
    and n: "n = g_num_vertices B g"
  obtains g' where "add_door_edges B z (Suc n) er re (add_door_edges B z n sr (np_id (g_node B g sr))
      (if sr = er then (add_transition_edge B z n (Suc n) k (np_id (g_node B g sr)) g4, k + 1) else (g4, k))) =
      (g', k + int (length (inserted_links B g sr er (\<lambda>_. np_id (g_node B g sr)) (\<lambda>_. re))))"
    and "nodes_view B g' = N"
    and "edges_view B g' = edges_view B g @ map (transition_view z N)
           (numbered k (inserted_links B g sr er (\<lambda>_. np_id (g_node B g sr)) (\<lambda>_. re)))"
proof -
  let ?rs = "np_id (g_node B g sr)"
  have ltN: "n < length N" "Suc n < length N" by (simp_all add: N n)
  let ?ls = "same_room_link sr er n ?rs"
  let ?g5 = "if sr = er then add_transition_edge B z n (Suc n) k ?rs g4 else g4"
  let ?X5 = "map (transition_view z N) (numbered k ?ls)" and ?k5 = "k + int (length ?ls)"
  have g5: "nodes_view B ?g5 = N" "edges_view B ?g5 = edges_view B g @ ?X5"
    using add_transition_edge_view [OF assms(1) ltN] assms(1,2) by (simp_all add: same_room_link_def)
  have x5: "\<forall>x \<in> set ?X5. \<not> incident sr x" "\<forall>x \<in> set ?X5. \<not> incident er x"
    using assms(5,6) by (auto simp: same_room_link_def)
  obtain g6 where g6: "add_door_edges B z n sr ?rs (?g5, ?k5) = (g6, ?k5 + int (length (doors B g sr)))"
    "nodes_view B g6 = N"
    "edges_view B g6 = edges_view B ?g5 @ map (transition_view z N)
       (numbered ?k5 (map (\<lambda>d. (n, d, ?rs)) (doors B g sr)))"
    by (rule add_door_edges_view [OF g5 N assms(4) x5(1) ltN(1)])
  let ?X6 = "?X5 @ map (transition_view z N) (numbered ?k5 (map (\<lambda>d. (n, d, ?rs)) (doors B g sr)))"
  let ?k6 = "?k5 + int (length (doors B g sr))"
  have e6: "edges_view B g6 = edges_view B g @ ?X6" using g6(3) g5(2) by simp
  have x6: "\<forall>x \<in> set ?X6. \<not> incident er x"
    using x5(2) door_links_avoid_room [OF assms(8,6) order.refl] unfolding set_append by blast
  obtain g7 where g7: "add_door_edges B z (Suc n) er re (g6, ?k6) = (g7, ?k6 + int (length (doors B g er)))"
    "nodes_view B g7 = N"
    "edges_view B g7 = edges_view B g6 @ map (transition_view z N)
       (numbered ?k6 (map (\<lambda>d. (Suc n, d, re)) (doors B g er)))"
    by (rule add_door_edges_view [OF g6(2) e6 N assms(4) x6 ltN(2)])
  have st: "(if sr = er then (add_transition_edge B z n (Suc n) k ?rs g4, k + 1) else (g4, k)) = (?g5, ?k5)"
    by (simp add: same_room_link_def)
  have run: "add_door_edges B z (Suc n) er re (add_door_edges B z n sr ?rs
      (if sr = er then (add_transition_edge B z n (Suc n) k ?rs g4, k + 1) else (g4, k))) =
      (g7, ?k6 + int (length (doors B g er)))"
    unfolding st g6(1) g7(1) by (rule refl)
  show thesis
    by (rule that [of g7])
      (simp_all only: run g7(2,3) e6, simp_all add: inserted_links_def numbered_append n add.assoc)
qed

lemma insertStartAndGoal_view:
  fixes p q :: Position and z :: real
  assumes "wf_graph B (tp_graph m)"
    and "sr < g_num_vertices B (tp_graph m)" and "er < g_num_vertices B (tp_graph m)"
    and "np_type (g_node B (tp_graph m) sr) \<noteq> ''transition''"
    and "np_type (g_node B (tp_graph m) er) \<noteq> ''transition''"
  defines "g \<equiv> tp_graph m" and "n \<equiv> g_num_vertices B (tp_graph m)"
  defines "N \<equiv> nodes_view B g @ inserted_nodes B m sr er p q"
  shows "nodes_view B (insertStartAndGoal B m sr er p q z) = N"
    and "edges_view B (insertStartAndGoal B m sr er p q z) = edges_view B g @
           inserted_edges z N (getMaxEdgeId m + 1)
             (inserted_links B g sr er (\<lambda>_. np_id (g_node B g sr)) (\<lambda>_. np_id (g_node B g er)))
             [(n, sr), (Suc n, er)]"
proof -
  let ?k = "getMaxEdgeId m + 1" and ?rs = "np_id (g_node B g sr)" and ?re = "np_id (g_node B g er)"
  have ng: "g_num_vertices B g = n" by (simp add: n_def g_def)
  obtain g2 where g2: "add_endpoint B (getMaxNodeId m + 1) ''start'' p sr g = (n, g2)"
    "nodes_view B g2 = nodes_view B g @ [endpoint_props (getMaxNodeId m + 1) ''start'' p (np_floor (g_node B g sr)) NodeProperties_init]"
    "edges_view B g2 = edges_view B g"
    using add_endpoint_view [of sr g "getMaxNodeId m + 1" "''start''" p] assms(2) ng by (auto simp: g_def)
  have n2: "g_num_vertices B g2 = Suc n" using g2(2) length_nodes_view [of g2] by (simp add: ng)
  have "nodes_view B g2 ! er = g_node B g er" using g2(2) assms(3) by (simp add: nth_append g_def)
  then have er2: "g_node B g2 er = g_node B g er" "er < g_num_vertices B g2" using n2 assms(3) by (simp_all add: n_def)
  obtain g4 where g4: "add_endpoint B (getMaxNodeId m + 2) ''goal'' q er g2 = (Suc n, g4)"
    "nodes_view B g4 = N" "edges_view B g4 = edges_view B g"
    using add_endpoint_view [OF er2(2), of "getMaxNodeId m + 2" "''goal''" q] g2 er2(1) n2
    by (auto simp: N_def inserted_nodes_def g_def)
  note hyps = assms(1) [folded g_def] assms(2,3) [folded n_def] assms(4,5) [folded g_def] ng [symmetric]
  obtain g7 where g7: "add_door_edges B z (Suc n) er ?re (add_door_edges B z n sr ?rs
      (if sr = er then (add_transition_edge B z n (Suc n) ?k ?rs g4, ?k + 1) else (g4, ?k))) =
      (g7, ?k + int (length (inserted_links B g sr er (\<lambda>_. ?rs) (\<lambda>_. ?re))))"
    "nodes_view B g7 = N"
    "edges_view B g7 = edges_view B g @ map (transition_view z N)
       (numbered ?k (inserted_links B g sr er (\<lambda>_. ?rs) (\<lambda>_. ?re)))"
    by (rule link_phase_view [OF g4(2,3) meta_eq_to_obj_eq [OF N_def [unfolded inserted_nodes_def]] hyps])
  let ?k7 = "?k + int (length (inserted_links B g sr er (\<lambda>_. ?rs) (\<lambda>_. ?re)))"
  have ltN: "n < length N" "Suc n < length N" "sr < length N" "er < length N"
    using assms(2,3) by (simp_all add: N_def inserted_nodes_def n_def g_def)
  obtain g8 where g8: "add_room_edge B n sr (g7, ?k7) = (g8, ?k7 + 1)" "nodes_view B g8 = N"
    "edges_view B g8 = edges_view B g7 @ [room_view (?k7, n, sr)]"
    by (rule add_room_edge_view [OF g7(2) ltN(1,3)])
  obtain g9 where g9: "add_room_edge B (Suc n) er (g8, ?k7 + 1) = (g9, ?k7 + 1 + 1)" "nodes_view B g9 = N"
    "edges_view B g9 = edges_view B g8 @ [room_view (?k7 + 1, Suc n, er)]"
    by (rule add_room_edge_view [OF g8(2) ltN(2,4)])
  have "insertStartAndGoal B m sr er p q z = g9"
    unfolding insertStartAndGoal_def Let_def g_def [symmetric] g2(1) g4(1) prod.case
      g7(1) g8(1) g9(1) fst_conv by (rule refl)
  with g9 g8 g7 show "nodes_view B (insertStartAndGoal B m sr er p q z) = N"
    and "edges_view B (insertStartAndGoal B m sr er p q z) = edges_view B g @
           inserted_edges z N (getMaxEdgeId m + 1)
             (inserted_links B g sr er (\<lambda>_. np_id (g_node B g sr)) (\<lambda>_. np_id (g_node B g er)))
             [(n, sr), (Suc n, er)]"
    by (simp_all add: inserted_edges_def)
qed

end

section \<open>The pruned graph\<close>

text \<open>
  A transition with fewer than two enabled room edges is dropped without a look at the components.
  That is safe when it is a dead end: one enabled vertex, its room, reaches all its enabled
  neighbours.
\<close>

definition dead_end :: "('g, 'e) bgl \<Rightarrow> 'g \<Rightarrow> Vertex set \<Rightarrow> Vertex \<Rightarrow> bool" where
  "dead_end B g D v \<longleftrightarrow> list_ex (\<lambda>r. r \<notin> insert v D \<and>
       list_all (\<lambda>x. x \<in> insert v D \<or> x = r \<or> x \<in> set (g_adjacent_vertices B r g)) (g_adjacent_vertices B v g))
     (g_vertices B g)"

definition phase4_start ::
  "components_fn \<Rightarrow> ('g, 'e) bgl \<Rightarrow> 'g \<Rightarrow> Vertex set \<Rightarrow> Vertex \<Rightarrow> Vertex \<Rightarrow> Vertex set" where
  "phase4_start cc B g F s t = prune_unreachable cc B g s (prune_other_floors cc B g s t F)"

definition drops_dead_ends ::
  "components_fn \<Rightarrow> ('g, 'e) bgl \<Rightarrow> 'g \<Rightarrow> Vertex set \<Rightarrow> Vertex \<Rightarrow> Vertex \<Rightarrow> bool" where
  "drops_dead_ends cc B g F s t \<longleftrightarrow>
     list_all (\<lambda>(v, D). v \<in> D \<or> 2 \<le> num_room_edges B g v D \<or> dead_end B g D v)
       (dead_end_steps cc B g s t (prunable_transitions B g (phase4_start cc B g F s t))
          (phase4_start cc B g F s t))"

context boost_graph
begin

lemma links_adjacent: "(u, w) \<in> links (edge_ends B g) \<longleftrightarrow> w \<in> set (g_adjacent_vertices B u g)"
  by (auto simp: links_def edge_ends_def adjacent_view edges_view_def edge_view_of_def split: if_splits)

lemma links_enabled:
  "(u, w) \<in> links (enabled_ends B g D) \<longleftrightarrow> w \<in> set (g_adjacent_vertices B u g) \<and> u \<notin> D \<and> w \<notin> D"
  by (auto simp: links_adjacent [symmetric] links_def enabled_ends_def)

lemma linked_step:
  "linked B g D s y \<Longrightarrow> w \<in> set (g_adjacent_vertices B y g) \<Longrightarrow> y \<notin> D \<Longrightarrow> w \<notin> D \<Longrightarrow> linked B g D s w"
  unfolding linked_def by (metis links_enabled rtrancl_into_rtrancl)

lemma adjacent_sym: "w \<in> set (g_adjacent_vertices B u g) \<longleftrightarrow> u \<in> set (g_adjacent_vertices B w g)"
  unfolding links_adjacent [symmetric] by (auto simp: links_def)

lemma dead_end_bypass:
  assumes "linked B g D s t" and "s \<notin> insert v D" and "t \<noteq> v" and "dead_end B g D v"
  shows "linked B g (insert v D) s t"
proof -
  let ?D = "insert v D"
  from assms(4) obtain r where r: "r \<notin> ?D"
    and hub: "\<And>x. x \<in> set (g_adjacent_vertices B v g) \<Longrightarrow> x \<notin> ?D \<Longrightarrow> x = r \<or> x \<in> set (g_adjacent_vertices B r g)"
    unfolding dead_end_def list_ex_iff list_all_iff by blast
  have "linked B g ?D s (if t = v then r else t)"
    using assms(1) unfolding linked_def [of B g D]
  proof (induction rule: rtrancl_induct)
    case base
    show ?case using assms(2) by (simp add: linked_def)
  next
    case (step y w)
    have yw: "w \<in> set (g_adjacent_vertices B y g)" "y \<notin> D" "w \<notin> D" using step.hyps(2) by (auto simp: links_enabled)
    consider "y = v" "w = v" | "y \<noteq> v" "w \<noteq> v" | "y \<noteq> v" "w = v" | "y = v" "w \<noteq> v" by blast
    then show ?case
    proof cases
      case 3
      then have "y \<in> set (g_adjacent_vertices B v g)" using yw adjacent_sym by blast
      with hub 3 yw have "y = r \<or> r \<in> set (g_adjacent_vertices B y g)" using adjacent_sym by blast
      with 3 step.IH r yw show ?thesis by (auto intro: linked_step)
    next
      case 4
      then have "w = r \<or> w \<in> set (g_adjacent_vertices B r g)" using hub yw by blast
      with 4 step.IH r yw show ?thesis by (auto intro: linked_step)
    qed (use step.IH yw in \<open>auto intro: linked_step\<close>)
  qed
  with assms(3) show ?thesis by simp
qed

end

context pruning
begin

lemma pruning_keeps:
  assumes "s \<notin> F" and "t \<notin> F" and "linked B g F s t"
    and "np_name (g_node B g s) = ''start''" and "np_name (g_node B g t) = ''goal''"
  shows "s \<notin> prune_dead_ends cc B g s t (phase4_start cc B g F s t)"
    and "t \<notin> prune_dead_ends cc B g s t (phase4_start cc B g F s t)"
    and "drops_dead_ends cc B g F s t \<Longrightarrow>
      linked B g (prune_dead_ends cc B g s t (phase4_start cc B g F s t)) s t"
proof -
  let ?D = "phase4_start cc B g F s t" and ?vs = "prunable_transitions B g (phase4_start cc B g F s t)"
  have D: "s \<notin> ?D" "t \<notin> ?D" "linked B g ?D s t"
    using unreachable_keeps other_floors_keeps [OF assms(1-3)] unfolding phase4_start_def by blast+
  have vs: "s \<notin> set ?vs" "t \<notin> set ?vs" using assms(4,5) by (simp_all add: prunable_transitions_def)
  have p: "prune_dead_ends cc B g s t ?D = fold (prune_transition cc B g s t) ?vs ?D"
    by (simp add: prune_dead_ends_def prunable_transitions_def)
  show "s \<notin> prune_dead_ends cc B g s t ?D" and "t \<notin> prune_dead_ends cc B g s t ?D"
    using dead_ends_keep_endpoints [OF D(1,2) vs] by (simp_all add: p)
  assume ok: "drops_dead_ends cc B g F s t"
  show "linked B g (prune_dead_ends cc B g s t ?D) s t"
    unfolding p
  proof (rule dead_ends_keep_link [OF D(1,2) vs D(3)], clarify)
    fix v D'
    assume step: "(v, D') \<in> set (dead_end_steps cc B g s t ?vs ?D)" and v: "v \<notin> D'" "num_room_edges B g v D' < 2"
      and l: "linked B g D' s t"
    have "dead_end B g D' v" using ok step v by (fastforce simp: drops_dead_ends_def list_all_iff)
    moreover have "s \<notin> insert v D'" "t \<noteq> v"
      using dead_end_steps_avoid [OF D(1,2) vs step] by blast+
    ultimately show "linked B g (insert v D') s t" using dead_end_bypass [OF l] by blast
  qed
qed

end

section \<open>Properties\<close>

lemma numbered_bound: "(i, x) \<in> set (numbered k xs) \<Longrightarrow> k \<le> i"
  by (induction xs arbitrary: k) fastforce+

lemma transition_view_id: "map (\<lambda>(s, t, q). ep_id q) (map (transition_view z N) xs) = map fst xs"
  by (induction xs) (auto simp: transition_props_def)

lemma room_view_id: "map (\<lambda>(s, t, q). ep_id q) (map room_view xs) = map fst xs"
  by (induction xs) auto

lemma inserted_edges_ids:
  "map (\<lambda>(s, t, q). ep_id q) (inserted_edges z N k ls rs) = [k..k + int (length ls + length rs) - 1]"
proof -
  have "map fst (numbered k (ls @ rs)) = map fst (numbered k ls) @ map fst (numbered (k + int (length ls)) rs)" for ls rs :: "'b list"
    by (simp add: numbered_append)
  from this [of "map (\<lambda>_. ()) ls" "map (\<lambda>_. ()) rs"] show ?thesis
    unfolding inserted_edges_def map_append transition_view_id room_view_id fst_numbered by simp
qed

context boost_graph
begin

lemma inserted_ids_fresh:
  assumes "coherent B m"
  shows "\<forall>x \<in> set (nodes_view B (tp_graph m)). \<forall>y \<in> set (inserted_nodes B m sr er p q). np_id x < np_id y"
    and "\<forall>(_, _, x) \<in> set (edges_view B (tp_graph m)).
           \<forall>(_, _, y) \<in> set (inserted_edges z N (getMaxEdgeId m + 1) ls rs). ep_id x < ep_id y"
    and "distinct (map (\<lambda>(_, _, y). ep_id y) (inserted_edges z N (getMaxEdgeId m + 1) ls rs))"
proof -
  have mx: "\<forall>v < g_num_vertices B (tp_graph m). np_id (g_node B (tp_graph m) v) \<le> getMaxNodeId m"
    and mxe: "\<forall>e \<in> set (g_edges B (tp_graph m)). ep_id (g_eprops B (tp_graph m) e) \<le> getMaxEdgeId m"
    using assms unfolding coherent_def Let_def getMaxNodeId_def getMaxEdgeId_def by blast+
  show "\<forall>x \<in> set (nodes_view B (tp_graph m)). \<forall>y \<in> set (inserted_nodes B m sr er p q). np_id x < np_id y"
    using mx by (force simp: nodes_view_def inserted_nodes_def endpoint_props_def)
  have new: "getMaxEdgeId m < ep_id y"
    if y: "(a, b, y) \<in> set (inserted_edges z N (getMaxEdgeId m + 1) ls rs)" for a b y
  proof -
    have "ep_id y \<in> set (map (\<lambda>(s, t, q). ep_id q) (inserted_edges z N (getMaxEdgeId m + 1) ls rs))"
      using y by force
    then show ?thesis unfolding inserted_edges_ids by simp
  qed
  have old: "ep_id x \<le> getMaxEdgeId m" if "(a, b, x) \<in> set (edges_view B (tp_graph m))" for a b x
    using that mxe by (auto simp: edges_view_def edge_view_of_def)
  show "\<forall>(_, _, x) \<in> set (edges_view B (tp_graph m)).
      \<forall>(_, _, y) \<in> set (inserted_edges z N (getMaxEdgeId m + 1) ls rs). ep_id x < ep_id y"
    using old new by fastforce
  show "distinct (map (\<lambda>(_, _, y). ep_id y) (inserted_edges z N (getMaxEdgeId m + 1) ls rs))"
    unfolding inserted_edges_ids by simp
qed

end

text \<open>
  C20: For a map whose caches agree with its graph and two rooms of it, \<open>insertStartAndGoal\<close> returns
  the graph unchanged but for two new transition nodes \<open>start\<close> and \<open>goal\<close> on the floors of their
  rooms, with the two next node ids, and new edges with consecutive ids from the next free one:
  start to goal when the rooms are the same, start and goal to each transition next to their room,
  with distance and cost computed from the positions, and a room edge for each. No id collides.
\<close>

theorem insertStartAndGoal_correct:
  assumes "boost_graph B" and "coherent B m" and "wf_graph B (tp_graph m)"
    and "sr < g_num_vertices B (tp_graph m)" and "er < g_num_vertices B (tp_graph m)"
    and "np_type (g_node B (tp_graph m) sr) = ''room''" and "np_type (g_node B (tp_graph m) er) = ''room''"
  shows "let g = tp_graph m; n = g_num_vertices B g;
             N = nodes_view B g @ inserted_nodes B m sr er p q;
             E = inserted_edges z N (getMaxEdgeId m + 1)
                   (inserted_links B g sr er (\<lambda>_. np_id (g_node B g sr)) (\<lambda>_. np_id (g_node B g er)))
                   [(n, sr), (Suc n, er)]
         in nodes_view B (insertStartAndGoal B m sr er p q z) = N \<and>
            edges_view B (insertStartAndGoal B m sr er p q z) = edges_view B g @ E \<and>
            (\<forall>x \<in> set (nodes_view B g). \<forall>y \<in> set (inserted_nodes B m sr er p q). np_id x < np_id y) \<and>
            (\<forall>(_, _, x) \<in> set (edges_view B g). \<forall>(_, _, y) \<in> set E. ep_id x < ep_id y) \<and>
            distinct (map (\<lambda>(_, _, y). ep_id y) E)"
proof -
  have ty: "np_type (g_node B (tp_graph m) sr) \<noteq> ''transition''" "np_type (g_node B (tp_graph m) er) \<noteq> ''transition''"
    using assms(6,7) by simp_all
  show ?thesis
    unfolding Let_def
    using boost_graph.insertStartAndGoal_view [OF assms(1,3,4,5) ty]
      boost_graph.inserted_ids_fresh [OF assms(1,2)] by (intro conjI) blast+
qed

text \<open>A map with two rooms joined by a door and a cupboard behind a second door.\<close>

definition sample_node :: "int \<Rightarrow> string \<Rightarrow> string \<Rightarrow> real \<Rightarrow> real \<Rightarrow> NodeProperties" where
  "sample_node i name ty x y = NodeProperties_init\<lparr>np_id := i, np_name := name, np_type := ty,
     np_position := \<lparr>pos_x = x, pos_y = y, pos_z = 0\<rparr>, np_floor := Some [''EG'']\<rparr>"

definition sample_edge :: "int \<Rightarrow> EdgeProperties" where
  "sample_edge i = EdgeProperties_init\<lparr>ep_id := i, ep_type := ''room''\<rparr>"

definition flat_graph :: vgraph where
  "flat_graph =
     \<lparr>vg_nodes = [sample_node 1 ''R1'' ''room'' 0 0, sample_node 2 ''R2'' ''room'' 8 0,
        sample_node 3 ''D1'' ''transition'' 4 0, sample_node 4 ''D2'' ''transition'' 0 3],
      vg_edges = [(0, 2, sample_edge 1), (1, 2, sample_edge 2), (0, 3, sample_edge 3)]\<rparr>"

definition flat_map :: "vgraph TopologicalMap" where
  "flat_map = updateMaxIds vec_graph
     (buildLookupMaps vec_graph (TopologicalMap_init vec_graph\<lparr>tp_graph := flat_graph\<rparr>))"

definition flat_query :: vgraph where
  "flat_query = insertStartAndGoal vec_graph flat_map 0 1 Position_init
     (Position_init\<lparr>pos_x := 8\<rparr>) 1"

lemma flat_map_graph [simp]: "tp_graph flat_map = flat_graph"
  by (simp add: flat_map_def)

lemma flat_map_wf: "wf_graph vec_graph flat_graph"
  by (simp add: wf_graph_def flat_graph_def)

lemma flat_map_coherent: "coherent vec_graph flat_map"
  unfolding flat_map_def by (rule rebuild_coherent)

lemma flat_rooms:
  "0 < g_num_vertices vec_graph (tp_graph flat_map)" "1 < g_num_vertices vec_graph (tp_graph flat_map)"
  "np_type (g_node vec_graph (tp_graph flat_map) 0) = ''room''"
  "np_type (g_node vec_graph (tp_graph flat_map) 1) = ''room''"
  by (simp_all add: flat_graph_def sample_node_def)

lemma flat_doors: "doors vec_graph flat_graph 0 = [2, 3]" "doors vec_graph flat_graph 1 = [2]"
  by (simp_all add: doors_def flat_graph_def sample_node_def g_adjacent_vertices_def vg_out_edges_def)

theorem insertStartAndGoal_correct_witness:
  "map np_name (nodes_view vec_graph flat_query) = [''R1'', ''R2'', ''D1'', ''D2'', ''start'', ''goal''] \<and>
   length (edges_view vec_graph flat_query) = 8"
proof -
  note spec = insertStartAndGoal_correct [OF vg.boost_graph_axioms flat_map_coherent _ flat_rooms,
      of Position_init "Position_init\<lparr>pos_x := 8\<rparr>" 1, unfolded Let_def flat_map_graph inserted_links_def flat_doors, OF flat_map_wf]
  show ?thesis
    unfolding flat_query_def using spec [THEN conjunct1] spec [THEN conjunct2, THEN conjunct1]
    by (simp add: inserted_nodes_def inserted_edges_def same_room_link_def endpoint_props_def
        flat_graph_def sample_node_def)
qed

context pruning
begin

lemma phases_grow: "F \<subseteq> prune_dead_ends cc B g s t (phase4_start cc B g F s t)"
proof -
  have step: "D \<subseteq> prune_transition cc B g s t v D" for v D by (auto simp: prune_transition_def)
  have "D \<subseteq> fold (prune_transition cc B g s t) vs D" for vs D
  proof (induction vs arbitrary: D)
    case (Cons v vs)
    from subset_trans [OF step Cons.IH] show ?case by simp
  qed simp
  then have "phase4_start cc B g F s t \<subseteq> prune_dead_ends cc B g s t (phase4_start cc B g F s t)"
    by (simp add: prune_dead_ends_def)
  moreover have "F \<subseteq> phase4_start cc B g F s t"
    by (auto simp: phase4_start_def prune_unreachable_def prune_other_floors_def Let_def)
  ultimately show ?thesis by blast
qed

lemma pruneGraph_cases:
  assumes "find_start_goal B g (g_vertices B g) (None, None) = (Some s, Some t)" and "s \<notin> F" and "t \<notin> F"
  obtains "\<not> linked B g F s t" and "pruneGraph cc B g F sr gr = F"
  | "linked B g F s t" and "pruneGraph cc B g F sr gr = F"
  | "linked B g F s t" and "pruneGraph cc B g F sr gr = prune_dead_ends cc B g s t (phase4_start cc B g F s t)"
proof -
  let ?P = "pruneGraph cc B g F sr gr" and ?Q = "prune_dead_ends cc B g s t (phase4_start cc B g F s t)"
  have "if linked B g F s t then ?P = F \<or> ?P = ?Q else ?P = F"
    using component_linked [OF endpoints assms(2,3)]
    by (simp add: pruneGraph_def assms(1) Let_def phase4_start_def)
  with that show thesis by argo
qed

lemma pruneGraph_spec:
  assumes "find_start_goal B g (g_vertices B g) (None, None) = (Some s, Some t)" and "s \<notin> F" and "t \<notin> F"
  shows "F \<subseteq> pruneGraph cc B g F sr gr \<and> s \<notin> pruneGraph cc B g F sr gr \<and> t \<notin> pruneGraph cc B g F sr gr"
    and "\<not> linked B g F s t \<Longrightarrow> pruneGraph cc B g F sr gr = F"
    and "linked B g F s t \<Longrightarrow> drops_dead_ends cc B g F s t \<Longrightarrow> linked B g (pruneGraph cc B g F sr gr) s t"
proof -
  have "np_name (g_node B g s) = ''start''" "np_name (g_node B g t) = ''goal''"
    using find_start_goal_names [OF assms(1), of "\<lambda>_. True"] by simp_all
  note keeps = pruning_keeps [OF assms(2,3) _ this]
  show "F \<subseteq> pruneGraph cc B g F sr gr \<and> s \<notin> pruneGraph cc B g F sr gr \<and> t \<notin> pruneGraph cc B g F sr gr"
    by (rule pruneGraph_cases [OF assms, of sr gr]) (use assms keeps phases_grow in auto)
  show "pruneGraph cc B g F sr gr = F" if "\<not> linked B g F s t"
    by (rule pruneGraph_cases [OF assms, of sr gr]) (use that in auto)
  show "linked B g (pruneGraph cc B g F sr gr) s t" if "linked B g F s t" "drops_dead_ends cc B g F s t"
    by (rule pruneGraph_cases [OF assms, of sr gr]) (use that keeps in auto)
qed

end

lemma found_pruning:
  assumes "boost_graph B" and "components cc" and "wf_graph B g"
    and "find_start_goal B g (g_vertices B g) (None, None) = (Some s, Some t)"
  shows "pruning B cc g s t"
proof -
  have "s < g_num_vertices B g" "t < g_num_vertices B g"
    using find_start_goal_names [OF assms(4), of "\<lambda>v. v < g_num_vertices B g"] by simp_all
  with assms(1-3) show ?thesis by (simp add: pruning_def pruning_axioms_def)
qed

text \<open>
  With the start and goal nodes found and not among the floor vertices, \<open>pruneGraph\<close> returns a
  superset of the floor vertices that contains neither of the two; when no path joins them outside
  the floor vertices it returns the floor vertices alone.
\<close>

theorem pruneGraph_keeps_endpoints:
  assumes "boost_graph B" and "components cc" and "wf_graph B g"
    and "find_start_goal B g (g_vertices B g) (None, None) = (Some s, Some t)"
    and "s \<notin> floor_vertices" and "t \<notin> floor_vertices"
  shows "floor_vertices \<subseteq> pruneGraph cc B g floor_vertices sr gr \<and>
         s \<notin> pruneGraph cc B g floor_vertices sr gr \<and> t \<notin> pruneGraph cc B g floor_vertices sr gr \<and>
         (\<not> linked B g floor_vertices s t \<longrightarrow> pruneGraph cc B g floor_vertices sr gr = floor_vertices)"
  using pruning.pruneGraph_spec [OF found_pruning [OF assms(1-4)] assms(4-6)] by blast

text \<open>
  C21: pruning does not lose the route. When a path of enabled vertices joins start and goal, and
  every transition that is dropped for having fewer than two room edges is a dead end when it is
  dropped, a path joins them after pruning.
\<close>

theorem pruneGraph_keeps_route:
  assumes "boost_graph B" and "components cc" and "wf_graph B g"
    and "find_start_goal B g (g_vertices B g) (None, None) = (Some s, Some t)"
    and "s \<notin> floor_vertices" and "t \<notin> floor_vertices"
    and "linked B g floor_vertices s t" and "drops_dead_ends cc B g floor_vertices s t"
  shows "linked B g (pruneGraph cc B g floor_vertices sr gr) s t"
  using pruning.pruneGraph_spec(3) [OF found_pruning [OF assms(1-4)] assms(4-8)] .

text \<open>The sample query, evaluated.\<close>

lemma flat_query_shape:
  obtains q\<^sub>4 q\<^sub>5 q\<^sub>6 q\<^sub>7 q\<^sub>8 where "vg_edges flat_query =
     [(0, 2, sample_edge 1), (1, 2, sample_edge 2), (0, 3, sample_edge 3), (4, 2, q\<^sub>4), (4, 3, q\<^sub>5),
      (5, 2, q\<^sub>6), (4, 0, q\<^sub>7), (5, 1, q\<^sub>8)]"
    and "ep_type q\<^sub>4 = ''transition''" "ep_type q\<^sub>5 = ''transition''" "ep_type q\<^sub>6 = ''transition''"
      "ep_type q\<^sub>7 = ''room''" "ep_type q\<^sub>8 = ''room''"
    and "list_all (\<lambda>q. ep_planned_cost q = Fin (-1) \<and> (\<exists>r. ep_estimated_cost q = Fin r) \<and> ep_path q = None)
      [q\<^sub>4, q\<^sub>5, q\<^sub>6, q\<^sub>7, q\<^sub>8]"
proof -
  have ty: "np_type (g_node vec_graph (tp_graph flat_map) 0) \<noteq> ''transition''"
    "np_type (g_node vec_graph (tp_graph flat_map) 1) \<noteq> ''transition''"
    using flat_rooms(3,4) by simp_all
  note spec = vg.insertStartAndGoal_view(2) [OF _ flat_rooms(1,2) ty,
      of Position_init "Position_init\<lparr>pos_x := 8\<rparr>" 1, unfolded flat_map_graph inserted_links_def flat_doors,
      OF flat_map_wf, folded flat_query_def]
  have edges: "vg_edges flat_graph = [(0, 2, sample_edge 1), (1, 2, sample_edge 2), (0, 3, sample_edge 3)]"
    "length (vg_nodes flat_graph) = 4"
    by (simp_all add: flat_graph_def)
  let ?N = "vg_nodes flat_graph @ inserted_nodes vec_graph flat_map 0 1 Position_init (Position_init\<lparr>pos_x := 8\<rparr>)"
  let ?k = "getMaxEdgeId flat_map + 1"
  let ?t = "\<lambda>i u w r. snd (snd (transition_view 1 ?N (?k + i, u, w, r)))"
  let ?r = "\<lambda>i. EdgeProperties_init\<lparr>ep_id := ?k + i, ep_type := ''room''\<rparr>"
  have "vg_edges flat_query = [(0, 2, sample_edge 1), (1, 2, sample_edge 2), (0, 3, sample_edge 3),
      (4, 2, ?t 0 4 2 1), (4, 3, ?t 1 4 3 1), (5, 2, ?t 2 5 2 2), (4, 0, ?r 3), (5, 1, ?r 4)]"
    using spec by (simp add: edges inserted_edges_def same_room_link_def, simp add: flat_graph_def sample_node_def add.assoc)
  then show thesis by (rule that) (simp_all add: transition_props_def EdgeProperties_init_def)
qed

lemma flat_query_nodes:
  "map np_name (vg_nodes flat_query) = [''R1'', ''R2'', ''D1'', ''D2'', ''start'', ''goal'']"
  "map np_type (vg_nodes flat_query) =
     [''room'', ''room'', ''transition'', ''transition'', ''transition'', ''transition'']"
  "map np_floor (vg_nodes flat_query) = replicate 6 (Some [''EG''])"
proof -
  have ty: "np_type (g_node vec_graph (tp_graph flat_map) 0) \<noteq> ''transition''"
    "np_type (g_node vec_graph (tp_graph flat_map) 1) \<noteq> ''transition''"
    using flat_rooms(3,4) by simp_all
  note spec = vg.insertStartAndGoal_view(1) [OF _ flat_rooms(1,2) ty,
      of Position_init "Position_init\<lparr>pos_x := 8\<rparr>" 1, unfolded flat_map_graph,
      OF flat_map_wf, folded flat_query_def]
  show "map np_name (vg_nodes flat_query) = [''R1'', ''R2'', ''D1'', ''D2'', ''start'', ''goal'']"
    "map np_type (vg_nodes flat_query) =
     [''room'', ''room'', ''transition'', ''transition'', ''transition'', ''transition'']"
    "map np_floor (vg_nodes flat_query) = replicate 6 (Some [''EG''])"
    using spec by (simp_all add: inserted_nodes_def endpoint_props_def flat_graph_def sample_node_def
        numeral_nat)
qed

lemma flat_query_length: "length (vg_nodes flat_query) = 6"
  using arg_cong [OF flat_query_nodes(1), of length] by simp

lemma flat_query_node:
  assumes "v < 6"
  shows "np_name (vg_nodes flat_query ! v) = [''R1'', ''R2'', ''D1'', ''D2'', ''start'', ''goal''] ! v"
    "np_type (vg_nodes flat_query ! v) =
       [''room'', ''room'', ''transition'', ''transition'', ''transition'', ''transition''] ! v"
    "np_floor (vg_nodes flat_query ! v) = Some [''EG'']"
  using flat_query_nodes assms nth_map [of v "vg_nodes flat_query"] flat_query_length
  by (metis nth_replicate)+

lemma flat_vertices: "[0..<length (vg_nodes flat_query)] = [0, 1, 2, 3, 4, 5]"
  by (simp add: flat_query_length upt_rec)

lemma flat_found: "find_start_goal vec_graph flat_query (g_vertices vec_graph flat_query) (None, None) = (Some 4, Some 5)"
  by (simp add: flat_vertices flat_query_node)

lemma flat_query_wf: "wf_graph vec_graph flat_query"
  by (rule flat_query_shape) (simp add: wf_graph_def flat_query_length)

lemma flat_linked: "linked vec_graph flat_query {} 4 5"
proof (rule flat_query_shape)
  fix q\<^sub>4 q\<^sub>5 q\<^sub>6 q\<^sub>7 q\<^sub>8
  assume "vg_edges flat_query = [(0, 2, sample_edge 1), (1, 2, sample_edge 2), (0, 3, sample_edge 3),
      (4, 2, q\<^sub>4), (4, 3, q\<^sub>5), (5, 2, q\<^sub>6), (4, 0, q\<^sub>7), (5, 1, q\<^sub>8)]"
  then have "(4, 2) \<in> links (enabled_ends vec_graph flat_query {})"
    "(2, 5) \<in> links (enabled_ends vec_graph flat_query {})"
    by (simp_all add: links_def enabled_ends_def edge_ends_def)
  then show ?thesis unfolding linked_def by (meson rtrancl.intros)
qed

theorem pruneGraph_keeps_endpoints_witness:
  "4 \<notin> pruneGraph relabel_components vec_graph flat_query {} (Some 0) (Some 1) \<and>
   5 \<notin> pruneGraph relabel_components vec_graph flat_query {} (Some 0) (Some 1)"
  using pruneGraph_keeps_endpoints [OF vg.boost_graph_axioms rc.components_axioms flat_query_wf flat_found,
      of "{}" "Some 0" "Some 1"] by simp

lemma flat_drops: "drops_dead_ends relabel_components vec_graph flat_query {} 4 5"
proof (rule flat_query_shape)
  fix q\<^sub>4 q\<^sub>5 q\<^sub>6 q\<^sub>7 q\<^sub>8
  assume E: "vg_edges flat_query = [(0, 2, sample_edge 1), (1, 2, sample_edge 2), (0, 3, sample_edge 3),
      (4, 2, q\<^sub>4), (4, 3, q\<^sub>5), (5, 2, q\<^sub>6), (4, 0, q\<^sub>7), (5, 1, q\<^sub>8)]"
    and ty: "ep_type q\<^sub>4 = ''transition''" "ep_type q\<^sub>5 = ''transition''" "ep_type q\<^sub>6 = ''transition''"
      "ep_type q\<^sub>7 = ''room''" "ep_type q\<^sub>8 = ''room''"
  have ends: "edge_ends vec_graph flat_query = [(0, 2), (1, 2), (0, 3), (4, 2), (4, 3), (5, 2), (4, 0), (5, 1)]"
    using E by (simp add: edge_ends_def)
  have adj: "g_adjacent_vertices vec_graph 2 flat_query = [0, 1, 4, 5]"
    "g_adjacent_vertices vec_graph 3 flat_query = [0, 4]"
    "g_adjacent_vertices vec_graph 0 flat_query = [2, 3, 4]"
    using E by (simp_all add: g_adjacent_vertices_def vg_out_edges_def)
  have room: "num_room_edges vec_graph flat_query 2 {} = 2"
    using E ty by (simp add: num_room_edges_def adj vg_edge_def sample_edge_def)
  have floors: "prune_other_floors relabel_components vec_graph flat_query 4 5 {} = {}"
    by (simp add: prune_other_floors_def flat_vertices flat_query_node)
  have D: "phase4_start relabel_components vec_graph flat_query {} 4 5 = {}"
    by (simp add: phase4_start_def floors prune_unreachable_def filtered_components_def ends
        relabel_components_def flat_vertices)
  have vs: "prunable_transitions vec_graph flat_query {} = [2, 3]"
    by (simp add: prunable_transitions_def flat_vertices flat_query_node)
  have "prune_transition relabel_components vec_graph flat_query 4 5 2 {} = {}"
    by (simp add: prune_transition_def room filtered_components_def ends relabel_components_def
        flat_vertices flat_query_length)
  moreover have "dead_end vec_graph flat_query {} 3"
    by (simp add: dead_end_def adj flat_vertices)
  ultimately show ?thesis by (simp add: drops_dead_ends_def D vs room)
qed

theorem pruneGraph_keeps_route_witness:
  "linked vec_graph flat_query (pruneGraph relabel_components vec_graph flat_query {} (Some 0) (Some 1)) 4 5"
  using pruneGraph_keeps_route [OF vg.boost_graph_axioms rc.components_axioms flat_query_wf flat_found,
      of "{}"] flat_linked flat_drops by simp

interpretation fq: pruning vec_graph relabel_components flat_query 4 5
  by (rule found_pruning [OF vg.boost_graph_axioms rc.components_axioms flat_query_wf flat_found])

end
