(* ===== verification/Floor_Segmentation.thy ===== *)
theory Floor_Segmentation
  imports Graph_Utils
begin

text \<open>
  \<open>navbim_gpp_bim/floor_segmentation.hpp\<close>: a planned path is cut into one segment per floor, at
  the stair and ramp edges of the coarse path, and the segments are widened by a distance for
  smoothing. Indices are \<open>size_t\<close>; every subtraction is guarded in the code, so they are \<^typ>\<open>nat\<close>.
\<close>

section \<open>Segments\<close>

record FloorSegment =
  fs_floor_name :: string
  fs_start_coords :: waypoint
  fs_end_coords :: waypoint
  fs_start_index :: nat
  fs_end_index :: nat

definition coords_of :: "Position \<Rightarrow> waypoint" where
  "coords_of p = (pos_x p, pos_y p, pos_z p)"

definition is_vertical :: "EdgeProperties \<Rightarrow> bool" where
  "is_vertical q \<longleftrightarrow> ep_subtype q = Some ''stair'' \<or> ep_subtype q = Some ''ramp''"

text \<open>\<open>floor.value().at(0)\<close> throws on an empty list.\<close>

definition first_floor :: "NodeProperties \<Rightarrow> string result" where
  "first_floor node =
     (case np_floor node of
        None \<Rightarrow> Inr ''unknown''
      | Some [] \<Rightarrow> Inl Out_of_range
      | Some (f # fs) \<Rightarrow> Inr f)"

definition segment_step ::
  "('g, 'e) bgl \<Rightarrow> 'g \<Rightarrow> Vertex \<times> Vertex \<Rightarrow> FloorSegment list \<times> nat \<Rightarrow> (FloorSegment list \<times> nat) result" where
  "segment_step B g uv st =
     (case (uv, st) of ((current_vertex, next_vertex), (segments, current_segment)) \<Rightarrow>
        case g_edge B current_vertex next_vertex g of
          None \<Rightarrow> Inr (segments, current_segment)
        | Some e \<Rightarrow>
            if is_vertical (g_eprops B g e) then Inr (segments, length segments)
            else if current_segment = length segments
            then bind_result (first_floor (g_node B g current_vertex)) (\<lambda>floor_name.
              Inr (segments @ [\<lparr>fs_floor_name = floor_name,
                     fs_start_coords = coords_of (np_position (g_node B g current_vertex)),
                     fs_end_coords = coords_of (np_position (g_node B g next_vertex)),
                     fs_start_index = 0, fs_end_index = 0\<rparr>], current_segment))
            else Inr (butlast segments @
                   [(last segments)\<lparr>fs_end_coords := coords_of (np_position (g_node B g next_vertex))\<rparr>],
                 current_segment))"

definition waypoint_distance :: "waypoint \<Rightarrow> waypoint \<Rightarrow> real" where
  "waypoint_distance p q =
     (case (p, q) of ((x, y, z), (x', y', z')) \<Rightarrow> sqrt ((x - x') ^ 2 + (y - y') ^ 2 + (z - z') ^ 2))"

definition find_closest_index :: "pose_stamped list \<Rightarrow> waypoint \<Rightarrow> nat" where
  "find_closest_index poses coords =
     fst (fold (\<lambda>i (closest_idx, min_dist).
         let d = Fin (waypoint_distance (waypoint_of_pose (poses ! i)) coords)
         in if dlt d min_dist then (i, d) else (closest_idx, min_dist))
       [0..<length poses] (0, PosInf))"

definition segment_indices :: "pose_stamped list \<Rightarrow> nat \<Rightarrow> nat \<times> FloorSegment \<Rightarrow> FloorSegment" where
  "segment_indices poses n iseg =
     (case iseg of (seg_idx, segment) \<Rightarrow>
        segment\<lparr>fs_start_index := find_closest_index poses (fs_start_coords segment),
                fs_end_index := (if seg_idx = n - 1 then length poses - 1
                                 else find_closest_index poses (fs_end_coords segment))\<rparr>)"

definition path_pairs :: "'a list \<Rightarrow> ('a \<times> 'a) list" where
  "path_pairs vs = zip vs (tl vs)"

definition calculateFloorSegments ::
  "('g, 'e) bgl \<Rightarrow> Vertex list \<Rightarrow> 'g \<Rightarrow> path_msg \<Rightarrow> FloorSegment list result" where
  "calculateFloorSegments B coarse_path g path =
     (if length coarse_path < 2 \<or> path_poses path = [] then Inr []
      else bind_result (fold_result (segment_step B g) (path_pairs coarse_path) ([], 0)) (\<lambda>(segments, _).
        Inr (map (segment_indices (path_poses path) (length segments)) (enumerate 0 segments))))"

section \<open>Widening\<close>

definition planar_distance :: "pose_stamped \<Rightarrow> pose_stamped \<Rightarrow> real" where
  "planar_distance p q =
     sqrt ((pos_x (ps_position p) - pos_x (ps_position q)) ^ 2 +
           (pos_y (ps_position p) - pos_y (ps_position q)) ^ 2)"

text \<open>The loop over \<open>idx\<close> downwards from the start, and its result in \<open>start_index\<close>.\<close>

fun shift_start :: "pose_stamped list \<Rightarrow> real \<Rightarrow> nat \<Rightarrow> nat \<Rightarrow> nat \<Rightarrow> nat" where
  "shift_start poses d original_start start_index 0 =
     (if planar_distance (poses ! 0) (poses ! original_start) \<le> d then 0 else start_index)"
| "shift_start poses d original_start start_index (Suc idx) =
     (if planar_distance (poses ! Suc idx) (poses ! original_start) \<le> d
      then shift_start poses d original_start idx idx else start_index)"

function shift_end :: "pose_stamped list \<Rightarrow> real \<Rightarrow> nat \<Rightarrow> nat \<Rightarrow> nat \<Rightarrow> nat" where
  "shift_end poses d original_end end_index idx =
     (if idx < length poses
      then if planar_distance (poses ! idx) (poses ! original_end) \<le> d
           then shift_end poses d original_end (if idx + 1 < length poses then idx + 1 else idx) (idx + 1)
           else end_index
      else end_index)"
  by pat_completeness auto
termination by (relation "measure (\<lambda>(poses, d, oe, ei, idx). length poses - idx)") auto

declare shift_end.simps [simp del]

definition shift_segment :: "pose_stamped list \<Rightarrow> real \<Rightarrow> FloorSegment \<Rightarrow> FloorSegment" where
  "shift_segment poses d segment =
     segment\<lparr>fs_start_index :=
               (if 0 < fs_start_index segment
                then shift_start poses d (fs_start_index segment) (fs_start_index segment) (fs_start_index segment)
                else fs_start_index segment),
             fs_end_index :=
               shift_end poses d (fs_end_index segment) (fs_end_index segment) (fs_end_index segment)\<rparr>"

definition applySegmentShift :: "FloorSegment list \<Rightarrow> path_msg \<Rightarrow> real \<Rightarrow> FloorSegment list" where
  "applySegmentShift segments path shift_distance =
     map (shift_segment (path_poses path) shift_distance) segments"

section \<open>The closest waypoint\<close>

lemma find_closest_index_loop:
  assumes "k \<le> length poses" and "0 < k"
  shows "\<exists>i < k. fold (\<lambda>i (closest_idx, min_dist).
         let d = Fin (waypoint_distance (waypoint_of_pose (poses ! i)) coords)
         in if dlt d min_dist then (i, d) else (closest_idx, min_dist)) [0..<k] (0, PosInf) =
       (i, Fin (waypoint_distance (waypoint_of_pose (poses ! i)) coords)) \<and>
       (\<forall>j < k. waypoint_distance (waypoint_of_pose (poses ! i)) coords \<le>
                waypoint_distance (waypoint_of_pose (poses ! j)) coords) \<and>
       (\<forall>j < i. waypoint_distance (waypoint_of_pose (poses ! i)) coords <
                waypoint_distance (waypoint_of_pose (poses ! j)) coords)"
  using assms
proof (induction k)
  case (Suc k)
  show ?case
  proof (cases "k = 0")
    case True
    then show ?thesis by simp
  next
    case False
    let ?d = "\<lambda>i. waypoint_distance (waypoint_of_pose (poses ! i)) coords"
    from False Suc obtain i where i: "i < k" "fold (\<lambda>i (closest_idx, min_dist).
         let d = Fin (?d i) in if dlt d min_dist then (i, d) else (closest_idx, min_dist)) [0..<k] (0, PosInf) =
       (i, Fin (?d i))" "\<forall>j < k. ?d i \<le> ?d j" "\<forall>j < i. ?d i < ?d j"
      by auto
    show ?thesis
    proof (cases "?d k < ?d i")
      case True
      with i show ?thesis by (intro exI [of _ k]) (auto simp: less_Suc_eq Let_def)
    next
      case False
      with i show ?thesis by (intro exI [of _ i]) (auto simp: less_Suc_eq Let_def)
    qed
  qed
qed simp

lemma find_closest_index_min:
  assumes "poses \<noteq> []"
  shows "find_closest_index poses coords < length poses"
    and "j < length poses \<Longrightarrow>
      waypoint_distance (waypoint_of_pose (poses ! find_closest_index poses coords)) coords \<le>
      waypoint_distance (waypoint_of_pose (poses ! j)) coords"
    and "j < find_closest_index poses coords \<Longrightarrow>
      waypoint_distance (waypoint_of_pose (poses ! find_closest_index poses coords)) coords <
      waypoint_distance (waypoint_of_pose (poses ! j)) coords"
  using find_closest_index_loop [of "length poses" poses coords] assms
  unfolding find_closest_index_def by auto

section \<open>One segment per run of horizontal edges\<close>

text \<open>The maximal runs of elements that are not \<open>V\<close>.\<close>

function runs :: "('a \<Rightarrow> bool) \<Rightarrow> 'a list \<Rightarrow> 'a list list" where
  "runs V [] = []"
| "runs V (x # xs) =
     (if V x then runs V xs
      else (x # takeWhile (\<lambda>y. \<not> V y) xs) # runs V (dropWhile (\<lambda>y. \<not> V y) xs))"
  by pat_completeness auto
termination by (relation "measure (\<lambda>(V, xs). length xs)") (auto simp: length_dropWhile_le le_imp_less_Suc)

text \<open>The steps of the coarse path that are edges of the graph, and which of them are vertical.\<close>

definition known_steps :: "('g, 'e) bgl \<Rightarrow> 'g \<Rightarrow> Vertex list \<Rightarrow> (Vertex \<times> Vertex) list" where
  "known_steps B g vs = filter (\<lambda>(u, v). g_edge B u v g \<noteq> None) (path_pairs vs)"

definition vertical_step :: "('g, 'e) bgl \<Rightarrow> 'g \<Rightarrow> Vertex \<times> Vertex \<Rightarrow> bool" where
  "vertical_step B g uv =
     (case g_edge B (fst uv) (snd uv) g of None \<Rightarrow> False | Some e \<Rightarrow> is_vertical (g_eprops B g e))"

definition run_segment :: "('g, 'e) bgl \<Rightarrow> 'g \<Rightarrow> (Vertex \<times> Vertex) list \<Rightarrow> FloorSegment" where
  "run_segment B g r =
     \<lparr>fs_floor_name = (case np_floor (g_node B g (fst (hd r))) of Some (f # fs) \<Rightarrow> f | _ \<Rightarrow> ''unknown''),
      fs_start_coords = coords_of (np_position (g_node B g (fst (hd r)))),
      fs_end_coords = coords_of (np_position (g_node B g (snd (last r)))),
      fs_start_index = 0, fs_end_index = 0\<rparr>"

definition no_floor :: "('g, 'e) bgl \<Rightarrow> 'g \<Rightarrow> (Vertex \<times> Vertex) list \<Rightarrow> bool" where
  "no_floor B g r \<longleftrightarrow> np_floor (g_node B g (fst (hd r))) = Some []"

definition extend_segment :: "('g, 'e) bgl \<Rightarrow> 'g \<Rightarrow> (Vertex \<times> Vertex) list \<Rightarrow> FloorSegment \<Rightarrow> FloorSegment" where
  "extend_segment B g r s =
     (if r = [] then s else s\<lparr>fs_end_coords := coords_of (np_position (g_node B g (snd (last r))))\<rparr>)"

lemma extend_run: "extend_segment B g r (run_segment B g [x]) = run_segment B g (x # r)"
  by (simp add: extend_segment_def run_segment_def)

lemma extend_extend:
  "extend_segment B g r (s\<lparr>fs_end_coords := coords_of (np_position (g_node B g (snd x)))\<rparr>) = extend_segment B g (x # r) s"
  by (simp add: extend_segment_def)

lemma segment_step_unknown: "g_edge B u v g = None \<Longrightarrow> segment_step B g (u, v) st = Inr st"
  by (simp add: segment_step_def split: prod.split)

lemma segment_fold_known:
  "fold_result (segment_step B g) ps st =
   fold_result (segment_step B g) (filter (\<lambda>(u, v). g_edge B u v g \<noteq> None) ps) st"
proof (induction ps arbitrary: st)
  case (Cons p ps)
  then show ?case
    by (cases p; cases "segment_step B g p st") (auto simp: segment_step_unknown)
qed simp

lemma segment_step_known:
  assumes "g_edge B (fst x) (snd x) g \<noteq> None"
  shows "segment_step B g x (segs, cur) =
     (if vertical_step B g x then Inr (segs, length segs)
      else if cur = length segs
      then if no_floor B g [x] then Inl Out_of_range else Inr (segs @ [run_segment B g [x]], cur)
      else Inr (butlast segs @ [(last segs)\<lparr>fs_end_coords := coords_of (np_position (g_node B g (snd x)))\<rparr>], cur))"
  using assms
  by (cases x)
    (auto simp: segment_step_def vertical_step_def no_floor_def run_segment_def first_floor_def
      split: option.split list.split)

definition segments_of :: "(FloorSegment list \<times> nat) result \<Rightarrow> FloorSegment list result" where
  "segments_of r = bind_result r (\<lambda>(segs, _). Inr segs)"

lemma segments_of_bind: "segments_of (bind_result r f) = bind_result r (\<lambda>x. segments_of (f x))"
  by (cases r) (simp_all add: segments_of_def)

lemma segment_fold_runs:
  assumes "\<forall>x \<in> set K. g_edge B (fst x) (snd x) g \<noteq> None"
  shows "segments_of (fold_result (segment_step B g) K (segs, length segs)) =
      (let R = runs (vertical_step B g) K in
       if list_ex (no_floor B g) R then Inl Out_of_range else Inr (segs @ map (run_segment B g) R))"
    and "segs \<noteq> [] \<Longrightarrow> segments_of (fold_result (segment_step B g) K (segs, length segs - 1)) =
      (let R = runs (vertical_step B g) (dropWhile (\<lambda>x. \<not> vertical_step B g x) K) in
       if list_ex (no_floor B g) R then Inl Out_of_range
       else Inr (butlast segs @ extend_segment B g (takeWhile (\<lambda>x. \<not> vertical_step B g x) K) (last segs) #
                 map (run_segment B g) R))"
  using assms
proof (induction K arbitrary: segs)
  case Nil
  { case 1 show ?case by (simp add: segments_of_def) }
  { case 2 then show ?case by (simp add: segments_of_def extend_segment_def) }
next
  case (Cons x K)
  { case 1
    note step = segment_step_known [of B x g segs "length segs"]
    have ih: "segments_of (fold_result (segment_step B g) K (segs @ [run_segment B g [x]], length segs)) =
      (let R = runs (vertical_step B g) (dropWhile (\<lambda>x. \<not> vertical_step B g x) K) in
       if list_ex (no_floor B g) R then Inl Out_of_range
       else Inr (segs @ extend_segment B g (takeWhile (\<lambda>x. \<not> vertical_step B g x) K) (run_segment B g [x]) #
                 map (run_segment B g) R))"
      using Cons.IH(2) [of "segs @ [run_segment B g [x]]"] 1 by (simp add: Let_def)
    show ?case
      using 1 step Cons.IH(1) [of segs] ih
      by (simp add: segments_of_bind extend_run Let_def) (simp add: no_floor_def segments_of_def) }
  { case 2
    let ?s = "(last segs)\<lparr>fs_end_coords := coords_of (np_position (g_node B g (snd x)))\<rparr>"
    have ne: "length segs - 1 \<noteq> length segs" using 2(1) by (cases segs) auto
    note step = segment_step_known [of B x g segs "length segs - 1"]
    have ih: "segments_of (fold_result (segment_step B g) K (butlast segs @ [?s], length segs - 1)) =
      (let R = runs (vertical_step B g) (dropWhile (\<lambda>x. \<not> vertical_step B g x) K) in
       if list_ex (no_floor B g) R then Inl Out_of_range
       else Inr (butlast segs @ extend_segment B g (takeWhile (\<lambda>x. \<not> vertical_step B g x) K) ?s #
                 map (run_segment B g) R))"
      using Cons.IH(2) [of "butlast segs @ [?s]"] 2 by (simp add: Let_def)
    have vert: "segments_of (fold_result (segment_step B g) K (segs, length segs)) =
      (let R = runs (vertical_step B g) K in
       if list_ex (no_floor B g) R then Inl Out_of_range
       else Inr (butlast segs @ last segs # map (run_segment B g) R))"
    proof -
      have "segs @ ys = butlast segs @ last segs # ys" for ys
        using append_butlast_last_id [OF 2(1)] by (metis append.assoc append_Cons append_Nil)
      from this [symmetric] Cons.IH(1) [of segs] 2 show ?thesis by (simp only:) simp
    qed
    show ?case
      using 2 step ne vert ih by (simp add: segments_of_bind extend_extend Let_def) (simp add: extend_segment_def) }
qed

section \<open>The widened boundaries\<close>

lemma shift_start_spec:
  assumes "idx \<le> os" and "start_index = (if idx = os then os else idx)"
    and "\<forall>j. idx < j \<longrightarrow> j \<le> os \<longrightarrow> planar_distance (poses ! j) (poses ! os) \<le> d"
  shows "shift_start poses d os start_index idx \<le> os \<and>
    (\<forall>j. shift_start poses d os start_index idx < j \<longrightarrow> j \<le> os \<longrightarrow>
       planar_distance (poses ! j) (poses ! os) \<le> d) \<and>
    (shift_start poses d os start_index idx = 0 \<or>
     d < planar_distance (poses ! shift_start poses d os start_index idx) (poses ! os))"
  using assms
proof (induction idx arbitrary: start_index)
  case 0
  then show ?case by auto
next
  case (Suc idx)
  show ?case
  proof (cases "planar_distance (poses ! Suc idx) (poses ! os) \<le> d")
    case True
    with Suc.prems have "\<forall>j. idx < j \<longrightarrow> j \<le> os \<longrightarrow> planar_distance (poses ! j) (poses ! os) \<le> d"
      by (metis Suc_lessI)
    from Suc.IH [OF _ _ this, of idx] Suc.prems(1) True show ?thesis by simp
  next
    case False
    with Suc.prems show ?thesis by auto
  qed
qed

lemma shift_end_spec:
  assumes "oe \<le> idx" and "oe < length poses" and "idx \<le> length poses"
    and "end_index = (if idx = oe then oe else if idx < length poses then idx else idx - 1)"
    and "\<forall>j. oe \<le> j \<longrightarrow> j < idx \<longrightarrow> planar_distance (poses ! j) (poses ! oe) \<le> d"
  shows "let r = shift_end poses d oe end_index idx in
    oe \<le> r \<and> r < length poses \<and>
    (\<forall>j. oe \<le> j \<longrightarrow> j < r \<longrightarrow> planar_distance (poses ! j) (poses ! oe) \<le> d) \<and>
    (r = length poses - 1 \<or> d < planar_distance (poses ! r) (poses ! oe))"
  using assms
proof (induction poses d oe end_index idx rule: shift_end.induct)
  case (1 poses d oe end_index idx)
  show ?case
  proof (cases "idx < length poses \<and> planar_distance (poses ! idx) (poses ! oe) \<le> d")
    case True
    let ?e = "if idx + 1 < length poses then idx + 1 else idx"
    have near: "\<forall>j. oe \<le> j \<longrightarrow> j < idx + 1 \<longrightarrow> planar_distance (poses ! j) (poses ! oe) \<le> d"
      using "1.prems"(5) True by (auto simp: less_Suc_eq)
    have "let r = shift_end poses d oe ?e (idx + 1) in
      oe \<le> r \<and> r < length poses \<and>
      (\<forall>j. oe \<le> j \<longrightarrow> j < r \<longrightarrow> planar_distance (poses ! j) (poses ! oe) \<le> d) \<and>
      (r = length poses - 1 \<or> d < planar_distance (poses ! r) (poses ! oe))"
      by (rule "1.IH") (use True "1.prems" near in auto)
    with True show ?thesis by (simp add: shift_end.simps [of poses d oe end_index idx])
  next
    case False
    then have "shift_end poses d oe end_index idx = end_index"
      by (auto simp: shift_end.simps [of poses d oe end_index idx])
    with False "1.prems" show ?thesis by (auto simp: Let_def)
  qed
qed

section \<open>Properties\<close>

text \<open>
  C33: \<open>calculateFloorSegments\<close> returns one segment per maximal run of edges of the coarse path that
  are neither stairs nor ramps, in order, with the floor and the position of the run's first node
  and the position of its last. Its start index is the first waypoint closest to the start, its end
  index the first one closest to the end, and the last segment ends at the last waypoint. It throws
  \<open>std::out_of_range\<close> exactly when a run starts at a node with an empty list of floors.
\<close>

theorem calculateFloorSegments_correct:
  assumes "2 \<le> length coarse_path" and "path_poses path \<noteq> []"
  shows "let R = runs (vertical_step B g) (known_steps B g coarse_path);
             poses = path_poses path;
             closest = (\<lambda>i c. i < length poses \<and>
               (\<forall>j < length poses. waypoint_distance (waypoint_of_pose (poses ! i)) c \<le>
                   waypoint_distance (waypoint_of_pose (poses ! j)) c) \<and>
               (\<forall>j < i. waypoint_distance (waypoint_of_pose (poses ! i)) c <
                   waypoint_distance (waypoint_of_pose (poses ! j)) c))
         in if list_ex (no_floor B g) R
            then calculateFloorSegments B coarse_path g path = Inl Out_of_range
            else \<exists>segs. calculateFloorSegments B coarse_path g path = Inr segs \<and> length segs = length R \<and>
              (\<forall>i < length R.
                 fs_floor_name (segs ! i) = fs_floor_name (run_segment B g (R ! i)) \<and>
                 fs_start_coords (segs ! i) = coords_of (np_position (g_node B g (fst (hd (R ! i))))) \<and>
                 fs_end_coords (segs ! i) = coords_of (np_position (g_node B g (snd (last (R ! i))))) \<and>
                 closest (fs_start_index (segs ! i)) (fs_start_coords (segs ! i)) \<and>
                 (if i = length R - 1 then fs_end_index (segs ! i) = length poses - 1
                  else closest (fs_end_index (segs ! i)) (fs_end_coords (segs ! i))))"
proof -
  let ?R = "runs (vertical_step B g) (known_steps B g coarse_path)" and ?poses = "path_poses path"
  have "\<forall>x \<in> set (known_steps B g coarse_path). g_edge B (fst x) (snd x) g \<noteq> None"
    by (auto simp: known_steps_def)
  from segment_fold_runs(1) [OF this, of "[]"]
  have fold: "segments_of (fold_result (segment_step B g) (path_pairs coarse_path) ([], 0)) =
      (if list_ex (no_floor B g) ?R then Inl Out_of_range else Inr (map (run_segment B g) ?R))"
    by (simp add: segment_fold_known [of B g "path_pairs coarse_path"] known_steps_def Let_def)
  have calc: "calculateFloorSegments B coarse_path g path =
      bind_result (segments_of (fold_result (segment_step B g) (path_pairs coarse_path) ([], 0)))
        (\<lambda>segments. Inr (map (segment_indices ?poses (length segments)) (enumerate 0 segments)))"
    using assms by (cases "fold_result (segment_step B g) (path_pairs coarse_path) ([], 0)")
      (auto simp: calculateFloorSegments_def segments_of_def)
  note closest = find_closest_index_min [OF assms(2)]
  show ?thesis
    unfolding Let_def calc fold
    by (auto simp: segment_indices_def run_segment_def nth_enumerate_eq closest)
qed

text \<open>
  \<open>applySegmentShift\<close> only widens a segment and stays inside the path: it keeps floor and
  coordinates, moves the start back over waypoints within the distance, up to the first one beyond
  it or the path's start, and the end forward in the same way.
\<close>

theorem applySegmentShift_correct:
  assumes "list_all (\<lambda>s. fs_start_index s < length (path_poses path) \<and> fs_end_index s < length (path_poses path)) segments"
  shows "length (applySegmentShift segments path d) = length segments \<and>
    (\<forall>i < length segments.
       let s = segments ! i; s' = applySegmentShift segments path d ! i;
           near = (\<lambda>j k. planar_distance (path_poses path ! j) (path_poses path ! k) \<le> d)
       in fs_floor_name s' = fs_floor_name s \<and> fs_start_coords s' = fs_start_coords s \<and>
          fs_end_coords s' = fs_end_coords s \<and>
          fs_start_index s' \<le> fs_start_index s \<and>
          (\<forall>j. fs_start_index s' < j \<longrightarrow> j \<le> fs_start_index s \<longrightarrow> near j (fs_start_index s)) \<and>
          (fs_start_index s' = 0 \<or> \<not> near (fs_start_index s') (fs_start_index s)) \<and>
          fs_end_index s \<le> fs_end_index s' \<and> fs_end_index s' < length (path_poses path) \<and>
          (\<forall>j. fs_end_index s \<le> j \<longrightarrow> j < fs_end_index s' \<longrightarrow> near j (fs_end_index s)) \<and>
          (fs_end_index s' = length (path_poses path) - 1 \<or> \<not> near (fs_end_index s') (fs_end_index s)))"
proof -
  have widen: "let s' = shift_segment (path_poses path) d s;
          near = (\<lambda>j k. planar_distance (path_poses path ! j) (path_poses path ! k) \<le> d)
       in fs_floor_name s' = fs_floor_name s \<and> fs_start_coords s' = fs_start_coords s \<and>
          fs_end_coords s' = fs_end_coords s \<and>
          fs_start_index s' \<le> fs_start_index s \<and>
          (\<forall>j. fs_start_index s' < j \<longrightarrow> j \<le> fs_start_index s \<longrightarrow> near j (fs_start_index s)) \<and>
          (fs_start_index s' = 0 \<or> \<not> near (fs_start_index s') (fs_start_index s)) \<and>
          fs_end_index s \<le> fs_end_index s' \<and> fs_end_index s' < length (path_poses path) \<and>
          (\<forall>j. fs_end_index s \<le> j \<longrightarrow> j < fs_end_index s' \<longrightarrow> near j (fs_end_index s)) \<and>
          (fs_end_index s' = length (path_poses path) - 1 \<or> \<not> near (fs_end_index s') (fs_end_index s))"
    if s: "fs_end_index s < length (path_poses path)" for s
    using shift_start_spec [of "fs_start_index s" "fs_start_index s" "fs_start_index s" "path_poses path" d]
      shift_end_spec [of "fs_end_index s" "fs_end_index s" "path_poses path" "fs_end_index s" d] s
    by (simp add: shift_segment_def Let_def not_le)
  show ?thesis
    using assms widen by (simp add: applySegmentShift_def list_all_length)
qed

text \<open>Two floors joined by a stair.\<close>

definition stair_graph :: vgraph where
  "stair_graph =
     \<lparr>vg_nodes = [sample_node 1 ''start'' ''transition'' 0 0, sample_node 2 ''S1'' ''transition'' 2 0,
        (sample_node 3 ''S2'' ''transition'' 4 0)\<lparr>np_floor := Some [''OG'']\<rparr>,
        (sample_node 4 ''goal'' ''transition'' 6 0)\<lparr>np_floor := Some [''OG'']\<rparr>],
      vg_edges = [(0, 1, EdgeProperties_init), (1, 2, EdgeProperties_init\<lparr>ep_subtype := Some ''stair''\<rparr>),
        (2, 3, EdgeProperties_init)]\<rparr>"

definition stair_path :: path_msg where
  "stair_path = \<lparr>path_frame_id = ''ifc'', path_poses = map (pose_of_waypoint ''ifc'')
     [(0, 0, 0), (2, 0, 0), (4, 0, 0), (6, 0, 0)]\<rparr>"

lemma stair_runs:
  "runs (vertical_step vec_graph stair_graph) (known_steps vec_graph stair_graph [0, 1, 2, 3]) = [[(0, 1)], [(2, 3)]]"
  by (simp add: known_steps_def path_pairs_def vertical_step_def stair_graph_def vg_edge_def is_vertical_def
      EdgeProperties_init_def)

lemma stair_floors: "\<not> list_ex (no_floor vec_graph stair_graph) [[(0, 1)], [(2, 3)]]"
  by (simp add: no_floor_def stair_graph_def sample_node_def)

theorem calculateFloorSegments_correct_witness:
  "\<exists>segs. calculateFloorSegments vec_graph [0, 1, 2, 3] stair_graph stair_path = Inr segs \<and> length segs = 2 \<and>
     fs_floor_name (segs ! 0) = ''EG'' \<and> fs_floor_name (segs ! 1) = ''OG'' \<and> fs_end_index (segs ! 1) = 3"
proof -
  have path: "path_poses stair_path \<noteq> []" "length (path_poses stair_path) = 4" by (simp_all add: stair_path_def)
  let ?R = "[[(0, 1)], [(2, 3)]] :: (Vertex \<times> Vertex) list list"
  have "2 \<le> length [0, 1, 2, 3 :: Vertex]" by simp
  from calculateFloorSegments_correct [OF this path(1), of vec_graph stair_graph,
      unfolded stair_runs Let_def if_not_P [OF stair_floors]]
  obtain segs where S: "calculateFloorSegments vec_graph [0, 1, 2, 3] stair_graph stair_path = Inr segs"
    "length segs = length ?R" and seg: "\<And>i. i < length ?R \<Longrightarrow>
      fs_floor_name (segs ! i) = fs_floor_name (run_segment vec_graph stair_graph (?R ! i)) \<and>
      (i = length ?R - 1 \<longrightarrow> fs_end_index (segs ! i) = length (path_poses stair_path) - 1)"
    by metis
  from seg [of 0] seg [of 1] S path(2) show ?thesis
    by (intro exI [of _ segs]) (simp add: run_segment_def stair_graph_def sample_node_def)
qed

theorem applySegmentShift_correct_witness:
  "fs_start_index (applySegmentShift [\<lparr>fs_floor_name = ''OG'', fs_start_coords = (4, 0, 0), fs_end_coords = (6, 0, 0),
      fs_start_index = 2, fs_end_index = 3\<rparr>] stair_path (1 / 5) ! 0) \<le> 2"
proof -
  let ?s = "\<lparr>fs_floor_name = ''OG'', fs_start_coords = (4, 0, 0), fs_end_coords = (6, 0, 0),
      fs_start_index = 2, fs_end_index = 3\<rparr> :: FloorSegment"
  have "list_all (\<lambda>s. fs_start_index s < length (path_poses stair_path) \<and>
      fs_end_index s < length (path_poses stair_path)) [?s]"
    by (simp add: stair_path_def)
  from applySegmentShift_correct [OF this, of "1 / 5"] show ?thesis by (simp add: Let_def)
qed

end
