(* ===== verification/Augmented_Graph.thy ===== *)
theory Augmented_Graph
  imports Graph_Utils
begin

text \<open>
  \<open>navbim_gpp_bim/augmented_graph_view.cpp\<close> and its header: start and goal as virtual nodes
  (\<open>createVirtualNodes\<close>), their temporary insertion into the shared map
  (\<open>materializeGraphInPlace\<close>) and its reversal by the destructor of
  \<open>ScopedGraphMaterialization\<close>.
\<close>

section \<open>Virtual nodes\<close>

record VirtualEdge =
  ve_edge_id :: int
  ve_source :: Vertex
  ve_target :: Vertex
  ve_properties :: EdgeProperties

text \<open>
  \<open>vertex_to_props\<close> holds pointers to the two properties of the same object; the model keeps what
  they point to.
\<close>

record VirtualNodes =
  vn_start_vertex :: Vertex
  vn_goal_vertex :: Vertex
  vn_start_props :: NodeProperties
  vn_goal_props :: NodeProperties
  vn_edges :: "VirtualEdge list"
  vn_vertex_to_props :: "Vertex \<rightharpoonup> NodeProperties"
  vn_out_edges_map :: "Vertex \<rightharpoonup> VirtualEdge list"
  vn_in_edges_map :: "Vertex \<rightharpoonup> VirtualEdge list"

definition push_edge :: "Vertex \<Rightarrow> VirtualEdge \<Rightarrow> (Vertex \<rightharpoonup> VirtualEdge list) \<Rightarrow> Vertex \<rightharpoonup> VirtualEdge list" where
  "push_edge v e m = m(v \<mapsto> (case m v of None \<Rightarrow> [] | Some es \<Rightarrow> es) @ [e])"

definition virtual_initialize :: "VirtualNodes \<Rightarrow> VirtualNodes" where
  "virtual_initialize vn =
     fold (\<lambda>edge vn. vn\<lparr>vn_out_edges_map := push_edge (ve_source edge) edge (vn_out_edges_map vn),
                        vn_in_edges_map := push_edge (ve_target edge) edge (vn_in_edges_map vn)\<rparr>)
       (vn_edges vn)
       (vn\<lparr>vn_vertex_to_props := (vn_vertex_to_props vn)
             (vn_start_vertex vn \<mapsto> vn_start_props vn, vn_goal_vertex vn \<mapsto> vn_goal_props vn)\<rparr>)"

definition isVirtual :: "VirtualNodes \<Rightarrow> Vertex \<Rightarrow> bool" where
  "isVirtual vn v \<longleftrightarrow> v = vn_start_vertex vn \<or> v = vn_goal_vertex vn"

definition make_edge_props ::
  "real \<Rightarrow> int \<Rightarrow> int \<Rightarrow> NodeProperties \<Rightarrow> NodeProperties \<Rightarrow> EdgeProperties" where
  "make_edge_props penalize_z_movement edge_id room_id props1 props2 =
     (let dx = pos_x (np_position props1) - pos_x (np_position props2);
          dy = pos_y (np_position props1) - pos_y (np_position props2);
          dz = pos_z (np_position props1) - pos_z (np_position props2);
          dz_penalized = dz * penalize_z_movement
      in EdgeProperties_init\<lparr>ep_id := edge_id, ep_type := ''transition'', ep_room_id := Some room_id,
           ep_estimated_distance := Fin (sqrt (dx * dx + dy * dy + dz * dz)),
           ep_estimated_cost := Fin (sqrt (dx * dx + dy * dy + dz_penalized * dz_penalized)),
           ep_planned_distance := Fin (-1), ep_planned_cost := Fin (-1)\<rparr>)"

text \<open>The room id of the first edge from the room to the neighbour, or the room's own id.\<close>

definition edge_room_id :: "('g, 'e) bgl \<Rightarrow> 'g \<Rightarrow> Vertex \<Rightarrow> Vertex \<Rightarrow> int" where
  "edge_room_id B g room neighbor =
     (case find (\<lambda>(e, w). w = neighbor) (g_out_edges B room g) of
        Some (e, w) \<Rightarrow> (case ep_room_id (g_eprops B g e) of Some r \<Rightarrow> r | None \<Rightarrow> np_id (g_node B g room))
      | None \<Rightarrow> np_id (g_node B g room))"

definition virtual_door_edges ::
  "('g, 'e) bgl \<Rightarrow> 'g \<Rightarrow> real \<Rightarrow> Vertex \<Rightarrow> NodeProperties \<Rightarrow> Vertex \<Rightarrow>
     VirtualEdge list \<times> int \<Rightarrow> VirtualEdge list \<times> int" where
  "virtual_door_edges B g z vertex props room st =
     fold (\<lambda>neighbor (edges, next_edge_id).
         if np_type (g_node B g neighbor) \<noteq> ''transition'' then (edges, next_edge_id)
         else (edges @ [\<lparr>ve_edge_id = next_edge_id, ve_source = vertex, ve_target = neighbor,
                  ve_properties = make_edge_props z next_edge_id (edge_room_id B g room neighbor)
                    props (g_node B g neighbor)\<rparr>], next_edge_id + 1))
       (g_adjacent_vertices B room g) st"

definition virtual_room_edge ::
  "Vertex \<Rightarrow> Vertex \<Rightarrow> VirtualEdge list \<times> int \<Rightarrow> VirtualEdge list \<times> int" where
  "virtual_room_edge vertex room st =
     (case st of (edges, next_edge_id) \<Rightarrow>
        (edges @ [\<lparr>ve_edge_id = next_edge_id, ve_source = vertex, ve_target = room,
           ve_properties = EdgeProperties_init\<lparr>ep_id := next_edge_id, ep_type := ''room''\<rparr>\<rparr>],
         next_edge_id + 1))"

definition createVirtualNodes ::
  "('g, 'e) bgl \<Rightarrow> 'g TopologicalMap \<Rightarrow> Vertex \<Rightarrow> Vertex \<Rightarrow> Position \<Rightarrow> Position \<Rightarrow> real \<Rightarrow> VirtualNodes" where
  "createVirtualNodes B topological_map start_room end_room start_coords end_coords z =
     (let g = tp_graph topological_map;
          num_vertices = g_num_vertices B g;
          START_ID = getMaxNodeId topological_map + 1;
          GOAL_ID = getMaxNodeId topological_map + 2;
          next_edge_id = getMaxEdgeId topological_map + 1;
          start_room_id = np_id (g_node B g start_room);
          start_props = endpoint_props START_ID ''start'' start_coords (np_floor (g_node B g start_room))
            NodeProperties_init;
          goal_props = endpoint_props GOAL_ID ''goal'' end_coords (np_floor (g_node B g end_room))
            NodeProperties_init;
          st = (if start_room = end_room
                then ([\<lparr>ve_edge_id = next_edge_id, ve_source = num_vertices, ve_target = num_vertices + 1,
                        ve_properties = make_edge_props z next_edge_id start_room_id start_props goal_props\<rparr>],
                      next_edge_id + 1)
                else ([], next_edge_id));
          st = virtual_door_edges B g z num_vertices start_props start_room st;
          st = virtual_door_edges B g z (num_vertices + 1) goal_props end_room st;
          st = virtual_room_edge num_vertices start_room st;
          st = virtual_room_edge (num_vertices + 1) end_room st
      in virtual_initialize
           \<lparr>vn_start_vertex = num_vertices, vn_goal_vertex = num_vertices + 1,
            vn_start_props = start_props, vn_goal_props = goal_props, vn_edges = fst st,
            vn_vertex_to_props = Map.empty, vn_out_edges_map = Map.empty, vn_in_edges_map = Map.empty\<rparr>)"

section \<open>Materialisation\<close>

record MaterializedNodes =
  mn_start_vertex :: Vertex
  mn_goal_vertex :: Vertex

definition stale :: "NodeProperties \<Rightarrow> bool" where
  "stale node \<longleftrightarrow> np_name node = ''start'' \<or> np_name node = ''goal''"

definition drop_vertex :: "('g, 'e) bgl \<Rightarrow> Vertex \<Rightarrow> 'g \<Rightarrow> 'g" where
  "drop_vertex B v g = g_remove_vertex B v (g_clear_vertex B v g)"

text \<open>
  The search for left-over start and goal nodes, at iterator position \<open>i\<close>. After a removal the
  iterator is set to the first vertex and \<open>continue\<close> advances it, so the scan goes on at index 1.
\<close>

partial_function (option) remove_stale :: "('g, 'e) bgl \<Rightarrow> nat \<Rightarrow> 'g \<Rightarrow> 'g option" where
  "remove_stale B i g =
     (if i = g_num_vertices B g then Some g
      else if stale (g_node B g i)
      then let g' = drop_vertex B i g
           in if g_num_vertices B g' = 0 then Some g' else remove_stale B 1 g'
      else remove_stale B (i + 1) g)"

definition real_vertex :: "VirtualNodes \<Rightarrow> Vertex \<Rightarrow> Vertex \<Rightarrow> Vertex \<Rightarrow> Vertex" where
  "real_vertex vn start_v goal_v v =
     (if v = vn_start_vertex vn then start_v else if v = vn_goal_vertex vn then goal_v else v)"

definition materializeGraphInPlace ::
  "('g, 'e) bgl \<Rightarrow> 'g \<Rightarrow> VirtualNodes \<Rightarrow> (MaterializedNodes \<times> 'g) option" where
  "materializeGraphInPlace B g vn =
     (case remove_stale B 0 g of
        None \<Rightarrow> None
      | Some g0 \<Rightarrow>
          (let (start_v, g1) = g_add_vertex B g0;
               g2 = g_set_node B start_v (vn_start_props vn) g1;
               (goal_v, g3) = g_add_vertex B g2;
               g4 = g_set_node B goal_v (vn_goal_props vn) g3;
               g5 = fold (\<lambda>vedge. add_edge_with B
                        (real_vertex vn start_v goal_v (ve_source vedge))
                        (real_vertex vn start_v goal_v (ve_target vedge))
                        (\<lambda>_. ve_properties vedge)) (vn_edges vn) g4
           in Some (\<lparr>mn_start_vertex = start_v, mn_goal_vertex = goal_v\<rparr>, g5)))"

text \<open>The destructor: the goal vertex was created last and is removed first.\<close>

definition scoped_cleanup :: "('g, 'e) bgl \<Rightarrow> MaterializedNodes \<Rightarrow> 'g \<Rightarrow> 'g" where
  "scoped_cleanup B nodes g =
     drop_vertex B (mn_start_vertex nodes) (drop_vertex B (mn_goal_vertex nodes) g)"

section \<open>The virtual edges\<close>

definition ve_view :: "VirtualEdge \<Rightarrow> edge_view" where
  "ve_view e = (ve_source e, ve_target e, ve_properties e)"

lemma make_edge_props_transition:
  "make_edge_props z k r p q =
     transition_props k r (position_distance (np_position p) (np_position q) 1)
       (position_distance (np_position p) (np_position q) z) EdgeProperties_init"
  by (simp add: make_edge_props_def transition_props_def position_distance_def Let_def
      EdgeProperties_init_def)

lemma initialize_fields [simp]:
  "vn_edges (virtual_initialize vn) = vn_edges vn"
  "vn_start_vertex (virtual_initialize vn) = vn_start_vertex vn"
  "vn_goal_vertex (virtual_initialize vn) = vn_goal_vertex vn"
  "vn_start_props (virtual_initialize vn) = vn_start_props vn"
  "vn_goal_props (virtual_initialize vn) = vn_goal_props vn"
proof -
  let ?f = "\<lambda>edge vn :: VirtualNodes. vn\<lparr>vn_out_edges_map := push_edge (ve_source edge) edge (vn_out_edges_map vn),
                        vn_in_edges_map := push_edge (ve_target edge) edge (vn_in_edges_map vn)\<rparr>"
  have "vn_edges (fold ?f es a) = vn_edges a \<and> vn_start_vertex (fold ?f es a) = vn_start_vertex a \<and>
      vn_goal_vertex (fold ?f es a) = vn_goal_vertex a \<and> vn_start_props (fold ?f es a) = vn_start_props a \<and>
      vn_goal_props (fold ?f es a) = vn_goal_props a" for es a
    by (induction es arbitrary: a) simp_all
  then show "vn_edges (virtual_initialize vn) = vn_edges vn"
    "vn_start_vertex (virtual_initialize vn) = vn_start_vertex vn"
    "vn_goal_vertex (virtual_initialize vn) = vn_goal_vertex vn"
    "vn_start_props (virtual_initialize vn) = vn_start_props vn"
    "vn_goal_props (virtual_initialize vn) = vn_goal_props vn"
    by (simp_all add: virtual_initialize_def)
qed

text \<open>Entries of the adjacency tables: a missing key stands for no edges.\<close>

definition edges_at :: "(Vertex \<rightharpoonup> VirtualEdge list) \<Rightarrow> Vertex \<Rightarrow> VirtualEdge list" where
  "edges_at m v = (case m v of None \<Rightarrow> [] | Some es \<Rightarrow> es)"

lemma edges_at_push: "edges_at (push_edge u e m) v = edges_at m v @ (if u = v then [e] else [])"
  by (simp add: edges_at_def push_edge_def)

lemma initialize_tables:
  assumes "vn_out_edges_map vn = Map.empty" and "vn_in_edges_map vn = Map.empty"
  shows "edges_at (vn_out_edges_map (virtual_initialize vn)) v = filter (\<lambda>e. ve_source e = v) (vn_edges vn)"
    and "edges_at (vn_in_edges_map (virtual_initialize vn)) v = filter (\<lambda>e. ve_target e = v) (vn_edges vn)"
proof -
  let ?f = "\<lambda>edge vn :: VirtualNodes. vn\<lparr>vn_out_edges_map := push_edge (ve_source edge) edge (vn_out_edges_map vn),
                        vn_in_edges_map := push_edge (ve_target edge) edge (vn_in_edges_map vn)\<rparr>"
  have "edges_at (vn_out_edges_map (fold ?f es a)) v = edges_at (vn_out_edges_map a) v @ filter (\<lambda>e. ve_source e = v) es \<and>
      edges_at (vn_in_edges_map (fold ?f es a)) v = edges_at (vn_in_edges_map a) v @ filter (\<lambda>e. ve_target e = v) es" for es a
    by (induction es arbitrary: a) (simp_all add: edges_at_push)
  then show "edges_at (vn_out_edges_map (virtual_initialize vn)) v = filter (\<lambda>e. ve_source e = v) (vn_edges vn)"
    and "edges_at (vn_in_edges_map (virtual_initialize vn)) v = filter (\<lambda>e. ve_target e = v) (vn_edges vn)"
    using assms by (simp_all add: virtual_initialize_def edges_at_def)
qed

lemma virtual_door_edges_fold:
  assumes "N ! u = props" and "\<forall>w \<in> set ws. N ! w = g_node B g w"
  shows "\<exists>es'. fold (\<lambda>neighbor (edges, next_edge_id).
         if np_type (g_node B g neighbor) \<noteq> ''transition'' then (edges, next_edge_id)
         else (edges @ [\<lparr>ve_edge_id = next_edge_id, ve_source = u, ve_target = neighbor,
                  ve_properties = make_edge_props z next_edge_id (f neighbor) props (g_node B g neighbor)\<rparr>],
               next_edge_id + 1)) ws (es, k) =
           (es', k + int (length (filter (\<lambda>w. np_type (g_node B g w) = ''transition'') ws))) \<and>
         map ve_view es' = map ve_view es @ map (transition_view z N)
           (numbered k (map (\<lambda>d. (u, d, f d)) (filter (\<lambda>w. np_type (g_node B g w) = ''transition'') ws)))"
  using assms
proof (induction ws arbitrary: es k)
  case (Cons w ws)
  show ?case
  proof (cases "np_type (g_node B g w) = ''transition''")
    case True
    let ?es = "es @ [\<lparr>ve_edge_id = k, ve_source = u, ve_target = w,
        ve_properties = make_edge_props z k (f w) props (g_node B g w)\<rparr>]"
    have v: "map ve_view ?es = map ve_view es @ [transition_view z N (k, u, w, f w)]"
      using Cons.prems by (simp add: ve_view_def make_edge_props_transition)
    from Cons.IH [of ?es "k + 1"] Cons.prems True v show ?thesis
      by (auto simp: algebra_simps)
  next
    case False
    with Cons.IH [of es k] Cons.prems show ?thesis by simp
  qed
qed simp

context boost_graph
begin

lemma virtual_door_edges_view:
  assumes "wf_graph B g" and "N = nodes_view B g @ ns" and "N ! u = props"
  obtains es' where "virtual_door_edges B g z u props room (es, k) = (es', k + int (length (doors B g room)))"
    and "map ve_view es' = map ve_view es @ map (transition_view z N)
           (numbered k (map (\<lambda>d. (u, d, edge_room_id B g room d)) (doors B g room)))"
proof -
  have "\<forall>w \<in> set (g_adjacent_vertices B room g). N ! w = g_node B g w"
    using adjacent_range [OF assms(1)] by (simp add: assms(2) nth_append)
  from virtual_door_edges_fold [OF assms(3) this, of z "edge_room_id B g room" es k] that show thesis
    unfolding virtual_door_edges_def doors_def by auto
qed

lemma createVirtualNodes_view:
  fixes p q :: Position and z :: real and sr er :: Vertex
  assumes "wf_graph B (tp_graph m)"
  defines "g \<equiv> tp_graph m" and "n \<equiv> g_num_vertices B (tp_graph m)"
  defines "vn \<equiv> createVirtualNodes B m sr er p q z" and "N \<equiv> nodes_view B g @ inserted_nodes B m sr er p q"
  shows "vn_start_vertex vn = n" and "vn_goal_vertex vn = Suc n"
    and "[vn_start_props vn, vn_goal_props vn] = inserted_nodes B m sr er p q"
    and "map ve_view (vn_edges vn) = inserted_edges z N (getMaxEdgeId m + 1)
           (inserted_links B g sr er (edge_room_id B g sr) (edge_room_id B g er)) [(n, sr), (Suc n, er)]"
proof -
  let ?k = "getMaxEdgeId m + 1" and ?rs = "np_id (g_node B g sr)"
  let ?sp = "endpoint_props (getMaxNodeId m + 1) ''start'' p (np_floor (g_node B g sr)) NodeProperties_init"
  let ?gp = "endpoint_props (getMaxNodeId m + 2) ''goal'' q (np_floor (g_node B g er)) NodeProperties_init"
  have ng: "g_num_vertices B g = n" by (simp add: n_def g_def)
  have ns: "inserted_nodes B m sr er p q = [?sp, ?gp]" by (simp add: inserted_nodes_def g_def)
  have N: "N ! n = ?sp" "N ! Suc n = ?gp" by (simp_all add: N_def ns ng nth_append)
  let ?ls = "same_room_link sr er n ?rs"
  let ?st = "if sr = er then ([\<lparr>ve_edge_id = ?k, ve_source = n, ve_target = n + 1,
      ve_properties = make_edge_props z ?k ?rs ?sp ?gp\<rparr>], ?k + 1) else ([], ?k)"
  obtain es5 where es5: "?st = (es5, ?k + int (length ?ls))"
    "map ve_view es5 = map (transition_view z N) (numbered ?k ?ls)"
    by (rule that [of "fst ?st"]) (simp_all add: same_room_link_def ve_view_def N make_edge_props_transition)
  note wf = assms(1) [folded g_def]
  let ?k5 = "?k + int (length ?ls)"
  obtain es6 where es6: "virtual_door_edges B g z n ?sp sr (es5, ?k5) = (es6, ?k5 + int (length (doors B g sr)))"
    "map ve_view es6 = map ve_view es5 @ map (transition_view z N)
       (numbered ?k5 (map (\<lambda>d. (n, d, edge_room_id B g sr d)) (doors B g sr)))"
    by (rule virtual_door_edges_view [OF wf meta_eq_to_obj_eq [OF N_def] N(1)])
  let ?k6 = "?k5 + int (length (doors B g sr))"
  obtain es7 where es7: "virtual_door_edges B g z (n + 1) ?gp er (es6, ?k6) = (es7, ?k6 + int (length (doors B g er)))"
    "map ve_view es7 = map ve_view es6 @ map (transition_view z N)
       (numbered ?k6 (map (\<lambda>d. (Suc n, d, edge_room_id B g er d)) (doors B g er)))"
    unfolding Suc_eq_plus1 [symmetric]
    by (rule virtual_door_edges_view [OF wf meta_eq_to_obj_eq [OF N_def] N(2)])
  have vn: "vn = virtual_initialize \<lparr>vn_start_vertex = n, vn_goal_vertex = n + 1,
      vn_start_props = ?sp, vn_goal_props = ?gp,
      vn_edges = fst (virtual_room_edge (n + 1) er (virtual_room_edge n sr (es7, ?k6 + int (length (doors B g er))))),
      vn_vertex_to_props = Map.empty, vn_out_edges_map = Map.empty, vn_in_edges_map = Map.empty\<rparr>"
    unfolding vn_def createVirtualNodes_def Let_def g_def [symmetric] ng es5(1) es6(1) es7(1) by (rule refl)
  show "vn_start_vertex vn = n" "vn_goal_vertex vn = Suc n"
    "[vn_start_props vn, vn_goal_props vn] = inserted_nodes B m sr er p q"
    by (simp_all add: vn ns)
  have len: "?k6 + int (length (doors B g er)) = ?k + int (length (inserted_links B g sr er (edge_room_id B g sr) (edge_room_id B g er)))"
    by (simp add: inserted_links_def ng)
  show "map ve_view (vn_edges vn) = inserted_edges z N (getMaxEdgeId m + 1)
      (inserted_links B g sr er (edge_room_id B g sr) (edge_room_id B g er)) [(n, sr), (Suc n, er)]"
    unfolding vn len
    by (simp add: virtual_room_edge_def es7(2) es6(2) es5(2) inserted_edges_def,
        simp add: inserted_links_def numbered_append ng ve_view_def add.assoc)
qed

end

section \<open>Removing what an earlier request left behind\<close>

text \<open>
  What the scan leaves: after a first removal at index 0 the new first node is never looked at.
\<close>

definition survivors :: "NodeProperties list \<Rightarrow> NodeProperties list" where
  "survivors N =
     (case N of [] \<Rightarrow> []
      | x # xs \<Rightarrow> if stale x then (case xs of [] \<Rightarrow> [] | y # ys \<Rightarrow> y # filter (\<lambda>n. \<not> stale n) ys)
                 else x # filter (\<lambda>n. \<not> stale n) xs)"

lemma remove_nth_Suc [simp]: "remove_nth (Suc i) (x # xs) = x # remove_nth i xs"
  by (simp add: remove_nth_def)

lemma remove_nth_0 [simp]: "remove_nth 0 xs = tl xs"
  by (simp add: remove_nth_def drop_Suc)

lemma filter_remove_nth: "i < length xs \<Longrightarrow> \<not> P (xs ! i) \<Longrightarrow> filter P (remove_nth i xs) = filter P xs"
proof (induction xs arbitrary: i)
  case (Cons x xs)
  then show ?case by (cases i) auto
qed simp

context boost_graph
begin

lemma drop_vertex_view:
  assumes "v < g_num_vertices B g"
  shows "nodes_view B (drop_vertex B v g) = remove_nth v (nodes_view B g)"
    and "edges_view B (drop_vertex B v g) = map (shift_edge v) (filter (\<lambda>x. \<not> incident v x) (edges_view B g))"
proof -
  have "v < g_num_vertices B (g_clear_vertex B v g)"
    using assms num_vertices_cong [OF clear_vertex_view(1)] by simp
  from remove_vertex_view [OF this] show
    "nodes_view B (drop_vertex B v g) = remove_nth v (nodes_view B g)"
    "edges_view B (drop_vertex B v g) = map (shift_edge v) (filter (\<lambda>x. \<not> incident v x) (edges_view B g))"
    by (simp_all add: drop_vertex_def clear_vertex_view)
qed

lemma drop_vertex_num: "v < g_num_vertices B g \<Longrightarrow> g_num_vertices B (drop_vertex B v g) = g_num_vertices B g - 1"
  using drop_vertex_view(1) [of v g] length_nodes_view [of "drop_vertex B v g"]
  by (simp add: remove_nth_def)

lemma remove_stale_rest:
  assumes "i \<le> g_num_vertices B g" and "1 \<le> i" and "\<forall>v. 1 \<le> v \<longrightarrow> v < i \<longrightarrow> \<not> stale (g_node B g v)"
  shows "\<exists>g'. remove_stale B i g = Some g' \<and>
     nodes_view B g' = hd (nodes_view B g) # filter (\<lambda>n. \<not> stale n) (tl (nodes_view B g))"
  using assms
proof (induction "(i, g)" arbitrary: i g
    rule: wf_induct_rule [OF wf_measures [of "[\<lambda>(i, g). g_num_vertices B g, \<lambda>(i, g). g_num_vertices B g - i]"]])
  case (1 i g)
  let ?N = "nodes_view B g"
  obtain a xs where N: "?N = a # xs" using "1.prems"(1,2) length_nodes_view [of g] by (cases ?N) auto
  have len: "g_num_vertices B g = Suc (length xs)" using length_nodes_view [of g] N by simp
  show ?case
  proof (cases "i = g_num_vertices B g")
    case True
    have "\<not> stale (xs ! j)" if "j < length xs" for j
      using "1.prems"(3) [rule_format, of "Suc j"] nth_nodes_view [of "Suc j" g] that True len N by simp
    then have "filter (\<lambda>n. \<not> stale n) xs = xs" by (auto simp: filter_id_conv in_set_conv_nth)
    moreover have "remove_stale B i g = Some g" using True by (subst remove_stale.simps) simp
    ultimately show ?thesis using N by simp
  next
    case neq: False
    then have lt: "i < g_num_vertices B g" using "1.prems"(1) by simp
    obtain j where j: "i = Suc j" using "1.prems"(2) by (cases i) auto
    have nd: "g_node B g i = xs ! j" using nth_nodes_view [OF lt] N j by simp
    show ?thesis
    proof (cases "stale (g_node B g i)")
      case True
      let ?g = "drop_vertex B i g"
      have N': "nodes_view B ?g = a # remove_nth j xs" using drop_vertex_view(1) [OF lt] N j by simp
      have pos: "g_num_vertices B ?g \<noteq> 0" "1 \<le> g_num_vertices B ?g"
        using length_nodes_view [of ?g] N' by simp_all
      have "\<exists>g'. remove_stale B 1 ?g = Some g' \<and>
          nodes_view B g' = hd (nodes_view B ?g) # filter (\<lambda>n. \<not> stale n) (tl (nodes_view B ?g))"
        by (rule "1.hyps") (use drop_vertex_num [OF lt] lt pos in auto)
      moreover have "filter (\<lambda>n. \<not> stale n) (remove_nth j xs) = filter (\<lambda>n. \<not> stale n) xs"
        by (rule filter_remove_nth) (use True nd lt len j in auto)
      ultimately show ?thesis
        using neq True pos(1) N N' by (simp add: remove_stale.simps [of B i] Let_def)
    next
      case False
      have "\<exists>g'. remove_stale B (i + 1) g = Some g' \<and>
          nodes_view B g' = hd (nodes_view B g) # filter (\<lambda>n. \<not> stale n) (tl (nodes_view B g))"
        by (rule "1.hyps") (use lt "1.prems"(3) False less_Suc_eq in auto)
      with neq False show ?thesis by (simp add: remove_stale.simps [of B i])
    qed
  qed
qed

lemma remove_stale_survivors:
  "\<exists>g'. remove_stale B 0 g = Some g' \<and> nodes_view B g' = survivors (nodes_view B g)"
proof (cases "nodes_view B g")
  case Nil
  then have "g_num_vertices B g = 0" using length_nodes_view [of g] by simp
  with Nil show ?thesis by (simp add: remove_stale.simps [of B 0] survivors_def)
next
  case (Cons a xs)
  then have n: "g_num_vertices B g = Suc (length xs)" using length_nodes_view [of g] by simp
  have nd: "g_node B g 0 = a" using nth_nodes_view [of 0 g] Cons n by simp
  show ?thesis
  proof (cases "stale a")
    case True
    let ?g = "drop_vertex B 0 g"
    have N': "nodes_view B ?g = xs" using drop_vertex_view(1) [of 0 g] Cons n by simp
    have n': "g_num_vertices B ?g = length xs" using length_nodes_view [of ?g] N' by simp
    show ?thesis
    proof (cases xs)
      case Nil
      then show ?thesis using True nd n n' N' Cons
        by (simp add: remove_stale.simps [of B 0] survivors_def Let_def)
    next
      case (Cons b ys)
      then have "\<exists>g'. remove_stale B 1 ?g = Some g' \<and> nodes_view B g' = b # filter (\<lambda>n. \<not> stale n) ys"
        using remove_stale_rest [of 1 ?g] n' N' by simp
      with True nd n n' \<open>nodes_view B g = a # xs\<close> Cons show ?thesis
        by (simp add: remove_stale.simps [of B 0] survivors_def Let_def)
    qed
  next
    case False
    have "\<exists>g'. remove_stale B 1 g = Some g' \<and> nodes_view B g' = a # filter (\<lambda>n. \<not> stale n) xs"
      using remove_stale_rest [of 1 g] n Cons by simp
    with False nd n Cons show ?thesis by (simp add: remove_stale.simps [of B 0] survivors_def)
  qed
qed

lemma remove_stale_id:
  assumes "i \<le> g_num_vertices B g" and "list_all (\<lambda>x. \<not> stale x) (nodes_view B g)"
  shows "remove_stale B i g = Some g"
  using assms(1)
proof (induction "g_num_vertices B g - i" arbitrary: i)
  case 0
  then show ?case by (simp add: remove_stale.simps [of B i])
next
  case (Suc d)
  then have lt: "i < g_num_vertices B g" by simp
  with assms(2) have "\<not> stale (g_node B g i)" by (simp add: nodes_view_def list_all_iff)
  with Suc.hyps(1) [of "Suc i"] Suc.hyps(2) lt show ?case
    by (simp add: remove_stale.simps [of B i])
qed

end

section \<open>Insertion and cleanup\<close>

text \<open>The links of the new nodes: they start at one of the two and end at a vertex of the graph or at the goal.\<close>

lemma in_numbered: "(i, x) \<in> set (numbered k xs) \<Longrightarrow> x \<in> set xs"
  by (induction xs arbitrary: k) auto

lemma inserted_edges_ends:
  assumes "(a, b, y) \<in> set (inserted_edges z N k ls rs)"
  shows "(\<exists>r. (a, b, r) \<in> set ls) \<or> (a, b) \<in> set rs"
  using assms unfolding inserted_edges_def by (auto dest!: in_numbered)

context boost_graph
begin

lemma inserted_links_ends:
  assumes "wf_graph B g" and "(a, b, r) \<in> set (inserted_links B g sr er rs re)"
  shows "(a = g_num_vertices B g \<or> a = Suc (g_num_vertices B g)) \<and> b < g_num_vertices B g + 2"
  using assms(2) adjacent_range [OF assms(1)]
  by (fastforce simp: inserted_links_def same_room_link_def doors_def split: if_splits)

lemma add_edges_view:
  assumes "\<forall>e \<in> set es. src e < length N \<and> tgt e < length N" and "nodes_view B g = N"
  shows "nodes_view B (fold (\<lambda>e. add_edge_with B (src e) (tgt e) (\<lambda>_. pr e)) es g) = N \<and>
         edges_view B (fold (\<lambda>e. add_edge_with B (src e) (tgt e) (\<lambda>_. pr e)) es g) =
           edges_view B g @ map (\<lambda>e. (src e, tgt e, pr e)) es"
  using assms
proof (induction es arbitrary: g)
  case (Cons e es)
  have lt: "src e < g_num_vertices B g" "tgt e < g_num_vertices B g" using Cons.prems by auto
  note V = add_edge_with_view [OF lt, of "\<lambda>_. pr e"]
  from Cons.IH [of "add_edge_with B (src e) (tgt e) (\<lambda>_. pr e) g"] Cons.prems V show ?case by simp
qed simp

lemma materialize_view:
  assumes "list_all (\<lambda>x. \<not> stale x) (nodes_view B g)"
    and "vn_start_vertex vn = g_num_vertices B g" and "vn_goal_vertex vn = Suc (g_num_vertices B g)"
    and "\<forall>(a, b, y) \<in> set (map ve_view (vn_edges vn)). a < g_num_vertices B g + 2 \<and> b < g_num_vertices B g + 2"
  obtains g' where "materializeGraphInPlace B g vn =
      Some (\<lparr>mn_start_vertex = g_num_vertices B g, mn_goal_vertex = Suc (g_num_vertices B g)\<rparr>, g')"
    and "nodes_view B g' = nodes_view B g @ [vn_start_props vn, vn_goal_props vn]"
    and "edges_view B g' = edges_view B g @ map ve_view (vn_edges vn)"
proof -
  let ?n = "g_num_vertices B g"
  obtain v1 g1 where a1: "g_add_vertex B g = (v1, g1)" by fastforce
  define g2 where "g2 = g_set_node B v1 (vn_start_props vn) g1"
  note A1 = add_vertex_set_node_view(1) [OF a1]
    add_vertex_set_node_view(2,3) [OF a1, of "vn_start_props vn", folded g2_def]
  obtain v2 g3 where a2: "g_add_vertex B g2 = (v2, g3)" by fastforce
  define g4 where "g4 = g_set_node B v2 (vn_goal_props vn) g3"
  note A2 = add_vertex_set_node_view(1) [OF a2]
    add_vertex_set_node_view(2,3) [OF a2, of "vn_goal_props vn", folded g4_def]
  have v: "v1 = ?n" "v2 = Suc ?n" using A1(1,2) A2(1) length_nodes_view [of g2] by simp_all
  have N4: "nodes_view B g4 = nodes_view B g @ [vn_start_props vn, vn_goal_props vn]"
    "edges_view B g4 = edges_view B g"
    using A1 A2 by simp_all
  have rv: "real_vertex vn v1 v2 w = w" for w by (simp add: real_vertex_def assms(2,3) v)
  have lt: "\<forall>e \<in> set (vn_edges vn). ve_source e < length (nodes_view B g @ [vn_start_props vn, vn_goal_props vn]) \<and>
      ve_target e < length (nodes_view B g @ [vn_start_props vn, vn_goal_props vn])"
    using assms(4) by (auto simp: ve_view_def)
  note F = add_edges_view [OF lt N4(1), of ve_properties]
  have "materializeGraphInPlace B g vn =
      Some (\<lparr>mn_start_vertex = v1, mn_goal_vertex = v2\<rparr>,
        fold (\<lambda>e. add_edge_with B (ve_source e) (ve_target e) (\<lambda>_. ve_properties e)) (vn_edges vn) g4)"
    using remove_stale_id [of 0, OF _ assms(1)]
    by (simp add: materializeGraphInPlace_def a1 a2 flip: g2_def) (simp add: a2 rv g4_def)
  with that F N4(2) v show thesis by (simp add: ve_view_def [abs_def])
qed

lemma shift_id: "a < n \<Longrightarrow> b < n \<Longrightarrow> n \<le> v \<Longrightarrow> shift_edge v (a, b, y) = (a, b, y)"
  by (simp add: shift_down_def)

lemma cleanup_edges:
  assumes "\<forall>(a, b, y) \<in> set E. a < n \<and> b < n"
    and "\<forall>(a, b, y) \<in> set X. (a = n \<or> a = Suc n) \<and> b < n + 2"
  shows "map (shift_edge n) (filter (\<lambda>x. \<not> incident n x) (map (shift_edge (Suc n))
           (filter (\<lambda>x. \<not> incident (Suc n) x) (E @ X)))) = E"
proof -
  have old: "filter (\<lambda>x. \<not> incident (Suc n) x) E = E" "map (shift_edge (Suc n)) E = E"
    "filter (\<lambda>x. \<not> incident n x) E = E" "map (shift_edge n) E = E"
    using assms(1) shift_id [of _ n]
    by (auto simp: filter_id_conv intro!: map_idI)
  have "incident n (shift_edge (Suc n) x)" if "x \<in> set X" "\<not> incident (Suc n) x" for x
    using that assms(2) by (cases x) (auto simp: shift_down_def)
  then have new: "filter (\<lambda>x. \<not> incident n x) (map (shift_edge (Suc n)) (filter (\<lambda>x. \<not> incident (Suc n) x) X)) = []"
    by (auto simp: filter_empty_conv)
  show ?thesis using old new by simp
qed

lemma cleanup_view:
  assumes "nodes_view B g' = N @ [x, y]" and "edges_view B g' = E @ X" and n: "n = length N"
    and "\<forall>(a, b, q) \<in> set E. a < n \<and> b < n" and "\<forall>(a, b, q) \<in> set X. (a = n \<or> a = Suc n) \<and> b < n + 2"
  shows "nodes_view B (scoped_cleanup B \<lparr>mn_start_vertex = n, mn_goal_vertex = Suc n\<rparr> g') = N"
    and "edges_view B (scoped_cleanup B \<lparr>mn_start_vertex = n, mn_goal_vertex = Suc n\<rparr> g') = E"
proof -
  let ?g = "drop_vertex B (Suc n) g'"
  have len: "Suc n < g_num_vertices B g'" using assms(1) length_nodes_view [of g'] n by simp
  have N: "nodes_view B ?g = N @ [x]"
    using drop_vertex_view(1) [OF len] assms(1) by (simp add: remove_nth_def n)
  have lt: "n < g_num_vertices B ?g" using N length_nodes_view [of ?g] n by simp
  show "nodes_view B (scoped_cleanup B \<lparr>mn_start_vertex = n, mn_goal_vertex = Suc n\<rparr> g') = N"
    using drop_vertex_view(1) [OF lt] N by (simp add: scoped_cleanup_def remove_nth_def n)
  from cleanup_edges [OF assms(4,5)] show
    "edges_view B (scoped_cleanup B \<lparr>mn_start_vertex = n, mn_goal_vertex = Suc n\<rparr> g') = E"
    using drop_vertex_view(2) [OF lt] drop_vertex_view(2) [OF len] assms(2) by (simp add: scoped_cleanup_def)
qed

lemma wf_graph_ends: "wf_graph B g \<Longrightarrow> \<forall>(a, b, q) \<in> set (edges_view B g). a < g_num_vertices B g \<and> b < g_num_vertices B g"
  by (simp add: wf_graph_def list_all_iff)

end

section \<open>Properties\<close>

context boost_graph
begin

lemma virtual_edges_ends:
  assumes "wf_graph B (tp_graph m)"
    and "sr < g_num_vertices B (tp_graph m)" and "er < g_num_vertices B (tp_graph m)"
    and "(a, b, y) \<in> set (map ve_view (vn_edges (createVirtualNodes B m sr er p q z)))"
  shows "(a = g_num_vertices B (tp_graph m) \<or> a = Suc (g_num_vertices B (tp_graph m))) \<and>
    b < g_num_vertices B (tp_graph m) + 2"
  using inserted_edges_ends [OF assms(4) [unfolded createVirtualNodes_view(4) [OF assms(1)]]]
    inserted_links_ends [OF assms(1)] assms(2,3) by fastforce

lemma materialize_virtual:
  assumes "wf_graph B (tp_graph m)"
    and "sr < g_num_vertices B (tp_graph m)" and "er < g_num_vertices B (tp_graph m)"
    and "list_all (\<lambda>x. \<not> stale x) (nodes_view B (tp_graph m))"
  defines "n \<equiv> g_num_vertices B (tp_graph m)"
  obtains g' where "materializeGraphInPlace B (tp_graph m) (createVirtualNodes B m sr er p q z) =
      Some (\<lparr>mn_start_vertex = n, mn_goal_vertex = Suc n\<rparr>, g')"
    and "nodes_view B g' = nodes_view B (tp_graph m) @ inserted_nodes B m sr er p q"
    and "edges_view B g' = edges_view B (tp_graph m) @ map ve_view (vn_edges (createVirtualNodes B m sr er p q z))"
proof -
  let ?vn = "createVirtualNodes B m sr er p q z"
  have "\<forall>(a, b, y) \<in> set (map ve_view (vn_edges ?vn)).
      a < g_num_vertices B (tp_graph m) + 2 \<and> b < g_num_vertices B (tp_graph m) + 2"
    using virtual_edges_ends [OF assms(1-3)] by fastforce
  note M = materialize_view [OF assms(4) createVirtualNodes_view(1,2) [OF assms(1)] this]
  show thesis
    by (rule M) (rule that, simp_all add: n_def createVirtualNodes_view(3) [OF assms(1)])
qed

lemma edge_room_id_default:
  assumes "list_all (\<lambda>(e, w). case ep_room_id (g_eprops B g e) of None \<Rightarrow> True
      | Some r \<Rightarrow> r = np_id (g_node B g room)) (g_out_edges B room g)"
  shows "edge_room_id B g room w = np_id (g_node B g room)"
proof (cases "find (\<lambda>(e, w'). w' = w) (g_out_edges B room g)")
  case (Some ew)
  then have "ew \<in> set (g_out_edges B room g)" unfolding find_Some_iff by (metis nth_mem)
  with assms Some show ?thesis
    by (auto simp: edge_room_id_def list_all_iff split: option.splits prod.splits)
qed (simp add: edge_room_id_def)

end

text \<open>
  C22: the scoped insertion leaves no trace. For two rooms of a map without nodes named \<open>start\<close> or
  \<open>goal\<close>, \<open>materializeGraphInPlace\<close> appends the two virtual nodes and the virtual edges to the graph,
  at the vertices \<open>createVirtualNodes\<close> announced, and the destructor of
  \<open>ScopedGraphMaterialization\<close> gives back every node and every edge of the map, in order.
\<close>

theorem scoped_materialization_restores:
  assumes "boost_graph B" and "wf_graph B (tp_graph m)"
    and "sr < g_num_vertices B (tp_graph m)" and "er < g_num_vertices B (tp_graph m)"
    and "list_all (\<lambda>x. \<not> stale x) (nodes_view B (tp_graph m))"
  shows "\<exists>nodes g'. let vn = createVirtualNodes B m sr er p q z in
           materializeGraphInPlace B (tp_graph m) vn = Some (nodes, g') \<and>
           mn_start_vertex nodes = vn_start_vertex vn \<and> mn_goal_vertex nodes = vn_goal_vertex vn \<and>
           nodes_view B g' = nodes_view B (tp_graph m) @ [vn_start_props vn, vn_goal_props vn] \<and>
           edges_view B g' = edges_view B (tp_graph m) @ map ve_view (vn_edges vn) \<and>
           nodes_view B (scoped_cleanup B nodes g') = nodes_view B (tp_graph m) \<and>
           edges_view B (scoped_cleanup B nodes g') = edges_view B (tp_graph m)"
proof (rule boost_graph.materialize_virtual [OF assms, of p q z])
  let ?vn = "createVirtualNodes B m sr er p q z" and ?n = "g_num_vertices B (tp_graph m)"
  fix g'
  assume run: "materializeGraphInPlace B (tp_graph m) ?vn =
      Some (\<lparr>mn_start_vertex = ?n, mn_goal_vertex = Suc ?n\<rparr>, g')"
    and N: "nodes_view B g' = nodes_view B (tp_graph m) @ inserted_nodes B m sr er p q"
    and E: "edges_view B g' = edges_view B (tp_graph m) @ map ve_view (vn_edges ?vn)"
  note V = boost_graph.createVirtualNodes_view(1-3) [OF assms(1,2), where sr = sr and er = er and p = p and q = q and z = z]
  note N' = N [folded V(3)]
  have X: "\<forall>(a, b, y) \<in> set (map ve_view (vn_edges ?vn)). (a = ?n \<or> a = Suc ?n) \<and> b < ?n + 2"
    using boost_graph.virtual_edges_ends [OF assms(1-4)] by fastforce
  have n: "?n = length (nodes_view B (tp_graph m))" by (simp add: boost_graph.length_nodes_view [OF assms(1)])
  note C = boost_graph.cleanup_view [OF assms(1) N' E n boost_graph.wf_graph_ends [OF assms(1,2)] X]
  show ?thesis unfolding Let_def using run N' E C V(1,2)
    by (intro exI [of _ "\<lparr>mn_start_vertex = ?n, mn_goal_vertex = Suc ?n\<rparr>"] exI [of _ g']) simp
qed


text \<open>
  The scan for left-over start and goal nodes ends, and what it leaves is \<open>survivors\<close>: every
  node named \<open>start\<close> or \<open>goal\<close> is gone when the first node is not one of them; when it is, the
  second node stays whatever its name is.
\<close>

theorem remove_stale_correct:
  assumes "boost_graph B"
  shows "\<exists>g'. remove_stale B 0 g = Some g' \<and> nodes_view B g' = survivors (nodes_view B g) \<and>
           (\<not> stale (hd (nodes_view B g)) \<longrightarrow> nodes_view B g' = filter (\<lambda>n. \<not> stale n) (nodes_view B g))"
proof -
  have "survivors N = filter (\<lambda>n. \<not> stale n) N" if "\<not> stale (hd N)" for N
    using that by (cases N) (simp_all add: survivors_def)
  with boost_graph.remove_stale_survivors [OF assms] show ?thesis by metis
qed

text \<open>
  The adjacency tables of the virtual nodes list, for each vertex, the virtual edges that leave
  it and those that enter it, in order.
\<close>

theorem createVirtualNodes_tables:
  "edges_at (vn_out_edges_map (createVirtualNodes B m sr er p q z)) v =
     filter (\<lambda>e. ve_source e = v) (vn_edges (createVirtualNodes B m sr er p q z)) \<and>
   edges_at (vn_in_edges_map (createVirtualNodes B m sr er p q z)) v =
     filter (\<lambda>e. ve_target e = v) (vn_edges (createVirtualNodes B m sr er p q z))"
  unfolding createVirtualNodes_def Let_def by (simp add: initialize_tables)

section \<open>Witnesses\<close>

lemma flat_graph_fresh: "list_all (\<lambda>x. \<not> stale x) (nodes_view vec_graph (tp_graph flat_map))"
  by (simp add: flat_graph_def sample_node_def stale_def)

theorem scoped_materialization_restores_witness:
  "\<exists>nodes g'. materializeGraphInPlace vec_graph flat_graph
       (createVirtualNodes vec_graph flat_map 0 1 Position_init (Position_init\<lparr>pos_x := 8\<rparr>) 1) = Some (nodes, g') \<and>
     length (vg_nodes g') = 6 \<and> vg_nodes (scoped_cleanup vec_graph nodes g') = vg_nodes flat_graph \<and>
     vg_edges (scoped_cleanup vec_graph nodes g') = vg_edges flat_graph"
proof -
  have "length (vg_nodes flat_graph) = 4" by (simp add: flat_graph_def)
  with scoped_materialization_restores [OF vg.boost_graph_axioms flat_map_wf [folded flat_map_graph]
      flat_rooms(1,2) flat_graph_fresh, of Position_init "Position_init\<lparr>pos_x := 8\<rparr>" 1]
  show ?thesis unfolding Let_def flat_map_graph by fastforce
qed


definition stale_graph :: vgraph where
  "stale_graph = \<lparr>vg_nodes = [sample_node 1 ''start'' ''transition'' 0 0, sample_node 2 ''goal'' ''transition'' 1 0],
     vg_edges = []\<rparr>"

theorem remove_stale_correct_witness:
  "\<exists>g'. remove_stale vec_graph 0 stale_graph = Some g' \<and> map np_name (vg_nodes g') = [''goal'']"
  using remove_stale_correct [OF vg.boost_graph_axioms, of stale_graph]
  by (auto simp: stale_graph_def survivors_def stale_def sample_node_def)

end
