(* ===== verification/Score_Tree.thy ===== *)
theory Score_Tree
  imports Topomap_Types
begin

text \<open>
  The tree of predecessors the search of \<open>topomap_planner.cpp\<close> keeps in \<open>came_from\<close>, with the scores
  in \<open>g_score\<close>: the recursive correction of the scores below a node, the walk from the goal back to
  the start, and the invariant that the score of a node is the score of its predecessor plus the
  cost of the edge between them.
\<close>

section \<open>The operations\<close>

text \<open>\<open>g_score[v]\<close>; a missing key is created with 0.\<close>

definition g_score :: "(Vertex \<rightharpoonup> double) \<Rightarrow> Vertex \<Rightarrow> double" where
  "g_score gs v = (case gs v of None \<Rightarrow> Fin 0 | Some d \<Rightarrow> d)"

text \<open>
  \<open>update_g_score_recursively\<close>: \<open>all\<close> are the entries of \<open>came_from\<close> in iteration order, \<open>rest\<close> those
  the loop of this call has still to visit.
\<close>

partial_function (option) update_g_score_recursively ::
  "(Vertex \<times> Vertex) list \<Rightarrow> double \<Rightarrow> Vertex \<Rightarrow> (Vertex \<times> Vertex) list \<Rightarrow>
     (Vertex \<rightharpoonup> double) \<times> Vertex set \<Rightarrow> ((Vertex \<rightharpoonup> double) \<times> Vertex set) option" where
  "update_g_score_recursively all delta node rest st =
     (case rest of
        [] \<Rightarrow> Some st
      | x # rest' \<Rightarrow>
          if snd x = node
          then Option.bind
            (update_g_score_recursively all delta (fst x) all
               ((fst st)(fst x \<mapsto> dsub (g_score (fst st) (fst x)) delta), insert (fst x) (snd st)))
            (\<lambda>st'. update_g_score_recursively all delta node rest' st')
          else update_g_score_recursively all delta node rest' st)"

definition came_from_entries :: "(Vertex set \<Rightarrow> Vertex list) \<Rightarrow> (Vertex \<rightharpoonup> Vertex) \<Rightarrow> (Vertex \<times> Vertex) list" where
  "came_from_entries ord cf = map (\<lambda>v. (v, the (cf v))) (ord (dom cf))"

text \<open>The vertices from the goal back along \<open>came_from\<close>.\<close>

partial_function (option) trace_back :: "(Vertex \<rightharpoonup> Vertex) \<Rightarrow> Vertex \<Rightarrow> Vertex list \<Rightarrow> Vertex list option" where
  "trace_back cf current coarse_path =
     (case cf current of
        None \<Rightarrow> Some coarse_path
      | Some p \<Rightarrow> trace_back cf p (coarse_path @ [p]))"

section \<open>Predecessor trees\<close>

definition parent :: "(Vertex \<rightharpoonup> Vertex) \<Rightarrow> (Vertex \<times> Vertex) set" where
  "parent cf = {(x, p). cf x = Some p}"

inductive rooted :: "(Vertex \<rightharpoonup> Vertex) \<Rightarrow> Vertex \<Rightarrow> Vertex \<Rightarrow> bool" for cf origin where
  rooted_root: "rooted cf origin origin"
| rooted_step: "cf x = Some p \<Longrightarrow> rooted cf origin p \<Longrightarrow> rooted cf origin x"

inductive_cases rooted_cases: "rooted cf origin x"

definition is_tree :: "(Vertex \<rightharpoonup> Vertex) \<Rightarrow> Vertex \<Rightarrow> bool" where
  "is_tree cf origin \<longleftrightarrow> cf origin = None \<and> finite (dom cf) \<and> (\<forall>x \<in> dom cf. rooted cf origin x)"

lemma parent_iff [simp]: "(x, p) \<in> parent cf \<longleftrightarrow> cf x = Some p"
  by (simp add: parent_def)

text \<open>A node has one chain of ancestors.\<close>

lemma ancestors_linear:
  assumes "(x, a) \<in> (parent cf)\<^sup>*" and "(x, b) \<in> (parent cf)\<^sup>*"
  shows "(a, b) \<in> (parent cf)\<^sup>* \<or> (b, a) \<in> (parent cf)\<^sup>*"
  using assms(1)
proof (induction rule: rtrancl_induct)
  case (step y z)
  from step.IH show ?case
  proof
    assume yb: "(y, b) \<in> (parent cf)\<^sup>*"
    show ?thesis
    proof (cases "y = b")
      case True
      with step.hyps(2) show ?thesis by blast
    next
      case False
      with yb obtain w where "(y, w) \<in> parent cf" "(w, b) \<in> (parent cf)\<^sup>*" by (meson converse_rtranclE)
      with step.hyps(2) have "(z, b) \<in> (parent cf)\<^sup>*" by simp
      then show ?thesis ..
    qed
  qed (use step.hyps(2) in \<open>meson rtrancl.rtrancl_into_rtrancl\<close>)
qed (use assms(2) in simp)

lemma tree_acyclic:
  assumes "is_tree cf origin"
  shows "acyclic (parent cf)"
proof -
  have "(x, x) \<notin> (parent cf)\<^sup>+" if "rooted cf origin x" for x
    using that
  proof induction
    case rooted_root
    show ?case using assms by (auto simp: is_tree_def dest: tranclD)
  next
    case (rooted_step x p)
    show ?case
    proof
      assume "(x, x) \<in> (parent cf)\<^sup>+"
      then obtain w where "(x, w) \<in> parent cf" "(w, x) \<in> (parent cf)\<^sup>*" by (meson tranclD)
      with rooted_step.hyps(1) have "(p, p) \<in> (parent cf)\<^sup>+" by (auto intro: rtrancl_into_trancl1)
      with rooted_step.IH show False ..
    qed
  qed
  moreover have "x \<in> dom cf" if "(x, x) \<in> (parent cf)\<^sup>+" for x using that by (auto dest: tranclD)
  ultimately show ?thesis using assms unfolding acyclic_def is_tree_def by blast
qed

lemma tree_wf:
  assumes "is_tree cf origin"
  shows "wf (parent cf)"
proof (rule finite_acyclic_wf [OF _ tree_acyclic [OF assms]])
  have "parent cf \<subseteq> (\<lambda>x. (x, the (cf x))) ` dom cf" by (force simp: parent_def)
  then show "finite (parent cf)" using assms finite_subset unfolding is_tree_def by blast
qed

section \<open>Correcting the scores below a node\<close>

text \<open>What the loop over \<open>rest\<close> reaches: the children of the node and all below them.\<close>

definition below :: "(Vertex \<rightharpoonup> Vertex) \<Rightarrow> Vertex \<Rightarrow> (Vertex \<times> Vertex) list \<Rightarrow> Vertex set" where
  "below cf node rest = {x. \<exists>s. (s, node) \<in> set rest \<and> (x, s) \<in> (parent cf)\<^sup>*}"

definition lowered :: "Vertex set \<Rightarrow> double \<Rightarrow> (Vertex \<rightharpoonup> double) \<Rightarrow> Vertex \<rightharpoonup> double" where
  "lowered T delta gs = (\<lambda>x. if x \<in> T then Some (dsub (g_score gs x) delta) else gs x)"

lemma lowered_lowered: "T \<inter> T' = {} \<Longrightarrow> lowered T' delta (lowered T delta gs) = lowered (T \<union> T') delta gs"
  by (auto simp: lowered_def g_score_def fun_eq_iff)

lemma lowered_insert:
  "s \<notin> T \<Longrightarrow> lowered T delta (gs(s \<mapsto> dsub (g_score gs s) delta)) = lowered (insert s T) delta gs"
  by (auto simp: lowered_def g_score_def fun_eq_iff)

lemma below_Cons:
  "below cf node ((s, p) # rest) = (if p = node then {x. (x, s) \<in> (parent cf)\<^sup>*} else {}) \<union> below cf node rest"
  by (auto simp: below_def)

lemma siblings_disjoint:
  assumes "is_tree cf origin" and "cf s = Some node" and "set rest \<subseteq> parent cf" and "s \<notin> fst ` set rest"
  shows "{x. (x, s) \<in> (parent cf)\<^sup>*} \<inter> below cf node rest = {}"
proof -
  have apart: False if "(a, b) \<in> (parent cf)\<^sup>*" "a \<noteq> b" "cf a = Some node" "cf b = Some node" for a b
  proof -
    from that obtain w where "cf a = Some w" "(w, b) \<in> (parent cf)\<^sup>*" by (metis converse_rtranclE parent_iff)
    with that have "(node, node) \<in> (parent cf)\<^sup>+" by (auto intro: rtrancl_into_trancl1)
    with tree_acyclic [OF assms(1)] show False by (simp add: acyclic_def)
  qed
  show ?thesis
  proof (rule ccontr)
    assume "{x. (x, s) \<in> (parent cf)\<^sup>*} \<inter> below cf node rest \<noteq> {}"
    then obtain x s' where x: "(x, s) \<in> (parent cf)\<^sup>*" "(s', node) \<in> set rest" "(x, s') \<in> (parent cf)\<^sup>*"
      by (auto simp: below_def)
    with assms(3,4) have "cf s' = Some node" "s \<noteq> s'" by force+
    with ancestors_linear [OF x(1,3)] apart assms(2) show False by metis
  qed
qed

lemma below_all: "set all = parent cf \<Longrightarrow> below cf s all = {x. (x, s) \<in> (parent cf)\<^sup>+}"
  unfolding below_def using tranclD2 [of _ s "parent cf"] by (auto intro: rtrancl_into_trancl1)

lemma update_g_score_spec:
  assumes tree: "is_tree cf origin" and all: "set all = parent cf" "distinct (map fst all)"
    and "set rest \<subseteq> parent cf" and "distinct (map fst rest)"
  shows "update_g_score_recursively all delta node rest (gs, U) =
      Some (lowered (below cf node rest) delta gs, U \<union> below cf node rest)"
  using assms(4,5)
proof (induction node arbitrary: rest gs U rule: wf_induct_rule [OF tree_wf [OF tree]])
  case (1 node)
  show ?case using "1.prems"
  proof (induction rest arbitrary: gs U)
    case Nil
    show ?case by (subst update_g_score_recursively.simps) (simp add: below_def lowered_def)
  next
    case (Cons sp rest)
    obtain s p where sp: "sp = (s, p)" by fastforce
    have rest: "set rest \<subseteq> parent cf" "distinct (map fst rest)" "s \<notin> fst ` set rest" "cf s = Some p"
      using Cons.prems by (auto simp: sp)
    show ?case
    proof (cases "p = node")
      case True
      let ?S = "{x. (x, s) \<in> (parent cf)\<^sup>+}" and ?T = "{x. (x, s) \<in> (parent cf)\<^sup>*}"
      let ?gs = "gs(s \<mapsto> dsub (g_score gs s) delta)"
      have S: "below cf s all = ?S" by (rule below_all [OF all(1)])
      have s: "s \<notin> ?S" using tree_acyclic [OF tree] by (simp add: acyclic_def)
      have T: "insert s ?S = ?T" by (auto simp: rtrancl_eq_or_trancl)
      have "update_g_score_recursively all delta s all (?gs, insert s U) = Some (lowered ?S delta ?gs, insert s U \<union> ?S)"
        unfolding S [symmetric] by (rule "1.IH") (use rest(4) True all in auto)
      then have first: "update_g_score_recursively all delta s all (?gs, insert s U) = Some (lowered ?T delta gs, U \<union> ?T)"
        using lowered_insert [OF s] T by (simp add: Un_insert_right [symmetric])
      have second: "update_g_score_recursively all delta node rest (lowered ?T delta gs, U \<union> ?T) =
          Some (lowered (?T \<union> below cf node rest) delta gs, U \<union> (?T \<union> below cf node rest))"
        using Cons.IH [OF rest(1,2), of "lowered ?T delta gs" "U \<union> ?T"]
          lowered_lowered [OF siblings_disjoint [OF tree _ rest(1,3), of node]] rest(4) True by (simp add: Un_assoc)
      show ?thesis
        by (subst update_g_score_recursively.simps) (simp add: sp True first second below_Cons)
    next
      case False
      with Cons.IH [OF rest(1,2), of gs U] show ?thesis
        by (subst update_g_score_recursively.simps) (simp add: sp below_Cons)
    qed
  qed
qed

section \<open>Scores along the tree\<close>

definition scored :: "(Vertex \<Rightarrow> Vertex \<Rightarrow> double) \<Rightarrow> (Vertex \<rightharpoonup> Vertex) \<Rightarrow> (Vertex \<rightharpoonup> double) \<Rightarrow> Vertex \<Rightarrow> bool" where
  "scored cost cf gs origin \<longleftrightarrow> is_tree cf origin \<and> gs origin = Some (Fin 0) \<and>
     (\<forall>x p. cf x = Some p \<longrightarrow>
        (\<exists>a c. gs p = Some (Fin a) \<and> cost x p = Fin c \<and> 0 \<le> c \<and> gs x = Some (Fin (a + c))))"

definition reached :: "(Vertex \<rightharpoonup> Vertex) \<Rightarrow> Vertex \<Rightarrow> Vertex \<Rightarrow> bool" where
  "reached cf origin x \<longleftrightarrow> x = origin \<or> x \<in> dom cf"

lemma scoredD:
  assumes "scored cost cf gs origin" and "cf x = Some p"
  obtains a c where "gs p = Some (Fin a)" and "cost x p = Fin c" and "0 \<le> c" and "gs x = Some (Fin (a + c))"
  using assms unfolding scored_def by blast

lemma reached_rooted: "is_tree cf origin \<Longrightarrow> reached cf origin x \<Longrightarrow> rooted cf origin x"
  unfolding is_tree_def reached_def by (auto intro: rooted_root)

lemma rooted_score:
  assumes "scored cost cf gs origin" and "rooted cf origin x"
  shows "\<exists>a. 0 \<le> a \<and> gs x = Some (Fin a)"
  using assms(2)
proof induction
  case rooted_root
  then show ?case using assms(1) by (simp add: scored_def)
next
  case (rooted_step x p)
  obtain a c where "gs p = Some (Fin a)" "0 \<le> c" "gs x = Some (Fin (a + c))"
    by (rule scoredD [OF assms(1) rooted_step.hyps(1)])
  with rooted_step.IH show ?case by auto
qed

lemma reached_score:
  assumes "scored cost cf gs origin" and "reached cf origin x"
  obtains a where "0 \<le> a" and "gs x = Some (Fin a)"
  using rooted_score [OF assms(1) reached_rooted] assms unfolding scored_def by blast

lemma below_score:
  assumes "scored cost cf gs origin" and "(x, y) \<in> (parent cf)\<^sup>*" and "gs y = Some (Fin a)"
  shows "\<exists>b. a \<le> b \<and> gs x = Some (Fin b)"
  using assms(2)
proof (induction rule: converse_rtrancl_induct)
  case base
  with assms(3) show ?case by simp
next
  case (step x p)
  from step.hyps(1) have xp: "cf x = Some p" by simp
  obtain a' c where "gs p = Some (Fin a')" "0 \<le> c" "gs x = Some (Fin (a' + c))"
    by (rule scoredD [OF assms(1) xp])
  with step.IH show ?case by auto
qed

section \<open>Relaxing an edge keeps the tree\<close>

locale relaxation =
  fixes cost :: "Vertex \<Rightarrow> Vertex \<Rightarrow> double" and cf :: "Vertex \<rightharpoonup> Vertex" and gs :: "Vertex \<rightharpoonup> double"
    and origin pre suc :: Vertex and a c :: real and d :: double
  assumes tree: "scored cost cf gs origin"
    and pre: "reached cf origin pre" "gs pre = Some (Fin a)"
    and link: "cost suc pre = Fin c" "0 \<le> c"
    and suc: "gs suc = Some d" "\<not> reached cf origin suc \<Longrightarrow> d = PosInf"
    and better: "dlt (Fin (a + c)) d"
begin

abbreviation cf' :: "Vertex \<rightharpoonup> Vertex" where
  "cf' \<equiv> cf(suc \<mapsto> pre)"

lemma pre_score: "0 \<le> a"
  using reached_score [OF tree pre(1)] pre(2) by auto

lemma suc_not_origin: "suc \<noteq> origin"
  using tree suc(1) better pre_score link(2) by (auto simp: scored_def)

lemma pre_not_below: "(pre, suc) \<notin> (parent cf)\<^sup>*"
proof
  assume below: "(pre, suc) \<in> (parent cf)\<^sup>*"
  show False
  proof (cases "reached cf origin suc")
    case True
    then obtain b where b: "gs suc = Some (Fin b)" using reached_score [OF tree] by blast
    with below_score [OF tree below b] pre(2) suc(1) better link(2) show False by auto
  next
    case False
    with below have "pre \<noteq> suc \<longrightarrow> (\<exists>x. cf x = Some suc)" by (metis parent_iff rtranclE)
    then have "\<exists>r. gs suc = Some (Fin r)" using pre scoredD [OF tree] by metis
    with False suc show False by auto
  qed
qed

lemma rooted_after: "rooted cf origin x \<Longrightarrow> rooted cf' origin x"
proof -
  have avoid: "rooted cf origin p \<Longrightarrow> (p, suc) \<notin> (parent cf)\<^sup>* \<Longrightarrow> rooted cf' origin p" for p
  proof (induction rule: rooted.induct)
    case (rooted_step x p)
    then have "x \<noteq> suc" "(p, suc) \<notin> (parent cf)\<^sup>*" by (auto intro: converse_rtrancl_into_rtrancl)
    with rooted_step show ?case by (auto intro: rooted.rooted_step)
  qed (rule rooted_root)
  have "is_tree cf origin" using tree by (simp add: scored_def)
  then have pre': "rooted cf' origin pre" using avoid reached_rooted pre(1) pre_not_below by blast
  show "rooted cf origin x \<Longrightarrow> rooted cf' origin x"
  proof (induction rule: rooted.induct)
    case (rooted_step x p)
    show ?case
    proof (cases "x = suc")
      case True
      show ?thesis unfolding True by (rule rooted.rooted_step [OF _ pre']) simp
    next
      case False
      with rooted_step.hyps(1) show ?thesis by (intro rooted.rooted_step [OF _ rooted_step.IH]) simp
    qed
  qed (rule rooted_root)
qed

lemma tree_after: "is_tree cf' origin"
proof -
  have t: "is_tree cf origin" using tree by (simp add: scored_def)
  have "rooted cf' origin suc"
    using rooted_after [OF reached_rooted [OF t pre(1)]] by (auto intro: rooted.rooted_step)
  then show ?thesis using t suc_not_origin rooted_after by (auto simp: is_tree_def)
qed

lemma below_after_old: "(x, suc) \<in> (parent cf')\<^sup>* \<Longrightarrow> (x, suc) \<in> (parent cf)\<^sup>*"
proof (induction rule: converse_rtrancl_induct)
  case (step y z)
  then show ?case by (cases "y = suc") (auto intro: converse_rtrancl_into_rtrancl)
qed simp

lemma pre_not_below_after: "(pre, suc) \<notin> (parent cf')\<^sup>*"
  using below_after_old pre_not_below by blast

text \<open>The scores after the recursive correction.\<close>

definition gs' :: "Vertex \<rightharpoonup> double" where
  "gs' = lowered {x. (x, suc) \<in> (parent cf')\<^sup>+} (dsub d (Fin (a + c))) (gs(suc \<mapsto> Fin (a + c)))"

lemma gs'_suc: "gs' suc = Some (Fin (a + c))"
  using tree_acyclic [OF tree_after] by (simp add: gs'_def lowered_def acyclic_def)

lemma gs'_other: "(x, suc) \<notin> (parent cf')\<^sup>* \<Longrightarrow> gs' x = gs x"
  by (auto simp: gs'_def lowered_def dest: trancl_into_rtrancl)

lemma gs'_below:
  assumes "(x, suc) \<in> (parent cf')\<^sup>*" and "gs suc = Some (Fin b)" and "gs x = Some (Fin r)"
  shows "gs' x = Some (Fin (r - b + (a + c)))"
proof (cases "x = suc")
  case True
  with assms gs'_suc show ?thesis by simp
next
  case False
  with assms(1) have "(x, suc) \<in> (parent cf')\<^sup>+" by (auto simp: rtrancl_eq_or_trancl)
  with False assms suc(1) show ?thesis unfolding gs'_def by (auto simp: lowered_def g_score_def)
qed

lemma scored_after: "scored cost cf' gs' origin"
proof -
  have "(origin, suc) \<notin> (parent cf')\<^sup>*"
    using suc_not_origin tree_after by (metis converse_rtranclE is_tree_def option.distinct(1) parent_iff)
  then have "gs' origin = Some (Fin 0)" using gs'_other tree by (simp add: scored_def)
  moreover have "\<exists>a' c'. gs' p = Some (Fin a') \<and> cost x p = Fin c' \<and> 0 \<le> c' \<and> gs' x = Some (Fin (a' + c'))"
    if xp: "cf' x = Some p" for x p
  proof (cases "x = suc")
    case True
    with xp have "p = pre" by simp
    with True show ?thesis using gs'_suc gs'_other [OF pre_not_below_after] pre(2) link by simp
  next
    case False
    with xp have x: "cf x = Some p" by simp
    obtain a' c' where s: "gs p = Some (Fin a')" "cost x p = Fin c'" "0 \<le> c'" "gs x = Some (Fin (a' + c'))"
      by (rule scoredD [OF tree x])
    have same: "(x, suc) \<in> (parent cf')\<^sup>* \<longleftrightarrow> (p, suc) \<in> (parent cf')\<^sup>*"
      using False xp by (metis converse_rtranclE converse_rtrancl_into_rtrancl option.inject parent_iff)
    show ?thesis
    proof (cases "(p, suc) \<in> (parent cf')\<^sup>*")
      case True
      have "\<exists>b. gs suc = Some (Fin b)"
      proof (cases "reached cf origin suc")
        case False
        from below_after_old [OF True] s(1) have "p = suc \<or> (\<exists>y. cf y = Some suc)" by (metis parent_iff rtranclE)
        with s(1) show ?thesis using scoredD [OF tree] by metis
      qed (use reached_score [OF tree] in blast)
      then obtain b where b: "gs suc = Some (Fin b)" by blast
      show ?thesis
        using gs'_below [OF True b s(1)] gs'_below [OF iffD2 [OF same True] b s(4)] s(2,3) by simp
    next
      case False
      with same gs'_other s show ?thesis by simp
    qed
  qed
  ultimately show ?thesis using tree_after by (simp add: scored_def)
qed

lemma update_after:
  assumes "set all = parent cf'" and "distinct (map fst all)"
  shows "update_g_score_recursively all (dsub d (Fin (a + c))) suc all (gs(suc \<mapsto> Fin (a + c)), {suc}) =
    Some (gs', {x. (x, suc) \<in> (parent cf')\<^sup>*})"
proof -
  note b = below_all [OF assms(1), of suc]
  have "{suc} \<union> {x. (x, suc) \<in> (parent cf')\<^sup>+} = {x. (x, suc) \<in> (parent cf')\<^sup>*}"
    by (auto simp: rtrancl_eq_or_trancl)
  with update_g_score_spec [OF tree_after assms _ assms(2)] assms(1) b show ?thesis
    by (simp add: gs'_def)
qed

end

text \<open>The first relaxation of a search from vertex 0 to its neighbour 1, over an edge of cost 2.\<close>

interpretation first: relaxation "\<lambda>x p. Fin 2" Map.empty "[0 \<mapsto> Fin 0, 1 \<mapsto> PosInf]" 0 0 1 0 2 PosInf
  by unfold_locales (simp_all add: scored_def is_tree_def reached_def)

section \<open>The walk back to the origin\<close>

definition steps :: "'a list \<Rightarrow> ('a \<times> 'a) list" where
  "steps xs = zip xs (tl xs)"

lemma steps_snoc: "xs \<noteq> [] \<Longrightarrow> steps (xs @ [x]) = steps xs @ [(last xs, x)]"
proof (induction xs)
  case (Cons y ys)
  then show ?case by (cases ys) (simp_all add: steps_def)
qed simp

lemma trace_back_route:
  assumes "scored cost cf gs origin" and "rooted cf origin x"
  shows "\<exists>xs. (\<forall>acc. trace_back cf x acc = Some (acc @ tl (rev xs))) \<and> xs \<noteq> [] \<and> hd xs = origin \<and> last xs = x \<and>
    (\<forall>(p, y) \<in> set (steps xs). cf y = Some p) \<and>
    gs x = Some (fold (\<lambda>(p, y) t. dadd t (cost y p)) (steps xs) (Fin 0))"
  using assms(2)
proof induction
  case rooted_root
  have "cf origin = None" using assms(1) by (simp add: scored_def is_tree_def)
  then have "trace_back cf origin acc = Some acc" for acc by (subst trace_back.simps) simp
  then show ?case using assms(1) by (intro exI [of _ "[origin]"]) (simp add: scored_def steps_def)
next
  case (rooted_step x p)
  then obtain xs where xs: "\<forall>acc. trace_back cf p acc = Some (acc @ tl (rev xs))" "xs \<noteq> []" "hd xs = origin" "last xs = p"
    "\<forall>(p, y) \<in> set (steps xs). cf y = Some p" "gs p = Some (fold (\<lambda>(p, y) t. dadd t (cost y p)) (steps xs) (Fin 0))"
    by blast
  have "trace_back cf x acc = Some (acc @ rev xs)" for acc
  proof -
    have "p # tl (rev xs) = rev xs" using xs(2,4) by (metis hd_rev list.collapse rev_is_Nil_conv)
    moreover have "trace_back cf x acc = trace_back cf p (acc @ [p])"
      by (subst trace_back.simps) (simp add: rooted_step.hyps(1))
    ultimately show ?thesis using xs(1) by (metis append.assoc append_Cons append_Nil)
  qed
  moreover have "gs x = Some (fold (\<lambda>(p, y) t. dadd t (cost y p)) (steps (xs @ [x])) (Fin 0))"
    using xs(2,4,6) scoredD [OF assms(1) rooted_step.hyps(1)] by (fastforce simp: steps_snoc)
  ultimately show ?case
    using xs rooted_step.hyps(1) by (intro exI [of _ "xs @ [x]"]) (auto simp: steps_snoc)
qed

end
