(* ===== verification/Topomap_Planner.thy ===== *)
theory Topomap_Planner
  imports Augmented_Graph Topomap_Server Score_Tree
begin

text \<open>
  \<open>navbim_gpp_bim/topomap_planner.cpp\<close>: the search over the edges of the filtered graph
  (\<open>planTopomapPath\<close>). Each popped edge is planned by the second-level planner, or its cached path
  is reused, and relaxed; predecessors form a tree whose scores are corrected recursively.

  Parameters: Boost.Graph \<open>B\<close>, \<open>boost::heap::fibonacci_heap\<close> (the record \<open>heap_ops\<close>), the order
  \<open>ord\<close> in which the unordered containers are iterated, and the callbacks of the environment
  (second-level planner, client of the \<open>update_edge_data\<close> service), which act on a world \<open>'w\<close>.
  Time measurement and logging are left out.
\<close>

section \<open>Types\<close>

record OpenSetEdge =
  oe_u :: Vertex
  oe_v :: Vertex
  oe_f_score :: double

record ('h, 'k) heap_ops =
  hp_empty :: 'h
  hp_is_empty :: "'h \<Rightarrow> bool"
  hp_top :: "'h \<Rightarrow> OpenSetEdge"
  hp_pop :: "'h \<Rightarrow> 'h"
  hp_push :: "OpenSetEdge \<Rightarrow> 'h \<Rightarrow> 'k \<times> 'h"
  hp_update :: "'k \<Rightarrow> OpenSetEdge \<Rightarrow> 'h \<Rightarrow> 'h"
  hp_value :: "'h \<Rightarrow> 'k \<Rightarrow> OpenSetEdge"

type_synonym planned = "waypoint list option \<times> double \<times> double"

text \<open>The callbacks; the service client may be a null pointer, and its \<open>invoke\<close> may throw.\<close>

record 'w planner_env =
  pe_second_level :: "string \<Rightarrow> string \<Rightarrow> waypoint \<Rightarrow> waypoint \<Rightarrow> 'w \<Rightarrow> planned \<times> 'w"
  pe_update_edge :: "(edge_request \<Rightarrow> 'w \<Rightarrow> 'w result) option"

record TopomapPlannerResult =
  pr_coarse_path :: "Vertex list"
  pr_detailed_path :: "waypoint list"
  pr_total_distance :: double
  pr_total_cost :: double
  pr_success :: bool

record ('g, 'h, 'k, 'w) search =
  sx_graph :: 'g
  sx_g_score :: "Vertex \<rightharpoonup> double"
  sx_came_from :: "Vertex \<rightharpoonup> Vertex"
  sx_closed_set :: "(Vertex \<times> Vertex) set"
  sx_open_heap :: 'h
  sx_edge_to_handle :: "Vertex \<times> Vertex \<rightharpoonup> 'k"
  sx_best_score :: double
  sx_second_level_count :: nat
  sx_world :: 'w

section \<open>Room and floor of an edge\<close>

definition floor_list :: "NodeProperties \<Rightarrow> string list" where
  "floor_list node = (case np_floor node of None \<Rightarrow> [] | Some fl \<Rightarrow> fl)"

definition getFloorOfEdge :: "('g, 'e) bgl \<Rightarrow> 'g \<Rightarrow> Vertex \<Rightarrow> Vertex \<Rightarrow> string" where
  "getFloorOfEdge B g u v =
     (case g_edge B u v g of
        None \<Rightarrow> []
      | Some e \<Rightarrow>
          (case ep_room_id (g_eprops B g e) of
             None \<Rightarrow> (case floor_list (g_node B g u) of [] \<Rightarrow> [] | f # _ \<Rightarrow> f)
           | Some room_id \<Rightarrow>
               (case find (\<lambda>w. np_id (g_node B g w) = room_id \<and> floor_list (g_node B g w) \<noteq> []) (g_vertices B g) of
                  None \<Rightarrow> []
                | Some w \<Rightarrow> hd (floor_list (g_node B g w)))))"

definition getRoomNameOfEdge :: "('g, 'e) bgl \<Rightarrow> 'g \<Rightarrow> Vertex \<Rightarrow> Vertex \<Rightarrow> string" where
  "getRoomNameOfEdge B g u v =
     (case g_edge B u v g of
        None \<Rightarrow> []
      | Some e \<Rightarrow>
          (case ep_room_id (g_eprops B g e) of
             None \<Rightarrow> np_name (g_node B g u)
           | Some room_id \<Rightarrow>
               (case find (\<lambda>w. np_id (g_node B g w) = room_id) (g_vertices B g) of
                  None \<Rightarrow> []
                | Some w \<Rightarrow> np_name (g_node B g w))))"

section \<open>The filtered graph\<close>

definition edge_enabled :: "('g, 'e) bgl \<Rightarrow> 'g \<Rightarrow> Vertex set \<Rightarrow> 'e \<Rightarrow> bool" where
  "edge_enabled B g disabled e \<longleftrightarrow> g_source B g e \<notin> disabled \<and> g_target B g e \<notin> disabled"

definition f_edge :: "('g, 'e) bgl \<Rightarrow> Vertex set \<Rightarrow> Vertex \<Rightarrow> Vertex \<Rightarrow> 'g \<Rightarrow> 'e option" where
  "f_edge B disabled u v g =
     (case g_edge B u v g of
        None \<Rightarrow> None
      | Some e \<Rightarrow> if edge_enabled B g disabled e then Some e else None)"

definition f_neighbours :: "('g, 'e) bgl \<Rightarrow> Vertex set \<Rightarrow> Vertex \<Rightarrow> 'g \<Rightarrow> Vertex list" where
  "f_neighbours B disabled v g =
     map snd (filter (\<lambda>(e, w). edge_enabled B g disabled e \<and> w \<notin> disabled) (g_out_edges B v g))"

definition h1_score :: "('g, 'e) bgl \<Rightarrow> Vertex set \<Rightarrow> 'g \<Rightarrow> Vertex \<Rightarrow> Vertex \<Rightarrow> double" where
  "h1_score B disabled g u v =
     (case f_edge B disabled u v g of
        None \<Rightarrow> PosInf
      | Some e \<Rightarrow>
          if dle (Fin 0) (ep_planned_cost (g_eprops B g e)) then ep_planned_cost (g_eprops B g e)
          else ep_estimated_cost (g_eprops B g e))"

definition h2_score :: "('g, 'e) bgl \<Rightarrow> real \<Rightarrow> Vertex \<Rightarrow> 'g \<Rightarrow> Vertex \<Rightarrow> double" where
  "h2_score B z goal g v = Fin (costBetweenNodes B g v goal z)"

definition edge_key :: "Vertex \<Rightarrow> Vertex \<Rightarrow> Vertex \<times> Vertex" where
  "edge_key u v = (min u v, max u v)"

section \<open>Planning one edge\<close>

definition is_preplanned :: "EdgeProperties \<Rightarrow> bool" where
  "is_preplanned q \<longleftrightarrow> ep_subtype q = Some ''stair'' \<or> ep_subtype q = Some ''ramp''"

definition should_reuse :: "bool \<Rightarrow> EdgeProperties \<Rightarrow> bool" where
  "should_reuse reuse_paths q \<longleftrightarrow>
     (case ep_path q of None \<Rightarrow> False | Some ws \<Rightarrow> 2 \<le> length ws) \<and> (reuse_paths \<or> is_preplanned q)"

text \<open>The search for the two nodes in the original graph, which stops when both were seen.\<close>

fun find_original ::
  "('g, 'e) bgl \<Rightarrow> 'g \<Rightarrow> int \<Rightarrow> int \<Rightarrow> Vertex list \<Rightarrow> Vertex option \<times> Vertex option \<Rightarrow> Vertex option \<times> Vertex option" where
  "find_original B g u_id v_id [] st = st"
| "find_original B g u_id v_id (w # ws) (orig_u, orig_v) =
     (let orig_u' = (if np_id (g_node B g w) = u_id then Some w else orig_u);
          orig_v' = (if np_id (g_node B g w) = v_id then Some w else orig_v)
      in if orig_u' \<noteq> None \<and> orig_v' \<noteq> None then (orig_u', orig_v')
         else find_original B g u_id v_id ws (orig_u', orig_v'))"

definition update_request :: "int \<Rightarrow> int \<Rightarrow> double \<Rightarrow> double \<Rightarrow> waypoint list \<Rightarrow> edge_request" where
  "update_request source_id target_id d c ws =
     \<lparr>er_source_id = source_id, er_target_id = target_id, er_planned_distance = d, er_planned_cost = c,
      er_path = \<lparr>path_frame_id = ''ifc'', path_poses = map (pose_of_waypoint []) ws\<rparr>, er_defer_save = False\<rparr>"

text \<open>
  The planning of the popped edge \<open>(u, v)\<close>: its path, distance and cost. A newly computed path is
  sent to the map server unless the edge touches the start or the goal.
\<close>

definition plan_edge ::
  "('g, 'e) bgl \<Rightarrow> 'w planner_env \<Rightarrow> bool \<Rightarrow> Vertex \<Rightarrow> Vertex \<Rightarrow> Vertex \<Rightarrow> Vertex \<Rightarrow> EdgeProperties \<Rightarrow>
     ('g, 'h, 'k, 'w) search \<Rightarrow> (cpp_exception option \<times> planned \<times> ('g, 'h, 'k, 'w) search)" where
  "plan_edge B env reuse_paths start goal u v edge_data st =
     (if should_reuse reuse_paths edge_data
      then (None, (ep_path edge_data, ep_planned_distance edge_data, ep_planned_cost edge_data), st)
      else
        let g = sx_graph st;
            u_id = np_id (g_node B g u); v_id = np_id (g_node B g v);
            start_coords = (pos_x (np_position (g_node B g u)), pos_y (np_position (g_node B g u)),
              pos_z (np_position (g_node B g u)));
            end_coords = (pos_x (np_position (g_node B g v)), pos_y (np_position (g_node B g v)),
              pos_z (np_position (g_node B g v)));
            (floor_name, room_name) =
              (case find_original B g u_id v_id (g_vertices B g) (None, None) of
                 (Some orig_u, Some orig_v) \<Rightarrow>
                   (getFloorOfEdge B g orig_u orig_v, getRoomNameOfEdge B g orig_u orig_v)
               | _ \<Rightarrow> ([], []));
            ((path_opt, d, c), w) = pe_second_level env floor_name room_name start_coords end_coords (sx_world st);
            st1 = st\<lparr>sx_world := w, sx_second_level_count := sx_second_level_count st + 1\<rparr>
        in case (path_opt, pe_update_edge env) of
             (Some ws, Some invoke) \<Rightarrow>
               if u \<noteq> start \<and> u \<noteq> goal \<and> v \<noteq> start \<and> v \<noteq> goal
               then (case invoke (update_request u_id v_id d c ws) w of
                       Inl exn \<Rightarrow> (Some exn, (path_opt, d, c), st1)
                     | Inr w' \<Rightarrow> (None, (path_opt, d, c), st1\<lparr>sx_world := w'\<rparr>))
               else (None, (path_opt, d, c), st1)
           | _ \<Rightarrow> (None, (path_opt, d, c), st1))"

definition planned_props :: "planned \<Rightarrow> EdgeProperties \<Rightarrow> EdgeProperties" where
  "planned_props p q =
     (case p of
        (None, d, c) \<Rightarrow> q\<lparr>ep_planned_distance := PosInf, ep_planned_cost := PosInf, ep_path := None\<rparr>
      | (Some ws, d, c) \<Rightarrow> q\<lparr>ep_planned_distance := d, ep_planned_cost := c, ep_path := Some ws\<rparr>)"

section \<open>Relaxation\<close>

text \<open>The new key of an open edge next to an updated node.\<close>

definition refresh_edge ::
  "('g, 'e) bgl \<Rightarrow> ('h, 'k) heap_ops \<Rightarrow> Vertex set \<Rightarrow> real \<Rightarrow> Vertex \<Rightarrow> ('g, 'h, 'k, 'w) search \<Rightarrow>
     Vertex \<Rightarrow> Vertex \<Rightarrow> 'h \<times> (Vertex \<times> Vertex) set \<Rightarrow> 'h \<times> (Vertex \<times> Vertex) set" where
  "refresh_edge B H disabled z goal st node neighbor acc =
     (case acc of (heap, updated_edges) \<Rightarrow>
        if sx_came_from st node = Some neighbor \<or> edge_key node neighbor \<in> updated_edges then acc
        else
          let (edge_u, edge_v) = edge_key node neighbor;
              updated_edges' = insert (edge_u, edge_v) updated_edges
          in case sx_edge_to_handle st (edge_u, edge_v) of
               None \<Rightarrow> (heap, updated_edges')
             | Some handle \<Rightarrow>
                 let (edge_pre, edge_suc) =
                       (if dle (g_score (sx_g_score st) edge_u) (g_score (sx_g_score st) edge_v)
                        then (edge_u, edge_v) else (edge_v, edge_u));
                     new_f_score = dadd (dadd (g_score (sx_g_score st) edge_pre)
                       (h1_score B disabled (sx_graph st) edge_pre edge_suc))
                       (h2_score B z goal (sx_graph st) edge_suc)
                 in if dlt new_f_score (oe_f_score (hp_value H heap handle))
                    then (hp_update H handle \<lparr>oe_u = edge_u, oe_v = edge_v, oe_f_score = new_f_score\<rparr> heap,
                          updated_edges')
                    else (heap, updated_edges'))"

definition refresh_open ::
  "('g, 'e) bgl \<Rightarrow> ('h, 'k) heap_ops \<Rightarrow> Vertex set \<Rightarrow> real \<Rightarrow> Vertex \<Rightarrow> Vertex list \<Rightarrow>
     ('g, 'h, 'k, 'w) search \<Rightarrow> ('g, 'h, 'k, 'w) search" where
  "refresh_open B H disabled z goal nodes st =
     st\<lparr>sx_open_heap := fst (fold (\<lambda>node. fold (refresh_edge B H disabled z goal st node)
           (f_neighbours B disabled node (sx_graph st))) nodes (sx_open_heap st, {}))\<rparr>"

definition relax ::
  "('g, 'e) bgl \<Rightarrow> ('h, 'k) heap_ops \<Rightarrow> (Vertex set \<Rightarrow> Vertex list) \<Rightarrow> Vertex set \<Rightarrow> real \<Rightarrow> Vertex \<Rightarrow>
     Vertex \<Rightarrow> Vertex \<Rightarrow> double \<Rightarrow> ('g, 'h, 'k, 'w) search \<Rightarrow> ('g, 'h, 'k, 'w) search option" where
  "relax B H ord disabled z goal pre suc tentative st =
     (if dlt tentative (g_score (sx_g_score st) suc)
      then
        let cf = (sx_came_from st)(suc \<mapsto> pre);
            diff = dsub (g_score (sx_g_score st) suc) tentative;
            gs = (sx_g_score st)(suc \<mapsto> tentative);
            entries = came_from_entries ord cf
        in map_option (\<lambda>(gs', updated_nodes).
             refresh_open B H disabled z goal (ord updated_nodes) (st\<lparr>sx_came_from := cf, sx_g_score := gs'\<rparr>))
             (update_g_score_recursively entries diff suc entries (gs, {suc}))
      else Some st)"

section \<open>The open set\<close>

definition push_open ::
  "('h, 'k) heap_ops \<Rightarrow> Vertex \<Rightarrow> Vertex \<Rightarrow> double \<Rightarrow> ('g, 'h, 'k, 'w) search \<Rightarrow> ('g, 'h, 'k, 'w) search" where
  "push_open H u v f st =
     (case hp_push H \<lparr>oe_u = fst (edge_key u v), oe_v = snd (edge_key u v), oe_f_score = f\<rparr> (sx_open_heap st) of
        (handle, heap) \<Rightarrow>
          st\<lparr>sx_open_heap := heap, sx_edge_to_handle := (sx_edge_to_handle st)(edge_key u v \<mapsto> handle)\<rparr>)"

definition push_neighbour ::
  "('g, 'e) bgl \<Rightarrow> ('h, 'k) heap_ops \<Rightarrow> Vertex set \<Rightarrow> real \<Rightarrow> Vertex \<Rightarrow> Vertex \<Rightarrow> Vertex \<Rightarrow> Vertex \<Rightarrow>
     ('g, 'h, 'k, 'w) search \<Rightarrow> ('g, 'h, 'k, 'w) search" where
  "push_neighbour B H disabled z goal pre suc neighbor st =
     (if neighbor = pre \<or> edge_key suc neighbor \<in> sx_closed_set st \<or>
         sx_edge_to_handle st (edge_key suc neighbor) \<noteq> None
      then st
      else push_open H suc neighbor
             (dadd (dadd (g_score (sx_g_score st) suc) (h1_score B disabled (sx_graph st) suc neighbor))
               (h2_score B z goal (sx_graph st) neighbor)) st)"

definition initial_search ::
  "('g, 'e) bgl \<Rightarrow> ('h, 'k) heap_ops \<Rightarrow> Vertex set \<Rightarrow> real \<Rightarrow> Vertex \<Rightarrow> Vertex \<Rightarrow> 'g \<Rightarrow> 'w \<Rightarrow>
     ('g, 'h, 'k, 'w) search" where
  "initial_search B H disabled z start goal g w =
     fold (\<lambda>neighbor st. push_open H start neighbor
         (dadd (h1_score B disabled g start neighbor) (h2_score B z goal g neighbor)) st)
       (f_neighbours B disabled start g)
       \<lparr>sx_graph = g,
        sx_g_score = (\<lambda>v. if v < g_num_vertices B g \<and> v \<notin> disabled then Some PosInf else None)(start \<mapsto> Fin 0),
        sx_came_from = Map.empty, sx_closed_set = {}, sx_open_heap = hp_empty H,
        sx_edge_to_handle = Map.empty, sx_best_score = PosInf, sx_second_level_count = 0, sx_world = w\<rparr>"

section \<open>The loop\<close>

datatype ('g, 'h, 'k, 'w) step_result =
    Threw cpp_exception "('g, 'h, 'k, 'w) search"
  | Stopped "('g, 'h, 'k, 'w) search"
  | Running "('g, 'h, 'k, 'w) search"

text \<open>What follows the planning of the edge: relaxation, best score, new open edges, early exit.\<close>

definition explore ::
  "('g, 'e) bgl \<Rightarrow> ('h, 'k) heap_ops \<Rightarrow> (Vertex set \<Rightarrow> Vertex list) \<Rightarrow> Vertex set \<Rightarrow> real \<Rightarrow> Vertex \<Rightarrow>
     Vertex \<Rightarrow> Vertex \<Rightarrow> double \<Rightarrow> ('g, 'h, 'k, 'w) search \<Rightarrow> ('g, 'h, 'k, 'w) step_result option" where
  "explore B H ord disabled z goal u v planned_cost st =
     (let (pre, suc) = (if dle (g_score (sx_g_score st) u) (g_score (sx_g_score st) v) then (u, v) else (v, u));
          tentative = dadd (g_score (sx_g_score st) pre) planned_cost
      in map_option (\<lambda>st1.
           let g_suc = g_score (sx_g_score st1) suc;
               st2 = (if suc = goal \<and> dlt g_suc (sx_best_score st1) then st1\<lparr>sx_best_score := g_suc\<rparr> else st1);
               st3 = fold (push_neighbour B H disabled z goal pre suc)
                       (f_neighbours B disabled suc (sx_graph st2)) st2
           in if \<not> hp_is_empty H (sx_open_heap st3) \<and>
                 dle (sx_best_score st3) (oe_f_score (hp_top H (sx_open_heap st3)))
              then Stopped st3 else Running st3)
         (relax B H ord disabled z goal pre suc tentative st))"

definition astar_step ::
  "('g, 'e) bgl \<Rightarrow> ('h, 'k) heap_ops \<Rightarrow> (Vertex set \<Rightarrow> Vertex list) \<Rightarrow> 'w planner_env \<Rightarrow> Vertex set \<Rightarrow> real \<Rightarrow>
     bool \<Rightarrow> Vertex \<Rightarrow> Vertex \<Rightarrow> ('g, 'h, 'k, 'w) search \<Rightarrow> ('g, 'h, 'k, 'w) step_result option" where
  "astar_step B H ord env disabled z reuse_paths start goal st0 =
     (let current_edge = hp_top H (sx_open_heap st0);
          u = oe_u current_edge; v = oe_v current_edge;
          st = st0\<lparr>sx_open_heap := hp_pop H (sx_open_heap st0),
                   sx_edge_to_handle := (sx_edge_to_handle st0)((u, v) := None)\<rparr>
      in case f_edge B disabled u v (sx_graph st) of
           None \<Rightarrow> Some (Running st)
         | Some e \<Rightarrow>
             (case plan_edge B env reuse_paths start goal u v (g_eprops B (sx_graph st) e) st of
                (Some exn, p, st1) \<Rightarrow> Some (Threw exn st1)
              | (None, p, st1) \<Rightarrow>
                  let q = planned_props p (g_eprops B (sx_graph st1) e);
                      st2 = st1\<lparr>sx_graph := g_set_eprops B e q (sx_graph st1),
                                sx_closed_set := insert (u, v) (sx_closed_set st1)\<rparr>
                  in explore B H ord disabled z goal u v (ep_planned_cost q) st2))"

partial_function (option) astar_loop ::
  "('g, 'e) bgl \<Rightarrow> ('h, 'k) heap_ops \<Rightarrow> (Vertex set \<Rightarrow> Vertex list) \<Rightarrow> 'w planner_env \<Rightarrow> Vertex set \<Rightarrow> real \<Rightarrow>
     bool \<Rightarrow> Vertex \<Rightarrow> Vertex \<Rightarrow> ('g, 'h, 'k, 'w) search \<Rightarrow>
     (cpp_exception option \<times> ('g, 'h, 'k, 'w) search) option" where
  "astar_loop B H ord env disabled z reuse_paths start goal st =
     (if hp_is_empty H (sx_open_heap st) then Some (None, st)
      else case astar_step B H ord env disabled z reuse_paths start goal st of
             None \<Rightarrow> None
           | Some (Threw exn st') \<Rightarrow> Some (Some exn, st')
           | Some (Stopped st') \<Rightarrow> Some (None, st')
           | Some (Running st') \<Rightarrow> astar_loop B H ord env disabled z reuse_paths start goal st')"

section \<open>The result\<close>

definition append_segment ::
  "('g, 'e) bgl \<Rightarrow> Vertex set \<Rightarrow> 'g \<Rightarrow> Vertex \<times> Vertex \<Rightarrow> waypoint list \<times> double \<times> double \<Rightarrow>
     waypoint list \<times> double \<times> double" where
  "append_segment B disabled g uv acc =
     (case (uv, acc) of ((u, v), (detailed_path, total_distance, total_cost)) \<Rightarrow>
        case f_edge B disabled u v g of
          None \<Rightarrow> acc
        | Some e \<Rightarrow>
            (case ep_path (g_eprops B g e) of
               None \<Rightarrow> acc
             | Some segment_path \<Rightarrow>
                 (detailed_path @ (if np_id (g_node B g u) < np_id (g_node B g v) then segment_path else rev segment_path),
                  dadd total_distance (ep_planned_distance (g_eprops B g e)),
                  dadd total_cost (ep_planned_cost (g_eprops B g e)))))"

definition no_path :: TopomapPlannerResult where
  "no_path = \<lparr>pr_coarse_path = [], pr_detailed_path = [], pr_total_distance = PosInf, pr_total_cost = PosInf,
     pr_success = False\<rparr>"

definition build_result ::
  "('g, 'e) bgl \<Rightarrow> Vertex set \<Rightarrow> Vertex \<Rightarrow> ('g, 'h, 'k, 'w) search \<Rightarrow> TopomapPlannerResult option" where
  "build_result B disabled goal st =
     (if dlt (sx_best_score st) PosInf
      then map_option (\<lambda>back.
             let coarse_path = rev back;
                 (detailed_path, total_distance, total_cost) =
                   fold (append_segment B disabled (sx_graph st)) (zip coarse_path (tl coarse_path)) ([], Fin 0, Fin 0)
             in \<lparr>pr_coarse_path = coarse_path, pr_detailed_path = detailed_path,
                 pr_total_distance = total_distance, pr_total_cost = total_cost, pr_success = True\<rparr>)
           (trace_back (sx_came_from st) goal [goal])
      else Some no_path)"

text \<open>
  The outcome (a result or an exception), the graph, whose edges the search has filled in, the
  world, and the number of second-level calls. \<^const>\<open>None\<close> stands for not returning.
\<close>

definition planTopomapPath ::
  "('g, 'e) bgl \<Rightarrow> ('h, 'k) heap_ops \<Rightarrow> (Vertex set \<Rightarrow> Vertex list) \<Rightarrow> 'w planner_env \<Rightarrow> 'g \<Rightarrow> Vertex \<Rightarrow>
     Vertex \<Rightarrow> Vertex set \<Rightarrow> real \<Rightarrow> bool \<Rightarrow> 'w \<Rightarrow>
     (TopomapPlannerResult result \<times> 'g \<times> 'w \<times> nat) option" where
  "planTopomapPath B H ord env g start_vertex goal_vertex disabled_vertices z reuse_paths w =
     (if start_vertex \<in> disabled_vertices \<or> goal_vertex \<in> disabled_vertices
      then Some (Inr no_path, g, w, 0)
      else case astar_loop B H ord env disabled_vertices z reuse_paths start_vertex goal_vertex
                  (initial_search B H disabled_vertices z start_vertex goal_vertex g w) of
             None \<Rightarrow> None
           | Some (Some exn, st) \<Rightarrow> Some (Inl exn, sx_graph st, sx_world st, sx_second_level_count st)
           | Some (None, st) \<Rightarrow>
               map_option (\<lambda>r. (Inr r, sx_graph st, sx_world st, sx_second_level_count st))
                 (build_result B disabled_vertices goal_vertex st))"

end
