(* ===== verification/Planner_Correct.thy ===== *)
theory Planner_Correct
  imports Topomap_Planner
begin

text \<open>
  What \<open>planTopomapPath\<close> guarantees. The contracts of the Fibonacci heap and of the unordered
  containers are locales; the locale \<open>planner\<close> adds the assumptions on one query (costs are finite
  and not negative, the start has no parallel edges) and holds the invariant of the search.
\<close>

section \<open>Contracts of the containers\<close>

text \<open>\<open>entries\<close> is the content of a heap: what each live handle refers to.\<close>

locale fib_heap =
  fixes H :: "('h, 'k) heap_ops" and entries :: "'h \<Rightarrow> 'k \<rightharpoonup> OpenSetEdge"
  assumes heap_empty: "entries (hp_empty H) = Map.empty"
    and heap_is_empty: "hp_is_empty H h \<longleftrightarrow> entries h = Map.empty"
    and heap_push: "hp_push H x h = (k, h') \<Longrightarrow> entries h k = None \<and> entries h' = (entries h)(k \<mapsto> x)"
    and heap_pop: "entries h \<noteq> Map.empty \<Longrightarrow>
          \<exists>k. entries h k = Some (hp_top H h) \<and> entries (hp_pop H h) = (entries h)(k := None)"
    and heap_top_least: "entries h k = Some x \<Longrightarrow> NaN \<notin> oe_f_score ` ran (entries h) \<Longrightarrow>
          \<not> dlt (oe_f_score x) (oe_f_score (hp_top H h))"
    and heap_update: "entries h k \<noteq> None \<Longrightarrow> entries (hp_update H k x h) = (entries h)(k \<mapsto> x)"
    and heap_value: "entries h k = Some x \<Longrightarrow> hp_value H h k = x"

locale unordered =
  fixes ord :: "Vertex set \<Rightarrow> Vertex list"
  assumes ord_set: "finite S \<Longrightarrow> set (ord S) = S" and ord_distinct: "finite S \<Longrightarrow> distinct (ord S)"

section \<open>Containers that satisfy them\<close>

text \<open>A heap as a list of slots: the handle of an entry is its slot, which is emptied when it is popped.\<close>

type_synonym slot_heap = "OpenSetEdge option list"

definition slots :: "slot_heap \<Rightarrow> nat \<rightharpoonup> OpenSetEdge" where
  "slots h k = (if k < length h then h ! k else None)"

definition lesser :: "slot_heap \<Rightarrow> nat \<Rightarrow> nat option \<Rightarrow> nat option" where
  "lesser h i best =
     (case h ! i of
        None \<Rightarrow> best
      | Some x \<Rightarrow>
          (case best of
             None \<Rightarrow> Some i
           | Some j \<Rightarrow> if dlt (oe_f_score x) (oe_f_score (the (h ! j))) then Some i else best))"

definition least_slot :: "slot_heap \<Rightarrow> nat option" where
  "least_slot h = fold (lesser h) [0..<length h] None"

definition slot_heap_ops :: "(slot_heap, nat) heap_ops" where
  "slot_heap_ops =
     \<lparr>hp_empty = [],
      hp_is_empty = (\<lambda>h. least_slot h = None),
      hp_top = (\<lambda>h. the (h ! the (least_slot h))),
      hp_pop = (\<lambda>h. h[the (least_slot h) := None]),
      hp_push = (\<lambda>x h. (length h, h @ [Some x])),
      hp_update = (\<lambda>k x h. h[k := Some x]),
      hp_value = (\<lambda>h k. the (h ! k))\<rparr>"

lemma least_slot_loop:
  assumes "n \<le> length h"
  shows "case fold (lesser h) [0..<n] None of
      None \<Rightarrow> \<forall>k < n. h ! k = None
    | Some i \<Rightarrow> i < n \<and> h ! i \<noteq> None \<and> (NaN \<notin> oe_f_score ` ran (slots h) \<longrightarrow>
        (\<forall>k < n. \<forall>x. h ! k = Some x \<longrightarrow> \<not> dlt (oe_f_score x) (oe_f_score (the (h ! i)))))"
  using assms
proof (induction n)
  case (Suc n)
  have trans: "\<not> dlt a b \<Longrightarrow> \<not> dlt b c \<Longrightarrow> b \<noteq> NaN \<Longrightarrow> \<not> dlt a c" for a b c
    by (cases a; cases b; cases c) auto
  have asym: "dlt a b \<Longrightarrow> \<not> dlt b a" for a b by (cases a; cases b) auto
  have ran: "x \<in> ran (slots h)" if "h ! k = Some x" "k < Suc n" for k x
    using that Suc.prems by (auto simp: ran_def slots_def intro!: exI [of _ k])
  show ?case
  proof (cases "fold (lesser h) [0..<n] None")
    case None
    with Suc show ?thesis by (auto simp: lesser_def [of h n] less_Suc_eq split: option.splits)
  next
    case (Some i)
    with Suc have i: "i < n" "h ! i \<noteq> None" and least: "NaN \<notin> oe_f_score ` ran (slots h) \<Longrightarrow> k < n \<Longrightarrow> h ! k = Some x \<Longrightarrow>
        \<not> dlt (oe_f_score x) (oe_f_score (the (h ! i)))" for k x
      by auto
    show ?thesis
    proof (cases "\<exists>x. h ! n = Some x \<and> dlt (oe_f_score x) (oe_f_score (the (h ! i)))")
      case True
      then obtain x where x: "h ! n = Some x" "dlt (oe_f_score x) (oe_f_score (the (h ! i)))" by blast
      have "\<not> dlt (oe_f_score y) (oe_f_score x)"
        if nan: "NaN \<notin> oe_f_score ` ran (slots h)" and y: "k < n" "h ! k = Some y" for k y
      proof -
        obtain w where w: "h ! i = Some w" using i(2) by blast
        then have "oe_f_score w \<noteq> NaN" using nan ran [OF w] i(1) by (metis image_eqI less_SucI)
        with trans least [OF nan y] asym [OF x(2)] w show ?thesis by fastforce
      qed
      with x Some i show ?thesis by (auto simp: lesser_def [of h n] less_Suc_eq)
    next
      case False
      with Some i least show ?thesis by (auto simp: lesser_def [of h n] less_Suc_eq split: option.splits)
    qed
  qed
qed simp

interpretation sh: fib_heap slot_heap_ops slots
proof (unfold_locales, goal_cases)
  case (2 h)
  show ?case
    using least_slot_loop [of "length h" h]
    by (auto simp: slot_heap_ops_def least_slot_def slots_def fun_eq_iff split: option.splits)
next
  case (4 h)
  then obtain i where "least_slot h = Some i" "i < length h" "h ! i \<noteq> None"
    using least_slot_loop [of "length h" h]
    by (auto simp: least_slot_def slots_def fun_eq_iff split: option.splits if_splits)
  then show ?case
    by (intro exI [of _ i]) (auto simp: slot_heap_ops_def slots_def fun_eq_iff nth_list_update)
next
  case (5 h k x)
  then have "k < length h" "h ! k = Some x" by (auto simp: slots_def split: if_splits)
  with 5(2) least_slot_loop [of "length h" h] show ?case
    by (auto simp: slot_heap_ops_def least_slot_def split: option.splits)
qed (auto simp: slot_heap_ops_def slots_def fun_eq_iff nth_append nth_list_update split: if_splits)

interpretation uo: unordered sorted_list_of_set
  by unfold_locales simp_all

section \<open>The filtered graph\<close>

context boost_graph
begin

lemma f_edge_Some:
  assumes "f_edge B D u v g = Some e"
  shows "e \<in> set (g_edges B g)" and "{g_source B g e, g_target B g e} = {u, v}" and "u \<notin> D" and "v \<notin> D"
proof -
  have e: "g_edge B u v g = Some e" "edge_enabled B g D e"
    using assms by (auto simp: f_edge_def split: option.splits if_splits)
  then obtain i where "i < length (g_edges B g)" "g_edges B g ! i = e" and j: "joins u v (edge_view_of B g e)"
    using edge_Some by blast
  then show "e \<in> set (g_edges B g)" by auto
  from j show ends: "{g_source B g e, g_target B g e} = {u, v}" by (auto simp: edge_view_of_def)
  then show "u \<notin> D" "v \<notin> D" using e(2) by (auto simp: edge_enabled_def doubleton_eq_iff)
qed

lemma f_edge_sym: "f_edge B D u v g = f_edge B D v u g"
  by (simp add: f_edge_def edge_sym [of u v])

lemma f_edge_key:
  assumes "f_edge B D u v g = Some e" and "f_edge B D u' v' g = Some e"
  shows "edge_key u v = edge_key u' v'"
  using f_edge_Some(2) [OF assms(1)] f_edge_Some(2) [OF assms(2)]
  by (auto simp: edge_key_def doubleton_eq_iff min.commute max.commute)

lemma f_edge_range:
  assumes "wf_graph B g" and "f_edge B D u v g = Some e"
  shows "u < g_num_vertices B g" and "v < g_num_vertices B g"
proof -
  have "g_source B g e < g_num_vertices B g" "g_target B g e < g_num_vertices B g"
    using assms(1) f_edge_Some(1) [OF assms(2)]
    by (auto simp: wf_graph_def edges_view_def edge_view_of_def list_all_iff)
  with f_edge_Some(2) [OF assms(2)] show "u < g_num_vertices B g" "v < g_num_vertices B g"
    by (auto simp: doubleton_eq_iff)
qed

lemma f_edge_shape:
  assumes "same_shape B g g'"
  shows "f_edge B D u v g' = f_edge B D u v g"
  using assms edge_Some [of u v g]
  by (fastforce simp: f_edge_def same_shape_def edge_enabled_def split: option.splits)

lemma f_neighbours_iff: "w \<in> set (f_neighbours B D v g) \<longleftrightarrow> f_edge B D v w g \<noteq> None"
proof
  assume "w \<in> set (f_neighbours B D v g)"
  then obtain e where e: "(e, w) \<in> set (g_out_edges B v g)" "edge_enabled B g D e" "w \<notin> D"
    by (auto simp: f_neighbours_def)
  then have j: "e \<in> set (g_edges B g)" "joins v w (edge_view_of B g e)" using out_edges_view by blast+
  then have "edge_view_of B g e \<in> set (edges_view B g)" by (simp add: edges_view_def)
  with j(2) obtain e' where e': "g_edge B v w g = Some e'" using edge_None [of v w g] by (metis option.exhaust)
  obtain i where "joins v w (edge_view_of B g e')" using edge_Some [OF e'] by blast
  with e(2) j(2) have "edge_enabled B g D e'" by (auto simp: edge_enabled_def edge_view_of_def)
  with e' show "f_edge B D v w g \<noteq> None" by (simp add: f_edge_def)
next
  assume "f_edge B D v w g \<noteq> None"
  then obtain e where e: "f_edge B D v w g = Some e" by blast
  then obtain i where i: "i < length (g_edges B g)" "g_edges B g ! i = e" "joins v w (edge_view_of B g e)"
    using edge_Some [of v w g e] by (auto simp: f_edge_def split: option.splits if_splits)
  then have "edge_view_of B g e \<in> set (edges_view B g)" by (auto simp: edges_view_def)
  moreover have "w \<in> set (neighbours v (edge_view_of B g e))" using i(3) by (auto simp: edge_view_of_def)
  ultimately have "w \<in> set (g_adjacent_vertices B v g)" by (auto simp: adjacent_view)
  then obtain e' where e': "(e', w) \<in> set (g_out_edges B v g)" by (auto simp: g_adjacent_vertices_def)
  then have "joins v w (edge_view_of B g e')" using out_edges_view by blast
  with f_edge_Some(3,4) [OF e] have "edge_enabled B g D e'" by (auto simp: edge_enabled_def edge_view_of_def)
  with e' f_edge_Some(4) [OF e] show "w \<in> set (f_neighbours B D v g)" by (force simp: f_neighbours_def)
qed

lemma links_f_edge:
  assumes "(x, y) \<in> links (enabled_ends B g D)"
  shows "f_edge B D x y g \<noteq> None"
proof -
  have edge: "f_edge B D s t g \<noteq> None" if "(s, t) \<in> set (enabled_ends B g D)" for s t
  proof -
    from that obtain e where e: "e \<in> set (g_edges B g)" "g_source B g e = s" "g_target B g e = t" "s \<notin> D" "t \<notin> D"
      by (auto simp: enabled_ends_def edge_ends_def)
    then have "edge_view_of B g e \<in> set (edges_view B g)" "joins s t (edge_view_of B g e)"
      by (auto simp: edges_view_def edge_view_of_def)
    then obtain e' where e': "g_edge B s t g = Some e'" using edge_None [of s t g] by (metis option.exhaust)
    then have "edge_enabled B g D e'"
      using edge_Some [OF e'] e(4,5) by (auto simp: edge_enabled_def edge_view_of_def)
    with e' show ?thesis by (simp add: f_edge_def)
  qed
  from assms have "(x, y) \<in> set (enabled_ends B g D) \<or> (y, x) \<in> set (enabled_ends B g D)" by (simp add: links_def)
  with edge show ?thesis using f_edge_sym [of D x y g] by metis
qed

lemma f_neighbours_shape:
  assumes "same_shape B g g'"
  shows "f_neighbours B D v g' = f_neighbours B D v g"
proof -
  have "edge_enabled B g' D e = edge_enabled B g D e" if "(e, w) \<in> set (g_out_edges B v g)" for e w
    using assms out_edges_view [OF that] by (simp add: same_shape_def edge_enabled_def)
  then have "filter (\<lambda>(e, w). edge_enabled B g' D e \<and> w \<notin> D) (g_out_edges B v g) =
      filter (\<lambda>(e, w). edge_enabled B g D e \<and> w \<notin> D) (g_out_edges B v g)"
    by (intro filter_cong) auto
  then show ?thesis using assms by (simp add: f_neighbours_def same_shape_def)
qed

end

lemma edge_key_sym: "edge_key u v = edge_key v u"
  by (simp add: edge_key_def min.commute max.commute)

lemma edge_key_le [simp]: "u \<le> v \<Longrightarrow> edge_key u v = (u, v)"
  by (simp add: edge_key_def)

lemma edge_key_inject: "edge_key s v = edge_key s w \<Longrightarrow> v = w"
  by (auto simp: edge_key_def min_def max_def split: if_splits)

text \<open>The cost of the edge between two vertices.\<close>

definition edge_cost :: "('g, 'e) bgl \<Rightarrow> Vertex set \<Rightarrow> 'g \<Rightarrow> Vertex \<Rightarrow> Vertex \<Rightarrow> double" where
  "edge_cost B D g x p =
     (case f_edge B D x p g of None \<Rightarrow> NaN | Some e \<Rightarrow> ep_planned_cost (g_eprops B g e))"

definition nonneg :: "double \<Rightarrow> bool" where
  "nonneg d \<longleftrightarrow> (\<exists>r. d = Fin r \<and> 0 \<le> r)"

text \<open>The assumptions on the costs: of the second-level planner, and of the paths kept with the map.\<close>

definition second_level_nonneg :: "'w planner_env \<Rightarrow> bool" where
  "second_level_nonneg env \<longleftrightarrow>
     (\<forall>fl rm p q w ws d c w'. pe_second_level env fl rm p q w = ((Some ws, d, c), w') \<longrightarrow> nonneg c)"

definition cached_nonneg :: "('g, 'e) bgl \<Rightarrow> bool \<Rightarrow> 'g \<Rightarrow> bool" where
  "cached_nonneg B reuse g \<longleftrightarrow>
     list_all (\<lambda>e. should_reuse reuse (g_eprops B g e) \<longrightarrow> nonneg (ep_planned_cost (g_eprops B g e))) (g_edges B g)"

text \<open>What a result has to be.\<close>

definition is_route :: "('g, 'e) bgl \<Rightarrow> Vertex set \<Rightarrow> 'g \<Rightarrow> Vertex \<Rightarrow> Vertex \<Rightarrow> Vertex list \<Rightarrow> bool" where
  "is_route B D g start goal xs \<longleftrightarrow> xs \<noteq> [] \<and> hd xs = start \<and> last xs = goal \<and>
     (\<forall>(x, y) \<in> set (steps xs). \<exists>e. f_edge B D x y g = Some e \<and> ep_path (g_eprops B g e) \<noteq> None)"

definition route_cost :: "('g, 'e) bgl \<Rightarrow> Vertex set \<Rightarrow> 'g \<Rightarrow> Vertex list \<Rightarrow> double" where
  "route_cost B D g xs = fold (\<lambda>(x, y) t. dadd t (edge_cost B D g x y)) (steps xs) (Fin 0)"

definition result_ok :: "('g, 'e) bgl \<Rightarrow> Vertex set \<Rightarrow> 'g \<Rightarrow> Vertex \<Rightarrow> Vertex \<Rightarrow> TopomapPlannerResult \<Rightarrow> bool" where
  "result_ok B D g start goal r \<longleftrightarrow>
     (if pr_success r
      then is_route B D g start goal (pr_coarse_path r) \<and> pr_total_cost r = route_cost B D g (pr_coarse_path r) \<and>
        (\<exists>c \<ge> 0. pr_total_cost r = Fin c)
      else r = no_path)"

section \<open>The invariant of the search\<close>

definition in_open :: "('g, 'h, 'k, 'w) search \<Rightarrow> Vertex \<times> Vertex \<Rightarrow> bool" where
  "in_open st key \<longleftrightarrow> sx_edge_to_handle st key \<noteq> None"

locale planner = boost_graph B + fib_heap H entries + unordered ord
  for B :: "('g, 'e) bgl" and H :: "('h, 'k) heap_ops" and entries :: "'h \<Rightarrow> 'k \<rightharpoonup> OpenSetEdge"
    and ord :: "Vertex set \<Rightarrow> Vertex list" +
  fixes env :: "'w planner_env" and D :: "Vertex set" and z :: real and reuse :: bool
    and start goal :: Vertex and g0 :: 'g
  assumes wf0: "wf_graph B g0"
    and endpoints: "start < g_num_vertices B g0" "start \<notin> D" "goal < g_num_vertices B g0" "goal \<notin> D" "start \<noteq> goal"
    and simple_start: "distinct (f_neighbours B D start g0)"
    and env_nonneg: "second_level_nonneg env"
    and cached0: "cached_nonneg B reuse g0"
begin

definition heap_ok :: "('g, 'h, 'k, 'w) search \<Rightarrow> bool" where
  "heap_ok st \<longleftrightarrow>
     (\<forall>k x. entries (sx_open_heap st) k = Some x \<longrightarrow>
        oe_u x \<le> oe_v x \<and> f_edge B D (oe_u x) (oe_v x) g0 \<noteq> None \<and>
        sx_edge_to_handle st (oe_u x, oe_v x) = Some k \<and> (oe_u x, oe_v x) \<notin> sx_closed_set st) \<and>
     (\<forall>key k. sx_edge_to_handle st key = Some k \<longrightarrow>
        (\<exists>x. entries (sx_open_heap st) k = Some x \<and> (oe_u x, oe_v x) = key))"

definition tree_ok :: "('g, 'h, 'k, 'w) search \<Rightarrow> bool" where
  "tree_ok st \<longleftrightarrow>
     scored (edge_cost B D (sx_graph st)) (sx_came_from st) (sx_g_score st) start \<and>
     (\<forall>x p. sx_came_from st x = Some p \<longrightarrow> edge_key x p \<in> sx_closed_set st \<and>
        (\<exists>e. f_edge B D x p (sx_graph st) = Some e \<and> ep_path (g_eprops B (sx_graph st) e) \<noteq> None)) \<and>
     (\<forall>v < g_num_vertices B g0. v \<notin> D \<longrightarrow> sx_g_score st v \<noteq> None \<and>
        (\<not> reached (sx_came_from st) start v \<longrightarrow> sx_g_score st v = Some PosInf))"

definition core :: "('g, 'h, 'k, 'w) search \<Rightarrow> bool" where
  "core st \<longleftrightarrow> same_shape B g0 (sx_graph st) \<and> cached_nonneg B reuse (sx_graph st) \<and> tree_ok st \<and> heap_ok st"

definition best_ok :: "('g, 'h, 'k, 'w) search \<Rightarrow> bool" where
  "best_ok st \<longleftrightarrow>
     (if sx_came_from st goal = None then sx_best_score st = PosInf else \<exists>b. sx_best_score st = Fin b)"

text \<open>Open edges.\<close>

lemma push_open_heap_ok:
  assumes "heap_ok st" and "f_edge B D u v g0 \<noteq> None" and "edge_key u v \<notin> sx_closed_set st"
    and "\<not> in_open st (edge_key u v)"
  shows "heap_ok (push_open H u v f st)"
proof -
  have assms4: "sx_edge_to_handle st (edge_key u v) = None" using assms(4) by (simp add: in_open_def)
  let ?x = "\<lparr>oe_u = fst (edge_key u v), oe_v = snd (edge_key u v), oe_f_score = f\<rparr>"
  obtain k h where p: "hp_push H ?x (sx_open_heap st) = (k, h)" by fastforce
  have h: "entries (sx_open_heap st) k = None" "entries h = (entries (sx_open_heap st))(k \<mapsto> ?x)"
    using heap_push [OF p] by blast+
  have e: "f_edge B D (fst (edge_key u v)) (snd (edge_key u v)) g0 \<noteq> None"
    using assms(2) f_edge_sym [of D u v g0] by (simp add: edge_key_def min_def max_def)
  have le: "fst (edge_key u v) \<le> snd (edge_key u v)" by (simp add: edge_key_def)
  have "oe_u x \<le> oe_v x \<and> f_edge B D (oe_u x) (oe_v x) g0 \<noteq> None \<and>
      ((sx_edge_to_handle st)(edge_key u v \<mapsto> k)) (oe_u x, oe_v x) = Some k' \<and> (oe_u x, oe_v x) \<notin> sx_closed_set st"
    if x: "entries h k' = Some x" for k' x
  proof (cases "k' = k")
    case True
    with x h(2) have "x = ?x" by simp
    with True e le assms(3) show ?thesis by simp
  next
    case False
    with x h(2) have "entries (sx_open_heap st) k' = Some x" by simp
    with assms(1) assms4 show ?thesis unfolding heap_ok_def by (metis fun_upd_other option.distinct(1))
  qed
  moreover have "\<exists>x. entries h k' = Some x \<and> (oe_u x, oe_v x) = key"
    if "((sx_edge_to_handle st)(edge_key u v \<mapsto> k)) key = Some k'" for key k'
  proof (cases "key = edge_key u v")
    case True
    with that h(2) show ?thesis by simp
  next
    case False
    with that assms(1) obtain x where "entries (sx_open_heap st) k' = Some x" "(oe_u x, oe_v x) = key"
      unfolding heap_ok_def by (metis fun_upd_other)
    with h show ?thesis by (metis fun_upd_other option.distinct(1))
  qed
  ultimately show ?thesis unfolding heap_ok_def push_open_def p by simp
qed

lemma push_open_keeps [simp]:
  "sx_graph (push_open H u v f st) = sx_graph st" "sx_g_score (push_open H u v f st) = sx_g_score st"
  "sx_came_from (push_open H u v f st) = sx_came_from st" "sx_closed_set (push_open H u v f st) = sx_closed_set st"
  "sx_best_score (push_open H u v f st) = sx_best_score st"
  by (simp_all add: push_open_def split: prod.split)

lemma push_open_handle:
  "in_open (push_open H u v f st) key \<longleftrightarrow> key = edge_key u v \<or> in_open st key"
  by (simp add: in_open_def push_open_def split: prod.split)

lemma tree_ok_cong:
  assumes "sx_graph st' = sx_graph st" and "sx_g_score st' = sx_g_score st" and "sx_came_from st' = sx_came_from st"
    and "sx_closed_set st \<subseteq> sx_closed_set st'"
  shows "tree_ok st \<Longrightarrow> tree_ok st'"
  using assms unfolding tree_ok_def by (simp, blast)

end

context planner
begin

text \<open>Filling the open set.\<close>

lemma core_cong:
  assumes "core st" and "heap_ok st'" and "sx_graph st' = sx_graph st" and "sx_g_score st' = sx_g_score st"
    and "sx_came_from st' = sx_came_from st" and "sx_closed_set st' = sx_closed_set st"
  shows "core st'"
  using assms tree_ok_cong [of st' st] unfolding core_def by simp

lemma push_start_fold:
  assumes "core st" and "distinct ns"
    and "\<forall>w \<in> set ns. f_edge B D start w g0 \<noteq> None \<and> edge_key start w \<notin> sx_closed_set st \<and>
           \<not> in_open st (edge_key start w)"
  shows "core (fold (\<lambda>w st. push_open H start w (f w) st) ns st) \<and>
    sx_came_from (fold (\<lambda>w st. push_open H start w (f w) st) ns st) = sx_came_from st \<and>
    sx_closed_set (fold (\<lambda>w st. push_open H start w (f w) st) ns st) = sx_closed_set st \<and>
    sx_best_score (fold (\<lambda>w st. push_open H start w (f w) st) ns st) = sx_best_score st \<and>
    (\<forall>w \<in> set ns. in_open (fold (\<lambda>w st. push_open H start w (f w) st) ns st) (edge_key start w)) \<and>
    (\<forall>key. in_open st key \<longrightarrow>
       in_open (fold (\<lambda>w st. push_open H start w (f w) st) ns st) key)"
  using assms
proof (induction ns arbitrary: st)
  case (Cons w ns)
  let ?st = "push_open H start w (f w) st"
  have "core ?st"
    using push_open_heap_ok [of st start w "f w"] Cons.prems core_cong [of st ?st] by (simp add: core_def)
  moreover have "\<forall>y \<in> set ns. f_edge B D start y g0 \<noteq> None \<and> edge_key start y \<notin> sx_closed_set ?st \<and>
      \<not> in_open ?st (edge_key start y)"
  proof
    fix y assume y: "y \<in> set ns"
    then have "edge_key start y \<noteq> edge_key start w" using Cons.prems(2) edge_key_inject by fastforce
    with y Cons.prems(3) push_open_handle [of start w "f w" st "edge_key start y"] show
      "f_edge B D start y g0 \<noteq> None \<and> edge_key start y \<notin> sx_closed_set ?st \<and> \<not> in_open ?st (edge_key start y)"
      by auto
  qed
  moreover have "distinct ns" using Cons.prems(2) by simp
  ultimately have ih: "core (fold (\<lambda>w st. push_open H start w (f w) st) ns ?st) \<and>
    sx_came_from (fold (\<lambda>w st. push_open H start w (f w) st) ns ?st) = sx_came_from ?st \<and>
    sx_closed_set (fold (\<lambda>w st. push_open H start w (f w) st) ns ?st) = sx_closed_set ?st \<and>
    sx_best_score (fold (\<lambda>w st. push_open H start w (f w) st) ns ?st) = sx_best_score ?st \<and>
    (\<forall>w \<in> set ns. in_open (fold (\<lambda>w st. push_open H start w (f w) st) ns ?st) (edge_key start w)) \<and>
    (\<forall>key. in_open ?st key \<longrightarrow>
       in_open (fold (\<lambda>w st. push_open H start w (f w) st) ns ?st) key)"
    by (intro Cons.IH)
  then show ?case using push_open_handle [of start w "f w" st] by (simp del: split_paired_All)
qed simp

lemma initial_core:
  fixes w :: 'w
  defines "st \<equiv> initial_search B H D z start goal g0 w"
  shows "core st \<and> best_ok st \<and> sx_came_from st = Map.empty \<and> sx_closed_set st = {} \<and>
    (\<forall>y. f_edge B D start y g0 \<noteq> None \<longrightarrow> in_open st (edge_key start y))"
proof -
  let ?st = "\<lparr>sx_graph = g0,
        sx_g_score = (\<lambda>v. if v < g_num_vertices B g0 \<and> v \<notin> D then Some PosInf else None)(start \<mapsto> Fin 0),
        sx_came_from = Map.empty, sx_closed_set = {}, sx_open_heap = hp_empty H,
        sx_edge_to_handle = Map.empty, sx_best_score = PosInf, sx_second_level_count = 0, sx_world = w\<rparr>
      :: ('g, 'h, 'k, 'w) search"
  have "core ?st"
    using cached0 heap_empty
    by (simp add: core_def same_shape_def tree_ok_def heap_ok_def scored_def is_tree_def reached_def)
  moreover have "\<forall>y \<in> set (f_neighbours B D start g0). f_edge B D start y g0 \<noteq> None \<and>
      edge_key start y \<notin> sx_closed_set ?st \<and> \<not> in_open ?st (edge_key start y)"
    using f_neighbours_iff by (simp add: in_open_def)
  ultimately show ?thesis
    using push_start_fold [OF _ simple_start, of ?st
        "\<lambda>y. dadd (h1_score B D g0 start y) (h2_score B z goal g0 y)"] f_neighbours_iff
    unfolding st_def initial_search_def best_ok_def by (simp add: in_open_def)
qed

lemma push_neighbour_eq:
  "push_neighbour B H D z goal pre suc w st =
     (if w = pre \<or> edge_key suc w \<in> sx_closed_set st \<or> in_open st (edge_key suc w) then st
      else push_open H suc w (dadd (dadd (g_score (sx_g_score st) suc) (h1_score B D (sx_graph st) suc w))
        (h2_score B z goal (sx_graph st) w)) st)"
  by (simp add: push_neighbour_def in_open_def)

lemma push_neighbour_fold:
  assumes "core st" and "\<forall>w \<in> set ns. f_edge B D suc w g0 \<noteq> None"
  shows "core (fold (push_neighbour B H D z goal pre suc) ns st) \<and>
    sx_came_from (fold (push_neighbour B H D z goal pre suc) ns st) = sx_came_from st \<and>
    sx_closed_set (fold (push_neighbour B H D z goal pre suc) ns st) = sx_closed_set st \<and>
    sx_best_score (fold (push_neighbour B H D z goal pre suc) ns st) = sx_best_score st \<and>
    sx_graph (fold (push_neighbour B H D z goal pre suc) ns st) = sx_graph st \<and>
    sx_g_score (fold (push_neighbour B H D z goal pre suc) ns st) = sx_g_score st \<and>
    (\<forall>w \<in> set ns. w = pre \<or> edge_key suc w \<in> sx_closed_set st \<or>
       in_open (fold (push_neighbour B H D z goal pre suc) ns st) (edge_key suc w)) \<and>
    (\<forall>key. in_open st key \<longrightarrow>
       in_open (fold (push_neighbour B H D z goal pre suc) ns st) key)"
  using assms
proof (induction ns arbitrary: st)
  case (Cons w ns)
  let ?st = "push_neighbour B H D z goal pre suc w st"
  have keeps: "sx_came_from ?st = sx_came_from st" "sx_closed_set ?st = sx_closed_set st"
    "sx_best_score ?st = sx_best_score st" "sx_graph ?st = sx_graph st" "sx_g_score ?st = sx_g_score st"
    by (simp_all add: push_neighbour_eq)
  have "core ?st"
  proof (cases "w = pre \<or> edge_key suc w \<in> sx_closed_set st \<or> in_open st (edge_key suc w)")
    case True
    then show ?thesis using Cons.prems(1) by (auto simp: push_neighbour_eq)
  next
    case False
    with Cons.prems show ?thesis
      by (intro core_cong [OF Cons.prems(1)]) (auto simp: push_neighbour_eq core_def intro: push_open_heap_ok)
  qed
  from Cons.IH [OF this] Cons.prems(2) keeps
  have ih: "core (fold (push_neighbour B H D z goal pre suc) ns ?st) \<and>
    sx_came_from (fold (push_neighbour B H D z goal pre suc) ns ?st) = sx_came_from st \<and>
    sx_closed_set (fold (push_neighbour B H D z goal pre suc) ns ?st) = sx_closed_set st \<and>
    sx_best_score (fold (push_neighbour B H D z goal pre suc) ns ?st) = sx_best_score st \<and>
    sx_graph (fold (push_neighbour B H D z goal pre suc) ns ?st) = sx_graph st \<and>
    sx_g_score (fold (push_neighbour B H D z goal pre suc) ns ?st) = sx_g_score st \<and>
    (\<forall>w \<in> set ns. w = pre \<or> edge_key suc w \<in> sx_closed_set st \<or>
       in_open (fold (push_neighbour B H D z goal pre suc) ns ?st) (edge_key suc w)) \<and>
    (\<forall>key. in_open ?st key \<longrightarrow>
       in_open (fold (push_neighbour B H D z goal pre suc) ns ?st) key)" by simp
  have h: "in_open st key \<longrightarrow> in_open ?st key"
    "w = pre \<or> edge_key suc w \<in> sx_closed_set st \<or> in_open ?st (edge_key suc w)" for key
    by (auto simp: push_neighbour_eq push_open_handle)
  from ih h show ?case by (simp del: split_paired_All) blast
qed simp

text \<open>Changing the keys of open edges.\<close>

lemma refresh_edge_ok:
  assumes "heap_ok (st\<lparr>sx_open_heap := fst acc\<rparr>)"
  shows "heap_ok (st\<lparr>sx_open_heap := fst (refresh_edge B H D z goal st node neighbor acc)\<rparr>)"
proof -
  obtain h us where acc: "acc = (h, us)" by fastforce
  have upd: "heap_ok (st\<lparr>sx_open_heap := hp_update H k \<lparr>oe_u = u, oe_v = v, oe_f_score = f\<rparr> h\<rparr>)"
    if k: "sx_edge_to_handle st (u, v) = Some k" for u v k f
  proof -
    obtain x where x: "entries h k = Some x" "oe_u x = u" "oe_v x = v"
      using assms k unfolding heap_ok_def acc by fastforce
    let ?x = "\<lparr>oe_u = u, oe_v = v, oe_f_score = f\<rparr>"
    have h: "entries (hp_update H k ?x h) = (entries h)(k \<mapsto> ?x)" using x by (intro heap_update) simp
    have ok: "entries h k' = Some y \<Longrightarrow> oe_u y \<le> oe_v y \<and> f_edge B D (oe_u y) (oe_v y) g0 \<noteq> None \<and>
        sx_edge_to_handle st (oe_u y, oe_v y) = Some k' \<and> (oe_u y, oe_v y) \<notin> sx_closed_set st"
      "sx_edge_to_handle st key = Some k' \<Longrightarrow> \<exists>y. entries h k' = Some y \<and> (oe_u y, oe_v y) = key" for k' y key
      using assms unfolding heap_ok_def acc by (simp_all del: split_paired_All)
    have "oe_u y \<le> oe_v y \<and> f_edge B D (oe_u y) (oe_v y) g0 \<noteq> None \<and>
        sx_edge_to_handle st (oe_u y, oe_v y) = Some k' \<and> (oe_u y, oe_v y) \<notin> sx_closed_set st"
      if "entries (hp_update H k ?x h) k' = Some y" for k' y
      using that ok(1) [OF x(1)] ok(1) [of k' y] x(2,3) unfolding h by (auto split: if_splits)
    moreover have "\<exists>y. entries (hp_update H k ?x h) k' = Some y \<and> (oe_u y, oe_v y) = key"
      if "sx_edge_to_handle st key = Some k'" for key k'
      using ok(2) [OF that] x unfolding h by (cases "k' = k") auto
    ultimately show ?thesis unfolding heap_ok_def by simp
  qed
  then show ?thesis
    using assms unfolding refresh_edge_def acc
    by (auto simp: Let_def split: option.split prod.split)
qed

lemma refresh_open_ok:
  assumes "core st"
  shows "core (refresh_open B H D z goal nodes st) \<and>
    sx_edge_to_handle (refresh_open B H D z goal nodes st) = sx_edge_to_handle st"
proof -
  let ?P = "\<lambda>acc :: 'h \<times> (Vertex \<times> Vertex) set. heap_ok (st\<lparr>sx_open_heap := fst acc\<rparr>)"
  have inner: "?P acc \<Longrightarrow> ?P (fold (refresh_edge B H D z goal st node) ns acc)" for node ns acc
  proof (induction ns arbitrary: acc)
    case (Cons n ns)
    from Cons.IH [OF refresh_edge_ok [OF Cons.prems]] show ?case by simp
  qed simp
  have outer: "?P acc \<Longrightarrow> ?P (fold (\<lambda>node. fold (refresh_edge B H D z goal st node)
      (f_neighbours B D node (sx_graph st))) ns acc)" for ns acc
  proof (induction ns arbitrary: acc)
    case (Cons n ns)
    from Cons.IH [OF inner [OF Cons.prems]] show ?case by simp
  qed simp
  have "?P (sx_open_heap st, {})" using assms by (simp add: core_def)
  from outer [OF this, of nodes] show ?thesis
    using core_cong [OF assms, of "refresh_open B H D z goal nodes st"] by (simp add: refresh_open_def)
qed

end

lemma came_from_entries_spec:
  assumes "unordered ord" and "finite (dom cf)"
  shows "set (came_from_entries ord cf) = parent cf" and "distinct (map fst (came_from_entries ord cf))"
proof -
  have "set (ord (dom cf)) = dom cf" "distinct (ord (dom cf))"
    using assms by (simp_all add: unordered.ord_set unordered.ord_distinct)
  then show "set (came_from_entries ord cf) = parent cf" "distinct (map fst (came_from_entries ord cf))"
    by (force simp: came_from_entries_def parent_def, simp add: came_from_entries_def comp_def)
qed

context planner
begin

lemma graph_range:
  assumes "same_shape B g0 g" and "f_edge B D u v g = Some e"
  shows "u < g_num_vertices B g0" and "v < g_num_vertices B g0" and "u \<notin> D" and "v \<notin> D"
proof -
  have "f_edge B D u v g0 = Some e" using f_edge_shape [OF assms(1)] assms(2) by simp
  then show "u < g_num_vertices B g0" "v < g_num_vertices B g0" "u \<notin> D" "v \<notin> D"
    using f_edge_range [OF wf0] f_edge_Some(3,4) by blast+
qed

lemma score_cases:
  assumes "tree_ok st" and "v < g_num_vertices B g0" and "v \<notin> D"
  obtains a where "reached (sx_came_from st) start v" and "sx_g_score st v = Some (Fin a)"
      and "g_score (sx_g_score st) v = Fin a" and "0 \<le> a"
  | "\<not> reached (sx_came_from st) start v" and "sx_g_score st v = Some PosInf" and "g_score (sx_g_score st) v = PosInf"
  using assms reached_score [of _ "sx_came_from st" "sx_g_score st" start v]
  unfolding tree_ok_def g_score_def by (metis option.simps(5))

lemma relax_tree:
  assumes "tree_ok st" and "f_edge B D suc pre (sx_graph st) = Some e" and "edge_key suc pre \<in> sx_closed_set st"
    and "ep_path (g_eprops B (sx_graph st) e) \<noteq> None"
    and r: "relaxation (edge_cost B D (sx_graph st)) (sx_came_from st) (sx_g_score st) start pre suc a c d"
  shows "tree_ok (st\<lparr>sx_came_from := (sx_came_from st)(suc \<mapsto> pre),
    sx_g_score := relaxation.gs' (sx_came_from st) (sx_g_score st) pre suc a c d\<rparr>)"
proof -
  let ?cf = "sx_came_from st" and ?gs = "sx_g_score st"
  let ?cf' = "?cf(suc \<mapsto> pre)" and ?gs' = "relaxation.gs' ?cf ?gs pre suc a c d"
  have "?gs' v \<noteq> None \<and> (\<not> reached ?cf' start v \<longrightarrow> ?gs' v = Some PosInf)"
    if v: "v < g_num_vertices B g0" "v \<notin> D" for v
  proof (cases "(v, suc) \<in> (parent ?cf')\<^sup>*")
    case True
    then have "reached ?cf' start v" by (metis converse_rtranclE domI fun_upd_same parent_iff reached_def)
    with reached_score [OF relaxation.scored_after [OF r]] show ?thesis by (metis option.distinct(1))
  next
    case False
    then have "?gs' v = ?gs v" by (rule relaxation.gs'_other [OF r])
    moreover have "\<not> reached ?cf' start v \<Longrightarrow> \<not> reached ?cf start v" by (auto simp: reached_def)
    ultimately show ?thesis using assms(1) v unfolding tree_ok_def by simp
  qed
  moreover have "edge_key x p \<in> sx_closed_set st \<and>
      (\<exists>e. f_edge B D x p (sx_graph st) = Some e \<and> ep_path (g_eprops B (sx_graph st) e) \<noteq> None)"
    if "?cf' x = Some p" for x p
    using that assms(1-4) unfolding tree_ok_def by (cases "x = suc") auto
  ultimately show ?thesis
    unfolding tree_ok_def using relaxation.scored_after [OF r] by simp
qed

lemma relax_ok:
  assumes "core st" and "f_edge B D suc pre (sx_graph st) = Some e" and "edge_key suc pre \<in> sx_closed_set st"
    and c: "c = ep_planned_cost (g_eprops B (sx_graph st) e)"
      "c = PosInf \<or> nonneg c \<and> ep_path (g_eprops B (sx_graph st) e) \<noteq> None"
  obtains st' where "relax B H ord D z goal pre suc (dadd (g_score (sx_g_score st) pre) c) st = Some st'"
    and "core st'" and "sx_closed_set st' = sx_closed_set st" and "sx_graph st' = sx_graph st"
    and "sx_edge_to_handle st' = sx_edge_to_handle st" and "sx_best_score st' = sx_best_score st"
    and "sx_came_from st' = sx_came_from st \<or> sx_came_from st' = (sx_came_from st)(suc \<mapsto> pre)"
    and "reached (sx_came_from st) start pre \<Longrightarrow> nonneg c \<Longrightarrow> reached (sx_came_from st') start suc"
    and "st' = st \<or> (\<exists>nodes gs. let st'' = st\<lparr>sx_came_from := (sx_came_from st)(suc \<mapsto> pre), sx_g_score := gs\<rparr>
           in core st'' \<and> st' = refresh_open B H D z goal nodes st'')"
proof -
  let ?cf = "sx_came_from st" and ?gs = "sx_g_score st"
  have core: "same_shape B g0 (sx_graph st)" "tree_ok st" "heap_ok st" "cached_nonneg B reuse (sx_graph st)"
    using assms(1) by (auto simp: core_def)
  note range = graph_range [OF core(1) assms(2)]
  let ?t = "dadd (g_score ?gs pre) c"
  show thesis
  proof (cases "dlt ?t (g_score ?gs suc)")
    case False
    have "reached ?cf start suc" if pre: "reached ?cf start pre" "nonneg c"
    proof (rule ccontr)
      assume n: "\<not> reached ?cf start suc"
      have "g_score ?gs suc = PosInf" by (rule score_cases [OF core(2) range(1,3)]) (use n in auto)
      moreover obtain a where "g_score ?gs pre = Fin a" by (rule score_cases [OF core(2) range(2,4)]) (use pre in auto)
      ultimately show False using False pre(2) by (auto simp: nonneg_def)
    qed
    with that [of st] False assms(1) show thesis by (simp add: relax_def)
  next
    case True
    have inf: "\<not> dlt PosInf x" for x by (cases x) auto
    then have cfin: "nonneg c" using c(2) True by (cases "g_score ?gs pre") auto
    then obtain r where r: "c = Fin r" "0 \<le> r" by (auto simp: nonneg_def)
    obtain a where a: "reached ?cf start pre" "?gs pre = Some (Fin a)" "g_score ?gs pre = Fin a"
      by (rule score_cases [OF core(2) range(2,4)]) (use True r inf in auto)
    obtain d where d: "?gs suc = Some d" "g_score ?gs suc = d" "\<not> reached ?cf start suc \<Longrightarrow> d = PosInf"
      by (rule score_cases [OF core(2) range(1,3)]) auto
    have t: "?t = Fin (a + r)" using a(3) r(1) by simp
    have rel: "relaxation (edge_cost B D (sx_graph st)) ?cf ?gs start pre suc a r d"
      using core(2) a d r True c(1) assms(2) t by unfold_locales (auto simp: tree_ok_def edge_cost_def)
    let ?cf' = "?cf(suc \<mapsto> pre)" and ?gs' = "relaxation.gs' ?cf ?gs pre suc a r d"
    let ?U = "{x. (x, suc) \<in> (parent ?cf')\<^sup>*}"
    have "finite (dom ?cf')" using relaxation.tree_after [OF rel] by (simp add: is_tree_def)
    note entries = came_from_entries_spec [OF unordered_axioms this]
    let ?st1 = "st\<lparr>sx_came_from := ?cf', sx_g_score := ?gs'\<rparr>"
    have "tree_ok ?st1" by (rule relax_tree [OF core(2) assms(2,3) _ rel]) (use c(2) r in auto)
    then have st1: "core ?st1" using core by (simp add: core_def heap_ok_def)
    note ref = refresh_open_ok [OF this, of "ord ?U"]
    have "relax B H ord D z goal pre suc ?t st = Some (refresh_open B H D z goal (ord ?U) ?st1)"
      using True d(2) t relaxation.update_after [OF rel entries] by (simp add: relax_def Let_def)
    moreover have "reached ?cf' start suc" by (simp add: reached_def)
    moreover have "\<exists>nodes gs. let st'' = st\<lparr>sx_came_from := ?cf', sx_g_score := gs\<rparr>
        in core st'' \<and> refresh_open B H D z goal (ord ?U) ?st1 = refresh_open B H D z goal nodes st''"
      using st1 unfolding Let_def by blast
    ultimately show thesis
      using ref by (intro that [of "refresh_open B H D z goal (ord ?U) ?st1"]) (simp_all add: refresh_open_def)
  qed
qed

end

context planner
begin

section \<open>One step of the search\<close>

definition popped :: "('g, 'h, 'k, 'w) search \<Rightarrow> ('g, 'h, 'k, 'w) search" where
  "popped st = st\<lparr>sx_open_heap := hp_pop H (sx_open_heap st),
     sx_edge_to_handle := (sx_edge_to_handle st)((oe_u (hp_top H (sx_open_heap st)), oe_v (hp_top H (sx_open_heap st))) := None)\<rparr>"

lemma popped_keeps [simp]:
  "sx_graph (popped st) = sx_graph st" "sx_g_score (popped st) = sx_g_score st"
  "sx_came_from (popped st) = sx_came_from st" "sx_closed_set (popped st) = sx_closed_set st"
  "sx_best_score (popped st) = sx_best_score st"
  by (simp_all add: popped_def)

lemma popped_ok:
  assumes "core st" and "entries (sx_open_heap st) \<noteq> Map.empty"
  obtains u v e where "oe_u (hp_top H (sx_open_heap st)) = u" and "oe_v (hp_top H (sx_open_heap st)) = v"
    and "u \<le> v" and "f_edge B D u v (sx_graph st) = Some e" and "(u, v) \<notin> sx_closed_set st"
    and "core (popped st)" and "\<not> in_open (popped st) (u, v)"
    and "\<And>key. key \<noteq> (u, v) \<Longrightarrow> in_open (popped st) key = in_open st key"
    and "\<And>k x. entries (sx_open_heap (popped st)) k = Some x \<Longrightarrow> entries (sx_open_heap st) k = Some x"
    and "\<exists>k. entries (sx_open_heap st) k = Some (hp_top H (sx_open_heap st))"
proof -
  let ?h = "sx_open_heap st" and ?x = "hp_top H (sx_open_heap st)"
  let ?u = "oe_u ?x" and ?v = "oe_v ?x"
  obtain k where k: "entries ?h k = Some ?x" "entries (hp_pop H ?h) = (entries ?h)(k := None)"
    using heap_pop [OF assms(2)] by blast
  have ok: "entries ?h k' = Some y \<Longrightarrow> oe_u y \<le> oe_v y \<and> f_edge B D (oe_u y) (oe_v y) g0 \<noteq> None \<and>
      sx_edge_to_handle st (oe_u y, oe_v y) = Some k' \<and> (oe_u y, oe_v y) \<notin> sx_closed_set st"
    "sx_edge_to_handle st key = Some k' \<Longrightarrow> \<exists>y. entries ?h k' = Some y \<and> (oe_u y, oe_v y) = key" for k' y key
    using assms(1) unfolding core_def heap_ok_def by (simp_all del: split_paired_All)
  have "sx_edge_to_handle (popped st) (oe_u y, oe_v y) = Some k'"
    if "entries (hp_pop H ?h) k' = Some y" for k' y
    using that ok(1) [OF k(1)] ok(1) [of k' y] unfolding k(2) popped_def by (auto split: if_splits)
  moreover have "\<exists>y. entries (hp_pop H ?h) k' = Some y \<and> (oe_u y, oe_v y) = key"
    if "sx_edge_to_handle (popped st) key = Some k'" for key k'
  proof -
    from that have key: "key \<noteq> (?u, ?v)" "sx_edge_to_handle st key = Some k'"
      by (auto simp: popped_def split: if_splits)
    from ok(2) [OF key(2)] obtain y where y: "entries ?h k' = Some y" "(oe_u y, oe_v y) = key" by blast
    with key(1) k(1) have "k' \<noteq> k" by auto
    with y show ?thesis unfolding k(2) by simp
  qed
  moreover have sub: "entries ?h k' = Some y" if "entries (hp_pop H ?h) k' = Some y" for k' y
    using that unfolding k(2) by (simp split: if_splits)
  ultimately have "heap_ok (popped st)"
    using ok(1) unfolding heap_ok_def by (simp add: popped_def del: split_paired_All fun_upd_apply) blast
  then have "core (popped st)" by (intro core_cong [OF assms(1)]) simp_all
  moreover obtain e where "f_edge B D ?u ?v (sx_graph st) = Some e"
    using ok(1) [OF k(1)] f_edge_shape assms(1) unfolding core_def by fastforce
  ultimately show thesis
    using ok(1) [OF k(1)] sub k(1) by (intro that) (auto simp: in_open_def popped_def)
qed

lemma plan_edge_cases:
  assumes "plan_edge B env reuse start goal u v q st = (exn, p, st')"
  obtains (reused) "should_reuse reuse q" and "exn = None" and "p = (ep_path q, ep_planned_distance q, ep_planned_cost q)"
      and "st' = st"
  | (planned) fl rm a b w n w' where "\<not> should_reuse reuse q" and "pe_second_level env fl rm a b (sx_world st) = (p, w)"
      and "st' = st\<lparr>sx_world := w', sx_second_level_count := n\<rparr>"
      and "\<And>x. exn = Some x \<Longrightarrow> \<exists>invoke request. pe_update_edge env = Some invoke \<and> invoke request w = Inl x"
proof (cases "should_reuse reuse q")
  case True
  with assms reused show thesis by (simp add: plan_edge_def)
next
  case False
  let ?g = "sx_graph st"
  let ?c = "\<lambda>v. (pos_x (np_position (g_node B ?g v)), pos_y (np_position (g_node B ?g v)), pos_z (np_position (g_node B ?g v)))"
  obtain fl rm where fr: "(case find_original B ?g (np_id (g_node B ?g u)) (np_id (g_node B ?g v)) (g_vertices B ?g) (None, None) of
      (Some orig_u, Some orig_v) \<Rightarrow> (getFloorOfEdge B ?g orig_u orig_v, getRoomNameOfEdge B ?g orig_u orig_v)
    | _ \<Rightarrow> ([], [])) = (fl, rm)" by fastforce
  obtain ws d c w where sl: "pe_second_level env fl rm (?c u) (?c v) (sx_world st) = ((ws, d, c), w)"
    by (metis prod.collapse)
  have comm: "st\<lparr>sx_second_level_count := n, sx_world := w\<rparr> = st\<lparr>sx_world := w, sx_second_level_count := n\<rparr>" for n w
    by simp
  have p: "p = (ws, d, c)"
    using assms False unfolding plan_edge_def Let_def fr prod.case sl
    by (auto split: if_splits option.splits sum.splits)
  have st: "\<exists>n w'. st' = st\<lparr>sx_world := w', sx_second_level_count := n\<rparr>"
    using assms False unfolding plan_edge_def Let_def fr prod.case sl
    by (auto simp: comm split: if_splits option.splits sum.splits)
  have "\<exists>invoke request. pe_update_edge env = Some invoke \<and> invoke request w = Inl x" if "exn = Some x" for x
    using that assms False unfolding plan_edge_def Let_def fr prod.case sl
    by (auto split: if_splits option.splits sum.splits)
  with planned [OF False] sl p st show thesis by blast
qed

lemma plan_edge_ok:
  assumes "e \<in> set (g_edges B (sx_graph st))" and "cached_nonneg B reuse (sx_graph st)"
    and "plan_edge B env reuse start goal u v (g_eprops B (sx_graph st) e) st = (exn, p, st')"
  obtains n w where "st' = st\<lparr>sx_world := w, sx_second_level_count := n\<rparr>"
    and "let q = planned_props p (g_eprops B (sx_graph st) e)
         in ep_planned_cost q = PosInf \<or> nonneg (ep_planned_cost q) \<and> ep_path q \<noteq> None"
    and "cached_nonneg B reuse (g_set_eprops B e (planned_props p (g_eprops B (sx_graph st) e)) (sx_graph st))"
proof -
  let ?q = "g_eprops B (sx_graph st) e"
  have "st = st\<lparr>sx_world := sx_world st, sx_second_level_count := sx_second_level_count st\<rparr>" by simp
  then have shape: "\<exists>n w. st' = st\<lparr>sx_world := w, sx_second_level_count := n\<rparr>"
    by (cases rule: plan_edge_cases [OF assms(3), case_names reused planned]) blast+
  have "fst p = None \<or> nonneg (snd (snd p))"
  proof (cases rule: plan_edge_cases [OF assms(3), case_names reused planned])
    case reused
    with assms(1,2) show ?thesis by (simp add: cached_nonneg_def list_all_iff)
  next
    case (planned fl rm a b w)
    with env_nonneg show ?thesis unfolding second_level_nonneg_def by (metis option.exhaust prod.collapse)
  qed
  then have cost: "let q = planned_props p ?q
      in ep_planned_cost q = PosInf \<and> ep_path q = None \<or> nonneg (ep_planned_cost q) \<and> ep_path q \<noteq> None"
    by (cases p; cases "fst p") (simp_all add: planned_props_def)
  have "nonneg (ep_planned_cost (g_eprops B (g_set_eprops B e (planned_props p ?q) (sx_graph st)) e'))"
    if "e' \<in> set (g_edges B (sx_graph st))"
      "should_reuse reuse (g_eprops B (g_set_eprops B e (planned_props p ?q) (sx_graph st)) e')" for e'
    using that set_eprops_shape [OF assms(1), where p = "planned_props p ?q"] assms(2) cost
    by (cases "e' = e") (auto simp: cached_nonneg_def list_all_iff should_reuse_def Let_def split: option.splits)
  then have "cached_nonneg B reuse (g_set_eprops B e (planned_props p ?q) (sx_graph st))"
    using set_eprops_shape(1) [OF assms(1), where p = "planned_props p ?q"]
    by (simp add: cached_nonneg_def list_all_iff same_shape_def)
  with shape cost that show thesis unfolding Let_def by blast
qed

end

lemma edge_key_ends: "edge_key a b = (u, v) \<longleftrightarrow> u \<le> v \<and> {a, b} = {u, v}"
  by (auto simp: edge_key_def min_def max_def doubleton_eq_iff)

context planner
begin

text \<open>Closing the popped edge: its properties change, and no other edge of the tree is touched.\<close>

definition close_edge :: "Vertex \<Rightarrow> Vertex \<Rightarrow> 'e \<Rightarrow> EdgeProperties \<Rightarrow> ('g, 'h, 'k, 'w) search \<Rightarrow> ('g, 'h, 'k, 'w) search" where
  "close_edge u v e q st = st\<lparr>sx_graph := g_set_eprops B e q (sx_graph st),
     sx_closed_set := insert (u, v) (sx_closed_set st)\<rparr>"

lemma close_edge_keeps [simp]:
  "sx_graph (close_edge u v e q st) = g_set_eprops B e q (sx_graph st)"
  "sx_closed_set (close_edge u v e q st) = insert (u, v) (sx_closed_set st)"
  "sx_g_score (close_edge u v e q st) = sx_g_score st" "sx_came_from (close_edge u v e q st) = sx_came_from st"
  "sx_best_score (close_edge u v e q st) = sx_best_score st" "sx_open_heap (close_edge u v e q st) = sx_open_heap st"
  "sx_edge_to_handle (close_edge u v e q st) = sx_edge_to_handle st"
  "in_open (close_edge u v e q st) = in_open st"
  by (simp_all add: close_edge_def in_open_def fun_eq_iff)

lemma close_edge_ok:
  assumes "core st" and "u \<le> v" and "f_edge B D u v (sx_graph st) = Some e" and "(u, v) \<notin> sx_closed_set st"
    and "\<not> in_open st (u, v)" and "cached_nonneg B reuse (g_set_eprops B e q (sx_graph st))"
  shows "core (close_edge u v e q st)" and "g_eprops B (sx_graph (close_edge u v e q st)) e = q"
    and "f_edge B D a b (sx_graph (close_edge u v e q st)) = f_edge B D a b g0"
    and "f_edge B D a b g0 = Some e' \<Longrightarrow> edge_key a b \<noteq> (u, v) \<Longrightarrow>
      g_eprops B (sx_graph (close_edge u v e q st)) e' = g_eprops B (sx_graph st) e'"
proof -
  let ?g = "sx_graph st" and ?g' = "g_set_eprops B e q (sx_graph st)"
  have core: "same_shape B g0 ?g" "tree_ok st" "heap_ok st" using assms(1) by (auto simp: core_def)
  have e: "e \<in> set (g_edges B ?g)" by (rule f_edge_Some(1) [OF assms(3)])
  note S = set_eprops_shape [OF e, where p = q]
  have shape: "same_shape B g0 ?g'" by (rule same_shape_trans [OF core(1) S(1)])
  then show fe: "f_edge B D a b (sx_graph (close_edge u v e q st)) = f_edge B D a b g0" for a b
    by (simp add: f_edge_shape)
  have fg: "f_edge B D a b ?g = f_edge B D a b g0" for a b by (rule f_edge_shape [OF core(1)])
  show "g_eprops B (sx_graph (close_edge u v e q st)) e = q" using S(2) by simp
  have other: "g_eprops B ?g' e' = g_eprops B ?g e'"
    if "f_edge B D a b g0 = Some e'" "edge_key a b \<noteq> (u, v)" for a b e'
  proof (rule S(3))
    have "f_edge B D a b ?g = Some e'" using that(1) fg by simp
    then show "e' \<in> set (g_edges B ?g)" "e' \<noteq> e"
      using f_edge_Some(1) f_edge_key [OF assms(3), of a b] that(2) assms(2) by auto
  qed
  then show "f_edge B D a b g0 = Some e' \<Longrightarrow> edge_key a b \<noteq> (u, v) \<Longrightarrow>
      g_eprops B (sx_graph (close_edge u v e q st)) e' = g_eprops B (sx_graph st) e'" by simp
  have apart: "edge_key x p \<noteq> (u, v)" if "sx_came_from st x = Some p" for x p
    using that core(2) assms(4) unfolding tree_ok_def by metis
  have edge: "\<exists>e'. f_edge B D x p g0 = Some e' \<and> ep_path (g_eprops B ?g' e') \<noteq> None"
    if "sx_came_from st x = Some p" for x p
    using that core(2) other apart [OF that] fg unfolding tree_ok_def by metis
  have cost: "edge_cost B D ?g' x p = edge_cost B D ?g x p" if xp: "sx_came_from st x = Some p" for x p
    using edge [OF xp] other [OF _ apart [OF xp]] fg [of x p] fe [of x p] by (auto simp: edge_cost_def)
  have "scored (edge_cost B D ?g') (sx_came_from st) (sx_g_score st) start"
    using core(2) cost unfolding tree_ok_def scored_def by metis
  moreover have "edge_key x p \<in> insert (u, v) (sx_closed_set st)" if "sx_came_from st x = Some p" for x p
    using that core(2) unfolding tree_ok_def by blast
  ultimately have "tree_ok (close_edge u v e q st)"
    using core(2) edge unfolding tree_ok_def close_edge_keeps [of u v e q st] fe [unfolded close_edge_keeps] by blast
  moreover have "heap_ok (close_edge u v e q st)"
    using core(3) assms(5) unfolding heap_ok_def in_open_def by (simp del: split_paired_All) fastforce
  ultimately show "core (close_edge u v e q st)" using shape assms(6) by (simp add: core_def)
qed

lemma best_ok_cong:
  "best_ok st \<Longrightarrow> sx_came_from st' = sx_came_from st \<Longrightarrow> sx_best_score st' = sx_best_score st \<Longrightarrow> best_ok st'"
  by (simp add: best_ok_def)

lemma if_cases_best:
  "(if c then st\<lparr>sx_best_score := x\<rparr> else st) = st\<lparr>sx_best_score := if c then x else sx_best_score st\<rparr>"
  by simp

lemma explore_ok:
  assumes "core st" and "best_ok st" and "u \<le> v" and closed: "(u, v) \<in> sx_closed_set st"
    and "f_edge B D u v (sx_graph st) = Some e"
    and c: "c = ep_planned_cost (g_eprops B (sx_graph st) e)"
      "c = PosInf \<or> nonneg c \<and> ep_path (g_eprops B (sx_graph st) e) \<noteq> None"
  obtains pre suc st1 b st3 where "edge_key suc pre = (u, v)" and "edge_key pre suc = (u, v)"
    and "dle (g_score (sx_g_score st) pre) (g_score (sx_g_score st) suc)"
    and "explore B H ord D z goal u v c st =
      Some (if \<not> hp_is_empty H (sx_open_heap st3) \<and> dle (sx_best_score st3) (oe_f_score (hp_top H (sx_open_heap st3)))
        then Stopped st3 else Running st3)"
    and "core st3" and "best_ok st3" and "sx_closed_set st3 = sx_closed_set st" and "sx_graph st3 = sx_graph st"
    and "sx_came_from st3 = sx_came_from st \<or> sx_came_from st3 = (sx_came_from st)(suc \<mapsto> pre)"
    and "reached (sx_came_from st) start pre \<Longrightarrow> nonneg c \<Longrightarrow> reached (sx_came_from st3) start suc"
    and "\<And>key. in_open st key \<Longrightarrow> in_open st3 key"
    and "\<And>w. f_edge B D suc w g0 \<noteq> None \<Longrightarrow> edge_key suc w \<in> sx_closed_set st \<or> in_open st3 (edge_key suc w)"
    and "st1 = st \<or> (\<exists>nodes gs. let st'' = st\<lparr>sx_came_from := (sx_came_from st)(suc \<mapsto> pre), sx_g_score := gs\<rparr>
           in core st'' \<and> st1 = refresh_open B H D z goal nodes st'')"
    and "core (st1\<lparr>sx_best_score := b\<rparr>)"
    and "st3 = fold (push_neighbour B H D z goal pre suc) (f_neighbours B D suc g0) (st1\<lparr>sx_best_score := b\<rparr>)"
proof -
  have core: "same_shape B g0 (sx_graph st)" "tree_ok st" using assms(1) by (auto simp: core_def)
  note range = graph_range [OF core(1) assms(5)]
  let ?g = "g_score (sx_g_score st)"
  define pre suc where "pre = (if dle (?g u) (?g v) then u else v)" and "suc = (if dle (?g u) (?g v) then v else u)"
  have ps: "(if dle (?g u) (?g v) then (u, v) else (v, u)) = (pre, suc)" by (simp add: pre_def suc_def)
  have key: "edge_key suc pre = (u, v)" "edge_key pre suc = (u, v)"
    using assms(3) edge_key_sym [of v u] by (simp_all add: pre_def suc_def)
  have "\<exists>a b. (?g u = Fin a \<or> ?g u = PosInf) \<and> (?g v = Fin b \<or> ?g v = PosInf)"
    by (rule score_cases [OF core(2) range(1,3)]; rule score_cases [OF core(2) range(2,4)]) auto
  then have le: "dle (?g pre) (?g suc)" unfolding pre_def suc_def by (auto simp: dle_def)
  have e: "f_edge B D suc pre (sx_graph st) = Some e"
    using assms(5) f_edge_sym [of D u v] by (simp add: pre_def suc_def)
  have cl: "edge_key suc pre \<in> sx_closed_set st" using closed key by simp
  obtain st1 where r: "relax B H ord D z goal pre suc (dadd (?g pre) c) st = Some st1" and st1: "core st1"
    "sx_closed_set st1 = sx_closed_set st" "sx_graph st1 = sx_graph st" "sx_edge_to_handle st1 = sx_edge_to_handle st"
    "sx_best_score st1 = sx_best_score st"
    and cf: "sx_came_from st1 = sx_came_from st \<or> sx_came_from st1 = (sx_came_from st)(suc \<mapsto> pre)"
    and reach: "reached (sx_came_from st) start pre \<Longrightarrow> nonneg c \<Longrightarrow> reached (sx_came_from st1) start suc"
    and form: "st1 = st \<or> (\<exists>nodes gs. let st'' = st\<lparr>sx_came_from := (sx_came_from st)(suc \<mapsto> pre), sx_g_score := gs\<rparr>
           in core st'' \<and> st1 = refresh_open B H D z goal nodes st'')"
    by (rule relax_ok [OF assms(1) e cl c]) blast
  let ?gs = "g_score (sx_g_score st1) suc"
  define b where "b = (if suc = goal \<and> dlt ?gs (sx_best_score st1) then ?gs else sx_best_score st1)"
  let ?st2 = "st1\<lparr>sx_best_score := b\<rparr>"
  have st2: "(if suc = goal \<and> dlt ?gs (sx_best_score st1) then st1\<lparr>sx_best_score := ?gs\<rparr> else st1) = ?st2"
    unfolding b_def by (rule if_cases_best)
  have core2: "core ?st2" using st1(1) by (simp add: core_def tree_ok_def heap_ok_def)
  have best2: "best_ok ?st2"
  proof (cases "sx_came_from st1 goal")
    case None
    then have "\<not> reached (sx_came_from st1) start goal" using endpoints by (auto simp: reached_def)
    then have "g_score (sx_g_score st1) goal = PosInf"
      using score_cases [of st1 goal] st1(1) endpoints unfolding core_def by blast
    moreover have "sx_came_from st goal = None" using None cf by (auto split: if_splits)
    ultimately show ?thesis using None assms(2) st1(5) by (auto simp: best_ok_def b_def)
  next
    case (Some p)
    then have "reached (sx_came_from st1) start goal" by (auto simp: reached_def)
    then obtain a where a: "g_score (sx_g_score st1) goal = Fin a"
      using score_cases [of st1 goal] st1(1) endpoints unfolding core_def by blast
    have "suc = goal \<or> sx_came_from st goal = Some p" using Some cf by (auto split: if_splits)
    with a Some assms(2) st1(5) show ?thesis
      unfolding best_ok_def b_def by (auto split: option.splits if_splits)
  qed
  let ?st3 = "fold (push_neighbour B H D z goal pre suc) (f_neighbours B D suc g0) ?st2"
  have fn: "f_neighbours B D suc (sx_graph ?st2) = f_neighbours B D suc g0"
    using f_neighbours_shape [OF core(1)] st1(3) by simp
  have "\<forall>w \<in> set (f_neighbours B D suc g0). f_edge B D suc w g0 \<noteq> None" using f_neighbours_iff by blast
  note push = push_neighbour_fold [OF core2 this, of pre]
  have "explore B H ord D z goal u v c st =
      Some (if \<not> hp_is_empty H (sx_open_heap ?st3) \<and> dle (sx_best_score ?st3) (oe_f_score (hp_top H (sx_open_heap ?st3)))
        then Stopped ?st3 else Running ?st3)"
    unfolding explore_def ps Let_def prod.case r st2 option.map fn ..
  moreover have "best_ok ?st3" by (rule best_ok_cong [OF best2]) (use push in blast)+
  moreover have "edge_key suc w \<in> sx_closed_set st \<or> in_open ?st3 (edge_key suc w)" if w: "f_edge B D suc w g0 \<noteq> None" for w
  proof -
    have "w \<in> set (f_neighbours B D suc g0)" by (rule iffD2 [OF f_neighbours_iff w])
    then have "w = pre \<or> edge_key suc w \<in> sx_closed_set ?st2 \<or> in_open ?st3 (edge_key suc w)" using push by blast
    then show ?thesis using cl st1(2) by auto
  qed
  moreover have "in_open ?st3 key" if "in_open st key" for key
  proof -
    have "in_open ?st2 key" using that st1(4) by (simp add: in_open_def)
    then show ?thesis using push by blast
  qed
  ultimately show thesis using key le push st1 cf reach form core2 by (intro that [of suc pre ?st3 st1 b]) simp_all
qed

lemma astar_step_popped:
  "astar_step B H ord env D z reuse start goal st =
     (let u = oe_u (hp_top H (sx_open_heap st)); v = oe_v (hp_top H (sx_open_heap st))
      in case f_edge B D u v (sx_graph st) of
           None \<Rightarrow> Some (Running (popped st))
         | Some e \<Rightarrow>
             (case plan_edge B env reuse start goal u v (g_eprops B (sx_graph st) e) (popped st) of
                (Some exn, p, st1) \<Rightarrow> Some (Threw exn st1)
              | (None, p, st1) \<Rightarrow>
                  let q = planned_props p (g_eprops B (sx_graph st1) e)
                  in explore B H ord D z goal u v (ep_planned_cost q) (close_edge u v e q st1)))"
  unfolding astar_step_def popped_def close_edge_def Let_def by (simp split: option.split prod.split)

lemma step_cases:
  assumes "core st" and "best_ok st" and "entries (sx_open_heap st) \<noteq> Map.empty"
  obtains (threw) exn st' where "astar_step B H ord env D z reuse start goal st = Some (Threw exn st')" and "core st'"
      and "\<exists>invoke request w. pe_update_edge env = Some invoke \<and> invoke request w = Inl exn"
  | (ran) u v e q n w st2 where "u \<le> v" and "(u, v) \<notin> sx_closed_set st" and "f_edge B D u v g0 = Some e"
      and "u = oe_u (hp_top H (sx_open_heap st))" and "v = oe_v (hp_top H (sx_open_heap st))"
      and "st2 = close_edge u v e q (popped st\<lparr>sx_world := w, sx_second_level_count := n\<rparr>)" and "core st2" and "best_ok st2"
      and "astar_step B H ord env D z reuse start goal st = explore B H ord D z goal u v (ep_planned_cost q) st2"
      and "ep_planned_cost q = PosInf \<or> nonneg (ep_planned_cost q) \<and> ep_path q \<noteq> None"
      and "g_eprops B (sx_graph st2) e = q" and "f_edge B D u v (sx_graph st2) = Some e"
      and "\<And>a b e'. f_edge B D a b g0 = Some e' \<Longrightarrow> edge_key a b \<noteq> (u, v) \<Longrightarrow>
             g_eprops B (sx_graph st2) e' = g_eprops B (sx_graph st) e'"
      and "\<And>key. key \<noteq> (u, v) \<Longrightarrow> in_open st key \<Longrightarrow> in_open st2 key"
      and "\<And>k x. entries (sx_open_heap st2) k = Some x \<Longrightarrow> entries (sx_open_heap st) k = Some x"
      and "(\<exists>fl rm a b w d c w'. pe_second_level env fl rm a b w = ((None, d, c), w')) \<or> nonneg (ep_planned_cost q)"
proof -
  obtain u v e where top: "oe_u (hp_top H (sx_open_heap st)) = u" "oe_v (hp_top H (sx_open_heap st)) = v"
    and uv: "u \<le> v" "(u, v) \<notin> sx_closed_set st" and e: "f_edge B D u v (sx_graph st) = Some e"
    and pop: "core (popped st)" "\<not> in_open (popped st) (u, v)"
      "\<And>key. key \<noteq> (u, v) \<Longrightarrow> in_open (popped st) key = in_open st key"
      "\<And>k x. entries (sx_open_heap (popped st)) k = Some x \<Longrightarrow> entries (sx_open_heap st) k = Some x"
    by (rule popped_ok [OF assms(1,3)]) blast
  have mem: "e \<in> set (g_edges B (sx_graph (popped st)))" using f_edge_Some(1) [OF e] by simp
  have shape: "same_shape B g0 (sx_graph st)" "cached_nonneg B reuse (sx_graph (popped st))"
    using assms(1) by (simp_all add: core_def)
  obtain exn p st1 where plan: "plan_edge B env reuse start goal u v (g_eprops B (sx_graph (popped st)) e) (popped st) = (exn, p, st1)"
    by (metis prod.collapse)
  let ?q = "planned_props p (g_eprops B (sx_graph (popped st)) e)"
  obtain n w where st1: "st1 = popped st\<lparr>sx_world := w, sx_second_level_count := n\<rparr>"
    and q: "let q = ?q in ep_planned_cost q = PosInf \<or> nonneg (ep_planned_cost q) \<and> ep_path q \<noteq> None"
    and cached: "cached_nonneg B reuse (g_set_eprops B e ?q (sx_graph (popped st)))"
    by (rule plan_edge_ok [OF mem shape(2) plan])
  have core1: "core st1" using pop(1) unfolding st1 by (simp add: core_def tree_ok_def heap_ok_def)
  have plan': "plan_edge B env reuse start goal u v (g_eprops B (sx_graph st) e) (popped st) = (exn, p, st1)"
    using plan by simp
  show thesis
  proof (cases exn)
    case (Some x)
    have "\<exists>invoke request w. pe_update_edge env = Some invoke \<and> invoke request w = Inl x"
      by (rule plan_edge_cases [OF plan]) (use Some in blast)+
    with Some threw core1 show thesis
      unfolding astar_step_popped top Let_def e option.case plan' prod.case by simp
  next
    case None
    let ?st2 = "close_edge u v e ?q st1"
    have "f_edge B D u v (sx_graph st1) = Some e" "(u, v) \<notin> sx_closed_set st1" "\<not> in_open st1 (u, v)"
      "cached_nonneg B reuse (g_set_eprops B e ?q (sx_graph st1))"
      using e uv(2) pop(2) cached by (simp_all add: st1 in_open_def)
    note close = close_edge_ok [OF core1 uv(1) this]
    have g1: "sx_graph st1 = sx_graph st" by (simp add: st1)
    have "astar_step B H ord env D z reuse start goal st = explore B H ord D z goal u v (ep_planned_cost ?q) ?st2"
      unfolding astar_step_popped top Let_def e option.case plan' prod.case None g1 by simp
    moreover have "(\<exists>fl rm a b w d c w'. pe_second_level env fl rm a b w = ((None, d, c), w')) \<or> nonneg (ep_planned_cost ?q)"
    proof (cases rule: plan_edge_cases [OF plan, case_names reused planned])
      case reused
      with shape(2) mem show ?thesis
        by (auto simp: cached_nonneg_def list_all_iff planned_props_def should_reuse_def split: option.split)
    next
      case (planned fl rm a b w)
      obtain ws d c where p: "p = (ws, d, c)" by (metis prod.collapse)
      show ?thesis
      proof (cases ws)
        case None
        with planned(2) p show ?thesis by blast
      next
        case (Some x)
        with planned(2) p env_nonneg have "nonneg c" unfolding second_level_nonneg_def by blast
        with Some p show ?thesis by (simp add: planned_props_def)
      qed
    qed
    moreover have "best_ok ?st2" using assms(2) unfolding best_ok_def st1 by simp
    moreover have "f_edge B D u v g0 = Some e" using e f_edge_shape [OF shape(1)] by simp
    moreover have "in_open ?st2 key" if "key \<noteq> (u, v)" "in_open st key" for key
      using pop(3) that by (simp add: st1 in_open_def)
    ultimately show thesis
      using q close uv top pop(4) by (intro ran [of u v e ?st2 ?q]) (simp_all add: st1 Let_def)
  qed
qed

section \<open>The loop\<close>

text \<open>The edges that have not been planned yet.\<close>

definition unplanned :: "('g, 'h, 'k, 'w) search \<Rightarrow> (Vertex \<times> Vertex) set" where
  "unplanned st = {..<g_num_vertices B g0} \<times> {..<g_num_vertices B g0} - sx_closed_set st"

lemma step_ok:
  assumes "core st" and "best_ok st" and "entries (sx_open_heap st) \<noteq> Map.empty"
  obtains (threw) exn st' where "astar_step B H ord env D z reuse start goal st = Some (Threw exn st')" and "core st'"
      and "\<exists>invoke request w. pe_update_edge env = Some invoke \<and> invoke request w = Inl exn"
  | (stopped) st' where "astar_step B H ord env D z reuse start goal st = Some (Stopped st')" and "core st'" and "best_ok st'"
  | (running) st' where "astar_step B H ord env D z reuse start goal st = Some (Running st')" and "core st'" and "best_ok st'"
      and "card (unplanned st') < card (unplanned st)"
proof (cases rule: step_cases [OF assms, case_names ex go])
  case (ex exn st')
  with threw show thesis by blast
next
  case (go u v e q n w st2)
  have uv: "(u, v) \<in> sx_closed_set st2" using go(6) by simp
  obtain pre suc st1 b st3 where ex: "explore B H ord D z goal u v (ep_planned_cost q) st2 =
      Some (if \<not> hp_is_empty H (sx_open_heap st3) \<and> dle (sx_best_score st3) (oe_f_score (hp_top H (sx_open_heap st3)))
        then Stopped st3 else Running st3)" and st3: "core st3" "best_ok st3" "sx_closed_set st3 = sx_closed_set st2"
    by (rule explore_ok [OF go(7,8,1) uv go(12), of "ep_planned_cost q"]) (use go(10,11) in auto)
  have "unplanned st3 \<subset> unplanned st"
    using f_edge_range [OF wf0 go(3)] go(2,6) st3(3) by (auto simp: unplanned_def)
  then have "card (unplanned st3) < card (unplanned st)"
    by (intro psubset_card_mono) (simp_all add: unplanned_def)
  with ex st3 go(9) stopped running show thesis by (simp split: if_splits)
qed

lemma astar_loop_ok:
  assumes "core st" and "best_ok st"
  shows "\<exists>exn st'. astar_loop B H ord env D z reuse start goal st = Some (exn, st') \<and> core st' \<and>
    (exn = None \<longrightarrow> best_ok st')"
  using assms
proof (induction "card (unplanned st)" arbitrary: st rule: less_induct)
  case less
  show ?case
  proof (cases "hp_is_empty H (sx_open_heap st)")
    case True
    then show ?thesis using less.prems by (subst astar_loop.simps) simp
  next
    case False
    then have ne: "entries (sx_open_heap st) \<noteq> Map.empty" by (simp add: heap_is_empty)
    show ?thesis
    proof (cases rule: step_ok [OF less.prems ne, case_names threw stopped running])
      case (running st')
      with less.hyps [OF running(4)] show ?thesis by (subst astar_loop.simps) (simp add: False)
    qed (subst astar_loop.simps, simp add: False)+
  qed
qed

section \<open>The result\<close>

lemma append_segments_cost:
  assumes "\<forall>(x, y) \<in> set xs. \<exists>e. f_edge B D x y g = Some e \<and> ep_path (g_eprops B g e) \<noteq> None"
  shows "\<exists>ws d. fold (append_segment B D g) xs (ws0, d0, c0) =
    (ws, d, fold (\<lambda>(x, y) t. dadd t (edge_cost B D g y x)) xs c0)"
  using assms
proof (induction xs arbitrary: ws0 d0 c0)
  case (Cons xy xs)
  obtain x y where xy: "xy = (x, y)" by fastforce
  with Cons.prems obtain e ws where e: "f_edge B D x y g = Some e" "ep_path (g_eprops B g e) = Some ws" by auto
  have "edge_cost B D g y x = ep_planned_cost (g_eprops B g e)"
    using e(1) f_edge_sym [of D x y g] by (simp add: edge_cost_def)
  moreover have "\<forall>(x, y) \<in> set xs. \<exists>e. f_edge B D x y g = Some e \<and> ep_path (g_eprops B g e) \<noteq> None"
    using Cons.prems by simp
  ultimately show ?case using Cons.IH e by (simp add: append_segment_def xy)
qed simp

lemma build_result_ok:
  assumes "core st" and "best_ok st"
  shows "\<exists>r. build_result B D goal st = Some r \<and> (pr_success r \<longleftrightarrow> reached (sx_came_from st) start goal) \<and>
    result_ok B D (sx_graph st) start goal r"
proof (cases "sx_came_from st goal")
  case None
  then show ?thesis
    using assms(2) endpoints by (auto simp: build_result_def best_ok_def no_path_def reached_def result_ok_def)
next
  case (Some p)
  have t: "tree_ok st" using assms(1) by (simp add: core_def)
  let ?cost = "edge_cost B D (sx_graph st)"
  have sc: "scored ?cost (sx_came_from st) (sx_g_score st) start" using t by (simp add: tree_ok_def)
  have r: "reached (sx_came_from st) start goal" using Some by (auto simp: reached_def)
  then have "rooted (sx_came_from st) start goal" using sc reached_rooted by (simp add: scored_def)
  from trace_back_route [OF sc this] obtain xs where
    xs: "trace_back (sx_came_from st) goal [goal] = Some (goal # tl (rev xs))" "xs \<noteq> []" "hd xs = start" "last xs = goal"
      "\<forall>(p, y) \<in> set (steps xs). sx_came_from st y = Some p"
      "sx_g_score st goal = Some (fold (\<lambda>(p, y) t. dadd t (?cost y p)) (steps xs) (Fin 0))" by auto
  have turned: "rev (goal # tl (rev xs)) = xs" using xs(2,4) by (metis hd_rev list.collapse rev_is_Nil_conv rev_rev_ident)
  have link: "\<forall>(x, y) \<in> set (steps xs).
      \<exists>e. f_edge B D x y (sx_graph st) = Some e \<and> ep_path (g_eprops B (sx_graph st) e) \<noteq> None"
  proof clarify
    fix x y assume "(x, y) \<in> set (steps xs)"
    with xs(5) have "sx_came_from st y = Some x" by auto
    with t show "\<exists>e. f_edge B D x y (sx_graph st) = Some e \<and> ep_path (g_eprops B (sx_graph st) e) \<noteq> None"
      unfolding tree_ok_def f_edge_sym [of D x y] by blast
  qed
  obtain ws d where seg: "fold (append_segment B D (sx_graph st)) (steps xs) ([], Fin 0, Fin 0) =
      (ws, d, fold (\<lambda>(x, y) t. dadd t (?cost y x)) (steps xs) (Fin 0))"
    using append_segments_cost [OF link] by blast
  have "?cost x y = ?cost y x" for x y unfolding edge_cost_def f_edge_sym [of D x y] ..
  then have sum: "fold (\<lambda>(x, y) t. dadd t (?cost x y)) (steps xs) (Fin 0) =
      fold (\<lambda>(x, y) t. dadd t (?cost y x)) (steps xs) (Fin 0)" by simp
  obtain c where "0 \<le> c" "sx_g_score st goal = Some (Fin c)" by (rule reached_score [OF sc r])
  moreover have "dlt (sx_best_score st) PosInf" using assms(2) Some by (auto simp: best_ok_def)
  ultimately show ?thesis
    using xs turned link seg sum r
    unfolding build_result_def result_ok_def is_route_def route_cost_def steps_def [symmetric] by simp
qed

lemma astar_loop_throws:
  assumes "core st" and "best_ok st"
    and "astar_loop B H ord env D z reuse start goal st = Some (Some exn, st')"
  shows "\<exists>invoke request w. pe_update_edge env = Some invoke \<and> invoke request w = Inl exn"
  using assms
proof (induction "card (unplanned st)" arbitrary: st rule: less_induct)
  case less
  from less.prems(3) have ne: "entries (sx_open_heap st) \<noteq> Map.empty"
    by (subst (asm) astar_loop.simps) (auto simp: heap_is_empty split: if_splits)
  then have loop: "astar_loop B H ord env D z reuse start goal st =
      (case astar_step B H ord env D z reuse start goal st of
         None \<Rightarrow> None | Some (Threw exn st') \<Rightarrow> Some (Some exn, st') | Some (Stopped st') \<Rightarrow> Some (None, st')
       | Some (Running st') \<Rightarrow> astar_loop B H ord env D z reuse start goal st')"
    by (subst astar_loop.simps) (simp add: heap_is_empty)
  show ?case
  proof (cases rule: step_ok [OF less.prems(1,2) ne, case_names threw stopped running])
    case (threw x st'')
    then have "x = exn" using less.prems(3) loop by simp
    with threw(3) show ?thesis by blast
  next
    case (stopped st'')
    with less.prems(3) loop show ?thesis by simp
  next
    case (running st'')
    with less.hyps [of st''] less.prems(3) loop show ?thesis by simp
  qed
qed

end

section \<open>Queries\<close>

definition query_ok :: "('g, 'e) bgl \<Rightarrow> 'w planner_env \<Rightarrow> Vertex set \<Rightarrow> bool \<Rightarrow> Vertex \<Rightarrow> Vertex \<Rightarrow> 'g \<Rightarrow> bool" where
  "query_ok B env D reuse start goal g \<longleftrightarrow>
     wf_graph B g \<and> start < g_num_vertices B g \<and> goal < g_num_vertices B g \<and> start \<noteq> goal \<and>
     distinct (f_neighbours B D start g) \<and> second_level_nonneg env \<and> cached_nonneg B reuse g"

lemma query_planner:
  assumes "boost_graph B" and "fib_heap H entries" and "unordered ord" and "query_ok B env D reuse start goal g"
    and "start \<notin> D" and "goal \<notin> D"
  shows "planner B H entries ord env D reuse start goal g"
  using assms by (simp add: planner_def planner_axioms_def query_ok_def)

lemma planTopomapPath_spec:
  assumes "boost_graph B" and "fib_heap H entries" and "unordered ord" and "query_ok B env D reuse start goal g"
  shows "\<exists>out g' w' n. planTopomapPath B H ord env g start goal D z reuse w = Some (out, g', w', n) \<and> same_shape B g g' \<and>
    cached_nonneg B reuse g' \<and>
    (\<forall>exn. out = Inl exn \<longrightarrow> (\<exists>invoke request w. pe_update_edge env = Some invoke \<and> invoke request w = Inl exn)) \<and>
    (\<forall>r. out = Inr r \<longrightarrow> result_ok B D g' start goal r)"
proof (cases "start \<in> D \<or> goal \<in> D")
  case True
  then show ?thesis using assms(4) by (simp add: planTopomapPath_def same_shape_def result_ok_def no_path_def query_ok_def)
next
  case False
  then have p: "planner B H entries ord env D reuse start goal g" using query_planner [OF assms] by blast
  let ?st = "initial_search B H D z start goal g w"
  have ini: "planner.core B entries D reuse start g ?st" "planner.best_ok goal ?st"
    using planner.initial_core [OF p] by blast+
  obtain exn st where loop: "astar_loop B H ord env D z reuse start goal ?st = Some (exn, st)"
    and st: "planner.core B entries D reuse start g st" "exn = None \<longrightarrow> planner.best_ok goal st"
    using planner.astar_loop_ok [OF p ini] by blast
  have shape: "same_shape B g (sx_graph st)" "cached_nonneg B reuse (sx_graph st)"
    using st(1) by (simp_all add: planner.core_def [OF p])
  show ?thesis
  proof (cases exn)
    case (Some x)
    with planner.astar_loop_throws [OF p ini] loop shape False show ?thesis by (simp add: planTopomapPath_def)
  next
    case None
    with planner.build_result_ok [OF p st(1)] st(2) obtain r where
      r: "build_result B D goal st = Some r" "result_ok B D (sx_graph st) start goal r" by blast
    with None loop shape False r show ?thesis by (simp add: planTopomapPath_def)
  qed
qed

end
