(* ===== verification/Planner_Live.thy ===== *)
theory Planner_Live
  imports Planner_Correct
begin

text \<open>
  When \<open>planTopomapPath\<close> finds a route: the second invariant of the search (every edge at a reached
  vertex is closed or open, with a finite key), the properties of a query, and a sample query.
\<close>

section \<open>Finding a route when there is one\<close>

text \<open>
  The assumptions: the second-level planner always finds a path, the map server's client does not
  throw, every edge has a finite estimate, and a path of enabled edges joins start and goal.
\<close>

locale live_planner = planner B H entries ord env D z reuse start goal g0
  for B :: "('g, 'e) bgl" and H :: "('h, 'k) heap_ops" and entries :: "'h \<Rightarrow> 'k \<rightharpoonup> OpenSetEdge"
    and ord :: "Vertex set \<Rightarrow> Vertex list" and env :: "'w planner_env" and D :: "Vertex set" and z :: real
    and reuse :: bool and start goal :: Vertex and g0 :: 'g +
  assumes always_plans: "pe_second_level env fl rm p q w = ((ws, d, c), w') \<Longrightarrow> ws \<noteq> None"
    and never_throws: "pe_update_edge env = Some invoke \<Longrightarrow> invoke request w \<noteq> Inl x"
    and finite_estimates: "f_edge B D u v g0 \<noteq> None \<Longrightarrow> \<exists>r. h1_score B D g0 u v = Fin r"
    and connected: "linked B g0 D start goal"
begin

definition open_ok :: "(Vertex \<rightharpoonup> Vertex) \<Rightarrow> 'h \<Rightarrow> bool" where
  "open_ok cf h \<longleftrightarrow> (\<forall>k x. entries h k = Some x \<longrightarrow>
     (reached cf start (oe_u x) \<or> reached cf start (oe_v x)) \<and> (\<exists>r. oe_f_score x = Fin r))"

definition untouched :: "('g, 'h, 'k, 'w) search \<Rightarrow> bool" where
  "untouched st \<longleftrightarrow> (\<forall>u v e. f_edge B D u v g0 = Some e \<longrightarrow> edge_key u v \<notin> sx_closed_set st \<longrightarrow>
     g_eprops B (sx_graph st) e = g_eprops B g0 e)"

text \<open>Closed edges join reached vertices, and every other edge at a reached vertex is open.\<close>

definition frontier :: "('g, 'h, 'k, 'w) search \<Rightarrow> bool" where
  "frontier st \<longleftrightarrow>
     (\<forall>u v. edge_key u v \<in> sx_closed_set st \<longrightarrow> reached (sx_came_from st) start u) \<and>
     (\<forall>u v. reached (sx_came_from st) start u \<longrightarrow> f_edge B D u v g0 \<noteq> None \<longrightarrow>
        edge_key u v \<in> sx_closed_set st \<or> in_open st (edge_key u v))"

definition live :: "('g, 'h, 'k, 'w) search \<Rightarrow> bool" where
  "live st \<longleftrightarrow> untouched st \<and> open_ok (sx_came_from st) (sx_open_heap st) \<and> frontier st"

lemma open_ok_mono:
  assumes "open_ok cf h" and "\<And>k x. entries h' k = Some x \<Longrightarrow> entries h k = Some x"
    and "\<And>x. reached cf start x \<Longrightarrow> reached cf' start x"
  shows "open_ok cf' h'"
  using assms unfolding open_ok_def by blast

lemma reached_mono: "reached cf start x \<Longrightarrow> reached (cf(y \<mapsto> p)) start x"
  by (auto simp: reached_def)

lemma f_value_finite:
  assumes "core st" and "untouched st" and "reached (sx_came_from st) start u" and "f_edge B D u v g0 \<noteq> None"
    and "edge_key u v \<notin> sx_closed_set st"
  shows "\<exists>r. dadd (dadd (g_score (sx_g_score st) u) (h1_score B D (sx_graph st) u v)) (h2_score B z goal (sx_graph st) v) = Fin r"
proof -
  obtain e where e: "f_edge B D u v g0 = Some e" using assms(4) by blast
  have core: "same_shape B g0 (sx_graph st)" "tree_ok st" using assms(1) by (auto simp: core_def)
  have g: "f_edge B D u v (sx_graph st) = Some e" using e f_edge_shape [OF core(1)] by simp
  note range = graph_range [OF core(1) g]
  obtain a where "g_score (sx_g_score st) u = Fin a"
    by (rule score_cases [OF core(2) range(1,3)]) (use assms(3) in auto)
  moreover have "h1_score B D (sx_graph st) u v = h1_score B D g0 u v"
    using assms(2,5) e g unfolding untouched_def h1_score_def by simp
  ultimately show ?thesis using finite_estimates [OF assms(4)] by (auto simp: h2_score_def)
qed

lemma lower_reached:
  assumes "core st" and "u < g_num_vertices B g0" "u \<notin> D" "v < g_num_vertices B g0" "v \<notin> D"
    and "dle (g_score (sx_g_score st) u) (g_score (sx_g_score st) v)"
    and "reached (sx_came_from st) start u \<or> reached (sx_came_from st) start v"
  shows "reached (sx_came_from st) start u"
proof -
  have t: "tree_ok st" using assms(1) by (simp add: core_def)
  show ?thesis
    by (rule score_cases [OF t assms(2,3)]; rule score_cases [OF t assms(4,5)]) (use assms(6,7) in \<open>auto simp: dle_def\<close>)
qed

lemma not_dle_swap:
  assumes "core st" and "u < g_num_vertices B g0" "u \<notin> D" "v < g_num_vertices B g0" "v \<notin> D"
    and "\<not> dle (g_score (sx_g_score st) u) (g_score (sx_g_score st) v)"
  shows "dle (g_score (sx_g_score st) v) (g_score (sx_g_score st) u)"
proof -
  have t: "tree_ok st" using assms(1) by (simp add: core_def)
  show ?thesis
    by (rule score_cases [OF t assms(2,3)]; rule score_cases [OF t assms(4,5)]) (use assms(6) in \<open>auto simp: dle_def\<close>)
qed

lemma refresh_edge_open_ok:
  assumes "core (st\<lparr>sx_open_heap := fst acc\<rparr>)" and "untouched st" and "open_ok (sx_came_from st) (fst acc)"
  shows "open_ok (sx_came_from st) (fst (refresh_edge B H D z goal st node neighbor acc))"
proof -
  obtain h us where acc: "acc = (h, us)" by fastforce
  let ?st = "st\<lparr>sx_open_heap := h\<rparr>" and ?g = "g_score (sx_g_score st)"
  have core: "core ?st" "same_shape B g0 (sx_graph st)" "heap_ok ?st" using assms(1) by (simp_all add: acc core_def)
  have "open_ok (sx_came_from st) (hp_update H k \<lparr>oe_u = u, oe_v = v, oe_f_score =
      dadd (dadd (?g a) (h1_score B D (sx_graph st) a b)) (h2_score B z goal (sx_graph st) b)\<rparr> h)"
    if k: "sx_edge_to_handle st (u, v) = Some k" and ab: "(if dle (?g u) (?g v) then (u, v) else (v, u)) = (a, b)"
    for u v k a b
  proof -
    obtain x where x: "entries h k = Some x" "oe_u x = u" "oe_v x = v"
      using core(3) k unfolding heap_ok_def by fastforce
    then have uv: "u \<le> v" "f_edge B D u v g0 \<noteq> None" "(u, v) \<notin> sx_closed_set st"
      using core(3) unfolding heap_ok_def by fastforce+
    obtain e where e: "f_edge B D u v (sx_graph st) = Some e" using uv(2) f_edge_shape [OF core(2)] by auto
    note range = graph_range [OF core(2) e]
    have "dle (?g a) (?g b)" using ab not_dle_swap [OF core(1) range(1,3,2,4)] by (auto split: if_splits)
    then have a: "reached (sx_came_from st) start a"
      using lower_reached [of ?st a b] core(1) range ab x assms(3) unfolding acc open_ok_def by (fastforce split: if_splits)
    have "edge_key a b = (u, v)" "f_edge B D a b g0 \<noteq> None"
      using ab uv(1,2) edge_key_sym [of v u] f_edge_sym [of D v u] by (auto split: if_splits)
    then have "\<exists>r. dadd (dadd (?g a) (h1_score B D (sx_graph st) a b)) (h2_score B z goal (sx_graph st) b) = Fin r"
      using f_value_finite [of ?st a b] core(1) a uv(3) assms(2) by (simp add: untouched_def)
    moreover have "reached (sx_came_from st) start u \<or> reached (sx_came_from st) start v"
      using a ab by (auto split: if_splits)
    ultimately show ?thesis
      using assms(3) heap_update [of h k] x(1) unfolding acc open_ok_def by (auto split: if_splits)
  qed
  then show ?thesis
    using assms(3) unfolding refresh_edge_def acc by (auto simp: Let_def split: option.split prod.split)
qed

lemma refresh_open_open_ok:
  assumes "core st" and "untouched st" and "open_ok (sx_came_from st) (sx_open_heap st)"
  shows "open_ok (sx_came_from st) (sx_open_heap (refresh_open B H D z goal nodes st))"
proof -
  let ?P = "\<lambda>acc :: 'h \<times> (Vertex \<times> Vertex) set. core (st\<lparr>sx_open_heap := fst acc\<rparr>) \<and> open_ok (sx_came_from st) (fst acc)"
  have edge: "?P (refresh_edge B H D z goal st node n acc)" if P: "?P acc" for node n acc
  proof
    have "heap_ok (st\<lparr>sx_open_heap := fst acc\<rparr>)" using P by (simp add: core_def)
    from refresh_edge_ok [OF this] show "core (st\<lparr>sx_open_heap := fst (refresh_edge B H D z goal st node n acc)\<rparr>)"
      by (rule core_cong [OF assms(1)]) simp_all
    show "open_ok (sx_came_from st) (fst (refresh_edge B H D z goal st node n acc))"
      using P assms(2) by (intro refresh_edge_open_ok) blast+
  qed
  have "?P (fold (\<lambda>node. fold (refresh_edge B H D z goal st node) (f_neighbours B D node (sx_graph st)))
      nodes (sx_open_heap st, {}))"
    by (rule fold_invariant [where Q = "\<lambda>_. True"], simp)
      (use assms in simp, rule fold_invariant [where Q = "\<lambda>_. True"], simp_all add: edge)
  then show ?thesis by (simp add: refresh_open_def)
qed

lemma push_neighbours_open_ok:
  assumes "core st" and "untouched st" and "open_ok (sx_came_from st) (sx_open_heap st)"
    and "reached (sx_came_from st) start suc" and "\<forall>w \<in> set ns. f_edge B D suc w g0 \<noteq> None"
  shows "open_ok (sx_came_from st) (sx_open_heap (fold (push_neighbour B H D z goal pre suc) ns st))"
proof -
  let ?P = "\<lambda>s. sx_came_from s = sx_came_from st \<and> sx_graph s = sx_graph st \<and> sx_g_score s = sx_g_score st \<and>
    sx_closed_set s = sx_closed_set st \<and> open_ok (sx_came_from st) (sx_open_heap s)"
  have "?P (push_neighbour B H D z goal pre suc w s)" if w: "f_edge B D suc w g0 \<noteq> None" and s: "?P s" for w s
  proof (cases "w = pre \<or> edge_key suc w \<in> sx_closed_set s \<or> in_open s (edge_key suc w)")
    case True
    then show ?thesis using s by (simp add: push_neighbour_eq)
  next
    case False
    let ?f = "dadd (dadd (g_score (sx_g_score s) suc) (h1_score B D (sx_graph s) suc w)) (h2_score B z goal (sx_graph s) w)"
    let ?x = "\<lparr>oe_u = fst (edge_key suc w), oe_v = snd (edge_key suc w), oe_f_score = ?f\<rparr>"
    have "\<exists>r. ?f = Fin r" using f_value_finite [OF assms(1,2,4) w] False s by simp
    moreover have "fst (edge_key suc w) = suc \<or> snd (edge_key suc w) = suc" by (auto simp: edge_key_def)
    moreover obtain k h where p: "hp_push H ?x (sx_open_heap s) = (k, h)" by fastforce
    ultimately have "open_ok (sx_came_from st) h"
      using heap_push [OF p] s assms(4) unfolding open_ok_def by (auto split: if_splits)
    moreover have "sx_open_heap (push_open H suc w ?f s) = h" unfolding push_open_def p by simp
    ultimately show ?thesis using False s unfolding push_neighbour_eq by simp
  qed
  then have "?P (fold (push_neighbour B H D z goal pre suc) ns st)"
    by (intro fold_invariant [where Q = "\<lambda>w. f_edge B D suc w g0 \<noteq> None" and P = ?P]) (use assms in auto)
  then show ?thesis by blast
qed

lemma initial_live: "live (initial_search B H D z start goal g0 w)"
proof -
  let ?st = "initial_search B H D z start goal g0 w"
  note ini = initial_core [of w]
  let ?P = "\<lambda>s :: ('g, 'h, 'k, 'w) search. sx_graph s = g0 \<and> open_ok Map.empty (sx_open_heap s)"
  have push: "?P (push_open H start y (dadd (h1_score B D g0 start y) (h2_score B z goal g0 y)) s)"
    if y: "f_edge B D start y g0 \<noteq> None" and s: "?P s" for y s
  proof -
    let ?f = "dadd (h1_score B D g0 start y) (h2_score B z goal g0 y)"
    let ?x = "\<lparr>oe_u = fst (edge_key start y), oe_v = snd (edge_key start y), oe_f_score = ?f\<rparr>"
    have "\<exists>r. ?f = Fin r" using finite_estimates [OF y] by (auto simp: h2_score_def)
    moreover have "fst (edge_key start y) = start \<or> snd (edge_key start y) = start" by (auto simp: edge_key_def)
    moreover obtain k h where p: "hp_push H ?x (sx_open_heap s) = (k, h)" by fastforce
    ultimately have "open_ok Map.empty h"
      using heap_push [OF p] s unfolding open_ok_def reached_def by (auto split: if_splits)
    with s show ?thesis by (simp, simp add: push_open_def p)
  qed
  have "?P ?st"
    unfolding initial_search_def
  proof (rule fold_invariant [where Q = "\<lambda>y. f_edge B D start y g0 \<noteq> None"])
    show "f_edge B D start y g0 \<noteq> None" if "y \<in> set (f_neighbours B D start g0)" for y
      using that f_neighbours_iff by blast
  qed (rule push | simp add: open_ok_def heap_empty)+
  with ini show ?thesis unfolding live_def untouched_def frontier_def by (simp add: reached_def)
qed

lemma explore_live:
  assumes "core st" and "best_ok st" and "u \<le> v" and "(u, v) \<in> sx_closed_set st"
    and "f_edge B D u v (sx_graph st) = Some e" and "c = ep_planned_cost (g_eprops B (sx_graph st) e)"
    and c: "nonneg c" "ep_path (g_eprops B (sx_graph st) e) \<noteq> None"
    and "untouched st" and open': "open_ok (sx_came_from st) (sx_open_heap st)"
    and uv: "reached (sx_came_from st) start u \<or> reached (sx_came_from st) start v"
    and closed: "\<And>x y. edge_key x y \<in> sx_closed_set st \<Longrightarrow> edge_key x y \<noteq> (u, v) \<Longrightarrow> reached (sx_came_from st) start x"
    and front: "\<And>x y. reached (sx_came_from st) start x \<Longrightarrow> f_edge B D x y g0 \<noteq> None \<Longrightarrow>
        edge_key x y \<in> sx_closed_set st \<or> in_open st (edge_key x y)"
  obtains st3 where "explore B H ord D z goal u v c st = Some (Running st3)" and "live st3"
  | st3 where "explore B H ord D z goal u v c st = Some (Stopped st3)" and "reached (sx_came_from st3) start goal"
proof -
  have shape: "same_shape B g0 (sx_graph st)" using assms(1) by (simp add: core_def)
  have c': "c = PosInf \<or> nonneg c \<and> ep_path (g_eprops B (sx_graph st) e) \<noteq> None" using c by blast
  obtain pre suc st1 b st3 where key: "edge_key suc pre = (u, v)" "edge_key pre suc = (u, v)"
    and le: "dle (g_score (sx_g_score st) pre) (g_score (sx_g_score st) suc)"
    and ex: "explore B H ord D z goal u v c st =
      Some (if \<not> hp_is_empty H (sx_open_heap st3) \<and> dle (sx_best_score st3) (oe_f_score (hp_top H (sx_open_heap st3)))
        then Stopped st3 else Running st3)"
    and st3: "core st3" "best_ok st3" "sx_closed_set st3 = sx_closed_set st" "sx_graph st3 = sx_graph st"
    and cf: "sx_came_from st3 = sx_came_from st \<or> sx_came_from st3 = (sx_came_from st)(suc \<mapsto> pre)"
    and suc: "reached (sx_came_from st) start pre \<Longrightarrow> nonneg c \<Longrightarrow> reached (sx_came_from st3) start suc"
    and keep: "\<And>key. in_open st key \<Longrightarrow> in_open st3 key"
    and push: "\<And>w. f_edge B D suc w g0 \<noteq> None \<Longrightarrow> edge_key suc w \<in> sx_closed_set st \<or> in_open st3 (edge_key suc w)"
    and st1: "st1 = st \<or> (\<exists>nodes gs. let st'' = st\<lparr>sx_came_from := (sx_came_from st)(suc \<mapsto> pre), sx_g_score := gs\<rparr>
           in core st'' \<and> st1 = refresh_open B H D z goal nodes st'')"
    and st2: "core (st1\<lparr>sx_best_score := b\<rparr>)"
      "st3 = fold (push_neighbour B H D z goal pre suc) (f_neighbours B D suc g0) (st1\<lparr>sx_best_score := b\<rparr>)"
    by (rule explore_ok [OF assms(1-6) c']) blast
  have ends: "{pre, suc} = {u, v}" using key(2) by (simp add: edge_key_ends)
  note range = graph_range [OF shape assms(5)]
  have pre: "reached (sx_came_from st) start pre"
  proof (rule lower_reached [OF assms(1) _ _ _ _ le])
    show "reached (sx_came_from st) start pre \<or> reached (sx_came_from st) start suc" using uv ends by (metis doubleton_eq_iff)
  qed (use ends range in \<open>auto simp: doubleton_eq_iff\<close>)
  from suc [OF pre c(1)] have suc: "reached (sx_came_from st3) start suc" .
  have mono: "reached (sx_came_from st3) start x" if "reached (sx_came_from st) start x" for x
    using cf that reached_mono by auto
  have fn: "\<forall>w \<in> set (f_neighbours B D suc g0). f_edge B D suc w g0 \<noteq> None" using f_neighbours_iff by blast
  let ?st2 = "st1\<lparr>sx_best_score := b\<rparr>"
  have cf2: "sx_came_from ?st2 = sx_came_from st3" using push_neighbour_fold [OF st2(1) fn, of pre] st2(2) by simp
  have un: "untouched ?st2 \<and> open_ok (sx_came_from st1) (sx_open_heap ?st2)"
    using st1
  proof
    assume "st1 = st"
    with assms(9) open' show ?thesis by (simp add: untouched_def)
  next
    assume "\<exists>nodes gs. let st'' = st\<lparr>sx_came_from := (sx_came_from st)(suc \<mapsto> pre), sx_g_score := gs\<rparr>
           in core st'' \<and> st1 = refresh_open B H D z goal nodes st''"
    then obtain nodes gs where r: "core (st\<lparr>sx_came_from := (sx_came_from st)(suc \<mapsto> pre), sx_g_score := gs\<rparr>)"
      "st1 = refresh_open B H D z goal nodes (st\<lparr>sx_came_from := (sx_came_from st)(suc \<mapsto> pre), sx_g_score := gs\<rparr>)"
      unfolding Let_def by blast
    have "open_ok ((sx_came_from st)(suc \<mapsto> pre)) (sx_open_heap st)"
      by (rule open_ok_mono [OF open']) (auto intro: reached_mono)
    then show ?thesis
      using refresh_open_open_ok [OF r(1), of nodes] assms(9)
      unfolding r(2) untouched_def by (simp add: refresh_open_def)
  qed
  have "open_ok (sx_came_from ?st2) (sx_open_heap st3)"
    unfolding st2(2) by (rule push_neighbours_open_ok [OF st2(1) _ _ _ fn]) (use un suc cf2 in simp_all)
  then have open3: "open_ok (sx_came_from st3) (sx_open_heap st3)" using cf2 by simp
  have "reached (sx_came_from st3) start x" if "edge_key x y \<in> sx_closed_set st3" for x y
    using that closed [of x y] mono pre suc ends st3(3) by (cases "edge_key x y = (u, v)") (auto simp: edge_key_ends doubleton_eq_iff)
  moreover have "edge_key x y \<in> sx_closed_set st3 \<or> in_open st3 (edge_key x y)"
    if "reached (sx_came_from st3) start x" "f_edge B D x y g0 \<noteq> None" for x y
  proof (cases "x = suc")
    case True
    with push that st3(3) show ?thesis by simp
  next
    case False
    then have "reached (sx_came_from st) start x" using cf that(1) by (auto simp: reached_def)
    with front that(2) keep st3(3) show ?thesis by metis
  qed
  ultimately have "frontier st3" unfolding frontier_def by blast
  moreover have "untouched st3" using assms(9) st3(3,4) by (simp add: untouched_def)
  ultimately have live: "live st3" using open3 by (simp add: live_def)
  show thesis
  proof (cases "\<not> hp_is_empty H (sx_open_heap st3) \<and> dle (sx_best_score st3) (oe_f_score (hp_top H (sx_open_heap st3)))")
    case False
    with ex live that(1) show thesis by simp
  next
    case True
    then obtain r where "oe_f_score (hp_top H (sx_open_heap st3)) = Fin r"
      using heap_pop [of "sx_open_heap st3"] open3 unfolding heap_is_empty open_ok_def by blast
    with True have "sx_best_score st3 \<noteq> PosInf" by (auto simp: dle_def)
    with st3(2) have "reached (sx_came_from st3) start goal" by (auto simp: best_ok_def reached_def split: if_splits)
    with ex True that(2) show thesis by simp
  qed
qed

lemma step_live:
  assumes "core st" and "best_ok st" and "live st" and "entries (sx_open_heap st) \<noteq> Map.empty"
  obtains st' where "astar_step B H ord env D z reuse start goal st = Some (Running st')" and "live st'"
  | st' where "astar_step B H ord env D z reuse start goal st = Some (Stopped st')" and "reached (sx_came_from st') start goal"
proof (cases rule: step_cases [OF assms(1,2,4), case_names ex go])
  case (ex exn st')
  with never_throws show thesis by blast
next
  case (go u v e q n w st2)
  have st2: "sx_came_from st2 = sx_came_from st" "sx_closed_set st2 = insert (u, v) (sx_closed_set st)"
    using go(6) by simp_all
  have q: "nonneg (ep_planned_cost q)" using go(16) always_plans by blast
  then have path: "ep_path q \<noteq> None" using go(10) by (auto simp: nonneg_def)
  have live: "untouched st" "open_ok (sx_came_from st) (sx_open_heap st)" "frontier st" using assms(3) by (auto simp: live_def)
  have un: "untouched st2" using live(1) go(13) st2(2) unfolding untouched_def by (metis insertCI)
  have op: "open_ok (sx_came_from st2) (sx_open_heap st2)"
    by (rule open_ok_mono [OF live(2)]) (use go(15) st2 in auto)
  have uv: "reached (sx_came_from st2) start u \<or> reached (sx_came_from st2) start v"
    using heap_pop [OF assms(4)] live(2) st2(1) go(4,5) unfolding open_ok_def by metis
  have closed: "reached (sx_came_from st2) start x"
    if "edge_key x y \<in> sx_closed_set st2" "edge_key x y \<noteq> (u, v)" for x y
    using that live(3) st2 unfolding frontier_def by auto
  have front: "edge_key x y \<in> sx_closed_set st2 \<or> in_open st2 (edge_key x y)"
    if "reached (sx_came_from st2) start x" "f_edge B D x y g0 \<noteq> None" for x y
  proof -
    from that live(3) st2(1) have "edge_key x y \<in> sx_closed_set st \<or> in_open st (edge_key x y)"
      unfolding frontier_def by simp
    then show ?thesis using st2(2) go(14) [of "edge_key x y"] by (cases "edge_key x y = (u, v)") auto
  qed
  have mem: "(u, v) \<in> sx_closed_set st2" by (simp add: st2(2))
  have props: "ep_planned_cost q = ep_planned_cost (g_eprops B (sx_graph st2) e)" "ep_path (g_eprops B (sx_graph st2) e) \<noteq> None"
    using go(11) path by simp_all
  show thesis
    by (rule explore_live [OF go(7,8,1) mem go(12) props(1) q props(2) un op uv closed front])
      (assumption | use that go(9) in simp)+
qed

lemma astar_loop_live:
  assumes "core st" and "best_ok st" and "live st"
  shows "\<exists>st'. astar_loop B H ord env D z reuse start goal st = Some (None, st') \<and> reached (sx_came_from st') start goal"
  using assms
proof (induction "card (unplanned st)" arbitrary: st rule: less_induct)
  case less
  show ?case
  proof (cases "hp_is_empty H (sx_open_heap st)")
    case True
    have "\<not> in_open st key" for key
    proof
      assume "in_open st key"
      then obtain k where "sx_edge_to_handle st key = Some k" by (auto simp: in_open_def)
      with less.prems(1) True show False unfolding core_def heap_ok_def heap_is_empty by fastforce
    qed
    then have front: "f_edge B D x y g0 \<noteq> None \<Longrightarrow> reached (sx_came_from st) start x \<Longrightarrow> reached (sx_came_from st) start y" for x y
      using less.prems(3) edge_key_sym [of x y] unfolding live_def frontier_def by metis
    have "(start, goal) \<in> (links (enabled_ends B g0 D))\<^sup>*" using connected by (simp add: linked_def)
    then have "reached (sx_came_from st) start goal"
    proof (induction rule: rtrancl_induct)
      case (step y z)
      from front [OF links_f_edge [OF step.hyps(2)] step.IH] show ?case .
    qed (simp add: reached_def)
    with True show ?thesis by (subst astar_loop.simps) simp
  next
    case False
    then have ne: "entries (sx_open_heap st) \<noteq> Map.empty" by (simp add: heap_is_empty)
    show ?thesis
    proof (cases rule: step_live [OF less.prems ne, case_names running stopped])
      case (running st')
      moreover have "core st' \<and> best_ok st' \<and> card (unplanned st') < card (unplanned st)"
        by (rule step_ok [OF less.prems(1,2) ne]) (use running(1) in auto)
      ultimately show ?thesis using less.hyps [of st'] by (subst astar_loop.simps) (simp add: False)
    next
      case (stopped st')
      with False show ?thesis by (subst astar_loop.simps) simp
    qed
  qed
qed

end

context live_planner
begin

lemma planTopomapPath_finds:
  "\<exists>r g' w' n. planTopomapPath B H ord env g0 start goal D z reuse w = Some (Inr r, g', w', n) \<and> pr_success r"
proof -
  let ?st = "initial_search B H D z start goal g0 w"
  have ini: "core ?st" "best_ok ?st" using initial_core by blast+
  obtain st where loop: "astar_loop B H ord env D z reuse start goal ?st = Some (None, st)" "reached (sx_came_from st) start goal"
    using astar_loop_live [OF ini initial_live] by blast
  then have st: "core st" "best_ok st" using astar_loop_ok [OF ini] by simp_all
  obtain r where "build_result B D goal st = Some r" "pr_success r" using build_result_ok [OF st] loop(2) by blast
  with loop(1) endpoints show ?thesis by (simp add: planTopomapPath_def)
qed

end

section \<open>Properties\<close>

definition plannable :: "('g, 'e) bgl \<Rightarrow> 'w planner_env \<Rightarrow> Vertex set \<Rightarrow> 'g \<Rightarrow> bool" where
  "plannable B env D g \<longleftrightarrow>
     (\<forall>fl rm p q w. fst (fst (pe_second_level env fl rm p q w)) \<noteq> None) \<and>
     (\<forall>invoke request w x. pe_update_edge env = Some invoke \<longrightarrow> invoke request w \<noteq> Inl x) \<and>
     (\<forall>u v. f_edge B D u v g \<noteq> None \<longrightarrow> (\<exists>r. h1_score B D g u v = Fin r))"

lemma plannable_live:
  assumes "planner B H entries ord env D reuse start goal g" and "linked B g D start goal" and "plannable B env D g"
  shows "live_planner B H entries ord env D reuse start goal g"
  using assms by (auto simp: live_planner_def live_planner_axioms_def plannable_def) (metis fst_conv option.distinct(1))

text \<open>
  C3: the planner always returns. For every query on a well-formed graph with costs that are not
  negative, \<open>planTopomapPath\<close> ends, with a result or an exception of the map server's client; the
  exception is one the client threw, so without a client there is none.
\<close>

theorem planTopomapPath_returns:
  assumes "boost_graph B" and "fib_heap H entries" and "unordered ord" and "query_ok B env D reuse start goal g"
  shows "\<exists>out g' w' n. planTopomapPath B H ord env g start goal D z reuse w = Some (out, g', w', n) \<and>
    (\<forall>exn. out = Inl exn \<longrightarrow> (\<exists>invoke request w. pe_update_edge env = Some invoke \<and> invoke request w = Inl exn))"
  using planTopomapPath_spec [OF assms, of z w] by fastforce

text \<open>
  C1: a successful result is a route. Its coarse path leads from the start to the goal along edges
  of the filtered graph, each with a planned path, and its total cost is the sum of their planned
  costs, finite and not negative; a result without success is the empty one with infinite costs.
\<close>

theorem planTopomapPath_route:
  assumes "boost_graph B" and "fib_heap H entries" and "unordered ord" and "query_ok B env D reuse start goal g"
    and "planTopomapPath B H ord env g start goal D z reuse w = Some (Inr r, g', w', n)"
  shows "if pr_success r
    then is_route B D g' start goal (pr_coarse_path r) \<and> pr_total_cost r = route_cost B D g' (pr_coarse_path r) \<and>
      (\<exists>c \<ge> 0. pr_total_cost r = Fin c)
    else r = no_path"
  using planTopomapPath_spec [OF assms(1-4), of z w] assms(5) unfolding result_ok_def by fastforce

text \<open>
  The search writes nothing of the map but the properties of edges. Whatever the outcome, the
  graph keeps its nodes, its edges and their ends.
\<close>

theorem planTopomapPath_keeps_graph:
  assumes "boost_graph B" and "fib_heap H entries" and "unordered ord" and "query_ok B env D reuse start goal g"
    and "planTopomapPath B H ord env g start goal D z reuse w = Some (out, g', w', n)"
  shows "nodes_view B g' = nodes_view B g \<and> edge_ends B g' = edge_ends B g"
proof -
  have "same_shape B g g'" using planTopomapPath_spec [OF assms(1-4), of z w] assms(5) by auto
  then show ?thesis by (auto simp: same_shape_def edge_ends_def)
qed

text \<open>
  C2: the planner finds a route when there is one. If the enabled edges join start and goal, the
  second-level planner plans every edge, the client does not throw and every edge has a finite
  estimate, the result is a success.
\<close>

theorem planTopomapPath_succeeds:
  assumes "boost_graph B" and "fib_heap H entries" and "unordered ord" and "query_ok B env D reuse start goal g"
    and "start \<notin> D" and "goal \<notin> D" and "linked B g D start goal" and "plannable B env D g"
  shows "\<exists>r g' w' n. planTopomapPath B H ord env g start goal D z reuse w = Some (Inr r, g', w', n) \<and> pr_success r"
  by (rule live_planner.planTopomapPath_finds [OF plannable_live [OF query_planner [OF assms(1-6)] assms(7,8)]])

section \<open>A sample query\<close>

text \<open>The query of the flat sample map; the second-level planner returns the straight segment.\<close>

definition straight_env :: "unit planner_env" where
  "straight_env = \<lparr>pe_second_level = (\<lambda>fl rm p q w. ((Some [p, q], Fin 1, Fin 2), w)), pe_update_edge = None\<rparr>"

lemma flat_query_ok: "query_ok vec_graph straight_env {} False 4 5 flat_query"
proof (rule flat_query_shape)
  fix q\<^sub>4 q\<^sub>5 q\<^sub>6 q\<^sub>7 q\<^sub>8
  assume E: "vg_edges flat_query = [(0, 2, sample_edge 1), (1, 2, sample_edge 2), (0, 3, sample_edge 3),
      (4, 2, q\<^sub>4), (4, 3, q\<^sub>5), (5, 2, q\<^sub>6), (4, 0, q\<^sub>7), (5, 1, q\<^sub>8)]"
    and C: "list_all (\<lambda>q. ep_planned_cost q = Fin (-1) \<and> (\<exists>r. ep_estimated_cost q = Fin r) \<and> ep_path q = None) [q\<^sub>4, q\<^sub>5, q\<^sub>6, q\<^sub>7, q\<^sub>8]"
  have "distinct (f_neighbours vec_graph {} 4 flat_query)"
    using E by (simp add: f_neighbours_def edge_enabled_def vg_out_edges_def)
  moreover have "cached_nonneg vec_graph False flat_query"
    using E C by (simp add: cached_nonneg_def should_reuse_def sample_edge_def EdgeProperties_init_def)
  ultimately show ?thesis
    using flat_query_wf by (simp add: query_ok_def flat_query_length second_level_nonneg_def straight_env_def nonneg_def)
qed

lemma flat_plannable: "plannable vec_graph straight_env {} flat_query"
proof (rule flat_query_shape)
  fix q\<^sub>4 q\<^sub>5 q\<^sub>6 q\<^sub>7 q\<^sub>8
  assume E: "vg_edges flat_query = [(0, 2, sample_edge 1), (1, 2, sample_edge 2), (0, 3, sample_edge 3),
      (4, 2, q\<^sub>4), (4, 3, q\<^sub>5), (5, 2, q\<^sub>6), (4, 0, q\<^sub>7), (5, 1, q\<^sub>8)]"
    and C: "list_all (\<lambda>q. ep_planned_cost q = Fin (-1) \<and> (\<exists>r. ep_estimated_cost q = Fin r) \<and> ep_path q = None) [q\<^sub>4, q\<^sub>5, q\<^sub>6, q\<^sub>7, q\<^sub>8]"
  have "\<exists>r. h1_score vec_graph {} flat_query u v = Fin r" if "f_edge vec_graph {} u v flat_query = Some e" for u v e
  proof -
    have "e = 0 \<or> e = 1 \<or> e = 2 \<or> e = 3 \<or> e = 4 \<or> e = 5 \<or> e = 6 \<or> e = 7"
      using vg.f_edge_Some(1) [OF that] E by auto
    with that E C show ?thesis by (auto simp: h1_score_def sample_edge_def EdgeProperties_init_def)
  qed
  then show ?thesis by (auto simp: plannable_def straight_env_def)
qed

lemmas flat_sample = vg.boost_graph_axioms sh.fib_heap_axioms uo.unordered_axioms flat_query_ok

interpretation lp: live_planner vec_graph slot_heap_ops slots sorted_list_of_set straight_env "{}" 1 False 4 5 flat_query
  by (rule plannable_live [OF query_planner [OF flat_sample] flat_linked flat_plannable]) simp_all

theorem planTopomapPath_returns_witness:
  "\<exists>r g w n. planTopomapPath vec_graph slot_heap_ops sorted_list_of_set straight_env flat_query 4 5 {} 1 False () =
     Some (Inr r, g, w, n)"
proof -
  obtain out g w n where "planTopomapPath vec_graph slot_heap_ops sorted_list_of_set straight_env flat_query 4 5 {} 1 False () =
      Some (out, g, w, n)" "\<forall>exn. out = Inl exn \<longrightarrow> (\<exists>invoke request w. pe_update_edge straight_env = Some invoke \<and> invoke request w = Inl exn)"
    using planTopomapPath_returns [OF flat_sample, of 1 "()"] by blast
  then show ?thesis by (cases out) (simp_all add: straight_env_def)
qed

theorem planTopomapPath_route_witness:
  "\<exists>r g w n c. planTopomapPath vec_graph slot_heap_ops sorted_list_of_set straight_env flat_query 4 5 {} 1 False () =
      Some (Inr r, g, w, n) \<and> is_route vec_graph {} g 4 5 (pr_coarse_path r) \<and> pr_total_cost r = Fin c"
proof -
  obtain r g w n where p: "planTopomapPath vec_graph slot_heap_ops sorted_list_of_set straight_env flat_query 4 5 {} 1 False () =
      Some (Inr r, g, w, n)" "pr_success r"
    using lp.planTopomapPath_finds by blast
  from planTopomapPath_route [OF flat_sample p(1)] p show ?thesis by metis
qed

theorem planTopomapPath_keeps_graph_witness:
  "\<exists>out g w n. planTopomapPath vec_graph slot_heap_ops sorted_list_of_set straight_env flat_query 4 5 {} 1 False () =
      Some (out, g, w, n) \<and> nodes_view vec_graph g = nodes_view vec_graph flat_query"
proof -
  obtain r g w n where p: "planTopomapPath vec_graph slot_heap_ops sorted_list_of_set straight_env flat_query 4 5 {} 1 False () =
      Some (Inr r, g, w, n)"
    using lp.planTopomapPath_finds by blast
  from planTopomapPath_keeps_graph [OF flat_sample p] p show ?thesis by blast
qed

theorem planTopomapPath_succeeds_witness:
  "\<exists>r g w n. planTopomapPath vec_graph slot_heap_ops sorted_list_of_set straight_env flat_query 4 5 {} 1 False () =
      Some (Inr r, g, w, n) \<and> pr_success r"
  using planTopomapPath_succeeds [OF flat_sample _ _ flat_linked flat_plannable] by simp

end
