(* ===== verification/Gpp_Server.thy ===== *)
theory Gpp_Server
  imports Planner_Live Floor_Segmentation
begin

text \<open>
  \<open>navbim_gpp_bim/gpp_bim_server.cpp\<close>: the planner node. It holds the planner's copy of the map,
  answers \<open>navbim_compute_path_to_pose\<close> goals (\<open>computePathToPose\<close>), plans the segments of a route
  with the room planner (\<open>secondLevelPlanner\<close>) and pre-plans the edges of the map
  (\<open>executePrePlanImpl\<close>).

  Other nodes are parameters: the room planner, the services of the map server, the floor smoother
  and the cancel request of the action client are functions on a world \<open>'w\<close>; what a bounded wait
  for them yields is a value. Exceptions are values, and the published messages and the outcome of
  the action are the output. Time measurement, logging, and the parameters that are read but never
  used (\<open>resolution\<close>, the robot's dimensions, \<open>topomap_file\<close>, \<open>nav_model\<close>) are left out.
\<close>

section \<open>State and messages\<close>

record gpp_params =
  gp_reuse_paths :: bool
  gp_pre_plan_paths :: bool
  gp_force_pre_plan_of_planned_paths :: bool
  gp_second_level_planner :: string
  gp_penalize_z_movement :: real
  gp_prune_graph :: bool
  gp_visualize_pruned_graph :: bool
  gp_pruning_cost_threshold :: real
  gp_use_two_level :: bool
  gp_enable_floor_smoothing :: bool
  gp_floor_smoother_max_time :: real

text \<open>\<open>gb_declared\<close>: the parameters are declared; \<open>gb_clients\<close>: the servers, clients and publishers exist; \<open>gb_active\<close>: they are activated.\<close>

record 'g GppBimServer =
  gb_declared :: bool
  gb_params :: gpp_params
  gb_topological_map :: "'g TopologicalMap"
  gb_topomap_loaded :: bool
  gb_timeout_occurred :: bool
  gb_clients :: bool
  gb_active :: bool
  gb_topomap_load_timer :: bool
  gb_pre_plan_trigger_timer :: bool

record path_goal =
  pg_start :: Position
  pg_goal :: Position
  pg_use_start :: bool

record path_result =
  rs_path :: path_msg
  rs_node_ids :: "string list"
  rs_floor_names :: "string list"
  rs_segment_start_indices :: "32 word list"
  rs_segment_end_indices :: "32 word list"
  rs_min_clearance :: double
  rs_avg_clearance :: double
  rs_error_code :: int
  rs_error_msg :: string

abbreviation (input) "ERR_NONE \<equiv> 0 :: int"
abbreviation (input) "ERR_UNKNOWN \<equiv> 200 :: int"
abbreviation (input) "ERR_TIMEOUT \<equiv> 207 :: int"
abbreviation (input) "ERR_NO_VALID_PATH \<equiv> 208 :: int"

definition result_init :: path_result where
  "result_init = \<lparr>rs_path = path_msg_init, rs_node_ids = [], rs_floor_names = [], rs_segment_start_indices = [],
     rs_segment_end_indices = [], rs_min_clearance = Fin (-1), rs_avg_clearance = Fin (-1),
     rs_error_code = ERR_UNKNOWN, rs_error_msg = []\<rparr>"

datatype action_outcome = Terminated "path_result option" | Succeeded path_result

datatype published = Pruned_topomap Topomap | Planned_path path_msg

section \<open>Other nodes\<close>

record room_goal =
  rg_start :: pose_stamped
  rg_goal :: pose_stamped
  rg_floor_name :: string
  rg_room_name :: string
  rg_planner_id :: string
  rg_use_start :: bool

record room_result =
  rr_error_code :: int
  rr_path :: path_msg
  rr_path_distance :: double
  rr_path_cost :: double
  rr_error_msg :: string
  rr_warnings :: string

text \<open>How a request to the room planner can end.\<close>

datatype room_reply =
    Server_unavailable
  | Acceptance_timeout
  | Shutdown_before_acceptance
  | Goal_rejected
  | Result_timeout
  | Shutdown_before_result
  | Action_not_succeeded
  | Null_result
  | Room_answer room_result

text \<open>A call of \<open>get_topological_map\<close>: no service within 5 s, an exception, a null pointer or a response.\<close>

datatype topomap_reply = Service_unavailable | Invoke_threw cpp_exception | Null_response | Topomap_answer topomap_response

record smooth_request =
  sq_path :: path_msg
  sq_floor_names :: "string list"
  sq_segment_start_indices :: "64 word list"
  sq_segment_end_indices :: "64 word list"
  sq_max_smoothing_time :: real

record smooth_response =
  sr_smoothed_path :: path_msg
  sr_success :: bool
  sr_message :: string

record 'w gpp_env =
  ge_room_planner :: "room_goal \<Rightarrow> 'w \<Rightarrow> room_reply \<times> 'w"
  ge_get_topomap :: "'w \<Rightarrow> topomap_reply \<times> 'w"
  ge_update_edge :: "edge_request \<Rightarrow> 'w \<Rightarrow> 'w result"
  ge_save_topomap :: "'w \<Rightarrow> save_response option result \<times> 'w"
  ge_smooth :: "smooth_request \<Rightarrow> 'w \<Rightarrow> smooth_response option result \<times> 'w"
  ge_cancel_requested :: "'w \<Rightarrow> bool"

section \<open>Helpers\<close>

definition createPoseStamped :: "waypoint \<Rightarrow> string \<Rightarrow> pose_stamped" where
  "createPoseStamped coords frame_id =
     \<lparr>ps_frame_id = frame_id,
      ps_position = \<lparr>pos_x = fst coords, pos_y = fst (snd coords), pos_z = snd (snd coords)\<rparr>,
      ps_orientation = Quaternion_init\<rparr>"

definition waypointsToPath :: "waypoint list \<Rightarrow> string \<Rightarrow> path_msg" where
  "waypointsToPath waypoints frame_id =
     \<lparr>path_frame_id = frame_id, path_poses = map (\<lambda>w. createPoseStamped w frame_id) waypoints\<rparr>"

definition findClosestWaypointIndex :: "path_msg \<Rightarrow> waypoint \<Rightarrow> nat" where
  "findClosestWaypointIndex path coords =
     fst (fold (\<lambda>i (closest_idx, min_dist).
         let (x, y, z) = waypoint_of_pose (path_poses path ! i);
             dx = x - fst coords; dy = y - fst (snd coords); dz = z - snd (snd coords);
             d = Fin (sqrt (dx * dx + dy * dy + dz * dz))
         in if dlt d min_dist then (i, d) else (closest_idx, min_dist))
       [0..<length (path_poses path)] (0, PosInf))"

text \<open>\<open>std::round\<close> rounds halves away from zero.\<close>

definition std_round :: "real \<Rightarrow> real" where
  "std_round x = (if 0 \<le> x then of_int \<lfloor>x + 1 / 2\<rfloor> else of_int \<lceil>x - 1 / 2\<rceil>)"

definition round_coords :: "Position \<Rightarrow> Position" where
  "round_coords p =
     \<lparr>pos_x = std_round (pos_x p * 1000) / 1000, pos_y = std_round (pos_y p * 1000) / 1000,
      pos_z = std_round (pos_z p * 1000) / 1000\<rparr>"

section \<open>Loading the map\<close>

definition loadTopologicalMap ::
  "('g, 'e) bgl \<Rightarrow> 'w gpp_env \<Rightarrow> 'g GppBimServer \<Rightarrow> 'w \<Rightarrow> bool \<times> 'g GppBimServer \<times> 'w" where
  "loadTopologicalMap B env srv w =
     (case ge_get_topomap env w of
        (Service_unavailable, w') \<Rightarrow> (False, srv, w')
      | (Invoke_threw exn, w') \<Rightarrow> (False, srv, w')
      | (Null_response, w') \<Rightarrow> (False, srv, w')
      | (Topomap_answer response, w') \<Rightarrow>
          (case loadFromMessage B (tr_topomap response) (gb_topological_map srv) of
             (ok, m) \<Rightarrow> (ok, srv\<lparr>gb_topological_map := m\<rparr>, w')))"

text \<open>The callback of the one-shot timer that \<open>on_activate\<close> starts.\<close>

definition load_timer_callback ::
  "('g, 'e) bgl \<Rightarrow> 'w gpp_env \<Rightarrow> 'g GppBimServer \<Rightarrow> 'w \<Rightarrow> 'g GppBimServer \<times> 'w" where
  "load_timer_callback B env srv w =
     (case loadTopologicalMap B env (srv\<lparr>gb_topomap_load_timer := False\<rparr>) w of
        (True, srv', w') \<Rightarrow> (srv'\<lparr>gb_topomap_loaded := True\<rparr>, w')
      | (False, srv', w') \<Rightarrow> (srv', w'))"

section \<open>The second-level planner\<close>

text \<open>The flag is \<open>timeout_occurred_\<close>.\<close>

definition secondLevelPlanner ::
  "'w gpp_env \<Rightarrow> gpp_params \<Rightarrow> string \<Rightarrow> string \<Rightarrow> waypoint \<Rightarrow> waypoint \<Rightarrow> bool \<times> 'w \<Rightarrow> planned \<times> bool \<times> 'w" where
  "secondLevelPlanner env p floor_name room_name start_coords end_coords st =
     (case st of (timeout_occurred, w) \<Rightarrow>
        let goal_msg = \<lparr>rg_start = createPoseStamped start_coords ''ifc'', rg_goal = createPoseStamped end_coords ''ifc'',
              rg_floor_name = floor_name, rg_room_name = room_name,
              rg_planner_id = gp_second_level_planner p, rg_use_start = True\<rparr>;
            failed = (None, PosInf, PosInf)
        in case ge_room_planner env goal_msg w of (reply, w') \<Rightarrow>
          (case reply of
             Server_unavailable \<Rightarrow> (failed, True, w')
           | Acceptance_timeout \<Rightarrow> (failed, True, w')
           | Shutdown_before_acceptance \<Rightarrow> (failed, timeout_occurred, w')
           | Goal_rejected \<Rightarrow> (failed, True, w')
           | Result_timeout \<Rightarrow> (failed, True, w')
           | Shutdown_before_result \<Rightarrow> (failed, timeout_occurred, w')
           | Action_not_succeeded \<Rightarrow> (failed, True, w')
           | Null_result \<Rightarrow> (failed, True, w')
           | Room_answer r \<Rightarrow>
               if rr_error_code r \<noteq> 0 then (failed, timeout_occurred \<or> rr_error_code r = 209, w')
               else ((Some (map (\<lambda>ps. (pos_x (ps_position ps), pos_y (ps_position ps), snd (snd start_coords)))
                        (path_poses (rr_path r))), rr_path_distance r, rr_path_cost r), timeout_occurred, w')))"

text \<open>The callbacks \<open>computePathToPose\<close> passes to \<open>planTopomapPath\<close>.\<close>

definition planner_callbacks :: "'w gpp_env \<Rightarrow> gpp_params \<Rightarrow> (bool \<times> 'w) planner_env" where
  "planner_callbacks env p =
     \<lparr>pe_second_level = secondLevelPlanner env p,
      pe_update_edge = Some (\<lambda>request (timeout_occurred, w).
        case ge_update_edge env request w of Inl exn \<Rightarrow> Inl exn | Inr w' \<Rightarrow> Inr (timeout_occurred, w'))\<rparr>"

section \<open>Planning a path\<close>

definition with_error :: "int \<Rightarrow> string \<Rightarrow> path_result \<Rightarrow> action_outcome" where
  "with_error code msg r = Terminated (Some (r\<lparr>rs_error_code := code, rs_error_msg := msg\<rparr>))"

definition typed_vertices :: "('g, 'e) bgl \<Rightarrow> 'g \<Rightarrow> Vertex set" where
  "typed_vertices B g =
     set (filter (\<lambda>v. np_type (g_node B g v) \<in> {''floor'', ''room'', ''stair'', ''ramp''}) (g_vertices B g))"

definition disabled_for ::
  "components_fn \<Rightarrow> ('g, 'e) bgl \<Rightarrow> gpp_params \<Rightarrow> 'g TopologicalMap \<Rightarrow> MaterializedNodes \<Rightarrow> Vertex \<Rightarrow> Vertex \<Rightarrow>
     'g \<Rightarrow> Vertex set" where
  "disabled_for cc B p m nodes start_room goal_room g =
     (let estimated_cost = costBetweenNodes B g (mn_start_vertex nodes) (mn_goal_vertex nodes) (gp_penalize_z_movement p);
          disabled_vertices = typed_vertices B g
      in if gp_prune_graph p \<and> gp_pruning_cost_threshold p \<le> estimated_cost
         then disabled_vertices \<union> pruneGraph cc B g (tp_floor_vertices m) (Some start_room) (Some goal_room)
         else disabled_vertices)"

text \<open>The graph shown to the user: a copy without the disabled vertices, removed in descending order.\<close>

definition pruned_view :: "(real \<Rightarrow> real) \<Rightarrow> ('g, 'e) bgl \<Rightarrow> Vertex set \<Rightarrow> 'g \<Rightarrow> Topomap" where
  "pruned_view f32 B disabled g =
     convertGraphToMessage f32 B (fold (drop_vertex B) (rev (sorted_list_of_set disabled)) g)"

definition smooth_floors ::
  "'w gpp_env \<Rightarrow> gpp_params \<Rightarrow> FloorSegment list \<Rightarrow> path_msg \<Rightarrow> 'w \<Rightarrow> path_msg result \<times> 'w" where
  "smooth_floors env p floor_segments path w =
     (if gp_enable_floor_smoothing p
      then
        let shifted = applySegmentShift floor_segments path (2 / 10)
        in if shifted = [] then (Inr path, w)
           else case ge_smooth env
                  \<lparr>sq_path = path, sq_floor_names = map fs_floor_name shifted,
                   sq_segment_start_indices = map (\<lambda>s. of_nat (fs_start_index s)) shifted,
                   sq_segment_end_indices = map (\<lambda>s. of_nat (fs_end_index s)) shifted,
                   sq_max_smoothing_time = gp_floor_smoother_max_time p\<rparr> w of
                (Inl exn, w') \<Rightarrow> (Inl exn, w')
              | (Inr None, w') \<Rightarrow> (Inr path, w')
              | (Inr (Some response), w') \<Rightarrow>
                  (Inr (if sr_success response then sr_smoothed_path response else path), w')
      else (Inr path, w))"

text \<open>
  The result of a route the planner has found, or an exception with the result as it stood when it
  was thrown; the floor segments are those of the unsmoothed path.
\<close>

definition route_result ::
  "('g, 'e) bgl \<Rightarrow> 'w gpp_env \<Rightarrow> gpp_params \<Rightarrow> TopomapPlannerResult \<Rightarrow> 'g \<Rightarrow> 'w \<Rightarrow>
     (cpp_exception \<times> path_result + path_result) \<times> 'w" where
  "route_result B env p plan_result g w =
     (let path = waypointsToPath (pr_detailed_path plan_result) ''ifc''
      in case calculateFloorSegments B (pr_coarse_path plan_result) g path of
           Inl exn \<Rightarrow> (Inl (exn, result_init\<lparr>rs_path := path\<rparr>), w)
         | Inr floor_segments \<Rightarrow>
             (case smooth_floors env p floor_segments path w of
                (Inl exn, w') \<Rightarrow> (Inl (exn, result_init\<lparr>rs_path := path\<rparr>), w')
              | (Inr path', w') \<Rightarrow>
                  (Inr (result_init\<lparr>rs_path := path',
                     rs_node_ids := map (\<lambda>v. to_string (np_id (g_node B g v))) (pr_coarse_path plan_result),
                     rs_floor_names := map fs_floor_name floor_segments,
                     rs_segment_start_indices := map (\<lambda>s. of_nat (fs_start_index s)) floor_segments,
                     rs_segment_end_indices := map (\<lambda>s. of_nat (fs_end_index s)) floor_segments,
                     rs_error_code := ERR_NONE\<rparr>), w')))"

text \<open>
  The two-level branch: what was published, the outcome or the exception with the result so far, the graph, the timeout
  flag and the world. \<^const>\<open>None\<close> stands for not returning.
\<close>

definition two_level ::
  "components_fn \<Rightarrow> (real \<Rightarrow> real) \<Rightarrow> ('g, 'e) bgl \<Rightarrow> ('h, 'k) heap_ops \<Rightarrow> (Vertex set \<Rightarrow> Vertex list) \<Rightarrow>
     'w gpp_env \<Rightarrow> gpp_params \<Rightarrow> 'g TopologicalMap \<Rightarrow> MaterializedNodes \<Rightarrow> Vertex \<Rightarrow> Vertex \<Rightarrow> 'g \<Rightarrow> 'w \<Rightarrow>
     (published list \<times> (cpp_exception \<times> path_result + action_outcome) \<times> 'g \<times> bool \<times> 'w) option" where
  "two_level cc f32 B H ord env p m nodes start_room goal_room g w =
     (let disabled = disabled_for cc B p m nodes start_room goal_room g;
          shown = (if gp_visualize_pruned_graph p then [Pruned_topomap (pruned_view f32 B disabled g)] else [])
      in case find_start_goal B g (g_vertices B g) (None, None) of
           (Some start_vertex, Some goal_vertex) \<Rightarrow>
             (case planTopomapPath B H ord (planner_callbacks env p) g start_vertex goal_vertex disabled
                     (gp_penalize_z_movement p) (gp_reuse_paths p) (False, w) of
                None \<Rightarrow> None
              | Some (Inl exn, g', (timeout_occurred, w'), n) \<Rightarrow>
                  Some (shown, Inl (exn, result_init), g', timeout_occurred, w')
              | Some (Inr plan_result, g', (timeout_occurred, w'), n) \<Rightarrow>
                  if \<not> pr_success plan_result
                  then Some (shown,
                    Inr (if timeout_occurred then with_error ERR_TIMEOUT ''Timeout waiting for room planner'' result_init
                         else with_error ERR_NO_VALID_PATH ''No valid path found'' result_init),
                    g', timeout_occurred, w')
                  else
                    (case route_result B env p plan_result g' w' of
                       (Inl exn, w'') \<Rightarrow> Some (shown, Inl exn, g', timeout_occurred, w'')
                     | (Inr r, w'') \<Rightarrow> Some (shown @ [Planned_path (rs_path r)], Inr (Succeeded r), g', timeout_occurred, w'')))
         | _ \<Rightarrow> Some (shown, Inr (with_error ERR_NO_VALID_PATH ''START or GOAL vertex not found'' result_init), g, False, w))"

definition one_level ::
  "('g, 'e) bgl \<Rightarrow> 'w gpp_env \<Rightarrow> gpp_params \<Rightarrow> MaterializedNodes \<Rightarrow> string \<Rightarrow> string \<Rightarrow> Position \<Rightarrow> Position \<Rightarrow> 'g \<Rightarrow>
     'w \<Rightarrow> published list \<times> action_outcome \<times> bool \<times> 'w" where
  "one_level B env p nodes start_floor goal_floor start_coords goal_coords g w =
     (if start_floor = [] \<or> goal_floor = []
      then ([], with_error ERR_NO_VALID_PATH ''Start or goal room has no floor information'' result_init, False, w)
      else if start_floor \<noteq> goal_floor
      then ([], with_error ERR_NO_VALID_PATH
             ''Start and goal are on different floors (one-level planning only supports same-floor navigation)''
             result_init, False, w)
      else case secondLevelPlanner env p start_floor start_floor (coords_of start_coords) (coords_of goal_coords) (False, w) of
        ((None, d, c), timeout_occurred, w') \<Rightarrow>
          ([], with_error ERR_NO_VALID_PATH ''No valid path found using one-level planning'' result_init,
           timeout_occurred, w')
      | ((Some waypoints, d, c), timeout_occurred, w') \<Rightarrow>
          (let path = waypointsToPath waypoints ''ifc'' in
           if path_poses path = []
           then ([], with_error ERR_NO_VALID_PATH ''One-level planning returned an empty path''
                  (result_init\<lparr>rs_path := path\<rparr>), timeout_occurred, w')
           else ([Planned_path path],
             Succeeded (result_init\<lparr>rs_path := path,
               rs_node_ids := [to_string (np_id (g_node B g (mn_start_vertex nodes))),
                               to_string (np_id (g_node B g (mn_goal_vertex nodes)))],
               rs_floor_names := [start_floor], rs_segment_start_indices := [0],
               rs_segment_end_indices := [of_nat (length (path_poses path) - 1)],
               rs_error_code := ERR_NONE\<rparr>),
             timeout_occurred, w')))"

definition floor_name_of :: "NodeProperties \<Rightarrow> string" where
  "floor_name_of node = (case floor_list node of [] \<Rightarrow> [] | f # fs \<Rightarrow> f)"

text \<open>
  The action callback. \<open>loads\<close> tells whether the timer that loads the map fires while the callback
  waits for it; \<open>what\<close> is the text of an exception. The start and goal nodes are removed from the
  graph on every way out (\<open>ScopedGraphMaterialization\<close>).
\<close>

definition plan_rooms ::
  "components_fn \<Rightarrow> (real \<Rightarrow> real) \<Rightarrow> (cpp_exception \<Rightarrow> string) \<Rightarrow> ('g, 'e) bgl \<Rightarrow> ('h, 'k) heap_ops \<Rightarrow>
     (Vertex set \<Rightarrow> Vertex list) \<Rightarrow> 'w gpp_env \<Rightarrow> Vertex \<Rightarrow> Vertex \<Rightarrow> Position \<Rightarrow> Position \<Rightarrow> 'g GppBimServer \<Rightarrow> 'w \<Rightarrow>
     (published list \<times> action_outcome \<times> 'g GppBimServer \<times> 'w) option" where
  "plan_rooms cc f32 what B H ord env start_room goal_room start_coords goal_coords srv w =
     (let m = gb_topological_map srv; p = gb_params srv; g = tp_graph m;
          virtual_nodes = createVirtualNodes B m start_room goal_room start_coords goal_coords (gp_penalize_z_movement p);
          done = (\<lambda>nodes g' timeout_occurred. srv\<lparr>gb_topological_map := m\<lparr>tp_graph := scoped_cleanup B nodes g'\<rparr>,
             gb_timeout_occurred := timeout_occurred\<rparr>)
      in case materializeGraphInPlace B g virtual_nodes of
           None \<Rightarrow> None
         | Some (nodes, g1) \<Rightarrow>
             if gp_use_two_level p
             then (case two_level cc f32 B H ord env p m nodes start_room goal_room g1 w of
                     None \<Rightarrow> None
                   | Some (out, Inl (exn, r), g2, timeout_occurred, w') \<Rightarrow>
                       Some (out, with_error ERR_UNKNOWN (''Exception: '' @ what exn) r,
                         done nodes g2 timeout_occurred, w')
                   | Some (out, Inr outcome, g2, timeout_occurred, w') \<Rightarrow>
                       Some (out, outcome, done nodes g2 timeout_occurred, w'))
             else (case one_level B env p nodes (floor_name_of (g_node B g start_room)) (floor_name_of (g_node B g goal_room))
                          start_coords goal_coords g1 w of
                     (out, outcome, timeout_occurred, w') \<Rightarrow> Some (out, outcome, done nodes g1 timeout_occurred, w')))"

definition computePathToPose ::
  "components_fn \<Rightarrow> within_fn \<Rightarrow> buffer_fn \<Rightarrow> (real \<Rightarrow> real) \<Rightarrow> (cpp_exception \<Rightarrow> string) \<Rightarrow> ('g, 'e) bgl \<Rightarrow>
     ('h, 'k) heap_ops \<Rightarrow> (Vertex set \<Rightarrow> Vertex list) \<Rightarrow> 'w gpp_env \<Rightarrow> bool \<Rightarrow> path_goal \<Rightarrow> 'g GppBimServer \<Rightarrow> 'w \<Rightarrow>
     (published list \<times> action_outcome \<times> 'g GppBimServer \<times> 'w) option" where
  "computePathToPose cc pt_within buffer f32 what B H ord env loads goal srv w =
     (let (srv1, w1) = (if \<not> gb_topomap_loaded srv \<and> loads then load_timer_callback B env srv w else (srv, w))
      in if \<not> gb_topomap_loaded srv1 then Some ([], Terminated None, srv1, w1)
         else
           let srv2 = srv1\<lparr>gb_timeout_occurred := False\<rparr>;
               cleared = Pruned_topomap Topomap_init;
               g = tp_graph (gb_topological_map srv2);
               s = round_coords (pg_start goal); t = round_coords (pg_goal goal);
               room_at = (\<lambda>c. planner_findRoomByCoordinates pt_within buffer B g (pos_x c) (pos_y c) (pos_z c))
           in if \<not> pg_use_start goal
              then Some ([cleared], with_error ERR_UNKNOWN ''use_start=False not supported'' result_init, srv2, w1)
              else if ge_cancel_requested env w1
              then Some ([cleared], with_error ERR_UNKNOWN ''Goal was canceled'' result_init, srv2, w1)
              else case room_at s of
                None \<Rightarrow> Some ([cleared], with_error ERR_NO_VALID_PATH ''Start coordinates not in any room'' result_init, srv2, w1)
              | Some start_room \<Rightarrow>
                  (case room_at t of
                     None \<Rightarrow> Some ([cleared], with_error ERR_NO_VALID_PATH ''Goal coordinates not in any room'' result_init, srv2, w1)
                   | Some goal_room \<Rightarrow>
                       map_option (\<lambda>(out, outcome, srv3, w3). (cleared # out, outcome, srv3, w3))
                         (plan_rooms cc f32 what B H ord env start_room goal_room s t srv2 w1)))"

section \<open>Pre-planning of the edges\<close>

record EdgeInfo =
  ei_source :: Vertex
  ei_target :: Vertex
  ei_source_id :: int
  ei_target_id :: int
  ei_edge_id :: string
  ei_planned_cost :: double
  ei_subtype :: string

record preplan_result =
  pp_success :: bool
  pp_message :: string
  pp_total_edges :: int
  pp_edges_planned :: int
  pp_edges_failed :: int
  pp_edges_skipped :: int
  pp_failed_edge_ids :: "string list"

definition preplan_init :: preplan_result where
  "preplan_init = \<lparr>pp_success = False, pp_message = [], pp_total_edges = 0, pp_edges_planned = 0, pp_edges_failed = 0,
     pp_edges_skipped = 0, pp_failed_edge_ids = []\<rparr>"

definition edge_info :: "('g, 'e) bgl \<Rightarrow> 'g \<Rightarrow> 'e \<Rightarrow> EdgeInfo" where
  "edge_info B g e =
     (let source_id = np_id (g_node B g (g_source B g e)); target_id = np_id (g_node B g (g_target B g e))
      in \<lparr>ei_source = g_source B g e, ei_target = g_target B g e, ei_source_id = source_id, ei_target_id = target_id,
          ei_edge_id = to_string source_id @ ''_'' @ to_string target_id, ei_planned_cost = ep_planned_cost (g_eprops B g e),
          ei_subtype = (case ep_subtype (g_eprops B g e) of None \<Rightarrow> [] | Some subtype \<Rightarrow> subtype)\<rparr>)"

text \<open>The collection of the edges: those to plan and the number of skipped ones.\<close>

definition collect_edge ::
  "('g, 'e) bgl \<Rightarrow> 'g \<Rightarrow> bool \<Rightarrow> 'e \<Rightarrow> EdgeInfo list \<times> int \<Rightarrow> EdgeInfo list \<times> int" where
  "collect_edge B g force_replan e st =
     (case st of (edges_to_plan, edges_skipped) \<Rightarrow>
        let q = g_eprops B g e; info = edge_info B g e in
        if ep_type q \<noteq> ''transition'' then st
        else if np_type (g_node B g (g_source B g e)) \<noteq> ''transition'' \<or>
                np_type (g_node B g (g_target B g e)) \<noteq> ''transition'' then st
        else if ei_subtype info = ''stair'' then (edges_to_plan, edges_skipped + 1)
        else if force_replan \<or> dlt (ep_planned_cost q) (Fin 0)
        then (edges_to_plan @ [info], edges_skipped)
        else (edges_to_plan, edges_skipped + 1))"

definition room_name_of :: "('g, 'e) bgl \<Rightarrow> 'g \<Rightarrow> EdgeProperties \<Rightarrow> string" where
  "room_name_of B g q =
     (case ep_room_id q of
        None \<Rightarrow> []
      | Some room_id \<Rightarrow>
          (case find (\<lambda>v. np_id (g_node B g v) = room_id) (g_vertices B g) of
             None \<Rightarrow> []
           | Some v \<Rightarrow> np_name (g_node B g v)))"

record 'w preplan_state =
  ps_completed :: int
  ps_failed :: int
  ps_failed_edge_ids :: "string list"
  ps_timeout_occurred :: bool
  ps_world :: 'w

definition preplan_failed :: "EdgeInfo \<Rightarrow> 'w preplan_state \<Rightarrow> 'w preplan_state" where
  "preplan_failed info st =
     st\<lparr>ps_failed := ps_failed st + 1, ps_failed_edge_ids := ps_failed_edge_ids st @ [ei_edge_id info]\<rparr>"

definition preplan_edge ::
  "('g, 'e) bgl \<Rightarrow> 'w gpp_env \<Rightarrow> gpp_params \<Rightarrow> 'g \<Rightarrow> EdgeInfo \<Rightarrow> 'w preplan_state \<Rightarrow> 'w preplan_state result" where
  "preplan_edge B env p g info st =
     (case g_edge B (ei_source info) (ei_target info) g of
        None \<Rightarrow> Inr (preplan_failed info st)
      | Some e \<Rightarrow>
          (let floor_name = floor_name_of (g_node B g (ei_source info));
               room_name = room_name_of B g (g_eprops B g e)
           in if floor_name = [] \<or> room_name = [] then Inr (preplan_failed info st)
              else case secondLevelPlanner env p floor_name room_name
                     (coords_of (np_position (g_node B g (ei_source info))))
                     (coords_of (np_position (g_node B g (ei_target info)))) (ps_timeout_occurred st, ps_world st) of
                ((None, d, c), timeout_occurred, w) \<Rightarrow>
                  Inr (preplan_failed info (st\<lparr>ps_timeout_occurred := timeout_occurred, ps_world := w\<rparr>))
              | ((Some waypoints, d, c), timeout_occurred, w) \<Rightarrow>
                  (case ge_update_edge env
                          ((update_request (ei_source_id info) (ei_target_id info) d c waypoints)\<lparr>er_defer_save := True\<rparr>) w of
                     Inl exn \<Rightarrow> Inl exn
                   | Inr w' \<Rightarrow> Inr (st\<lparr>ps_completed := ps_completed st + 1, ps_timeout_occurred := timeout_occurred,
                       ps_world := w'\<rparr>))))"

text \<open>
  \<open>executePrePlanImpl\<close>. An exception of a service client is not caught here; in both callers it
  leaves a detached thread.
\<close>

definition executePrePlanImpl ::
  "('g, 'e) bgl \<Rightarrow> 'w gpp_env \<Rightarrow> bool \<Rightarrow> 'g GppBimServer \<Rightarrow> 'w \<Rightarrow> (preplan_result \<times> 'g GppBimServer \<times> 'w) result" where
  "executePrePlanImpl B env force_replan srv w =
     (let g = tp_graph (gb_topological_map srv) in
      if g_num_vertices B g = 0
      then Inr (preplan_init\<lparr>pp_message := ''Topological map is empty''\<rparr>, srv, w)
      else
        let (edges_to_plan, edges_skipped) = fold (collect_edge B g force_replan) (g_edges B g) ([], 0)
        in bind_result
             (fold_result (preplan_edge B env (gb_params srv) g) edges_to_plan
                \<lparr>ps_completed = 0, ps_failed = 0, ps_failed_edge_ids = [],
                 ps_timeout_occurred = gb_timeout_occurred srv, ps_world = w\<rparr>)
             (\<lambda>st. case ge_save_topomap env (ps_world st) of
                (Inl exn, w') \<Rightarrow> Inl exn
              | (Inr save_response, w') \<Rightarrow>
                  Inr (\<lparr>pp_success = (ps_failed st = 0),
                        pp_message = (if ps_failed st = 0
                          then ''Successfully pre-planned all '' @ to_string (ps_completed st) @ '' transition edges''
                          else ''Pre-planning completed with '' @ to_string (ps_failed st) @ '' failures out of '' @
                            to_string (int (length edges_to_plan)) @ '' edges''),
                        pp_total_edges = int (length edges_to_plan), pp_edges_planned = ps_completed st,
                        pp_edges_failed = ps_failed st, pp_edges_skipped = edges_skipped,
                        pp_failed_edge_ids = ps_failed_edge_ids st\<rparr>,
                       srv\<lparr>gb_timeout_occurred := ps_timeout_occurred st\<rparr>, w')))"

text \<open>The action interface: every goal and every cancel request is accepted; the outcome tells success from abort.\<close>

datatype goal_outcome = Goal_succeeded preplan_result | Goal_aborted preplan_result

definition executePrePlan ::
  "('g, 'e) bgl \<Rightarrow> 'w gpp_env \<Rightarrow> bool \<Rightarrow> 'g GppBimServer \<Rightarrow> 'w \<Rightarrow> (goal_outcome \<times> 'g GppBimServer \<times> 'w) result" where
  "executePrePlan B env force_replan srv w =
     bind_result (executePrePlanImpl B env force_replan srv w) (\<lambda>(r, srv', w').
       Inr (if pp_success r then Goal_succeeded r else Goal_aborted r, srv', w'))"

section \<open>Lifecycle\<close>

text \<open>\<open>p\<close> are the values of the parameters; declaring them a second time throws.\<close>

definition gpp_on_configure :: "gpp_params \<Rightarrow> 'g GppBimServer \<Rightarrow> 'g GppBimServer result" where
  "gpp_on_configure p srv =
     (if gb_declared srv then Inl Parameter_already_declared
      else Inr (srv\<lparr>gb_declared := True, gb_params := p, gb_timeout_occurred := False, gb_clients := True\<rparr>))"

definition gpp_on_activate :: "'g GppBimServer \<Rightarrow> 'g GppBimServer" where
  "gpp_on_activate srv =
     srv\<lparr>gb_active := True, gb_topomap_load_timer := True,
         gb_pre_plan_trigger_timer := gb_pre_plan_trigger_timer srv \<or> gp_pre_plan_paths (gb_params srv)\<rparr>"

definition pre_plan_timer_callback ::
  "('g, 'e) bgl \<Rightarrow> 'w gpp_env \<Rightarrow> 'g GppBimServer \<Rightarrow> 'w \<Rightarrow> (preplan_result \<times> 'g GppBimServer \<times> 'w) result" where
  "pre_plan_timer_callback B env srv w =
     executePrePlanImpl B env (gp_force_pre_plan_of_planned_paths (gb_params srv))
       (srv\<lparr>gb_pre_plan_trigger_timer := False\<rparr>) w"

definition gpp_on_deactivate :: "'g GppBimServer \<Rightarrow> 'g GppBimServer" where
  "gpp_on_deactivate srv = srv\<lparr>gb_active := False\<rparr>"

definition gpp_on_cleanup :: "('g, 'e) bgl \<Rightarrow> 'g GppBimServer \<Rightarrow> 'g GppBimServer" where
  "gpp_on_cleanup B srv =
     srv\<lparr>gb_clients := False, gb_pre_plan_trigger_timer := False,
         gb_topological_map := clear B (gb_topological_map srv)\<rparr>"

definition gpp_on_shutdown :: "'g GppBimServer \<Rightarrow> 'g GppBimServer" where
  "gpp_on_shutdown srv = srv"

end
