(* ===== verification/Gpp_Correct.thy ===== *)
theory Gpp_Correct
  imports Gpp_Server
begin

text \<open>
  What the planner node guarantees: the map it plans on is the map it had, whatever the outcome of a
  goal; the results of its two actions; and the second-level planner it hands to the search meets the
  search's assumption on costs.
\<close>

section \<open>The second-level planner\<close>

text \<open>The assumption on the room planner: the cost of a path it returns is finite and not negative.\<close>

definition room_costs_ok :: "'w gpp_env \<Rightarrow> bool" where
  "room_costs_ok env \<longleftrightarrow>
     (\<forall>goal w r w'. ge_room_planner env goal w = (Room_answer r, w') \<longrightarrow> rr_error_code r = 0 \<longrightarrow> nonneg (rr_path_cost r))"

lemma secondLevelPlanner_Some:
  assumes "secondLevelPlanner env p fl rm s t st = ((Some ws, d, c), st')"
  obtains goal r w w' where "ge_room_planner env goal w = (Room_answer r, w')" and "rr_error_code r = 0"
    and "d = rr_path_distance r" and "c = rr_path_cost r" and "length ws = length (path_poses (rr_path r))"
    and "list_all (\<lambda>w. snd (snd w) = snd (snd s)) ws"
proof -
  obtain b w where st: "st = (b, w)" by fastforce
  let ?goal = "\<lparr>rg_start = createPoseStamped s ''ifc'', rg_goal = createPoseStamped t ''ifc'', rg_floor_name = fl,
    rg_room_name = rm, rg_planner_id = gp_second_level_planner p, rg_use_start = True\<rparr>"
  obtain reply w' where reply: "ge_room_planner env ?goal w = (reply, w')" by fastforce
  note run = assms [unfolded secondLevelPlanner_def st prod.case Let_def reply]
  then obtain r where r: "reply = Room_answer r" "rr_error_code r = 0"
    by (cases reply) (auto split: if_splits)
  with run have "ws = map (\<lambda>ps. (pos_x (ps_position ps), pos_y (ps_position ps), snd (snd s))) (path_poses (rr_path r))"
    "d = rr_path_distance r" "c = rr_path_cost r" by auto
  with r reply that show thesis by (simp add: list_all_iff)
qed

lemma callbacks_nonneg: "room_costs_ok env \<Longrightarrow> second_level_nonneg (planner_callbacks env p)"
  unfolding second_level_nonneg_def planner_callbacks_def room_costs_ok_def
  by (auto elim!: secondLevelPlanner_Some)

section \<open>The map\<close>

text \<open>What the planner needs of its map, and keeps.\<close>

definition map_ok :: "('g, 'e) bgl \<Rightarrow> bool \<Rightarrow> 'g TopologicalMap \<Rightarrow> bool" where
  "map_ok B reuse m \<longleftrightarrow>
     wf_graph B (tp_graph m) \<and> list_all (\<lambda>x. \<not> stale x) (nodes_view B (tp_graph m)) \<and>
     cached_nonneg B reuse (tp_graph m) \<and>
     (\<forall>v < g_num_vertices B (tp_graph m). distinct (g_adjacent_vertices B v (tp_graph m)))"

text \<open>Two graphs with the same nodes and the same ends of edges.\<close>

definition same_ends :: "('g, 'e) bgl \<Rightarrow> 'g \<Rightarrow> 'g \<Rightarrow> bool" where
  "same_ends B g g' \<longleftrightarrow> nodes_view B g' = nodes_view B g \<and> edge_ends B g' = edge_ends B g"

lemma find_room_node:
  assumes "planner_findRoomByCoordinates pt_within buffer B g x y z = Some v"
  shows "v < g_num_vertices B g" and "np_type (g_node B g v) = ''room''"
  using assms unfolding planner_searches_agree findRoomByCoordinates_def
  by (auto simp: buffer_loop_Some_iff find_upt_Some_iff room_hit_def split: option.splits)

lemma find_start_goal_end:
  assumes "\<forall>u \<in> set us. \<not> stale (g_node B g u)"
    and "np_name (g_node B g a) = ''start''" and "np_name (g_node B g b) = ''goal''"
  shows "find_start_goal B g (us @ [a, b]) (None, None) = (Some a, Some b)"
  using assms by (induction us) (auto simp: stale_def)

lemma edge_ends_view: "edge_ends B g = map (\<lambda>(s, t, q). (s, t)) (edges_view B g)"
  by (simp add: edge_ends_def edges_view_def edge_view_of_def)

lemma wf_graph_edge_ends:
  "wf_graph B g \<longleftrightarrow> list_all (\<lambda>(s, t). s < g_num_vertices B g \<and> t < g_num_vertices B g) (edge_ends B g)"
  by (auto simp: wf_graph_def edge_ends_view list_all_iff)

lemma cached_nonneg_view:
  "cached_nonneg B reuse g \<longleftrightarrow> list_all (\<lambda>(s, t, q). should_reuse reuse q \<longrightarrow> nonneg (ep_planned_cost q)) (edges_view B g)"
  by (simp add: cached_nonneg_def edges_view_def edge_view_of_def list_all_iff)

context boost_graph
begin

lemma adjacent_ends: "g_adjacent_vertices B v g =
    concat (map (\<lambda>(s, t). (if s = v then [t] else []) @ (if t = v then [s] else [])) (edge_ends B g))"
proof -
  have "neighbours v = (\<lambda>(s, t). (if s = v then [t] else []) @ (if t = v then [s] else [])) \<circ> (\<lambda>(s, t, q). (s, t))"
    by (auto simp: fun_eq_iff)
  then show ?thesis by (simp add: adjacent_view edge_ends_view)
qed

lemma map_ok_same_ends:
  assumes "map_ok B reuse m" and "same_ends B (tp_graph m) g" and "cached_nonneg B reuse g"
  shows "map_ok B reuse (m\<lparr>tp_graph := g\<rparr>)"
proof -
  have same: "nodes_view B g = nodes_view B (tp_graph m)" "edge_ends B g = edge_ends B (tp_graph m)"
    using assms(2) by (auto simp: same_ends_def)
  have "g_num_vertices B g = g_num_vertices B (tp_graph m)" by (rule num_vertices_cong [OF same(1)])
  then show ?thesis
    using assms(1,3) same unfolding map_ok_def by (simp add: adjacent_ends wf_graph_edge_ends)
qed

lemma start_neighbours:
  assumes "wf_graph B (tp_graph m)" and "\<forall>v < g_num_vertices B (tp_graph m). distinct (g_adjacent_vertices B v (tp_graph m))"
    and "sr < g_num_vertices B (tp_graph m)" and "er < g_num_vertices B (tp_graph m)"
    and "np_type (g_node B (tp_graph m) sr) = ''room''"
    and "edges_view B g' = edges_view B (tp_graph m) @ map ve_view (vn_edges (createVirtualNodes B m sr er p q z))"
  shows "distinct (g_adjacent_vertices B (g_num_vertices B (tp_graph m)) g')"
proof -
  let ?g = "tp_graph m" and ?n = "g_num_vertices B (tp_graph m)"
  have "neighbours ?n x = []" if "x \<in> set (edges_view B ?g)" for x
    using bspec [OF wf_graph_ends [OF assms(1)] that] by (cases x rule: prod_cases3) simp
  then have old: "concat (map (neighbours ?n) (edges_view B ?g)) = []" by simp
  let ?ls = "inserted_links B ?g sr er (edge_room_id B ?g sr) (edge_room_id B ?g er)"
  have tr: "map (neighbours ?n \<circ> transition_view z' N) (numbered k ls) =
      map (\<lambda>(a, b, r). neighbours ?n (a, b, EdgeProperties_init)) ls" for z' N k ls
    by (induction ls arbitrary: k) auto
  have dr: "set (doors B ?g v) \<subseteq> {..<?n}" for v using adjacent_range [OF assms(1)] by (auto simp: doors_def)
  have none: "concat (map (\<lambda>d. neighbours ?n (Suc ?n, d, EdgeProperties_init)) ds) = []" if "set ds \<subseteq> {..<?n}" for ds
    using that by (induction ds) auto
  have all: "concat (map (\<lambda>d. neighbours ?n (?n, d, EdgeProperties_init)) ds) = ds" if "set ds \<subseteq> {..<?n}" for ds
    using that by (induction ds) auto
  have "concat (map (\<lambda>(a, b, r). neighbours ?n (a, b, EdgeProperties_init)) ?ls) =
      (if sr = er then [Suc ?n] else []) @ doors B ?g sr"
    unfolding inserted_links_def same_room_link_def using all [OF dr] none [OF dr] by (simp add: comp_def)
  then have adj: "g_adjacent_vertices B ?n g' = (if sr = er then [Suc ?n] else []) @ doors B ?g sr @ [sr]"
    using assms(3,4) unfolding adjacent_view assms(6) createVirtualNodes_view(4) [OF assms(1)] inserted_edges_def
    by (simp add: old tr)
  have "distinct (doors B ?g sr)" using assms(2,3) by (simp add: doors_def)
  moreover have "sr \<notin> set (doors B ?g sr)" using assms(5) by (auto simp: doors_def)
  ultimately show ?thesis using adj dr [of sr] assms(3) by auto
qed

text \<open>The virtual edges carry no path yet.\<close>

lemma fresh_virtual_edges:
  assumes "wf_graph B (tp_graph m)"
  shows "\<forall>(a, b, y) \<in> set (map ve_view (vn_edges (createVirtualNodes B m sr er p q z))). ep_path y = None"
  unfolding createVirtualNodes_view(4) [OF assms] inserted_edges_def
  by (auto simp: transition_props_def EdgeProperties_init_def)

text \<open>Removing the start and the goal from a graph whose edge properties have changed.\<close>

lemma cleanup_same_shape:
  assumes "nodes_view B g1 = nodes_view B g @ [x, y]" and "edges_view B g1 = edges_view B g @ X"
    and "wf_graph B g" and "\<forall>(a, b, q) \<in> set X. (a = n \<or> a = Suc n) \<and> b < n + 2" and n: "n = g_num_vertices B g"
    and "same_shape B g1 g2"
  defines "g3 \<equiv> scoped_cleanup B \<lparr>mn_start_vertex = n, mn_goal_vertex = Suc n\<rparr> g2"
  shows "same_ends B g g3" and "set (edges_view B g3) \<subseteq> set (edges_view B g2)"
proof -
  let ?k = "length (edges_view B g)" and ?f = "\<lambda>(s, t, q :: EdgeProperties). (s, t)"
  let ?E = "take ?k (edges_view B g2)" and ?X = "drop ?k (edges_view B g2)"
  have "edge_ends B g2 = edge_ends B g1" using assms(6) by (auto simp: edge_ends_def same_shape_def)
  then have ends: "map ?f (edges_view B g2) = map ?f (edges_view B g) @ map ?f X"
    unfolding edge_ends_view assms(2) by simp
  have E: "map ?f ?E = map ?f (edges_view B g)" and X: "map ?f ?X = map ?f X"
    unfolding take_map [symmetric] drop_map [symmetric] ends by simp_all
  have "(a, b) \<in> set (map ?f (edges_view B g))" if "(a, b, q) \<in> set ?E" for a b q
    using that unfolding E [symmetric] by force
  then have e: "\<forall>(a, b, q) \<in> set ?E. a < n \<and> b < n" using wf_graph_ends [OF assms(3)] n by fastforce
  have "(a, b) \<in> set (map ?f X)" if "(a, b, q) \<in> set ?X" for a b q
    using that unfolding X [symmetric] by force
  then have x: "\<forall>(a, b, q) \<in> set ?X. (a = n \<or> a = Suc n) \<and> b < n + 2" using assms(4) by fastforce
  have N: "nodes_view B g2 = nodes_view B g @ [x, y]" using assms(1,6) by (simp add: same_shape_def)
  have n': "n = length (nodes_view B g)" using n by simp
  note C = cleanup_view [OF N _ n' e x, unfolded append_take_drop_id, OF refl, folded g3_def]
  show "same_ends B g g3" unfolding same_ends_def edge_ends_view C using E by simp
  show "set (edges_view B g3) \<subseteq> set (edges_view B g2)" unfolding C by (rule set_take_subset)
qed

lemma virtual_start:
  assumes "map_ok B reuse m" and "sr < g_num_vertices B (tp_graph m)" and "er < g_num_vertices B (tp_graph m)"
    and "np_type (g_node B (tp_graph m) sr) = ''room''" and "second_level_nonneg env"
  defines "n \<equiv> g_num_vertices B (tp_graph m)"
  obtains g1 X where "materializeGraphInPlace B (tp_graph m) (createVirtualNodes B m sr er p q z) =
      Some (\<lparr>mn_start_vertex = n, mn_goal_vertex = Suc n\<rparr>, g1)"
    and "nodes_view B g1 = nodes_view B (tp_graph m) @ inserted_nodes B m sr er p q"
    and "edges_view B g1 = edges_view B (tp_graph m) @ X"
    and "\<forall>(a, b, y) \<in> set X. (a = n \<or> a = Suc n) \<and> b < n + 2"
    and "find_start_goal B g1 (g_vertices B g1) (None, None) = (Some n, Some (Suc n))"
    and "\<And>D. query_ok B env D reuse n (Suc n) g1"
proof -
  let ?X = "map ve_view (vn_edges (createVirtualNodes B m sr er p q z))"
  have m: "wf_graph B (tp_graph m)" "list_all (\<lambda>x. \<not> stale x) (nodes_view B (tp_graph m))"
    "cached_nonneg B reuse (tp_graph m)"
    "\<forall>v < g_num_vertices B (tp_graph m). distinct (g_adjacent_vertices B v (tp_graph m))"
    using assms(1) by (auto simp: map_ok_def)
  obtain g1 where run: "materializeGraphInPlace B (tp_graph m) (createVirtualNodes B m sr er p q z) =
      Some (\<lparr>mn_start_vertex = n, mn_goal_vertex = Suc n\<rparr>, g1)"
    and N: "nodes_view B g1 = nodes_view B (tp_graph m) @ inserted_nodes B m sr er p q"
    and E: "edges_view B g1 = edges_view B (tp_graph m) @ ?X"
    unfolding n_def by (rule materialize_virtual [OF m(1) assms(2,3) m(2)])
  have X: "\<forall>(a, b, y) \<in> set ?X. (a = n \<or> a = Suc n) \<and> b < n + 2"
    using virtual_edges_ends [OF m(1) assms(2,3)] unfolding n_def by fastforce
  have len: "g_num_vertices B g1 = Suc (Suc n)"
    using arg_cong [OF N, of length] by (simp add: inserted_nodes_def n_def)
  have node: "g_node B g1 v = (nodes_view B (tp_graph m) @ inserted_nodes B m sr er p q) ! v" if "v < Suc (Suc n)" for v
    using that nth_nodes_view [of v g1] len N by simp
  have old: "\<not> stale (g_node B g1 v)" if "v < n" for v
    using that node [of v] m(2) by (simp add: nth_append n_def list_all_iff) (metis length_nodes_view nth_mem nth_nodes_view)
  have "g_vertices B g1 = [0..<n] @ [n, Suc n]" by (simp add: len)
  moreover have "np_name (g_node B g1 n) = ''start''" "np_name (g_node B g1 (Suc n)) = ''goal''"
    using node [of n] node [of "Suc n"] by (simp_all add: nth_append n_def inserted_nodes_def endpoint_props_def)
  ultimately have found: "find_start_goal B g1 (g_vertices B g1) (None, None) = (Some n, Some (Suc n))"
    using find_start_goal_end [of "[0..<n]" B g1 n "Suc n"] old by simp
  have wf: "wf_graph B g1"
    using wf_graph_ends [OF m(1)] X unfolding wf_graph_def E len list_all_iff n_def by fastforce
  have "cached_nonneg B reuse g1"
    using m(3) fresh_virtual_edges [OF m(1), of sr er p q z] unfolding cached_nonneg_view E by (auto simp: list_all_iff should_reuse_def)
  moreover have "distinct (f_neighbours B D n g1)" for D
  proof -
    have "distinct (map snd (g_out_edges B n g1))"
      using start_neighbours [OF m(1,4) assms(2-4) E] by (simp add: n_def g_adjacent_vertices_def)
    then show ?thesis unfolding f_neighbours_def by (rule distinct_map_filter)
  qed
  ultimately have "query_ok B env D reuse n (Suc n) g1" for D
    using wf len assms(5) by (simp add: query_ok_def)
  with that run N E X found show thesis by blast
qed

end

lemma findClosestWaypointIndex_eq: "findClosestWaypointIndex path coords = find_closest_index (path_poses path) coords"
  unfolding findClosestWaypointIndex_def find_closest_index_def
  by (simp add: waypoint_distance_def power2_eq_square case_prod_unfold Let_def)

lemma segments_in_path:
  assumes "calculateFloorSegments B coarse_path g path = Inr segs" and "s \<in> set segs"
  shows "fs_start_index s < length (path_poses path)" and "fs_end_index s < length (path_poses path)"
proof -
  have ne: "path_poses path \<noteq> []" using assms by (auto simp: calculateFloorSegments_def split: if_splits)
  with assms obtain i s0 n where s: "s = segment_indices (path_poses path) n (i, s0)"
    by (auto simp: calculateFloorSegments_def bind_result_Inr_iff split: if_splits)
  show "fs_start_index s < length (path_poses path)" "fs_end_index s < length (path_poses path)"
    using ne find_closest_index_min(1) [OF ne] unfolding s segment_indices_def by (auto split: if_splits)
qed

section \<open>The result of a goal\<close>

text \<open>
  What a client can rely on: the route's node ids lead from the start's to the goal's, the floor
  segments match, and they are ranges of the path when the smoothing service keeps the number of poses.
\<close>

definition smoothing_keeps :: "'w gpp_env \<Rightarrow> bool" where
  "smoothing_keeps env \<longleftrightarrow>
     (\<forall>request w response w'. ge_smooth env request w = (Inr (Some response), w') \<longrightarrow> sr_success response \<longrightarrow>
        length (path_poses (sr_smoothed_path response)) = length (path_poses (sq_path request)))"

definition answer_ok :: "'w gpp_env \<Rightarrow> gpp_params \<Rightarrow> int \<Rightarrow> int \<Rightarrow> path_result \<Rightarrow> bool" where
  "answer_ok env p start_id goal_id r \<longleftrightarrow>
     rs_error_code r = ERR_NONE \<and> rs_node_ids r \<noteq> [] \<and> hd (rs_node_ids r) = to_string start_id \<and>
     last (rs_node_ids r) = to_string goal_id \<and>
     length (rs_segment_start_indices r) = length (rs_floor_names r) \<and>
     length (rs_segment_end_indices r) = length (rs_floor_names r) \<and>
     (\<not> gp_enable_floor_smoothing p \<or> smoothing_keeps env \<longrightarrow>
        list_all (\<lambda>i. unat i < length (path_poses (rs_path r))) (rs_segment_start_indices r @ rs_segment_end_indices r))"

text \<open>A failure carries an error code; the code for a timeout only if the room planner did not answer in time.\<close>

definition failure_ok :: "bool \<Rightarrow> action_outcome \<Rightarrow> bool" where
  "failure_ok timeout_occurred out \<longleftrightarrow> (\<exists>r. out = Terminated (Some r) \<and>
     (rs_error_code r = ERR_UNKNOWN \<or> rs_error_code r = ERR_NO_VALID_PATH \<or> rs_error_code r = ERR_TIMEOUT \<and> timeout_occurred))"

lemma unat_of_nat_less: "i < n \<Longrightarrow> unat (of_nat i :: 32 word) < n"
  by (simp add: unat_of_nat take_bit_nat_less_eq_self order_le_less_trans)

lemma smooth_floors_length:
  assumes "fst (smooth_floors env p segs path w) = Inr path'" and "\<not> gp_enable_floor_smoothing p \<or> smoothing_keeps env"
  shows "length (path_poses path') = length (path_poses path)"
proof (cases "gp_enable_floor_smoothing p \<and> applySegmentShift segs path (2 / 10) \<noteq> []")
  case True
  define request where "request = \<lparr>sq_path = path, sq_floor_names = map fs_floor_name (applySegmentShift segs path (2 / 10)),
    sq_segment_start_indices = map (\<lambda>s. of_nat (fs_start_index s)) (applySegmentShift segs path (2 / 10)),
    sq_segment_end_indices = map (\<lambda>s. of_nat (fs_end_index s)) (applySegmentShift segs path (2 / 10)),
    sq_max_smoothing_time = gp_floor_smoother_max_time p\<rparr>"
  have path: "sq_path request = path" by (simp add: request_def)
  obtain reply w' where reply: "ge_smooth env request w = (reply, w')" by fastforce
  have "path' = path \<or> (\<exists>response. reply = Inr (Some response) \<and> sr_success response \<and> path' = sr_smoothed_path response)"
    using assms(1) True reply unfolding smooth_floors_def Let_def request_def [symmetric]
    by (auto split: sum.splits option.splits if_splits)
  with reply assms(2) True show ?thesis unfolding smoothing_keeps_def by (metis path)
next
  case False
  then have "smooth_floors env p segs path w = (Inr path, w)" unfolding smooth_floors_def Let_def by argo
  with assms(1) show ?thesis by simp
qed

lemma route_result_ok:
  assumes "route_result B env p plan g w = (Inr r, w')" and "pr_coarse_path plan \<noteq> []"
  shows "answer_ok env p (np_id (g_node B g (hd (pr_coarse_path plan)))) (np_id (g_node B g (last (pr_coarse_path plan)))) r"
proof -
  let ?path = "waypointsToPath (pr_detailed_path plan) ''ifc''"
  obtain segs where segs: "calculateFloorSegments B (pr_coarse_path plan) g ?path = Inr segs"
    using assms(1) by (auto simp: route_result_def Let_def split: sum.splits)
  obtain path' where path': "fst (smooth_floors env p segs ?path w) = Inr path'"
    and r: "r = result_init\<lparr>rs_path := path',
      rs_node_ids := map (\<lambda>v. to_string (np_id (g_node B g v))) (pr_coarse_path plan),
      rs_floor_names := map fs_floor_name segs,
      rs_segment_start_indices := map (\<lambda>s. of_nat (fs_start_index s)) segs,
      rs_segment_end_indices := map (\<lambda>s. of_nat (fs_end_index s)) segs, rs_error_code := ERR_NONE\<rparr>"
    using assms(1) segs by (auto simp: route_result_def Let_def split: sum.splits prod.splits)
  have "length (path_poses path') = length (path_poses ?path)" if "\<not> gp_enable_floor_smoothing p \<or> smoothing_keeps env"
    using smooth_floors_length [OF path' that] .
  with segments_in_path [OF segs] assms(2) show ?thesis
    by (auto simp: answer_ok_def r hd_map last_map list_all_iff unat_of_nat_less)
qed

lemma two_level_spec:
  assumes "boost_graph B" and "fib_heap H entries" and "unordered ord"
    and q: "\<And>D. query_ok B (planner_callbacks env p) D (gp_reuse_paths p) s t g"
    and found: "find_start_goal B g (g_vertices B g) (None, None) = (Some s, Some t)"
  obtains out res g' timeout_occurred w' where
    "two_level cc f32 B H ord env p m nodes sr gr g w = Some (out, res, g', timeout_occurred, w')"
    and "same_shape B g g'" and "cached_nonneg B (gp_reuse_paths p) g'"
    and "\<And>r. res = Inr (Succeeded r) \<Longrightarrow> answer_ok env p (np_id (g_node B g' s)) (np_id (g_node B g' t)) r"
    and "\<And>r. res = Inr (Terminated r) \<Longrightarrow> failure_ok timeout_occurred (Terminated r)"
proof -
  let ?D = "disabled_for cc B p m nodes sr gr g" and ?z = "gp_penalize_z_movement p"
  obtain out g' t' w' n where plan: "planTopomapPath B H ord (planner_callbacks env p) g s t ?D ?z
      (gp_reuse_paths p) (False, w) = Some (out, g', (t', w'), n)" "same_shape B g g'" "cached_nonneg B (gp_reuse_paths p) g'"
    and ok: "\<And>r. out = Inr r \<Longrightarrow> result_ok B ?D g' s t r"
    using planTopomapPath_spec [OF assms(1-3) q, of ?D ?z "(False, w)"] by auto
  note unf = two_level_def Let_def found plan(1)
  show thesis
  proof (cases out)
    case (Inl exn)
    show thesis by (rule that) (simp add: unf Inl, simp_all add: plan(2,3))
  next
    case (Inr r)
    show thesis
    proof (cases "pr_success r")
      case False
      show thesis
        by (rule that) (simp add: unf Inr False, auto simp: plan(2,3) with_error_def failure_ok_def split: if_splits)
    next
      case True
      with ok [OF Inr] have route: "pr_coarse_path r \<noteq> []" "hd (pr_coarse_path r) = s" "last (pr_coarse_path r) = t"
        by (simp_all add: result_ok_def is_route_def)
      obtain rr w'' where rr: "route_result B env p r g' w' = (rr, w'')" by fastforce
      show thesis
      proof (cases rr)
        case (Inl x)
        show thesis by (cases x, rule that) (simp add: unf \<open>out = Inr r\<close> True rr Inl, simp_all add: plan(2,3))
      next
        case (Inr a)
        from route_result_ok [of B env p r g' w' a w''] rr Inr route
        have "answer_ok env p (np_id (g_node B g' s)) (np_id (g_node B g' t)) a" by simp
        then show thesis
          by (intro that) (simp add: unf \<open>out = Inr r\<close> True rr Inr, simp_all add: plan(2,3))
      qed
    qed
  qed
qed

lemma one_level_spec:
  assumes "one_level B env p nodes fs fg s t g w = (out, outcome, timeout_occurred, w')"
  shows "case outcome of
      Succeeded r \<Rightarrow> answer_ok env p (np_id (g_node B g (mn_start_vertex nodes))) (np_id (g_node B g (mn_goal_vertex nodes))) r
    | Terminated r \<Rightarrow> failure_ok timeout_occurred outcome"
proof -
  obtain ws d c b v where sl: "secondLevelPlanner env p fs fs (coords_of s) (coords_of t) (False, w) = ((ws, d, c), b, v)"
    by (metis prod.collapse)
  have len: "unat (of_nat (length ws - Suc 0) :: 32 word) < length ws" if "ws \<noteq> []" for ws :: "waypoint list"
    using that by (intro unat_of_nat_less) (cases ws, auto)
  show ?thesis
    using assms sl len unfolding one_level_def Let_def
    by (cases ws) (auto simp: answer_ok_def waypointsToPath_def with_error_def failure_ok_def split: if_splits)
qed

lemma plan_rooms_spec:
  assumes "boost_graph B" and "fib_heap H entries" and "unordered ord" and "room_costs_ok env"
    and ok: "map_ok B (gp_reuse_paths (gb_params srv)) (gb_topological_map srv)"
    and sr: "sr < g_num_vertices B (tp_graph (gb_topological_map srv))"
      "np_type (g_node B (tp_graph (gb_topological_map srv)) sr) = ''room''"
    and er: "er < g_num_vertices B (tp_graph (gb_topological_map srv))"
  obtains out outcome g' timeout_occurred w' where
    "plan_rooms cc f32 what B H ord env sr er s t srv w = Some (out, outcome,
       srv\<lparr>gb_topological_map := (gb_topological_map srv)\<lparr>tp_graph := g'\<rparr>, gb_timeout_occurred := timeout_occurred\<rparr>, w')"
    and "same_ends B (tp_graph (gb_topological_map srv)) g'" and "cached_nonneg B (gp_reuse_paths (gb_params srv)) g'"
    and "case outcome of
        Succeeded r \<Rightarrow> answer_ok env (gb_params srv) (getMaxNodeId (gb_topological_map srv) + 1) (getMaxNodeId (gb_topological_map srv) + 2) r
      | Terminated r \<Rightarrow> failure_ok timeout_occurred outcome"
proof -
  let ?m = "gb_topological_map srv" and ?p = "gb_params srv" and ?g = "tp_graph (gb_topological_map srv)"
  let ?n = "g_num_vertices B ?g" and ?z = "gp_penalize_z_movement ?p" and ?reuse = "gp_reuse_paths ?p"
  let ?nodes = "\<lparr>mn_start_vertex = ?n, mn_goal_vertex = Suc ?n\<rparr>"
  have wf: "wf_graph B ?g" "cached_nonneg B ?reuse ?g" using ok by (simp_all add: map_ok_def)
  obtain g1 X where run: "materializeGraphInPlace B ?g (createVirtualNodes B ?m sr er s t ?z) = Some (?nodes, g1)"
    and N: "nodes_view B g1 = nodes_view B ?g @ inserted_nodes B ?m sr er s t" and E: "edges_view B g1 = edges_view B ?g @ X"
    and X: "\<forall>(a, b, y) \<in> set X. (a = ?n \<or> a = Suc ?n) \<and> b < ?n + 2"
    and found: "find_start_goal B g1 (g_vertices B g1) (None, None) = (Some ?n, Some (Suc ?n))"
    and q: "\<And>D. query_ok B (planner_callbacks env ?p) D ?reuse ?n (Suc ?n) g1"
    by (rule boost_graph.virtual_start [OF assms(1) ok sr(1) er sr(2) callbacks_nonneg [OF assms(4)]]) blast
  have N': "nodes_view B g1 = nodes_view B ?g @ [inserted_nodes B ?m sr er s t ! 0, inserted_nodes B ?m sr er s t ! 1]"
    using N by (simp add: inserted_nodes_def)
  have len: "g_num_vertices B g1 = Suc (Suc ?n)"
    using arg_cong [OF N', of length] by (simp add: boost_graph.length_nodes_view [OF assms(1)])
  have ids: "np_id (g_node B g2 ?n) = getMaxNodeId ?m + 1" "np_id (g_node B g2 (Suc ?n)) = getMaxNodeId ?m + 2"
    if shape: "same_shape B g1 g2" for g2
  proof -
    have "g_node B g2 v = (nodes_view B ?g @ inserted_nodes B ?m sr er s t) ! v" if "v < Suc (Suc ?n)" for v
      using that boost_graph.same_shape_node(2) [OF assms(1) shape] boost_graph.nth_nodes_view [OF assms(1), of v g1] N len by simp
    then show "np_id (g_node B g2 ?n) = getMaxNodeId ?m + 1" "np_id (g_node B g2 (Suc ?n)) = getMaxNodeId ?m + 2"
      by (simp_all add: nth_append inserted_nodes_def endpoint_props_def boost_graph.length_nodes_view [OF assms(1)])
  qed
  have clean: "same_ends B ?g (scoped_cleanup B ?nodes g2)" "cached_nonneg B ?reuse (scoped_cleanup B ?nodes g2)"
    if "same_shape B g1 g2" "cached_nonneg B ?reuse g2" for g2
    using boost_graph.cleanup_same_shape [OF assms(1) N' E wf(1) X refl that(1)] that(2)
    unfolding cached_nonneg_view list_all_iff by blast+
  show thesis
  proof (cases "gp_use_two_level ?p")
    case True
    obtain out res g2 b v where tl: "two_level cc f32 B H ord env ?p ?m ?nodes sr er g1 w = Some (out, res, g2, b, v)"
      and g2: "same_shape B g1 g2" "cached_nonneg B ?reuse g2"
      and good: "\<And>r. res = Inr (Succeeded r) \<Longrightarrow> answer_ok env ?p (np_id (g_node B g2 ?n)) (np_id (g_node B g2 (Suc ?n))) r"
      and bad: "\<And>r. res = Inr (Terminated r) \<Longrightarrow> failure_ok b (Terminated r)"
      by (rule two_level_spec [OF assms(1-3) q found]) blast
    let ?outcome = "case res of Inl (exn, r) \<Rightarrow> with_error ERR_UNKNOWN (''Exception: '' @ what exn) r | Inr outcome \<Rightarrow> outcome"
    have "plan_rooms cc f32 what B H ord env sr er s t srv w = Some (out, ?outcome,
       srv\<lparr>gb_topological_map := ?m\<lparr>tp_graph := scoped_cleanup B ?nodes g2\<rparr>, gb_timeout_occurred := b\<rparr>, v)"
      by (simp add: plan_rooms_def Let_def run True tl split: sum.split prod.split)
    moreover have "case ?outcome of
        Succeeded r \<Rightarrow> answer_ok env ?p (getMaxNodeId ?m + 1) (getMaxNodeId ?m + 2) r | Terminated r \<Rightarrow> failure_ok b ?outcome"
      using good bad ids [OF g2(1)]
      by (auto simp: with_error_def failure_ok_def split: sum.split prod.split action_outcome.split)
    ultimately show thesis using clean [OF g2] that by blast
  next
    case False
    let ?f = "\<lambda>v. floor_name_of (g_node B ?g v)"
    obtain out outcome b v where ol: "one_level B env ?p ?nodes (?f sr) (?f er) s t g1 w = (out, outcome, b, v)"
      by (metis prod.collapse)
    have "plan_rooms cc f32 what B H ord env sr er s t srv w = Some (out, outcome,
       srv\<lparr>gb_topological_map := ?m\<lparr>tp_graph := scoped_cleanup B ?nodes g1\<rparr>, gb_timeout_occurred := b\<rparr>, v)"
      by (simp add: plan_rooms_def Let_def run False ol)
    moreover have self: "same_shape B g1 g1" "cached_nonneg B ?reuse g1"
      using q [of "{}"] by (simp_all add: query_ok_def same_shape_def)
    moreover have "case outcome of
        Succeeded r \<Rightarrow> answer_ok env ?p (getMaxNodeId ?m + 1) (getMaxNodeId ?m + 2) r | Terminated r \<Rightarrow> failure_ok b outcome"
      using one_level_spec [OF ol] ids [OF self(1)] by (cases outcome) simp_all
    ultimately show thesis using clean [OF self] that by blast
  qed
qed

lemma computePathToPose_returns:
  assumes "boost_graph B" and "fib_heap H entries" and "unordered ord" and "room_costs_ok env"
    and "gb_topomap_loaded srv" and "map_ok B (gp_reuse_paths (gb_params srv)) (gb_topological_map srv)"
  shows "\<exists>out outcome srv' w'. computePathToPose cc pt_within buffer f32 what B H ord env loads goal srv w =
      Some (out, outcome, srv', w') \<and>
    nodes_view B (tp_graph (gb_topological_map srv')) = nodes_view B (tp_graph (gb_topological_map srv)) \<and>
    edge_ends B (tp_graph (gb_topological_map srv')) = edge_ends B (tp_graph (gb_topological_map srv)) \<and>
    gb_topological_map srv' = (gb_topological_map srv)\<lparr>tp_graph := tp_graph (gb_topological_map srv')\<rparr> \<and>
    gb_params srv' = gb_params srv \<and> gb_topomap_loaded srv' \<and>
    map_ok B (gp_reuse_paths (gb_params srv')) (gb_topological_map srv')"
proof -
  let ?r = "\<lambda>c. planner_findRoomByCoordinates pt_within buffer B (tp_graph (gb_topological_map srv)) (pos_x c) (pos_y c) (pos_z c)"
  let ?s = "round_coords (pg_start goal)" and ?t = "round_coords (pg_goal goal)"
  show ?thesis
  proof (cases "pg_use_start goal \<and> \<not> ge_cancel_requested env w \<and> ?r ?s \<noteq> None \<and> ?r ?t \<noteq> None")
    case False
    then show ?thesis
      using assms(5,6) by (auto simp: computePathToPose_def Let_def split: option.split)
  next
    case True
    then obtain sr er where rooms: "?r ?s = Some sr" "?r ?t = Some er" by blast
    let ?srv = "srv\<lparr>gb_timeout_occurred := False\<rparr>"
    obtain out outcome g' b w' where plan: "plan_rooms cc f32 what B H ord env sr er ?s ?t ?srv w = Some (out, outcome,
       ?srv\<lparr>gb_topological_map := (gb_topological_map ?srv)\<lparr>tp_graph := g'\<rparr>, gb_timeout_occurred := b\<rparr>, w')"
      and g': "same_ends B (tp_graph (gb_topological_map srv)) g'" "cached_nonneg B (gp_reuse_paths (gb_params srv)) g'"
      by (rule plan_rooms_spec [OF assms(1-4), of ?srv sr er])
        (use assms(6) find_room_node [OF rooms(1)] find_room_node [OF rooms(2)] in auto)
    show ?thesis
      using True rooms plan g' boost_graph.map_ok_same_ends [OF assms(1,6) g'] assms(5)
      by (simp add: computePathToPose_def Let_def same_ends_def)
  qed
qed

text \<open>
  C5: planning leaves the map alone. Whatever the outcome of a goal (success, failure, cancellation,
  an exception of a client), \<open>computePathToPose\<close> returns, and the planner's map has the nodes and the
  edges it had: the start and goal nodes are gone and only properties of edges were written. The
  conditions the planner needs of its map hold again, so this is an invariant of the node.
\<close>

theorem computePathToPose_keeps_map:
  assumes "boost_graph B" and "fib_heap H entries" and "unordered ord" and "room_costs_ok env"
    and "gb_topomap_loaded srv" and "map_ok B (gp_reuse_paths (gb_params srv)) (gb_topological_map srv)"
  shows "\<exists>out outcome srv' w'. computePathToPose cc pt_within buffer f32 what B H ord env loads goal srv w =
      Some (out, outcome, srv', w') \<and>
    nodes_view B (tp_graph (gb_topological_map srv')) = nodes_view B (tp_graph (gb_topological_map srv)) \<and>
    edge_ends B (tp_graph (gb_topological_map srv')) = edge_ends B (tp_graph (gb_topological_map srv)) \<and>
    gb_topological_map srv' = (gb_topological_map srv)\<lparr>tp_graph := tp_graph (gb_topological_map srv')\<rparr> \<and>
    gb_params srv' = gb_params srv \<and> gb_topomap_loaded srv' \<and>
    map_ok B (gp_reuse_paths (gb_params srv')) (gb_topological_map srv')"
  by (rule computePathToPose_returns [OF assms])

lemma computePathToPose_answers:
  assumes "boost_graph B" and "fib_heap H entries" and "unordered ord" and "room_costs_ok env"
    and "gb_topomap_loaded srv" and "map_ok B (gp_reuse_paths (gb_params srv)) (gb_topological_map srv)"
    and "computePathToPose cc pt_within buffer f32 what B H ord env loads goal srv w = Some (out, outcome, srv', w')"
  shows "case outcome of
      Succeeded r \<Rightarrow> answer_ok env (gb_params srv) (getMaxNodeId (gb_topological_map srv) + 1) (getMaxNodeId (gb_topological_map srv) + 2) r
    | Terminated r \<Rightarrow> failure_ok (gb_timeout_occurred srv') outcome"
proof -
  let ?r = "\<lambda>c. planner_findRoomByCoordinates pt_within buffer B (tp_graph (gb_topological_map srv)) (pos_x c) (pos_y c) (pos_z c)"
  let ?s = "round_coords (pg_start goal)" and ?t = "round_coords (pg_goal goal)"
  show ?thesis
  proof (cases "pg_use_start goal \<and> \<not> ge_cancel_requested env w \<and> ?r ?s \<noteq> None \<and> ?r ?t \<noteq> None")
    case False
    then show ?thesis
      using assms(5,7) by (auto simp: computePathToPose_def Let_def with_error_def failure_ok_def split: option.splits if_splits)
  next
    case True
    then obtain sr er where rooms: "?r ?s = Some sr" "?r ?t = Some er" by blast
    let ?srv = "srv\<lparr>gb_timeout_occurred := False\<rparr>"
    obtain out' outcome' g' b v where plan: "plan_rooms cc f32 what B H ord env sr er ?s ?t ?srv w = Some (out', outcome',
       ?srv\<lparr>gb_topological_map := (gb_topological_map ?srv)\<lparr>tp_graph := g'\<rparr>, gb_timeout_occurred := b\<rparr>, v)"
      and ok: "case outcome' of
        Succeeded r \<Rightarrow> answer_ok env (gb_params ?srv) (getMaxNodeId (gb_topological_map ?srv) + 1) (getMaxNodeId (gb_topological_map ?srv) + 2) r
      | Terminated r \<Rightarrow> failure_ok b outcome'"
      by (rule plan_rooms_spec [OF assms(1-4), of ?srv sr er])
        (use assms(6) find_room_node [OF rooms(1)] find_room_node [OF rooms(2)] in auto)
    have "outcome = outcome'" "gb_timeout_occurred srv' = b"
      using assms(5,7) True rooms plan by (auto simp: computePathToPose_def Let_def)
    with ok show ?thesis by (cases outcome') simp_all
  qed
qed

text \<open>
  What a goal is answered with. A success carries error code \<open>NONE\<close>, node ids that lead from the
  start node (the largest node id plus 1) to the goal node (plus 2), and as many segment bounds as
  floor names, within the path when it is not smoothed or the smoother keeps the number of poses. A failure carries one of the codes
  \<open>UNKNOWN\<close>, \<open>NO_VALID_PATH\<close>, and \<open>TIMEOUT\<close> only if a request to the room planner timed out.
\<close>

theorem computePathToPose_outcome:
  assumes "boost_graph B" and "fib_heap H entries" and "unordered ord" and "room_costs_ok env"
    and "gb_topomap_loaded srv" and "map_ok B (gp_reuse_paths (gb_params srv)) (gb_topological_map srv)"
    and "computePathToPose cc pt_within buffer f32 what B H ord env loads goal srv w = Some (out, outcome, srv', w')"
  shows "case outcome of
      Succeeded r \<Rightarrow> answer_ok env (gb_params srv) (getMaxNodeId (gb_topological_map srv) + 1) (getMaxNodeId (gb_topological_map srv) + 2) r
    | Terminated r \<Rightarrow> failure_ok (gb_timeout_occurred srv') outcome"
  using computePathToPose_answers [OF assms] .

end
