(* ===== verification/Gpp_Live.thy ===== *)
theory Gpp_Live
  imports Gpp_Correct
begin

text \<open>
  When the planner node answers a goal with a route, what its pre-planning reports, and a sample
  building with a query.
\<close>

section \<open>A route that exists is found\<close>

text \<open>
  The assumptions on the other nodes: the room planner finds a path for the goals the node sends, and
  the clients do not throw.
\<close>

definition nodes_answer :: "'w gpp_env \<Rightarrow> gpp_params \<Rightarrow> bool" where
  "nodes_answer env p \<longleftrightarrow>
     (\<forall>goal w. rg_planner_id goal = gp_second_level_planner p \<longrightarrow> rg_use_start goal \<longrightarrow>
        (\<exists>r w'. ge_room_planner env goal w = (Room_answer r, w') \<and> rr_error_code r = 0)) \<and>
     (\<forall>request w exn. ge_update_edge env request w \<noteq> Inl exn) \<and>
     (\<forall>request w exn w'. ge_smooth env request w \<noteq> (Inl exn, w'))"

text \<open>The assumptions on the map: finite estimates, and no empty floor list.\<close>

definition finite_estimate :: "EdgeProperties \<Rightarrow> bool" where
  "finite_estimate q \<longleftrightarrow> (\<exists>r. (if dle (Fin 0) (ep_planned_cost q) then ep_planned_cost q else ep_estimated_cost q) = Fin r)"

definition estimates_ok :: "('g, 'e) bgl \<Rightarrow> 'g \<Rightarrow> bool" where
  "estimates_ok B g \<longleftrightarrow> list_all (\<lambda>(s, t, q). finite_estimate q) (edges_view B g)"

definition floors_ok :: "('g, 'e) bgl \<Rightarrow> 'g \<Rightarrow> bool" where
  "floors_ok B g \<longleftrightarrow> list_all (\<lambda>x. np_floor x \<noteq> Some []) (nodes_view B g)"

lemma segment_step_no_throw:
  assumes "np_floor (g_node B g (fst uv)) \<noteq> Some []"
  shows "segment_step B g uv st \<noteq> Inl exn"
  using assms
  by (cases uv) (auto simp: segment_step_def first_floor_def result_simps split: prod.splits option.splits list.splits)

lemma fold_result_no_throw:
  assumes "\<And>x st exn. x \<in> set xs \<Longrightarrow> f x st \<noteq> Inl exn"
  shows "\<exists>st'. fold_result f xs st = Inr st'"
  using assms
proof (induction xs arbitrary: st)
  case (Cons x xs)
  then obtain st' where "f x st = Inr st'" by (cases "f x st") auto
  with Cons show ?case by simp
qed simp

lemma floor_segments_total:
  assumes "\<forall>v \<in> set coarse_path. np_floor (g_node B g v) \<noteq> Some []"
  shows "\<exists>segs. calculateFloorSegments B coarse_path g path = Inr segs"
proof -
  have step: "segment_step B g x st \<noteq> Inl exn" if "x \<in> set (path_pairs coarse_path)" for x st exn
  proof (rule segment_step_no_throw)
    show "np_floor (g_node B g (fst x)) \<noteq> Some []"
      using that assms by (metis path_pairs_def prod.collapse set_zip_leftD)
  qed
  have "\<exists>st'. fold_result (segment_step B g) (path_pairs coarse_path) ([], 0) = Inr st'"
    by (rule fold_result_no_throw) (rule step)
  then show ?thesis
    by (auto simp: calculateFloorSegments_def split: prod.split)
qed

lemma callbacks_plannable:
  assumes "nodes_answer env p" and "boost_graph B" and "estimates_ok B g"
  shows "plannable B (planner_callbacks env p) D g"
proof -
  have "fst (fst (secondLevelPlanner env p fl rm s t st)) \<noteq> None" for fl rm s t st
  proof -
    let ?goal = "\<lparr>rg_start = createPoseStamped s ''ifc'', rg_goal = createPoseStamped t ''ifc'', rg_floor_name = fl,
      rg_room_name = rm, rg_planner_id = gp_second_level_planner p, rg_use_start = True\<rparr>"
    obtain r w' where "ge_room_planner env ?goal (snd st) = (Room_answer r, w')" "rr_error_code r = 0"
      using assms(1) unfolding nodes_answer_def by (metis room_goal.select_convs(5,6))
    then show ?thesis by (cases st) (simp add: secondLevelPlanner_def Let_def)
  qed
  moreover have "\<exists>r. h1_score B D g u v = Fin r" if e: "f_edge B D u v g = Some e" for u v e
  proof -
    have "edge_view_of B g e \<in> set (edges_view B g)"
      using boost_graph.f_edge_Some(1) [OF assms(2) e] by (simp add: edges_view_def)
    then have "finite_estimate (g_eprops B g e)" using assms(3) by (fastforce simp: estimates_ok_def list_all_iff edge_view_of_def)
    with e show ?thesis by (simp add: h1_score_def finite_estimate_def)
  qed
  ultimately show ?thesis
    using assms(1) by (auto simp: plannable_def planner_callbacks_def nodes_answer_def split: prod.splits sum.splits)
qed

lemma route_result_total:
  assumes "nodes_answer env p" and "\<forall>v \<in> set (pr_coarse_path plan). np_floor (g_node B g v) \<noteq> Some []"
  shows "\<exists>r w'. route_result B env p plan g w = (Inr r, w')"
proof -
  let ?path = "waypointsToPath (pr_detailed_path plan) ''ifc''"
  obtain segs where "calculateFloorSegments B (pr_coarse_path plan) g ?path = Inr segs"
    using floor_segments_total [OF assms(2)] by blast
  moreover have "\<exists>path' w'. smooth_floors env p segs ?path w = (Inr path', w')"
  proof -
    have "ge_smooth env request w \<noteq> (Inl exn, w')" for request exn w' using assms(1) by (simp add: nodes_answer_def)
    then show ?thesis
      unfolding smooth_floors_def Let_def by (auto split: prod.split sum.split option.split)
  qed
  ultimately show ?thesis by (auto simp: route_result_def Let_def)
qed

lemma route_vertices:
  assumes "boost_graph B" and "wf_graph B g" and "is_route B D g start goal xs" and "start < g_num_vertices B g" and "x \<in> set xs"
  shows "x < g_num_vertices B g"
proof -
  obtain i where i: "i < length xs" "xs ! i = x" using assms(5) by (meson in_set_conv_nth)
  show ?thesis
  proof (cases i)
    case 0
    with i assms(3,4) show ?thesis by (auto simp: is_route_def hd_conv_nth)
  next
    case (Suc j)
    with i have "(xs ! j, x) \<in> set (steps xs)"
      by (auto simp: steps_def in_set_zip nth_tl intro!: exI [of _ j])
    with assms(3) obtain e where "f_edge B D (xs ! j) x g = Some e" by (auto simp: is_route_def)
    with boost_graph.f_edge_range [OF assms(1,2)] show ?thesis by blast
  qed
qed

lemma two_level_succeeds:
  assumes "boost_graph B" and "fib_heap H entries" and "unordered ord" and "nodes_answer env p"
    and q: "query_ok B (planner_callbacks env p) D (gp_reuse_paths p) s t g"
    and found: "find_start_goal B g (g_vertices B g) (None, None) = (Some s, Some t)"
    and D: "D = disabled_for cc B p m nodes sr gr g" "s \<notin> D" "t \<notin> D" and "linked B g D s t"
    and "estimates_ok B g" and "floors_ok B g"
  shows "\<exists>out r g' timeout_occurred w'.
    two_level cc f32 B H ord env p m nodes sr gr g w = Some (out, Inr (Succeeded r), g', timeout_occurred, w')"
proof -
  let ?z = "gp_penalize_z_movement p"
  have l: "live_planner B H entries ord (planner_callbacks env p) D (gp_reuse_paths p) s t g"
    by (rule plannable_live [OF query_planner [OF assms(1-3) q D(2,3)] assms(10) callbacks_plannable [OF assms(4,1,11)]])
  obtain plan g' b w' n where plan: "planTopomapPath B H ord (planner_callbacks env p) g s t D ?z
      (gp_reuse_paths p) (False, w) = Some (Inr plan, g', (b, w'), n)" "pr_success plan"
    using live_planner.planTopomapPath_finds [OF l, of ?z "(False, w)"] by auto
  with planTopomapPath_spec [OF assms(1-3) q, of ?z "(False, w)"]
  have shape: "same_shape B g g'" and route: "is_route B D g' s t (pr_coarse_path plan)" by (auto simp: result_ok_def)
  have wf: "wf_graph B g" "s < g_num_vertices B g" using q by (simp_all add: query_ok_def)
  have "np_floor (g_node B g' v) \<noteq> Some []" if v: "v \<in> set (pr_coarse_path plan)" for v
  proof -
    have n: "g_num_vertices B g' = g_num_vertices B g" by (rule boost_graph.same_shape_node(1) [OF assms(1) shape])
    have "edge_ends B g' = edge_ends B g" using shape by (auto simp: same_shape_def edge_ends_def)
    then have "wf_graph B g'" using wf(1) n by (simp add: wf_graph_edge_ends)
    from route_vertices [OF assms(1) this route _ v] wf(2) n have "v < g_num_vertices B g" by simp
    then show ?thesis
      using boost_graph.same_shape_node(2) [OF assms(1) shape] assms(12) boost_graph.nth_nodes_view [OF assms(1), of v g]
      by (simp add: floors_ok_def list_all_iff) (metis assms(1) boost_graph.length_nodes_view nth_mem)
  qed
  then obtain r w'' where "route_result B env p plan g' w' = (Inr r, w'')" using route_result_total [OF assms(4)] by metis
  with plan show ?thesis unfolding two_level_def Let_def found D(1) [symmetric] by simp
qed

text \<open>Connections of the map through its doors, without the rooms, floors, stairs and ramps.\<close>

definition rooms_connected :: "('g, 'e) bgl \<Rightarrow> 'g \<Rightarrow> Vertex \<Rightarrow> Vertex \<Rightarrow> bool" where
  "rooms_connected B g sr er \<longleftrightarrow>
     sr = er \<or> (\<exists>d \<in> set (doors B g sr). \<exists>d' \<in> set (doors B g er). linked B g (typed_vertices B g) d d')"

lemma in_numbered_ex: "x \<in> set xs \<Longrightarrow> \<exists>i. (i, x) \<in> set (numbered k xs)"
  by (induction xs arbitrary: k) auto

lemma inserted_edge_ends:
  assumes "(a, b, r) \<in> set ls"
  shows "(a, b) \<in> set (map (\<lambda>(a, b, y). (a, b)) (inserted_edges z N k ls rs))"
proof -
  obtain i where "(i, a, b, r) \<in> set (numbered k ls)" using in_numbered_ex [OF assms] by blast
  then have "transition_view z N (i, a, b, r) \<in> set (inserted_edges z N k ls rs)"
    unfolding inserted_edges_def by (metis UnCI image_eqI list.set_map set_append)
  then show ?thesis by force
qed

context boost_graph
begin

lemma virtual_query:
  assumes "map_ok B reuse m" and "sr < g_num_vertices B (tp_graph m)" and "er < g_num_vertices B (tp_graph m)"
    and N: "nodes_view B g1 = nodes_view B (tp_graph m) @ inserted_nodes B m sr er p q"
    and E: "edges_view B g1 = edges_view B (tp_graph m) @ map ve_view (vn_edges (createVirtualNodes B m sr er p q z))"
    and "rooms_connected B (tp_graph m) sr er"
  defines "n \<equiv> g_num_vertices B (tp_graph m)"
  shows "typed_vertices B g1 = typed_vertices B (tp_graph m)" and "n \<notin> typed_vertices B g1" and "Suc n \<notin> typed_vertices B g1"
    and "linked B g1 (typed_vertices B g1) n (Suc n)"
proof -
  let ?g = "tp_graph m" and ?D = "typed_vertices B (tp_graph m)"
  have wf: "wf_graph B ?g" using assms(1) by (simp add: map_ok_def)
  have len: "g_num_vertices B g1 = Suc (Suc n)"
    using arg_cong [OF N, of length] by (simp add: inserted_nodes_def n_def)
  have node: "g_node B g1 v = (nodes_view B ?g @ inserted_nodes B m sr er p q) ! v" if "v < Suc (Suc n)" for v
    using that nth_nodes_view [of v g1] len N by simp
  have old: "g_node B g1 v = g_node B ?g v" if "v < n" for v
    using that node [of v] by (simp add: nth_append n_def)
  have new: "np_type (g_node B g1 n) = ''transition''" "np_type (g_node B g1 (Suc n)) = ''transition''"
    using node [of n] node [of "Suc n"] by (simp_all add: nth_append n_def inserted_nodes_def endpoint_props_def)
  have typed: "v \<in> typed_vertices B g1 \<longleftrightarrow> v \<in> ?D" for v
    using old [of v] new len unfolding typed_vertices_def by (auto simp: n_def [symmetric] less_Suc_eq)
  then show same: "typed_vertices B g1 = ?D" by blast
  have apart: "n \<notin> ?D" "Suc n \<notin> ?D" by (auto simp: typed_vertices_def n_def)
  then show "n \<notin> typed_vertices B g1" "Suc n \<notin> typed_vertices B g1" using same by simp_all
  have doors: "d \<notin> ?D" if "d \<in> set (doors B ?g v)" for d v
    using that by (auto simp: doors_def typed_vertices_def)
  have ends: "edge_ends B g1 = edge_ends B ?g @ map (\<lambda>(a, b, y). (a, b)) (inserted_edges z
      (nodes_view B ?g @ inserted_nodes B m sr er p q) (getMaxEdgeId m + 1)
      (inserted_links B ?g sr er (edge_room_id B ?g sr) (edge_room_id B ?g er)) [(n, sr), (Suc n, er)])"
    unfolding edge_ends_view E createVirtualNodes_view(4) [OF wf] n_def by simp
  have link: "(a, b) \<in> links (enabled_ends B g1 ?D)"
    if "(a, b, r) \<in> set (inserted_links B ?g sr er (edge_room_id B ?g sr) (edge_room_id B ?g er))" "a \<notin> ?D" "b \<notin> ?D" for a b r
    using inserted_edge_ends [OF that(1)] that(2,3) unfolding links_def enabled_ends_def ends by auto
  have mono: "links (enabled_ends B ?g ?D) \<subseteq> links (enabled_ends B g1 ?D)"
    unfolding links_def enabled_ends_def ends by auto
  show "linked B g1 (typed_vertices B g1) n (Suc n)"
  proof (cases "sr = er")
    case True
    then have "(n, Suc n, np_id (g_node B ?g sr)) \<in> set (inserted_links B ?g sr er (edge_room_id B ?g sr) (edge_room_id B ?g er))"
      by (simp add: inserted_links_def same_room_link_def n_def)
    from link [OF this apart] show ?thesis unfolding linked_def same by blast
  next
    case False
    then obtain d d' where d: "d \<in> set (doors B ?g sr)" "d' \<in> set (doors B ?g er)" "linked B ?g ?D d d'"
      using assms(6) by (auto simp: rooms_connected_def)
    have "(n, d) \<in> links (enabled_ends B g1 ?D)"
      by (rule link [OF _ apart(1) doors [OF d(1)], of "edge_room_id B ?g sr d"]) (use d(1) in \<open>simp add: inserted_links_def n_def\<close>)
    moreover have "(Suc n, d') \<in> links (enabled_ends B g1 ?D)"
      by (rule link [OF _ apart(2) doors [OF d(2)], of "edge_room_id B ?g er d'"]) (use d(2) in \<open>simp add: inserted_links_def n_def\<close>)
    then have "(d', Suc n) \<in> links (enabled_ends B g1 ?D)" by (auto simp: links_def)
    moreover have "(d, d') \<in> (links (enabled_ends B g1 ?D))\<^sup>*"
      using d(3) rtrancl_mono [OF mono] unfolding linked_def by blast
    ultimately show ?thesis unfolding linked_def same by (meson converse_rtrancl_into_rtrancl rtrancl.rtrancl_into_rtrancl)
  qed
qed

lemma virtual_estimates:
  assumes "wf_graph B (tp_graph m)" and "estimates_ok B (tp_graph m)"
    and "edges_view B g1 = edges_view B (tp_graph m) @ map ve_view (vn_edges (createVirtualNodes B m sr er p q z))"
  shows "estimates_ok B g1"
  using assms(2) unfolding estimates_ok_def assms(3) createVirtualNodes_view(4) [OF assms(1)] inserted_edges_def
  by (auto simp: list_all_iff finite_estimate_def transition_props_def EdgeProperties_init_def)

lemma virtual_floors:
  assumes "floors_ok B (tp_graph m)" and "nodes_view B g1 = nodes_view B (tp_graph m) @ inserted_nodes B m sr er p q"
    and "sr < g_num_vertices B (tp_graph m)" and "er < g_num_vertices B (tp_graph m)"
  shows "floors_ok B g1"
proof -
  have "np_floor (g_node B (tp_graph m) v) \<noteq> Some []" if "v < g_num_vertices B (tp_graph m)" for v
    using that assms(1) nth_nodes_view [OF that] unfolding floors_ok_def list_all_length by simp
  with assms show ?thesis by (simp add: floors_ok_def inserted_nodes_def endpoint_props_def)
qed

end

lemma computePathToPose_finds:
  assumes "boost_graph B" and "fib_heap H entries" and "unordered ord" and "room_costs_ok env" and "nodes_answer env (gb_params srv)"
    and "gb_topomap_loaded srv" and "map_ok B (gp_reuse_paths (gb_params srv)) (gb_topological_map srv)"
    and "estimates_ok B (tp_graph (gb_topological_map srv))" and "floors_ok B (tp_graph (gb_topological_map srv))"
    and "gp_use_two_level (gb_params srv)" and "\<not> gp_prune_graph (gb_params srv)"
    and "pg_use_start goal" and "\<not> ge_cancel_requested env w"
    and "s = round_coords (pg_start goal)" and "t = round_coords (pg_goal goal)"
    and sr: "planner_findRoomByCoordinates pt_within buffer B (tp_graph (gb_topological_map srv)) (pos_x s) (pos_y s) (pos_z s) = Some sr"
    and er: "planner_findRoomByCoordinates pt_within buffer B (tp_graph (gb_topological_map srv)) (pos_x t) (pos_y t) (pos_z t) = Some er"
    and "rooms_connected B (tp_graph (gb_topological_map srv)) sr er"
  shows "\<exists>out r srv' w'. computePathToPose cc pt_within buffer f32 what B H ord env loads goal srv w =
    Some (out, Succeeded r, srv', w')"
proof -
  let ?m = "gb_topological_map srv" and ?p = "gb_params srv" and ?g = "tp_graph (gb_topological_map srv)"
  let ?n = "g_num_vertices B ?g" and ?z = "gp_penalize_z_movement ?p" and ?srv = "srv\<lparr>gb_timeout_occurred := False\<rparr>"
  let ?nodes = "\<lparr>mn_start_vertex = ?n, mn_goal_vertex = Suc ?n\<rparr>"
  note rs = find_room_node [OF sr] and re = find_room_node [OF er]
  have m: "wf_graph B ?g" "list_all (\<lambda>x. \<not> stale x) (nodes_view B ?g)" using assms(7) by (simp_all add: map_ok_def)
  obtain g1 X where run: "materializeGraphInPlace B ?g (createVirtualNodes B ?m sr er s t ?z) = Some (?nodes, g1)"
    and found: "find_start_goal B g1 (g_vertices B g1) (None, None) = (Some ?n, Some (Suc ?n))"
    and q: "\<And>D. query_ok B (planner_callbacks env ?p) D (gp_reuse_paths ?p) ?n (Suc ?n) g1"
    by (rule boost_graph.virtual_start [OF assms(1,7) rs(1) re(1) rs(2) callbacks_nonneg [OF assms(4)]]) blast
  obtain g1' where "materializeGraphInPlace B ?g (createVirtualNodes B ?m sr er s t ?z) = Some (?nodes, g1')"
    and views: "nodes_view B g1' = nodes_view B ?g @ inserted_nodes B ?m sr er s t"
      "edges_view B g1' = edges_view B ?g @ map ve_view (vn_edges (createVirtualNodes B ?m sr er s t ?z))"
    by (rule boost_graph.materialize_virtual [OF assms(1) m(1) rs(1) re(1) m(2)])
  with run have "g1' = g1" by simp
  note views = views [unfolded this]
  note vq = boost_graph.virtual_query [OF assms(1,7) rs(1) re(1) views assms(18)]
  have D: "typed_vertices B g1 = disabled_for cc B ?p ?m ?nodes sr er g1" using assms(11) by (simp add: disabled_for_def)
  obtain out r g' b w' where tl: "two_level cc f32 B H ord env ?p ?m ?nodes sr er g1 w = Some (out, Inr (Succeeded r), g', b, w')"
    using two_level_succeeds [OF assms(1-3,5) q found D vq(2-4)
        boost_graph.virtual_estimates [OF assms(1) m(1) assms(8) views(2)]
        boost_graph.virtual_floors [OF assms(1,9) views(1) rs(1) re(1)]] by blast
  have "plan_rooms cc f32 what B H ord env sr er s t ?srv w = Some (out, Succeeded r,
      ?srv\<lparr>gb_topological_map := ?m\<lparr>tp_graph := scoped_cleanup B ?nodes g'\<rparr>, gb_timeout_occurred := b\<rparr>, w')"
    using run tl assms(10) by (simp add: plan_rooms_def Let_def)
  then show ?thesis
    using assms(6,12,13) sr er unfolding assms(14,15) by (simp add: computePathToPose_def Let_def)
qed


section \<open>Pre-planning\<close>

definition door_edge :: "('g, 'e) bgl \<Rightarrow> 'g \<Rightarrow> 'e \<Rightarrow> bool" where
  "door_edge B g e \<longleftrightarrow> ep_type (g_eprops B g e) = ''transition'' \<and>
     np_type (g_node B g (g_source B g e)) = ''transition'' \<and> np_type (g_node B g (g_target B g e)) = ''transition''"

definition to_plan :: "('g, 'e) bgl \<Rightarrow> 'g \<Rightarrow> bool \<Rightarrow> 'e \<Rightarrow> bool" where
  "to_plan B g force e \<longleftrightarrow> door_edge B g e \<and> ep_subtype (g_eprops B g e) \<noteq> Some ''stair'' \<and>
     (force \<or> dlt (ep_planned_cost (g_eprops B g e)) (Fin 0))"

lemma collect_edges:
  "fold (collect_edge B g force) es (xs, k) =
     (xs @ map (edge_info B g) (filter (to_plan B g force) es),
      k + int (length (filter (\<lambda>e. door_edge B g e \<and> \<not> to_plan B g force e) es)))"
proof (induction es arbitrary: xs k)
  case (Cons e es)
  have "collect_edge B g force e (xs, k) =
      (if to_plan B g force e then (xs @ [edge_info B g e], k) else if door_edge B g e then (xs, k + 1) else (xs, k))"
    by (auto simp: collect_edge_def to_plan_def door_edge_def edge_info_def Let_def split: option.splits)
  with Cons show ?case by (auto simp: algebra_simps)
qed simp

lemma preplan_edge_counts:
  assumes "preplan_edge B env p g info st = Inr st'"
  shows "ps_completed st' + ps_failed st' = ps_completed st + ps_failed st + 1"
    and "ps_failed_edge_ids st' = ps_failed_edge_ids st \<and> ps_failed st' = ps_failed st \<or>
      ps_failed_edge_ids st' = ps_failed_edge_ids st @ [ei_edge_id info] \<and> ps_failed st' = ps_failed st + 1"
  using assms unfolding preplan_edge_def Let_def
  by (auto simp: preplan_failed_def split: option.splits prod.splits sum.splits if_splits)

lemma preplan_loop:
  assumes "fold_result (preplan_edge B env p g) infos st = Inr st'"
  shows "ps_completed st' + ps_failed st' = ps_completed st + ps_failed st + int (length infos) \<and>
    (\<exists>ids. ps_failed_edge_ids st' = ps_failed_edge_ids st @ ids \<and> ps_failed st' = ps_failed st + int (length ids) \<and>
       set ids \<subseteq> ei_edge_id ` set infos)"
  using assms
proof (induction infos arbitrary: st)
  case (Cons info infos)
  from Cons.prems obtain st1 where st1: "preplan_edge B env p g info st = Inr st1"
    "fold_result (preplan_edge B env p g) infos st1 = Inr st'"
    by (auto simp: result_simps)
  note C = preplan_edge_counts [OF st1(1)]
  obtain ids where ids: "ps_failed_edge_ids st' = ps_failed_edge_ids st1 @ ids" "ps_failed st' = ps_failed st1 + int (length ids)"
    "set ids \<subseteq> ei_edge_id ` set infos" and sum: "ps_completed st' + ps_failed st' = ps_completed st1 + ps_failed st1 + int (length infos)"
    using Cons.IH [OF st1(2)] by blast
  have "\<exists>ids. ps_failed_edge_ids st' = ps_failed_edge_ids st @ ids \<and> ps_failed st' = ps_failed st + int (length ids) \<and>
      set ids \<subseteq> ei_edge_id ` set (info # infos)"
    using C(2)
  proof
    assume "ps_failed_edge_ids st1 = ps_failed_edge_ids st \<and> ps_failed st1 = ps_failed st"
    with ids show ?thesis by (intro exI [of _ ids]) auto
  next
    assume "ps_failed_edge_ids st1 = ps_failed_edge_ids st @ [ei_edge_id info] \<and> ps_failed st1 = ps_failed st + 1"
    with ids show ?thesis by (intro exI [of _ "ei_edge_id info # ids"]) auto
  qed
  with C(1) sum show ?case by simp
qed simp


section \<open>A sample building\<close>

text \<open>Two rooms on one floor with a door between them; the room planner answers with the straight segment.\<close>

definition house_graph :: vgraph where
  "house_graph =
     \<lparr>vg_nodes = [NodeProperties_init\<lparr>np_id := 1, np_name := ''EG'', np_type := ''floor'', np_min_z := Some 0, np_max_z := Some 4\<rparr>,
        (sample_node 2 ''R1'' ''room'' 0 0)\<lparr>np_polygon := Some (Polygon_init\<lparr>poly_outer := [(0, 0)]\<rparr>)\<rparr>,
        (sample_node 3 ''R2'' ''room'' 8 0)\<lparr>np_polygon := Some (Polygon_init\<lparr>poly_outer := [(8, 0)]\<rparr>)\<rparr>,
        sample_node 4 ''D1'' ''transition'' 4 0, sample_node 5 ''D2'' ''transition'' 4 1],
      vg_edges = [(1, 3, sample_edge 1), (2, 3, sample_edge 2),
        (3, 4, EdgeProperties_init\<lparr>ep_id := 3, ep_type := ''transition'', ep_room_id := Some 2\<rparr>)]\<rparr>"

definition house_server :: "vgraph GppBimServer" where
  "house_server =
     \<lparr>gb_declared = True,
      gb_params = \<lparr>gp_reuse_paths = True, gp_pre_plan_paths = False, gp_force_pre_plan_of_planned_paths = False,
        gp_second_level_planner = ''A*'', gp_penalize_z_movement = 1, gp_prune_graph = False,
        gp_visualize_pruned_graph = False, gp_pruning_cost_threshold = 10, gp_use_two_level = True,
        gp_enable_floor_smoothing = False, gp_floor_smoother_max_time = 1\<rparr>,
      gb_topological_map = updateMaxIds vec_graph
        (buildLookupMaps vec_graph (TopologicalMap_init vec_graph\<lparr>tp_graph := house_graph\<rparr>)),
      gb_topomap_loaded = True, gb_timeout_occurred = False, gb_clients = True, gb_active = True,
      gb_topomap_load_timer = False, gb_pre_plan_trigger_timer = False\<rparr>"

definition house_env :: "unit gpp_env" where
  "house_env =
     \<lparr>ge_room_planner = (\<lambda>goal w. (Room_answer \<lparr>rr_error_code = 0,
        rr_path = \<lparr>path_frame_id = ''ifc'', path_poses = [rg_start goal, rg_goal goal]\<rparr>,
        rr_path_distance = Fin 1, rr_path_cost = Fin 2, rr_error_msg = [], rr_warnings = []\<rparr>, w)),
      ge_get_topomap = (\<lambda>w. (Service_unavailable, w)), ge_update_edge = (\<lambda>request w. Inr w),
      ge_save_topomap = (\<lambda>w. (Inr None, w)), ge_smooth = (\<lambda>request w. (Inr None, w)),
      ge_cancel_requested = (\<lambda>w. False)\<rparr>"

definition house_goal :: path_goal where
  "house_goal = \<lparr>pg_start = Position_init, pg_goal = Position_init\<lparr>pos_x := 8\<rparr>, pg_use_start = True\<rparr>"

definition on_ring :: within_fn where
  "on_ring p polygon \<longleftrightarrow> p \<in> set (poly_outer polygon)"

lemma house_map_graph [simp]: "tp_graph (gb_topological_map house_server) = house_graph"
  by (simp add: house_server_def)

lemma house_env_ok: "room_costs_ok house_env" "nodes_answer house_env p"
  by (simp_all add: house_env_def room_costs_ok_def nodes_answer_def nonneg_def)

lemma house_map_ok: "map_ok vec_graph (gp_reuse_paths (gb_params house_server)) (gb_topological_map house_server)"
proof -
  have "distinct (g_adjacent_vertices vec_graph v house_graph)" for v
    by (simp add: g_adjacent_vertices_def vg_out_edges_def house_graph_def)
  then show ?thesis
    by (simp add: map_ok_def wf_graph_def cached_nonneg_def should_reuse_def stale_def)
      (simp add: house_graph_def sample_node_def sample_edge_def NodeProperties_init_def EdgeProperties_init_def)
qed

lemma house_costs: "estimates_ok vec_graph house_graph" "floors_ok vec_graph house_graph"
  by (simp_all add: estimates_ok_def floors_ok_def finite_estimate_def house_graph_def sample_edge_def sample_node_def
      EdgeProperties_init_def NodeProperties_init_def)

lemma house_rounding: "round_coords (pg_start house_goal) = Position_init"
  "round_coords (pg_goal house_goal) = Position_init\<lparr>pos_x := 8\<rparr>"
  by (simp_all add: house_goal_def round_coords_def std_round_def Position_init_def)

lemma house_floor: "planner_findFloorByHeight vec_graph house_graph 0 = Some 0"
  unfolding planner_searches_agree
  by (simp add: findFloorByHeight_def floor_step_def house_graph_def sample_node_def NodeProperties_init_def numeral_nat Let_def)

lemma house_rooms:
  "planner_findRoomByCoordinates on_ring (\<lambda>r q. []) vec_graph house_graph 0 0 0 = Some 1"
  "planner_findRoomByCoordinates on_ring (\<lambda>r q. []) vec_graph house_graph 8 0 0 = Some 2"
  unfolding planner_findRoomByCoordinates_def house_floor option.case
  by (subst buffer_loop.simps, simp add: house_graph_def sample_node_def NodeProperties_init_def Polygon_init_def
      planner_isPointInPolygon_def on_ring_def numeral_nat Let_def)+

lemma house_connected: "rooms_connected vec_graph house_graph 1 2"
proof -
  have "doors vec_graph house_graph 1 = [3]" "doors vec_graph house_graph 2 = [3]"
    by (simp_all add: doors_def g_adjacent_vertices_def vg_out_edges_def house_graph_def sample_node_def)
  then show ?thesis unfolding rooms_connected_def linked_def by simp
qed

lemmas house_sample = vg.boost_graph_axioms sh.fib_heap_axioms uo.unordered_axioms house_env_ok(1)

abbreviation house_query :: "(published list \<times> action_outcome \<times> vgraph GppBimServer \<times> unit) option" where
  "house_query \<equiv> computePathToPose relabel_components on_ring (\<lambda>r q. []) id (\<lambda>exn. []) vec_graph slot_heap_ops
     sorted_list_of_set house_env False house_goal house_server ()"

lemma house_loaded: "gb_topomap_loaded house_server"
  by (simp add: house_server_def)

theorem computePathToPose_keeps_map_witness:
  "\<exists>out outcome srv w. house_query = Some (out, outcome, srv, w) \<and>
     nodes_view vec_graph (tp_graph (gb_topological_map srv)) = vg_nodes house_graph"
  using computePathToPose_keeps_map [OF house_sample house_loaded house_map_ok, of relabel_components on_ring "\<lambda>r q. []"
      id "\<lambda>exn. []" False house_goal "()"] by auto

lemma house_facts:
  "gp_use_two_level (gb_params house_server)" "\<not> gp_prune_graph (gb_params house_server)" "pg_use_start house_goal"
  "\<not> ge_cancel_requested house_env ()" "estimates_ok vec_graph (tp_graph (gb_topological_map house_server))"
  "floors_ok vec_graph (tp_graph (gb_topological_map house_server))"
  "planner_findRoomByCoordinates on_ring (\<lambda>r q. []) vec_graph (tp_graph (gb_topological_map house_server))
     (pos_x Position_init) (pos_y Position_init) (pos_z Position_init) = Some 1"
  "planner_findRoomByCoordinates on_ring (\<lambda>r q. []) vec_graph (tp_graph (gb_topological_map house_server))
     (pos_x (Position_init\<lparr>pos_x := 8\<rparr>)) (pos_y (Position_init\<lparr>pos_x := 8\<rparr>)) (pos_z (Position_init\<lparr>pos_x := 8\<rparr>)) = Some 2"
  "rooms_connected vec_graph (tp_graph (gb_topological_map house_server)) 1 2"
  using house_costs house_rooms house_connected
  by (simp_all add: Position_init_def) (simp_all add: house_server_def house_goal_def house_env_def)


lemma house_max_id: "getMaxNodeId (gb_topological_map house_server) = 5"
proof -
  have max: "getMaxNodeId (updateMaxIds vec_graph m) =
      fst (fold (max_ids_node vec_graph (tp_graph m)) (g_vertices vec_graph (tp_graph m)) (-1, {}))" for m
    by (simp add: getMaxNodeId_def updateMaxIds_def Let_def)
  have "g_vertices vec_graph house_graph = [0, 1, 2, 3, 4]" by (simp add: house_graph_def upt_rec)
  moreover have "fst (fold (max_ids_node vec_graph house_graph) [0, 1, 2, 3, 4] (-1, {})) = 5"
    by (simp add: max_ids_node_def house_graph_def sample_node_def)
  moreover have "gb_topological_map house_server = updateMaxIds vec_graph
      (buildLookupMaps vec_graph (TopologicalMap_init vec_graph\<lparr>tp_graph := house_graph\<rparr>))"
    by (simp add: house_server_def)
  moreover from this have "tp_graph (buildLookupMaps vec_graph (TopologicalMap_init vec_graph\<lparr>tp_graph := house_graph\<rparr>)) = house_graph"
    using house_map_graph by (simp add: updateMaxIds_def Let_def)
  ultimately show ?thesis using max by metis
qed

theorem computePathToPose_outcome_witness:
  "\<exists>out r srv w. house_query = Some (out, Succeeded r, srv, w) \<and> rs_error_code r = 0 \<and>
     hd (rs_node_ids r) = ''6'' \<and> last (rs_node_ids r) = ''7''"
proof -
  obtain out r srv w where q: "house_query = Some (out, Succeeded r, srv, w)" 
    using computePathToPose_finds [OF house_sample house_env_ok(2) house_loaded house_map_ok house_facts(5,6,1-4)
        house_rounding [symmetric] house_facts(7-9)] by blast
  have "getMaxNodeId (gb_topological_map house_server) = 5"
    by (rule house_max_id)
  moreover have "to_string 6 = ''6''" "to_string 7 = ''7''"
    by code_simp+
  ultimately show ?thesis
    using computePathToPose_outcome [OF house_sample house_loaded house_map_ok q] q by (simp add: answer_ok_def)
qed

lemma preplan_edge_answers:
  assumes upd: "\<And>request w exn. ge_update_edge env request w \<noteq> Inl exn"
  shows "\<exists>st'. preplan_edge B env p g info st = Inr st'"
proof (cases "preplan_edge B env p g info st")
  case (Inl exn)
  then have False
    using upd by (simp add: preplan_edge_def Let_def split: option.splits prod.splits sum.splits if_splits)
  then show ?thesis ..
qed auto


end
