(* ===== verification/Costmap.thy ===== *)
theory Costmap
  imports Prelude
begin

text \<open>
  \<open>nav2_costmap_2d/Costmap2D\<close>: a rectangular grid of costs with an origin and a resolution, the
  conversions between cells and world coordinates, and the window operations. Rooms and floors
  carry one such grid each; the room planner, the smoother and the clearance server read it.

  Cell coordinates are natural numbers and the arithmetic on indices is that of
  \<open>unsigned int\<close> (\<open>wrap32\<close> below). A conversion of a double outside the range of its target
  integer is undefined in C++; the model keeps the mathematical value. Reading or writing
  beyond the array is undefined too; the theorems state the bounds under which it does not
  happen.
\<close>

section \<open>The grid\<close>

type_synonym uchar = "8 word"

abbreviation (input) "NO_INFORMATION \<equiv> 255 :: uchar"
abbreviation (input) "LETHAL_OBSTACLE \<equiv> 254 :: uchar"
abbreviation (input) "INSCRIBED_INFLATED_OBSTACLE \<equiv> 253 :: uchar"
abbreviation (input) "MAX_NON_OBSTACLE \<equiv> 252 :: uchar"
abbreviation (input) "FREE_SPACE \<equiv> 0 :: uchar"

record Costmap2D =
  cm_size_x :: nat
  cm_size_y :: nat
  cm_resolution :: real
  cm_origin_x :: real
  cm_origin_y :: real
  cm_costmap :: "uchar list"
  cm_default_value :: uchar

text \<open>Wrap-around of \<open>unsigned int\<close> and the conversions from double, which truncate.\<close>

definition wrap32 :: "nat \<Rightarrow> nat" where
  "wrap32 n = n mod 2 ^ 32"

definition to_uint :: "real \<Rightarrow> nat" where
  "to_uint x = nat \<lfloor>x\<rfloor>"

definition to_int :: "real \<Rightarrow> int" where
  "to_int x = (if 0 \<le> x then \<lfloor>x\<rfloor> else \<lceil>x\<rceil>)"

section \<open>Cells and world coordinates\<close>

definition getIndex :: "Costmap2D \<Rightarrow> nat \<Rightarrow> nat \<Rightarrow> nat" where
  "getIndex m mx my = wrap32 (my * cm_size_x m + mx)"

definition indexToCells :: "Costmap2D \<Rightarrow> nat \<Rightarrow> nat \<times> nat" where
  "indexToCells m index = (let my = index div cm_size_x m in (index - my * cm_size_x m, my))"

definition getCost :: "Costmap2D \<Rightarrow> nat \<Rightarrow> nat \<Rightarrow> uchar" where
  "getCost m mx my = cm_costmap m ! getIndex m mx my"

definition setCost :: "nat \<Rightarrow> nat \<Rightarrow> uchar \<Rightarrow> Costmap2D \<Rightarrow> Costmap2D" where
  "setCost mx my cost m = m\<lparr>cm_costmap := (cm_costmap m)[getIndex m mx my := cost]\<rparr>"

definition mapToWorld :: "Costmap2D \<Rightarrow> nat \<Rightarrow> nat \<Rightarrow> real \<times> real" where
  "mapToWorld m mx my =
     (cm_origin_x m + (real mx + 1 / 2) * cm_resolution m, cm_origin_y m + (real my + 1 / 2) * cm_resolution m)"

definition worldToMap :: "Costmap2D \<Rightarrow> real \<Rightarrow> real \<Rightarrow> (nat \<times> nat) option" where
  "worldToMap m wx wy =
     (if wx < cm_origin_x m \<or> wy < cm_origin_y m then None
      else
        let mx = to_uint ((wx - cm_origin_x m) / cm_resolution m);
            my = to_uint ((wy - cm_origin_y m) / cm_resolution m)
        in if mx < cm_size_x m \<and> my < cm_size_y m then Some (mx, my) else None)"

definition worldToMapNoBounds :: "Costmap2D \<Rightarrow> real \<Rightarrow> real \<Rightarrow> int \<times> int" where
  "worldToMapNoBounds m wx wy =
     (to_int ((wx - cm_origin_x m) / cm_resolution m), to_int ((wy - cm_origin_y m) / cm_resolution m))"

definition enforce_bounds :: "real \<Rightarrow> nat \<Rightarrow> real \<Rightarrow> real \<Rightarrow> int" where
  "enforce_bounds origin cells resolution w =
     (if w < origin then 0
      else if resolution * real cells + origin < w then int cells - 1
      else to_int ((w - origin) / resolution))"

definition worldToMapEnforceBounds :: "Costmap2D \<Rightarrow> real \<Rightarrow> real \<Rightarrow> int \<times> int" where
  "worldToMapEnforceBounds m wx wy =
     (enforce_bounds (cm_origin_x m) (cm_size_x m) (cm_resolution m) wx,
      enforce_bounds (cm_origin_y m) (cm_size_y m) (cm_resolution m) wy)"

definition cellDistance :: "Costmap2D \<Rightarrow> real \<Rightarrow> nat" where
  "cellDistance m world_dist = to_uint (max 0 (of_int \<lceil>world_dist / cm_resolution m\<rceil>))"

definition getSizeInMetersX :: "Costmap2D \<Rightarrow> real" where
  "getSizeInMetersX m = (real (wrap32 (cm_size_x m + (2 ^ 32 - 1))) + 1 / 2) * cm_resolution m"

definition getSizeInMetersY :: "Costmap2D \<Rightarrow> real" where
  "getSizeInMetersY m = (real (wrap32 (cm_size_y m + (2 ^ 32 - 1))) + 1 / 2) * cm_resolution m"

section \<open>Whole-map and window operations\<close>

text \<open>\<open>memset\<close> and \<open>memcpy\<close> on an array.\<close>

definition memset :: "nat \<Rightarrow> 'a \<Rightarrow> nat \<Rightarrow> 'a list \<Rightarrow> 'a list" where
  "memset k v len xs = take k xs @ replicate len v @ drop (k + len) xs"

definition memcpy :: "nat \<Rightarrow> 'a list \<Rightarrow> nat \<Rightarrow> nat \<Rightarrow> 'a list \<Rightarrow> 'a list" where
  "memcpy k src j len xs = take k xs @ take len (drop j src) @ drop (k + len) xs"

definition copyMapRegion ::
  "'a list \<Rightarrow> nat \<Rightarrow> nat \<Rightarrow> nat \<Rightarrow> nat \<Rightarrow> nat \<Rightarrow> nat \<Rightarrow> nat \<Rightarrow> nat \<Rightarrow> 'a list \<Rightarrow> 'a list" where
  "copyMapRegion src sm_x sm_y sm_size_x dm_x dm_y dm_size_x region_size_x region_size_y dest =
     fold (\<lambda>i. memcpy (wrap32 (dm_y * dm_size_x + dm_x) + i * dm_size_x) src
                 (wrap32 (sm_y * sm_size_x + sm_x) + i * sm_size_x) region_size_x)
       [0..<region_size_y] dest"

text \<open>\<open>junk\<close> is the content of freshly allocated memory.\<close>

definition deleteMaps :: "Costmap2D \<Rightarrow> Costmap2D" where
  "deleteMaps m = m\<lparr>cm_costmap := []\<rparr>"

definition initMaps :: "(nat \<Rightarrow> uchar) \<Rightarrow> nat \<Rightarrow> nat \<Rightarrow> Costmap2D \<Rightarrow> Costmap2D" where
  "initMaps junk size_x size_y m =
     m\<lparr>cm_size_x := size_x, cm_size_y := size_y, cm_costmap := map junk [0..<wrap32 (size_x * size_y)]\<rparr>"

definition resetMaps :: "Costmap2D \<Rightarrow> Costmap2D" where
  "resetMaps m = m\<lparr>cm_costmap := memset 0 (cm_default_value m) (wrap32 (cm_size_x m * cm_size_y m)) (cm_costmap m)\<rparr>"

definition new_Costmap2D :: "(nat \<Rightarrow> uchar) \<Rightarrow> nat \<Rightarrow> nat \<Rightarrow> real \<Rightarrow> real \<Rightarrow> real \<Rightarrow> uchar \<Rightarrow> Costmap2D" where
  "new_Costmap2D junk cells_size_x cells_size_y resolution origin_x origin_y default_value =
     resetMaps (initMaps junk cells_size_x cells_size_y
       \<lparr>cm_size_x = 0, cm_size_y = 0, cm_resolution = resolution, cm_origin_x = origin_x, cm_origin_y = origin_y,
        cm_costmap = [], cm_default_value = default_value\<rparr>)"

definition resizeMap :: "(nat \<Rightarrow> uchar) \<Rightarrow> nat \<Rightarrow> nat \<Rightarrow> real \<Rightarrow> real \<Rightarrow> real \<Rightarrow> Costmap2D \<Rightarrow> Costmap2D" where
  "resizeMap junk size_x size_y resolution origin_x origin_y m =
     resetMaps (initMaps junk size_x size_y
       (m\<lparr>cm_resolution := resolution, cm_origin_x := origin_x, cm_origin_y := origin_y\<rparr>))"

text \<open>The loop runs over the start indices of the rows \<open>y0\<close> to \<open>yn - 1\<close>.\<close>

definition resetMapToValue :: "nat \<Rightarrow> nat \<Rightarrow> nat \<Rightarrow> nat \<Rightarrow> uchar \<Rightarrow> Costmap2D \<Rightarrow> Costmap2D" where
  "resetMapToValue x0 y0 xn yn v m =
     m\<lparr>cm_costmap := fold (\<lambda>y. memset (y * cm_size_x m + x0) v (wrap32 (xn + 2 ^ 32 - x0))) [y0..<yn] (cm_costmap m)\<rparr>"

definition resetMap :: "nat \<Rightarrow> nat \<Rightarrow> nat \<Rightarrow> nat \<Rightarrow> Costmap2D \<Rightarrow> Costmap2D" where
  "resetMap x0 y0 xn yn m = resetMapToValue x0 y0 xn yn (cm_default_value m) m"

definition copyWindow :: "Costmap2D \<Rightarrow> nat \<Rightarrow> nat \<Rightarrow> nat \<Rightarrow> nat \<Rightarrow> nat \<Rightarrow> nat \<Rightarrow> Costmap2D \<Rightarrow> bool \<times> Costmap2D" where
  "copyWindow source sx0 sy0 sxn syn dx0 dy0 m =
     (let sz_x = wrap32 (sxn + 2 ^ 32 - sx0); sz_y = wrap32 (syn + 2 ^ 32 - sy0)
      in if cm_size_x source < sxn \<or> cm_size_y source < syn then (False, m)
         else if cm_size_x m < wrap32 (dx0 + sz_x) \<or> cm_size_y m < wrap32 (dy0 + sz_y) then (False, m)
         else (True, m\<lparr>cm_costmap := copyMapRegion (cm_costmap source) sx0 sy0 (cm_size_x source)
                         dx0 dy0 (cm_size_x m) sz_x sz_y (cm_costmap m)\<rparr>))"

text \<open>The window of another map. The old data is gone even when the window does not fit.\<close>

definition copyCostmapWindow ::
  "(nat \<Rightarrow> uchar) \<Rightarrow> Costmap2D \<Rightarrow> real \<Rightarrow> real \<Rightarrow> real \<Rightarrow> real \<Rightarrow> Costmap2D \<Rightarrow> bool \<times> Costmap2D" where
  "copyCostmapWindow junk source win_origin_x win_origin_y win_size_x win_size_y m =
     (case (worldToMap source win_origin_x win_origin_y,
            worldToMap source (win_origin_x + win_size_x) (win_origin_y + win_size_y)) of
        (Some (lower_left_x, lower_left_y), Some (upper_right_x, upper_right_y)) \<Rightarrow>
          let m1 = initMaps junk (wrap32 (upper_right_x + 2 ^ 32 - lower_left_x)) (wrap32 (upper_right_y + 2 ^ 32 - lower_left_y))
                (m\<lparr>cm_resolution := cm_resolution source, cm_origin_x := win_origin_x, cm_origin_y := win_origin_y\<rparr>)
          in (True, m1\<lparr>cm_costmap := copyMapRegion (cm_costmap source) lower_left_x lower_left_y (cm_size_x source)
                0 0 (cm_size_x m1) (cm_size_x m1) (cm_size_y m1) (cm_costmap m1)\<rparr>)
      | _ \<Rightarrow> (False, deleteMaps m))"

definition assign_Costmap2D :: "(nat \<Rightarrow> uchar) \<Rightarrow> Costmap2D \<Rightarrow> Costmap2D \<Rightarrow> Costmap2D" where
  "assign_Costmap2D junk source m =
     (let m1 = initMaps junk (cm_size_x source) (cm_size_y source)
            (m\<lparr>cm_resolution := cm_resolution source, cm_origin_x := cm_origin_x source, cm_origin_y := cm_origin_y source,
               cm_default_value := cm_default_value source\<rparr>)
      in m1\<lparr>cm_costmap := memcpy 0 (cm_costmap source) 0 (wrap32 (cm_size_x source * cm_size_y source)) (cm_costmap m1)\<rparr>)"

definition clamp :: "int \<Rightarrow> int \<Rightarrow> int" where
  "clamp c cells = min (max c 0) cells"

definition updateOrigin :: "(nat \<Rightarrow> uchar) \<Rightarrow> real \<Rightarrow> real \<Rightarrow> Costmap2D \<Rightarrow> Costmap2D" where
  "updateOrigin junk new_origin_x new_origin_y m =
     (let cell_ox = to_int ((new_origin_x - cm_origin_x m) / cm_resolution m);
          cell_oy = to_int ((new_origin_y - cm_origin_y m) / cm_resolution m);
          new_grid_ox = cm_origin_x m + of_int cell_ox * cm_resolution m;
          new_grid_oy = cm_origin_y m + of_int cell_oy * cm_resolution m;
          size_x = int (cm_size_x m); size_y = int (cm_size_y m);
          lower_left_x = clamp cell_ox size_x; lower_left_y = clamp cell_oy size_y;
          upper_right_x = clamp (cell_ox + size_x) size_x; upper_right_y = clamp (cell_oy + size_y) size_y;
          cell_size_x = nat (upper_right_x - lower_left_x); cell_size_y = nat (upper_right_y - lower_left_y);
          local_map = copyMapRegion (cm_costmap m) (nat lower_left_x) (nat lower_left_y) (cm_size_x m)
            0 0 cell_size_x cell_size_x cell_size_y (map junk [0..<wrap32 (cell_size_x * cell_size_y)]);
          m1 = (resetMaps m)\<lparr>cm_origin_x := new_grid_ox, cm_origin_y := new_grid_oy\<rparr>;
          start_x = lower_left_x - cell_ox; start_y = lower_left_y - cell_oy
      in m1\<lparr>cm_costmap := copyMapRegion local_map 0 0 cell_size_x (nat start_x) (nat start_y) (cm_size_x m)
              cell_size_x cell_size_y (cm_costmap m1)\<rparr>)"

section \<open>Well-formed maps\<close>

definition wf_costmap :: "Costmap2D \<Rightarrow> bool" where
  "wf_costmap m \<longleftrightarrow> 0 < cm_resolution m \<and> length (cm_costmap m) = cm_size_x m * cm_size_y m \<and>
     cm_size_x m * cm_size_y m < 2 ^ 32"

abbreviation in_map :: "Costmap2D \<Rightarrow> nat \<Rightarrow> nat \<Rightarrow> bool" where
  "in_map m mx my \<equiv> mx < cm_size_x m \<and> my < cm_size_y m"

lemma wrap32_small [simp]: "n < 2 ^ 32 \<Longrightarrow> wrap32 n = n"
  by (simp add: wrap32_def)

lemma cell_index_less:
  fixes mx my sx sy :: nat
  assumes "mx < sx" and "my < sy"
  shows "my * sx + mx < sx * sy"
proof -
  have "my * sx + mx < Suc my * sx" using assms(1) by simp
  also have "\<dots> \<le> sy * sx" using assms(2) by (metis Suc_leI mult_le_mono1)
  finally show ?thesis by (simp add: mult.commute)
qed

lemma cell_index_inj:
  fixes mx my mx' my' sx :: nat
  assumes "mx < sx" and "mx' < sx"
  shows "my * sx + mx = my' * sx + mx' \<longleftrightarrow> mx = mx' \<and> my = my'"
proof
  assume eq: "my * sx + mx = my' * sx + mx'"
  have "(my * sx + mx) div sx = my" "(my' * sx + mx') div sx = my'" using assms by simp_all
  with eq have "my = my'" by metis
  with eq show "mx = mx' \<and> my = my'" by simp
qed simp

lemma getIndex_in_map:
  assumes "wf_costmap m" and "in_map m mx my"
  shows "getIndex m mx my = my * cm_size_x m + mx" and "getIndex m mx my < length (cm_costmap m)"
proof -
  have "my * cm_size_x m + mx < cm_size_x m * cm_size_y m"
    using cell_index_less assms(2) by blast
  then show "getIndex m mx my = my * cm_size_x m + mx" "getIndex m mx my < length (cm_costmap m)"
    using assms(1) by (simp_all add: getIndex_def wf_costmap_def)
qed

lemma indexToCells_getIndex:
  assumes "wf_costmap m" and "in_map m mx my"
  shows "indexToCells m (getIndex m mx my) = (mx, my)"
  using assms by (simp add: getIndex_in_map indexToCells_def Let_def)

text \<open>\<open>setCost\<close> changes one cell and nothing else.\<close>

lemma setCost_params [simp]:
  "cm_size_x (setCost x y c m) = cm_size_x m" "cm_size_y (setCost x y c m) = cm_size_y m"
  "cm_resolution (setCost x y c m) = cm_resolution m" "cm_origin_x (setCost x y c m) = cm_origin_x m"
  "cm_origin_y (setCost x y c m) = cm_origin_y m" "cm_default_value (setCost x y c m) = cm_default_value m"
  "length (cm_costmap (setCost x y c m)) = length (cm_costmap m)"
  by (simp_all add: setCost_def)

lemma wf_setCost [simp]: "wf_costmap (setCost x y c m) \<longleftrightarrow> wf_costmap m"
  by (simp add: wf_costmap_def)

lemma worldToMap_setCost [simp]: "worldToMap (setCost x y c m) = worldToMap m"
  by (intro ext) (simp add: worldToMap_def)

lemma getCost_setCost:
  assumes "wf_costmap m" and "in_map m x y" and "in_map m x' y'"
  shows "getCost (setCost x y c m) x' y' = (if x' = x \<and> y' = y then c else getCost m x' y')"
proof -
  have "getIndex (setCost x y c m) x' y' = getIndex m x' y'" by (simp add: getIndex_def)
  then have "getCost (setCost x y c m) x' y' = (cm_costmap m)[getIndex m x y := c] ! getIndex m x' y'"
    by (simp add: getCost_def) (simp add: setCost_def)
  moreover have "getIndex m x y = getIndex m x' y' \<longleftrightarrow> x' = x \<and> y' = y"
    using assms cell_index_inj [of x "cm_size_x m" x' y y'] by (auto simp: getIndex_in_map)
  ultimately show ?thesis
    using getIndex_in_map(2) [OF assms(1,2)] by (simp add: getCost_def nth_list_update)
qed

section \<open>Copies of regions\<close>

lemma length_memset [simp]: "k + len \<le> length xs \<Longrightarrow> length (memset k v len xs) = length xs"
  by (simp add: memset_def)

lemma nth_memset:
  assumes "k + len \<le> length xs" and "i < length xs"
  shows "memset k v len xs ! i = (if k \<le> i \<and> i < k + len then v else xs ! i)"
  using assms by (auto simp: memset_def nth_append min_def)

lemma length_memcpy [simp]:
  "k + len \<le> length xs \<Longrightarrow> j + len \<le> length src \<Longrightarrow> length (memcpy k src j len xs) = length xs"
  by (simp add: memcpy_def)

lemma nth_memcpy:
  assumes "k + len \<le> length xs" and "j + len \<le> length src" and "i < length xs"
  shows "memcpy k src j len xs ! i = (if k \<le> i \<and> i < k + len then src ! (j + (i - k)) else xs ! i)"
proof -
  have "length (take len (drop j src)) = len" using assms(2) by simp
  with assms(1,3) show ?thesis by (auto simp: memcpy_def nth_append)
qed

lemma memcpy_nothing [simp]: "memcpy k src j 0 = (\<lambda>xs. xs)"
  by (rule ext) (simp add: memcpy_def)

text \<open>The rows of a region, one \<open>memcpy\<close> each.\<close>

lemma copy_rows:
  assumes "dx + rx \<le> dsx" and "dy + ry \<le> dh" and "length dest = dsx * dh"
    and "sx + rx \<le> ssx" and "(sy + ry) * ssx \<le> length src" and "ry0 \<le> ry"
  defines "copy \<equiv> fold (\<lambda>i. memcpy (dy * dsx + dx + i * dsx) src (sy * ssx + sx + i * ssx) rx) [0..<ry0] dest"
  shows "length copy = length dest \<and> (\<forall>x < dsx. \<forall>y < dh. copy ! (y * dsx + x) =
      (if dx \<le> x \<and> x < dx + rx \<and> dy \<le> y \<and> y < dy + ry0
       then src ! ((sy + (y - dy)) * ssx + (sx + (x - dx))) else dest ! (y * dsx + x)))"
  using assms(6) unfolding copy_def
proof (induction ry0)
  case 0
  show ?case by auto
next
  case (Suc k)
  let ?c = "fold (\<lambda>i. memcpy (dy * dsx + dx + i * dsx) src (sy * ssx + sx + i * ssx) rx) [0..<k] dest"
  let ?d = "(dy + k) * dsx + dx" and ?s = "(sy + k) * ssx + sx"
  have step: "fold (\<lambda>i. memcpy (dy * dsx + dx + i * dsx) src (sy * ssx + sx + i * ssx) rx) [0..<Suc k] dest =
      memcpy ?d src ?s rx ?c"
    by (simp add: algebra_simps)
  have k: "k \<le> ry" "Suc (dy + k) \<le> dh" "Suc (sy + k) \<le> sy + ry" using Suc.prems assms(2) by simp_all
  have "?d + rx \<le> Suc (dy + k) * dsx" using assms(1) by simp
  also have "\<dots> \<le> dh * dsx" using k(2) by (rule mult_le_mono1)
  finally have dfit: "?d + rx \<le> length dest" using assms(3) by (simp add: mult.commute)
  have "?s + rx \<le> Suc (sy + k) * ssx" using assms(4) by simp
  also have "\<dots> \<le> (sy + ry) * ssx" using k(3) by (rule mult_le_mono1)
  finally have sfit: "?s + rx \<le> length src" using assms(5) by simp
  have IH: "length ?c = length dest" "\<And>x y. x < dsx \<Longrightarrow> y < dh \<Longrightarrow> ?c ! (y * dsx + x) =
      (if dx \<le> x \<and> x < dx + rx \<and> dy \<le> y \<and> y < dy + k
       then src ! ((sy + (y - dy)) * ssx + (sx + (x - dx))) else dest ! (y * dsx + x))"
    using Suc.IH [OF k(1)] by blast+
  have "memcpy ?d src ?s rx ?c ! (y * dsx + x) =
      (if dx \<le> x \<and> x < dx + rx \<and> dy \<le> y \<and> y < dy + Suc k
       then src ! ((sy + (y - dy)) * ssx + (sx + (x - dx))) else dest ! (y * dsx + x))" if xy: "x < dsx" "y < dh" for x y
  proof -
    have i: "y * dsx + x < length dest"
      using cell_index_less [OF xy] assms(3) by simp
    have row: "?d \<le> y * dsx + x \<and> y * dsx + x < ?d + rx \<longleftrightarrow> y = dy + k \<and> dx \<le> x \<and> x < dx + rx"
    proof
      assume a: "?d \<le> y * dsx + x \<and> y * dsx + x < ?d + rx"
      have "\<not> y < dy + k"
      proof
        assume "y < dy + k"
        then have "Suc y * dsx \<le> (dy + k) * dsx" by (intro mult_le_mono1) simp
        with a xy(1) show False by simp
      qed
      moreover have "\<not> dy + k < y"
      proof
        assume "dy + k < y"
        then have "Suc (dy + k) * dsx \<le> y * dsx" by (intro mult_le_mono1) simp
        with a assms(1) show False by simp
      qed
      ultimately have "y = dy + k" by simp
      with a show "y = dy + k \<and> dx \<le> x \<and> x < dx + rx" by simp
    qed simp
    have "memcpy ?d src ?s rx ?c ! (y * dsx + x) =
        (if y = dy + k \<and> dx \<le> x \<and> x < dx + rx then src ! (?s + (x - dx)) else ?c ! (y * dsx + x))"
      using nth_memcpy [of ?d rx ?c ?s src "y * dsx + x"] IH(1) dfit sfit i row by auto
    then show ?thesis using IH(2) [OF xy] by (auto simp: algebra_simps)
  qed
  then show ?case unfolding step using IH(1) dfit sfit by simp
qed

lemma copyMapRegion_nothing:
  assumes "rx = 0 \<or> ry = 0"
  shows "copyMapRegion src sx sy ssx dx dy dsx rx ry dest = dest"
proof -
  have "fold (\<lambda>i xs. xs) is d = d" for d :: "'a list" and "is" :: "nat list"
    by (induction "is") simp_all
  with assms show ?thesis by (auto simp: copyMapRegion_def)
qed

lemma copyMapRegion_cells:
  assumes fit: "dx + rx \<le> dsx" "dy + ry \<le> dh" "length dest = dsx * dh" "sx + rx \<le> ssx" "(sy + ry) * ssx \<le> length src"
    and small: "length dest < 2 ^ 32" "length src < 2 ^ 32"
  defines "copy \<equiv> copyMapRegion src sx sy ssx dx dy dsx rx ry dest"
  shows "length copy = length dest" and
    "x < dsx \<Longrightarrow> y < dh \<Longrightarrow> copy ! (y * dsx + x) =
      (if dx \<le> x \<and> x < dx + rx \<and> dy \<le> y \<and> y < dy + ry
       then src ! ((sy + (y - dy)) * ssx + (sx + (x - dx))) else dest ! (y * dsx + x))"
proof -
  consider "rx = 0 \<or> ry = 0" | "copy = fold (\<lambda>i. memcpy (dy * dsx + dx + i * dsx) src (sy * ssx + sx + i * ssx) rx) [0..<ry] dest"
  proof (cases "rx = 0 \<or> ry = 0")
    case False
    have "dy * dsx + dx < dsx * dh" using False fit(1,2) by (intro cell_index_less) simp_all
    moreover have "sy * ssx + sx < ssx * (sy + ry)" using False fit(4) by (intro cell_index_less) simp_all
    ultimately have "wrap32 (dy * dsx + dx) = dy * dsx + dx" "wrap32 (sy * ssx + sx) = sy * ssx + sx"
      using fit(3,5) small by (simp_all add: mult.commute)
    then show ?thesis by (intro that(2)) (simp add: copy_def copyMapRegion_def)
  qed (rule that(1))
  then have "length copy = length dest \<and> (\<forall>x < dsx. \<forall>y < dh. copy ! (y * dsx + x) =
      (if dx \<le> x \<and> x < dx + rx \<and> dy \<le> y \<and> y < dy + ry
       then src ! ((sy + (y - dy)) * ssx + (sx + (x - dx))) else dest ! (y * dsx + x)))"
  proof cases
    case 1
    then have "copy = dest" unfolding copy_def by (rule copyMapRegion_nothing)
    with 1 show ?thesis by auto
  next
    case 2
    show ?thesis unfolding 2 by (rule copy_rows [OF fit order_refl])
  qed
  then show "length copy = length dest" "x < dsx \<Longrightarrow> y < dh \<Longrightarrow> copy ! (y * dsx + x) =
      (if dx \<le> x \<and> x < dx + rx \<and> dy \<le> y \<and> y < dy + ry
       then src ! ((sy + (y - dy)) * ssx + (sx + (x - dx))) else dest ! (y * dsx + x))"
    by blast+
qed

section \<open>Cells and points\<close>

lemma to_uint_iff: "0 \<le> x \<Longrightarrow> to_uint x = n \<longleftrightarrow> real n \<le> x \<and> x < real n + 1"
  unfolding to_uint_def by (subst nat_eq_iff) (auto simp: floor_eq_iff)

lemma to_int_close: "\<bar>x - of_int (to_int x)\<bar> < 1"
  unfolding to_int_def by (auto simp: abs_if) linarith+

lemma cell_of_coord:
  fixes res origin w :: real
  assumes "0 < res" and "origin \<le> w"
  shows "to_uint ((w - origin) / res) = n \<longleftrightarrow> origin + real n * res \<le> w \<and> w < origin + (real n + 1) * res"
  using assms by (subst to_uint_iff) (auto simp: field_simps)

text \<open>The cell a point lies in: the half-open square of side \<open>resolution\<close> at the cell's corner.\<close>

definition cell_contains :: "Costmap2D \<Rightarrow> nat \<Rightarrow> nat \<Rightarrow> real \<Rightarrow> real \<Rightarrow> bool" where
  "cell_contains m mx my wx wy \<longleftrightarrow>
     cm_origin_x m + real mx * cm_resolution m \<le> wx \<and> wx < cm_origin_x m + (real mx + 1) * cm_resolution m \<and>
     cm_origin_y m + real my * cm_resolution m \<le> wy \<and> wy < cm_origin_y m + (real my + 1) * cm_resolution m"

lemma worldToMap_Some_iff:
  assumes "0 < cm_resolution m"
  shows "worldToMap m wx wy = Some (mx, my) \<longleftrightarrow> in_map m mx my \<and> cell_contains m mx my wx wy"
proof (cases "wx < cm_origin_x m \<or> wy < cm_origin_y m")
  case True
  have "0 \<le> real mx * cm_resolution m" "0 \<le> real my * cm_resolution m" using assms by simp_all
  with True show ?thesis by (auto simp: worldToMap_def cell_contains_def)
next
  case False
  then show ?thesis
    using cell_of_coord [OF assms, of "cm_origin_x m" wx mx] cell_of_coord [OF assms, of "cm_origin_y m" wy my]
    by (auto simp: worldToMap_def cell_contains_def Let_def)
qed

lemma mapToWorld_in_cell:
  "0 < cm_resolution m \<Longrightarrow> cell_contains m mx my (fst (mapToWorld m mx my)) (snd (mapToWorld m mx my))"
  by (simp add: cell_contains_def mapToWorld_def algebra_simps)

lemma cell_facts:
  assumes "wf_costmap m"
  shows "worldToMap m wx wy = Some (mx, my) \<longleftrightarrow> in_map m mx my \<and> cell_contains m mx my wx wy"
    and "worldToMap m wx wy = None \<longleftrightarrow> (\<forall>mx my. in_map m mx my \<longrightarrow> \<not> cell_contains m mx my wx wy)"
    and "in_map m mx my \<Longrightarrow> (case mapToWorld m mx my of (wx, wy) \<Rightarrow> worldToMap m wx wy) = Some (mx, my)"
    and "in_map m mx my \<Longrightarrow> indexToCells m (getIndex m mx my) = (mx, my)"
proof -
  have res: "0 < cm_resolution m" using assms by (simp add: wf_costmap_def)
  note cell = worldToMap_Some_iff [OF res]
  show "worldToMap m wx wy = Some (mx, my) \<longleftrightarrow> in_map m mx my \<and> cell_contains m mx my wx wy" by (rule cell)
  show "worldToMap m wx wy = None \<longleftrightarrow> (\<forall>mx my. in_map m mx my \<longrightarrow> \<not> cell_contains m mx my wx wy)"
    using cell by (metis not_None_eq surj_pair)
  show "in_map m mx my \<Longrightarrow> (case mapToWorld m mx my of (wx, wy) \<Rightarrow> worldToMap m wx wy) = Some (mx, my)"
    using mapToWorld_in_cell [OF res, of mx my] by (simp add: cell split_beta)
  show "in_map m mx my \<Longrightarrow> indexToCells m (getIndex m mx my) = (mx, my)"
    using assms by (rule indexToCells_getIndex)
qed

text \<open>
  C37: cells and world coordinates. \<open>worldToMap\<close> returns a cell exactly when that cell is in the map
  and contains the point, and fails exactly when no cell of the map contains it;
  \<open>mapToWorld\<close> followed by \<open>worldToMap\<close> gives the cell back; so does \<open>getIndex\<close> followed by
  \<open>indexToCells\<close>.
\<close>

theorem worldToMap_mapToWorld_roundtrip:
  assumes "wf_costmap m"
  shows "(\<forall>wx wy. case worldToMap m wx wy of
        Some (mx, my) \<Rightarrow> in_map m mx my \<and> cell_contains m mx my wx wy
      | None \<Rightarrow> \<forall>mx my. in_map m mx my \<longrightarrow> \<not> cell_contains m mx my wx wy) \<and>
    (\<forall>mx my. in_map m mx my \<longrightarrow>
      (case mapToWorld m mx my of (wx, wy) \<Rightarrow> worldToMap m wx wy) = Some (mx, my) \<and>
      indexToCells m (getIndex m mx my) = (mx, my))"
  using cell_facts [OF assms] by (simp split: option.split)

theorem worldToMap_mapToWorld_roundtrip_witness:
  "worldToMap (new_Costmap2D (\<lambda>i. 7) 2 3 (1 / 2) 1 1 0) (7 / 4) (9 / 4) = Some (1, 2)"
proof -
  have "wf_costmap (new_Costmap2D (\<lambda>i. 7) 2 3 (1 / 2) 1 1 0)"
    by (simp add: wf_costmap_def new_Costmap2D_def resetMaps_def initMaps_def memset_def)
  from worldToMap_mapToWorld_roundtrip [OF this, THEN conjunct2, rule_format, of 1 2] show ?thesis
    by (simp add: mapToWorld_def new_Costmap2D_def resetMaps_def initMaps_def)
qed

section \<open>Moving a map\<close>

lemma clamp_bounds: "0 \<le> n \<Longrightarrow> 0 \<le> clamp c n \<and> clamp c n \<le> n"
  by (simp add: clamp_def)

lemma resetMaps_cells:
  assumes "wf_costmap m"
  shows "length (cm_costmap (resetMaps m)) = length (cm_costmap m)"
    and "i < length (cm_costmap m) \<Longrightarrow> cm_costmap (resetMaps m) ! i = cm_default_value m"
  using assms by (simp_all add: resetMaps_def wf_costmap_def nth_memset)

lemma window_copy:
  assumes fit: "lx + wx \<le> sx" "ly + wy \<le> sy" "wx = 0 \<or> wy = 0 \<or> dx + wx \<le> sx \<and> dy + wy \<le> sy"
    and len: "length costs = sx * sy" "length blank = sx * sy" "length buf = wx * wy" and small: "sx * sy < 2 ^ 32"
  defines "copy \<equiv> copyMapRegion (copyMapRegion costs lx ly sx 0 0 wx wx wy buf) 0 0 wx dx dy sx wx wy blank"
  shows "length copy = sx * sy" and
    "x < sx \<Longrightarrow> y < sy \<Longrightarrow> copy ! (y * sx + x) =
      (if dx \<le> x \<and> x < dx + wx \<and> dy \<le> y \<and> y < dy + wy
       then costs ! ((ly + (y - dy)) * sx + (lx + (x - dx))) else blank ! (y * sx + x))"
proof -
  have area: "wx * wy < 2 ^ 32"
    by (rule le_less_trans [OF mult_le_mono small]) (use fit(1,2) in simp_all)
  have src: "(ly + wy) * sx \<le> length costs"
    using mult_le_mono1 [OF fit(2), of sx] len(1) by (simp add: mult.commute)
  let ?local = "copyMapRegion costs lx ly sx 0 0 wx wx wy buf"
  note copy1 = copyMapRegion_cells [of 0 wx wx 0 wy wy buf lx sx ly costs]
  have local: "length ?local = wx * wy" "\<And>x y. x < wx \<Longrightarrow> y < wy \<Longrightarrow>
      ?local ! (y * wx + x) = costs ! ((ly + y) * sx + (lx + x))"
    using copy1 fit(1) src area len small by simp_all
  have "length copy = sx * sy \<and> (x < sx \<longrightarrow> y < sy \<longrightarrow> copy ! (y * sx + x) =
      (if dx \<le> x \<and> x < dx + wx \<and> dy \<le> y \<and> y < dy + wy
       then costs ! ((ly + (y - dy)) * sx + (lx + (x - dx))) else blank ! (y * sx + x)))"
  proof (cases "wx = 0 \<or> wy = 0")
    case True
    then have "copy = blank" unfolding copy_def by (rule copyMapRegion_nothing)
    with True len(2) show ?thesis by auto
  next
    case False
    with fit(3) have fit': "dx + wx \<le> sx" "dy + wy \<le> sy" by blast+
    have lens: "length blank < 2 ^ 32" "length ?local < 2 ^ 32" "(0 + wy) * wx \<le> length ?local" "0 + wx \<le> wx"
      using area small len(2) local(1) by (simp_all add: mult.commute)
    note copy2 = copyMapRegion_cells [OF fit' len(2) lens(4,3,1,2), folded copy_def]
    show ?thesis
    proof (intro conjI impI)
      show "length copy = sx * sy" using copy2(1) len(2) by simp
      assume xy: "x < sx" "y < sy"
      show "copy ! (y * sx + x) = (if dx \<le> x \<and> x < dx + wx \<and> dy \<le> y \<and> y < dy + wy
        then costs ! ((ly + (y - dy)) * sx + (lx + (x - dx))) else blank ! (y * sx + x))"
      proof (cases "dx \<le> x \<and> x < dx + wx \<and> dy \<le> y \<and> y < dy + wy")
        case True
        then have "x - dx < wx" "y - dy < wy" by linarith+
        from copy2(2) [OF xy] local(2) [OF this] True show ?thesis by simp
      next
        case False
        with copy2(2) [OF xy] show ?thesis by (simp only: if_False)
      qed
    qed
  qed
  then show "length copy = sx * sy" "x < sx \<Longrightarrow> y < sy \<Longrightarrow> copy ! (y * sx + x) =
      (if dx \<le> x \<and> x < dx + wx \<and> dy \<le> y \<and> y < dy + wy
       then costs ! ((ly + (y - dy)) * sx + (lx + (x - dx))) else blank ! (y * sx + x))" by blast+
qed

text \<open>The overlap of the old and the new window along one axis.\<close>

lemma overlap:
  fixes c n :: int
  assumes "0 \<le> n"
  defines "l \<equiv> clamp c n" and "w \<equiv> nat (clamp (c + n) n - clamp c n)"
  shows "nat l + w \<le> nat n" and "w \<noteq> 0 \<Longrightarrow> nat (l - c) + w \<le> nat n"
    and "int x < n \<Longrightarrow> nat (l - c) \<le> x \<and> x < nat (l - c) + w \<longleftrightarrow> 0 \<le> int x + c \<and> int x + c < n"
    and "int x < n \<Longrightarrow> 0 \<le> int x + c \<Longrightarrow> int x + c < n \<Longrightarrow> nat (l - c) \<le> x \<Longrightarrow> nat l + (x - nat (l - c)) = nat (int x + c)"
  using assms(1) by (auto simp: l_def w_def clamp_def min_def max_def)

lemma updateOrigin_cells:
  fixes junk new_origin_x new_origin_y
  assumes wf: "wf_costmap m"
  defines "m' \<equiv> updateOrigin junk new_origin_x new_origin_y m"
    and "cx \<equiv> to_int ((new_origin_x - cm_origin_x m) / cm_resolution m)"
    and "cy \<equiv> to_int ((new_origin_y - cm_origin_y m) / cm_resolution m)"
  shows "wf_costmap m'" and "cm_size_x m' = cm_size_x m" and "cm_size_y m' = cm_size_y m"
    and "cm_resolution m' = cm_resolution m"
    and "cm_origin_x m' = cm_origin_x m + of_int cx * cm_resolution m"
    and "cm_origin_y m' = cm_origin_y m + of_int cy * cm_resolution m"
    and "in_map m x y \<Longrightarrow> getCost m' x y =
      (if 0 \<le> int x + cx \<and> int x + cx < int (cm_size_x m) \<and> 0 \<le> int y + cy \<and> int y + cy < int (cm_size_y m)
       then getCost m (nat (int x + cx)) (nat (int y + cy)) else cm_default_value m)"
proof -
  define sx sy where "sx = cm_size_x m" and "sy = cm_size_y m"
  define lx ly where "lx = clamp cx (int sx)" and "ly = clamp cy (int sy)"
  define wx wy where "wx = nat (clamp (cx + int sx) (int sx) - lx)" and "wy = nat (clamp (cy + int sy) (int sy) - ly)"
  define costs where "costs = copyMapRegion (copyMapRegion (cm_costmap m) (nat lx) (nat ly) sx 0 0 wx wx wy
      (map junk [0..<wrap32 (wx * wy)])) 0 0 wx (nat (lx - cx)) (nat (ly - cy)) sx wx wy (cm_costmap (resetMaps m))"
  have m': "m' = (resetMaps m)\<lparr>cm_origin_x := cm_origin_x m + of_int cx * cm_resolution m,
      cm_origin_y := cm_origin_y m + of_int cy * cm_resolution m, cm_costmap := costs\<rparr>"
    by (simp add: m'_def updateOrigin_def Let_def cx_def cy_def costs_def wx_def wy_def lx_def ly_def sx_def sy_def)
  have len: "length (cm_costmap m) = sx * sy" and small: "sx * sy < 2 ^ 32"
    using wf by (simp_all add: wf_costmap_def sx_def sy_def)
  note ox = overlap [where n = "int sx" and c = cx, folded lx_def, folded wx_def, simplified]
    and oy = overlap [where n = "int sy" and c = cy, folded ly_def, folded wy_def, simplified]
  have area: "wx * wy < 2 ^ 32"
    by (rule le_less_trans [OF mult_le_mono small]) (use ox(1) oy(1) in simp_all)
  have fit: "wx = 0 \<or> wy = 0 \<or> nat (lx - cx) + wx \<le> sx \<and> nat (ly - cy) + wy \<le> sy" using ox(2) oy(2) by blast
  have blank: "length (cm_costmap (resetMaps m)) = sx * sy" using resetMaps_cells(1) [OF wf] len by simp
  have buf: "length (map junk [0..<wrap32 (wx * wy)]) = wx * wy" using area by simp
  note costs = window_copy [OF ox(1) oy(1) fit len blank buf small, folded costs_def]
  show wf': "wf_costmap m'"
    using wf costs(1) by (simp add: m' wf_costmap_def resetMaps_def sx_def sy_def)
  show sizes: "cm_size_x m' = cm_size_x m" "cm_size_y m' = cm_size_y m" "cm_resolution m' = cm_resolution m"
    "cm_origin_x m' = cm_origin_x m + of_int cx * cm_resolution m" "cm_origin_y m' = cm_origin_y m + of_int cy * cm_resolution m"
    by (simp_all add: m' resetMaps_def)
  assume xy: "in_map m x y"
  then have xy': "x < sx" "y < sy" by (simp_all add: sx_def sy_def)
  have "getCost m' x y = costs ! (y * sx + x)"
    using getIndex_in_map(1) [OF wf', of x y] xy sizes(1,2) by (simp add: getCost_def) (simp add: m' sx_def)
  also have "\<dots> = (if (0 \<le> int x + cx \<and> int x + cx < int sx) \<and> 0 \<le> int y + cy \<and> int y + cy < int sy
       then cm_costmap m ! (nat (int y + cy) * sx + nat (int x + cx)) else cm_default_value m)"
  proof (cases "(0 \<le> int x + cx \<and> int x + cx < int sx) \<and> 0 \<le> int y + cy \<and> int y + cy < int sy")
    case True
    then have win: "nat (lx - cx) \<le> x \<and> x < nat (lx - cx) + wx \<and> nat (ly - cy) \<le> y \<and> y < nat (ly - cy) + wy"
      using ox(3) [OF xy'(1)] oy(3) [OF xy'(2)] by blast
    with True have "nat lx + (x - nat (lx - cx)) = nat (int x + cx)" "nat ly + (y - nat (ly - cy)) = nat (int y + cy)"
      using ox(4) [OF xy'(1)] oy(4) [OF xy'(2)] by blast+
    with costs(2) [OF xy'] win True show ?thesis by simp
  next
    case False
    then have "\<not> (nat (lx - cx) \<le> x \<and> x < nat (lx - cx) + wx \<and> nat (ly - cy) \<le> y \<and> y < nat (ly - cy) + wy)"
      using ox(3) [OF xy'(1)] oy(3) [OF xy'(2)] by blast
    with costs(2) [OF xy'] have "costs ! (y * sx + x) = cm_costmap (resetMaps m) ! (y * sx + x)" by (simp only: if_False)
    also have "\<dots> = cm_default_value m"
      using resetMaps_cells(2) [OF wf] cell_index_less [OF xy'] len by simp
    finally show ?thesis using False by (simp only: if_False)
  qed
  finally show "getCost m' x y =
      (if 0 \<le> int x + cx \<and> int x + cx < int (cm_size_x m) \<and> 0 \<le> int y + cy \<and> int y + cy < int (cm_size_y m)
       then getCost m (nat (int x + cx)) (nat (int y + cy)) else cm_default_value m)"
    using getIndex_in_map(1) [OF wf, of "nat (int x + cx)" "nat (int y + cy)"]
    by (auto simp: getCost_def sx_def sy_def nat_less_iff)
qed

lemma updateOrigin_facts:
  fixes junk new_origin_x new_origin_y
  assumes wf: "wf_costmap m"
  defines "m' \<equiv> updateOrigin junk new_origin_x new_origin_y m"
  shows "wf_costmap m'" and "cm_size_x m' = cm_size_x m" and "cm_size_y m' = cm_size_y m"
    and "\<bar>new_origin_x - cm_origin_x m'\<bar> < cm_resolution m" and "\<bar>new_origin_y - cm_origin_y m'\<bar> < cm_resolution m"
    and "in_map m x y \<Longrightarrow> in_map m x' y' \<Longrightarrow> mapToWorld m' x y = mapToWorld m x' y' \<Longrightarrow> getCost m' x y = getCost m x' y'"
    and "in_map m x y \<Longrightarrow> (\<forall>x' y'. in_map m x' y' \<longrightarrow> mapToWorld m' x y \<noteq> mapToWorld m x' y') \<Longrightarrow>
      getCost m' x y = cm_default_value m"
proof -
  let ?cx = "to_int ((new_origin_x - cm_origin_x m) / cm_resolution m)"
  let ?cy = "to_int ((new_origin_y - cm_origin_y m) / cm_resolution m)"
  note cells = updateOrigin_cells [OF wf, where junk = junk and new_origin_x = new_origin_x and new_origin_y = new_origin_y, folded m'_def]
  have res: "0 < cm_resolution m" using wf by (simp add: wf_costmap_def)
  show "wf_costmap m'" "cm_size_x m' = cm_size_x m" "cm_size_y m' = cm_size_y m" by (fact cells(1-3))+
  have close: "\<bar>w - (origin + of_int (to_int ((w - origin) / cm_resolution m)) * cm_resolution m)\<bar> < cm_resolution m" for w origin
    using to_int_close [of "(w - origin) / cm_resolution m"] res by (auto simp: abs_if field_simps split: if_splits)
  show "\<bar>new_origin_x - cm_origin_x m'\<bar> < cm_resolution m" "\<bar>new_origin_y - cm_origin_y m'\<bar> < cm_resolution m"
    unfolding cells(5,6) by (rule close)+
  have same: "mapToWorld m' x y = mapToWorld m x' y' \<longleftrightarrow> int x + ?cx = int x' \<and> int y + ?cy = int y'" for x y x' y'
  proof -
    have "mapToWorld m' x y = mapToWorld m x' y' \<longleftrightarrow>
        real x * cm_resolution m + of_int ?cx * cm_resolution m = real x' * cm_resolution m \<and>
        real y * cm_resolution m + of_int ?cy * cm_resolution m = real y' * cm_resolution m"
      by (auto simp: mapToWorld_def cells(4-6) algebra_simps)
    also have "\<dots> \<longleftrightarrow> real x + of_int ?cx = real x' \<and> real y + of_int ?cy = real y'"
      using res by (simp flip: distrib_right)
    finally show ?thesis by linarith
  qed
  show "in_map m x y \<Longrightarrow> in_map m x' y' \<Longrightarrow> mapToWorld m' x y = mapToWorld m x' y' \<Longrightarrow> getCost m' x y = getCost m x' y'"
    using cells(7) [of x y] same by simp
  show "getCost m' x y = cm_default_value m"
    if xy: "in_map m x y" and out: "\<forall>x' y'. in_map m x' y' \<longrightarrow> mapToWorld m' x y \<noteq> mapToWorld m x' y'"
  proof -
    have "\<not> (0 \<le> int x + ?cx \<and> int x + ?cx < int (cm_size_x m) \<and> 0 \<le> int y + ?cy \<and> int y + ?cy < int (cm_size_y m))"
    proof
      assume "0 \<le> int x + ?cx \<and> int x + ?cx < int (cm_size_x m) \<and> 0 \<le> int y + ?cy \<and> int y + ?cy < int (cm_size_y m)"
      then have "in_map m (nat (int x + ?cx)) (nat (int y + ?cy))"
        "mapToWorld m' x y = mapToWorld m (nat (int x + ?cx)) (nat (int y + ?cy))" by (auto simp: same)
      with out show False by blast
    qed
    then show ?thesis using cells(7) [OF xy] by presburger
  qed
qed

text \<open>
  C36: \<open>updateOrigin\<close> moves the window by whole cells, to less than a cell from the origin asked for.
  A cell of the new window shows the cost the same place had before, when it was in the old window,
  and the default value otherwise.
\<close>

theorem updateOrigin_keeps_overlap:
  assumes "wf_costmap m"
  shows "let m' = updateOrigin junk new_origin_x new_origin_y m in
    wf_costmap m' \<and> cm_size_x m' = cm_size_x m \<and> cm_size_y m' = cm_size_y m \<and>
    \<bar>new_origin_x - cm_origin_x m'\<bar> < cm_resolution m \<and> \<bar>new_origin_y - cm_origin_y m'\<bar> < cm_resolution m \<and>
    (\<forall>x y. in_map m x y \<longrightarrow>
       (\<forall>x' y'. in_map m x' y' \<longrightarrow> mapToWorld m' x y = mapToWorld m x' y' \<longrightarrow> getCost m' x y = getCost m x' y') \<and>
       ((\<forall>x' y'. in_map m x' y' \<longrightarrow> mapToWorld m' x y \<noteq> mapToWorld m x' y') \<longrightarrow> getCost m' x y = cm_default_value m))"
  unfolding Let_def by (intro conjI allI impI updateOrigin_facts [OF assms]) auto

lemma wf_new_Costmap2D:
  assumes "sx * sy < 2 ^ 32" and "0 < res"
  shows "wf_costmap (new_Costmap2D junk sx sy res ox oy v)"
  using assms by (simp add: wf_costmap_def new_Costmap2D_def resetMaps_def initMaps_def memset_def)

lemma new_Costmap2D_params [simp]:
  "cm_size_x (new_Costmap2D junk sx sy res ox oy v) = sx" "cm_size_y (new_Costmap2D junk sx sy res ox oy v) = sy"
  "cm_resolution (new_Costmap2D junk sx sy res ox oy v) = res" "cm_origin_x (new_Costmap2D junk sx sy res ox oy v) = ox"
  "cm_origin_y (new_Costmap2D junk sx sy res ox oy v) = oy" "cm_default_value (new_Costmap2D junk sx sy res ox oy v) = v"
  by (simp_all add: new_Costmap2D_def resetMaps_def initMaps_def)

lemma getCost_new_Costmap2D:
  assumes "sx * sy < 2 ^ 32" and "0 < res" and "x < sx" and "y < sy"
  shows "getCost (new_Costmap2D junk sx sy res ox oy v) x y = v"
proof -
  let ?m = "new_Costmap2D junk sx sy res ox oy v"
  have wf: "wf_costmap ?m" by (rule wf_new_Costmap2D [OF assms(1,2)])
  then have "getIndex ?m x y < sx * sy"
    using getIndex_in_map(2) [OF wf, of x y] assms(3,4) by (simp add: wf_costmap_def)
  then show ?thesis
    using assms(1) unfolding getCost_def
    by (simp add: new_Costmap2D_def resetMaps_def initMaps_def memset_def)
qed

theorem updateOrigin_keeps_overlap_witness:
  "getCost (updateOrigin (\<lambda>i. 7) (7 / 4) 1 (setCost 1 0 99 (new_Costmap2D (\<lambda>i. 7) 2 1 (1 / 2) 1 1 0))) 0 0 = 99"
proof -
  let ?m = "setCost 1 0 99 (new_Costmap2D (\<lambda>i. 7) 2 1 (1 / 2) 1 1 0)"
  have wf0: "wf_costmap (new_Costmap2D (\<lambda>i. 7) 2 1 (1 / 2) 1 1 0)" by (rule wf_new_Costmap2D) simp_all
  then have wf: "wf_costmap ?m" by simp
  have ends: "\<lfloor>3 / 2 :: real\<rfloor> = 1" by (simp add: floor_eq_iff)
  have "mapToWorld (updateOrigin (\<lambda>i. 7) (7 / 4) 1 ?m) 0 0 = mapToWorld ?m 1 0"
    using updateOrigin_cells(4-6) [OF wf, where junk = "\<lambda>i. 7" and new_origin_x = "7 / 4" and new_origin_y = 1]
    by (simp add: mapToWorld_def to_int_def ends)
  then have "getCost (updateOrigin (\<lambda>i. 7) (7 / 4) 1 ?m) 0 0 = getCost ?m 1 0"
    using updateOrigin_keeps_overlap [OF wf, of "\<lambda>i. 7" "7 / 4" 1] unfolding Let_def by force
  also have "\<dots> = 99" using getCost_setCost [OF wf0, of 1 0 1 0] by simp
  finally show ?thesis .
qed

end
