(* ===== verification/Clearance_Server.thy ===== *)
theory Clearance_Server
  imports Topomap_Types Costmap
begin

text \<open>
  \<open>navbim_gpp_bim/clearance_server.cpp\<close>: the distance of a path to the obstacles of the floors it
  runs on. \<open>calculateClearanceAtPose\<close> searches the rings of cells around a pose;
  \<open>calculatePathClearance\<close> is the service. The costmaps of the floors are a table from floor names,
  as \<open>getCostmapForFloor\<close> of the multi-costmap node answers; logging is left out.
\<close>

section \<open>Clearance at a pose\<close>

definition hypot :: "real \<Rightarrow> real \<Rightarrow> real" where
  "hypot a b = sqrt (a * a + b * b)"

definition dmin :: "double \<Rightarrow> double \<Rightarrow> double" where
  "dmin a b = (if dlt b a then b else a)"

definition ring_cell :: "Costmap2D \<Rightarrow> real \<Rightarrow> real \<Rightarrow> nat \<Rightarrow> nat \<Rightarrow> int \<Rightarrow> int \<Rightarrow> int \<Rightarrow> double \<Rightarrow> double" where
  "ring_cell m x y mx my radius dx dy min_dist =
     (if \<bar>dx\<bar> \<noteq> radius \<and> \<bar>dy\<bar> \<noteq> radius then min_dist
      else
        let cx = int mx + dx; cy = int my + dy
        in if cx < 0 \<or> cy < 0 \<or> int (cm_size_x m) \<le> cx \<or> int (cm_size_y m) \<le> cy
           then
             let cell_x = (of_int cx + 1 / 2) * cm_resolution m + cm_origin_x m;
                 cell_y = (of_int cy + 1 / 2) * cm_resolution m + cm_origin_y m
             in dmin min_dist (Fin (hypot (x - cell_x) (y - cell_y)))
           else if getCost m (nat cx) (nat cy) = LETHAL_OBSTACLE
           then
             let (obs_x, obs_y) = mapToWorld m (nat cx) (nat cy)
             in dmin min_dist (Fin (hypot (x - obs_x) (y - obs_y)))
           else min_dist)"

definition ring :: "Costmap2D \<Rightarrow> real \<Rightarrow> real \<Rightarrow> nat \<Rightarrow> nat \<Rightarrow> int \<Rightarrow> double \<Rightarrow> double" where
  "ring m x y mx my radius =
     fold (\<lambda>dx. fold (\<lambda>dy. ring_cell m x y mx my radius dx dy) [- radius..radius]) [- radius..radius]"

function search_rings :: "Costmap2D \<Rightarrow> real \<Rightarrow> real \<Rightarrow> nat \<Rightarrow> nat \<Rightarrow> int \<Rightarrow> int \<Rightarrow> double \<Rightarrow> double" where
  "search_rings m x y mx my max_search_radius radius min_dist =
     (if max_search_radius < radius then min_dist
      else
        let min_dist' = ring m x y mx my radius min_dist
        in if dlt min_dist' (Fin (of_int (radius - 1) * cm_resolution m)) then min_dist'
           else search_rings m x y mx my max_search_radius (radius + 1) min_dist')"
  by pat_completeness auto

termination
  by (relation "measure (\<lambda>(m, x, y, mx, my, max_search_radius, radius, min_dist). nat (max_search_radius + 1 - radius))") auto

declare search_rings.simps [simp del]

definition calculateClearanceAtPose :: "Costmap2D \<Rightarrow> real \<Rightarrow> real \<Rightarrow> real" where
  "calculateClearanceAtPose m x y =
     (case worldToMap m x y of
        None \<Rightarrow> - 1
      | Some (mx, my) \<Rightarrow>
          if getCost m mx my = LETHAL_OBSTACLE then 0
          else case search_rings m x y mx my \<lceil>10 / cm_resolution m\<rceil> 1 PosInf of
                 Fin min_dist \<Rightarrow> min_dist
               | _ \<Rightarrow> 10)"

section \<open>The service\<close>

record clearance_request =
  cq_path :: path_msg
  cq_floor_names :: "string list"
  cq_segment_start_indices :: "32 word list"
  cq_segment_end_indices :: "32 word list"

record clearance_response =
  cr_success :: bool
  cr_message :: string
  cr_min_clearance :: double
  cr_avg_clearance :: double

definition clearance_response_init :: clearance_response where
  "clearance_response_init = \<lparr>cr_success = False, cr_message = [], cr_min_clearance = Fin 0, cr_avg_clearance = Fin 0\<rparr>"

text \<open>The valid clearances of a segment, appended to the list; false if there is none.\<close>

definition calculateSegmentClearance ::
  "path_msg \<Rightarrow> nat \<Rightarrow> nat \<Rightarrow> Costmap2D \<Rightarrow> (nat \<times> real) list \<Rightarrow> bool \<times> (nat \<times> real) list" where
  "calculateSegmentClearance path start_idx end_idx m clearances =
     (case fold (\<lambda>i (clearances, valid_clearance_count).
          let p = ps_position (path_poses path ! i);
              clearance = calculateClearanceAtPose m (pos_x p) (pos_y p)
          in if 0 \<le> clearance then (clearances @ [(i, clearance)], valid_clearance_count + 1)
             else (clearances, valid_clearance_count))
        [start_idx..<end_idx + 1] (clearances, 0 :: nat) of
      (clearances', valid_clearance_count) \<Rightarrow> (valid_clearance_count \<noteq> 0, clearances'))"

definition word_to_string :: "32 word \<Rightarrow> string" where
  "word_to_string w = to_string (int (unat w))"

fun validate_segments :: "nat \<Rightarrow> (32 word \<times> 32 word) list \<Rightarrow> string option" where
  "validate_segments path_size [] = None"
| "validate_segments path_size ((start_index, end_index) # segments) =
     (if path_size \<le> unat start_index \<or> path_size \<le> unat end_index
      then Some (''Segment indices out of bounds: ['' @ word_to_string start_index @ '', '' @ word_to_string end_index @
             ''] for path size '' @ to_string (int path_size))
      else if end_index < start_index
      then Some (''Invalid segment: start_index ('' @ word_to_string start_index @ '') > end_index ('' @
             word_to_string end_index @ '')'')
      else validate_segments path_size segments)"

fun segment_clearances ::
  "(string \<Rightarrow> Costmap2D option) \<Rightarrow> path_msg \<Rightarrow> nat \<Rightarrow> (string \<times> 32 word \<times> 32 word) list \<Rightarrow> (nat \<times> real) list \<Rightarrow>
     string + (nat \<times> real) list" where
  "segment_clearances floors path i [] clearances = Inr clearances"
| "segment_clearances floors path i ((floor_name, start_index, end_index) # segments) clearances =
     (case floors floor_name of
        None \<Rightarrow> Inl (''Failed to get costmap for floor: '' @ floor_name)
      | Some m \<Rightarrow>
          (case calculateSegmentClearance path (unat start_index) (unat end_index) m clearances of
             (False, clearances') \<Rightarrow>
               Inl (''Failed to calculate clearance for segment '' @ to_string (int i) @ '' (floor: '' @ floor_name @
                 '', indices: '' @ word_to_string start_index @ ''-'' @ word_to_string end_index @ '')'')
           | (True, clearances') \<Rightarrow> segment_clearances floors path (i + 1) segments clearances'))"

definition calculatePathClearance :: "(string \<Rightarrow> Costmap2D option) \<Rightarrow> clearance_request \<Rightarrow> clearance_response" where
  "calculatePathClearance floors request =
     (let failed = (\<lambda>msg. clearance_response_init\<lparr>cr_message := msg\<rparr>);
          names = cq_floor_names request; starts = cq_segment_start_indices request; ends = cq_segment_end_indices request
      in if path_poses (cq_path request) = [] then failed ''Empty path provided''
         else if names = [] then failed ''No floor segments provided''
         else if length names \<noteq> length starts \<or> length names \<noteq> length ends
         then failed ''Floor segment arrays have mismatched sizes''
         else case validate_segments (length (path_poses (cq_path request))) (zip starts ends) of
           Some msg \<Rightarrow> failed msg
         | None \<Rightarrow>
             (case segment_clearances floors (cq_path request) 0 (zip names (zip starts ends)) [] of
                Inl msg \<Rightarrow> failed msg
              | Inr clearances \<Rightarrow>
                  if clearances = [] then failed ''No valid clearances calculated for the path''
                  else
                    \<lparr>cr_success = True, cr_message = ''Clearance calculation successful'',
                     cr_min_clearance = foldl (\<lambda>d t. dmin d (Fin (snd t))) PosInf clearances,
                     cr_avg_clearance = Fin (foldl (\<lambda>s t. s + snd t) 0 clearances / real (length clearances))\<rparr>))"

section \<open>The nearest obstacle\<close>

text \<open>
  A cell counts as an obstacle when it is lethal or outside the map. Its distance is that of its
  centre.
\<close>

definition blocked :: "Costmap2D \<Rightarrow> int \<Rightarrow> int \<Rightarrow> bool" where
  "blocked m cx cy \<longleftrightarrow> cx < 0 \<or> cy < 0 \<or> int (cm_size_x m) \<le> cx \<or> int (cm_size_y m) \<le> cy \<or>
     getCost m (nat cx) (nat cy) = LETHAL_OBSTACLE"

definition cell_dist :: "Costmap2D \<Rightarrow> real \<Rightarrow> real \<Rightarrow> int \<Rightarrow> int \<Rightarrow> real" where
  "cell_dist m x y cx cy =
     hypot (x - ((of_int cx + 1 / 2) * cm_resolution m + cm_origin_x m)) (y - ((of_int cy + 1 / 2) * cm_resolution m + cm_origin_y m))"

lemma hypot_ge: "\<bar>a\<bar> \<le> hypot a b" "\<bar>b\<bar> \<le> hypot a b"
  unfolding hypot_def by (rule real_le_rsqrt, simp add: power2_eq_square)+

lemma ring_cell_eq:
  "ring_cell m x y mx my radius dx dy min_dist =
     (if (\<bar>dx\<bar> = radius \<or> \<bar>dy\<bar> = radius) \<and> blocked m (int mx + dx) (int my + dy)
      then dmin min_dist (Fin (cell_dist m x y (int mx + dx) (int my + dy))) else min_dist)"
proof (cases "int mx + dx < 0 \<or> int my + dy < 0 \<or> int (cm_size_x m) \<le> int mx + dx \<or> int (cm_size_y m) \<le> int my + dy")
  case True
  then show ?thesis by (simp add: ring_cell_def blocked_def cell_dist_def)
next
  case False
  then have "real (nat (int mx + dx)) = of_int (int mx + dx)" "real (nat (int my + dy)) = of_int (int my + dy)" by simp_all
  with False show ?thesis
    by (simp add: ring_cell_def blocked_def cell_dist_def mapToWorld_def Let_def add.commute)
qed

text \<open>\<open>d\<close> is the least distance of the obstacles among the cells \<open>P\<close>, or infinite if there is none.\<close>

definition nearest :: "Costmap2D \<Rightarrow> real \<Rightarrow> real \<Rightarrow> (int \<Rightarrow> int \<Rightarrow> bool) \<Rightarrow> double \<Rightarrow> bool" where
  "nearest m x y P d \<longleftrightarrow>
     (case d of
        Fin r \<Rightarrow> (\<exists>cx cy. P cx cy \<and> blocked m cx cy \<and> r = cell_dist m x y cx cy) \<and>
                 (\<forall>cx cy. P cx cy \<and> blocked m cx cy \<longrightarrow> r \<le> cell_dist m x y cx cy)
      | PosInf \<Rightarrow> \<forall>cx cy. P cx cy \<longrightarrow> \<not> blocked m cx cy
      | _ \<Rightarrow> False)"

lemma nearest_insert:
  assumes "nearest m x y P d"
  shows "nearest m x y (\<lambda>cx cy. P cx cy \<or> cx = ax \<and> cy = ay)
    (if blocked m ax ay then dmin d (Fin (cell_dist m x y ax ay)) else d)"
  using assms unfolding nearest_def dmin_def
  by (cases d) (auto split: if_splits intro: order_trans [OF less_imp_le])

lemma nearest_cong: "(\<And>cx cy. P cx cy \<longleftrightarrow> Q cx cy) \<Longrightarrow> nearest m x y P d \<Longrightarrow> nearest m x y Q d"
  unfolding nearest_def by presburger

lemma nearest_row:
  assumes "nearest m x y P d"
  shows "nearest m x y (\<lambda>cx cy. P cx cy \<or> cx = int mx + dx \<and> (\<exists>dy \<in> set ys. (\<bar>dx\<bar> = r \<or> \<bar>dy\<bar> = r) \<and> cy = int my + dy))
    (fold (ring_cell m x y mx my r dx) ys d)"
  using assms
proof (induction ys arbitrary: P d)
  case (Cons dy ys)
  let ?P = "\<lambda>cx cy. P cx cy \<or> (\<bar>dx\<bar> = r \<or> \<bar>dy\<bar> = r) \<and> cx = int mx + dx \<and> cy = int my + dy"
  have "nearest m x y ?P (ring_cell m x y mx my r dx dy d)"
  proof (cases "\<bar>dx\<bar> = r \<or> \<bar>dy\<bar> = r")
    case True
    with nearest_insert [OF Cons.prems, of "int mx + dx" "int my + dy"] show ?thesis by (simp add: ring_cell_eq)
  next
    case False
    with Cons.prems show ?thesis by (simp add: ring_cell_eq)
  qed
  note ih = Cons.IH [OF this]
  show ?case unfolding fold_simps(2) by (rule nearest_cong [OF _ ih]) auto
qed simp

lemma nearest_rows:
  assumes "nearest m x y P d"
  shows "nearest m x y (\<lambda>cx cy. P cx cy \<or> (\<exists>dx \<in> set xs. \<exists>dy \<in> set ys. (\<bar>dx\<bar> = r \<or> \<bar>dy\<bar> = r) \<and> cx = int mx + dx \<and> cy = int my + dy))
    (fold (\<lambda>dx. fold (ring_cell m x y mx my r dx) ys) xs d)"
  using assms
proof (induction xs arbitrary: P d)
  case (Cons dx xs)
  note ih = Cons.IH [OF nearest_row [OF Cons.prems, of mx dx ys r my]]
  show ?case unfolding fold_simps(2) by (rule nearest_cong [OF _ ih]) auto
qed simp

text \<open>The cells at most \<open>r\<close> columns and rows away, the cell of the pose apart.\<close>

definition within_rings :: "nat \<Rightarrow> nat \<Rightarrow> int \<Rightarrow> int \<Rightarrow> int \<Rightarrow> bool" where
  "within_rings mx my r cx cy \<longleftrightarrow> 1 \<le> max \<bar>cx - int mx\<bar> \<bar>cy - int my\<bar> \<and> max \<bar>cx - int mx\<bar> \<bar>cy - int my\<bar> \<le> r"

lemma nearest_ring:
  assumes "nearest m x y (within_rings mx my (r - 1)) d" and "1 \<le> r"
  shows "nearest m x y (within_rings mx my r) (ring m x y mx my r d)"
proof -
  have grow: "within_rings mx my r cx cy \<longleftrightarrow> within_rings mx my (r - 1) cx cy \<or>
      (\<exists>dx \<in> set [- r..r]. \<exists>dy \<in> set [- r..r]. (\<bar>dx\<bar> = r \<or> \<bar>dy\<bar> = r) \<and> cx = int mx + dx \<and> cy = int my + dy)" for cx cy
  proof
    assume "within_rings mx my r cx cy"
    then have "within_rings mx my (r - 1) cx cy \<or> (\<bar>cx - int mx\<bar> = r \<or> \<bar>cy - int my\<bar> = r) \<and>
        cx - int mx \<in> set [- r..r] \<and> cy - int my \<in> set [- r..r]"
      by (auto simp: within_rings_def)
    then show "within_rings mx my (r - 1) cx cy \<or>
      (\<exists>dx \<in> set [- r..r]. \<exists>dy \<in> set [- r..r]. (\<bar>dx\<bar> = r \<or> \<bar>dy\<bar> = r) \<and> cx = int mx + dx \<and> cy = int my + dy)"
      by (metis add_diff_cancel_left' diff_add_cancel add.commute)
  qed (use assms(2) in \<open>auto simp: within_rings_def\<close>)
  show ?thesis unfolding ring_def
    by (rule nearest_cong [OF _ nearest_rows [OF assms(1), where xs = "[- r..r]" and ys = "[- r..r]" and r = r and mx = mx and my = my]])
      (simp only: grow)
qed

lemma far_cell:
  assumes "0 < cm_resolution m" and "cell_contains m mx my x y"
  shows "(of_int (max \<bar>cx - int mx\<bar> \<bar>cy - int my\<bar>) - 1 / 2) * cm_resolution m \<le> cell_dist m x y cx cy"
proof -
  have axis: "(of_int \<bar>c - int k\<bar> - 1 / 2) * res \<le> \<bar>w - ((of_int c + 1 / 2) * res + origin)\<bar>"
    if "0 < res" "origin + real k * res \<le> w" "w < origin + (real k + 1) * res" for c :: int and k :: nat and res w origin :: real
  proof (cases "int k \<le> c")
    case True
    then have "(of_int \<bar>c - int k\<bar> - 1 / 2) * res = (of_int c + 1 / 2) * res + origin - (origin + (real k + 1) * res)"
      by (simp add: algebra_simps)
    with that show ?thesis by linarith
  next
    case False
    then have "(of_int \<bar>c - int k\<bar> - 1 / 2) * res = origin + real k * res - ((of_int c + 1 / 2) * res + origin)"
      by (simp add: algebra_simps)
    with that show ?thesis by linarith
  qed
  have x: "(of_int \<bar>cx - int mx\<bar> - 1 / 2) * cm_resolution m \<le> cell_dist m x y cx cy"
    unfolding cell_dist_def by (rule order_trans [OF axis hypot_ge(1)]) (use assms in \<open>auto simp: cell_contains_def\<close>)
  have y: "(of_int \<bar>cy - int my\<bar> - 1 / 2) * cm_resolution m \<le> cell_dist m x y cx cy"
    unfolding cell_dist_def by (rule order_trans [OF axis hypot_ge(2)]) (use assms in \<open>auto simp: cell_contains_def\<close>)
  show ?thesis using x y by (simp add: max_def)
qed

text \<open>
  The search finds the nearest obstacle of the rings it may visit. When it stops early, no obstacle
  anywhere is nearer.
\<close>

lemma search_rings_nearest:
  assumes "0 < cm_resolution m" and "cell_contains m mx my x y"
    and "nearest m x y (within_rings mx my (r - 1)) d" and "1 \<le> r" and "r \<le> max_r + 1"
  shows "nearest m x y (within_rings mx my max_r) (search_rings m x y mx my max_r r d)"
  using assms(3-5)
proof (induction "nat (max_r + 1 - r)" arbitrary: r d)
  case 0
  then have "r = max_r + 1" by simp
  with 0 show ?case by (subst search_rings.simps) simp
next
  case (Suc n)
  let ?d = "ring m x y mx my r d"
  have r: "\<not> max_r < r" using Suc.hyps(2) by linarith
  have ring: "nearest m x y (within_rings mx my r) ?d" by (rule nearest_ring) (use Suc.prems in simp_all)
  show ?case
  proof (cases "dlt ?d (Fin (of_int (r - 1) * cm_resolution m))")
    case True
    then obtain q where q: "?d = Fin q" "q < of_int (r - 1) * cm_resolution m"
      using ring by (cases ?d) (auto simp: nearest_def)
    have "q \<le> cell_dist m x y cx cy" if "within_rings mx my max_r cx cy" "blocked m cx cy" for cx cy
    proof (cases "within_rings mx my r cx cy")
      case True
      with ring q(1) that(2) show ?thesis by (auto simp: nearest_def)
    next
      case False
      with that(1) have "r + 1 \<le> max \<bar>cx - int mx\<bar> \<bar>cy - int my\<bar>" unfolding within_rings_def by linarith
      then have "of_int (r - 1) * cm_resolution m \<le> (of_int (max \<bar>cx - int mx\<bar> \<bar>cy - int my\<bar>) - 1 / 2) * cm_resolution m"
        using assms(1) by (intro mult_right_mono) linarith+
      with far_cell [OF assms(1,2), of cx cy] q(2) show ?thesis by linarith
    qed
    moreover have "\<exists>cx cy. within_rings mx my max_r cx cy \<and> blocked m cx cy \<and> q = cell_dist m x y cx cy"
      using ring q(1) Suc.hyps(2) by (fastforce simp: nearest_def within_rings_def)
    ultimately have "nearest m x y (within_rings mx my max_r) (Fin q)" by (simp add: nearest_def)
    with True q(1) r show ?thesis by (subst search_rings.simps) (simp add: Let_def)
  next
    case False
    have "nearest m x y (within_rings mx my max_r) (search_rings m x y mx my max_r (r + 1) ?d)"
      by (rule Suc.hyps(1)) (use Suc.hyps(2) Suc.prems ring in simp_all)
    with False r show ?thesis by (subst search_rings.simps) (simp add: Let_def)
  qed
qed

lemma clearance_facts:
  assumes "wf_costmap m"
  shows "calculateClearanceAtPose m x y = - 1 \<longleftrightarrow> worldToMap m x y = None"
    and "worldToMap m x y = Some (mx, my) \<Longrightarrow> getCost m mx my = LETHAL_OBSTACLE \<Longrightarrow> calculateClearanceAtPose m x y = 0"
    and "worldToMap m x y = Some (mx, my) \<Longrightarrow> getCost m mx my \<noteq> LETHAL_OBSTACLE \<Longrightarrow>
      0 < calculateClearanceAtPose m x y \<and>
      (calculateClearanceAtPose m x y = 10 \<or> (\<exists>cx cy. blocked m cx cy \<and> calculateClearanceAtPose m x y = cell_dist m x y cx cy)) \<and>
      (\<forall>cx cy. blocked m cx cy \<longrightarrow> min (calculateClearanceAtPose m x y) 10 \<le> cell_dist m x y cx cy)"
proof -
  let ?c = "calculateClearanceAtPose m x y"
  have res: "0 < cm_resolution m" using assms by (simp add: wf_costmap_def)
  have free: "0 < ?c \<and> (?c = 10 \<or> (\<exists>cx cy. blocked m cx cy \<and> ?c = cell_dist m x y cx cy)) \<and>
      (\<forall>cx cy. blocked m cx cy \<longrightarrow> min ?c 10 \<le> cell_dist m x y cx cy)"
    if map: "worldToMap m x y = Some (mx, my)" and own: "getCost m mx my \<noteq> LETHAL_OBSTACLE" for mx my
  proof -
    let ?R = "\<lceil>10 / cm_resolution m\<rceil>" and ?d = "search_rings m x y mx my \<lceil>10 / cm_resolution m\<rceil> 1 PosInf"
    have cell: "in_map m mx my" "cell_contains m mx my x y" using map worldToMap_Some_iff [OF res] by blast+
    have "10 / cm_resolution m * cm_resolution m \<le> of_int ?R * cm_resolution m"
      using res by (intro mult_right_mono le_of_int_ceiling) simp
    then have R1: "10 \<le> of_int ?R * cm_resolution m" using res by simp
    have "0 < 10 / cm_resolution m" using res by simp
    then have R2: "1 \<le> ?R" by linarith
    have "nearest m x y (within_rings mx my (1 - 1)) PosInf" by (simp add: nearest_def within_rings_def)
    then have best: "nearest m x y (within_rings mx my ?R) ?d"
      by (rule search_rings_nearest [OF res cell(2)]) (simp, use R2 in linarith)
    have c: "?c = (case ?d of Fin r \<Rightarrow> r | _ \<Rightarrow> 10)" using map own by (simp add: calculateClearanceAtPose_def)
    have ring: "1 \<le> max \<bar>cx - int mx\<bar> \<bar>cy - int my\<bar>" if "blocked m cx cy" for cx cy
      using that own cell(1) by (cases "cx = int mx \<and> cy = int my") (auto simp: blocked_def)
    have pos: "0 < cell_dist m x y cx cy" if "blocked m cx cy" for cx cy
      using far_cell [OF res cell(2), of cx cy] ring [OF that] res
        mult_pos_pos [of "of_int (max \<bar>cx - int mx\<bar> \<bar>cy - int my\<bar>) - 1 / 2 :: real" "cm_resolution m"] by linarith
    have far: "10 \<le> cell_dist m x y cx cy" if "blocked m cx cy" "\<not> within_rings mx my ?R cx cy" for cx cy
    proof -
      have "?R + 1 \<le> max \<bar>cx - int mx\<bar> \<bar>cy - int my\<bar>" using that(2) ring [OF that(1)] unfolding within_rings_def by linarith
      then have "of_int ?R * cm_resolution m \<le> (of_int (max \<bar>cx - int mx\<bar> \<bar>cy - int my\<bar>) - 1 / 2) * cm_resolution m"
        using res by (intro mult_right_mono) linarith+
      with far_cell [OF res cell(2), of cx cy] R1 show ?thesis by linarith
    qed
    show ?thesis
    proof (cases ?d)
      case (Fin r)
      then have r: "?c = r" and ex: "\<exists>cx cy. blocked m cx cy \<and> r = cell_dist m x y cx cy"
        and le: "\<And>cx cy. within_rings mx my ?R cx cy \<Longrightarrow> blocked m cx cy \<Longrightarrow> r \<le> cell_dist m x y cx cy"
        using best c by (auto simp: nearest_def)
      have "min r 10 \<le> cell_dist m x y cx cy" if "blocked m cx cy" for cx cy
        using le [OF _ that] far [OF that] by (cases "within_rings mx my ?R cx cy") auto
      with ex pos show ?thesis unfolding r by auto
    next
      case PosInf
      then have "?c = 10" "\<And>cx cy. blocked m cx cy \<Longrightarrow> \<not> within_rings mx my ?R cx cy"
        using best c by (auto simp: nearest_def)
      with far show ?thesis by auto
    qed (use best in \<open>simp_all add: nearest_def\<close>)
  qed
  show lethal: "?c = 0" if "worldToMap m x y = Some (mx, my)" "getCost m mx my = LETHAL_OBSTACLE" for mx my
    using that by (simp add: calculateClearanceAtPose_def)
  show "?c = - 1 \<longleftrightarrow> worldToMap m x y = None"
  proof (cases "worldToMap m x y")
    case (Some c)
    obtain mx my where "c = (mx, my)" by (cases c)
    with Some lethal free show ?thesis by (cases "getCost m mx my = LETHAL_OBSTACLE") fastforce+
  qed (simp add: calculateClearanceAtPose_def)
  show "worldToMap m x y = Some (mx, my) \<Longrightarrow> getCost m mx my \<noteq> LETHAL_OBSTACLE \<Longrightarrow>
      0 < ?c \<and> (?c = 10 \<or> (\<exists>cx cy. blocked m cx cy \<and> ?c = cell_dist m x y cx cy)) \<and>
      (\<forall>cx cy. blocked m cx cy \<longrightarrow> min ?c 10 \<le> cell_dist m x y cx cy)"
    by (rule free)
qed

text \<open>
  C18: the clearance of a pose. Outside the map it is -1, on an obstacle 0. Otherwise it is the
  distance to the centre of the nearest cell that is lethal or outside the map, or 10 m: no
  such cell is nearer, unless it is more than 10 m away. Ending the search of the rings early
  loses nothing.
\<close>

theorem calculateClearanceAtPose_correct:
  assumes "wf_costmap m"
  shows "let c = calculateClearanceAtPose m x y in
    case worldToMap m x y of
      None \<Rightarrow> c = - 1
    | Some (mx, my) \<Rightarrow>
        if getCost m mx my = LETHAL_OBSTACLE then c = 0
        else 0 < c \<and> (c = 10 \<or> (\<exists>cx cy. blocked m cx cy \<and> c = cell_dist m x y cx cy)) \<and>
          (\<forall>cx cy. blocked m cx cy \<longrightarrow> min c 10 \<le> cell_dist m x y cx cy)"
proof (cases "worldToMap m x y")
  case None
  with clearance_facts(1) [OF assms] show ?thesis by simp
next
  case (Some cell)
  obtain mx my where cell: "cell = (mx, my)" by (cases cell)
  show ?thesis
    unfolding Let_def Some option.case cell prod.case
    using clearance_facts(2,3) [OF assms Some [unfolded cell]] by presburger
qed

theorem calculateClearanceAtPose_correct_witness:
  "\<exists>cx cy. calculateClearanceAtPose (new_Costmap2D (\<lambda>i. 7) 3 3 1 0 0 0) (3 / 2) (3 / 2) =
     cell_dist (new_Costmap2D (\<lambda>i. 7) 3 3 1 0 0 0) (3 / 2) (3 / 2) cx cy"
proof -
  let ?m = "new_Costmap2D (\<lambda>i. 7) 3 3 1 0 0 0"
  have wf: "wf_costmap ?m" by (rule wf_new_Costmap2D) simp_all
  have map: "worldToMap ?m (3 / 2) (3 / 2) = Some (1, 1)"
    by (subst worldToMap_Some_iff) (simp_all add: cell_contains_def)
  have own: "getCost ?m 1 1 \<noteq> LETHAL_OBSTACLE" by (simp add: getCost_new_Costmap2D)
  from calculateClearanceAtPose_correct [OF wf, of "3 / 2" "3 / 2", unfolded Let_def map option.case prod.case if_not_P [OF own]]
  have c: "calculateClearanceAtPose ?m (3 / 2) (3 / 2) = 10 \<or>
      (\<exists>cx cy. blocked ?m cx cy \<and> calculateClearanceAtPose ?m (3 / 2) (3 / 2) = cell_dist ?m (3 / 2) (3 / 2) cx cy)"
    "\<And>cx cy. blocked ?m cx cy \<Longrightarrow> min (calculateClearanceAtPose ?m (3 / 2) (3 / 2)) 10 \<le> cell_dist ?m (3 / 2) (3 / 2) cx cy"
    by blast+
  have "blocked ?m (- 1) 1" by (simp add: blocked_def)
  moreover have "cell_dist ?m (3 / 2) (3 / 2) (- 1) 1 = 2" by (simp add: cell_dist_def hypot_def)
  ultimately have "min (calculateClearanceAtPose ?m (3 / 2) (3 / 2)) 10 \<le> 2" using c(2) by metis
  then have "calculateClearanceAtPose ?m (3 / 2) (3 / 2) \<noteq> 10" by auto
  with c(1) show ?thesis by blast
qed

section \<open>The clearance of a path\<close>

text \<open>The clearances of the poses of a segment that lie on the map of its floor.\<close>

definition segment_values :: "(string \<Rightarrow> Costmap2D option) \<Rightarrow> path_msg \<Rightarrow> string \<times> 32 word \<times> 32 word \<Rightarrow> real list" where
  "segment_values floors path seg =
     (case seg of (floor_name, start_index, end_index) \<Rightarrow>
        (case floors floor_name of
           None \<Rightarrow> []
         | Some m \<Rightarrow> filter (\<lambda>c. 0 \<le> c)
             (map (\<lambda>i. calculateClearanceAtPose m (pos_x (ps_position (path_poses path ! i))) (pos_y (ps_position (path_poses path ! i))))
               [unat start_index..<unat end_index + 1])))"

lemma calculateSegmentClearance_eq:
  assumes "floors floor_name = Some m"
  shows "\<exists>clearances'. calculateSegmentClearance path (unat s) (unat e) m clearances =
      (segment_values floors path (floor_name, s, e) \<noteq> [], clearances') \<and>
    map snd clearances' = map snd clearances @ segment_values floors path (floor_name, s, e)"
proof -
  let ?c = "\<lambda>i. calculateClearanceAtPose m (pos_x (ps_position (path_poses path ! i))) (pos_y (ps_position (path_poses path ! i)))"
  let ?f = "\<lambda>i (clearances, n). let p = ps_position (path_poses path ! i); clearance = calculateClearanceAtPose m (pos_x p) (pos_y p)
      in if 0 \<le> clearance then (clearances @ [(i, clearance)], n + 1) else (clearances, n)"
  have "\<exists>cs'. fold ?f is (cs, n) = (cs', n + length (filter (\<lambda>c. 0 \<le> c) (map ?c is))) \<and>
      map snd cs' = map snd cs @ filter (\<lambda>c. 0 \<le> c) (map ?c is)" for "is" cs and n :: nat
  proof (induction "is" arbitrary: cs n)
    case (Cons i "is")
    show ?case
      using Cons.IH [of "cs @ [(i, ?c i)]" "n + 1"] Cons.IH [of cs n] by (auto simp: Let_def)
  qed simp
  then obtain cs' where run: "fold ?f [unat s..<unat e + 1] (clearances, 0) =
      (cs', 0 + length (filter (\<lambda>c. 0 \<le> c) (map ?c [unat s..<unat e + 1])))"
    "map snd cs' = map snd clearances @ filter (\<lambda>c. 0 \<le> c) (map ?c [unat s..<unat e + 1])" by blast
  have vals: "segment_values floors path (floor_name, s, e) = filter (\<lambda>c. 0 \<le> c) (map ?c [unat s..<unat e + 1])"
    by (simp only: segment_values_def assms prod.case option.case)
  show ?thesis
  proof (intro exI conjI)
    show "calculateSegmentClearance path (unat s) (unat e) m clearances = (segment_values floors path (floor_name, s, e) \<noteq> [], cs')"
      unfolding calculateSegmentClearance_def run(1) prod.case vals by (simp only: add_0 length_0_conv)
    show "map snd cs' = map snd clearances @ segment_values floors path (floor_name, s, e)" unfolding vals by (rule run(2))
  qed
qed

lemma segment_clearances_eq:
  "if \<forall>seg \<in> set segs. segment_values floors path seg \<noteq> []
   then \<exists>cs'. segment_clearances floors path i segs cs = Inr cs' \<and>
     map snd cs' = map snd cs @ concat (map (segment_values floors path) segs)
   else \<exists>msg. segment_clearances floors path i segs cs = Inl msg"
proof (induction segs arbitrary: i cs)
  case (Cons seg segs)
  obtain f s e where seg: "seg = (f, s, e)" by (cases seg)
  show ?case
  proof (cases "floors f")
    case None
    then show ?thesis by (auto simp: seg segment_values_def)
  next
    case (Some m)
    obtain cs1 where cs1: "calculateSegmentClearance path (unat s) (unat e) m cs = (segment_values floors path (f, s, e) \<noteq> [], cs1)"
      "map snd cs1 = map snd cs @ segment_values floors path (f, s, e)"
      using calculateSegmentClearance_eq [of floors f m path s e cs] Some by blast
    with Some Cons.IH [of "i + 1" cs1] show ?thesis
      by (cases "segment_values floors path (f, s, e) = []") (auto simp: seg split: if_splits)
  qed
qed simp

lemma validate_segments_None:
  "validate_segments n segs = None \<longleftrightarrow> (\<forall>(s, e) \<in> set segs. s \<le> e \<and> unat e < n)"
  by (induction n segs rule: validate_segments.induct)
    (auto simp: not_le word_less_nat_alt word_le_nat_alt intro: le_less_trans)

lemma dmin_PosInf [simp]: "dmin PosInf (Fin x) = Fin x"
  by (simp add: dmin_def)

lemma foldl_dmin: "foldl (\<lambda>d t. dmin d (Fin (snd t))) (Fin r) cs = Fin (foldl min r (map snd cs))"
  by (induction cs arbitrary: r) (auto simp: dmin_def min_def)

lemma foldl_min: "foldl min r (xs :: real list) = Min (insert r (set xs))"
proof (induction xs arbitrary: r)
  case (Cons x xs)
  show ?case unfolding foldl_Cons Cons.IH by (cases "xs = []") (auto simp: min.assoc)
qed simp

lemma foldl_sum: "foldl (\<lambda>s t. s + snd t) r cs = r + sum_list (map snd cs :: real list)"
  by (induction cs arbitrary: r) auto

lemma path_clearance_facts:
  fixes floors request
  defines "r \<equiv> calculatePathClearance floors request"
    and "segs \<equiv> zip (cq_floor_names request) (zip (cq_segment_start_indices request) (cq_segment_end_indices request))"
  defines "vals \<equiv> concat (map (segment_values floors (cq_path request)) segs)"
  shows "cr_success r \<longleftrightarrow>
      path_poses (cq_path request) \<noteq> [] \<and> cq_floor_names request \<noteq> [] \<and>
      length (cq_segment_start_indices request) = length (cq_floor_names request) \<and>
      length (cq_segment_end_indices request) = length (cq_floor_names request) \<and>
      (\<forall>(f, s, e) \<in> set segs. s \<le> e \<and> unat e < length (path_poses (cq_path request)) \<and>
         segment_values floors (cq_path request) (f, s, e) \<noteq> [])"
    and "cr_success r \<Longrightarrow> vals \<noteq> [] \<and> cr_min_clearance r = Fin (Min (set vals)) \<and>
      cr_avg_clearance r = Fin (sum_list vals / real (length vals))"
    and "\<not> cr_success r \<Longrightarrow> cr_min_clearance r = Fin 0 \<and> cr_avg_clearance r = Fin 0"
proof -
  let ?starts = "cq_segment_start_indices request" and ?ends = "cq_segment_end_indices request"
  let ?n = "length (path_poses (cq_path request))"
  let ?sized = "length ?starts = length (cq_floor_names request) \<and> length ?ends = length (cq_floor_names request)"
  let ?full = "\<forall>seg \<in> set segs. segment_values floors (cq_path request) seg \<noteq> []"
  have ranges: "validate_segments ?n (zip ?starts ?ends) = None \<longleftrightarrow> (\<forall>(f, s, e) \<in> set segs. s \<le> e \<and> unat e < ?n)" if ?sized
  proof -
    have "set (zip ?starts ?ends) = snd ` set segs"
      using that by (simp add: segs_def map_snd_zip flip: set_map)
    then show ?thesis unfolding validate_segments_None by (auto simp: case_prod_unfold)
  qed
  have segs: "segs \<noteq> []" if ?sized "cq_floor_names request \<noteq> []" using that by (auto simp: segs_def zip_eq_Nil_iff)
  have "(cr_success r \<longleftrightarrow> path_poses (cq_path request) \<noteq> [] \<and> cq_floor_names request \<noteq> [] \<and> ?sized \<and>
        validate_segments ?n (zip ?starts ?ends) = None \<and> ?full) \<and>
      (if cr_success r then vals \<noteq> [] \<and> cr_min_clearance r = Fin (Min (set vals)) \<and>
        cr_avg_clearance r = Fin (sum_list vals / real (length vals)) else cr_min_clearance r = Fin 0 \<and> cr_avg_clearance r = Fin 0)"
  proof (cases "path_poses (cq_path request) \<noteq> [] \<and> cq_floor_names request \<noteq> [] \<and> ?sized \<and> validate_segments ?n (zip ?starts ?ends) = None \<and> ?full")
    case True
    then obtain cs where cs: "segment_clearances floors (cq_path request) 0 segs [] = Inr cs" "map snd cs = vals"
      using segment_clearances_eq [of segs floors "cq_path request" 0 "[]"] by (auto simp: vals_def)
    have "vals \<noteq> []" using True segs by (cases segs) (auto simp: vals_def)
    then obtain c cs' where c: "cs = c # cs'" using cs(2) by (cases cs) auto
    have "foldl (\<lambda>d t. dmin d (Fin (snd t))) PosInf cs = Fin (Min (set vals))"
      using cs(2) by (simp add: c foldl_dmin foldl_min) (simp flip: cs(2) add: c)
    moreover have "foldl (\<lambda>s t. s + snd t) 0 cs = sum_list vals" "length cs = length vals"
      by (simp_all add: foldl_sum flip: cs(2))
    ultimately show ?thesis
      using True cs(1) c \<open>vals \<noteq> []\<close> by (simp add: r_def calculatePathClearance_def Let_def flip: segs_def)
  next
    case False
    have "\<exists>msg. r = clearance_response_init\<lparr>cr_message := msg\<rparr>"
    proof (cases ?full)
      case True
      with False show ?thesis by (auto simp: r_def calculatePathClearance_def Let_def split: option.split simp flip: segs_def)
    next
      case False
      then obtain msg where "segment_clearances floors (cq_path request) 0 segs [] = Inl msg"
        using segment_clearances_eq [of segs floors "cq_path request" 0 "[]"] by (simp only: if_False) blast
      then show ?thesis by (auto simp: r_def calculatePathClearance_def Let_def split: option.split simp flip: segs_def)
    qed
    then have "\<not> cr_success r" "cr_min_clearance r = Fin 0" "cr_avg_clearance r = Fin 0"
      by (auto simp: clearance_response_init_def)
    with False show ?thesis by auto
  qed
  then show "cr_success r \<longleftrightarrow> path_poses (cq_path request) \<noteq> [] \<and> cq_floor_names request \<noteq> [] \<and>
      length ?starts = length (cq_floor_names request) \<and> length ?ends = length (cq_floor_names request) \<and>
      (\<forall>(f, s, e) \<in> set segs. s \<le> e \<and> unat e < ?n \<and> segment_values floors (cq_path request) (f, s, e) \<noteq> [])"
    "cr_success r \<Longrightarrow> vals \<noteq> [] \<and> cr_min_clearance r = Fin (Min (set vals)) \<and>
      cr_avg_clearance r = Fin (sum_list vals / real (length vals))"
    "\<not> cr_success r \<Longrightarrow> cr_min_clearance r = Fin 0 \<and> cr_avg_clearance r = Fin 0"
    using ranges by fastforce+
qed

text \<open>
  C34: the clearance service succeeds exactly when the path and the list of floors are not empty, the
  three lists of segments agree in length, every segment is a range of the path, and at least one
  pose of every segment lies on the map of its floor. It then reports the least and the mean
  clearance of all such poses; otherwise it reports zeros and a message.
\<close>

theorem calculatePathClearance_correct:
  "let r = calculatePathClearance floors request;
       segs = zip (cq_floor_names request) (zip (cq_segment_start_indices request) (cq_segment_end_indices request));
       vals = concat (map (segment_values floors (cq_path request)) segs)
   in (cr_success r \<longleftrightarrow>
        path_poses (cq_path request) \<noteq> [] \<and> cq_floor_names request \<noteq> [] \<and>
        length (cq_segment_start_indices request) = length (cq_floor_names request) \<and>
        length (cq_segment_end_indices request) = length (cq_floor_names request) \<and>
        (\<forall>(f, s, e) \<in> set segs. s \<le> e \<and> unat e < length (path_poses (cq_path request)) \<and>
           segment_values floors (cq_path request) (f, s, e) \<noteq> [])) \<and>
      (if cr_success r
       then vals \<noteq> [] \<and> cr_min_clearance r = Fin (Min (set vals)) \<and> cr_avg_clearance r = Fin (sum_list vals / real (length vals))
       else cr_min_clearance r = Fin 0 \<and> cr_avg_clearance r = Fin 0)"
  unfolding Let_def
  using path_clearance_facts(1) [of floors request] path_clearance_facts(2,3) [of floors request] by presburger

text \<open>A path of one pose, on an obstacle of its floor.\<close>

theorem calculatePathClearance_correct_witness:
  "let r = calculatePathClearance (\<lambda>f. Some (new_Costmap2D (\<lambda>i. 7) 3 3 1 0 0 254))
         \<lparr>cq_path = \<lparr>path_frame_id = ''ifc'', path_poses = [pose_of_waypoint ''ifc'' (3 / 2, 3 / 2, 0)]\<rparr>,
          cq_floor_names = [''EG''], cq_segment_start_indices = [0], cq_segment_end_indices = [0]\<rparr>
   in cr_success r \<and> cr_min_clearance r = Fin 0 \<and> cr_avg_clearance r = Fin 0"
proof -
  let ?m = "new_Costmap2D (\<lambda>i. 7) 3 3 1 0 0 254"
  let ?path = "\<lparr>path_frame_id = ''ifc'', path_poses = [pose_of_waypoint ''ifc'' (3 / 2, 3 / 2, 0)]\<rparr>"
  have map: "worldToMap ?m (3 / 2) (3 / 2) = Some (1, 1)"
    by (subst worldToMap_Some_iff) (simp_all add: cell_contains_def)
  have "getCost ?m 1 1 = LETHAL_OBSTACLE" by (simp add: getCost_new_Costmap2D)
  with map have zero: "calculateClearanceAtPose ?m (3 / 2) (3 / 2) = 0" by (simp add: calculateClearanceAtPose_def)
  have vals: "segment_values (\<lambda>f. Some ?m) ?path (''EG'', 0, 0) = [0]"
    by (simp add: segment_values_def pose_of_waypoint_def zero)
  show ?thesis
    using calculatePathClearance_correct [of "\<lambda>f. Some ?m" "\<lparr>cq_path = ?path, cq_floor_names = [''EG''], cq_segment_start_indices = [0], cq_segment_end_indices = [0]\<rparr>"]
    by (simp add: Let_def vals split: if_splits)
qed

end
