(* ===== verification/Simple_Smoother.thy ===== *)
theory Simple_Smoother
  imports Topomap_Types Costmap
begin

text \<open>
  \<open>navbim_smoother/simple_smoother.cpp\<close> and the path helpers it takes from
  \<open>nav2_smoother/smoother_utils.hpp\<close>: the iterative smoother the room planner applies to the paths
  it finds. A path is split where it turns back; every part is relaxed towards its neighbours until
  it no longer changes, and a waypoint that would hit an obstacle keeps its place.

  The yaw of a quaternion, the difference of two angles and the quaternion of a yaw (tf2, angles)
  are parameters. The clock is a function that tells of each check of the time whether the
  limit has passed; the checks are counted.
\<close>

section \<open>Paths\<close>

record tf_ops =
  tf_getYaw :: "Quaternion \<Rightarrow> real"
  tf_shortest_angular_distance :: "real \<Rightarrow> real \<Rightarrow> real"
  tf_orientationAroundZAxis :: "real \<Rightarrow> Quaternion"

definition atan2 :: "real \<Rightarrow> real \<Rightarrow> real" where
  "atan2 y x = Arg (Complex x y)"

record PathSegment =
  seg_start :: nat
  seg_end :: nat

definition path_delta :: "pose_stamped list \<Rightarrow> nat \<Rightarrow> real \<times> real" where
  "path_delta poses i =
     (pos_x (ps_position (poses ! (i + 1))) - pos_x (ps_position (poses ! i)),
      pos_y (ps_position (poses ! (i + 1))) - pos_y (ps_position (poses ! i)))"

definition cut_segment :: "nat \<Rightarrow> PathSegment list \<times> nat \<Rightarrow> PathSegment list \<times> nat" where
  "cut_segment idx st = (case st of (segments, start) \<Rightarrow> (segments @ [\<lparr>seg_start = start, seg_end = idx\<rparr>], idx))"

definition directional_step ::
  "tf_ops \<Rightarrow> pose_stamped list \<Rightarrow> nat \<Rightarrow> PathSegment list \<times> nat \<Rightarrow> PathSegment list \<times> nat" where
  "directional_step tf poses idx st =
     (let (oa_x, oa_y) = path_delta poses (idx - 1); (ab_x, ab_y) = path_delta poses idx;
          dot_product = oa_x * ab_x + oa_y * ab_y;
          st1 = (if dot_product < 0 then cut_segment idx st else st);
          cur_theta = tf_getYaw tf (ps_orientation (poses ! idx));
          next_theta = tf_getYaw tf (ps_orientation (poses ! (idx + 1)));
          dtheta = tf_shortest_angular_distance tf cur_theta next_theta
      in if \<bar>ab_x\<bar> < 1 / 10000 \<and> \<bar>ab_y\<bar> < 1 / 10000 \<and> 1 / 10000 < \<bar>dtheta\<bar> then cut_segment idx st1 else st1)"

text \<open>The callers pass paths that are not empty.\<close>

definition findDirectionalPathSegments :: "tf_ops \<Rightarrow> path_msg \<Rightarrow> PathSegment list" where
  "findDirectionalPathSegments tf path =
     (let poses = path_poses path in
      fst (cut_segment (length poses - 1) (fold (directional_step tf poses) [1..<length poses - 1] ([], 0))))"

definition update_orientation :: "tf_ops \<Rightarrow> bool \<Rightarrow> nat \<Rightarrow> pose_stamped list \<Rightarrow> pose_stamped list" where
  "update_orientation tf reversing_segment i poses =
     (let (dx, dy) = path_delta poses i; theta = atan2 dy dx
      in if \<bar>dx\<bar> < 1 / 10000 \<and> \<bar>dy\<bar> < 1 / 10000 then poses
         else poses[i := (poses ! i)\<lparr>ps_orientation :=
                tf_orientationAroundZAxis tf (if reversing_segment then theta + pi else theta)\<rparr>])"

definition updateApproximatePathOrientations :: "tf_ops \<Rightarrow> path_msg \<Rightarrow> path_msg" where
  "updateApproximatePathOrientations tf path =
     (let poses = path_poses path;
          (dx, dy) = path_delta poses 1; theta = atan2 dy dx;
          pt_yaw = tf_getYaw tf (ps_orientation (poses ! 1));
          reversing_segment = pi / 2 < \<bar>tf_shortest_angular_distance tf pt_yaw theta\<bar>
      in path\<lparr>path_poses := fold (update_orientation tf reversing_segment) [0..<length poses - 1] poses\<rparr>)"

definition getFieldByDim :: "pose_stamped \<Rightarrow> nat \<Rightarrow> real" where
  "getFieldByDim msg j =
     (if j = 0 then pos_x (ps_position msg) else if j = 1 then pos_y (ps_position msg) else pos_z (ps_position msg))"

definition setFieldByDim :: "nat \<Rightarrow> real \<Rightarrow> pose_stamped \<Rightarrow> pose_stamped" where
  "setFieldByDim j v msg =
     (let p = ps_position msg in
      msg\<lparr>ps_position := (if j = 0 then p\<lparr>pos_x := v\<rparr> else if j = 1 then p\<lparr>pos_y := v\<rparr> else p\<lparr>pos_z := v\<rparr>)\<rparr>)"

section \<open>Smoothing\<close>

record smoother_params =
  sp_tolerance :: real
  sp_max_its :: int
  sp_data_w :: real
  sp_smooth_w :: real
  sp_do_refinement :: bool
  sp_refinement_num :: int
  sp_enforce_path_inversion :: bool

text \<open>The cost of a place: outside the map it counts as an obstacle.\<close>

definition cost_at :: "Costmap2D \<Rightarrow> real \<Rightarrow> real \<Rightarrow> uchar" where
  "cost_at m x y = (case worldToMap m x y of Some (mx, my) \<Rightarrow> getCost m mx my | None \<Rightarrow> LETHAL_OBSTACLE)"

definition collides :: "Costmap2D \<Rightarrow> real \<Rightarrow> real \<Rightarrow> bool" where
  "collides m x y \<longleftrightarrow> INSCRIBED_INFLATED_OBSTACLE \<le> cost_at m x y \<and> cost_at m x y \<noteq> NO_INFORMATION"

definition smooth_dim ::
  "smoother_params \<Rightarrow> pose_stamped list \<Rightarrow> nat \<Rightarrow> nat \<Rightarrow> pose_stamped list \<times> real \<Rightarrow> pose_stamped list \<times> real" where
  "smooth_dim p orig i j st =
     (case st of (poses, waypoint_change) \<Rightarrow>
        let x_i = getFieldByDim (orig ! i) j; y_i_org = getFieldByDim (poses ! i) j;
            y_m1 = getFieldByDim (poses ! (i - 1)) j; y_ip1 = getFieldByDim (poses ! (i + 1)) j;
            y_i = y_i_org + (sp_data_w p * (x_i - y_i_org) + sp_smooth_w p * (y_ip1 + y_m1 - 2 * y_i_org))
        in (poses[i := setFieldByDim j y_i (poses ! i)], waypoint_change + \<bar>y_i - y_i_org\<bar>))"

text \<open>One waypoint: the new path, the change and the number of waypoints skipped so far.\<close>

definition smooth_point ::
  "Costmap2D \<Rightarrow> smoother_params \<Rightarrow> pose_stamped list \<Rightarrow> nat \<Rightarrow> pose_stamped list \<times> real \<times> nat \<Rightarrow>
     pose_stamped list \<times> real \<times> nat" where
  "smooth_point m p orig i st =
     (case st of (poses, change, skipped) \<Rightarrow>
        let original_x = getFieldByDim (poses ! i) 0; original_y = getFieldByDim (poses ! i) 1
        in case fold (smooth_dim p orig i) [0, 1, 2] (poses, 0) of
             (poses1, waypoint_change) \<Rightarrow>
               if collides m (getFieldByDim (poses1 ! i) 0) (getFieldByDim (poses1 ! i) 1)
               then (poses1[i := setFieldByDim 1 original_y (setFieldByDim 0 original_x (poses1 ! i))], change, skipped + 1)
               else (poses1, change + waypoint_change, skipped))"

definition smooth_pass ::
  "Costmap2D \<Rightarrow> smoother_params \<Rightarrow> pose_stamped list \<Rightarrow> pose_stamped list \<Rightarrow> pose_stamped list \<times> real \<times> nat" where
  "smooth_pass m p orig poses = fold (smooth_point m p orig) [1..<length orig - 1] (poses, 0, 0)"

text \<open>
  How the loop ends: it converged, or \<open>path\<close> was set to the last path and the function returned false
  or threw \<open>SmootherTimedOut\<close>.
\<close>

datatype loop_end = Converged "pose_stamped list" | Gave_up "pose_stamped list" | Timed_out "pose_stamped list"

function smooth_loop ::
  "Costmap2D \<Rightarrow> (nat \<Rightarrow> bool) \<Rightarrow> smoother_params \<Rightarrow> pose_stamped list \<Rightarrow> int \<Rightarrow> real \<Rightarrow> pose_stamped list \<Rightarrow> nat \<Rightarrow>
     loop_end \<times> nat" where
  "smooth_loop m late p orig its change poses tick =
     (if change < sp_tolerance p then (Converged poses, tick)
      else if sp_max_its p \<le> its + 1 then (Gave_up poses, tick)
      else if late tick then (Timed_out poses, tick + 1)
      else case smooth_pass m p orig poses of
        (poses1, change1, skipped) \<Rightarrow>
          if (length orig - 2) div 2 < skipped then (Gave_up poses, tick + 1)
          else smooth_loop m late p orig (its + 1) change1 poses1 (tick + 1))"
  by pat_completeness auto

termination
  by (relation "measure (\<lambda>(m, late, p, orig, its, change, poses, tick). nat (sp_max_its p - its))") auto

declare smooth_loop.simps [simp del]

text \<open>
  \<open>smoothImpl\<close>: the path as the caller sees it afterwards and the return value or exception. The
  recursion refines the path at most \<open>refinement_num\<close> times; \<open>refinement_ctr\<close> counts.
\<close>

function smoothImpl ::
  "tf_ops \<Rightarrow> Costmap2D \<Rightarrow> (nat \<Rightarrow> bool) \<Rightarrow> smoother_params \<Rightarrow> int \<Rightarrow> path_msg \<Rightarrow> nat \<Rightarrow> path_msg \<times> bool result \<times> nat" where
  "smoothImpl tf m late p refinement_ctr path tick =
     (case smooth_loop m late p (path_poses path) 0 (sp_tolerance p) (path_poses path) tick of
        (Gave_up poses, tick1) \<Rightarrow> (updateApproximatePathOrientations tf (path\<lparr>path_poses := poses\<rparr>), Inr False, tick1)
      | (Timed_out poses, tick1) \<Rightarrow>
          (updateApproximatePathOrientations tf (path\<lparr>path_poses := poses\<rparr>), Inl Runtime_error, tick1)
      | (Converged poses, tick1) \<Rightarrow>
          if sp_do_refinement p \<and> refinement_ctr < sp_refinement_num p
          then (case smoothImpl tf m late p (refinement_ctr + 1) (path\<lparr>path_poses := poses\<rparr>) tick1 of
                  (path1, Inl exn, tick2) \<Rightarrow> (path, Inl exn, tick2)
                | (path1, Inr False, tick2) \<Rightarrow> (path, Inr False, tick2)
                | (path1, Inr True, tick2) \<Rightarrow> (updateApproximatePathOrientations tf path1, Inr True, tick2))
          else (updateApproximatePathOrientations tf (path\<lparr>path_poses := poses\<rparr>), Inr True, tick1))"
  by pat_completeness auto

termination
  by (relation "measure (\<lambda>(tf, m, late, p, refinement_ctr, path, tick). nat (sp_refinement_num p - refinement_ctr))") auto

declare smoothImpl.simps [simp del]

text \<open>The poses of a segment, and the segment written back into the path.\<close>

definition segment_poses :: "PathSegment \<Rightarrow> pose_stamped list \<Rightarrow> pose_stamped list" where
  "segment_poses seg poses = take (seg_end seg + 1 - seg_start seg) (drop (seg_start seg) poses)"

definition write_segment :: "PathSegment \<Rightarrow> pose_stamped list \<Rightarrow> pose_stamped list \<Rightarrow> pose_stamped list" where
  "write_segment seg new poses = take (seg_start seg) poses @ new @ drop (seg_start seg + length new) poses"

fun smooth_segments ::
  "tf_ops \<Rightarrow> Costmap2D \<Rightarrow> (nat \<Rightarrow> bool) \<Rightarrow> smoother_params \<Rightarrow> PathSegment list \<Rightarrow> bool \<Rightarrow> path_msg \<Rightarrow> nat \<Rightarrow>
     path_msg \<times> bool result \<times> nat" where
  "smooth_segments tf m late p [] overall_success path tick = (path, Inr overall_success, tick)"
| "smooth_segments tf m late p (seg # segs) overall_success path tick =
     (if 3 < seg_end seg - seg_start seg
      then case smoothImpl tf m late p 0 (path\<lparr>path_poses := segment_poses seg (path_poses path)\<rparr>) tick of
          (curr_path_segment, Inl exn, tick1) \<Rightarrow> (path, Inl exn, tick1)
        | (curr_path_segment, Inr segment_success, tick1) \<Rightarrow>
            smooth_segments tf m late p segs (overall_success \<and> segment_success)
              (path\<lparr>path_poses := write_segment seg (path_poses curr_path_segment) (path_poses path)\<rparr>) tick1
      else smooth_segments tf m late p segs overall_success path tick)"

definition simple_smooth ::
  "tf_ops \<Rightarrow> Costmap2D \<Rightarrow> (nat \<Rightarrow> bool) \<Rightarrow> smoother_params \<Rightarrow> path_msg \<Rightarrow> nat \<Rightarrow> path_msg \<times> bool result \<times> nat" where
  "simple_smooth tf m late p path tick =
     smooth_segments tf m late p
       (if sp_enforce_path_inversion p then findDirectionalPathSegments tf path
        else [\<lparr>seg_start = 0, seg_end = length (path_poses path) - 1\<rparr>]) True path tick"

section \<open>What smoothing keeps\<close>

text \<open>
  \<open>kept free orig poses\<close>: the path has its length, its first and its last waypoint are where they were,
  and a waypoint that was moved is at a free place.
\<close>

abbreviation pose_xy :: "pose_stamped \<Rightarrow> real \<times> real" where
  "pose_xy q \<equiv> (pos_x (ps_position q), pos_y (ps_position q))"

definition free_at :: "Costmap2D \<Rightarrow> real \<times> real \<Rightarrow> bool" where
  "free_at m q \<longleftrightarrow> \<not> collides m (fst q) (snd q)"

definition kept :: "(real \<times> real \<Rightarrow> bool) \<Rightarrow> pose_stamped list \<Rightarrow> pose_stamped list \<Rightarrow> bool" where
  "kept free orig poses \<longleftrightarrow> length poses = length orig \<and>
     (orig \<noteq> [] \<longrightarrow> ps_position (hd poses) = ps_position (hd orig) \<and> ps_position (last poses) = ps_position (last orig)) \<and>
     (\<forall>i < length orig. pose_xy (poses ! i) = pose_xy (orig ! i) \<or> free (pose_xy (poses ! i)))"

lemma kept_refl [simp]: "kept free orig orig"
  by (simp add: kept_def)

lemma kept_trans: "kept free a b \<Longrightarrow> kept free b c \<Longrightarrow> kept free a c"
  unfolding kept_def by (metis length_0_conv)

lemma kept_update:
  assumes "kept free orig poses" and "0 < i" and "i < length orig - 1"
    and "pose_xy q = pose_xy (poses ! i) \<or> free (pose_xy q)"
  shows "kept free orig (poses[i := q])"
proof -
  have len: "length poses = length orig" and ends: "ps_position (hd poses) = ps_position (hd orig)"
    "ps_position (last poses) = ps_position (last orig)"
    using assms(1-3) by (auto simp: kept_def)
  moreover have "poses \<noteq> []" "poses[i := q] \<noteq> []" using assms(3) len by auto
  then have "hd (poses[i := q]) = hd poses" "last (poses[i := q]) = last poses"
    using assms(2,3) len by (simp_all add: hd_conv_nth last_conv_nth)
  moreover have "pose_xy (poses[i := q] ! k) = pose_xy (orig ! k) \<or> free (pose_xy (poses[i := q] ! k))"
    if "k < length orig" for k
    using assms(1,4) len that unfolding kept_def by (cases "k = i") (auto simp: nth_list_update)
  ultimately show ?thesis by (simp add: kept_def)
qed

lemma smooth_dims:
  assumes "fold (smooth_dim p orig i) [0, 1, 2] (poses, 0) = (poses1, waypoint_change)" and "i < length poses"
  shows "\<exists>q. poses1 = poses[i := q] \<and> pose_xy q = pose_xy (poses1 ! i)"
  using assms by (auto simp: smooth_dim_def Let_def)

lemma smooth_point_kept:
  assumes "kept (free_at m) orig poses" and "0 < i" and "i < length orig - 1" and "smooth_point m p orig i (poses, change, k) = (poses', r)"
  shows "kept (free_at m) orig poses'"
proof -
  have i: "i < length poses" using assms(1,3) by (simp add: kept_def)
  obtain poses1 c where dims: "fold (smooth_dim p orig i) [0, 1, 2] (poses, 0) = (poses1, c)" by fastforce
  from smooth_dims [OF this i] obtain q where q: "poses1 = poses[i := q]" by blast
  have xy: "poses1 ! i = q" using q i by simp
  have point: "smooth_point m p orig i (poses, change, k) =
      (if collides m (fst (pose_xy q)) (snd (pose_xy q))
       then (poses[i := setFieldByDim 1 (snd (pose_xy (poses ! i))) (setFieldByDim 0 (fst (pose_xy (poses ! i))) q)], change, k + 1)
       else (poses[i := q], change + c, k))"
    by (simp only: smooth_point_def prod.case dims Let_def xy) (simp add: q getFieldByDim_def)
  show ?thesis
  proof (cases "free_at m (pose_xy q)")
    case True
    then have "poses' = poses[i := q]" using assms(4) point by (auto simp: free_at_def)
    with kept_update [OF assms(1-3)] True show ?thesis by simp
  next
    case False
    then have "poses' = poses[i := setFieldByDim 1 (snd (pose_xy (poses ! i))) (setFieldByDim 0 (fst (pose_xy (poses ! i))) q)]"
      using assms(4) point by (auto simp: free_at_def)
    with kept_update [OF assms(1-3)] show ?thesis by (simp add: setFieldByDim_def Let_def)
  qed
qed

lemma smooth_pass_kept:
  assumes "kept (free_at m) orig poses" and "smooth_pass m p orig poses = (poses', r)"
  shows "kept (free_at m) orig poses'"
proof -
  have "kept (free_at m) orig (fst (fold (smooth_point m p orig) is st))"
    if "kept (free_at m) orig (fst st)" "set is \<subseteq> {i. 0 < i \<and> i < length orig - 1}" for "is" st
    using that
  proof (induction "is" arbitrary: st)
    case (Cons i "is")
    obtain q c k where st: "st = (q, c, k)" by (cases st)
    obtain q' r where step: "smooth_point m p orig i st = (q', r)" by (cases "smooth_point m p orig i st")
    have "kept (free_at m) orig q'" 
      by (rule smooth_point_kept [where poses = q and change = c and k = k and i = i and p = p and r = r])
        (use Cons.prems step in \<open>simp_all add: st\<close>)
    with Cons show ?case by (simp add: step)
  qed simp
  moreover have "set [1..<length orig - 1] \<subseteq> {i. 0 < i \<and> i < length orig - 1}" by auto
  ultimately have "kept (free_at m) orig (fst (smooth_pass m p orig poses))" unfolding smooth_pass_def using assms(1) by simp
  with assms(2) show ?thesis by simp
qed

fun end_poses :: "loop_end \<Rightarrow> pose_stamped list" where
  "end_poses (Converged poses) = poses"
| "end_poses (Gave_up poses) = poses"
| "end_poses (Timed_out poses) = poses"

lemma smooth_loop_kept:
  "kept (free_at m) orig poses \<Longrightarrow> kept (free_at m) orig (end_poses (fst (smooth_loop m late p orig its change poses tick)))"
proof (induction m late p orig its change poses tick rule: smooth_loop.induct)
  case (1 m late p orig its change poses tick)
  obtain poses1 change1 skipped where pass: "smooth_pass m p orig poses = (poses1, change1, skipped)"
    by (cases "smooth_pass m p orig poses")
  have "kept (free_at m) orig poses1" using smooth_pass_kept [OF 1(2) pass] .
  with 1 pass show ?case by (subst smooth_loop.simps) simp
qed

lemma kept_positions:
  assumes "kept free orig poses" and "map ps_position poses' = map ps_position poses"
  shows "kept free orig poses'"
proof -
  have len: "length poses' = length poses" and pos: "\<And>i. i < length poses \<Longrightarrow> ps_position (poses' ! i) = ps_position (poses ! i)"
    using assms(2) by (metis length_map, metis length_map nth_map)
  have "ps_position (hd poses') = ps_position (hd poses)" "ps_position (last poses') = ps_position (last poses)" if "poses \<noteq> []"
    using assms(2) len that by (metis hd_map length_0_conv, metis last_map length_0_conv)
  moreover have "poses \<noteq> [] \<longleftrightarrow> orig \<noteq> []" using assms(1) by (auto simp: kept_def)
  ultimately show ?thesis using assms(1) len pos by (simp add: kept_def)
qed

lemma positions_updateApproximatePathOrientations:
  "map ps_position (path_poses (updateApproximatePathOrientations tf path)) = map ps_position (path_poses path)"
proof -
  have step: "map ps_position (update_orientation tf b i poses) = map ps_position poses" for b i poses
  proof -
    have "map ps_position (poses[i := (poses ! i)\<lparr>ps_orientation := q\<rparr>]) = map ps_position poses" for q
      by (cases "i < length poses") (auto intro!: nth_equalityI simp: nth_list_update)
    then show ?thesis by (simp add: update_orientation_def Let_def split: prod.split)
  qed
  have "map ps_position (fold (update_orientation tf b) is poses) = map ps_position poses" for b "is" poses
    by (induction "is" arbitrary: poses) (simp_all add: step)
  then show ?thesis by (simp add: updateApproximatePathOrientations_def Let_def split: prod.split)
qed

lemma kept_orientations:
  "kept free orig (path_poses path) \<Longrightarrow> kept free orig (path_poses (updateApproximatePathOrientations tf path))"
  by (rule kept_positions [OF _ positions_updateApproximatePathOrientations])

lemma frame_updateApproximatePathOrientations [simp]:
  "path_frame_id (updateApproximatePathOrientations tf path) = path_frame_id path"
  by (simp add: updateApproximatePathOrientations_def Let_def split: prod.split)

lemma smoothImpl_kept:
  "kept (free_at m) (path_poses path) (path_poses (fst (smoothImpl tf m late p ctr path tick)))"
proof (induction tf m late p ctr path tick rule: smoothImpl.induct)
  case (1 tf m late p ctr path tick)
  obtain e tick1 where loop: "smooth_loop m late p (path_poses path) 0 (sp_tolerance p) (path_poses path) tick = (e, tick1)"
    by fastforce
  have e: "kept (free_at m) (path_poses path) (end_poses e)"
    using smooth_loop_kept [OF kept_refl, of m "path_poses path" late p 0 "sp_tolerance p" tick] loop by simp
  show ?case
  proof (cases "\<exists>poses. e = Converged poses \<and> sp_do_refinement p \<and> ctr < sp_refinement_num p")
    case True
    then obtain poses where poses: "e = Converged poses" by blast
    obtain path1 r tick2 where rec: "smoothImpl tf m late p (ctr + 1) (path\<lparr>path_poses := poses\<rparr>) tick1 = (path1, r, tick2)"
      by (cases "smoothImpl tf m late p (ctr + 1) (path\<lparr>path_poses := poses\<rparr>) tick1") auto
    have "kept (free_at m) poses (path_poses path1)"
      using 1 [OF loop [symmetric] poses] True rec by simp
    with e poses have "kept (free_at m) (path_poses path) (path_poses (updateApproximatePathOrientations tf path1))"
      by (auto intro: kept_trans kept_orientations)
    with True loop poses rec show ?thesis
      by (subst smoothImpl.simps) (auto split: sum.split bool.split)
  next
    case False
    with loop e show ?thesis
      by (subst smoothImpl.simps) (cases e; auto intro: kept_orientations)
  qed
qed

definition segment_in :: "nat \<Rightarrow> PathSegment \<Rightarrow> bool" where
  "segment_in n seg \<longleftrightarrow> seg_start seg \<le> seg_end seg \<and> seg_end seg < n"

lemma length_segment_poses: "segment_in (length poses) seg \<Longrightarrow> length (segment_poses seg poses) = seg_end seg + 1 - seg_start seg"
  unfolding segment_poses_def segment_in_def length_take length_drop by linarith

lemma nth_segment_poses:
  "segment_in (length poses) seg \<Longrightarrow> i < seg_end seg + 1 - seg_start seg \<Longrightarrow> segment_poses seg poses ! i = poses ! (seg_start seg + i)"
  by (simp add: segment_poses_def segment_in_def)

lemma kept_write_segment:
  assumes seg: "segment_in (length poses) seg" and new: "kept free (segment_poses seg poses) new"
  shows "kept free poses (write_segment seg new poses)"
proof -
  define s n where "s = seg_start seg" and "n = seg_end seg + 1 - seg_start seg"
  let ?w = "write_segment seg new poses"
  note seg_len = length_segment_poses [OF seg, folded n_def] and seg_nth = nth_segment_poses [OF seg, folded n_def s_def]
  have len: "length new = n" using new seg_len by (simp add: kept_def)
  have n: "0 < n" "s + n \<le> length poses" using seg by (auto simp: segment_in_def s_def n_def)
  have w: "length ?w = length poses" using len n by (simp add: write_segment_def s_def)
  have nth: "?w ! i = (if s \<le> i \<and> i < s + n then new ! (i - s) else poses ! i)" if "i < length poses" for i
    using that len n by (auto simp: write_segment_def nth_append min_def s_def)
  have xy: "pose_xy (?w ! i) = pose_xy (poses ! i) \<or> free (pose_xy (?w ! i))" if i: "i < length poses" for i
  proof (cases "s \<le> i \<and> i < s + n")
    case True
    then have "i - s < n" by linarith
    with new len seg_nth [OF this] seg_len True nth [OF i] show ?thesis by (auto simp: kept_def)
  next
    case False
    with nth [OF i] show ?thesis by presburger
  qed
  have ne: "new \<noteq> []" "segment_poses seg poses \<noteq> []" "poses \<noteq> []" "?w \<noteq> []" using len n seg_len w by auto
  have "ps_position (?w ! 0) = ps_position (poses ! 0)"
  proof (cases "s = 0")
    case True
    then show ?thesis using new ne seg_nth [OF n(1)] nth [of 0] n by (simp add: kept_def hd_conv_nth)
  qed (use nth [of 0] ne in simp)
  moreover have "ps_position (?w ! (length poses - 1)) = ps_position (poses ! (length poses - 1))"
  proof (cases "s + n = length poses")
    case True
    then have L: "length poses - 1 = s + (n - 1)" "s + (n - 1) < length poses" using n(1) by linarith+
    have "ps_position (new ! (n - 1)) = ps_position (poses ! (s + (n - 1)))"
      using new ne seg_nth [of "n - 1"] len n(1) seg_len by (simp add: kept_def last_conv_nth)
    then show ?thesis unfolding L(1) nth [OF L(2)] using n(1) by simp
  next
    case False
    then have "\<not> (s \<le> length poses - 1 \<and> length poses - 1 < s + n)" using n by linarith
    then show ?thesis using nth [of "length poses - 1"] ne by (simp only: if_False) simp
  qed
  ultimately show ?thesis using w xy ne by (simp add: kept_def hd_conv_nth last_conv_nth)
qed

lemma smooth_segments_kept:
  assumes "\<forall>seg \<in> set segs. segment_in (length (path_poses path)) seg"
    and "smooth_segments tf m late p segs ok path tick = (path', outcome)"
  shows "kept (free_at m) (path_poses path) (path_poses path')"
  using assms
proof (induction tf m late p segs ok path tick rule: smooth_segments.induct)
  case (2 tf m late p seg segs ok path tick)
  show ?case
  proof (cases "3 < seg_end seg - seg_start seg")
    case True
    let ?seg = "path\<lparr>path_poses := segment_poses seg (path_poses path)\<rparr>"
    obtain cur r tick1 where impl: "smoothImpl tf m late p 0 ?seg tick = (cur, r, tick1)"
      by (cases "smoothImpl tf m late p 0 ?seg tick") auto
    have seg: "segment_in (length (path_poses path)) seg" using 2(3) by simp
    have cur: "kept (free_at m) (segment_poses seg (path_poses path)) (path_poses cur)"
      using smoothImpl_kept [of m ?seg tf late p 0 tick] impl by simp
    note written = kept_write_segment [OF seg cur]
    show ?thesis
    proof (cases r)
      case (Inl exn)
      with 2(4) True impl show ?thesis by simp
    next
      case (Inr success)
      let ?path = "path\<lparr>path_poses := write_segment seg (path_poses cur) (path_poses path)\<rparr>"
      have "kept (free_at m) (path_poses ?path) (path_poses path')"
        by (rule 2(1) [OF True impl [symmetric] refl Inr]) (use 2(3,4) True impl Inr written in \<open>simp_all add: kept_def\<close>)
      with written show ?thesis by (auto intro: kept_trans)
    qed
  next
    case False
    with 2 show ?thesis by simp
  qed
qed simp

lemma directional_segments_in:
  assumes "path_poses path \<noteq> []"
  shows "\<forall>seg \<in> set (findDirectionalPathSegments tf path). segment_in (length (path_poses path)) seg"
proof -
  let ?n = "length (path_poses path)" and ?poses = "path_poses path"
  define ok where "ok k st \<longleftrightarrow> (\<forall>seg \<in> set (fst st). segment_in ?n seg) \<and> snd st \<le> k" for k and st :: "PathSegment list \<times> nat"
  have cut: "ok k st \<Longrightarrow> k < ?n \<Longrightarrow> ok k (cut_segment k st)" for k st
    by (auto simp: ok_def cut_segment_def segment_in_def split: prod.split)
  then have step: "ok k st \<Longrightarrow> k < ?n \<Longrightarrow> ok k (directional_step tf ?poses k st)" for k st
    by (simp add: directional_step_def Let_def split: prod.split)
  have ok_Suc: "ok k st \<Longrightarrow> ok (Suc k) st" for k st by (simp add: ok_def)
  have run: "ok j st \<Longrightarrow> j \<le> ?n - 1 \<Longrightarrow> ok (?n - 1) (fold (directional_step tf ?poses) [j..<?n - 1] st)" for j st
  proof (induction "?n - 1 - j" arbitrary: j st)
    case 0
    then have "j = ?n - 1" by linarith
    with 0 show ?case by simp
  next
    case (Suc d)
    have "j < ?n - 1" using Suc.hyps(2) by linarith
    with Suc.hyps(1) [of "Suc j" "directional_step tf ?poses j st"] ok_Suc [OF step [OF Suc.prems(1)]] Suc.hyps(2) show ?case
      by (simp add: upt_conv_Cons)
  qed
  have "ok (?n - 1) (fold (directional_step tf ?poses) [1..<?n - 1] ([], 0))"
  proof (cases "?n = 1")
    case False
    moreover have "0 < ?n" using assms by simp
    ultimately have "1 \<le> ?n - 1" by linarith
    then show ?thesis by (intro run) (simp_all add: ok_def)
  qed (simp add: ok_def)
  with cut assms have "ok (?n - 1) (cut_segment (?n - 1) (fold (directional_step tf ?poses) [1..<?n - 1] ([], 0)))" by simp
  then show ?thesis by (simp add: ok_def findDirectionalPathSegments_def Let_def)
qed

lemma simple_smooth_kept:
  assumes "path_poses path \<noteq> []" and "simple_smooth tf m late p path tick = (path', outcome, tick')"
  shows "kept (free_at m) (path_poses path) (path_poses path')"
proof -
  have whole: "segment_in (length (path_poses path)) \<lparr>seg_start = 0, seg_end = length (path_poses path) - 1\<rparr>"
    using assms(1) by (simp add: segment_in_def)
  show ?thesis
    using smooth_segments_kept [OF _ assms(2) [unfolded simple_smooth_def]] directional_segments_in [OF assms(1)] whole by auto
qed

text \<open>
  C16: the smoother always returns. Whether it succeeds, gives up or times out, the path keeps its
  number of waypoints, its first and its last waypoint stay where they are, and every
  waypoint it has moved lies in the map on a cell that is not an obstacle (unknown cells count as
  free).
\<close>

theorem simple_smooth_keeps:
  assumes "path_poses path \<noteq> []"
  shows "\<exists>path' outcome tick'. simple_smooth tf m late p path tick = (path', outcome, tick') \<and>
    length (path_poses path') = length (path_poses path) \<and>
    ps_position (hd (path_poses path')) = ps_position (hd (path_poses path)) \<and>
    ps_position (last (path_poses path')) = ps_position (last (path_poses path)) \<and>
    (\<forall>i < length (path_poses path). pose_xy (path_poses path' ! i) = pose_xy (path_poses path ! i) \<or>
       (\<exists>mx my. worldToMap m (pos_x (ps_position (path_poses path' ! i))) (pos_y (ps_position (path_poses path' ! i))) = Some (mx, my) \<and>
          (getCost m mx my < INSCRIBED_INFLATED_OBSTACLE \<or> getCost m mx my = NO_INFORMATION)))"
proof -
  obtain path' outcome tick' where run: "simple_smooth tf m late p path tick = (path', outcome, tick')"
    by (cases "simple_smooth tf m late p path tick") auto
  have "kept (free_at m) (path_poses path) (path_poses path')" using simple_smooth_kept [OF assms run] .
  moreover have "(\<exists>mx my. worldToMap m x y = Some (mx, my) \<and> (getCost m mx my < INSCRIBED_INFLATED_OBSTACLE \<or> getCost m mx my = NO_INFORMATION))"
    if "free_at m (x, y)" for x y
    using that by (auto simp: free_at_def collides_def cost_at_def not_le split: option.splits)
  ultimately show ?thesis using run assms unfolding kept_def by blast
qed


theorem simple_smooth_keeps_witness:
  "\<exists>path' outcome tick'.
     simple_smooth \<lparr>tf_getYaw = (\<lambda>q. 0), tf_shortest_angular_distance = (\<lambda>a b. b - a), tf_orientationAroundZAxis = (\<lambda>a. Quaternion_init)\<rparr>
       (new_Costmap2D (\<lambda>i. 7) 9 9 1 0 0 0) (\<lambda>tick. False)
       \<lparr>sp_tolerance = 1, sp_max_its = 10, sp_data_w = 1 / 5, sp_smooth_w = 3 / 10, sp_do_refinement = True, sp_refinement_num = 2,
        sp_enforce_path_inversion = True\<rparr>
       \<lparr>path_frame_id = ''ifc'', path_poses = map (pose_of_waypoint ''ifc'') [(1, 1, 0), (2, 3, 0), (3, 1, 0), (4, 3, 0), (5, 1, 0)]\<rparr> 0 =
       (path', outcome, tick') \<and> length (path_poses path') = 5"
  using simple_smooth_keeps [of "\<lparr>path_frame_id = ''ifc'', path_poses = map (pose_of_waypoint ''ifc'') [(1, 1, 0), (2, 3, 0), (3, 1, 0), (4, 3, 0), (5, 1, 0)]\<rparr>"]
  by fastforce

end
