(* ===== verification/Savitzky_Golay.thy ===== *)
theory Savitzky_Golay
  imports Simple_Smoother
begin

text \<open>
  \<open>navbim_smoother/savitzky_golay_smoother.cpp\<close>: the second smoother of the room planner, a filter
  that replaces every inner waypoint by a weighted sum of the waypoints around it. The weights are
  the first row of the pseudoinverse of a Vandermonde matrix. Matrix inversion (Eigen) is a
  parameter; matrices are lists of rows.
\<close>

section \<open>The filter\<close>

record sg_params =
  sg_window_size :: int
  sg_half_window_size :: nat
  sg_do_refinement :: bool
  sg_refinement_num :: int
  sg_enforce_path_inversion :: bool
  sg_coeffs :: "real list"

text \<open>The columns of the matrix are powers of the offsets \<open>-half, \<dots>, half\<close> in the window.\<close>

definition offset :: "nat \<Rightarrow> nat \<Rightarrow> real" where
  "offset half r = real r - real half"

definition normal_matrix :: "nat \<Rightarrow> nat \<Rightarrow> nat \<Rightarrow> real list list" where
  "normal_matrix window half poly_order =
     map (\<lambda>i. map (\<lambda>j. \<Sum>r<window. offset half r ^ i * offset half r ^ j) [0..<poly_order + 1]) [0..<poly_order + 1]"

definition calculateCoefficients :: "(real list list \<Rightarrow> real list list) \<Rightarrow> nat \<Rightarrow> nat \<Rightarrow> nat \<Rightarrow> real list" where
  "calculateCoefficients inverse_of window half poly_order =
     map (\<lambda>r. \<Sum>i<poly_order + 1. inverse_of (normal_matrix window half poly_order) ! 0 ! i * offset half r ^ i) [0..<window]"

definition sg_configure ::
  "(real list list \<Rightarrow> real list list) \<Rightarrow> bool \<Rightarrow> int \<Rightarrow> bool \<Rightarrow> int \<Rightarrow> nat \<Rightarrow> sg_params result" where
  "sg_configure inverse_of do_refinement refinement_num enforce_path_inversion window_size poly_order =
     (if window_size mod 2 = 0 \<or> window_size \<le> 2 then Inl Runtime_error
      else let half = nat ((window_size - 1) div 2) in
        Inr \<lparr>sg_window_size = window_size, sg_half_window_size = half, sg_do_refinement = do_refinement,
             sg_refinement_num = refinement_num, sg_enforce_path_inversion = enforce_path_inversion,
             sg_coeffs = calculateCoefficients inverse_of (nat window_size) half poly_order\<rparr>)"

definition filter_point :: "sg_params \<Rightarrow> (real \<times> real) list \<Rightarrow> nat \<Rightarrow> real \<times> real" where
  "filter_point p init idx =
     fold (\<lambda>k (ax, ay).
         let path_idx = nat (max 0 (min (int (length init) - 1) (int idx + (int k - int (sg_half_window_size p)))));
             c = sg_coeffs p ! k
         in (ax + c * fst (init ! path_idx), ay + c * snd (init ! path_idx)))
       [0..<2 * sg_half_window_size p + 1] (0, 0)"

definition set_xy :: "real \<times> real \<Rightarrow> pose_stamped \<Rightarrow> pose_stamped" where
  "set_xy q pose = pose\<lparr>ps_position := (ps_position pose)\<lparr>pos_x := fst q, pos_y := snd q\<rparr>\<rparr>"

definition applyFilterOverAxes :: "sg_params \<Rightarrow> pose_stamped list \<Rightarrow> pose_stamped list" where
  "applyFilterOverAxes p plan_pts =
     (let init = map pose_xy plan_pts in
      fold (\<lambda>idx pts. pts[idx := set_xy (filter_point p init idx) (pts ! idx)]) [1..<length plan_pts - 1] plan_pts)"

text \<open>A waypoint outside of the map is not checked.\<close>

definition sg_free :: "Costmap2D \<Rightarrow> real \<times> real \<Rightarrow> bool" where
  "sg_free m q = (case worldToMap m (fst q) (snd q) of
       Some (mx, my) \<Rightarrow> getCost m mx my \<le> MAX_NON_OBSTACLE \<or> getCost m mx my = NO_INFORMATION
     | None \<Rightarrow> True)"

definition sg_collision :: "Costmap2D \<Rightarrow> pose_stamped list \<Rightarrow> bool" where
  "sg_collision m poses = list_ex (\<lambda>i. \<not> sg_free m (pose_xy (poses ! i))) [1..<length poses - 1]"

text \<open>The refinement passes: \<open>None\<close> when one of them hits an obstacle.\<close>

fun sg_refine :: "Costmap2D \<Rightarrow> sg_params \<Rightarrow> nat \<Rightarrow> pose_stamped list \<Rightarrow> pose_stamped list option" where
  "sg_refine m p 0 poses = Some poses"
| "sg_refine m p (Suc k) poses =
     (let poses1 = applyFilterOverAxes p poses in if sg_collision m poses1 then None else sg_refine m p k poses1)"

definition sg_smoothImpl :: "tf_ops \<Rightarrow> Costmap2D \<Rightarrow> sg_params \<Rightarrow> path_msg \<Rightarrow> path_msg \<times> bool" where
  "sg_smoothImpl tf m p path =
     (let poses1 = applyFilterOverAxes p (path_poses path) in
      if sg_collision m poses1 then (updateApproximatePathOrientations tf path, False)
      else case (if sg_do_refinement p then sg_refine m p (nat (sg_refinement_num p)) poses1 else Some poses1) of
          None \<Rightarrow> (updateApproximatePathOrientations tf path, False)
        | Some poses2 \<Rightarrow> (updateApproximatePathOrientations tf (path\<lparr>path_poses := poses2\<rparr>), True))"

text \<open>Once a segment has failed the later ones are only copied back.\<close>

fun sg_segments ::
  "tf_ops \<Rightarrow> Costmap2D \<Rightarrow> (nat \<Rightarrow> bool) \<Rightarrow> sg_params \<Rightarrow> PathSegment list \<Rightarrow> bool \<Rightarrow> path_msg \<Rightarrow> nat \<Rightarrow>
     path_msg \<times> bool result \<times> nat" where
  "sg_segments tf m late p [] success path tick = (path, Inr success, tick)"
| "sg_segments tf m late p (seg # segs) success path tick =
     (if nat (sg_window_size p + 2) < seg_end seg - seg_start seg
      then if late tick then (path, Inl Runtime_error, tick + 1)
        else let curr = path\<lparr>path_poses := segment_poses seg (path_poses path)\<rparr>;
                 (curr1, success1) = (if success then sg_smoothImpl tf m p curr else (curr, False))
             in sg_segments tf m late p segs success1
                  (path\<lparr>path_poses := write_segment seg (path_poses curr1) (path_poses path)\<rparr>) (tick + 1)
      else sg_segments tf m late p segs success path tick)"

definition sg_smooth ::
  "tf_ops \<Rightarrow> Costmap2D \<Rightarrow> (nat \<Rightarrow> bool) \<Rightarrow> sg_params \<Rightarrow> path_msg \<Rightarrow> nat \<Rightarrow> path_msg \<times> bool result \<times> nat" where
  "sg_smooth tf m late p path tick =
     sg_segments tf m late p
       (if sg_enforce_path_inversion p then findDirectionalPathSegments tf path
        else [\<lparr>seg_start = 0, seg_end = length (path_poses path) - 1\<rparr>]) True path tick"

section \<open>The weights\<close>

text \<open>
  \<open>left_inverse\<close>: what the inversion promises of the first row of the inverse of a square matrix.
\<close>

definition inverts :: "(real list list \<Rightarrow> real list list) \<Rightarrow> real list list \<Rightarrow> bool" where
  "inverts inverse_of A \<longleftrightarrow>
     (\<forall>i < length A. \<forall>j < length A. (\<Sum>k<length A. inverse_of A ! i ! k * A ! k ! j) = (if i = j then 1 else 0))"

lemma coeff_moment:
  assumes "inverts inverse_of (normal_matrix window half poly_order)" and "j \<le> poly_order"
  shows "(\<Sum>r<window. calculateCoefficients inverse_of window half poly_order ! r * offset half r ^ j) = (if j = 0 then 1 else 0)"
proof -
  let ?A = "normal_matrix window half poly_order" and ?n = "poly_order + 1"
  have len: "length ?A = ?n" by (simp add: normal_matrix_def)
  have entry: "?A ! k ! j = (\<Sum>r<window. offset half r ^ k * offset half r ^ j)" if "k < ?n" for k
    using that assms(2) unfolding normal_matrix_def by (simp del: upt_Suc)
  have "(\<Sum>r<window. calculateCoefficients inverse_of window half poly_order ! r * offset half r ^ j) =
      (\<Sum>r<window. \<Sum>k<?n. inverse_of ?A ! 0 ! k * (offset half r ^ k * offset half r ^ j))"
    by (intro sum.cong refl) (simp add: calculateCoefficients_def sum_distrib_right mult.assoc del: sum.lessThan_Suc)
  also have "\<dots> = (\<Sum>k<?n. inverse_of ?A ! 0 ! k * ?A ! k ! j)"
    by (subst sum.swap) (intro sum.cong refl, simp add: entry sum_distrib_left)
  also have "\<dots> = (if j = 0 then 1 else 0)"
    using assms(1) [unfolded inverts_def, rule_format, of 0 j] assms(2) unfolding len by auto
  finally show ?thesis .
qed

lemma filter_point_sum:
  "filter_point p init idx =
     (\<Sum>k<2 * sg_half_window_size p + 1. sg_coeffs p ! k * fst (init ! nat (max 0 (min (int (length init) - 1) (int idx + (int k - int (sg_half_window_size p)))))),
      \<Sum>k<2 * sg_half_window_size p + 1. sg_coeffs p ! k * snd (init ! nat (max 0 (min (int (length init) - 1) (int idx + (int k - int (sg_half_window_size p)))))))"
proof -
  have "fold (\<lambda>k (ax, ay). (ax + f k, ay + g k)) [0..<n] (0, 0) = (\<Sum>k<n. f k, \<Sum>k<n. g k)" for f g :: "nat \<Rightarrow> real" and n
    by (induction n) auto
  then show ?thesis by (simp add: filter_point_def Let_def del: upt_Suc)
qed



section \<open>What the filter keeps\<close>

text \<open>The filter moves inner waypoints only.\<close>

lemma applyFilterOverAxes_ends:
  assumes "poses \<noteq> []"
  shows "length (applyFilterOverAxes p poses) = length poses"
    and "hd (applyFilterOverAxes p poses) = hd poses" and "last (applyFilterOverAxes p poses) = last poses"
proof -
  let ?upd = "\<lambda>idx pts. pts[idx := set_xy (filter_point p (map pose_xy poses) idx) (pts ! idx)]"
  have run: "length (fold ?upd is pts) = length pts \<and> fold ?upd is pts ! 0 = pts ! 0 \<and>
      fold ?upd is pts ! (length pts - 1) = pts ! (length pts - 1)"
    if "set is \<subseteq> {1..<length pts - 1}" for "is" pts
    using that
  proof (induction "is" arbitrary: pts)
    case (Cons i "is")
    then have "set is \<subseteq> {1..<length (?upd i pts) - 1}" by simp
    note IH = Cons.IH [OF this]
    have "i \<noteq> 0" "i \<noteq> length pts - 1" using Cons.prems by auto
    with IH show ?case by simp
  qed simp
  have all: "length (applyFilterOverAxes p poses) = length poses \<and> applyFilterOverAxes p poses ! 0 = poses ! 0 \<and>
      applyFilterOverAxes p poses ! (length poses - 1) = poses ! (length poses - 1)"
    unfolding applyFilterOverAxes_def Let_def by (rule run) simp
  then show len: "length (applyFilterOverAxes p poses) = length poses" by blast
  then have "applyFilterOverAxes p poses \<noteq> []" using assms by auto
  with all assms show "hd (applyFilterOverAxes p poses) = hd poses" "last (applyFilterOverAxes p poses) = last poses"
    by (simp_all add: hd_conv_nth last_conv_nth)
qed

text \<open>A path with the ends of another one and no collision is a smoothed form of it.\<close>

lemma no_collision_kept:
  assumes "poses \<noteq> []" and "length poses' = length poses" and "hd poses' = hd poses" and "last poses' = last poses"
    and "\<not> sg_collision m poses'"
  shows "kept (sg_free m) poses poses'"
proof -
  have ne: "poses' \<noteq> []" using assms(1,2) by auto
  have "pose_xy (poses' ! i) = pose_xy (poses ! i) \<or> sg_free m (pose_xy (poses' ! i))" if i: "i < length poses" for i
  proof -
    consider "i = 0" | "i = length poses - 1" | "1 \<le> i" "i < length poses - 1" using i by linarith
    then show ?thesis
    proof cases
      case 1
      then show ?thesis using assms(1,3) ne by (simp add: hd_conv_nth)
    next
      case 2
      then show ?thesis using assms(1,2,4) ne by (simp add: last_conv_nth)
    next
      case 3
      then show ?thesis using assms(2,5) by (auto simp: sg_collision_def list_ex_iff)
    qed
  qed
  with assms(1-4) show ?thesis by (simp add: kept_def)
qed

lemma sg_refine_ends:
  "sg_refine m p k poses = Some poses' \<Longrightarrow> poses \<noteq> [] \<Longrightarrow> \<not> sg_collision m poses \<Longrightarrow>
     length poses' = length poses \<and> hd poses' = hd poses \<and> last poses' = last poses \<and> \<not> sg_collision m poses'"
proof (induction k arbitrary: poses)
  case (Suc k)
  note ends = applyFilterOverAxes_ends [OF Suc.prems(2), of p]
  from ends(1) Suc.prems(2) have "applyFilterOverAxes p poses \<noteq> []" by auto
  with Suc.IH [of "applyFilterOverAxes p poses"] Suc.prems(1) ends show ?case by (simp add: Let_def split: if_splits)
qed simp

lemma sg_smoothImpl_kept:
  assumes "path_poses path \<noteq> []"
  shows "kept (sg_free m) (path_poses path) (path_poses (fst (sg_smoothImpl tf m p path)))"
proof -
  let ?poses1 = "applyFilterOverAxes p (path_poses path)"
  note ends = applyFilterOverAxes_ends [OF assms, of p]
  have ne: "?poses1 \<noteq> []" using ends(1) assms by auto
  have kept1: "kept (sg_free m) (path_poses path) ?poses1" if "\<not> sg_collision m ?poses1"
    using no_collision_kept [OF assms ends that] .
  have kept2: "kept (sg_free m) (path_poses path) poses2"
    if "\<not> sg_collision m ?poses1" "sg_refine m p k ?poses1 = Some poses2" for k poses2
    using no_collision_kept [OF assms] sg_refine_ends [OF that(2) ne that(1)] ends by simp
  have orig: "kept (sg_free m) (path_poses path) (path_poses (updateApproximatePathOrientations tf path))"
    by (rule kept_orientations) simp
  show ?thesis
    using kept1 kept2 orig unfolding sg_smoothImpl_def Let_def
    by (auto intro!: kept_orientations split: option.split)
qed

lemma sg_segments_kept:
  assumes "\<forall>seg \<in> set segs. segment_in (length (path_poses path)) seg"
    and "sg_segments tf m late p segs ok path tick = (path', outcome)"
  shows "kept (sg_free m) (path_poses path) (path_poses path')"
  using assms
proof (induction segs arbitrary: ok path tick)
  case (Cons seg segs)
  let ?curr = "path\<lparr>path_poses := segment_poses seg (path_poses path)\<rparr>"
  have seg: "segment_in (length (path_poses path)) seg" using Cons.prems(1) by simp
  have ne: "path_poses ?curr \<noteq> []" using length_segment_poses [OF seg] seg by (auto simp: segment_in_def)
  define curr1 ok1 where "curr1 = fst (if ok then sg_smoothImpl tf m p ?curr else (?curr, False))"
    and "ok1 = snd (if ok then sg_smoothImpl tf m p ?curr else (?curr, False))"
  have "kept (sg_free m) (segment_poses seg (path_poses path)) (path_poses curr1)"
    using sg_smoothImpl_kept [OF ne, of m tf p] by (simp add: curr1_def)
  note written = kept_write_segment [OF seg this]
  show ?case
  proof (cases "nat (sg_window_size p + 2) < seg_end seg - seg_start seg")
    case False
    with Cons show ?thesis by simp
  next
    case big: True
    show ?thesis
    proof (cases "late tick")
      case True
      with big Cons.prems show ?thesis by simp
    next
      case False
      let ?path = "path\<lparr>path_poses := write_segment seg (path_poses curr1) (path_poses path)\<rparr>"
      have "sg_segments tf m late p segs ok1 ?path (tick + 1) = (path', outcome)"
        using Cons.prems(2) big False by (simp add: Let_def curr1_def ok1_def case_prod_beta)
      moreover have "\<forall>seg \<in> set segs. segment_in (length (path_poses ?path)) seg"
        using Cons.prems(1) written by (simp add: kept_def)
      ultimately have "kept (sg_free m) (path_poses ?path) (path_poses path')" by (rule Cons.IH [rotated])
      with written show ?thesis by (auto intro: kept_trans)
    qed
  qed
qed simp

lemma sg_smooth_kept:
  assumes "path_poses path \<noteq> []" and "sg_smooth tf m late p path tick = (path', outcome, tick')"
  shows "kept (sg_free m) (path_poses path) (path_poses path')"
proof -
  have whole: "segment_in (length (path_poses path)) \<lparr>seg_start = 0, seg_end = length (path_poses path) - 1\<rparr>"
    using assms(1) by (simp add: segment_in_def)
  show ?thesis
    using sg_segments_kept [OF _ assms(2) [unfolded sg_smooth_def]] directional_segments_in [OF assms(1)] whole by auto
qed

end
