(* ===== verification/Line_Iterator.thy ===== *)
theory Line_Iterator
  imports Prelude
begin

text \<open>
  \<open>nav2_util/line_iterator.hpp\<close>: the Bresenham iterator over the cells of a line, which the room
  planner uses to sum the costs along a path. The members are \<open>int\<close>; the end points are cells of
  a map, so that no operation overflows.
\<close>

record LineIterator =
  li_x :: int
  li_y :: int
  li_deltax :: int
  li_deltay :: int
  li_curpixel :: int
  li_xinc1 :: int
  li_xinc2 :: int
  li_yinc1 :: int
  li_yinc2 :: int
  li_den :: int
  li_num :: int
  li_numadd :: int
  li_numpixels :: int

definition line_iterator :: "int \<Rightarrow> int \<Rightarrow> int \<Rightarrow> int \<Rightarrow> LineIterator" where
  "line_iterator x0 y0 x1 y1 =
     (let deltax = \<bar>x1 - x0\<bar>; deltay = \<bar>y1 - y0\<bar>;
          xinc = (if x0 \<le> x1 then 1 else - 1); yinc = (if y0 \<le> y1 then 1 else - 1)
      in if deltay \<le> deltax
         then \<lparr>li_x = x0, li_y = y0, li_deltax = deltax, li_deltay = deltay, li_curpixel = 0,
               li_xinc1 = 0, li_xinc2 = xinc, li_yinc1 = yinc, li_yinc2 = 0,
               li_den = deltax, li_num = deltax div 2, li_numadd = deltay, li_numpixels = deltax\<rparr>
         else \<lparr>li_x = x0, li_y = y0, li_deltax = deltax, li_deltay = deltay, li_curpixel = 0,
               li_xinc1 = xinc, li_xinc2 = 0, li_yinc1 = 0, li_yinc2 = yinc,
               li_den = deltay, li_num = deltay div 2, li_numadd = deltax, li_numpixels = deltay\<rparr>)"

definition isValid :: "LineIterator \<Rightarrow> bool" where
  "isValid line \<longleftrightarrow> li_curpixel line \<le> li_numpixels line"

definition advance :: "LineIterator \<Rightarrow> LineIterator" where
  "advance line =
     (let num = li_num line + li_numadd line;
          line1 = (if li_den line \<le> num
            then line\<lparr>li_num := num - li_den line, li_x := li_x line + li_xinc1 line, li_y := li_y line + li_yinc1 line\<rparr>
            else line\<lparr>li_num := num\<rparr>)
      in line1\<lparr>li_x := li_x line1 + li_xinc2 line, li_y := li_y line1 + li_yinc2 line,
               li_curpixel := li_curpixel line + 1\<rparr>)"

lemma advance_pixels [simp]:
  "li_curpixel (advance line) = li_curpixel line + 1" "li_numpixels (advance line) = li_numpixels line"
  by (simp_all add: advance_def Let_def)

text \<open>The cells a loop \<open>for (LineIterator line(...); line.isValid(); line.advance())\<close> visits.\<close>

function line_cells :: "LineIterator \<Rightarrow> (int \<times> int) list" where
  "line_cells line = (if isValid line then (li_x line, li_y line) # line_cells (advance line) else [])"
  by pat_completeness auto

termination
  by (relation "measure (\<lambda>line. nat (li_numpixels line + 1 - li_curpixel line))") (auto simp: isValid_def)

declare line_cells.simps [simp del]

section \<open>The cells of a line\<close>

text \<open>
  Along the dominant axis the iterator makes one step per cell; along the other one it has made
  \<open>(den / 2 + k * numadd) / den\<close> steps after \<open>k\<close> cells.
\<close>

definition minor_steps :: "int \<Rightarrow> int \<Rightarrow> int \<Rightarrow> int" where
  "minor_steps den numadd k = (den div 2 + k * numadd) div den"

lemma minor_steps_next:
  fixes k :: int
  assumes "0 < den" and "0 \<le> numadd" and "numadd \<le> den"
  defines "num \<equiv> (den div 2 + k * numadd) mod den"
  shows "minor_steps den numadd (k + 1) = minor_steps den numadd k + (if den \<le> num + numadd then 1 else 0)"
    and "(den div 2 + (k + 1) * numadd) mod den = num + numadd - (if den \<le> num + numadd then den else 0)"
proof -
  let ?s = "den div 2 + k * numadd" and ?b = "if den \<le> num + numadd then 1 else 0 :: int"
  have num: "0 \<le> num" "num < den" using assms(1) by (simp_all add: num_def)
  have s: "?s = minor_steps den numadd k * den + num"
    by (simp add: num_def minor_steps_def)
  have split: "den div 2 + (k + 1) * numadd = (minor_steps den numadd k + ?b) * den + (num + numadd - ?b * den)"
    using s by (simp add: algebra_simps)
  have r: "0 \<le> num + numadd - ?b * den" "num + numadd - ?b * den < den"
    using num assms(2,3) by auto
  have "(den div 2 + (k + 1) * numadd) div den = minor_steps den numadd k + ?b"
    unfolding split using r by simp
  then show "minor_steps den numadd (k + 1) = minor_steps den numadd k + ?b" by (simp add: minor_steps_def)
  have "(den div 2 + (k + 1) * numadd) mod den = num + numadd - ?b * den"
    unfolding split using r by (simp add: mod_pos_pos_trivial)
  then show "(den div 2 + (k + 1) * numadd) mod den = num + numadd - (if den \<le> num + numadd then den else 0)" by simp
qed

lemma minor_steps_ends:
  assumes "0 \<le> numadd" and "numadd \<le> den"
  shows "minor_steps den numadd 0 = 0" and "minor_steps den numadd den = numadd"
  using assms by (cases "den = 0"; simp add: minor_steps_def)+

lemma minor_steps_bounds:
  assumes "0 \<le> numadd" and "numadd \<le> den" and "0 \<le> k" and "k \<le> den"
  shows "0 \<le> minor_steps den numadd k" and "minor_steps den numadd k \<le> numadd"
    and "2 * \<bar>k * numadd - minor_steps den numadd k * den\<bar> \<le> den"
proof -
  have "0 \<le> minor_steps den numadd k \<and> minor_steps den numadd k \<le> numadd \<and>
      2 * \<bar>k * numadd - minor_steps den numadd k * den\<bar> \<le> den"
  proof (cases "den = 0")
    case True
    with assms show ?thesis by (simp add: minor_steps_def)
  next
    case False
    with assms have den: "0 < den" by simp
    have "minor_steps den numadd k \<le> minor_steps den numadd den"
      unfolding minor_steps_def using assms den by (intro zdiv_mono1) (auto intro: mult_right_mono)
    moreover have "k * numadd - minor_steps den numadd k * den = (den div 2 + k * numadd) mod den - den div 2"
      using div_mult_mod_eq [of "den div 2 + k * numadd" den] unfolding minor_steps_def by linarith
    then have "2 * \<bar>k * numadd - minor_steps den numadd k * den\<bar> \<le> den"
      using pos_mod_bound [OF den, of "den div 2 + k * numadd"] pos_mod_sign [OF den, of "den div 2 + k * numadd"]
      by (simp add: abs_if) linarith
    moreover have "0 \<le> minor_steps den numadd k" using assms den by (simp add: minor_steps_def pos_imp_zdiv_nonneg_iff)
    ultimately show ?thesis using minor_steps_ends(2) [OF assms(1,2)] by simp
  qed
  then show "0 \<le> minor_steps den numadd k" "minor_steps den numadd k \<le> numadd"
    "2 * \<bar>k * numadd - minor_steps den numadd k * den\<bar> \<le> den" by simp_all
qed

definition line_point :: "int \<Rightarrow> int \<Rightarrow> int \<Rightarrow> int \<Rightarrow> int \<Rightarrow> int \<times> int" where
  "line_point x0 y0 x1 y1 k =
     (let dx = \<bar>x1 - x0\<bar>; dy = \<bar>y1 - y0\<bar>; sx = (if x0 \<le> x1 then 1 else - 1); sy = (if y0 \<le> y1 then 1 else - 1)
      in if dy \<le> dx then (x0 + sx * k, y0 + sy * minor_steps dx dy k)
         else (x0 + sx * minor_steps dy dx k, y0 + sy * k))"

text \<open>The state of an iterator that stands at its \<open>k\<close>-th cell.\<close>

definition at_pixel :: "int \<Rightarrow> int \<Rightarrow> int \<Rightarrow> LineIterator \<Rightarrow> bool" where
  "at_pixel x0 y0 k line \<longleftrightarrow>
     0 < li_den line \<and> 0 \<le> li_numadd line \<and> li_numadd line \<le> li_den line \<and> li_curpixel line = k \<and>
     li_num line = (li_den line div 2 + k * li_numadd line) mod li_den line \<and>
     li_x line = x0 + li_xinc1 line * minor_steps (li_den line) (li_numadd line) k + li_xinc2 line * k \<and>
     li_y line = y0 + li_yinc1 line * minor_steps (li_den line) (li_numadd line) k + li_yinc2 line * k"

lemma advance_consts [simp]:
  "li_den (advance line) = li_den line" "li_numadd (advance line) = li_numadd line"
  "li_xinc1 (advance line) = li_xinc1 line" "li_xinc2 (advance line) = li_xinc2 line"
  "li_yinc1 (advance line) = li_yinc1 line" "li_yinc2 (advance line) = li_yinc2 line"
  by (simp_all add: advance_def Let_def)

lemma at_pixel_advance:
  assumes "at_pixel x0 y0 k line"
  shows "at_pixel x0 y0 (k + 1) (advance line)"
proof -
  let ?b = "li_den line \<le> li_num line + li_numadd line"
  have line: "0 < li_den line" "0 \<le> li_numadd line" "li_numadd line \<le> li_den line"
    and num: "li_num line = (li_den line div 2 + k * li_numadd line) mod li_den line"
    using assms by (simp_all add: at_pixel_def)
  note step = minor_steps_next [OF line, of k, folded num]
  have "li_num (advance line) = li_num line + li_numadd line - (if ?b then li_den line else 0)"
    "li_x (advance line) = li_x line + (if ?b then li_xinc1 line else 0) + li_xinc2 line"
    "li_y (advance line) = li_y line + (if ?b then li_yinc1 line else 0) + li_yinc2 line"
    by (simp_all add: advance_def Let_def)
  with step assms show ?thesis by (simp add: at_pixel_def algebra_simps)
qed

lemma line_cells_from:
  assumes "at_pixel x0 y0 k line"
  shows "line_cells line = map (\<lambda>j. (x0 + li_xinc1 line * minor_steps (li_den line) (li_numadd line) j + li_xinc2 line * j,
      y0 + li_yinc1 line * minor_steps (li_den line) (li_numadd line) j + li_yinc2 line * j)) [k..li_numpixels line]"
  using assms
proof (induction line arbitrary: k rule: line_cells.induct)
  case (1 line)
  show ?case
  proof (cases "isValid line")
    case True
    with 1 show ?thesis
      using at_pixel_advance [OF 1(2)] by (simp add: line_cells.simps isValid_def upto_rec1 at_pixel_def)
  next
    case False
    with 1(2) show ?thesis by (simp add: line_cells.simps isValid_def at_pixel_def)
  qed
qed

lemma line_cells_points:
  "line_cells (line_iterator x0 y0 x1 y1) =
     map (line_point x0 y0 x1 y1) [0..max \<bar>x1 - x0\<bar> \<bar>y1 - y0\<bar>]"
proof (cases "x1 = x0 \<and> y1 = y0")
  case True
  have "line_cells (line_iterator x0 y0 x0 y0) = [(x0, y0)]"
    by (subst line_cells.simps, subst line_cells.simps) (simp add: line_iterator_def isValid_def advance_def)
  with True show ?thesis by (simp add: line_point_def minor_steps_def)
next
  case False
  let ?line = "line_iterator x0 y0 x1 y1"
  have "at_pixel x0 y0 0 ?line"
  proof -
    have "0 < li_den ?line \<and> 0 \<le> li_numadd ?line \<and> li_numadd ?line \<le> li_den ?line \<and> li_curpixel ?line = 0 \<and>
        li_num ?line = li_den ?line div 2 \<and> li_x ?line = x0 \<and> li_y ?line = y0"
      using False by (auto simp: line_iterator_def Let_def)
    moreover from this have "li_den ?line div 2 mod li_den ?line = li_den ?line div 2" by (intro mod_pos_pos_trivial) auto
    ultimately show ?thesis unfolding at_pixel_def by (simp add: minor_steps_ends)
  qed
  from line_cells_from [OF this] show ?thesis
    by (auto simp: line_point_def line_iterator_def Let_def max_def)
qed

lemma line_point_ends:
  "line_point x0 y0 x1 y1 0 = (x0, y0)" "line_point x0 y0 x1 y1 (max \<bar>x1 - x0\<bar> \<bar>y1 - y0\<bar>) = (x1, y1)"
  by (auto simp: line_point_def Let_def minor_steps_ends max_def)

lemma line_point_next:
  assumes "0 \<le> k" and "k < max \<bar>x1 - x0\<bar> \<bar>y1 - y0\<bar>"
  shows "max \<bar>fst (line_point x0 y0 x1 y1 (k + 1)) - fst (line_point x0 y0 x1 y1 k)\<bar>
      \<bar>snd (line_point x0 y0 x1 y1 (k + 1)) - snd (line_point x0 y0 x1 y1 k)\<bar> = 1"
proof (cases "\<bar>y1 - y0\<bar> \<le> \<bar>x1 - x0\<bar>")
  case True
  then show ?thesis
    using assms minor_steps_next(1) [of "\<bar>x1 - x0\<bar>" "\<bar>y1 - y0\<bar>" k] by (simp add: line_point_def Let_def algebra_simps)
next
  case False
  then show ?thesis
    using assms minor_steps_next(1) [of "\<bar>y1 - y0\<bar>" "\<bar>x1 - x0\<bar>" k] by (simp add: line_point_def Let_def algebra_simps)
qed

lemma line_point_on_line:
  assumes "0 \<le> k" and "k \<le> max \<bar>x1 - x0\<bar> \<bar>y1 - y0\<bar>" and "line_point x0 y0 x1 y1 k = (x, y)"
  shows "min x0 x1 \<le> x \<and> x \<le> max x0 x1 \<and> min y0 y1 \<le> y \<and> y \<le> max y0 y1 \<and>
      2 * \<bar>(x - x0) * (y1 - y0) - (y - y0) * (x1 - x0)\<bar> \<le> max \<bar>x1 - x0\<bar> \<bar>y1 - y0\<bar>"
proof -
  let ?sx = "if x0 \<le> x1 then 1 else - 1 :: int" and ?sy = "if y0 \<le> y1 then 1 else - 1 :: int"
  have signs: "x1 = x0 + ?sx * \<bar>x1 - x0\<bar>" "y1 = y0 + ?sy * \<bar>y1 - y0\<bar>" by auto
  have box: "min a b \<le> a + s * q \<and> a + s * q \<le> max a b"
    if "b = a + s * d" "0 \<le> q" "q \<le> d" "s = 1 \<or> s = - 1" for a b s q d :: int
    using that by auto
  have cross: "\<bar>(?sx * p) * (y1 - y0) - (?sy * q) * (x1 - x0)\<bar> = \<bar>p * \<bar>y1 - y0\<bar> - q * \<bar>x1 - x0\<bar>\<bar>" for p q
  proof -
    have "(?sx * p) * (y1 - y0) - (?sy * q) * (x1 - x0) = (?sx * ?sy) * (p * \<bar>y1 - y0\<bar> - q * \<bar>x1 - x0\<bar>)"
      by (simp add: algebra_simps)
    moreover have "\<bar>?sx * ?sy\<bar> = 1" by simp
    ultimately show ?thesis by (metis abs_mult mult_1)
  qed
  show ?thesis
  proof (cases "\<bar>y1 - y0\<bar> \<le> \<bar>x1 - x0\<bar>")
    case True
    note q = minor_steps_bounds [OF abs_ge_zero True, of k]
    have xy: "x = x0 + ?sx * k" "y = y0 + ?sy * minor_steps \<bar>x1 - x0\<bar> \<bar>y1 - y0\<bar> k"
      using assms(3) True by (auto simp: line_point_def Let_def)
    have k: "k \<le> \<bar>x1 - x0\<bar>" using assms(2) True by simp
    have "min x0 x1 \<le> x \<and> x \<le> max x0 x1" unfolding xy(1) by (rule box [OF signs(1) assms(1) k]) simp
    moreover have "min y0 y1 \<le> y \<and> y \<le> max y0 y1" unfolding xy(2)
      by (rule box [OF signs(2) q(1,2) [OF assms(1) k]]) simp
    moreover have "2 * \<bar>(x - x0) * (y1 - y0) - (y - y0) * (x1 - x0)\<bar> \<le> \<bar>x1 - x0\<bar>"
      using q(3) [OF assms(1) k] cross [of k "minor_steps \<bar>x1 - x0\<bar> \<bar>y1 - y0\<bar> k"] unfolding xy by (simp only: add_diff_cancel_left')
    ultimately show ?thesis using True by linarith
  next
    case False
    then have le: "\<bar>x1 - x0\<bar> \<le> \<bar>y1 - y0\<bar>" by simp
    note q = minor_steps_bounds [OF abs_ge_zero le, of k]
    have xy: "x = x0 + ?sx * minor_steps \<bar>y1 - y0\<bar> \<bar>x1 - x0\<bar> k" "y = y0 + ?sy * k"
      using assms(3) False by (auto simp: line_point_def Let_def)
    have k: "k \<le> \<bar>y1 - y0\<bar>" using assms(2) le by simp
    have "min y0 y1 \<le> y \<and> y \<le> max y0 y1" unfolding xy(2) by (rule box [OF signs(2) assms(1) k]) simp
    moreover have "min x0 x1 \<le> x \<and> x \<le> max x0 x1" unfolding xy(1)
      by (rule box [OF signs(1) q(1,2) [OF assms(1) k]]) simp
    moreover have "2 * \<bar>(x - x0) * (y1 - y0) - (y - y0) * (x1 - x0)\<bar> \<le> \<bar>y1 - y0\<bar>"
      using q(3) [OF assms(1) k] cross [of "minor_steps \<bar>y1 - y0\<bar> \<bar>x1 - x0\<bar> k" k] unfolding xy
      by (simp only: add_diff_cancel_left' abs_minus_commute)
    ultimately show ?thesis using le by linarith
  qed
qed

lemma line_cells_facts:
  fixes x0 y0 x1 y1 :: int
  defines "cells \<equiv> line_cells (line_iterator x0 y0 x1 y1)" and "n \<equiv> nat (max \<bar>x1 - x0\<bar> \<bar>y1 - y0\<bar>)"
  shows "length cells = n + 1" and "hd cells = (x0, y0)" and "last cells = (x1, y1)"
    and "k < n \<Longrightarrow> max \<bar>fst (cells ! Suc k) - fst (cells ! k)\<bar> \<bar>snd (cells ! Suc k) - snd (cells ! k)\<bar> = 1"
    and "(x, y) \<in> set cells \<Longrightarrow> min x0 x1 \<le> x \<and> x \<le> max x0 x1 \<and> min y0 y1 \<le> y \<and> y \<le> max y0 y1 \<and>
      2 * \<bar>(x - x0) * (y1 - y0) - (y - y0) * (x1 - x0)\<bar> \<le> max \<bar>x1 - x0\<bar> \<bar>y1 - y0\<bar>"
proof -
  have cells: "cells = map (line_point x0 y0 x1 y1) [0..int n]"
    by (simp add: cells_def n_def line_cells_points)
  show "length cells = n + 1" by (simp add: cells)
  have nth: "k \<le> n \<Longrightarrow> cells ! k = line_point x0 y0 x1 y1 (int k)" for k by (simp add: cells)
  have ne: "cells \<noteq> []" by (simp add: cells)
  show "hd cells = (x0, y0)" using nth [of 0] ne by (simp add: hd_conv_nth line_point_ends)
  have int_n: "int n = max \<bar>x1 - x0\<bar> \<bar>y1 - y0\<bar>" by (simp add: n_def max_def)
  then show "last cells = (x1, y1)"
    using nth [of n] ne \<open>length cells = n + 1\<close> by (simp add: last_conv_nth line_point_ends)
  show "max \<bar>fst (cells ! Suc k) - fst (cells ! k)\<bar> \<bar>snd (cells ! Suc k) - snd (cells ! k)\<bar> = 1" if "k < n"
    using line_point_next [of "int k" x1 x0 y1 y0] that by (simp add: nth n_def add.commute)
  show "min x0 x1 \<le> x \<and> x \<le> max x0 x1 \<and> min y0 y1 \<le> y \<and> y \<le> max y0 y1 \<and>
      2 * \<bar>(x - x0) * (y1 - y0) - (y - y0) * (x1 - x0)\<bar> \<le> max \<bar>x1 - x0\<bar> \<bar>y1 - y0\<bar>" if mem: "(x, y) \<in> set cells"
  proof -
    obtain k where "0 \<le> k" "k \<le> max \<bar>x1 - x0\<bar> \<bar>y1 - y0\<bar>" "line_point x0 y0 x1 y1 k = (x, y)"
      using mem unfolding cells int_n by auto
    then show ?thesis by (rule line_point_on_line)
  qed
qed

text \<open>
  C38: the iterator visits \<open>max |dx| |dy| + 1\<close> cells, from the first end point to the second; each step
  goes to one of the eight neighbours; every cell lies in the box of the end points and at most half
  a cell, along the minor axis, from the line between them.
\<close>

theorem line_cells_correct:
  "let cells = line_cells (line_iterator x0 y0 x1 y1); n = nat (max \<bar>x1 - x0\<bar> \<bar>y1 - y0\<bar>) in
     length cells = n + 1 \<and> hd cells = (x0, y0) \<and> last cells = (x1, y1) \<and>
     (\<forall>k < n. max \<bar>fst (cells ! Suc k) - fst (cells ! k)\<bar> \<bar>snd (cells ! Suc k) - snd (cells ! k)\<bar> = 1) \<and>
     (\<forall>(x, y) \<in> set cells. min x0 x1 \<le> x \<and> x \<le> max x0 x1 \<and> min y0 y1 \<le> y \<and> y \<le> max y0 y1 \<and>
        2 * \<bar>(x - x0) * (y1 - y0) - (y - y0) * (x1 - x0)\<bar> \<le> max \<bar>x1 - x0\<bar> \<bar>y1 - y0\<bar>)"
  unfolding Let_def using line_cells_facts [where ?x0.0 = x0 and ?y0.0 = y0 and ?x1.0 = x1 and ?y1.0 = y1] by blast

theorem line_cells_correct_witness:
  "length (line_cells (line_iterator 0 0 5 (- 2))) = 6 \<and> last (line_cells (line_iterator 0 0 5 (- 2))) = (5, - 2)"
  using line_cells_correct [of 0 0 5 "- 2"] unfolding Let_def by simp

end
