(* ===== verification/Room_Planner.thy ===== *)
theory Room_Planner
  imports Gpp_Server Savitzky_Golay Line_Iterator
begin

text \<open>
  \<open>navbim_gpp_bim/room_planner_server.cpp\<close>: the node that plans inside one room (or, for one-level
  planning, on one floor). A goal switches the grid planner to the costmap of the room, plans,
  switches it back, smooths the path and measures it (\<open>computePlanInRoom\<close>); a service smooths a whole
  route with the costmaps of its floors (\<open>smoothPathWithFloorCostmaps\<close>).

  The planner plugins, the costmaps, the action server and the clock are parameters, functions
  on a world \<open>'w\<close>. A costmap pointer is an address or null; the costmap at an address is read where the code
  dereferences it. Locks and logging are left out.
\<close>

section \<open>State\<close>

datatype room_smoother = SimpleSmoother smoother_params | SavitzkyGolaySmoother sg_params

text \<open>A planner plugin: whether it is one of the three wrappers and the costmap it points to.\<close>

record planner =
  pl_wrapped :: bool
  pl_costmap :: "nat option"

record RoomPlannerServer =
  rp_planner_ids :: "string list"
  rp_planners :: "(string \<times> planner) list"
  rp_planner_ids_concat :: string
  rp_max_planner_duration :: real
  rp_enable_room_smoothing :: bool
  rp_room_smoother_type :: string
  rp_room_smoother_max_time :: real
  rp_smoother :: "room_smoother option"
  rp_costmap_ros :: bool
  rp_plan_publisher :: bool

record 'w room_env =
  re_server_active :: "'w \<Rightarrow> bool"
  re_cancel_requested :: "'w \<Rightarrow> bool"
  re_accept_pending :: "'w \<Rightarrow> 'w"
  re_getRobotPose :: "'w \<Rightarrow> bool result \<times> 'w"
  re_getCostmapForFloor :: "'w \<Rightarrow> string \<Rightarrow> nat option"
  re_getCostmapForRoom :: "'w \<Rightarrow> string \<Rightarrow> string \<Rightarrow> nat option"
  re_costmap_at :: "'w \<Rightarrow> nat \<Rightarrow> Costmap2D"
  re_createPlan :: "string \<Rightarrow> nat option \<Rightarrow> pose_stamped \<Rightarrow> pose_stamped \<Rightarrow> 'w \<Rightarrow> path_msg result \<times> 'w"
  re_succeeded_current :: "room_result \<Rightarrow> 'w \<Rightarrow> unit result"
  re_subscribed :: "'w \<Rightarrow> bool"
  re_late :: "'w \<Rightarrow> real \<Rightarrow> nat \<Rightarrow> bool"
  re_tf :: tf_ops

datatype room_outcome = No_outcome | Terminated_all | Room_terminated room_result | Room_succeeded room_result

definition room_result_init :: room_result where
  "room_result_init = \<lparr>rr_error_code = 0, rr_path = path_msg_init, rr_path_distance = Fin 0, rr_path_cost = Fin 0,
     rr_error_msg = [], rr_warnings = []\<rparr>"

definition default_ids :: "string list" where
  "default_ids = [''GridBased'']"

section \<open>Path measures\<close>

definition pose_distance :: "pose_stamped \<Rightarrow> pose_stamped \<Rightarrow> real" where
  "pose_distance prev_pose curr_pose =
     (let p = ps_position prev_pose; c = ps_position curr_pose;
          dx = pos_x c - pos_x p; dy = pos_y c - pos_y p; dz = pos_z c - pos_z p
      in sqrt (dx * dx + dy * dy + dz * dz))"

definition calculatePathDistance :: "path_msg \<Rightarrow> real" where
  "calculatePathDistance path =
     (let poses = path_poses path in
      if length poses < 2 then 0
      else fold (\<lambda>i total_distance. total_distance + pose_distance (poses ! (i - 1)) (poses ! i)) [1..<length poses] 0)"

text \<open>The cells of a step of the path; none where one of its ends is outside of the map.\<close>

definition step_cells :: "Costmap2D \<Rightarrow> pose_stamped \<Rightarrow> pose_stamped \<Rightarrow> (int \<times> int) list" where
  "step_cells m a b =
     (case worldToMap m (pos_x (ps_position a)) (pos_y (ps_position a)) of
        None \<Rightarrow> []
      | Some (x0, y0) \<Rightarrow>
          (case worldToMap m (pos_x (ps_position b)) (pos_y (ps_position b)) of
             None \<Rightarrow> []
           | Some (x1, y1) \<Rightarrow> line_cells (line_iterator x0 y0 x1 y1)))"

definition calculatePathCost :: "path_msg \<Rightarrow> Costmap2D option \<Rightarrow> real" where
  "calculatePathCost path costmap =
     (case costmap of
        None \<Rightarrow> - 1
      | Some m \<Rightarrow>
          if length (path_poses path) < 2 then - 1
          else
            let cells = concat (map (\<lambda>i. step_cells m (path_poses path ! (i - 1)) (path_poses path ! i)) [1..<length (path_poses path)]);
                total_cost = fold (\<lambda>(x, y) total_cost. total_cost + real (unat (getCost m (nat x) (nat y)))) cells 0;
                total_cells = length cells
            in if 0 < total_cells
               then let avg_cost = total_cost / real total_cells; cell_distance = real total_cells * cm_resolution m;
                        traversability_factor = 1 + avg_cost / 252
                    in cell_distance * traversability_factor
               else 0)"

section \<open>Planning\<close>

definition getPlan ::
  "'w room_env \<Rightarrow> (string \<times> planner) list \<Rightarrow> pose_stamped \<Rightarrow> pose_stamped \<Rightarrow> string \<Rightarrow> 'w \<Rightarrow> path_msg result \<times> 'w" where
  "getPlan env planners start goal planner_id w =
     (case map_of planners planner_id of
        Some pl \<Rightarrow> re_createPlan env planner_id (pl_costmap pl) start goal w
      | None \<Rightarrow>
          (case planners of
             [(only_id, pl)] \<Rightarrow>
               if planner_id = [] then re_createPlan env only_id (pl_costmap pl) start goal w
               else (Inl Runtime_error, w)
           | _ \<Rightarrow> (Inl Runtime_error, w)))"

definition setCostmap :: "string \<Rightarrow> nat option \<Rightarrow> (string \<times> planner) list \<Rightarrow> (string \<times> planner) list" where
  "setCostmap planner_id ptr planners =
     map (\<lambda>(k, pl). if k = planner_id then (k, pl\<lparr>pl_costmap := ptr\<rparr>) else (k, pl)) planners"

text \<open>The smoother is called through a cast to the class that \<open>room_smoother_type_\<close> names.\<close>

definition run_smoother ::
  "tf_ops \<Rightarrow> (nat \<Rightarrow> bool) \<Rightarrow> string \<Rightarrow> room_smoother \<Rightarrow> Costmap2D \<Rightarrow> path_msg \<Rightarrow> path_msg \<times> bool result" where
  "run_smoother tf late smoother_type smoother m path =
     (if smoother_type = ''simple''
      then case smoother of
          SimpleSmoother p \<Rightarrow> (case simple_smooth tf m late p path 0 of (path', outcome, _) \<Rightarrow> (path', outcome))
        | _ \<Rightarrow> (path, Inr False)
      else if smoother_type = ''savitzky_golay''
      then case smoother of
          SavitzkyGolaySmoother p \<Rightarrow> (case sg_smooth tf m late p path 0 of (path', outcome, _) \<Rightarrow> (path', outcome))
        | _ \<Rightarrow> (path, Inr False)
      else (path, Inr False))"

text \<open>The clock of a smoother starts with its call.\<close>

definition server_smooth :: "'w room_env \<Rightarrow> RoomPlannerServer \<Rightarrow> 'w \<Rightarrow> room_smoother \<Rightarrow> Costmap2D \<Rightarrow> path_msg \<Rightarrow> path_msg \<times> bool result" where
  "server_smooth env srv w smoother =
     run_smoother (re_tf env) (re_late env w (rp_room_smoother_max_time srv)) (rp_room_smoother_type srv) smoother"

definition add_warning :: "string \<Rightarrow> room_result \<Rightarrow> room_result" where
  "add_warning text r =
     r\<lparr>rr_warnings := (if rr_warnings r \<noteq> [] then rr_warnings r @ ''; '' else []) @ text\<rparr>"

definition smooth_room_path ::
  "(cpp_exception \<Rightarrow> string) \<Rightarrow> 'w room_env \<Rightarrow> RoomPlannerServer \<Rightarrow> nat \<Rightarrow> 'w \<Rightarrow> room_result \<Rightarrow> room_result" where
  "smooth_room_path what env srv room_costmap w r =
     (case rp_smoother srv of
        Some smoother \<Rightarrow>
          if rp_enable_room_smoothing srv \<and> 2 < length (path_poses (rr_path r))
          then case server_smooth env srv w smoother (re_costmap_at env w room_costmap) (rr_path r) of
              (path', Inr True) \<Rightarrow> r\<lparr>rr_path := path'\<rparr>
            | (path', Inr False) \<Rightarrow> add_warning ''Room smoothing did not complete successfully'' (r\<lparr>rr_path := path'\<rparr>)
            | (path', Inl exn) \<Rightarrow> add_warning (''Room smoothing failed: '' @ what exn) (r\<lparr>rr_path := path'\<rparr>)
          else r
      | None \<Rightarrow> r)"

definition measure_path :: "room_result \<Rightarrow> room_result" where
  "measure_path r =
     (if path_poses (rr_path r) = []
      then r\<lparr>rr_error_code := 210, rr_error_msg := ''No valid path found in room'',
             rr_path_distance := Fin (- 1), rr_path_cost := Fin (- 1)\<rparr>
      else r\<lparr>rr_error_code := 0, rr_error_msg := ''Path found successfully'',
             rr_path_distance := Fin (calculatePathDistance (rr_path r)),
             rr_path_cost := Fin (calculatePathDistance (rr_path r))\<rparr>)"

definition publishPlan :: "'w room_env \<Rightarrow> RoomPlannerServer \<Rightarrow> path_msg \<Rightarrow> 'w \<Rightarrow> path_msg list" where
  "publishPlan env srv path w = (if rp_plan_publisher srv \<and> re_subscribed env w then [path] else [])"

text \<open>Fixed notation with two decimals.\<close>

definition fixed2 :: "real \<Rightarrow> string" where
  "fixed2 x =
     (let n = round_half_even (\<bar>x\<bar> * 100) in
      (if x < 0 then ''-'' else '''') @ nat_to_string (n div 100) @ ''.'' @ pad_left 2 (nat_to_string (n mod 100)))"

definition exceptionWarning :: "(cpp_exception \<Rightarrow> string) \<Rightarrow> room_goal \<Rightarrow> cpp_exception \<Rightarrow> string" where
  "exceptionWarning what goal exn =
     rg_planner_id goal @ '' plugin failed to plan in room '' @ [char_of (39 :: nat)] @ rg_room_name goal @ [char_of (39 :: nat)] @
     '' on floor '' @ [char_of (39 :: nat)] @ rg_floor_name goal @ [char_of (39 :: nat)] @ '' from ('' @
     fixed2 (pos_x (ps_position (rg_start goal))) @ '', '' @ fixed2 (pos_y (ps_position (rg_start goal))) @ '') to ('' @
     fixed2 (pos_x (ps_position (rg_goal goal))) @ '', '' @ fixed2 (pos_y (ps_position (rg_goal goal))) @ ''): '' @
     [char_of (34 :: nat)] @ what exn @ [char_of (34 :: nat)]"

text \<open>The end of a planned goal: the server may have become inactive, the goal may have been cancelled.\<close>

definition complete_goal :: "'w room_env \<Rightarrow> room_result \<Rightarrow> 'w \<Rightarrow> room_outcome" where
  "complete_goal env r w =
     (if \<not> re_server_active env w then No_outcome
      else if re_cancel_requested env w then Terminated_all
      else case re_succeeded_current env r w of Inl exn \<Rightarrow> No_outcome | Inr _ \<Rightarrow> Room_succeeded r)"

text \<open>Planning with a costmap: the planner is looked up, switched, run and switched back.\<close>

definition plan_with_costmap ::
  "(cpp_exception \<Rightarrow> string) \<Rightarrow> 'w room_env \<Rightarrow> room_goal \<Rightarrow> nat \<Rightarrow> RoomPlannerServer \<Rightarrow> 'w \<Rightarrow>
     path_msg list \<times> room_outcome \<times> RoomPlannerServer \<times> 'w" where
  "plan_with_costmap what env goal room_costmap srv w =
     (let planner_id = (if rg_planner_id goal = [] then default_ids ! 0 else rg_planner_id goal)
      in case map_of (rp_planners srv) planner_id of
           None \<Rightarrow>
             ([], Room_terminated (room_result_init\<lparr>rr_error_code := 201, rr_error_msg := ''Planner plugin not found: '' @ planner_id\<rparr>),
              srv, w)
         | Some pl \<Rightarrow>
             (let original_costmap = (if pl_wrapped pl then pl_costmap pl else None);
                  switched = (if pl_wrapped pl then setCostmap planner_id (Some room_costmap) (rp_planners srv) else rp_planners srv);
                  srv1 = srv\<lparr>rp_planners := switched\<rparr>
              in case getPlan env switched (rg_start goal) (rg_goal goal) (rg_planner_id goal) w of
                   (Inl exn, w1) \<Rightarrow>
                     ([], Room_terminated (room_result_init\<lparr>rr_error_code := 200, rr_error_msg := exceptionWarning what goal exn\<rparr>),
                      srv1, w1)
                 | (Inr path, w1) \<Rightarrow>
                     (let srv2 = (if original_costmap \<noteq> None
                                  then srv1\<lparr>rp_planners := setCostmap planner_id original_costmap switched\<rparr> else srv1);
                          r = measure_path (smooth_room_path what env srv2 room_costmap w1 (room_result_init\<lparr>rr_path := path\<rparr>))
                      in (if path_poses (rr_path r) = [] then [] else publishPlan env srv2 (rr_path r) w1,
                          complete_goal env r w1, srv2, w1))))"

definition computePlanInRoom ::
  "(cpp_exception \<Rightarrow> string) \<Rightarrow> 'w room_env \<Rightarrow> room_goal \<Rightarrow> RoomPlannerServer \<Rightarrow> 'w \<Rightarrow>
     path_msg list \<times> room_outcome \<times> RoomPlannerServer \<times> 'w" where
  "computePlanInRoom what env goal srv w =
     (if \<not> re_server_active env w then ([], No_outcome, srv, w)
      else if re_cancel_requested env w then ([], Terminated_all, srv, w)
      else
        let w0 = re_accept_pending env w;
            (localised, w1) = (if rg_use_start goal then (Inr True, w0) else re_getRobotPose env w0);
            stop = (\<lambda>code msg. ([], Room_terminated (room_result_init\<lparr>rr_error_code := code, rr_error_msg := msg\<rparr>), srv, w1))
        in case localised of
             Inl exn \<Rightarrow> stop 204 ''Failed to get robot pose - robot may not be localized''
           | Inr False \<Rightarrow> stop 204 ''Robot not localized - please set initial pose''
           | Inr True \<Rightarrow>
               if \<not> rp_costmap_ros srv then stop 200 ''Internal error: costmap type mismatch''
               else let using_floor_costmap = (rg_room_name goal = rg_floor_name goal)
                    in case (if using_floor_costmap then re_getCostmapForFloor env w1 (rg_floor_name goal)
                             else re_getCostmapForRoom env w1 (rg_floor_name goal) (rg_room_name goal)) of
                         None \<Rightarrow>
                           stop 202 (if using_floor_costmap then ''Failed to get aggregated costmap for specified floor''
                                     else ''Failed to get costmap for specified room'')
                       | Some room_costmap \<Rightarrow> plan_with_costmap what env goal room_costmap srv w1)"

section \<open>Smoothing a route\<close>

text \<open>The poses \<open>start_idx\<close> to \<open>end_idx\<close> (inclusive) of a floor are replaced by their smoothed form, where smoothing succeeds.\<close>

definition smooth_floor_segment ::
  "'w room_env \<Rightarrow> RoomPlannerServer \<Rightarrow> 'w \<Rightarrow> room_smoother \<Rightarrow> string \<times> nat \<times> nat \<Rightarrow> path_msg \<Rightarrow> path_msg" where
  "smooth_floor_segment env srv w smoother seg smoothed =
     (case seg of (floor_name, start_idx, end_idx) \<Rightarrow>
        if end_idx < start_idx \<or> length (path_poses smoothed) \<le> end_idx then smoothed
        else case re_getCostmapForFloor env w floor_name of
            None \<Rightarrow> smoothed
          | Some costmap \<Rightarrow>
              (let segment = smoothed\<lparr>path_poses := take (end_idx + 1 - start_idx) (drop start_idx (path_poses smoothed))\<rparr>
               in case server_smooth env srv w smoother (re_costmap_at env w costmap) segment of
                    (segment', Inr True) \<Rightarrow>
                      smoothed\<lparr>path_poses := take start_idx (path_poses smoothed) @ path_poses segment' @
                        drop (end_idx + 1) (path_poses smoothed)\<rparr>
                  | _ \<Rightarrow> smoothed))"

definition smoothFloorSegments ::
  "'w room_env \<Rightarrow> RoomPlannerServer \<Rightarrow> path_msg \<Rightarrow> (string \<times> nat \<times> nat) list \<Rightarrow> 'w \<Rightarrow> path_msg" where
  "smoothFloorSegments env srv path floor_segments w =
     (case rp_smoother srv of
        None \<Rightarrow> path
      | Some smoother \<Rightarrow>
          if \<not> rp_costmap_ros srv then path
          else fold (smooth_floor_segment env srv w smoother) floor_segments path)"

text \<open>The segments of a request that are worth smoothing.\<close>

definition requested_segments :: "smooth_request \<Rightarrow> (string \<times> nat \<times> nat) list" where
  "requested_segments request =
     concat (map (\<lambda>i.
       let start_idx = unat (sq_segment_start_indices request ! i); end_idx = unat (sq_segment_end_indices request ! i);
           n = length (path_poses (sq_path request))
       in if n \<le> start_idx \<or> n \<le> end_idx then []
          else if end_idx < start_idx then []
          else if end_idx \<le> start_idx + 1 then []
          else [(sq_floor_names request ! i, start_idx, end_idx)]) [0..<length (sq_floor_names request)])"

text \<open>The exceptions of a smoother are caught for every segment; no other code here throws.\<close>

definition smoothPathWithFloorCostmaps ::
  "'w room_env \<Rightarrow> RoomPlannerServer \<Rightarrow> smooth_request \<Rightarrow> 'w \<Rightarrow> smooth_response" where
  "smoothPathWithFloorCostmaps env srv request w =
     (let fail = (\<lambda>msg. \<lparr>sr_smoothed_path = sq_path request, sr_success = False, sr_message = msg\<rparr>)
      in if sq_floor_names request = [] then fail ''No floor names provided''
         else if path_poses (sq_path request) = [] then fail ''Empty path provided''
         else if length (sq_floor_names request) \<noteq> length (sq_segment_start_indices request) \<or>
                 length (sq_floor_names request) \<noteq> length (sq_segment_end_indices request)
         then fail ''Mismatched floor_names, segment_start_indices, and segment_end_indices sizes''
         else \<lparr>sr_smoothed_path = smoothFloorSegments env srv (sq_path request) (requested_segments request) w,
               sr_success = True, sr_message = ''Floor smoothing completed successfully''\<rparr>)"

section \<open>Parameters and life cycle\<close>

datatype parameter = Double_parameter string real | Other_parameter string

text \<open>A name with a dot belongs to a plugin.\<close>

definition set_parameter :: "parameter \<Rightarrow> RoomPlannerServer \<Rightarrow> RoomPlannerServer" where
  "set_parameter parameter srv =
     (case parameter of
        Other_parameter name \<Rightarrow> srv
      | Double_parameter name v \<Rightarrow>
          if CHR ''.'' \<in> set name then srv
          else if name = ''expected_planner_frequency''
          then srv\<lparr>rp_max_planner_duration := (if 0 < v then 1 / v else 0)\<rparr> else srv)"

definition dynamicParametersCallback :: "parameter list \<Rightarrow> RoomPlannerServer \<Rightarrow> bool \<times> RoomPlannerServer" where
  "dynamicParametersCallback parameters srv = (True, fold set_parameter parameters srv)"

text \<open>
  The parameters of the node and the plugin loader: the type of a plugin, whether an instance can
  be created and configured, and the smoothers with their own parameters.
\<close>

record room_config =
  rc_plugin_type :: "string \<Rightarrow> string result"
  rc_createUniqueInstance :: "string \<Rightarrow> unit result"
  rc_configure_planner :: "string \<Rightarrow> string \<Rightarrow> unit result"
  rc_base_costmap :: nat
  rc_expected_planner_frequency :: real
  rc_enable_room_smoothing :: bool
  rc_room_smoother_type :: string
  rc_room_smoother_max_time :: real
  rc_simple_smoother :: "smoother_params result"
  rc_savitzky_golay_smoother :: "sg_params result"

definition wrapper_types :: "string list" where
  "wrapper_types = [''nav2_navfn_planner::NavfnPlanner'', ''nav2_theta_star_planner::ThetaStarPlanner'',
     ''navbim_gpp_bim::OMPLPlannerWrapper'']"

text \<open>
  A configured planner points to the costmap of the base class of the multi-costmap node: the
  planners call \<open>getCostmap\<close>, which is not virtual, through \<open>Costmap2DROS\<close>.
\<close>

definition create_planner :: "room_config \<Rightarrow> string \<Rightarrow> (string \<times> planner) list \<Rightarrow> (string \<times> planner) list result" where
  "create_planner cfg planner_id planners =
     bind_result (rc_plugin_type cfg planner_id) (\<lambda>planner_type.
     bind_result (if planner_type \<in> set wrapper_types then Inr () else rc_createUniqueInstance cfg planner_type) (\<lambda>_.
     bind_result (rc_configure_planner cfg planner_id planner_type) (\<lambda>_.
       Inr (if map_of planners planner_id = None
            then planners @ [(planner_id, \<lparr>pl_wrapped = planner_type \<in> set wrapper_types, pl_costmap = Some (rc_base_costmap cfg)\<rparr>)]
            else planners))))"

definition room_on_cleanup :: "RoomPlannerServer \<Rightarrow> RoomPlannerServer" where
  "room_on_cleanup srv = srv\<lparr>rp_plan_publisher := False, rp_smoother := None, rp_planners := []\<rparr>"

definition configure_smoother :: "room_config \<Rightarrow> RoomPlannerServer \<Rightarrow> RoomPlannerServer" where
  "configure_smoother cfg srv =
     (let smoother_type = (if rc_room_smoother_type cfg \<in> {''simple'', ''savitzky_golay''} then rc_room_smoother_type cfg else ''simple'');
          smoother = (if smoother_type = ''simple'' then map_sum id SimpleSmoother (rc_simple_smoother cfg)
                      else map_sum id SavitzkyGolaySmoother (rc_savitzky_golay_smoother cfg));
          srv1 = srv\<lparr>rp_enable_room_smoothing := rc_enable_room_smoothing cfg, rp_room_smoother_type := smoother_type,
                     rp_room_smoother_max_time := rc_room_smoother_max_time cfg\<rparr>
      in case smoother of
           Inl exn \<Rightarrow> srv1\<lparr>rp_enable_room_smoothing := False, rp_smoother := None\<rparr>
         | Inr s \<Rightarrow> srv1\<lparr>rp_smoother := Some s\<rparr>)"

text \<open>
  The planners created before a failure are those the clean-up discards. The first component is
  the return value: true for SUCCESS.
\<close>

definition room_on_configure :: "room_config \<Rightarrow> RoomPlannerServer \<Rightarrow> bool \<times> RoomPlannerServer" where
  "room_on_configure cfg srv =
     (let srv0 = srv\<lparr>rp_costmap_ros := True\<rparr>
      in case fold_result (create_planner cfg) (rp_planner_ids srv) (rp_planners srv) of
           Inl exn \<Rightarrow> (False, room_on_cleanup srv0)
         | Inr planners \<Rightarrow>
             (let f = rc_expected_planner_frequency cfg;
                  srv1 = srv0\<lparr>rp_planners := planners,
                    rp_planner_ids_concat := rp_planner_ids_concat srv @ concat (map (\<lambda>i. i @ '' '') (rp_planner_ids srv)),
                    rp_max_planner_duration := (if 0 < f then 1 / f else 0)\<rparr>
              in (True, configure_smoother cfg srv1)))"

text \<open>Activation fails when the costmap node does not become active; the plan publisher stays activated then.\<close>

definition room_on_activate :: "bool result \<Rightarrow> RoomPlannerServer \<Rightarrow> bool \<times> RoomPlannerServer" where
  "room_on_activate costmap_active srv =
     (let srv1 = srv\<lparr>rp_plan_publisher := True\<rparr>
      in case costmap_active of Inl exn \<Rightarrow> (False, srv1) | Inr active \<Rightarrow> (active, srv1))"

definition room_on_deactivate :: "RoomPlannerServer \<Rightarrow> RoomPlannerServer" where
  "room_on_deactivate srv = srv\<lparr>rp_plan_publisher := False\<rparr>"

section \<open>Properties\<close>

lemma calculatePathDistance_nonneg: "0 \<le> calculatePathDistance path"
proof -
  have "0 \<le> fold (\<lambda>i total. total + pose_distance (poses ! (i - 1)) (poses ! i)) is s" if "0 \<le> s" for "is" poses and s :: real
    using that by (induction "is" arbitrary: s) (simp_all add: pose_distance_def Let_def)
  then show ?thesis by (simp add: calculatePathDistance_def Let_def)
qed

text \<open>
  The interface of a smoother as the node uses it: the path it leaves has the poses of the given
  one, with inner waypoints moved to free places only.
\<close>

locale path_smoother =
  fixes smooth :: "Costmap2D \<Rightarrow> path_msg \<Rightarrow> path_msg \<times> bool result"
    and free :: "Costmap2D \<Rightarrow> real \<times> real \<Rightarrow> bool"
  assumes smooth_kept: "path_poses path \<noteq> [] \<Longrightarrow> smooth m path = (path', outcome) \<Longrightarrow> kept (free m) (path_poses path) (path_poses path')"
begin

lemma replaced_segment:
  assumes "s \<le> e" and "e < length (path_poses path)"
    and "smooth m (path\<lparr>path_poses := take (e + 1 - s) (drop s (path_poses path))\<rparr>) = (seg, outcome)"
  shows "kept (free m) (path_poses path) (take s (path_poses path) @ path_poses seg @ drop (e + 1) (path_poses path))"
    and "i < s \<or> e < i \<Longrightarrow> i < length (path_poses path) \<Longrightarrow>
      (take s (path_poses path) @ path_poses seg @ drop (e + 1) (path_poses path)) ! i = path_poses path ! i"
proof -
  let ?seg = "\<lparr>seg_start = s, seg_end = e\<rparr>"
  have seg: "segment_in (length (path_poses path)) ?seg" using assms(1,2) by (simp add: segment_in_def)
  have poses: "take (e + 1 - s) (drop s (path_poses path)) = segment_poses ?seg (path_poses path)"
    by (simp add: segment_poses_def)
  have len: "length (segment_poses ?seg (path_poses path)) = e + 1 - s"
    using length_segment_poses [OF seg] by simp
  then have "segment_poses ?seg (path_poses path) \<noteq> []" using assms(1) by auto
  then have k: "kept (free m) (segment_poses ?seg (path_poses path)) (path_poses seg)"
    using smooth_kept [OF _ assms(3)] poses assms(1,2) by simp
  then have "s + length (path_poses seg) = e + 1" using len assms(1) by (simp add: kept_def)
  then have w: "take s (path_poses path) @ path_poses seg @ drop (e + 1) (path_poses path) =
      write_segment ?seg (path_poses seg) (path_poses path)" by (simp add: write_segment_def)
  show "kept (free m) (path_poses path) (take s (path_poses path) @ path_poses seg @ drop (e + 1) (path_poses path))"
    unfolding w by (rule kept_write_segment [OF seg k])
  show "(take s (path_poses path) @ path_poses seg @ drop (e + 1) (path_poses path)) ! i = path_poses path ! i"
    if "i < s \<or> e < i" "i < length (path_poses path)"
    using that assms(1,2) \<open>s + length (path_poses seg) = e + 1\<close> by (auto simp: nth_append min_def)
qed

end

text \<open>A place that a smoother of the node may move a waypoint to: in the map it is not on an obstacle.\<close>

lemma free_at_sg_free: "free_at m q \<Longrightarrow> sg_free m q"
proof -
  have "x < 253 \<Longrightarrow> x \<le> 252" for x :: uchar by (simp add: word_less_nat_alt word_le_nat_alt)
  then show "free_at m q \<Longrightarrow> sg_free m q"
    by (auto simp: free_at_def sg_free_def collides_def cost_at_def not_le split: option.splits)
qed

lemma kept_mono: "kept free orig poses \<Longrightarrow> (\<And>q. free q \<Longrightarrow> free' q) \<Longrightarrow> kept free' orig poses"
  unfolding kept_def by blast

lemma run_smoother_kept:
  assumes "path_poses path \<noteq> []" and "run_smoother tf late smoother_type smoother m path = (path', outcome)"
  shows "kept (sg_free m) (path_poses path) (path_poses path')"
proof -
  have simple: "kept (sg_free m) (path_poses path) (path_poses path1)"
    if "simple_smooth tf m late p path 0 = (path1, r, tick)" for p path1 r tick
    using kept_mono [OF simple_smooth_kept [OF assms(1) that]] free_at_sg_free by blast
  show ?thesis
    using assms(2) simple sg_smooth_kept [OF assms(1)]
    by (cases smoother) (auto simp: run_smoother_def split: if_splits prod.splits)
qed

interpretation server: path_smoother "server_smooth env srv w smoother" sg_free for env srv w smoother
  by unfold_locales (auto simp: server_smooth_def intro: run_smoother_kept)

text \<open>
  \<open>smoothed_by\<close>: what smoothing the floors does to a path. A pose outside of the segments is untouched; one that moved
  lies in a segment, at a place that is free in the costmap of its floor.
\<close>

definition free_on_floor :: "'w room_env \<Rightarrow> 'w \<Rightarrow> string \<Rightarrow> real \<times> real \<Rightarrow> bool" where
  "free_on_floor env w floor_name q = (case re_getCostmapForFloor env w floor_name of
       Some c \<Rightarrow> sg_free (re_costmap_at env w c) q | None \<Rightarrow> False)"

definition smoothed_by ::
  "'w room_env \<Rightarrow> 'w \<Rightarrow> (string \<times> nat \<times> nat) list \<Rightarrow> pose_stamped list \<Rightarrow> pose_stamped list \<Rightarrow> bool" where
  "smoothed_by env w segs poses poses' \<longleftrightarrow>
     length poses' = length poses \<and>
     (poses \<noteq> [] \<longrightarrow> ps_position (hd poses') = ps_position (hd poses) \<and> ps_position (last poses') = ps_position (last poses)) \<and>
     (\<forall>i < length poses. (\<forall>(f, s, e) \<in> set segs. i < s \<or> e < i) \<longrightarrow> poses' ! i = poses ! i) \<and>
     (\<forall>i < length poses. pose_xy (poses' ! i) = pose_xy (poses ! i) \<or>
        (\<exists>(f, s, e) \<in> set segs. s \<le> i \<and> i \<le> e \<and> free_on_floor env w f (pose_xy (poses' ! i))))"

lemma smoothed_by_refl [simp]: "smoothed_by env w segs poses poses"
  by (simp add: smoothed_by_def)

lemma smoothed_by_mono: "smoothed_by env w segs poses poses' \<Longrightarrow> set segs \<subseteq> set segs' \<Longrightarrow> smoothed_by env w segs' poses poses'"
  unfolding smoothed_by_def by (intro conjI; fast)

lemma smoothed_by_trans:
  assumes "smoothed_by env w segs a b" and "smoothed_by env w segs b c"
  shows "smoothed_by env w segs a c"
proof -
  have ne: "a \<noteq> [] \<longleftrightarrow> b \<noteq> []" and len: "length b = length a" "length c = length a"
    using assms by (auto simp: smoothed_by_def)
  have "c ! i = a ! i" if "i < length a" "\<forall>(f, s, e) \<in> set segs. i < s \<or> e < i" for i
    using assms that len unfolding smoothed_by_def by simp
  moreover have "pose_xy (c ! i) = pose_xy (a ! i) \<or> (\<exists>(f, s, e) \<in> set segs. s \<le> i \<and> i \<le> e \<and> free_on_floor env w f (pose_xy (c ! i)))"
    if "i < length a" for i
  proof -
    note ab = assms(1) [unfolded smoothed_by_def, THEN conjunct2, THEN conjunct2, THEN conjunct2, rule_format, OF that]
    have "i < length b" using that len by simp
    note bc = assms(2) [unfolded smoothed_by_def, THEN conjunct2, THEN conjunct2, THEN conjunct2, rule_format, OF this]
    show ?thesis
    proof (cases "pose_xy (c ! i) = pose_xy (b ! i)")
      case True
      with ab show ?thesis by simp
    qed (use bc in blast)
  qed
  ultimately show ?thesis using assms ne len unfolding smoothed_by_def by simp
qed

lemma smooth_floor_segment_smoothed:
  "smoothed_by env w [seg] (path_poses path) (path_poses (smooth_floor_segment env srv w smoother seg path))"
proof -
  obtain f s e where seg: "seg = (f, s, e)" by (cases seg)
  show ?thesis
  proof (cases "s \<le> e \<and> e < length (path_poses path) \<and> re_getCostmapForFloor env w f \<noteq> None")
    case False
    then have "smooth_floor_segment env srv w smoother seg path = path"
      by (auto simp: smooth_floor_segment_def seg split: option.split)
    then show ?thesis by simp
  next
    case True
    then obtain c where c: "re_getCostmapForFloor env w f = Some c" by blast
    let ?seg = "path\<lparr>path_poses := take (e + 1 - s) (drop s (path_poses path))\<rparr>" and ?m = "re_costmap_at env w c"
    obtain seg' outcome where run: "server_smooth env srv w smoother ?m ?seg = (seg', outcome)" by fastforce
    show ?thesis
    proof (cases "outcome = Inr True")
      case False
      then have "smooth_floor_segment env srv w smoother seg path = path"
        using True c run by (auto simp: smooth_floor_segment_def seg Let_def split: sum.split bool.split)
      then show ?thesis by simp
    next
      case ok: True
      let ?new = "take s (path_poses path) @ path_poses seg' @ drop (e + 1) (path_poses path)"
      have new: "path_poses (smooth_floor_segment env srv w smoother seg path) = ?new"
        using True c run ok by (simp add: smooth_floor_segment_def seg Let_def)
      note rep = server.replaced_segment [OF _ _ run]
      have k: "kept (sg_free ?m) (path_poses path) ?new" using rep(1) True by blast
      have out: "?new ! i = path_poses path ! i" if "i < s \<or> e < i" "i < length (path_poses path)" for i
        using rep(2) True that by blast
      have "smoothed_by env w [(f, s, e)] (path_poses path) ?new"
        unfolding smoothed_by_def
      proof (intro conjI)
        show "\<forall>i<length (path_poses path). pose_xy (?new ! i) = pose_xy (path_poses path ! i) \<or>
            (\<exists>(f, s, e)\<in>set [(f, s, e)]. s \<le> i \<and> i \<le> e \<and> free_on_floor env w f (pose_xy (?new ! i)))"
        proof (intro allI impI)
          fix i assume i: "i < length (path_poses path)"
          show "pose_xy (?new ! i) = pose_xy (path_poses path ! i) \<or>
              (\<exists>(f, s, e)\<in>set [(f, s, e)]. s \<le> i \<and> i \<le> e \<and> free_on_floor env w f (pose_xy (?new ! i)))"
          proof (cases "i < s \<or> e < i")
            case True
            with out [OF True i] show ?thesis by simp
          next
            case False
            with k i c show ?thesis by (auto simp: kept_def free_on_floor_def)
          qed
        qed
      qed (use k out in \<open>auto simp: kept_def\<close>)
      then show ?thesis unfolding new by (simp add: seg)
    qed
  qed
qed

lemma smoothFloorSegments_smoothed:
  "smoothed_by env w segs (path_poses path) (path_poses (smoothFloorSegments env srv path segs w))"
proof -
  have "smoothed_by env w segs (path_poses path) (path_poses (fold (smooth_floor_segment env srv w smoother) segs path))" for smoother
  proof (induction segs arbitrary: path)
    case (Cons seg segs)
    have "smoothed_by env w (seg # segs) (path_poses path) (path_poses (smooth_floor_segment env srv w smoother seg path))"
      by (rule smoothed_by_mono [OF smooth_floor_segment_smoothed]) simp
    moreover have "smoothed_by env w (seg # segs) (path_poses (smooth_floor_segment env srv w smoother seg path))
        (path_poses (fold (smooth_floor_segment env srv w smoother) (seg # segs) path))"
      by (rule smoothed_by_mono, simp, rule Cons.IH) auto
    ultimately show ?case by (rule smoothed_by_trans)
  qed simp
  then show ?thesis by (simp add: smoothFloorSegments_def split: option.split)
qed

lemma requested_segments_bounds:
  "(f, s, e) \<in> set (requested_segments request) \<Longrightarrow>
     s + 1 < e \<and> e < length (path_poses (sq_path request)) \<and> f \<in> set (sq_floor_names request)"
  by (auto simp: requested_segments_def Let_def split: if_splits)

lemma smoothPathWithFloorCostmaps_smoothed:
  "smoothed_by env w (requested_segments request) (path_poses (sq_path request))
     (path_poses (sr_smoothed_path (smoothPathWithFloorCostmaps env srv request w)))"
  by (simp add: smoothPathWithFloorCostmaps_def Let_def smoothFloorSegments_smoothed)

lemma smoothPathWithFloorCostmaps_length:
  "length (path_poses (sr_smoothed_path (smoothPathWithFloorCostmaps env srv request w))) = length (path_poses (sq_path request))"
  using smoothPathWithFloorCostmaps_smoothed [of env w request srv] by (simp add: smoothed_by_def)


section \<open>The answers\<close>

lemma map_of_setCostmap:
  "map_of (setCostmap pid ptr planners) k =
     (if k = pid then map_option (\<lambda>pl. pl\<lparr>pl_costmap := ptr\<rparr>) (map_of planners k) else map_of planners k)"
  by (induction planners) (auto simp: setCostmap_def)

lemma keys_setCostmap [simp]: "map fst (setCostmap pid ptr planners) = map fst planners"
  by (induction planners) (auto simp: setCostmap_def)

lemma setCostmap_back:
  assumes "distinct (map fst planners)" and "map_of planners pid = Some pl" and "pl_costmap pl = ptr"
  shows "setCostmap pid ptr (setCostmap pid ptr' planners) = planners"
  using assms
proof (induction planners)
  case (Cons entry planners)
  obtain k q where entry: "entry = (k, q)" by (cases entry)
  have other: "setCostmap pid p planners = planners" if "pid \<notin> set (map fst planners)" for p
    using that by (force simp: setCostmap_def intro!: map_idI)
  show ?case
  proof (cases "k = pid")
    case True
    with Cons.prems entry have "pid \<notin> set (map fst planners)" "q = pl" by auto
    with other True Cons.prems(3) entry show ?thesis by (simp add: setCostmap_def)
  next
    case False
    with Cons entry show ?thesis by (simp add: setCostmap_def)
  qed
qed simp

text \<open>The planner that runs is the one that was switched, where no planner has the empty name.\<close>

lemma getPlan_same:
  assumes "map_of planners [] = None" and "map_of planners (if pid = [] then default_ids ! 0 else pid) = Some pl"
    and "getPlan env planners start goal pid w = (Inr path, w')"
  shows "re_createPlan env (if pid = [] then default_ids ! 0 else pid) (pl_costmap pl) start goal w = (Inr path, w')"
  using assms by (auto simp: getPlan_def split: list.splits if_splits)

lemma smooth_room_path_kept:
  assumes "smooth_room_path what env srv c w r = r'"
  shows "kept (sg_free (re_costmap_at env w c)) (path_poses (rr_path r)) (path_poses (rr_path r'))"
proof -
  have "kept (sg_free (re_costmap_at env w c)) (path_poses (rr_path r)) (path_poses path')"
    if "2 < length (path_poses (rr_path r))" "server_smooth env srv w s (re_costmap_at env w c) (rr_path r) = (path', outcome)"
    for s path' outcome
    using server.smooth_kept [OF _ that(2)] that(1) by (cases "path_poses (rr_path r)") auto
  with assms show ?thesis
    by (auto simp: smooth_room_path_def add_warning_def split: option.splits if_splits prod.splits sum.splits bool.splits)
qed

definition goal_costmap :: "'w room_env \<Rightarrow> 'w \<Rightarrow> room_goal \<Rightarrow> nat option" where
  "goal_costmap env w goal = (if rg_room_name goal = rg_floor_name goal then re_getCostmapForFloor env w (rg_floor_name goal)
     else re_getCostmapForRoom env w (rg_floor_name goal) (rg_room_name goal))"

definition goal_planner :: "room_goal \<Rightarrow> string" where
  "goal_planner goal = (if rg_planner_id goal = [] then default_ids ! 0 else rg_planner_id goal)"

text \<open>Every goal is stopped without a result, refused with an error code, or planned with a costmap.\<close>

lemma computePlanInRoom_cases:
  assumes "computePlanInRoom what env goal srv w = (pub, outcome, srv', w')"
  obtains "pub = []" and "outcome \<in> {No_outcome, Terminated_all}" and "srv' = srv"
  | r where "pub = []" and "outcome = Room_terminated r" and "rr_error_code r \<in> {200, 202, 204}" and "srv' = srv"
  | c w1 where "goal_costmap env w1 goal = Some c" and "plan_with_costmap what env goal c srv w1 = (pub, outcome, srv', w')"
  using assms
  by (auto simp: computePlanInRoom_def goal_costmap_def Let_def split: if_splits sum.splits bool.splits option.splits prod.splits)

lemma plan_with_costmap_cases:
  assumes "plan_with_costmap what env goal c srv w = (pub, outcome, srv', w')"
  obtains r where "outcome = Room_terminated r" and "rr_error_code r = 201" and "srv' = srv" and "map_of (rp_planners srv) (goal_planner goal) = None"
  | pl planners exn r where "map_of (rp_planners srv) (goal_planner goal) = Some pl"
      and "planners = (if pl_wrapped pl then setCostmap (goal_planner goal) (Some c) (rp_planners srv) else rp_planners srv)"
      and "getPlan env planners (rg_start goal) (rg_goal goal) (rg_planner_id goal) w = (Inl exn, w')"
      and "outcome = Room_terminated r" and "rr_error_code r = 200" and "srv' = srv\<lparr>rp_planners := planners\<rparr>"
  | pl planners path r where "map_of (rp_planners srv) (goal_planner goal) = Some pl"
      and "planners = (if pl_wrapped pl then setCostmap (goal_planner goal) (Some c) (rp_planners srv) else rp_planners srv)"
      and "getPlan env planners (rg_start goal) (rg_goal goal) (rg_planner_id goal) w = (Inr path, w')"
      and "r = measure_path (smooth_room_path what env srv' c w' (room_result_init\<lparr>rr_path := path\<rparr>))"
      and "outcome = complete_goal env r w'"
      and "srv' = srv\<lparr>rp_planners := (if pl_wrapped pl \<and> pl_costmap pl \<noteq> None
             then setCostmap (goal_planner goal) (pl_costmap pl) planners else planners)\<rparr>"
proof -
  show thesis
  proof (cases "map_of (rp_planners srv) (goal_planner goal)")
    case None
    have "outcome = Room_terminated (room_result_init\<lparr>rr_error_code := 201,
        rr_error_msg := ''Planner plugin not found: '' @ goal_planner goal\<rparr>)" "srv' = srv"
      using assms [unfolded plan_with_costmap_def, folded goal_planner_def, unfolded Let_def None option.case] by blast+
    then show thesis using that(1) None by simp
  next
    case (Some pl)
    define planners where "planners = (if pl_wrapped pl then setCostmap (goal_planner goal) (Some c) (rp_planners srv) else rp_planners srv)"
    obtain res w1 where run: "getPlan env planners (rg_start goal) (rg_goal goal) (rg_planner_id goal) w = (res, w1)" by fastforce
    note unfolded = assms [unfolded plan_with_costmap_def, folded goal_planner_def, unfolded Let_def Some option.case, folded planners_def, unfolded run prod.case]
    show thesis
    proof (cases res)
      case (Inl exn)
      with unfolded that(2) [OF Some planners_def] run show thesis by auto
    next
      case (Inr path)
      define srv2 where "srv2 = srv\<lparr>rp_planners := (if pl_wrapped pl \<and> pl_costmap pl \<noteq> None
          then setCostmap (goal_planner goal) (pl_costmap pl) planners else planners)\<rparr>"
      have "(if (if pl_wrapped pl then pl_costmap pl else None) \<noteq> None
          then srv\<lparr>rp_planners := planners, rp_planners := setCostmap (goal_planner goal) (if pl_wrapped pl then pl_costmap pl else None) planners\<rparr>
          else srv\<lparr>rp_planners := planners\<rparr>) = srv2" by (auto simp: srv2_def)
      note fin = unfolded [unfolded Inr sum.case this prod.inject]
      then have eqs: "srv' = srv2" "w' = w1"
        "outcome = complete_goal env (measure_path (smooth_room_path what env srv2 c w1 (room_result_init\<lparr>rr_path := path\<rparr>))) w1"
        by blast+
      show thesis
        by (rule that(3) [OF Some planners_def _ refl _ _]) (use run Inr eqs in \<open>simp_all only: srv2_def\<close>)
    qed
  qed
qed

lemma complete_goal_succeeded: "complete_goal env r w = Room_succeeded r' \<Longrightarrow> r' = r"
  by (simp add: complete_goal_def split: if_splits sum.splits)

lemma complete_goal_not_terminated: "complete_goal env r w \<noteq> Room_terminated r'"
  by (simp add: complete_goal_def split: sum.split)

lemma measure_path_fields:
  "rr_path (measure_path r) = rr_path r"
  "path_poses (rr_path r) = [] \<Longrightarrow> rr_error_code (measure_path r) = 210 \<and> rr_path_distance (measure_path r) = Fin (- 1) \<and>
     rr_path_cost (measure_path r) = Fin (- 1)"
  "path_poses (rr_path r) \<noteq> [] \<Longrightarrow> rr_error_code (measure_path r) = 0 \<and>
     rr_path_distance (measure_path r) = Fin (calculatePathDistance (rr_path r)) \<and>
     rr_path_cost (measure_path r) = Fin (calculatePathDistance (rr_path r))"
  by (simp_all add: measure_path_def)


lemma computePlanInRoom_code_0:
  assumes "computePlanInRoom what env goal srv w = (pub, Room_succeeded r, srv', w')" and "rr_error_code r = 0"
  shows "nonneg (rr_path_cost r)" and "path_poses (rr_path r) \<noteq> []"
proof -
  have "nonneg (rr_path_cost r) \<and> path_poses (rr_path r) \<noteq> []" using assms(1)
  proof (cases rule: computePlanInRoom_cases)
    case (3 c w1)
    from 3(2) show ?thesis
    proof (cases rule: plan_with_costmap_cases)
      case (3 pl planners path r')
      then have "r = measure_path (smooth_room_path what env srv' c w' (room_result_init\<lparr>rr_path := path\<rparr>))"
        using complete_goal_succeeded [OF 3(5) [symmetric]] by simp
      with assms(2) show ?thesis using calculatePathDistance_nonneg by (auto simp: measure_path_def nonneg_def split: if_splits)
    qed simp_all
  qed auto
  then show "nonneg (rr_path_cost r)" "path_poses (rr_path r) \<noteq> []" by auto
qed


section \<open>The states of the server\<close>

text \<open>The node goes through the states of a managed node; goals and parameters arrive at any time.\<close>

datatype lifecycle = Unconfigured | Inactive | Active

inductive room_reachable :: "(cpp_exception \<Rightarrow> string) \<Rightarrow> 'w room_env \<Rightarrow> lifecycle \<Rightarrow> RoomPlannerServer \<Rightarrow> bool" for what env where
  created: "rp_planners srv = [] \<Longrightarrow> rp_smoother srv = None \<Longrightarrow> \<not> rp_plan_publisher srv \<Longrightarrow> room_reachable what env Unconfigured srv"
| configured: "room_reachable what env Unconfigured srv \<Longrightarrow> room_on_configure cfg srv = (True, srv') \<Longrightarrow> room_reachable what env Inactive srv'"
| not_configured: "room_reachable what env Unconfigured srv \<Longrightarrow> room_on_configure cfg srv = (False, srv') \<Longrightarrow> room_reachable what env Unconfigured srv'"
| activated: "room_reachable what env Inactive srv \<Longrightarrow> room_on_activate costmap_active srv = (True, srv') \<Longrightarrow> room_reachable what env Active srv'"
| not_activated: "room_reachable what env Inactive srv \<Longrightarrow> room_on_activate costmap_active srv = (False, srv') \<Longrightarrow> room_reachable what env Inactive srv'"
| deactivated: "room_reachable what env Active srv \<Longrightarrow> room_reachable what env Inactive (room_on_deactivate srv)"
| cleaned_up: "room_reachable what env Inactive srv \<Longrightarrow> room_reachable what env Unconfigured (room_on_cleanup srv)"
| goal: "room_reachable what env st srv \<Longrightarrow> computePlanInRoom what env g srv w = (pub, outcome, srv', w') \<Longrightarrow> room_reachable what env st srv'"
| parameters: "room_reachable what env st srv \<Longrightarrow> dynamicParametersCallback ps srv = (ok, srv') \<Longrightarrow> room_reachable what env st srv'"

text \<open>The planner table, and the smoother with the type that names its class.\<close>

definition planners_ok :: "(string \<times> planner) list \<Rightarrow> bool" where
  "planners_ok planners \<longleftrightarrow> distinct (map fst planners) \<and> (\<forall>(k, pl) \<in> set planners. pl_costmap pl \<noteq> None)"

definition smoother_ok :: "RoomPlannerServer \<Rightarrow> bool" where
  "smoother_ok srv = (case rp_smoother srv of
       None \<Rightarrow> True
     | Some (SimpleSmoother p) \<Rightarrow> rp_room_smoother_type srv = ''simple''
     | Some (SavitzkyGolaySmoother p) \<Rightarrow> rp_room_smoother_type srv = ''savitzky_golay'')"

definition room_server_ok :: "lifecycle \<Rightarrow> RoomPlannerServer \<Rightarrow> bool" where
  "room_server_ok st srv \<longleftrightarrow> planners_ok (rp_planners srv) \<and> smoother_ok srv \<and>
     (st = Unconfigured \<longrightarrow> rp_planners srv = [] \<and> rp_smoother srv = None) \<and>
     (st \<noteq> Unconfigured \<longrightarrow> rp_costmap_ros srv \<and> set (map fst (rp_planners srv)) = set (rp_planner_ids srv))"

lemma create_planner_ok:
  assumes "create_planner cfg pid planners = Inr planners'" and "planners_ok planners"
  shows "planners_ok planners' \<and> set (map fst planners') = insert pid (set (map fst planners))"
  using assms by (auto simp: create_planner_def result_simps planners_ok_def map_of_eq_None_iff dest: map_of_SomeD split: if_splits)

lemma create_planners_ok:
  "fold_result (create_planner cfg) ids planners = Inr planners' \<Longrightarrow> planners_ok planners \<Longrightarrow>
     planners_ok planners' \<and> set (map fst planners') = set (map fst planners) \<union> set ids"
proof (induction ids arbitrary: planners)
  case (Cons pid ids)
  then obtain planners1 where "create_planner cfg pid planners = Inr planners1"
    and rest: "fold_result (create_planner cfg) ids planners1 = Inr planners'"
    by (auto simp: result_simps)
  with create_planner_ok Cons.prems(2) Cons.IH [OF rest] show ?case by auto
qed simp

lemma configure_smoother_ok:
  "smoother_ok (configure_smoother cfg srv)"
  "rp_planners (configure_smoother cfg srv) = rp_planners srv"
  "rp_planner_ids (configure_smoother cfg srv) = rp_planner_ids srv"
  "rp_costmap_ros (configure_smoother cfg srv) = rp_costmap_ros srv"
  by (auto simp: configure_smoother_def smoother_ok_def Let_def map_sum_def split: sum.split)

lemma setCostmap_ok: "planners_ok planners \<Longrightarrow> ptr \<noteq> None \<Longrightarrow> planners_ok (setCostmap pid ptr planners)"
  unfolding planners_ok_def keys_setCostmap by (auto simp: setCostmap_def split: if_splits)

lemma computePlanInRoom_only_planners:
  assumes "computePlanInRoom what env goal srv w = (pub, outcome, srv', w')"
  obtains planners where "srv' = srv\<lparr>rp_planners := planners\<rparr>" and "map fst planners = map fst (rp_planners srv)"
    and "planners_ok (rp_planners srv) \<Longrightarrow> planners_ok planners"
  using assms
proof (cases rule: computePlanInRoom_cases)
  case (3 c w1)
  from 3(2) show ?thesis
  proof (cases rule: plan_with_costmap_cases)
    case (2 pl planners exn r)
    with that [of planners] setCostmap_ok show ?thesis by auto
  next
    case (3 pl planners path r)
    with that [of "rp_planners srv'"] show ?thesis by (auto intro!: setCostmap_ok split: if_splits)
  qed (use that [of "rp_planners srv"] in auto)
qed (use that [of "rp_planners srv"] in auto)

lemma smoother_ok_update [simp]:
  "smoother_ok (srv\<lparr>rp_planners := planners\<rparr>) = smoother_ok srv"
  "smoother_ok (srv\<lparr>rp_max_planner_duration := d\<rparr>) = smoother_ok srv"
  by (simp_all add: smoother_ok_def split: option.split room_smoother.split)

lemma set_parameters_only: "\<exists>d. fold set_parameter ps srv = srv\<lparr>rp_max_planner_duration := d\<rparr>"
proof (induction ps arbitrary: srv)
  case Nil
  show ?case by (rule exI [of _ "rp_max_planner_duration srv"]) simp
next
  case (Cons p ps)
  have "\<exists>d. srv = srv\<lparr>rp_max_planner_duration := d\<rparr>" by (rule exI [of _ "rp_max_planner_duration srv"]) simp
  then have "\<exists>d. set_parameter p srv = srv\<lparr>rp_max_planner_duration := d\<rparr>"
    by (cases p) (auto simp: set_parameter_def)
  then obtain d where "set_parameter p srv = srv\<lparr>rp_max_planner_duration := d\<rparr>" by blast
  with Cons [of "set_parameter p srv"] show ?case by auto
qed

text \<open>
  C27: in every state the server can reach, the planners have distinct names and non-null
  costmaps, and the smoother is of the class that \<open>room_smoother_type_\<close> names, so the casts of the
  smoothing code succeed. An unconfigured server has no planners and no smoother; from its
  configuration on there is a planner for exactly the configured names.
\<close>

theorem room_reachable_ok:
  assumes "room_reachable what env st srv"
  shows "room_server_ok st srv"
  using assms
proof (induction rule: room_reachable.induct)
  case (configured srv cfg srv')
  then obtain planners srv1 where "fold_result (create_planner cfg) (rp_planner_ids srv) [] = Inr planners"
    and srv': "srv' = configure_smoother cfg srv1" "rp_planners srv1 = planners" "rp_costmap_ros srv1" "rp_planner_ids srv1 = rp_planner_ids srv"
    by (auto simp: room_on_configure_def room_server_ok_def Let_def split: sum.splits)
  then have "planners_ok planners \<and> set (map fst planners) = set (rp_planner_ids srv)"
    using create_planners_ok [of cfg "rp_planner_ids srv" "[]"] by (simp add: planners_ok_def)
  with srv' show ?case by (auto simp: room_server_ok_def configure_smoother_ok)
next
  case (goal st srv g w pub outcome srv' w')
  from goal(2) obtain planners where "srv' = srv\<lparr>rp_planners := planners\<rparr>" "map fst planners = map fst (rp_planners srv)"
    "planners_ok (rp_planners srv) \<longrightarrow> planners_ok planners" by (rule computePlanInRoom_only_planners) blast
  with goal(3) show ?case
    by (cases "rp_planners srv") (auto simp: room_server_ok_def simp flip: set_map)
next
  case (parameters st srv ps ok srv')
  then obtain d where "srv' = srv\<lparr>rp_max_planner_duration := d\<rparr>"
    using set_parameters_only [of ps srv] by (auto simp: dynamicParametersCallback_def)
  with parameters(3) show ?case by (simp add: room_server_ok_def)
qed (auto simp: room_server_ok_def planners_ok_def smoother_ok_def room_on_configure_def room_on_cleanup_def room_on_activate_def
       room_on_deactivate_def Let_def split: sum.splits option.splits room_smoother.splits simp del: set_map del: equalityI)

section \<open>A room\<close>

text \<open>A room of nine by nine cells with one grid planner, that goes straight from start to goal.\<close>

definition room_map :: Costmap2D where
  "room_map = new_Costmap2D (\<lambda>i. 0) 9 9 1 0 0 0"

definition room_world :: "unit room_env" where
  "room_world =
     \<lparr>re_server_active = (\<lambda>w. True), re_cancel_requested = (\<lambda>w. False), re_accept_pending = id, re_getRobotPose = (\<lambda>w. (Inr True, w)),
      re_getCostmapForFloor = (\<lambda>w f. if f = ''EG'' then Some 7 else None),
      re_getCostmapForRoom = (\<lambda>w f r. if f = ''EG'' \<and> r = ''Kitchen'' then Some 8 else None),
      re_costmap_at = (\<lambda>w a. room_map),
      re_createPlan = (\<lambda>pid ptr start goal w. (if ptr = None then Inl Runtime_error else Inr \<lparr>path_frame_id = ''ifc'', path_poses = [start, goal]\<rparr>, w)),
      re_succeeded_current = (\<lambda>r w. Inr ()), re_subscribed = (\<lambda>w. True), re_late = (\<lambda>w t k. False),
      re_tf = \<lparr>tf_getYaw = (\<lambda>q. 0), tf_shortest_angular_distance = (\<lambda>a b. b - a), tf_orientationAroundZAxis = (\<lambda>a. Quaternion_init)\<rparr>\<rparr>"

definition room_server :: RoomPlannerServer where
  "room_server =
     \<lparr>rp_planner_ids = [''GridBased''], rp_planners = [(''GridBased'', \<lparr>pl_wrapped = True, pl_costmap = Some 2\<rparr>)],
      rp_planner_ids_concat = ''GridBased '', rp_max_planner_duration = 1, rp_enable_room_smoothing = True,
      rp_room_smoother_type = ''simple'', rp_room_smoother_max_time = 1 / 2, rp_smoother = None, rp_costmap_ros = True,
      rp_plan_publisher = True\<rparr>"

definition kitchen_goal :: room_goal where
  "kitchen_goal = \<lparr>rg_start = createPoseStamped (1, 1, 0) ''ifc'', rg_goal = createPoseStamped (4, 5, 0) ''ifc'', rg_floor_name = ''EG'',
     rg_room_name = ''Kitchen'', rg_planner_id = [], rg_use_start = True\<rparr>"

definition kitchen_path :: path_msg where
  "kitchen_path = \<lparr>path_frame_id = ''ifc'', path_poses = [rg_start kitchen_goal, rg_goal kitchen_goal]\<rparr>"

definition kitchen_result :: room_result where
  "kitchen_result = measure_path (room_result_init\<lparr>rr_path := kitchen_path\<rparr>)"

lemma kitchen_run:
  "computePlanInRoom what room_world kitchen_goal room_server () = ([kitchen_path], Room_succeeded kitchen_result, room_server, ())"
proof -
  have goal: "rg_planner_id kitchen_goal = []" "rg_use_start kitchen_goal" "rg_room_name kitchen_goal = ''Kitchen''"
    "rg_floor_name kitchen_goal = ''EG''" by (simp_all add: kitchen_goal_def)
  have path: "rr_path kitchen_result = kitchen_path" "path_poses kitchen_path \<noteq> []"
    by (simp_all add: kitchen_result_def measure_path_fields kitchen_path_def)
  have smooth: "smooth_room_path what room_world room_server 8 () r = r" for r
    by (simp add: smooth_room_path_def room_server_def)
  have srv: "room_server\<lparr>rp_planners := [(''GridBased'', \<lparr>pl_wrapped = True, pl_costmap = Some 2\<rparr>)]\<rparr> = room_server"
    by (simp add: room_server_def)
  have planners: "rp_planners room_server = [(''GridBased'', \<lparr>pl_wrapped = True, pl_costmap = Some 2\<rparr>)]" "rp_costmap_ros room_server"
    by (simp_all add: room_server_def)
  have plan: "getPlan room_world [(''GridBased'', \<lparr>pl_wrapped = True, pl_costmap = Some 8\<rparr>)] (rg_start kitchen_goal)
      (rg_goal kitchen_goal) [] () = (Inr kitchen_path, ())"
    by (simp add: getPlan_def room_world_def kitchen_path_def)
  have finish: "complete_goal room_world r () = Room_succeeded r" "publishPlan room_world room_server p () = [p]" for r p
    by (simp_all add: complete_goal_def publishPlan_def room_world_def room_server_def)
  have "plan_with_costmap what room_world kitchen_goal 8 room_server () = ([kitchen_path], Room_succeeded kitchen_result, room_server, ())"
    using path by (simp add: plan_with_costmap_def goal default_ids_def planners setCostmap_def plan Let_def srv smooth finish
        flip: kitchen_result_def)
  then show ?thesis
    by (simp add: computePlanInRoom_def goal planners) (simp add: room_world_def)
qed



theorem room_reachable_ok_witness: "room_server_ok Active room_server"
proof -
  let ?new = "room_server\<lparr>rp_planners := [], rp_planner_ids_concat := [], rp_plan_publisher := False\<rparr>"
  let ?cfg = "\<lparr>rc_plugin_type = (\<lambda>i. Inr ''nav2_navfn_planner::NavfnPlanner''), rc_createUniqueInstance = (\<lambda>t. Inl Runtime_error),
    rc_configure_planner = (\<lambda>i t. Inr ()), rc_base_costmap = 2, rc_expected_planner_frequency = 1, rc_enable_room_smoothing = True,
    rc_room_smoother_type = ''simple'', rc_room_smoother_max_time = 1 / 2, rc_simple_smoother = Inl Runtime_error,
    rc_savitzky_golay_smoother = Inl Runtime_error\<rparr>"
  have new: "room_reachable (\<lambda>e. []) room_world Unconfigured ?new" by (rule created) (simp_all add: room_server_def)
  have conf: "room_on_configure ?cfg ?new = (True, room_server\<lparr>rp_plan_publisher := False, rp_enable_room_smoothing := False\<rparr>)"
    by (simp add: room_on_configure_def room_server_def create_planner_def wrapper_types_def configure_smoother_def)
  have "room_reachable (\<lambda>e. []) room_world Active (room_server\<lparr>rp_enable_room_smoothing := False\<rparr>)"
    by (rule activated [OF configured [OF new conf], of "Inr True"]) (simp add: room_on_activate_def room_server_def)
  from room_reachable_ok [OF this] show ?thesis by (simp add: room_server_ok_def smoother_ok_def room_server_def)
qed


end
