(* ===== verification/Multi_Costmap.thy ===== *)
theory Multi_Costmap
  imports Costmap "HOL-Library.AList"
begin

text \<open>
  \<open>navbim_multi_costmap_2d/multi_costmap_2d_ros.cpp\<close>: the node that keeps one costmap per room and
  merges the rooms of a floor into one costmap of the floor. Room costmaps change when their map
  arrives and while the robot is in the room; a timer carries the changes over to the floors.

  The layers of a room (a static map and its inflation) are read through what they do: whether the
  static layer is up to date and what an update makes of the grid. Tables are association lists in
  their iteration order; the order in which the affected floors are visited is a parameter. Locks
  are left out: a definition is what runs under one or several locks without interruption, except
  that \<open>createFloorCostmap\<close> takes the room table as it is when it copies the rooms.
\<close>

section \<open>State\<close>

text \<open>\<open>ri_static_layer\<close>: the static layer and whether it is current; \<open>ri_layered_costmap\<close>: the merged grid of the room's layers.\<close>

record RoomCostmapInfo =
  ri_environment_name :: string
  ri_map_name :: string
  ri_layered_costmap :: "Costmap2D option"
  ri_static_layer :: "bool option"
  ri_is_active :: bool
  ri_has_been_published :: bool
  ri_has_fetched_z :: bool
  ri_has_changed :: bool
  ri_map_origin_z :: real

record RoomRegion =
  rn_x_offset :: nat
  rn_y_offset :: nat
  rn_width :: nat
  rn_height :: nat

record FloorCostmapCache =
  fc_costmap :: Costmap2D
  fc_room_regions :: "(string \<times> RoomRegion) list"
  fc_is_valid :: bool

text \<open>Publishers are kept with whether they are activated.\<close>

record MultiCostmap2DROS =
  mc_room_costmaps :: "(string \<times> RoomCostmapInfo) list"
  mc_costmap_pubs :: "(string \<times> bool) list"
  mc_floor_costmap_cache :: "(string \<times> FloorCostmapCache) list"
  mc_floor_costmap_pubs :: "(string \<times> bool) list"
  mc_current_room_id :: string
  mc_is_shutting_down :: bool
  mc_active :: bool
  mc_elevate_costmaps :: real
  mc_global_frame :: string

record OccupancyGrid =
  og_frame_id :: string
  og_resolution :: real
  og_width :: nat
  og_height :: nat
  og_origin :: "real \<times> real \<times> real"
  og_data :: "int list"

section \<open>Rooms\<close>

definition createRoomKey :: "string \<Rightarrow> string \<Rightarrow> string" where
  "createRoomKey floor_name room_name = floor_name @ ''/'' @ room_name"

text \<open>The topic on which the map of a room is expected.\<close>

definition generateMapTopic :: "string \<Rightarrow> string \<Rightarrow> string" where
  "generateMapTopic env_name map_name = ''maps/'' @ env_name @ ''/'' @ map_name @ ''/map''"

definition getFloorFromRoomId :: "string \<Rightarrow> string" where
  "getFloorFromRoomId room_id = takeWhile (\<lambda>c. c \<noteq> CHR ''/'') room_id"

definition getCostmapForRoom :: "MultiCostmap2DROS \<Rightarrow> string \<Rightarrow> string \<Rightarrow> Costmap2D option" where
  "getCostmapForRoom st floor_name room_name =
     (case map_of (mc_room_costmaps st) (createRoomKey floor_name room_name) of
        Some room \<Rightarrow> ri_layered_costmap room
      | None \<Rightarrow> None)"

definition getRoomsOnFloor :: "MultiCostmap2DROS \<Rightarrow> string \<Rightarrow> string list" where
  "getRoomsOnFloor st floor_name = filter (\<lambda>i. getFloorFromRoomId i = floor_name) (map fst (mc_room_costmaps st))"

definition isRoomCostmapReady :: "MultiCostmap2DROS \<Rightarrow> string \<Rightarrow> bool" where
  "isRoomCostmapReady st room_id =
     (case map_of (mc_room_costmaps st) room_id of
        None \<Rightarrow> False
      | Some room \<Rightarrow>
          (case (ri_layered_costmap room, ri_static_layer room) of
             (Some m, Some current) \<Rightarrow> cm_size_x m \<noteq> 0 \<and> cm_size_y m \<noteq> 0 \<and> current
           | _ \<Rightarrow> False))"

definition areAllRoomsReadyOnFloor :: "MultiCostmap2DROS \<Rightarrow> string \<Rightarrow> bool" where
  "areAllRoomsReadyOnFloor st floor_name =
     (let floor_rooms = getRoomsOnFloor st floor_name in floor_rooms \<noteq> [] \<and> list_all (isRoomCostmapReady st) floor_rooms)"

text \<open>Cells are sampled in steps of a tenth of the shorter side.\<close>

definition has_valid_data :: "Costmap2D \<Rightarrow> bool" where
  "has_valid_data m =
     (let sample_step = max 1 (min (cm_size_x m) (cm_size_y m) div 10);
          samples = (\<lambda>n. filter (\<lambda>i. i mod sample_step = 0) [0..<n])
      in list_ex (\<lambda>x. list_ex (\<lambda>y. getCost m x y \<noteq> NO_INFORMATION) (samples (cm_size_y m))) (samples (cm_size_x m)))"

text \<open>The grid of a room whose map has arrived.\<close>

definition ready_costmap :: "RoomCostmapInfo \<Rightarrow> Costmap2D option" where
  "ready_costmap room =
     (case ri_layered_costmap room of
        None \<Rightarrow> None
      | Some m \<Rightarrow>
          if cm_size_x m = 0 \<or> cm_size_y m = 0 then None
          else if ri_static_layer room \<noteq> Some True then None
          else if \<not> has_valid_data m then None
          else Some m)"

section \<open>Floors\<close>

text \<open>What a known cost of a room does to the cost of a floor.\<close>

definition merge_cost :: "uchar \<Rightarrow> nat \<times> nat \<Rightarrow> Costmap2D \<Rightarrow> Costmap2D" where
  "merge_cost room_cost cell m =
     (case cell of (fx, fy) \<Rightarrow>
        let floor_cost = getCost m fx fy
        in if room_cost = NO_INFORMATION then m
           else if floor_cost = NO_INFORMATION then setCost fx fy room_cost m
           else setCost fx fy (max room_cost floor_cost) m)"

text \<open>The cells of a grid, row by row.\<close>

definition grid_cells :: "nat \<Rightarrow> nat \<Rightarrow> (nat \<times> nat) list" where
  "grid_cells size_x size_y = concat (map (\<lambda>y. map (\<lambda>x. (x, y)) [0..<size_x]) [0..<size_y])"

definition merge_room :: "Costmap2D \<Rightarrow> Costmap2D \<Rightarrow> Costmap2D" where
  "merge_room room floor_costmap =
     fold (\<lambda>(x, y) m.
         let wx = cm_origin_x room + (real x + 1 / 2) * cm_resolution room;
             wy = cm_origin_y room + (real y + 1 / 2) * cm_resolution room
         in case worldToMap m wx wy of
              Some cell \<Rightarrow> merge_cost (getCost room x y) cell m
            | None \<Rightarrow> m)
       (grid_cells (cm_size_x room) (cm_size_y room)) floor_costmap"

text \<open>The bounding box of the rooms, its lower corner on the grid: origin and size of the floor.\<close>

definition floor_box :: "Costmap2D list \<Rightarrow> (real \<times> real) \<times> (nat \<times> nat)" where
  "floor_box rooms =
     (let resolution = cm_resolution (rooms ! 0);
          min_x = fold (\<lambda>m v. min v (cm_origin_x m)) rooms dbl_max;
          min_y = fold (\<lambda>m v. min v (cm_origin_y m)) rooms dbl_max;
          max_x = fold (\<lambda>m v. max v (cm_origin_x m + getSizeInMetersX m)) rooms (- dbl_max);
          max_y = fold (\<lambda>m v. max v (cm_origin_y m + getSizeInMetersY m)) rooms (- dbl_max);
          min_x1 = of_int \<lfloor>min_x / resolution\<rfloor> * resolution;
          min_y1 = of_int \<lfloor>min_y / resolution\<rfloor> * resolution
      in ((min_x1, min_y1), (to_uint (of_int \<lceil>(max_x - min_x1) / resolution\<rceil>), to_uint (of_int \<lceil>(max_y - min_y1) / resolution\<rceil>))))"

text \<open>\<open>std::round\<close> of a number that is not negative.\<close>

definition round_cells :: "real \<Rightarrow> nat" where
  "round_cells v = to_uint (of_int \<lfloor>v + 1 / 2\<rfloor>)"

definition room_region :: "real \<Rightarrow> real \<times> real \<Rightarrow> Costmap2D \<Rightarrow> RoomRegion" where
  "room_region resolution origin room =
     (let relative_x = cm_origin_x room - fst origin; relative_y = cm_origin_y room - snd origin
      in \<lparr>rn_x_offset = round_cells ((if relative_x < 0 then 0 else relative_x) / resolution),
          rn_y_offset = round_cells ((if relative_y < 0 then 0 else relative_y) / resolution),
          rn_width = cm_size_x room, rn_height = cm_size_y room\<rparr>)"

definition region_fits :: "Costmap2D \<Rightarrow> RoomRegion \<Rightarrow> bool" where
  "region_fits m region \<longleftrightarrow> wrap32 (rn_x_offset region + rn_width region) \<le> cm_size_x m \<and>
     wrap32 (rn_y_offset region + rn_height region) \<le> cm_size_y m"

definition add_region ::
  "real \<Rightarrow> real \<times> real \<Rightarrow> Costmap2D \<Rightarrow> string \<times> Costmap2D \<Rightarrow> (string \<times> RoomRegion) list \<Rightarrow> (string \<times> RoomRegion) list" where
  "add_region resolution origin m entry regions =
     (case entry of (room_id, room) \<Rightarrow>
        let region = room_region resolution origin room
        in if region_fits m region then AList.update room_id region regions else regions)"

text \<open>A room as it is when its data are copied.\<close>

definition copied_costmap :: "(string \<times> RoomCostmapInfo) list \<Rightarrow> string \<Rightarrow> Costmap2D option" where
  "copied_costmap rooms room_id =
     (case map_of rooms room_id of
        None \<Rightarrow> None
      | Some room \<Rightarrow>
          (case ri_layered_costmap room of
             None \<Rightarrow> None
           | Some m \<Rightarrow> if cm_size_x m = 0 \<or> cm_size_y m = 0 then None else Some m))"

text \<open>The floor costmap of the rooms \<open>checked\<close> with the contents \<open>copied\<close>.\<close>

definition build_floor ::
  "(nat \<Rightarrow> uchar) \<Rightarrow> string list \<Rightarrow> Costmap2D list \<Rightarrow> Costmap2D list \<Rightarrow> FloorCostmapCache" where
  "build_floor junk room_ids checked copied =
     (case floor_box checked of (origin, size_x, size_y) \<Rightarrow>
        let resolution = cm_resolution (checked ! 0);
            m = fold merge_room copied (new_Costmap2D junk size_x size_y resolution (fst origin) (snd origin) FREE_SPACE)
        in \<lparr>fc_costmap = m, fc_room_regions = fold (add_region resolution origin m) (zip room_ids copied) [], fc_is_valid = True\<rparr>)"

definition createFloorCostmap ::
  "(nat \<Rightarrow> uchar) \<Rightarrow> (string \<times> RoomCostmapInfo) list \<Rightarrow> string \<Rightarrow> MultiCostmap2DROS \<Rightarrow> bool \<times> MultiCostmap2DROS" where
  "createFloorCostmap junk rooms_later floor_name st =
     (if map_of (mc_floor_costmap_cache st) floor_name \<noteq> None then (True, st)
      else let rooms = filter (\<lambda>(room_id, _). getFloorFromRoomId room_id = floor_name) (mc_room_costmaps st);
               room_ids = map fst rooms
           in if rooms = [] then (False, st)
              else case those (map (\<lambda>(_, room). ready_costmap room) rooms) of
                  None \<Rightarrow> (False, st)
                | Some checked \<Rightarrow>
                    (case those (map (copied_costmap rooms_later) room_ids) of
                       None \<Rightarrow> (False, st)
                     | Some copied \<Rightarrow>
                         (True, st\<lparr>mc_floor_costmap_cache := mc_floor_costmap_cache st @ [(floor_name, build_floor junk room_ids checked copied)],
                            mc_floor_costmap_pubs := (if map_of (mc_floor_costmap_pubs st) floor_name = None
                              then mc_floor_costmap_pubs st @ [(floor_name, mc_active st)] else mc_floor_costmap_pubs st)\<rparr>)))"

definition getCostmapForFloor :: "MultiCostmap2DROS \<Rightarrow> string \<Rightarrow> Costmap2D option" where
  "getCostmapForFloor st floor_name =
     (case map_of (mc_floor_costmap_cache st) floor_name of
        Some cache \<Rightarrow> if fc_is_valid cache then Some (fc_costmap cache) else None
      | None \<Rightarrow> None)"

definition set_floor :: "string \<Rightarrow> FloorCostmapCache \<Rightarrow> MultiCostmap2DROS \<Rightarrow> MultiCostmap2DROS" where
  "set_floor floor_name cache st = st\<lparr>mc_floor_costmap_cache := AList.update floor_name cache (mc_floor_costmap_cache st)\<rparr>"

definition invalidateFloorCostmap :: "string \<Rightarrow> MultiCostmap2DROS \<Rightarrow> MultiCostmap2DROS" where
  "invalidateFloorCostmap floor_name st =
     (case map_of (mc_floor_costmap_cache st) floor_name of
        Some cache \<Rightarrow> set_floor floor_name (cache\<lparr>fc_is_valid := False\<rparr>) st
      | None \<Rightarrow> st)"

text \<open>The cells of a region; \<open>room\<close> is the copy of the room's grid.\<close>

definition merge_region :: "Costmap2D \<Rightarrow> RoomRegion \<Rightarrow> Costmap2D \<Rightarrow> Costmap2D" where
  "merge_region room region floor_costmap =
     fold (\<lambda>(x, y) m.
         let floor_x = wrap32 (rn_x_offset region + x); floor_y = wrap32 (rn_y_offset region + y)
         in if cm_size_x m \<le> floor_x \<or> cm_size_y m \<le> floor_y then m
            else if x < cm_size_x room \<and> y < cm_size_y room then merge_cost (getCost room x y) (floor_x, floor_y) m
            else m)
       (grid_cells (rn_width region) (rn_height region)) floor_costmap"

definition updateFloorCostmapRegion :: "string \<Rightarrow> string \<Rightarrow> MultiCostmap2DROS \<Rightarrow> MultiCostmap2DROS" where
  "updateFloorCostmapRegion floor_name room_id st =
     (case map_of (mc_room_costmaps st) room_id of
        None \<Rightarrow> st
      | Some info \<Rightarrow>
          (case ready_costmap info of
             None \<Rightarrow> st
           | Some room \<Rightarrow>
               (case map_of (mc_floor_costmap_cache st) floor_name of
                  None \<Rightarrow> st
                | Some cache \<Rightarrow>
                    if \<not> fc_is_valid cache then st
                    else case map_of (fc_room_regions cache) room_id of
                        None \<Rightarrow> set_floor floor_name (cache\<lparr>fc_is_valid := False\<rparr>) st
                      | Some region \<Rightarrow>
                          if cm_size_x (fc_costmap cache) \<le> rn_x_offset region \<or> cm_size_y (fc_costmap cache) \<le> rn_y_offset region
                          then set_floor floor_name (cache\<lparr>fc_is_valid := False\<rparr>) st
                          else if \<not> region_fits (fc_costmap cache) region
                          then set_floor floor_name (cache\<lparr>fc_is_valid := False\<rparr>) st
                          else set_floor floor_name (cache\<lparr>fc_costmap := merge_region room region (fc_costmap cache)\<rparr>) st)))"

section \<open>Publishing\<close>

definition occupancy :: "uchar \<Rightarrow> int" where
  "occupancy cost =
     (if cost = NO_INFORMATION then - 1
      else if cost = FREE_SPACE then 0
      else if cost = LETHAL_OBSTACLE then 100
      else uint cost * 100 div 254)"

definition occupancy_grid :: "MultiCostmap2DROS \<Rightarrow> Costmap2D \<Rightarrow> real \<Rightarrow> OccupancyGrid" where
  "occupancy_grid st m z =
     \<lparr>og_frame_id = mc_global_frame st, og_resolution = cm_resolution m, og_width = cm_size_x m, og_height = cm_size_y m,
      og_origin = (cm_origin_x m, cm_origin_y m, z + mc_elevate_costmaps st),
      og_data = map (\<lambda>i. occupancy (cm_costmap m ! i)) [0..<cm_size_x m * cm_size_y m]\<rparr>"

text \<open>Publishing a room marks it for its floor. The table of rooms is updated in place.\<close>

definition map_room :: "string \<Rightarrow> (RoomCostmapInfo \<Rightarrow> RoomCostmapInfo) \<Rightarrow> MultiCostmap2DROS \<Rightarrow> MultiCostmap2DROS" where
  "map_room room_id f st =
     st\<lparr>mc_room_costmaps := map (\<lambda>(i, room). if i = room_id then (i, f room) else (i, room)) (mc_room_costmaps st)\<rparr>"

definition publishCostmap :: "string \<Rightarrow> Costmap2D \<Rightarrow> MultiCostmap2DROS \<Rightarrow> (string \<times> OccupancyGrid) list \<times> MultiCostmap2DROS" where
  "publishCostmap room_id m st =
     (case map_of (mc_costmap_pubs st) room_id of
        Some True \<Rightarrow>
          (case map_of (mc_room_costmaps st) room_id of
             None \<Rightarrow> ([], st)
           | Some room \<Rightarrow>
               ([(room_id, occupancy_grid st m (ri_map_origin_z room))], map_room room_id (\<lambda>room. room\<lparr>ri_has_changed := True\<rparr>) st))
      | _ \<Rightarrow> ([], st))"

definition publish_floor :: "MultiCostmap2DROS \<Rightarrow> string \<Rightarrow> (string \<times> OccupancyGrid) list" where
  "publish_floor st floor_name =
     (case (map_of (mc_floor_costmap_pubs st) floor_name, getCostmapForFloor st floor_name) of
        (Some True, Some m) \<Rightarrow>
          (let floor_z = (case filter (\<lambda>(i, _). getFloorFromRoomId i = floor_name) (mc_room_costmaps st) of
                  (i, room) # _ \<Rightarrow> if i \<noteq> [] then ri_map_origin_z room else 0
                | [] \<Rightarrow> 0)
           in [(floor_name, occupancy_grid st m floor_z)])
      | _ \<Rightarrow> [])"

section \<open>Timers\<close>

definition update_floor :: "(nat \<Rightarrow> uchar) \<Rightarrow> string \<Rightarrow> string list \<Rightarrow> MultiCostmap2DROS \<Rightarrow> MultiCostmap2DROS" where
  "update_floor junk floor_name changed_rooms st =
     (if getCostmapForFloor st floor_name \<noteq> None
      then fold (updateFloorCostmapRegion floor_name) changed_rooms st
      else snd (createFloorCostmap junk (mc_room_costmaps st) floor_name st))"

definition updateFloorCostmaps ::
  "(nat \<Rightarrow> uchar) \<Rightarrow> (string set \<Rightarrow> string list) \<Rightarrow> MultiCostmap2DROS \<Rightarrow> (string \<times> OccupancyGrid) list \<times> MultiCostmap2DROS" where
  "updateFloorCostmaps junk ord st =
     (if mc_is_shutting_down st then ([], st)
      else let changed = map fst (filter (\<lambda>(_, room). ri_has_changed room) (mc_room_costmaps st));
               floors = ord (set (map getFloorFromRoomId changed));
               st1 = st\<lparr>mc_room_costmaps := map (\<lambda>(i, room). (i, room\<lparr>ri_has_changed := False\<rparr>)) (mc_room_costmaps st)\<rparr>;
               st2 = fold (\<lambda>f. update_floor junk f (filter (\<lambda>i. getFloorFromRoomId i = f) changed)) floors st1
           in (concat (map (publish_floor st2) floors), st2))"

text \<open>
  \<open>updateCurrentRoomMap\<close>: rooms whose map and height have arrived are updated and published once, then
  the current room is, at the robot's pose. An update of the layers is \<open>update_map\<close>; the
  requests for heights that were sent are the first result.
\<close>

definition room_loaded :: "RoomCostmapInfo \<Rightarrow> bool" where
  "room_loaded room =
     (case (ri_layered_costmap room, ri_static_layer room) of
        (Some m, Some current) \<Rightarrow> cm_size_x m \<noteq> 0 \<and> cm_size_y m \<noteq> 0 \<and> current
      | _ \<Rightarrow> False)"

definition update_and_publish ::
  "(RoomCostmapInfo \<Rightarrow> RoomCostmapInfo) \<Rightarrow> string \<Rightarrow> MultiCostmap2DROS \<Rightarrow> (string \<times> OccupancyGrid) list \<times> MultiCostmap2DROS" where
  "update_and_publish update_map room_id st =
     (let st1 = map_room room_id update_map st
      in case map_of (mc_room_costmaps st1) room_id of
           Some room \<Rightarrow> (case ri_layered_costmap room of Some m \<Rightarrow> publishCostmap room_id m st1 | None \<Rightarrow> ([], st1))
         | None \<Rightarrow> ([], st1))"

definition publish_once ::
  "(RoomCostmapInfo \<Rightarrow> RoomCostmapInfo) \<Rightarrow> string \<Rightarrow> (string \<times> OccupancyGrid) list \<times> MultiCostmap2DROS \<Rightarrow>
     (string \<times> OccupancyGrid) list \<times> MultiCostmap2DROS" where
  "publish_once update_map room_id acc =
     (case acc of (out, st) \<Rightarrow>
        (case update_and_publish update_map room_id st of
           (out1, st1) \<Rightarrow> (out @ out1, map_room room_id (\<lambda>room. room\<lparr>ri_has_been_published := True\<rparr>) st1)))"

definition updateCurrentRoomMap ::
  "(real \<times> real \<times> real \<Rightarrow> RoomCostmapInfo \<Rightarrow> RoomCostmapInfo) \<Rightarrow> (real \<times> real \<times> real) option \<Rightarrow> bool \<Rightarrow> MultiCostmap2DROS \<Rightarrow>
     string list \<times> (string \<times> OccupancyGrid) list \<times> MultiCostmap2DROS" where
  "updateCurrentRoomMap update_map robot_pose z_service_ready st =
     (if mc_is_shutting_down st then ([], [], st)
      else let loaded = filter (\<lambda>(_, room). room_loaded room) (mc_room_costmaps st);
               z_requests = (if z_service_ready then map fst (filter (\<lambda>(_, room). \<not> ri_has_fetched_z room) loaded) else []);
               to_publish = map fst (filter (\<lambda>(_, room). \<not> ri_has_been_published room \<and> ri_has_fetched_z room) loaded);
               (out, st1) = fold (publish_once (update_map (0, 0, 0))) to_publish ([], st)
           in if mc_current_room_id st1 = [] then (z_requests, out, st1)
              else case map_of (mc_room_costmaps st1) (mc_current_room_id st1) of
                  None \<Rightarrow> (z_requests, out, st1)
                | Some room \<Rightarrow>
                    (case (ri_layered_costmap room, robot_pose) of
                       (Some m, Some pose) \<Rightarrow>
                         (case update_and_publish (update_map pose) (mc_current_room_id st1) st1 of
                            (out1, st2) \<Rightarrow> (z_requests, out @ out1, st2))
                     | _ \<Rightarrow> (z_requests, out, st1)))"

text \<open>The answer to a request for a height.\<close>

definition on_min_z :: "string \<Rightarrow> real option \<Rightarrow> MultiCostmap2DROS \<Rightarrow> MultiCostmap2DROS" where
  "on_min_z room_id response st =
     (case response of
        Some min_z \<Rightarrow>
          if mc_is_shutting_down st then st
          else map_room room_id (\<lambda>room. if ri_has_fetched_z room then room
                 else room\<lparr>ri_map_origin_z := min_z, ri_has_fetched_z := True\<rparr>) st
      | None \<Rightarrow> st)"

section \<open>Rooms that come and go\<close>

type_synonym environments = "(string \<times> string list) list"

text \<open>The rooms still to be created, and the node with the rooms that are gone marked inactive.\<close>

definition onEnvironmentUpdate :: "environments \<Rightarrow> MultiCostmap2DROS \<Rightarrow> (string \<times> string) list \<times> MultiCostmap2DROS" where
  "onEnvironmentUpdate msg st =
     (let named = concat (map (\<lambda>(env, maps). map (\<lambda>m. (env, m)) maps) msg);
          new_rooms = map (\<lambda>(env, m). createRoomKey env m) named;
          to_create = filter (\<lambda>(env, m). map_of (mc_room_costmaps st) (createRoomKey env m) = None) named
      in (to_create,
          st\<lparr>mc_room_costmaps := map (\<lambda>(i, room). if i \<in> set new_rooms then (i, room) else (i, room\<lparr>ri_is_active := False\<rparr>))
               (mc_room_costmaps st)\<rparr>))"

text \<open>\<open>create\<close> sets up the layers of a room; it may fail.\<close>

definition createRoomCostmapsDeferred ::
  "(string \<Rightarrow> string \<Rightarrow> RoomCostmapInfo option) \<Rightarrow> (string \<times> string) list \<Rightarrow> MultiCostmap2DROS \<Rightarrow> MultiCostmap2DROS" where
  "createRoomCostmapsDeferred create rooms_to_create st =
     fold (\<lambda>(env, m) st.
         case create env m of
           None \<Rightarrow> st
         | Some room \<Rightarrow>
             st\<lparr>mc_room_costmaps := AList.update (createRoomKey env m) room (mc_room_costmaps st),
                mc_costmap_pubs := AList.update (createRoomKey env m) (mc_active st) (mc_costmap_pubs st)\<rparr>)
       rooms_to_create st"

definition onCurrentRoomUpdate :: "string \<Rightarrow> string \<Rightarrow> MultiCostmap2DROS \<Rightarrow> MultiCostmap2DROS" where
  "onCurrentRoomUpdate floor_name room_name st = st\<lparr>mc_current_room_id := createRoomKey floor_name room_name\<rparr>"

section \<open>Life cycle\<close>

definition set_pubs :: "bool \<Rightarrow> (string \<times> bool) list \<Rightarrow> (string \<times> bool) list" where
  "set_pubs active pubs = map (\<lambda>(i, _). (i, active)) pubs"

definition set_active :: "bool \<Rightarrow> MultiCostmap2DROS \<Rightarrow> MultiCostmap2DROS" where
  "set_active active st =
     st\<lparr>mc_is_shutting_down := \<not> active, mc_active := active,
        mc_room_costmaps := map (\<lambda>(i, room). (i, room\<lparr>ri_is_active := active\<rparr>)) (mc_room_costmaps st),
        mc_costmap_pubs := set_pubs active (mc_costmap_pubs st), mc_floor_costmap_pubs := set_pubs active (mc_floor_costmap_pubs st)\<rparr>"

definition multi_on_activate :: "MultiCostmap2DROS \<Rightarrow> MultiCostmap2DROS" where
  "multi_on_activate st = set_active True st"

definition multi_on_deactivate :: "MultiCostmap2DROS \<Rightarrow> MultiCostmap2DROS" where
  "multi_on_deactivate st = set_active False st"

definition multi_on_cleanup :: "MultiCostmap2DROS \<Rightarrow> MultiCostmap2DROS" where
  "multi_on_cleanup st = st\<lparr>mc_is_shutting_down := True, mc_active := False, mc_room_costmaps := [], mc_costmap_pubs := []\<rparr>"

section \<open>Merging\<close>

lemma occupancy_range: "- 1 \<le> occupancy c \<and> occupancy c \<le> 100"
proof -
  have "uint c \<le> 255" using uint_bounded [of c] by simp
  moreover have "c \<noteq> 255 \<Longrightarrow> uint c \<noteq> 255" by (metis uint_word_of_int_eq word_of_int_uint of_int_numeral)
  ultimately have "uint c * 100 div 254 \<le> 100" if "c \<noteq> 255" using that by linarith
  moreover have "0 \<le> uint c * 100 div 254" using uint_nonnegative [of c] by (simp add: pos_imp_zdiv_nonneg_iff)
  ultimately show ?thesis by (auto simp: occupancy_def)
qed

lemma getFloorFromRoomId_key:
  assumes "CHR ''/'' \<notin> set floor_name"
  shows "getFloorFromRoomId (createRoomKey floor_name room_name) = floor_name"
  using assms unfolding getFloorFromRoomId_def createRoomKey_def by (induction floor_name) auto

lemma merge_cost_params [simp]:
  "cm_size_x (merge_cost c cell m) = cm_size_x m" "cm_size_y (merge_cost c cell m) = cm_size_y m"
  "cm_resolution (merge_cost c cell m) = cm_resolution m"
  "cm_origin_x (merge_cost c cell m) = cm_origin_x m" "cm_origin_y (merge_cost c cell m) = cm_origin_y m"
  "wf_costmap (merge_cost c cell m) = wf_costmap m" "worldToMap (merge_cost c cell m) = worldToMap m"
  by (simp_all add: merge_cost_def Let_def split: prod.split)

text \<open>Both merging loops are a sequence of writes to cells of the floor.\<close>

definition writes :: "((nat \<times> nat) option \<times> uchar) list \<Rightarrow> Costmap2D \<Rightarrow> Costmap2D" where
  "writes ws m = fold (\<lambda>(cell, c) m. case cell of Some q \<Rightarrow> merge_cost c q m | None \<Rightarrow> m) ws m"

lemma writes_params [simp]:
  "cm_size_x (writes ws m) = cm_size_x m" "cm_size_y (writes ws m) = cm_size_y m" "cm_resolution (writes ws m) = cm_resolution m"
  "cm_origin_x (writes ws m) = cm_origin_x m" "cm_origin_y (writes ws m) = cm_origin_y m"
  "wf_costmap (writes ws m) = wf_costmap m" "worldToMap (writes ws m) = worldToMap m"
  by (induction ws arbitrary: m) (auto simp: writes_def split: option.splits)

lemma writes_append: "writes (us @ ws) m = writes ws (writes us m)"
  by (simp add: writes_def)

definition room_writes :: "Costmap2D \<Rightarrow> Costmap2D \<Rightarrow> ((nat \<times> nat) option \<times> uchar) list" where
  "room_writes floor_costmap room =
     map (\<lambda>(x, y). (worldToMap floor_costmap (fst (mapToWorld room x y)) (snd (mapToWorld room x y)), getCost room x y))
       (grid_cells (cm_size_x room) (cm_size_y room))"

lemma merge_room_writes: "merge_room room m = writes (room_writes m room) m"
proof -
  have "fold (\<lambda>(x, y) m.
         let wx = cm_origin_x room + (real x + 1 / 2) * cm_resolution room;
             wy = cm_origin_y room + (real y + 1 / 2) * cm_resolution room
         in case worldToMap m wx wy of Some cell \<Rightarrow> merge_cost (getCost room x y) cell m | None \<Rightarrow> m) cells m' =
      writes (map (\<lambda>(x, y). (worldToMap m (fst (mapToWorld room x y)) (snd (mapToWorld room x y)), getCost room x y)) cells) m'"
    if "worldToMap m' = worldToMap m" for cells m'
    using that
  proof (induction cells arbitrary: m')
    case (Cons cell cells)
    obtain x y where cell: "cell = (x, y)" by (cases cell)
    show ?case
      using Cons.IH Cons.prems by (cases "worldToMap m (fst (mapToWorld room x y)) (snd (mapToWorld room x y))")
        (simp_all add: writes_def mapToWorld_def cell)
  qed (simp add: writes_def)
  then show ?thesis by (simp add: merge_room_def room_writes_def)
qed

lemma merge_rooms_writes: "fold merge_room rooms m = writes (concat (map (room_writes m) rooms)) m"
proof -
  have same: "worldToMap m' = worldToMap m \<Longrightarrow> room_writes m' room = room_writes m room" for m' room by (simp add: room_writes_def)
  have "fold merge_room rooms m' = writes (concat (map (room_writes m) rooms)) m'" if "worldToMap m' = worldToMap m" for m'
    using that
  proof (induction rooms arbitrary: m')
    case (Cons room rooms)
    have "merge_room room m' = writes (room_writes m room) m'" using same [OF Cons.prems] by (simp add: merge_room_writes)
    with Cons show ?case by (simp add: writes_append)
  qed (simp add: writes_def)
  then show ?thesis by simp
qed

definition known :: "Costmap2D \<Rightarrow> bool" where
  "known m \<longleftrightarrow> (\<forall>x y. in_map m x y \<longrightarrow> getCost m x y \<noteq> NO_INFORMATION)"

lemma getCost_merge_cost:
  assumes "wf_costmap m" and "known m" and "in_map m fx fy" and "in_map m x y"
  shows "getCost (merge_cost c (fx, fy) m) x y = (if (fx, fy) = (x, y) \<and> c \<noteq> NO_INFORMATION then max c (getCost m x y) else getCost m x y)"
  using assms getCost_setCost [OF assms(1,3,4)] by (auto simp: merge_cost_def known_def Let_def)

lemma writes_Max:
  assumes "wf_costmap m" and "known m" and "\<forall>fx fy c. (Some (fx, fy), c) \<in> set ws \<longrightarrow> in_map m fx fy"
    and "in_map m x y"
  shows "getCost (writes ws m) x y = Max (insert (getCost m x y) {c. (Some (x, y), c) \<in> set ws \<and> c \<noteq> NO_INFORMATION})"
  using assms
proof (induction ws arbitrary: m)
  case (Cons w ws)
  obtain cell c where w: "w = (cell, c)" by (cases w)
  let ?S = "\<lambda>ws. {c. (Some (x, y), c) \<in> set ws \<and> c \<noteq> NO_INFORMATION}"
  have fin: "finite (?S ws)" for ws by (rule finite_subset [of _ "snd ` set ws"]) force+
  show ?case
  proof (cases cell)
    case None
    then have "getCost (writes ws m) x y = Max (insert (getCost m x y) (?S ws))" "?S (w # ws) = ?S ws"
      using Cons.IH [OF Cons.prems(1,2) _ Cons.prems(4)] Cons.prems(3) w by auto
    with None w show ?thesis by (simp add: writes_def)
  next
    case (Some q)
    obtain fx fy where q: "q = (fx, fy)" by (cases q)
    have cell_in: "in_map m fx fy" using Cons.prems(3) w Some q by auto
    let ?m = "merge_cost c (fx, fy) m"
    have cost: "getCost ?m x' y' = (if (fx, fy) = (x', y') \<and> c \<noteq> NO_INFORMATION then max c (getCost m x' y') else getCost m x' y')"
      if "in_map m x' y'" for x' y' using getCost_merge_cost [OF Cons.prems(1,2) cell_in that] .
    have "known ?m" using cost Cons.prems(2) by (auto simp: known_def max_def)
    then have IH: "getCost (writes ws ?m) x y = Max (insert (getCost ?m x y) (?S ws))"
      using Cons.prems by (intro Cons.IH) auto
    show ?thesis
    proof (cases "(fx, fy) = (x, y) \<and> c \<noteq> NO_INFORMATION")
      case True
      then have "?S (w # ws) = insert c (?S ws)" using w Some q by auto
      moreover have "getCost ?m x y = max c (getCost m x y)" using cost [OF Cons.prems(4)] True by simp
      ultimately show ?thesis using IH fin [of ws] Some q w
        by (cases "?S ws = {}") (auto simp: writes_def max.assoc max.left_commute max.commute)
    next
      case False
      then have "?S (w # ws) = ?S ws" using w Some q by auto
      moreover have "getCost ?m x y = getCost m x y" using cost [OF Cons.prems(4)] False by auto
      ultimately show ?thesis using IH Some q w by (simp add: writes_def)
    qed
  qed
qed (simp add: writes_def)

section \<open>The costmap of a floor\<close>

lemma fold_min_attained:
  fixes f :: "'a \<Rightarrow> real"
  shows "fold (\<lambda>m v. min v (f m)) ms a \<in> insert a (f ` set ms)" and "\<forall>m \<in> set ms. fold (\<lambda>m v. min v (f m)) ms a \<le> f m"
    and "fold (\<lambda>m v. min v (f m)) ms a \<le> a"
proof -
  have "fold (\<lambda>m v. min v (f m)) ms a \<in> insert a (f ` set ms) \<and> (\<forall>m \<in> set ms. fold (\<lambda>m v. min v (f m)) ms a \<le> f m) \<and>
      fold (\<lambda>m v. min v (f m)) ms a \<le> a"
  proof (induction ms arbitrary: a)
    case (Cons m ms)
    note IH = Cons.IH [of "min a (f m)"]
    then have "fold (\<lambda>m v. min v (f m)) ms (min a (f m)) \<le> min a (f m)" by blast
    then have "fold (\<lambda>m v. min v (f m)) ms (min a (f m)) \<le> f m" "fold (\<lambda>m v. min v (f m)) ms (min a (f m)) \<le> a" by linarith+
    moreover have "min a (f m) = a \<or> min a (f m) = f m" by linarith
    ultimately show ?case using IH by auto
  qed simp
  then show "fold (\<lambda>m v. min v (f m)) ms a \<in> insert a (f ` set ms)" "\<forall>m \<in> set ms. fold (\<lambda>m v. min v (f m)) ms a \<le> f m"
    "fold (\<lambda>m v. min v (f m)) ms a \<le> a" by blast+
qed

lemma fold_max_ge:
  fixes f :: "'a \<Rightarrow> real"
  shows "m \<in> set ms \<Longrightarrow> f m \<le> fold (\<lambda>m v. max v (f m)) ms a"
proof -
  have "a \<le> fold (\<lambda>m v. max v (f m)) ms a \<and> (\<forall>m \<in> set ms. f m \<le> fold (\<lambda>m v. max v (f m)) ms a)"
  proof (induction ms arbitrary: a)
    case (Cons m ms)
    from Cons.IH [of "max a (f m)"] show ?case by auto
  qed simp
  then show "m \<in> set ms \<Longrightarrow> f m \<le> fold (\<lambda>m v. max v (f m)) ms a" by blast
qed

text \<open>One axis of the bounding box of rooms that lie on the grid.\<close>

lemma axis_covers:
  fixes res D :: real and og len :: "'a \<Rightarrow> real" and n :: "'a \<Rightarrow> nat"
  assumes res: "0 < res" and room: "room \<in> set rooms"
    and grid: "\<forall>r \<in> set rooms. (\<exists>i :: int. og r = of_int i * res) \<and> og r \<le> D"
    and len: "\<forall>r \<in> set rooms. 1 \<le> n r \<and> len r = (real (n r) - 1 / 2) * res"
  defines "lo \<equiv> fold (\<lambda>m v. min v (og m)) rooms D" and "hi \<equiv> fold (\<lambda>m v. max v (og m + len m)) rooms (- D)"
  defines "lo1 \<equiv> of_int \<lfloor>lo / res\<rfloor> * res"
  shows "\<exists>k. og room = lo1 + real k * res \<and> k + n room \<le> nat \<lceil>(hi - lo1) / res\<rceil>"
proof -
  have "lo \<in> og ` set rooms"
  proof -
    have "lo \<in> insert D (og ` set rooms)" "lo \<le> og room" "og room \<le> D"
      using fold_min_attained [where f = og and ms = rooms and a = D] room grid unfolding lo_def by blast+
    then show ?thesis using room by (cases "lo = D") (auto intro!: image_eqI [of _ _ room])
  qed
  then obtain i :: int where "lo = of_int i * res" using grid by blast
  then have lo1: "lo1 = lo" "lo1 = of_int i * res" using res by (simp_all add: lo1_def)
  obtain j :: int where j: "og room = of_int j * res" using grid room by blast
  have "of_int i * res \<le> of_int j * res" using fold_min_attained(2) [where f = og and ms = rooms and a = D] room j lo1 unfolding lo_def by auto
  then have ij: "i \<le> j" using res by simp
  let ?k = "nat (j - i)"
  have k: "og room = lo1 + real ?k * res" using ij by (simp add: j lo1(2) algebra_simps)
  have "og room + len room \<le> hi" unfolding hi_def by (rule fold_max_ge [OF room])
  then have "(real ?k + real (n room) - 1 / 2) * res \<le> hi - lo1" using len room by (simp add: k algebra_simps)
  then have "real ?k + real (n room) - 1 / 2 \<le> (hi - lo1) / res" using res by (simp add: pos_le_divide_eq)
  then have "int (?k + n room) \<le> \<lceil>(hi - lo1) / res\<rceil>" by linarith
  then have "?k + n room \<le> nat \<lceil>(hi - lo1) / res\<rceil>" by linarith
  with k show ?thesis by blast
qed

text \<open>
  Rooms whose maps were rasterised on one grid: the same resolution, and the origins on grid points
  (in the range of a double).
\<close>

definition on_grid :: "real \<Rightarrow> Costmap2D \<Rightarrow> bool" where
  "on_grid res m \<longleftrightarrow> wf_costmap m \<and> 0 < cm_size_x m \<and> 0 < cm_size_y m \<and> cm_resolution m = res \<and>
     (\<exists>i j :: int. cm_origin_x m = of_int i * res \<and> cm_origin_y m = of_int j * res) \<and>
     cm_origin_x m \<le> dbl_max \<and> cm_origin_y m \<le> dbl_max"

lemma size_in_meters:
  assumes "wf_costmap m" and "0 < cm_size_x m" and "0 < cm_size_y m"
  shows "getSizeInMetersX m = (real (cm_size_x m) - 1 / 2) * cm_resolution m"
    and "getSizeInMetersY m = (real (cm_size_y m) - 1 / 2) * cm_resolution m"
proof -
  have small: "cm_size_x m < 2 ^ 32" "cm_size_y m < 2 ^ 32"
    using assms mult_le_mono2 [of 1 "cm_size_y m" "cm_size_x m"] mult_le_mono1 [of 1 "cm_size_x m" "cm_size_y m"]
    unfolding wf_costmap_def by linarith+
  have "wrap32 (n + (2 ^ 32 - 1)) = n - 1" if "0 < n" "n < 2 ^ 32" for n
  proof -
    have "n + (2 ^ 32 - 1) = (n - 1) + 2 ^ 32" using that by simp
    then show ?thesis using that unfolding wrap32_def by (metis less_imp_diff_less mod_add_self2 mod_less)
  qed
  with small assms(2,3) show "getSizeInMetersX m = (real (cm_size_x m) - 1 / 2) * cm_resolution m"
    "getSizeInMetersY m = (real (cm_size_y m) - 1 / 2) * cm_resolution m"
    by (simp_all add: getSizeInMetersX_def getSizeInMetersY_def of_nat_diff)
qed

lemma floor_covers_room:
  assumes grid: "\<forall>m \<in> set rooms. on_grid (cm_resolution (rooms ! 0)) m" and room: "room \<in> set rooms"
    and box: "floor_box rooms = ((ox, oy), (sx, sy))"
    and m: "cm_origin_x m = ox" "cm_origin_y m = oy" "cm_size_x m = sx" "cm_size_y m = sy" "cm_resolution m = cm_resolution (rooms ! 0)"
    and cell: "in_map room x y"
  shows "worldToMap m (fst (mapToWorld room x y)) (snd (mapToWorld room x y)) \<noteq> None"
proof -
  define res where "res = cm_resolution (rooms ! 0)"
  have g: "on_grid res r" if "r \<in> set rooms" for r using grid that by (simp add: res_def)
  have res: "0 < res" using g [OF room] by (auto simp: on_grid_def wf_costmap_def)
  have gx: "\<forall>r \<in> set rooms. (\<exists>i :: int. cm_origin_x r = of_int i * res) \<and> cm_origin_x r \<le> dbl_max"
    and gy: "\<forall>r \<in> set rooms. (\<exists>i :: int. cm_origin_y r = of_int i * res) \<and> cm_origin_y r \<le> dbl_max"
    using g unfolding on_grid_def by blast+
  have lx: "\<forall>r \<in> set rooms. 1 \<le> cm_size_x r \<and> getSizeInMetersX r = (real (cm_size_x r) - 1 / 2) * res"
    and ly: "\<forall>r \<in> set rooms. 1 \<le> cm_size_y r \<and> getSizeInMetersY r = (real (cm_size_y r) - 1 / 2) * res"
    using g size_in_meters unfolding on_grid_def by fastforce+
  note box' = box [unfolded floor_box_def Let_def, folded res_def, unfolded prod.inject]
  obtain k where k: "cm_origin_x room = ox + real k * res" "k + cm_size_x room \<le> sx"
    using axis_covers [OF res room gx lx] box' by (auto simp: to_uint_def)
  obtain l where l: "cm_origin_y room = oy + real l * res" "l + cm_size_y room \<le> sy"
    using axis_covers [OF res room gy ly] box' by (auto simp: to_uint_def)
  have "cm_resolution room = res" using g [OF room] by (simp add: on_grid_def)
  then have "in_map m (k + x) (l + y) \<and> cell_contains m (k + x) (l + y) (fst (mapToWorld room x y)) (snd (mapToWorld room x y))"
    using cell k l res by (simp add: cell_contains_def mapToWorld_def m flip: res_def) (simp add: algebra_simps)
  then show ?thesis using worldToMap_Some_iff [of m] res m(5) by (metis option.distinct(1) res_def)
qed

lemma those_Some: "those xs = Some ys \<longleftrightarrow> xs = map Some ys"
  by (induction xs arbitrary: ys) (auto split: option.splits)

lemma ready_costmap_Some: "ready_costmap room = Some m \<Longrightarrow> ri_layered_costmap room = Some m \<and> cm_size_x m \<noteq> 0 \<and> cm_size_y m \<noteq> 0"
  by (auto simp: ready_costmap_def split: option.splits if_splits)

definition floor_rooms :: "MultiCostmap2DROS \<Rightarrow> string \<Rightarrow> (string \<times> RoomCostmapInfo) list" where
  "floor_rooms st floor_name = filter (\<lambda>(room_id, _). getFloorFromRoomId room_id = floor_name) (mc_room_costmaps st)"

lemma copied_ready:
  assumes "distinct (map fst (mc_room_costmaps st))"
    and "those (map (\<lambda>(_, room). ready_costmap room) (floor_rooms st floor_name)) = Some ms"
  shows "those (map (copied_costmap (mc_room_costmaps st)) (map fst (floor_rooms st floor_name))) = Some ms"
proof -
  have "copied_costmap (mc_room_costmaps st) i = ready_costmap room"
    if "(i, room) \<in> set (floor_rooms st floor_name)" "ready_costmap room = Some m" for i room m
  proof -
    have "map_of (mc_room_costmaps st) i = Some room" using assms(1) that(1) by (simp add: floor_rooms_def)
    then show ?thesis using ready_costmap_Some [OF that(2)] that(2) by (simp add: copied_costmap_def)
  qed
  moreover have "\<forall>(i, room) \<in> set (floor_rooms st floor_name). \<exists>m. ready_costmap room = Some m"
  proof clarify
    fix i room
    assume "(i, room) \<in> set (floor_rooms st floor_name)"
    then have "ready_costmap room \<in> set (map (\<lambda>(_, room). ready_costmap room) (floor_rooms st floor_name))" by force
    then show "\<exists>m. ready_costmap room = Some m" using assms(2) unfolding those_Some by auto
  qed
  ultimately have "map (copied_costmap (mc_room_costmaps st)) (map fst (floor_rooms st floor_name)) =
      map (\<lambda>(_, room). ready_costmap room) (floor_rooms st floor_name)" by (auto split: prod.split)
  then show ?thesis using assms(2) by (simp only:)
qed

lemma set_grid_cells [simp]: "(x, y) \<in> set (grid_cells sx sy) \<longleftrightarrow> x < sx \<and> y < sy"
  by (force simp: grid_cells_def)

lemma set_room_writes:
  "(q, c) \<in> set (room_writes m room) \<longleftrightarrow>
     (\<exists>x y. in_map room x y \<and> q = worldToMap m (fst (mapToWorld room x y)) (snd (mapToWorld room x y)) \<and> c = getCost room x y)"
  by (simp add: room_writes_def image_iff Bex_def split_paired_Ex)

text \<open>The costs that rooms have at a cell of a floor.\<close>

definition room_costs :: "Costmap2D list \<Rightarrow> Costmap2D \<Rightarrow> nat \<Rightarrow> nat \<Rightarrow> uchar set" where
  "room_costs rooms m fx fy =
     {getCost room x y | room x y. room \<in> set rooms \<and> in_map room x y \<and>
        worldToMap m (fst (mapToWorld room x y)) (snd (mapToWorld room x y)) = Some (fx, fy)}"

lemma build_floor_costs:
  fixes junk ids copied
  assumes box: "floor_box checked = ((ox, oy), (sx, sy))" and small: "sx * sy < 2 ^ 32" and res: "0 < cm_resolution (checked ! 0)"
  defines "m \<equiv> fc_costmap (build_floor junk ids checked copied)"
  shows "wf_costmap m" and "cm_size_x m = sx" and "cm_size_y m = sy" and "cm_origin_x m = ox" and "cm_origin_y m = oy"
    and "cm_resolution m = cm_resolution (checked ! 0)"
    and "in_map m fx fy \<Longrightarrow> getCost m fx fy = Max (insert FREE_SPACE (room_costs copied m fx fy - {NO_INFORMATION}))"
proof -
  define m0 where "m0 = new_Costmap2D junk sx sy (cm_resolution (checked ! 0)) ox oy FREE_SPACE"
  define ws where "ws = concat (map (room_writes m0) copied)"
  have m: "m = writes ws m0"
    by (simp add: m_def build_floor_def box merge_rooms_writes ws_def m0_def Let_def)
  have wf: "wf_costmap m0" unfolding m0_def by (rule wf_new_Costmap2D [OF small res])
  show "wf_costmap m" "cm_size_x m = sx" "cm_size_y m = sy" "cm_origin_x m = ox" "cm_origin_y m = oy"
    "cm_resolution m = cm_resolution (checked ! 0)" using wf by (simp_all add: m) (simp_all add: m0_def)
  have zero: "getCost m0 x y = FREE_SPACE" if "in_map m0 x y" for x y
    using getCost_new_Costmap2D [OF small res] that by (simp add: m0_def)
  have cells: "\<forall>fx fy c. (Some (fx, fy), c) \<in> set ws \<longrightarrow> in_map m0 fx fy"
  proof -
    have "in_map m0 fx fy" if "Some (fx, fy) = worldToMap m0 wx wy" for fx fy wx wy
      using worldToMap_Some_iff [of m0] wf that [symmetric] by (simp add: wf_costmap_def)
    then show ?thesis by (auto simp: ws_def room_writes_def)
  qed
  have costs: "{c. (Some (fx, fy), c) \<in> set ws \<and> c \<noteq> NO_INFORMATION} = room_costs copied m fx fy - {NO_INFORMATION}"
  proof -
    have "(Some (fx, fy), c) \<in> set ws \<longleftrightarrow> (\<exists>room \<in> set copied. (Some (fx, fy), c) \<in> set (room_writes m0 room))" for c
      by (simp add: ws_def)
    then have "(Some (fx, fy), c) \<in> set ws \<longleftrightarrow> c \<in> room_costs copied m fx fy" for c
      unfolding set_room_writes room_costs_def m writes_params mem_Collect_eq by metis
    then show ?thesis by blast
  qed
  show "getCost m fx fy = Max (insert FREE_SPACE (room_costs copied m fx fy - {NO_INFORMATION}))" if "in_map m fx fy"
    using writes_Max [OF wf _ cells, of fx fy] zero that costs by (simp add: m known_def)
qed

lemma floor_costmap_merged:
  assumes "distinct (map fst (mc_room_costmaps st))" and "map_of (mc_floor_costmap_cache st) floor_name = None"
    and "floor_rooms st floor_name \<noteq> []"
    and "those (map (\<lambda>(_, room). ready_costmap room) (floor_rooms st floor_name)) = Some rooms"
    and "\<forall>room \<in> set rooms. on_grid (cm_resolution (rooms ! 0)) room"
    and "fst (snd (floor_box rooms)) * snd (snd (floor_box rooms)) < 2 ^ 32"
  shows "\<exists>m st'. createFloorCostmap junk (mc_room_costmaps st) floor_name st = (True, st') \<and>
    getCostmapForFloor st' floor_name = Some m \<and> wf_costmap m \<and>
    (\<forall>room \<in> set rooms. \<forall>x y. in_map room x y \<longrightarrow>
       worldToMap m (fst (mapToWorld room x y)) (snd (mapToWorld room x y)) \<noteq> None) \<and>
    (\<forall>fx fy. in_map m fx fy \<longrightarrow>
       getCost m fx fy = Max (insert FREE_SPACE (room_costs rooms m fx fy - {NO_INFORMATION})))"
proof -
  obtain ox oy sx sy where box: "floor_box rooms = ((ox, oy), (sx, sy))" by (metis surj_pair)
  have "rooms \<noteq> []" using assms(3,4) unfolding those_Some by auto
  then have "rooms ! 0 \<in> set rooms" by simp
  then have "on_grid (cm_resolution (rooms ! 0)) (rooms ! 0)" using assms(5) by blast
  then have res: "0 < cm_resolution (rooms ! 0)" unfolding on_grid_def wf_costmap_def by blast
  have small: "sx * sy < 2 ^ 32" using assms(6) box by simp
  define cache where "cache = build_floor junk (map fst (floor_rooms st floor_name)) rooms rooms"
  let ?st' = "st\<lparr>mc_floor_costmap_cache := mc_floor_costmap_cache st @ [(floor_name, cache)],
      mc_floor_costmap_pubs := (if map_of (mc_floor_costmap_pubs st) floor_name = None
        then mc_floor_costmap_pubs st @ [(floor_name, mc_active st)] else mc_floor_costmap_pubs st)\<rparr>"
  note facts = build_floor_costs [OF box small res, where junk = junk and copied = rooms and ids = "map fst (floor_rooms st floor_name)", folded cache_def]
  have "createFloorCostmap junk (mc_room_costmaps st) floor_name st = (True, ?st')"
    using assms(2,3,4) copied_ready [OF assms(1,4)]
    unfolding createFloorCostmap_def floor_rooms_def [symmetric] Let_def cache_def by (simp only: if_False not_not option.case refl simp_thms)
  moreover have "getCostmapForFloor ?st' floor_name = Some (fc_costmap cache)"
    using assms(2) by (simp add: getCostmapForFloor_def map_add_def cache_def build_floor_def Let_def split: prod.split)
  moreover have "worldToMap (fc_costmap cache) (fst (mapToWorld room x y)) (snd (mapToWorld room x y)) \<noteq> None"
    if "room \<in> set rooms" "in_map room x y" for room x y
    by (rule floor_covers_room [OF assms(5) that(1) box facts(4,5,2,3,6) that(2)])
  ultimately show ?thesis using facts(1,7) by blast
qed

text \<open>
  C11: the costmap of a floor. When all rooms of a floor are loaded and lie on one grid,
  \<open>createFloorCostmap\<close> succeeds, every cell of every room has its place in the floor's costmap, and
  the cost of a cell there is the largest known cost of the rooms at that place, or
  free space where no room has one: no obstacle of a room is lost.
\<close>

theorem createFloorCostmap_merges:
  assumes "distinct (map fst (mc_room_costmaps st))" and "map_of (mc_floor_costmap_cache st) floor_name = None"
    and "floor_rooms st floor_name \<noteq> []"
    and "those (map (\<lambda>(_, room). ready_costmap room) (floor_rooms st floor_name)) = Some rooms"
    and "\<forall>room \<in> set rooms. on_grid (cm_resolution (rooms ! 0)) room"
    and "fst (snd (floor_box rooms)) * snd (snd (floor_box rooms)) < 2 ^ 32"
  shows "\<exists>m st'. createFloorCostmap junk (mc_room_costmaps st) floor_name st = (True, st') \<and>
    getCostmapForFloor st' floor_name = Some m \<and> wf_costmap m \<and>
    (\<forall>room \<in> set rooms. \<forall>x y. in_map room x y \<longrightarrow>
       worldToMap m (fst (mapToWorld room x y)) (snd (mapToWorld room x y)) \<noteq> None) \<and>
    (\<forall>fx fy. in_map m fx fy \<longrightarrow>
       getCost m fx fy = Max (insert FREE_SPACE (room_costs rooms m fx fy - {NO_INFORMATION})))"
  by (rule floor_costmap_merged [OF assms])

section \<open>Floors that are lost\<close>

text \<open>Everything that happens to the node.\<close>

inductive multi_step :: "MultiCostmap2DROS \<Rightarrow> MultiCostmap2DROS \<Rightarrow> bool" where
  floors_timer: "updateFloorCostmaps junk ord st = (out, st') \<Longrightarrow> multi_step st st'"
| room_timer: "updateCurrentRoomMap update_map pose ready st = (requests, out, st') \<Longrightarrow> multi_step st st'"
| min_z: "multi_step st (on_min_z room_id response st)"
| environment: "onEnvironmentUpdate msg st = (to_create, st') \<Longrightarrow> multi_step st st'"
| deferred: "multi_step st (createRoomCostmapsDeferred create rooms st)"
| current_room: "multi_step st (onCurrentRoomUpdate floor_name room_name st)"
| create_floor: "createFloorCostmap junk rooms_later floor_name st = (ok, st') \<Longrightarrow> multi_step st st'"
| invalidate: "multi_step st (invalidateFloorCostmap floor_name st)"
| activate: "multi_step st (multi_on_activate st)"
| deactivate: "multi_step st (multi_on_deactivate st)"
| cleanup: "multi_step st (multi_on_cleanup st)"

text \<open>A floor with an entry in the cache that is not valid.\<close>

definition lost :: "string \<Rightarrow> MultiCostmap2DROS \<Rightarrow> bool" where
  "lost floor_name st = (case map_of (mc_floor_costmap_cache st) floor_name of Some cache \<Rightarrow> \<not> fc_is_valid cache | None \<Rightarrow> False)"

lemma lost_no_costmap: "lost f st \<Longrightarrow> getCostmapForFloor st f = None"
  by (auto simp: lost_def getCostmapForFloor_def split: option.splits)

lemma lost_cong: "mc_floor_costmap_cache st' = mc_floor_costmap_cache st \<Longrightarrow> lost f st' = lost f st"
  by (simp add: lost_def)

lemma lost_room_update [simp]: "lost f (st\<lparr>mc_room_costmaps := rooms\<rparr>) = lost f st"
  by (simp add: lost_def)

lemma map_of_set_floor:
  "map_of (mc_floor_costmap_cache (set_floor g cache st)) f = (if f = g then Some cache else map_of (mc_floor_costmap_cache st) f)"
  by (simp add: set_floor_def update_conv')

lemma lost_set_floor: "lost f (set_floor g cache st) = (if f = g then \<not> fc_is_valid cache else lost f st)"
  by (simp add: lost_def map_of_set_floor)

lemma lost_invalidate: "lost f st \<Longrightarrow> lost f (invalidateFloorCostmap g st)"
  by (auto simp: invalidateFloorCostmap_def lost_set_floor split: option.splits)

lemma lost_updateFloorCostmapRegion: "lost f st \<Longrightarrow> lost f (updateFloorCostmapRegion g i st)"
  by (auto simp: updateFloorCostmapRegion_def map_of_set_floor lost_def split: option.splits)

lemma lost_createFloorCostmap: "lost f st \<Longrightarrow> lost f (snd (createFloorCostmap junk rooms g st))"
  by (auto simp: createFloorCostmap_def lost_def Let_def map_add_def split: option.splits)

lemma lost_fold: "lost f st \<Longrightarrow> (\<And>x st. lost f st \<Longrightarrow> lost f (op x st)) \<Longrightarrow> lost f (fold op xs st)"
  by (induction xs arbitrary: st) auto

lemma lost_update_floor: "lost f st \<Longrightarrow> lost f (update_floor junk g changed st)"
  by (simp add: update_floor_def lost_fold lost_updateFloorCostmapRegion lost_createFloorCostmap)

lemma lost_updateFloorCostmaps:
  assumes "lost f st" and "updateFloorCostmaps junk ord st = (out, st')"
  shows "lost f st'"
proof -
  have "lost f (fold (\<lambda>g. update_floor junk g (changed g)) floors
      (st\<lparr>mc_room_costmaps := map (\<lambda>(i, room). (i, room\<lparr>ri_has_changed := False\<rparr>)) (mc_room_costmaps st)\<rparr>))" for changed floors
    by (rule lost_fold) (use assms(1) in \<open>simp_all add: lost_update_floor\<close>)
  with assms show ?thesis by (auto simp: updateFloorCostmaps_def Let_def split: if_splits)
qed

text \<open>The operations on rooms do not touch the floors.\<close>

lemma map_room_cache [simp]: "mc_floor_costmap_cache (map_room i g st) = mc_floor_costmap_cache st"
  by (simp add: map_room_def)

lemma publishCostmap_cache [simp]: "mc_floor_costmap_cache (snd (publishCostmap i m st)) = mc_floor_costmap_cache st"
  by (simp add: publishCostmap_def split: option.split bool.split)

lemma update_and_publish_cache [simp]: "mc_floor_costmap_cache (snd (update_and_publish u i st)) = mc_floor_costmap_cache st"
  by (simp add: update_and_publish_def Let_def split: option.split)

lemma publish_once_cache [simp]:
  "mc_floor_costmap_cache (snd (fold (publish_once u) is acc)) = mc_floor_costmap_cache (snd acc)"
proof (induction "is" arbitrary: acc)
  case (Cons i "is")
  have "mc_floor_costmap_cache (snd (publish_once u i acc)) = mc_floor_costmap_cache (snd acc)"
    using update_and_publish_cache [of u i "snd acc"] by (simp add: publish_once_def case_prod_beta)
  with Cons show ?case by simp
qed simp

lemma updateCurrentRoomMap_cache:
  assumes "updateCurrentRoomMap u pose ready st = (requests, out, st')"
  shows "mc_floor_costmap_cache st' = mc_floor_costmap_cache st"
proof (cases "mc_is_shutting_down st")
  case False
  define to_publish where "to_publish = map fst (filter (\<lambda>(_, room). \<not> ri_has_been_published room \<and> ri_has_fetched_z room)
      (filter (\<lambda>(_, room). room_loaded room) (mc_room_costmaps st)))"
  obtain out1 st1 where run: "fold (publish_once (u (0, 0, 0))) to_publish ([], st) = (out1, st1)" by fastforce
  then have st1: "mc_floor_costmap_cache st1 = mc_floor_costmap_cache st"
    using publish_once_cache [of "u (0, 0, 0)" to_publish "([], st)"] by simp
  have "st' = st1 \<or> (\<exists>v i. st' = snd (update_and_publish v i st1))"
    using assms False run unfolding updateCurrentRoomMap_def Let_def to_publish_def [symmetric] if_not_P [OF False] run prod.case
    by (auto split: if_splits option.splits prod.splits) (metis snd_conv)+
  with st1 show ?thesis by auto
qed (use assms in \<open>simp add: updateCurrentRoomMap_def\<close>)

lemma createRoomCostmapsDeferred_cache [simp]:
  "mc_floor_costmap_cache (createRoomCostmapsDeferred create rooms st) = mc_floor_costmap_cache st"
  unfolding createRoomCostmapsDeferred_def by (induction rooms arbitrary: st) (auto split: option.split)

lemma on_min_z_cache [simp]: "mc_floor_costmap_cache (on_min_z i response st) = mc_floor_costmap_cache st"
  by (simp add: on_min_z_def split: option.split)

lemma multi_step_lost: "multi_step st st' \<Longrightarrow> lost f st \<Longrightarrow> lost f st'"
proof (induction rule: multi_step.induct)
  case (floors_timer junk ord st out st')
  then show ?case by (blast intro: lost_updateFloorCostmaps)
next
  case (room_timer update_map pose ready st requests out st')
  then show ?case using lost_cong [OF updateCurrentRoomMap_cache] by blast
next
  case (create_floor junk rooms_later floor_name st ok st')
  then show ?case using lost_createFloorCostmap [of f st junk rooms_later floor_name] by simp
next
  case (environment msg st to_create st')
  then show ?case by (auto simp: onEnvironmentUpdate_def Let_def lost_def)
qed (simp_all add: lost_def [of f] lost_invalidate [unfolded lost_def] onCurrentRoomUpdate_def multi_on_activate_def
    multi_on_deactivate_def multi_on_cleanup_def set_active_def)

lemma multi_steps_lost: "multi_step\<^sup>*\<^sup>* st st' \<Longrightarrow> lost f st \<Longrightarrow> lost f st'"
  by (induction rule: rtranclp_induct) (auto intro: multi_step_lost)

text \<open>What one update of a floor leaves as it is.\<close>

lemma updateFloorCostmapRegion_rooms [simp]: "mc_room_costmaps (updateFloorCostmapRegion g i st) = mc_room_costmaps st"
  by (simp add: updateFloorCostmapRegion_def set_floor_def split: option.split)

lemma createFloorCostmap_rooms [simp]: "mc_room_costmaps (snd (createFloorCostmap junk rooms g st)) = mc_room_costmaps st"
  by (simp add: createFloorCostmap_def Let_def split: option.split)

lemma update_regions_rooms: "mc_room_costmaps (fold (updateFloorCostmapRegion g) is st) = mc_room_costmaps st"
  by (induction "is" arbitrary: st) simp_all

lemma update_floor_rooms [simp]: "mc_room_costmaps (update_floor junk g changed st) = mc_room_costmaps st"
  by (simp add: update_floor_def update_regions_rooms)

text \<open>A floor that is lost, or that has no region for a room that is loaded.\<close>

definition misses :: "string \<Rightarrow> string \<Rightarrow> MultiCostmap2DROS \<Rightarrow> bool" where
  "misses f i st \<longleftrightarrow> (\<exists>info room. map_of (mc_room_costmaps st) i = Some info \<and> ready_costmap info = Some room) \<and>
     (\<exists>cache. map_of (mc_floor_costmap_cache st) f = Some cache \<and>
        (fc_is_valid cache \<longrightarrow> map_of (fc_room_regions cache) i = None))"

lemma misses_updateFloorCostmapRegion: "misses f i st \<Longrightarrow> misses f i (updateFloorCostmapRegion g k st)"
  unfolding misses_def updateFloorCostmapRegion_rooms
  by (auto simp: updateFloorCostmapRegion_def map_of_set_floor split: option.split)

lemma misses_createFloorCostmap: "misses f i st \<Longrightarrow> misses f i (snd (createFloorCostmap junk rooms g st))"
  unfolding misses_def createFloorCostmap_rooms
  by (auto simp: createFloorCostmap_def Let_def map_add_def split: option.split)

lemma misses_fold: "misses f i st \<Longrightarrow> (\<And>x st. misses f i st \<Longrightarrow> misses f i (op x st)) \<Longrightarrow> misses f i (fold op xs st)"
  by (induction xs arbitrary: st) auto

lemma misses_update_floor: "misses f i st \<Longrightarrow> misses f i (update_floor junk g changed st)"
  by (simp add: update_floor_def misses_fold misses_updateFloorCostmapRegion misses_createFloorCostmap)

lemma misses_region_lost: "misses f i st \<Longrightarrow> lost f (updateFloorCostmapRegion f i st)"
  unfolding misses_def updateFloorCostmapRegion_def
  by (auto simp: map_of_set_floor lost_def split: option.split)

lemma misses_update_lost:
  assumes "misses f i st" and "i \<in> set changed"
  shows "lost f (update_floor junk f changed st)"
proof (cases "getCostmapForFloor st f = None")
  case True
  then have "lost f st" using assms(1) by (auto simp: misses_def lost_def getCostmapForFloor_def split: option.splits if_splits)
  then show ?thesis by (rule lost_update_floor)
next
  case False
  obtain before after where changed: "changed = before @ i # after" using assms(2) by (meson split_list)
  have "misses f i (fold (updateFloorCostmapRegion f) before st)" using assms(1) by (rule misses_fold) (rule misses_updateFloorCostmapRegion)
  then have "lost f (fold (updateFloorCostmapRegion f) (before @ [i]) st)" using misses_region_lost by simp
  then have "lost f (fold (updateFloorCostmapRegion f) after (fold (updateFloorCostmapRegion f) (before @ [i]) st))"
    by (rule lost_fold) (rule lost_updateFloorCostmapRegion)
  then show ?thesis using False by (simp add: update_floor_def changed)
qed

lemma map_of_reset_changed:
  "map_of (map (\<lambda>(i, room). (i, room\<lparr>ri_has_changed := b\<rparr>)) rooms) k = map_option (\<lambda>room. room\<lparr>ri_has_changed := b\<rparr>) (map_of rooms k)"
  by (induction rooms) auto

lemma ready_costmap_changed [simp]: "ready_costmap (room\<lparr>ri_has_changed := b\<rparr>) = ready_costmap room"
  by (simp add: ready_costmap_def split: option.split)

text \<open>
  C29: a floor is lost when a room is added to it. Once a room without a region in the
  floor's costmap (one that arrived after the costmap was built, or whose region did not fit) has been
  loaded and published, the next update marks the costmap invalid, and nothing that happens to the
  node afterwards, in any order and including its clean-up, makes a costmap of that floor
  available again.
\<close>

theorem new_room_loses_floor:
  assumes "\<forall>S. finite S \<longrightarrow> set (ord S) = S" and "\<not> mc_is_shutting_down st"
    and "map_of (mc_room_costmaps st) room_id = Some info" and "ready_costmap info = Some room" and "ri_has_changed info"
    and "map_of (mc_floor_costmap_cache st) (getFloorFromRoomId room_id) = Some cache"
    and "map_of (fc_room_regions cache) room_id = None"
    and "updateFloorCostmaps junk ord st = (out, st1)" and "multi_step\<^sup>*\<^sup>* st1 st2"
  shows "getCostmapForFloor st2 (getFloorFromRoomId room_id) = None"
proof -
  let ?f = "getFloorFromRoomId room_id"
  let ?changed = "map fst (filter (\<lambda>(_, room). ri_has_changed room) (mc_room_costmaps st))"
  let ?st0 = "st\<lparr>mc_room_costmaps := map (\<lambda>(i, room). (i, room\<lparr>ri_has_changed := False\<rparr>)) (mc_room_costmaps st)\<rparr>"
  let ?up = "\<lambda>g. update_floor junk g (filter (\<lambda>i. getFloorFromRoomId i = g) ?changed)"
  let ?floors = "ord (set (map getFloorFromRoomId ?changed))"
  have changed: "room_id \<in> set ?changed" using map_of_SomeD [OF assms(3)] assms(5) by force
  then have "?f \<in> set (map getFloorFromRoomId ?changed)" unfolding set_map by (rule imageI)
  then have "?f \<in> set ?floors" using assms(1) by (simp only: List.finite_set)
  then obtain before after where floors: "?floors = before @ ?f # after" by (meson split_list)
  have "misses ?f room_id ?st0" using assms(3,4,6,7) by (simp add: misses_def map_of_reset_changed)
  then have "misses ?f room_id (fold ?up before ?st0)" by (rule misses_fold) (rule misses_update_floor)
  then have "lost ?f (?up ?f (fold ?up before ?st0))" by (rule misses_update_lost) (use changed in simp)
  then have "lost ?f (fold ?up after (?up ?f (fold ?up before ?st0)))" by (rule lost_fold) (rule lost_update_floor)
  moreover have "st1 = fold ?up ?floors ?st0"
    using assms(8) unfolding updateFloorCostmaps_def Let_def if_not_P [OF assms(2)] prod.inject by blast
  ultimately have "lost ?f st1" unfolding floors by (simp only: fold_append fold_simps o_apply)
  with assms(9) show ?thesis by (blast intro: multi_steps_lost lost_no_costmap)
qed

section \<open>A floor of two rooms\<close>

definition hall :: Costmap2D where
  "hall = new_Costmap2D (\<lambda>i. 7) 2 1 1 0 0 254"

definition study :: Costmap2D where
  "study = new_Costmap2D (\<lambda>i. 7) 1 1 1 2 0 9"

definition loaded_room :: "string \<Rightarrow> Costmap2D \<Rightarrow> RoomCostmapInfo" where
  "loaded_room name m = \<lparr>ri_environment_name = ''EG'', ri_map_name = name, ri_layered_costmap = Some m, ri_static_layer = Some True,
     ri_is_active = True, ri_has_been_published = True, ri_has_fetched_z = True, ri_has_changed = True, ri_map_origin_z = 0\<rparr>"

definition hall_and_study :: MultiCostmap2DROS where
  "hall_and_study = \<lparr>mc_room_costmaps = [(''EG/Hall'', loaded_room ''Hall'' hall), (''EG/Study'', loaded_room ''Study'' study)],
     mc_costmap_pubs = [], mc_floor_costmap_cache = [], mc_floor_costmap_pubs = [], mc_current_room_id = [], mc_is_shutting_down = False,
     mc_active = True, mc_elevate_costmaps = 0, mc_global_frame = ''ifc''\<rparr>"

lemma wf_rooms: "wf_costmap hall" "wf_costmap study"
  unfolding hall_def study_def by (rule wf_new_Costmap2D; simp)+

lemma room_params [simp]:
  "cm_size_x hall = 2" "cm_size_y hall = 1" "cm_resolution hall = 1" "cm_origin_x hall = 0" "cm_origin_y hall = 0"
  "cm_size_x study = 1" "cm_size_y study = 1" "cm_resolution study = 1" "cm_origin_x study = 2" "cm_origin_y study = 0"
  by (simp_all add: hall_def study_def)

lemma rooms_ready: "ready_costmap (loaded_room name hall) = Some hall" "ready_costmap (loaded_room name study) = Some study"
proof -
  have "getCost hall 0 0 = 254" "getCost study 0 0 = 9" unfolding hall_def study_def by (rule getCost_new_Costmap2D; simp)+
  then show "ready_costmap (loaded_room name hall) = Some hall" "ready_costmap (loaded_room name study) = Some study"
    by (simp_all add: ready_costmap_def loaded_room_def has_valid_data_def upt_conv_Cons)
qed

lemma hall_and_study_floor: "floor_rooms hall_and_study ''EG'' = mc_room_costmaps hall_and_study"
  by (simp add: floor_rooms_def hall_and_study_def getFloorFromRoomId_def)

lemma rooms_on_grid: "on_grid 1 hall" "on_grid 1 study"
proof -
  have "2 \<le> dbl_max" by (simp add: dbl_max_def)
  then show "on_grid 1 hall" "on_grid 1 study"
    using wf_rooms by (auto simp: on_grid_def intro: exI [of _ "0 :: int"] exI [of _ "2 :: int"])
qed

lemma rooms_box: "floor_box [hall, study] = ((0, 0), (3, 1))"
proof -
  have big: "2 \<le> dbl_max" by (simp add: dbl_max_def)
  have sizes: "getSizeInMetersX hall = 3 / 2" "getSizeInMetersY hall = 1 / 2" "getSizeInMetersX study = 1 / 2" "getSizeInMetersY study = 1 / 2"
    using size_in_meters [OF wf_rooms(1)] size_in_meters [OF wf_rooms(2)] by simp_all
  have "\<lceil>5 / 2 :: real\<rceil> = 3" "\<lceil>1 / 2 :: real\<rceil> = 1" by (simp_all add: ceiling_eq_iff)
  then show ?thesis using big by (simp add: floor_box_def Let_def to_uint_def min_def max_def sizes)
qed

lemma hall_and_study_ok:
  "distinct (map fst (mc_room_costmaps hall_and_study))" "map_of (mc_floor_costmap_cache hall_and_study) ''EG'' = None"
  "floor_rooms hall_and_study ''EG'' \<noteq> []"
  "those (map (\<lambda>(_, room). ready_costmap room) (floor_rooms hall_and_study ''EG'')) = Some [hall, study]"
  "\<forall>room \<in> set [hall, study]. on_grid (cm_resolution ([hall, study] ! 0)) room"
  "fst (snd (floor_box [hall, study])) * snd (snd (floor_box [hall, study])) < 2 ^ 32"
proof -
  have rooms: "mc_room_costmaps hall_and_study = [(''EG/Hall'', loaded_room ''Hall'' hall), (''EG/Study'', loaded_room ''Study'' study)]"
    "map_of (mc_floor_costmap_cache hall_and_study) ''EG'' = None" by (simp_all add: hall_and_study_def)
  then show "distinct (map fst (mc_room_costmaps hall_and_study))" "map_of (mc_floor_costmap_cache hall_and_study) ''EG'' = None"
    "floor_rooms hall_and_study ''EG'' \<noteq> []"
    "those (map (\<lambda>(_, room). ready_costmap room) (floor_rooms hall_and_study ''EG'')) = Some [hall, study]"
    "\<forall>room \<in> set [hall, study]. on_grid (cm_resolution ([hall, study] ! 0)) room"
    "fst (snd (floor_box [hall, study])) * snd (snd (floor_box [hall, study])) < 2 ^ 32"
    using rooms_on_grid by (simp_all add: hall_and_study_floor rooms rooms_ready rooms_box)
qed

theorem createFloorCostmap_merges_witness:
  "\<exists>m st'. createFloorCostmap (\<lambda>i. 7) (mc_room_costmaps hall_and_study) ''EG'' hall_and_study = (True, st') \<and>
     getCostmapForFloor st' ''EG'' = Some m \<and> wf_costmap m"
  using createFloorCostmap_merges [OF hall_and_study_ok] by blast

text \<open>A costmap that was built when the floor had the hall only.\<close>

theorem new_room_loses_floor_witness:
  "getCostmapForFloor (multi_on_activate (multi_on_cleanup (snd (updateFloorCostmaps (\<lambda>i. 7) (\<lambda>S. SOME xs. set xs = S)
      (hall_and_study\<lparr>mc_floor_costmap_cache := [(''EG'', \<lparr>fc_costmap = hall, fc_room_regions = [], fc_is_valid = True\<rparr>)]\<rparr>)))))
    ''EG'' = None"
proof -
  let ?st = "hall_and_study\<lparr>mc_floor_costmap_cache := [(''EG'', \<lparr>fc_costmap = hall, fc_room_regions = [], fc_is_valid = True\<rparr>)]\<rparr>"
  let ?ord = "\<lambda>S. SOME xs. set xs = S"
  have ord: "\<forall>S :: string set. finite S \<longrightarrow> set (?ord S) = S" by (metis (mono_tags, lifting) finite_list someI_ex)
  obtain out st1 where run: "updateFloorCostmaps (\<lambda>i. 7) ?ord ?st = (out, st1)" by fastforce
  have id: "getFloorFromRoomId ''EG/Study'' = ''EG''" by (simp add: getFloorFromRoomId_def)
  have "\<not> mc_is_shutting_down ?st" "map_of (mc_room_costmaps ?st) ''EG/Study'' = Some (loaded_room ''Study'' study)"
    "ri_has_changed (loaded_room ''Study'' study)"
    "map_of (mc_floor_costmap_cache ?st) (getFloorFromRoomId ''EG/Study'') = Some \<lparr>fc_costmap = hall, fc_room_regions = [], fc_is_valid = True\<rparr>"
    "map_of (fc_room_regions \<lparr>fc_costmap = hall, fc_room_regions = [], fc_is_valid = True\<rparr>) ''EG/Study'' = None"
    by (simp_all add: hall_and_study_def loaded_room_def id)
  from new_room_loses_floor [OF ord this(1,2) rooms_ready(2) this(3-5) run]
  have "multi_step\<^sup>*\<^sup>* st1 st2 \<Longrightarrow> getCostmapForFloor st2 ''EG'' = None" for st2 by (simp add: id)
  moreover have "multi_step\<^sup>*\<^sup>* st1 (multi_on_activate (multi_on_cleanup st1))"
    by (meson activate cleanup converse_rtranclp_into_rtranclp r_into_rtranclp)
  ultimately show ?thesis using run by simp
qed

end
