(* ===== verification/Room_Tracker.thy ===== *)
theory Room_Tracker
  imports Topomap_Server Multi_Costmap
begin

text \<open>
  \<open>navbim_room_tracker/room_tracker_node.cpp\<close>: the node that asks the map server, at a fixed rate, for the room
  the robot is in and tells the other nodes. It publishes when the room changes, and every 30
  seconds; the multi-costmap node is its subscriber.

  The transforms of tf are a parameter, a function from two frames to a position or an exception. The
  clock readings of a callback are its arguments, in the order of the code: for the stamp of the
  message, for the check of the heartbeat and for the time of the publication. A message that is
  published while the publisher is not active is dropped, as a lifecycle publisher does.
\<close>

section \<open>State\<close>

record RoomTracker =
  rt_robot_frame :: string
  rt_global_frame :: string
  rt_update_frequency :: real
  rt_server_timeout :: real
  rt_last_known_room :: string
  rt_service_available :: bool
  rt_last_publish_time :: real
  rt_publisher_active :: bool
  rt_timer :: bool

record CurrentRoom =
  cu_stamp :: real
  cu_frame_id :: string
  cu_floor_name :: string
  cu_room_id :: string
  cu_room_name :: string
  cu_robot_position :: Position

record tracker_params =
  tk_robot_frame :: string
  tk_global_frame :: string
  tk_update_frequency :: real
  tk_server_timeout :: real

section \<open>Life cycle\<close>

definition tracker_on_configure :: "tracker_params \<Rightarrow> real \<Rightarrow> RoomTracker \<Rightarrow> RoomTracker" where
  "tracker_on_configure ps now tr =
     tr\<lparr>rt_robot_frame := tk_robot_frame ps, rt_global_frame := tk_global_frame ps,
        rt_update_frequency := tk_update_frequency ps, rt_server_timeout := tk_server_timeout ps,
        rt_publisher_active := False, rt_last_publish_time := now\<rparr>"

text \<open>\<open>found\<close>: whether the map server appeared within the timeout.\<close>

definition tracker_on_activate :: "bool \<Rightarrow> RoomTracker \<Rightarrow> RoomTracker" where
  "tracker_on_activate found tr = tr\<lparr>rt_publisher_active := True, rt_timer := True, rt_service_available := found\<rparr>"

definition tracker_on_deactivate :: "RoomTracker \<Rightarrow> RoomTracker" where
  "tracker_on_deactivate tr = tr\<lparr>rt_timer := False, rt_publisher_active := False\<rparr>"

definition tracker_on_cleanup :: "RoomTracker \<Rightarrow> RoomTracker" where
  "tracker_on_cleanup tr = tr\<lparr>rt_timer := False, rt_publisher_active := False\<rparr>"

section \<open>Tracking\<close>

definition getRobotPose :: "(string \<Rightarrow> string \<Rightarrow> Position result) \<Rightarrow> RoomTracker \<Rightarrow> Position option" where
  "getRobotPose lookupTransform tr =
     (case bind_result (lookupTransform ''ifc'' ''map'') (\<lambda>_.
             bind_result (lookupTransform ''map'' ''odom'') (\<lambda>_.
               bind_result (lookupTransform ''odom'' (rt_robot_frame tr)) (\<lambda>_.
                 lookupTransform (rt_global_frame tr) (rt_robot_frame tr)))) of
        Inl exn \<Rightarrow> None
      | Inr position \<Rightarrow> Some position)"

text \<open>The timer: the coordinates it asks the map server about, if it does. \<open>ready\<close>: whether the service is there now.\<close>

definition updateCurrentRoom ::
  "(string \<Rightarrow> string \<Rightarrow> Position result) \<Rightarrow> bool \<Rightarrow> RoomTracker \<Rightarrow> Position option \<times> RoomTracker" where
  "updateCurrentRoom lookupTransform ready tr =
     (case getRobotPose lookupTransform tr of
        None \<Rightarrow> (None, tr)
      | Some robot_pos \<Rightarrow>
          if rt_service_available tr then (Some robot_pos, tr)
          else if ready then (Some robot_pos, tr\<lparr>rt_service_available := True\<rparr>)
          else (None, tr))"

definition publish_room :: "CurrentRoom \<Rightarrow> RoomTracker \<Rightarrow> CurrentRoom list" where
  "publish_room msg tr = (if rt_publisher_active tr then [msg] else [])"

text \<open>The answer of the map server to a request for \<open>position_snapshot\<close>.\<close>

definition on_room_response ::
  "real \<times> real \<times> real \<Rightarrow> Position \<Rightarrow> room_response \<Rightarrow> RoomTracker \<Rightarrow> CurrentRoom list \<times> RoomTracker" where
  "on_room_response now position_snapshot response tr =
     (case now of (stamp, check_time, publish_time) \<Rightarrow>
        if rr_success response
        then
          let room_msg = \<lparr>cu_stamp = stamp, cu_frame_id = rt_global_frame tr, cu_floor_name = tn_name (rr_floor_node response),
                cu_room_id = tn_id (rr_room_node response), cu_room_name = tn_name (rr_room_node response),
                cu_robot_position = position_snapshot\<rparr>;
              current_room_id = tn_name (rr_floor_node response) @ ''/'' @ tn_id (rr_room_node response);
              room_changed = (rt_last_known_room tr \<noteq> current_room_id);
              heartbeat_needed = (30 < check_time - rt_last_publish_time tr)
          in if room_changed \<or> heartbeat_needed \<or> rt_last_known_room tr = []
             then (publish_room room_msg tr, tr\<lparr>rt_last_known_room := current_room_id, rt_last_publish_time := publish_time\<rparr>)
             else ([], tr)
        else
          (publish_room \<lparr>cu_stamp = stamp, cu_frame_id = rt_global_frame tr, cu_floor_name = [], cu_room_id = [], cu_room_name = [],
              cu_robot_position = position_snapshot\<rparr> tr, tr\<lparr>rt_last_known_room := []\<rparr>))"

section \<open>The tracker and its subscriber\<close>

text \<open>
  Answers to requests for the positions \<open>ps\<close>, one after the other, and their delivery to the
  multi-costmap node.
\<close>

definition deliver :: "CurrentRoom list \<Rightarrow> MultiCostmap2DROS \<Rightarrow> MultiCostmap2DROS" where
  "deliver msgs node = fold (\<lambda>m. onCurrentRoomUpdate (cu_floor_name m) (cu_room_name m)) msgs node"

fun track ::
  "(Position \<Rightarrow> room_response) \<Rightarrow> ((real \<times> real \<times> real) \<times> Position) list \<Rightarrow> RoomTracker \<times> MultiCostmap2DROS \<Rightarrow>
     RoomTracker \<times> MultiCostmap2DROS" where
  "track answer [] st = st"
| "track answer ((now, p) # ps) (tr, node) =
     (case on_room_response now p (answer p) tr of (msgs, tr') \<Rightarrow> track answer ps (tr', deliver msgs node))"

text \<open>The room id a subscriber should have after an answer, and the key the tracker remembers.\<close>

definition room_of :: "room_response \<Rightarrow> string" where
  "room_of r = (if rr_success r then createRoomKey (tn_name (rr_floor_node r)) (tn_name (rr_room_node r)) else ''/'')"

definition key_of :: "room_response \<Rightarrow> string" where
  "key_of r = (if rr_success r then tn_name (rr_floor_node r) @ ''/'' @ tn_id (rr_room_node r) else [])"

text \<open>The contract of the server: while its map is a proper one, the key of a room determines its floor and name.\<close>

locale room_service =
  fixes answer :: "Position \<Rightarrow> room_response" and proper :: bool
  assumes keys: "proper \<Longrightarrow> rr_success (answer p) \<Longrightarrow> rr_success (answer q) \<Longrightarrow> key_of (answer p) = key_of (answer q) \<Longrightarrow>
    room_of (answer p) = room_of (answer q)"
begin

text \<open>The subscriber knows the room of the position the tracker has last reported on.\<close>

lemma track_step:
  assumes proper and "rt_publisher_active tr"
    and "rt_last_known_room tr \<noteq> [] \<Longrightarrow>
      \<exists>q. rr_success (answer q) \<and> rt_last_known_room tr = key_of (answer q) \<and> mc_current_room_id node = room_of (answer q)"
    and "on_room_response now p (answer p) tr = (msgs, tr')"
  shows "rt_publisher_active tr'" and "mc_current_room_id (deliver msgs node) = room_of (answer p)"
    and "rt_last_known_room tr' \<noteq> [] \<Longrightarrow> rr_success (answer p) \<and> rt_last_known_room tr' = key_of (answer p)"
proof -
  obtain a b c where now: "now = (a, b, c)" by (cases now)
  note unf = assms(4) [unfolded on_room_response_def now prod.case Let_def publish_room_def if_P [OF assms(2)]]
  show "rt_publisher_active tr'"
    using unf assms(2) by (auto split: if_splits)
  show known: "rt_last_known_room tr' \<noteq> [] \<Longrightarrow> rr_success (answer p) \<and> rt_last_known_room tr' = key_of (answer p)"
    using unf by (auto simp: key_of_def split: if_splits)
  show "mc_current_room_id (deliver msgs node) = room_of (answer p)"
  proof (cases "rr_success (answer p) \<and> rt_last_known_room tr = key_of (answer p) \<and> msgs = []")
    case True
    then have "rt_last_known_room tr \<noteq> []" by (simp add: key_of_def)
    with assms(3) obtain q where "rr_success (answer q)" "rt_last_known_room tr = key_of (answer q)"
      "mc_current_room_id node = room_of (answer q)" by blast
    with True keys [OF assms(1), of p q] show ?thesis by (simp add: deliver_def)
  next
    case False
    with unf show ?thesis
      by (auto simp: room_of_def key_of_def deliver_def onCurrentRoomUpdate_def createRoomKey_def split: if_splits)
  qed
qed

lemma track_follows:
  assumes proper and "rt_publisher_active tr"
    and "rt_last_known_room tr \<noteq> [] \<Longrightarrow>
      \<exists>q. rr_success (answer q) \<and> rt_last_known_room tr = key_of (answer q) \<and> mc_current_room_id node = room_of (answer q)"
    and "ps \<noteq> []"
  shows "mc_current_room_id (snd (track answer ps (tr, node))) = room_of (answer (snd (last ps)))"
  using assms
proof (induction ps arbitrary: tr node)
  case (Cons x ps)
  obtain now p where x: "x = (now, p)" by (cases x)
  obtain msgs tr' where run: "on_room_response now p (answer p) tr = (msgs, tr')" by fastforce
  note step = track_step [OF Cons.prems(1-3) run]
  show ?case
  proof (cases "ps = []")
    case True
    then show ?thesis using step(2) by (simp add: x run)
  next
    case False
    with Cons.IH [OF Cons.prems(1) step(1) _ False, of "deliver msgs node"] step(2,3) show ?thesis by (auto simp: x run)
  qed
qed simp

end

section \<open>The map server\<close>

lemma server_answer:
  assumes "rr_success (getRoomByCoordinatesCallback f32 pt_within buffer B c srv)"
  obtains f r where "r < g_num_vertices B (ts_graph srv)" and "findFloorByHeight B (ts_graph srv) (pos_z c) = Some f"
    and "findRoomByCoordinates pt_within buffer B (ts_graph srv) (pos_x c) (pos_y c) (pos_z c) = Some r"
    and "rr_floor_node (getRoomByCoordinatesCallback f32 pt_within buffer B c srv) = convertToTopomapNodeMsg f32 (g_node B (ts_graph srv) f)"
    and "rr_room_node (getRoomByCoordinatesCallback f32 pt_within buffer B c srv) = convertToTopomapNodeMsg f32 (g_node B (ts_graph srv) r)"
proof -
  let ?g = "ts_graph srv"
  from assms obtain f r where fr: "findFloorByHeight B ?g (pos_z c) = Some f"
    "findRoomByCoordinates pt_within buffer B ?g (pos_x c) (pos_y c) (pos_z c) = Some r"
    "rr_floor_node (getRoomByCoordinatesCallback f32 pt_within buffer B c srv) = convertToTopomapNodeMsg f32 (g_node B ?g f)"
    "rr_room_node (getRoomByCoordinatesCallback f32 pt_within buffer B c srv) = convertToTopomapNodeMsg f32 (g_node B ?g r)"
    by (auto simp: getRoomByCoordinatesCallback_def Let_def split: if_splits option.splits)
  have "r < g_num_vertices B ?g"
    using fr(1,2) by (auto simp: findRoomByCoordinates_def buffer_loop_Some_iff find_upt_Some_iff)
  with fr that show thesis by blast
qed

lemma to_string_no_slash: "CHR ''/'' \<notin> set (to_string i)"
proof -
  have "\<not> is_digit CHR ''/''" by code_simp
  then have "CHR ''/'' \<notin> set (nat_to_string n)" for n using nat_to_string_digits by blast
  then show ?thesis by (simp add: to_string_def)
qed

lemma last_slash:
  assumes "a @ CHR ''/'' # b = a' @ CHR ''/'' # b'" and "CHR ''/'' \<notin> set b" and "CHR ''/'' \<notin> set b'"
  shows "a = a' \<and> b = b'"
proof -
  have "takeWhile (\<lambda>c. c \<noteq> CHR ''/'') (rev (a @ CHR ''/'' # b)) = rev b" if "CHR ''/'' \<notin> set b" for a b
    using that by (auto simp: takeWhile_append)
  from this [OF assms(2), of a] this [OF assms(3), of a'] have "rev b = rev b'" using assms(1) by metis
  with assms(1) show ?thesis by simp
qed

interpretation served: room_service "\<lambda>p. getRoomByCoordinatesCallback f32 pt_within buffer B p srv"
    "distinct (map np_id (nodes_view B (ts_graph srv)))" for f32 pt_within buffer B srv
proof
  fix p q
  let ?answer = "\<lambda>p. getRoomByCoordinatesCallback f32 pt_within buffer B p srv" and ?g = "ts_graph srv"
  assume ids: "distinct (map np_id (nodes_view B ?g))" and ok: "rr_success (?answer p)" "rr_success (?answer q)"
    and key: "key_of (?answer p) = key_of (?answer q)"
  from ok(1) obtain f r where p: "r < g_num_vertices B ?g" "rr_floor_node (?answer p) = convertToTopomapNodeMsg f32 (g_node B ?g f)"
    "rr_room_node (?answer p) = convertToTopomapNodeMsg f32 (g_node B ?g r)" by (rule server_answer)
  from ok(2) obtain f' r' where q: "r' < g_num_vertices B ?g" "rr_floor_node (?answer q) = convertToTopomapNodeMsg f32 (g_node B ?g f')"
    "rr_room_node (?answer q) = convertToTopomapNodeMsg f32 (g_node B ?g r')" by (rule server_answer)
  have "np_name (g_node B ?g f) = np_name (g_node B ?g f') \<and> to_string (np_id (g_node B ?g r)) = to_string (np_id (g_node B ?g r'))"
    using key ok last_slash [OF _ to_string_no_slash to_string_no_slash] by (simp add: key_of_def p q convertToTopomapNodeMsg_def)
  moreover from this have "r = r'"
    using ids p(1) q(1) by (auto simp: nodes_view_def distinct_conv_nth)
  ultimately show "room_of (?answer p) = room_of (?answer q)"
    using ok by (simp add: room_of_def p q convertToTopomapNodeMsg_def)
qed

text \<open>
  C31: the multi-costmap node follows the robot. However often and in whatever order the robot changes
  rooms, and although most answers of the map server are not published, after each answer the current room of
  the multi-costmap node is the one in which the map server sees the robot (and the
  id without names while the robot is in no room), from the activation of a new tracker on, as long as the map
  stays the same and its ids are distinct.
\<close>

theorem tracker_followed:
  assumes "distinct (map np_id (nodes_view B (ts_graph srv)))"
    and "rt_publisher_active tr" and "rt_last_known_room tr = []" and "ps \<noteq> []"
  shows "let p = snd (last ps); node' = snd (track (\<lambda>p. getRoomByCoordinatesCallback f32 pt_within buffer B p srv) ps (tr, node)) in
    if rr_success (getRoomByCoordinatesCallback f32 pt_within buffer B p srv)
    then \<exists>f r. findFloorByHeight B (ts_graph srv) (pos_z p) = Some f \<and>
      findRoomByCoordinates pt_within buffer B (ts_graph srv) (pos_x p) (pos_y p) (pos_z p) = Some r \<and>
      mc_current_room_id node' = createRoomKey (np_name (g_node B (ts_graph srv) f)) (np_name (g_node B (ts_graph srv) r))
    else mc_current_room_id node' = ''/''"
proof -
  let ?answer = "\<lambda>p. getRoomByCoordinatesCallback f32 pt_within buffer B p srv" and ?p = "snd (last ps)"
  have room: "mc_current_room_id (snd (track ?answer ps (tr, node))) = room_of (?answer ?p)"
    by (rule served.track_follows [OF assms(1,2) _ assms(4)]) (use assms(3) in simp)
  show ?thesis
  proof (cases "rr_success (?answer ?p)")
    case True
    then obtain f r where "findFloorByHeight B (ts_graph srv) (pos_z ?p) = Some f"
      "findRoomByCoordinates pt_within buffer B (ts_graph srv) (pos_x ?p) (pos_y ?p) (pos_z ?p) = Some r"
      "rr_floor_node (?answer ?p) = convertToTopomapNodeMsg f32 (g_node B (ts_graph srv) f)"
      "rr_room_node (?answer ?p) = convertToTopomapNodeMsg f32 (g_node B (ts_graph srv) r)"
      by (rule server_answer)
    with True room show ?thesis by (simp add: room_of_def convertToTopomapNodeMsg_def)
  next
    case False
    with room show ?thesis by (simp add: room_of_def)
  qed
qed

definition new_tracker :: RoomTracker where
  "new_tracker = tracker_on_activate True (tracker_on_configure
     \<lparr>tk_robot_frame = ''base_link'', tk_global_frame = ''ifc'', tk_update_frequency = 2, tk_server_timeout = 5\<rparr> 0
     \<lparr>rt_robot_frame = [], rt_global_frame = [], rt_update_frequency = 0, rt_server_timeout = 0, rt_last_known_room = [],
      rt_service_available = False, rt_last_publish_time = 0, rt_publisher_active = False, rt_timer = False\<rparr>)"

theorem tracker_followed_witness:
  "mc_current_room_id (snd (track (\<lambda>p. getRoomByCoordinatesCallback id (\<lambda>p q. True) (\<lambda>r q. []) vec_graph p
       ((TopomapServer_init vec_graph ())\<lparr>ts_graph := two_floors\<rparr>))
     [((1, 1, 1), \<lparr>pos_x = 0, pos_y = 0, pos_z = 9\<rparr>), ((2, 2, 2), \<lparr>pos_x = 0, pos_y = 0, pos_z = 5\<rparr>)] (new_tracker, hall_and_study))) =
   ''OG/R''"
proof -
  let ?srv = "(TopomapServer_init vec_graph ())\<lparr>ts_graph := two_floors\<rparr>"
  let ?ps = "[((1, 1, 1), \<lparr>pos_x = 0, pos_y = 0, pos_z = 9\<rparr>), ((2, 2, 2), \<lparr>pos_x = 0, pos_y = 0, pos_z = 5\<rparr>)] ::
    ((real \<times> real \<times> real) \<times> Position) list"
  have "distinct (map np_id (nodes_view vec_graph (ts_graph ?srv)))" "rt_publisher_active new_tracker" "rt_last_known_room new_tracker = []"
    "?ps \<noteq> []"
    by (simp_all add: two_floors_def new_tracker_def tracker_on_activate_def tracker_on_configure_def)
  from tracker_followed [OF this, of id "\<lambda>p q. True" "\<lambda>r q. []" hall_and_study] two_floors_query
  have "mc_current_room_id (snd (track (\<lambda>p. getRoomByCoordinatesCallback id (\<lambda>p q. True) (\<lambda>r q. []) vec_graph p ?srv) ?ps
      (new_tracker, hall_and_study))) =
    createRoomKey (np_name (g_node vec_graph two_floors 1)) (np_name (g_node vec_graph two_floors 2))"
    unfolding Let_def by (simp del: track.simps)
  then show ?thesis by (simp add: two_floors_def createRoomKey_def del: track.simps)
qed

end
