(* ===== verification/Multimap_Server.thy ===== *)
theory Multimap_Server
  imports Topomap_Server Multi_Costmap
begin

text \<open>
  \<open>navbim_multimap_server/multimap_server.cpp\<close>: the node that loads the occupancy maps of the rooms, one
  environment per floor, publishes them and announces which maps there are. The multi-costmap
  node creates a room for every announced map and waits for the map on its topic.

  Reading an image of a map and parsing YAML are parameters: \<open>loadMap\<close> gives the grid of a file or throws,
  \<open>yaml\<close> the nodes of a file; a node whose conversion to a string throws is an exception. The creation of the
  topics and services of a map is represented by its entry in \<open>maps_\<close>.
\<close>

section \<open>State\<close>

record 'm MultimapMapEntry =
  me_namespace :: string
  me_map_name :: string
  me_map_full_name :: string
  me_frame_id :: string
  me_map :: 'm

record Environment =
  en_name :: string
  en_global_frame :: string
  en_map_name :: "string list"

text \<open>The publisher of the environments: none before the configuration, otherwise whether it is active.\<close>

record 'm MultimapServer =
  ms_environments_file :: string
  ms_maps :: "'m MultimapMapEntry list"
  ms_environments :: "Environment list"
  ms_environments_pub :: "bool option"

record yaml_map =
  ym_name :: "string result"
  ym_file :: "string result"

record yaml_env =
  ye_name :: "string result"
  ye_global_frame :: "string result"
  ye_maps :: "yaml_map list"

type_synonym yaml_files = "string \<Rightarrow> yaml_env list result option"

section \<open>Maps\<close>

definition new_MultimapMapEntry ::
  "(string \<Rightarrow> 'm result) \<Rightarrow> string \<Rightarrow> string \<Rightarrow> string \<Rightarrow> string \<Rightarrow> 'm MultimapMapEntry result" where
  "new_MultimapMapEntry loadMap map_url ns map_name global_frame =
     bind_result (loadMap map_url) (\<lambda>m.
       Inr \<lparr>me_namespace = ns, me_map_name = map_name, me_map_full_name = ns @ ''/'' @ map_name, me_frame_id = global_frame, me_map = m\<rparr>)"

text \<open>The topic on which the constructor publishes the map.\<close>

definition map_topic :: "'m MultimapMapEntry \<Rightarrow> string" where
  "map_topic m = ''maps/'' @ me_namespace m @ ''/'' @ me_map_name m @ ''/map''"

definition isMapAlreadyLoaded :: "'m MultimapServer \<Rightarrow> string \<Rightarrow> string \<Rightarrow> bool" where
  "isMapAlreadyLoaded srv ns map_name = list_ex (\<lambda>m. me_map_full_name m = ns @ ''/'' @ map_name) (ms_maps srv)"

section \<open>Environment files\<close>

text \<open>The directory of a file.\<close>

definition environments_dir :: "string \<Rightarrow> string" where
  "environments_dir filename = (case find_last_of [CHR ''/'', CHR 0x5C] filename of Some i \<Rightarrow> take i filename | None \<Rightarrow> ''.'')"

text \<open>One map of an environment; the state holds the environment so far and whether all its maps were loaded.\<close>

definition load_env_map ::
  "(string \<Rightarrow> 'm result) \<Rightarrow> string \<Rightarrow> yaml_map \<Rightarrow> 'm MultimapServer \<times> Environment \<times> bool \<Rightarrow>
     ('m MultimapServer \<times> Environment \<times> bool) \<times> cpp_exception option" where
  "load_env_map loadMap maps_path node st =
     (case st of (srv, new_environment, all_maps_loaded) \<Rightarrow>
        case (ym_name node, ym_file node) of
          (Inl exn, _) \<Rightarrow> (st, Some exn)
        | (Inr map_name, Inl exn) \<Rightarrow> (st, Some exn)
        | (Inr map_name, Inr map_file) \<Rightarrow>
            if isMapAlreadyLoaded srv (en_name new_environment) map_name then (st, None)
            else case new_MultimapMapEntry loadMap (maps_path @ ''/'' @ map_file) (en_name new_environment) map_name
                   (en_global_frame new_environment) of
                Inl exn \<Rightarrow> ((srv, new_environment, False), None)
              | Inr new_map \<Rightarrow>
                  ((srv\<lparr>ms_maps := ms_maps srv @ [new_map]\<rparr>,
                    new_environment\<lparr>en_map_name := en_map_name new_environment @ [map_name]\<rparr>, all_maps_loaded), None))"

definition load_environment ::
  "(string \<Rightarrow> 'm result) \<Rightarrow> string \<Rightarrow> yaml_env \<Rightarrow> 'm MultimapServer \<Rightarrow> 'm MultimapServer \<times> cpp_exception option" where
  "load_environment loadMap maps_path node srv =
     (case (ye_name node, ye_global_frame node) of
        (Inl exn, _) \<Rightarrow> (srv, Some exn)
      | (Inr env_name, Inl exn) \<Rightarrow> (srv, Some exn)
      | (Inr env_name, Inr global_frame) \<Rightarrow>
          (case run_loop (load_env_map loadMap maps_path) (ye_maps node)
                  (srv, \<lparr>en_name = env_name, en_global_frame = global_frame, en_map_name = []\<rparr>, True) of
             ((srv', _, _), Some exn) \<Rightarrow> (srv', Some exn)
           | ((srv', new_environment, all_maps_loaded), None) \<Rightarrow>
               (if all_maps_loaded \<and> en_map_name new_environment \<noteq> []
                then srv'\<lparr>ms_environments := ms_environments srv' @ [new_environment]\<rparr> else srv', None)))"

definition loadEnvironmentsFromYAML ::
  "(string \<Rightarrow> 'm result) \<Rightarrow> yaml_files \<Rightarrow> string \<Rightarrow> 'm MultimapServer \<Rightarrow> bool \<times> 'm MultimapServer" where
  "loadEnvironmentsFromYAML loadMap yaml filename srv =
     (case yaml filename of
        None \<Rightarrow> (False, srv)
      | Some (Inl exn) \<Rightarrow> (False, srv)
      | Some (Inr doc) \<Rightarrow>
          (case run_loop (load_environment loadMap (environments_dir filename)) doc srv of
             (srv', None) \<Rightarrow> (True, srv')
           | (srv', Some exn) \<Rightarrow> (False, srv')))"

section \<open>Services\<close>

text \<open>The map is added to the first environment of that name.\<close>

fun push_map :: "string \<Rightarrow> string \<Rightarrow> Environment list \<Rightarrow> Environment list option" where
  "push_map ns map_name [] = None"
| "push_map ns map_name (env # envs) =
     (if en_name env = ns then Some (env\<lparr>en_map_name := en_map_name env @ [map_name]\<rparr> # envs)
      else map_option ((#) env) (push_map ns map_name envs))"

definition loadMapCallback ::
  "(string \<Rightarrow> 'm result) \<Rightarrow> (cpp_exception \<Rightarrow> string) \<Rightarrow> string \<Rightarrow> string \<Rightarrow> string \<Rightarrow> string \<Rightarrow> 'm MultimapServer \<Rightarrow>
     (bool \<times> string) \<times> 'm MultimapServer" where
  "loadMapCallback loadMap what map_url ns map_name global_frame srv =
     (if isMapAlreadyLoaded srv ns map_name
      then ((False, ''Map '' @ ns @ ''/'' @ map_name @ '' is already loaded''), srv)
      else case new_MultimapMapEntry loadMap map_url ns map_name global_frame of
          Inl exn \<Rightarrow> ((False, ''Failed to load map: Failed to load map from: '' @ map_url @ ''. Error: '' @ what exn), srv)
        | Inr new_map \<Rightarrow>
            ((True, ''Successfully loaded map: '' @ map_url),
             srv\<lparr>ms_maps := ms_maps srv @ [new_map],
                 ms_environments := (case push_map ns map_name (ms_environments srv) of
                     Some envs \<Rightarrow> envs
                   | None \<Rightarrow> ms_environments srv @ [\<lparr>en_name = ns, en_global_frame = global_frame, en_map_name = [map_name]\<rparr>])\<rparr>))"

definition loadEnvironmentsCallback ::
  "(string \<Rightarrow> 'm result) \<Rightarrow> yaml_files \<Rightarrow> string \<Rightarrow> 'm MultimapServer \<Rightarrow> (bool \<times> string) \<times> 'm MultimapServer" where
  "loadEnvironmentsCallback loadMap yaml environments_url srv =
     (case loadEnvironmentsFromYAML loadMap yaml environments_url srv of
        (True, srv') \<Rightarrow> ((True, ''Successfully loaded environments from: '' @ environments_url), srv')
      | (False, srv') \<Rightarrow> ((False, ''Failed to load environments from: '' @ environments_url), srv'))"

text \<open>The map is removed from the first environment of that name.\<close>

fun erase_map :: "string \<Rightarrow> string \<Rightarrow> Environment list \<Rightarrow> Environment list" where
  "erase_map ns map_name [] = []"
| "erase_map ns map_name (env # envs) =
     (if en_name env = ns then env\<lparr>en_map_name := remove1 map_name (en_map_name env)\<rparr> # envs
      else env # erase_map ns map_name envs)"

definition dumpMapCallback :: "string \<Rightarrow> string \<Rightarrow> 'm MultimapServer \<Rightarrow> (bool \<times> string) \<times> 'm MultimapServer" where
  "dumpMapCallback ns map_name srv =
     (let full_name = ns @ ''/'' @ map_name; other = (\<lambda>m. me_map_full_name m \<noteq> full_name)
      in if list_all other (ms_maps srv) then ((False, ''Map '' @ full_name @ '' not found''), srv)
         else ((True, ''Successfully removed map: '' @ full_name),
               srv\<lparr>ms_maps := takeWhile other (ms_maps srv) @ tl (dropWhile other (ms_maps srv)),
                   ms_environments := erase_map ns map_name (ms_environments srv)\<rparr>))"

definition dumpEnvironmentsCallback :: "'m MultimapServer \<Rightarrow> (bool \<times> string) \<times> 'm MultimapServer" where
  "dumpEnvironmentsCallback srv =
     ((True, ''All environments and maps have been dumped''), srv\<lparr>ms_maps := [], ms_environments := []\<rparr>)"

definition publishEnvironments :: "'m MultimapServer \<Rightarrow> Environment list list" where
  "publishEnvironments srv = (if ms_environments_pub srv = Some True then [ms_environments srv] else [])"

section \<open>Life cycle\<close>

definition multimap_on_configure ::
  "(string \<Rightarrow> 'm result) \<Rightarrow> yaml_files \<Rightarrow> string \<Rightarrow> 'm MultimapServer \<Rightarrow> bool \<times> 'm MultimapServer" where
  "multimap_on_configure loadMap yaml environments_file srv =
     (let srv1 = srv\<lparr>ms_environments_file := environments_file, ms_environments_pub := Some False\<rparr>
      in if environments_file \<noteq> [] then loadEnvironmentsFromYAML loadMap yaml environments_file srv1 else (True, srv1))"

definition multimap_on_activate :: "'m MultimapServer \<Rightarrow> Environment list list \<times> 'm MultimapServer" where
  "multimap_on_activate srv = (let srv1 = srv\<lparr>ms_environments_pub := Some True\<rparr> in (publishEnvironments srv1, srv1))"

definition multimap_on_deactivate :: "'m MultimapServer \<Rightarrow> 'm MultimapServer" where
  "multimap_on_deactivate srv = srv\<lparr>ms_environments_pub := Some False\<rparr>"

definition multimap_on_cleanup :: "'m MultimapServer \<Rightarrow> 'm MultimapServer" where
  "multimap_on_cleanup srv = srv\<lparr>ms_maps := [], ms_environments := [], ms_environments_pub := None\<rparr>"

section \<open>What is announced is there\<close>

definition names_ok :: "'m MultimapServer \<Rightarrow> bool" where
  "names_ok srv \<longleftrightarrow> distinct (map me_map_full_name (ms_maps srv)) \<and>
     (\<forall>m \<in> set (ms_maps srv). me_map_full_name m = me_namespace m @ ''/'' @ me_map_name m)"

definition announced_ok :: "'m MultimapServer \<Rightarrow> bool" where
  "announced_ok srv \<longleftrightarrow> (\<forall>env \<in> set (ms_environments srv). \<forall>n \<in> set (en_map_name env). isMapAlreadyLoaded srv (en_name env) n)"

text \<open>The states of the node. The flag tells whether a single map was removed since the maps were last all removed.\<close>

inductive multimap_reachable :: "(string \<Rightarrow> 'm result) \<Rightarrow> yaml_files \<Rightarrow> bool \<Rightarrow> 'm MultimapServer \<Rightarrow> bool" for loadMap yaml where
  created: "multimap_reachable loadMap yaml False \<lparr>ms_environments_file = [], ms_maps = [], ms_environments = [], ms_environments_pub = None\<rparr>"
| configured: "multimap_reachable loadMap yaml b srv \<Longrightarrow> multimap_on_configure loadMap yaml file srv = (ok, srv') \<Longrightarrow>
    multimap_reachable loadMap yaml b srv'"
| activated: "multimap_reachable loadMap yaml b srv \<Longrightarrow> multimap_reachable loadMap yaml b (snd (multimap_on_activate srv))"
| deactivated: "multimap_reachable loadMap yaml b srv \<Longrightarrow> multimap_reachable loadMap yaml b (multimap_on_deactivate srv)"
| cleaned_up: "multimap_reachable loadMap yaml b srv \<Longrightarrow> multimap_reachable loadMap yaml False (multimap_on_cleanup srv)"
| map_loaded: "multimap_reachable loadMap yaml b srv \<Longrightarrow> loadMapCallback loadMap what url ns n frame srv = (r, srv') \<Longrightarrow>
    multimap_reachable loadMap yaml b srv'"
| environments_loaded: "multimap_reachable loadMap yaml b srv \<Longrightarrow> loadEnvironmentsCallback loadMap yaml url srv = (r, srv') \<Longrightarrow>
    multimap_reachable loadMap yaml b srv'"
| map_dumped: "multimap_reachable loadMap yaml b srv \<Longrightarrow> dumpMapCallback ns n srv = (r, srv') \<Longrightarrow>
    multimap_reachable loadMap yaml True srv'"
| environments_dumped: "multimap_reachable loadMap yaml b srv \<Longrightarrow> dumpEnvironmentsCallback srv = (r, srv') \<Longrightarrow>
    multimap_reachable loadMap yaml False srv'"

lemma loaded_append [simp]:
  "isMapAlreadyLoaded (srv\<lparr>ms_maps := ms_maps srv @ [m]\<rparr>) ns n \<longleftrightarrow>
     isMapAlreadyLoaded srv ns n \<or> me_map_full_name m = ns @ ''/'' @ n"
  by (simp add: isMapAlreadyLoaded_def)

lemma loaded_fields [simp]:
  "isMapAlreadyLoaded (srv\<lparr>ms_environments := envs\<rparr>) = isMapAlreadyLoaded srv"
  "isMapAlreadyLoaded (srv\<lparr>ms_environments_pub := p\<rparr>) = isMapAlreadyLoaded srv"
  "isMapAlreadyLoaded (srv\<lparr>ms_environments_file := f\<rparr>) = isMapAlreadyLoaded srv"
  by (simp_all add: isMapAlreadyLoaded_def fun_eq_iff)

lemma names_ok_append:
  assumes "names_ok srv" and "\<not> isMapAlreadyLoaded srv ns n" and "new_MultimapMapEntry loadMap url ns n frame = Inr m"
  shows "names_ok (srv\<lparr>ms_maps := ms_maps srv @ [m]\<rparr>)" and "me_map_full_name m = ns @ ''/'' @ n"
proof -
  from assms(3) obtain grid where "loadMap url = Inr grid" by (cases "loadMap url") (auto simp: new_MultimapMapEntry_def)
  with assms(3) have m: "me_map_full_name m = ns @ ''/'' @ n" "me_namespace m = ns" "me_map_name m = n"
    by (auto simp: new_MultimapMapEntry_def)
  then show "me_map_full_name m = ns @ ''/'' @ n" by simp
  show "names_ok (srv\<lparr>ms_maps := ms_maps srv @ [m]\<rparr>)"
    using assms(1,2) m by (auto simp: names_ok_def isMapAlreadyLoaded_def list_ex_iff)
qed

text \<open>The state while the maps of an environment are loaded: those of the new environment are there too.\<close>

definition loading_ok :: "bool \<Rightarrow> 'm MultimapServer \<times> Environment \<times> bool \<Rightarrow> bool" where
  "loading_ok b st \<longleftrightarrow> (case st of (srv, env, all_loaded) \<Rightarrow>
     names_ok srv \<and> (b \<or> announced_ok srv) \<and> (\<forall>n \<in> set (en_map_name env). isMapAlreadyLoaded srv (en_name env) n))"

lemma load_env_map_ok: "loading_ok b st \<Longrightarrow> loading_ok b (fst (load_env_map loadMap path node st))"
proof -
  assume ok: "loading_ok b st"
  obtain srv env all_loaded where st: "st = (srv, env, all_loaded)" by (cases st)
  show ?thesis
  proof (cases "snd (load_env_map loadMap path node st) = None \<and> (\<exists>f n m. ym_file node = Inr f \<and> ym_name node = Inr n \<and>
      \<not> isMapAlreadyLoaded srv (en_name env) n \<and>
      new_MultimapMapEntry loadMap (path @ ''/'' @ f) (en_name env) n (en_global_frame env) = Inr m)")
    case True
    then obtain f n m where new: "ym_file node = Inr f" "ym_name node = Inr n" "\<not> isMapAlreadyLoaded srv (en_name env) n"
      "new_MultimapMapEntry loadMap (path @ ''/'' @ f) (en_name env) n (en_global_frame env) = Inr m" by blast
    from ok have "names_ok srv" by (simp add: loading_ok_def st)
    note entry = names_ok_append [OF this new(3,4)]
    from ok entry show ?thesis
      by (auto simp: load_env_map_def st new new [simplified] loading_ok_def announced_ok_def)
  next
    case False
    with ok show ?thesis
      by (auto simp: load_env_map_def st loading_ok_def split: sum.splits if_splits)
  qed
qed

abbreviation server_ok :: "bool \<Rightarrow> 'm MultimapServer \<Rightarrow> bool" where
  "server_ok b srv \<equiv> names_ok srv \<and> (b \<or> announced_ok srv)"

lemma load_environment_ok: "server_ok b srv \<Longrightarrow> server_ok b (fst (load_environment loadMap path node srv))"
proof -
  assume ok: "server_ok b srv"
  show ?thesis
  proof (cases "\<exists>n f. ye_name node = Inr n \<and> ye_global_frame node = Inr f")
    case True
    then obtain n f where node: "ye_name node = Inr n" "ye_global_frame node = Inr f" by blast
    let ?st = "(srv, \<lparr>en_name = n, en_global_frame = f, en_map_name = []\<rparr>, True)"
    obtain srv' env all_loaded e where run: "run_loop (load_env_map loadMap path) (ye_maps node) ?st = ((srv', env, all_loaded), e)"
      by (metis prod.collapse)
    have "loading_ok b ?st" using ok by (simp add: loading_ok_def)
    then have "loading_ok b (srv', env, all_loaded)"
      using run_loop_invariant [of "loading_ok b" ?st "ye_maps node" "load_env_map loadMap path"] load_env_map_ok run by (metis fst_conv)
    then show ?thesis
      by (auto simp: load_environment_def node run loading_ok_def names_ok_def announced_ok_def split: option.splits)
  next
    case False
    with ok show ?thesis by (auto simp: load_environment_def split: sum.splits)
  qed
qed

lemma loadEnvironmentsFromYAML_ok:
  assumes "server_ok b srv"
  shows "server_ok b (snd (loadEnvironmentsFromYAML loadMap yaml file srv))"
proof -
  have "server_ok b (fst (run_loop (load_environment loadMap path) doc srv))" for path doc
    using run_loop_invariant [of "server_ok b" srv doc "load_environment loadMap path"] assms load_environment_ok by metis
  with assms show ?thesis
    by (auto simp: loadEnvironmentsFromYAML_def split: option.splits sum.splits prod.splits) (metis fst_conv)+
qed

lemma push_map_Some:
  "push_map ns n envs = Some envs' \<Longrightarrow> env' \<in> set envs' \<Longrightarrow> k \<in> set (en_map_name env') \<Longrightarrow>
     (\<exists>env \<in> set envs. en_name env = en_name env' \<and> k \<in> set (en_map_name env)) \<or> en_name env' = ns \<and> k = n"
  by (induction envs arbitrary: envs') (auto split: if_splits)

lemma loadMapCallback_ok:
  assumes "server_ok b srv"
  shows "server_ok b (snd (loadMapCallback loadMap what url ns n frame srv))"
proof (cases "isMapAlreadyLoaded srv ns n \<or> (\<exists>exn. new_MultimapMapEntry loadMap url ns n frame = Inl exn)")
  case True
  with assms show ?thesis by (auto simp: loadMapCallback_def)
next
  case False
  then obtain m where m: "new_MultimapMapEntry loadMap url ns n frame = Inr m"
    by (cases "new_MultimapMapEntry loadMap url ns n frame") auto
  from assms False names_ok_append [OF _ _ m, of srv]
  have entry: "names_ok (srv\<lparr>ms_maps := ms_maps srv @ [m]\<rparr>)" "me_map_full_name m = ns @ ''/'' @ n" by auto
  let ?envs = "case push_map ns n (ms_environments srv) of Some envs \<Rightarrow> envs
    | None \<Rightarrow> ms_environments srv @ [\<lparr>en_name = ns, en_global_frame = frame, en_map_name = [n]\<rparr>]"
  have announced: "isMapAlreadyLoaded srv (en_name env) k \<or> en_name env = ns \<and> k = n"
    if "announced_ok srv" and "env \<in> set ?envs" and "k \<in> set (en_map_name env)" for env k
    using that by (auto simp: announced_ok_def split: option.splits dest!: push_map_Some)
  have "snd (loadMapCallback loadMap what url ns n frame srv) =
      (srv\<lparr>ms_maps := ms_maps srv @ [m]\<rparr>)\<lparr>ms_environments := ?envs\<rparr>"
    using False by (simp add: loadMapCallback_def m)
  moreover have "announced_ok ((srv\<lparr>ms_maps := ms_maps srv @ [m]\<rparr>)\<lparr>ms_environments := ?envs\<rparr>)" if "announced_ok srv"
    using announced [OF that] entry(2) by (auto simp: announced_ok_def)
  ultimately show ?thesis using assms entry(1) by (auto simp: names_ok_def)
qed

lemma dumpMapCallback_names: "names_ok srv \<Longrightarrow> names_ok (snd (dumpMapCallback ns n srv))"
proof -
  assume ok: "names_ok srv"
  have sub: "set (takeWhile P xs @ tl (dropWhile P xs)) \<subseteq> set xs" for P and xs :: "'a MultimapMapEntry list"
    by (induction xs) auto
  have "distinct (map g (takeWhile P xs @ tl (dropWhile P xs)))" if "distinct (map g xs)" for P g and xs :: "'a MultimapMapEntry list"
    using that sub [of P] by (induction xs) fastforce+
  with ok sub show ?thesis by (fastforce simp: dumpMapCallback_def names_ok_def Let_def)
qed

lemma multimap_reachable_ok: "multimap_reachable loadMap yaml b srv \<Longrightarrow> server_ok b srv"
proof (induction rule: multimap_reachable.induct)
  case (configured b srv url ok srv')
  let ?srv1 = "srv\<lparr>ms_environments_file := url, ms_environments_pub := Some False\<rparr>"
  from configured.IH have "server_ok b ?srv1" by (auto simp: names_ok_def announced_ok_def)
  with loadEnvironmentsFromYAML_ok [OF this] have "server_ok b (snd (multimap_on_configure loadMap yaml url srv))"
    by (cases "url = []") (auto simp: multimap_on_configure_def)
  with configured.hyps show ?case by simp
next
  case (map_loaded b srv what url ns n frame r srv')
  from loadMapCallback_ok [OF map_loaded.IH, of loadMap what url ns n frame] map_loaded.hyps show ?case by simp
next
  case (environments_loaded b srv url r srv')
  from loadEnvironmentsFromYAML_ok [OF environments_loaded.IH, of loadMap yaml url] environments_loaded.hyps show ?case
    by (auto simp: loadEnvironmentsCallback_def split: prod.splits bool.splits)
next
  case (map_dumped b srv ns n r srv')
  with dumpMapCallback_names [of srv ns n] show ?case by (metis snd_conv)
qed (auto simp: names_ok_def announced_ok_def multimap_on_activate_def multimap_on_deactivate_def multimap_on_cleanup_def
      dumpEnvironmentsCallback_def Let_def)

lemma map_topic_full_name: "names_ok srv \<Longrightarrow> m \<in> set (ms_maps srv) \<Longrightarrow> map_topic m = ''maps/'' @ me_map_full_name m @ ''/map''"
  by (simp add: names_ok_def map_topic_def)

text \<open>The environments as the multi-costmap node reads them.\<close>

definition environment_message :: "Environment list \<Rightarrow> environments" where
  "environment_message envs = map (\<lambda>env. (en_name env, en_map_name env)) envs"

lemma onEnvironmentUpdate_created:
  "(env, m) \<in> set (fst (onEnvironmentUpdate msg st)) \<Longrightarrow> \<exists>maps. (env, maps) \<in> set msg \<and> m \<in> set maps"
  by (auto simp: onEnvironmentUpdate_def Let_def)

text \<open>
  C30: whatever maps and environments were loaded before and however often all of them were dropped, as long
  as no single map was removed since, every room that the multi-costmap node sets up from a published
  announcement has exactly one map at the server that is published on the topic on which the room waits for it. So no
  room of the announcement waits for a map that is never sent, and none can receive two different maps.
\<close>

theorem announced_rooms_have_maps:
  assumes "multimap_reachable loadMap yaml False srv" and "msg \<in> set (publishEnvironments srv)"
    and "(env, m) \<in> set (fst (onEnvironmentUpdate (environment_message msg) st))"
  shows "\<exists>!entry. entry \<in> set (ms_maps srv) \<and> map_topic entry = generateMapTopic env m"
proof -
  from multimap_reachable_ok [OF assms(1)] have names: "names_ok srv" and announced: "announced_ok srv" by simp_all
  from assms(2) have "msg = ms_environments srv" by (simp add: publishEnvironments_def split: if_splits)
  with onEnvironmentUpdate_created [OF assms(3)] announced have "isMapAlreadyLoaded srv env m"
    by (auto simp: environment_message_def announced_ok_def)
  then obtain entry where entry: "entry \<in> set (ms_maps srv)" "me_map_full_name entry = env @ ''/'' @ m"
    by (auto simp: isMapAlreadyLoaded_def list_ex_iff)
  have topic: "map_topic e = generateMapTopic env m \<longleftrightarrow> me_map_full_name e = env @ ''/'' @ m" if "e \<in> set (ms_maps srv)" for e
    using map_topic_full_name [OF names that] by (simp add: generateMapTopic_def)
  from names have "inj_on me_map_full_name (set (ms_maps srv))" by (simp add: names_ok_def distinct_map)
  with entry topic show ?thesis by (intro ex1I [of _ entry]) (simp, metis (no_types, lifting) inj_onD topic)
qed

text \<open>A file with one floor and two rooms, loaded when the node is configured; the floor is announced at activation.\<close>

definition example_yaml :: yaml_files where
  "example_yaml f = (if f = ''maps/environments.yaml''
     then Some (Inr [\<lparr>ye_name = Inr ''floor_0'', ye_global_frame = Inr ''map'',
       ye_maps = [\<lparr>ym_name = Inr ''hall'', ym_file = Inr ''hall.yaml''\<rparr>, \<lparr>ym_name = Inr ''office'', ym_file = Inr ''office.yaml''\<rparr>]\<rparr>])
     else None)"

definition example_server :: "nat MultimapServer" where
  "example_server = snd (multimap_on_activate (snd (multimap_on_configure (\<lambda>url. Inr (length url)) example_yaml ''maps/environments.yaml''
     \<lparr>ms_environments_file = [], ms_maps = [], ms_environments = [], ms_environments_pub = None\<rparr>)))"

lemma example_server_reachable: "multimap_reachable (\<lambda>url. Inr (length url)) example_yaml False example_server"
  unfolding example_server_def by (intro activated) (rule configured [OF created], rule prod.collapse [symmetric])

lemma example_server_state:
  "publishEnvironments example_server = [[\<lparr>en_name = ''floor_0'', en_global_frame = ''map'', en_map_name = [''hall'', ''office'']\<rparr>]]"
  "map map_topic (ms_maps example_server) = [''maps/floor_0/hall/map'', ''maps/floor_0/office/map'']"
  by code_simp+

theorem announced_rooms_have_maps_witness:
  "\<exists>!entry. entry \<in> set (ms_maps example_server) \<and> map_topic entry = generateMapTopic ''floor_0'' ''office''"
proof -
  have "(''floor_0'', ''office'') \<in> set (fst (onEnvironmentUpdate
      (environment_message [\<lparr>en_name = ''floor_0'', en_global_frame = ''map'', en_map_name = [''hall'', ''office'']\<rparr>])
      hall_and_study))"
    by (simp add: environment_message_def onEnvironmentUpdate_def hall_and_study_def createRoomKey_def)
  then show ?thesis
    using announced_rooms_have_maps [OF example_server_reachable] by (auto simp: example_server_state)
qed

end
