(* ===== verification/Map_Io.thy ===== *)
theory Map_Io
  imports Multimap_Server "HOL-Library.Word"
begin

text \<open>
  \<open>navbim_multimap_server/map_io.cpp\<close> and \<open>map_mode.cpp\<close>: an occupancy map as an image and a YAML file that describes
  it. Loading turns grey levels into occupancy values, saving does the opposite.

  GraphicsMagick, yaml-cpp and the file system are the record \<open>map_lib\<close>, with the behaviour the round trip needs in
  the locale \<open>map_files\<close>. An image is its size, whether it has an alpha channel, and the 8-bit grey level and
  alpha of its pixels, row by row from the top. A string that \<open>to_string_with_precision\<close> prints is
  represented by its number and its precision.
\<close>

section \<open>Map modes\<close>

datatype MapMode = Trinary | Scale | Raw

fun map_mode_to_string :: "MapMode \<Rightarrow> string" where
  "map_mode_to_string Trinary = ''trinary''"
| "map_mode_to_string Scale = ''scale''"
| "map_mode_to_string Raw = ''raw''"

definition tolower :: "char \<Rightarrow> char" where
  "tolower c = (if 65 \<le> (of_char c :: nat) \<and> (of_char c :: nat) \<le> 90 then char_of (of_char c + 32 :: nat) else c)"

definition map_mode_from_string :: "string \<Rightarrow> MapMode result" where
  "map_mode_from_string map_mode_name =
     (let name = map tolower map_mode_name
      in if name = ''scale'' then Inr Scale
         else if name = ''raw'' then Inr Raw
         else if name = ''trinary'' then Inr Trinary
         else Inl Invalid_argument)"

section \<open>Images, documents and files\<close>

record Image =
  im_width :: nat
  im_height :: nat
  im_matte :: bool
  im_rows :: "(8 word \<times> 8 word) list list"

datatype yaml_value = Y_string string | Y_fixed real nat | Y_double real | Y_int int | Y_seq "yaml_value list"

text \<open>
  \<open>ml_as_\<dots>\<close> are the conversions of a YAML node, \<open>ml_emit\<close> is the node that is read back for a written value,
  \<open>ml_gray\<close> and \<open>ml_quantum\<close> are the grey levels of a shade and of a quantum, \<open>ml_format\<close> tells whether an image
  format is known and can be written.
\<close>

record ('n, 'q, 'fs) map_lib =
  ml_yaml_load :: "string \<Rightarrow> 'fs \<Rightarrow> (string \<times> 'n) list result"
  ml_yaml_store :: "string \<Rightarrow> (string \<times> 'n) list \<Rightarrow> 'fs \<Rightarrow> 'fs"
  ml_as_string :: "'n \<Rightarrow> string result"
  ml_as_double :: "'n \<Rightarrow> real result"
  ml_as_doubles :: "'n \<Rightarrow> real list result"
  ml_as_int :: "'n \<Rightarrow> int result"
  ml_as_bool :: "'n \<Rightarrow> bool result"
  ml_emit :: "yaml_value \<Rightarrow> 'n"
  ml_read :: "string \<Rightarrow> 'fs \<Rightarrow> Image result"
  ml_write :: "string \<Rightarrow> Image \<Rightarrow> 'fs \<Rightarrow> 'fs \<times> cpp_exception option"
  ml_format :: "string \<Rightarrow> bool option"
  ml_creatable :: "string \<Rightarrow> bool"
  ml_gray :: "real \<Rightarrow> 8 word"
  ml_quantum :: "real \<Rightarrow> 8 word"
  ml_max_rgb :: real
  ml_orientation :: "real \<Rightarrow> 'q"
  ml_yaw :: "'q \<Rightarrow> real"

text \<open>A map with its orientation.\<close>

record 'q map_grid = OccupancyGrid +
  og_orientation :: 'q

section \<open>Loading\<close>

record LoadParameters =
  lp_image_file_name :: string
  lp_resolution :: real
  lp_origin :: "real list"
  lp_free_thresh :: real
  lp_occupied_thresh :: real
  lp_mode :: MapMode
  lp_negate :: bool

datatype LOAD_MAP_STATUS = LOAD_MAP_SUCCESS | MAP_DOES_NOT_EXIST | INVALID_MAP_METADATA | INVALID_MAP_DATA

definition yaml_get_value :: "('n \<Rightarrow> 'a result) \<Rightarrow> (string \<times> 'n) list \<Rightarrow> string \<Rightarrow> 'a result" where
  "yaml_get_value as node key = (case map_of node key of Some n \<Rightarrow> as n | None \<Rightarrow> Inl Yaml_exception)"

definition expand_user_home_dir_if_needed :: "string \<Rightarrow> string \<Rightarrow> string" where
  "expand_user_home_dir_if_needed yaml_filename home_variable_value =
     (if length yaml_filename < 2 \<or> \<not> (yaml_filename ! 0 = CHR ''~'' \<and> yaml_filename ! 1 = CHR ''/'') then yaml_filename
      else if home_variable_value = [] then yaml_filename
      else home_variable_value @ tl yaml_filename)"

text \<open>The function of the C library; a path that begins with two slashes is treated like one with a single slash.\<close>

definition dirname :: "string \<Rightarrow> string" where
  "dirname path =
     (let slash = (\<lambda>c. c = CHR ''/''); name = dropWhile slash (rev path); dir = dropWhile (Not \<circ> slash) name
      in if name = [] then (if path = [] then ''.'' else ''/'')
         else if dir = [] then ''.''
         else if dropWhile slash dir = [] then ''/''
         else rev (dropWhile slash dir))"

definition image_path :: "string \<Rightarrow> string \<Rightarrow> string" where
  "image_path yaml_filename image_file_name =
     (if image_file_name ! 0 \<noteq> CHR ''/'' then dirname yaml_filename @ ''/'' @ image_file_name else image_file_name)"

definition read_mode :: "('n, 'q, 'fs) map_lib \<Rightarrow> (string \<times> 'n) list \<Rightarrow> MapMode result" where
  "read_mode L doc =
     (case map_of doc ''mode'' of None \<Rightarrow> Inr Trinary | Some n \<Rightarrow> bind_result (ml_as_string L n) map_mode_from_string)"

definition read_negate :: "('n, 'q, 'fs) map_lib \<Rightarrow> (string \<times> 'n) list \<Rightarrow> bool result" where
  "read_negate L doc =
     (case yaml_get_value (ml_as_int L) doc ''negate'' of
        Inr i \<Rightarrow> Inr (i \<noteq> 0)
      | Inl exn \<Rightarrow> yaml_get_value (ml_as_bool L) doc ''negate'')"

definition loadMapYaml :: "('n, 'q, 'fs) map_lib \<Rightarrow> string \<Rightarrow> string \<Rightarrow> 'fs \<Rightarrow> LoadParameters result" where
  "loadMapYaml L home yaml_filename fs =
     bind_result (ml_yaml_load L (expand_user_home_dir_if_needed yaml_filename home) fs) (\<lambda>doc.
     bind_result (yaml_get_value (ml_as_string L) doc ''image'') (\<lambda>image_file_name.
     if image_file_name = [] then Inl Yaml_exception
     else
       bind_result (yaml_get_value (ml_as_double L) doc ''resolution'') (\<lambda>resolution.
       bind_result (yaml_get_value (ml_as_doubles L) doc ''origin'') (\<lambda>origin.
       if length origin \<noteq> 4 then Inl Yaml_exception
       else
         bind_result (yaml_get_value (ml_as_double L) doc ''free_thresh'') (\<lambda>free_thresh.
         bind_result (yaml_get_value (ml_as_double L) doc ''occupied_thresh'') (\<lambda>occupied_thresh.
         bind_result (read_mode L doc) (\<lambda>mode.
         bind_result (read_negate L doc) (\<lambda>negate.
           Inr \<lparr>lp_image_file_name = image_path yaml_filename image_file_name, lp_resolution = resolution, lp_origin = origin,
                lp_free_thresh = free_thresh, lp_occupied_thresh = occupied_thresh, lp_mode = mode, lp_negate = negate\<rparr>))))))))"

definition normalized :: "bool \<Rightarrow> 8 word \<Rightarrow> real" where
  "normalized negate gray = (let n = of_nat (unat gray) / 255 in if negate then n else 1 - n)"

text \<open>The mask of the free cells is applied after the one of the occupied cells.\<close>

definition trinary_cell :: "LoadParameters \<Rightarrow> real \<Rightarrow> int" where
  "trinary_cell p n = (if n \<le> lp_free_thresh p then 0 else if lp_occupied_thresh p \<le> n then 100 else - 1)"

definition scale_cell :: "LoadParameters \<Rightarrow> real \<Rightarrow> int" where
  "scale_cell p n =
     (if lp_free_thresh p < n \<and> n < lp_occupied_thresh p
      then \<lfloor>(n - lp_free_thresh p) / (lp_occupied_thresh p - lp_free_thresh p) * 100 + 1 / 2\<rfloor>
      else trinary_cell p n)"

definition raw_cell :: "8 word \<Rightarrow> int" where
  "raw_cell gray = (let cell = sint gray in if cell < 0 \<or> 100 < cell then - 1 else cell)"

definition load_cell :: "LoadParameters \<Rightarrow> bool \<Rightarrow> 8 word \<times> 8 word \<Rightarrow> int" where
  "load_cell p has_alpha pixel =
     (case pixel of (gray, alpha) \<Rightarrow>
        if lp_mode p = Raw then raw_cell gray
        else if has_alpha \<and> alpha < 255 then - 1
        else if lp_mode p = Scale then scale_cell p (normalized (lp_negate p) gray)
        else trinary_cell p (normalized (lp_negate p) gray))"

definition loadMapFromFile :: "('n, 'q, 'fs) map_lib \<Rightarrow> LoadParameters \<Rightarrow> 'fs \<Rightarrow> 'q map_grid result" where
  "loadMapFromFile L p fs =
     bind_result (ml_read L (lp_image_file_name p) fs) (\<lambda>img.
       Inr \<lparr>og_frame_id = ''map'', og_resolution = lp_resolution p, og_width = im_width img, og_height = im_height img,
            og_origin = (lp_origin p ! 0, lp_origin p ! 1, lp_origin p ! 2),
            og_data = concat (rev (map (map (load_cell p (im_matte img))) (im_rows img))),
            og_orientation = ml_orientation L (lp_origin p ! 3)\<rparr>)"

definition loadMapFromYaml :: "('n, 'q, 'fs) map_lib \<Rightarrow> string \<Rightarrow> string \<Rightarrow> 'fs \<Rightarrow> LOAD_MAP_STATUS \<times> 'q map_grid option" where
  "loadMapFromYaml L home yaml_file fs =
     (if yaml_file = [] then (MAP_DOES_NOT_EXIST, None)
      else case loadMapYaml L home yaml_file fs of
          Inl exn \<Rightarrow> (INVALID_MAP_METADATA, None)
        | Inr load_parameters \<Rightarrow>
            (case loadMapFromFile L load_parameters fs of
               Inl exn \<Rightarrow> (INVALID_MAP_DATA, None)
             | Inr m \<Rightarrow> (LOAD_MAP_SUCCESS, Some m)))"

text \<open>What the constructor of a map entry of the multi-map server loads.\<close>

definition load_room_map :: "('n, 'q, 'fs) map_lib \<Rightarrow> string \<Rightarrow> 'fs \<Rightarrow> string \<Rightarrow> 'q map_grid result" where
  "load_room_map L home fs map_url =
     bind_result (loadMapYaml L home map_url fs) (\<lambda>load_params. loadMapFromFile L load_params fs)"

section \<open>Saving\<close>

record SaveParameters =
  sp_map_file_name :: string
  sp_image_format :: string
  sp_free_thresh :: real
  sp_occupied_thresh :: real
  sp_mode :: MapMode

definition default_name :: "int \<Rightarrow> SaveParameters \<Rightarrow> SaveParameters" where
  "default_name now sp = (if sp_map_file_name sp = [] then sp\<lparr>sp_map_file_name := ''map_'' @ to_string now\<rparr> else sp)"

definition default_thresholds :: "SaveParameters \<Rightarrow> SaveParameters" where
  "default_thresholds sp =
     (let sp1 = if sp_occupied_thresh sp = 0 then sp\<lparr>sp_occupied_thresh := 65 / 100\<rparr> else sp
      in if sp_free_thresh sp1 = 0 then sp1\<lparr>sp_free_thresh := 25 / 100\<rparr> else sp1)"

definition usable_format :: "('n, 'q, 'fs) map_lib \<Rightarrow> SaveParameters \<Rightarrow> string" where
  "usable_format L sp =
     (let fmt = map tolower (if sp_image_format sp = [] then (if sp_mode sp = Scale then ''png'' else ''pgm'') else sp_image_format sp)
      in case ml_format L fmt of Some True \<Rightarrow> fmt | Some False \<Rightarrow> ''png'' | None \<Rightarrow> ''png'')"

definition checkSaveParameters :: "('n, 'q, 'fs) map_lib \<Rightarrow> int \<Rightarrow> SaveParameters \<Rightarrow> SaveParameters result" where
  "checkSaveParameters L now save_parameters =
     (let sp = default_thresholds (default_name now save_parameters)
      in if 1 < sp_occupied_thresh sp then Inl Runtime_error
         else if sp_free_thresh sp < 0 then Inl Runtime_error
         else if sp_occupied_thresh sp \<le> sp_free_thresh sp then Inl Runtime_error
         else Inr (sp\<lparr>sp_image_format := usable_format L sp\<rparr>))"

definition save_pixel :: "('n, 'q, 'fs) map_lib \<Rightarrow> SaveParameters \<Rightarrow> int \<Rightarrow> 8 word \<times> 8 word" where
  "save_pixel L sp map_cell =
     (let free_thresh_int = int (round_half_even (sp_free_thresh sp * 100));
          occupied_thresh_int = int (round_half_even (sp_occupied_thresh sp * 100))
      in case sp_mode sp of
           Trinary \<Rightarrow>
             (ml_gray L
               (if map_cell < 0 \<or> 100 < map_cell then 205 / 255
                else if map_cell \<le> free_thresh_int then 254 / 255
                else if occupied_thresh_int \<le> map_cell then 0 / 255
                else 205 / 255), 255)
         | Scale \<Rightarrow>
             (if map_cell < 0 \<or> 100 < map_cell then (ml_gray L (1 / 2), 0) else (ml_gray L ((100 - of_int map_cell) / 100), 255))
         | Raw \<Rightarrow>
             (ml_quantum L (if map_cell < 0 \<or> 100 < map_cell then ml_max_rgb L else of_int map_cell / 255 * ml_max_rgb L), 255))"

definition save_image :: "('n, 'q, 'fs) map_lib \<Rightarrow> 'q map_grid \<Rightarrow> SaveParameters \<Rightarrow> Image" where
  "save_image L m sp =
     \<lparr>im_width = og_width m, im_height = og_height m, im_matte = (sp_mode sp = Scale),
      im_rows = map (\<lambda>y. map (\<lambda>x. save_pixel L sp (og_data m ! (og_width m * (og_height m - y - 1) + x))) [0..<og_width m])
        [0..<og_height m]\<rparr>"

definition base_name :: "string \<Rightarrow> string" where
  "base_name mapdatafile =
     (case find_last_of [CHR ''/'', CHR 0x5C] mapdatafile of Some i \<Rightarrow> drop (i + 1) mapdatafile | None \<Rightarrow> mapdatafile)"

definition save_metadata :: "('n, 'q, 'fs) map_lib \<Rightarrow> 'q map_grid \<Rightarrow> SaveParameters \<Rightarrow> string \<Rightarrow> (string \<times> yaml_value) list" where
  "save_metadata L m sp mapdatafile =
     (case og_origin m of (x, y, z) \<Rightarrow>
       [(''image'', Y_string (base_name mapdatafile)),
        (''mode'', Y_string (map_mode_to_string (sp_mode sp))),
        (''resolution'', Y_fixed (og_resolution m) 3),
        (''origin'', Y_seq [Y_fixed x 3, Y_fixed y 3, Y_fixed z 3, Y_double (ml_yaw L (og_orientation m))]),
        (''negate'', Y_int 0),
        (''occupied_thresh'', if sp_mode sp = Trinary then Y_double (65 / 100) else Y_fixed (sp_occupied_thresh sp) 3),
        (''free_thresh'', if sp_mode sp = Trinary then Y_double (196 / 1000) else Y_fixed (sp_free_thresh sp) 3)])"

definition tryWriteMapToFile :: "('n, 'q, 'fs) map_lib \<Rightarrow> 'q map_grid \<Rightarrow> SaveParameters \<Rightarrow> 'fs \<Rightarrow> 'fs \<times> cpp_exception option" where
  "tryWriteMapToFile L m sp fs =
     (let mapdatafile = sp_map_file_name sp @ ''.'' @ sp_image_format sp
      in case ml_write L mapdatafile (save_image L m sp) fs of
           (fs1, Some exn) \<Rightarrow> (fs1, Some exn)
         | (fs1, None) \<Rightarrow>
             (ml_yaml_store L (sp_map_file_name sp @ ''.yaml'')
               (map (\<lambda>(key, v). (key, ml_emit L v)) (save_metadata L m sp mapdatafile)) fs1, None))"

definition saveMapToFile :: "('n, 'q, 'fs) map_lib \<Rightarrow> int \<Rightarrow> 'q map_grid \<Rightarrow> SaveParameters \<Rightarrow> 'fs \<Rightarrow> bool \<times> 'fs" where
  "saveMapToFile L now m save_parameters fs =
     (case checkSaveParameters L now save_parameters of
        Inl exn \<Rightarrow> (False, fs)
      | Inr sp \<Rightarrow> (case tryWriteMapToFile L m sp fs of (fs', None) \<Rightarrow> (True, fs') | (fs', Some exn) \<Rightarrow> (False, fs')))"

section \<open>What is known of the libraries\<close>

text \<open>The number read back after printing with a fixed number of decimals.\<close>

definition fixed_value :: "real \<Rightarrow> nat \<Rightarrow> real" where
  "fixed_value x p = sgn x * of_nat (round_half_even (\<bar>x\<bar> * 10 ^ p)) / 10 ^ p"

definition lossless :: "string \<Rightarrow> bool" where
  "lossless fmt \<longleftrightarrow> fmt \<in> {''bmp'', ''pgm'', ''png''}"

text \<open>
  An opaque grey image that was written in a lossless format is read back as it is; a document is read back if its file
  could be created, whole numbers and the given decimals exactly. A shade \<open>k / 255\<close> has the grey level \<open>k\<close>.
\<close>

locale map_files =
  fixes L :: "('n, 'q, 'fs) map_lib"
  assumes read_write: "ml_write L (name @ ''.'' @ fmt) img fs = (fs', None) \<Longrightarrow> lossless fmt \<Longrightarrow> \<not> im_matte img \<Longrightarrow>
      (\<forall>row \<in> set (im_rows img). \<forall>pixel \<in> set row. snd pixel = 255) \<Longrightarrow> ml_read L (name @ ''.'' @ fmt) fs' = Inr img"
    and read_store: "f \<noteq> g \<Longrightarrow> ml_read L f (ml_yaml_store L g doc fs) = ml_read L f fs"
    and load_store: "ml_creatable L g \<Longrightarrow> ml_yaml_load L g (ml_yaml_store L g doc fs) = Inr doc"
    and emit_string: "ml_as_string L (ml_emit L (Y_string s)) = Inr s"
    and emit_fixed: "ml_as_double L (ml_emit L (Y_fixed x p)) = Inr (fixed_value x p)"
    and emit_double: "\<bar>x\<bar> < 1 \<Longrightarrow> x * 1000 \<in> \<int> \<Longrightarrow> ml_as_double L (ml_emit L (Y_double x)) = Inr x"
    and emit_int: "ml_as_int L (ml_emit L (Y_int i)) = Inr i"
    and emit_origin: "\<exists>yaw'. ml_as_doubles L (ml_emit L (Y_seq [Y_fixed x p, Y_fixed y p, Y_fixed z p, Y_double yaw])) =
      Inr [fixed_value x p, fixed_value y p, fixed_value z p, yaw']"
    and gray: "k \<le> 255 \<Longrightarrow> ml_gray L (of_nat k / 255) = of_nat k"
    and quantum: "k \<le> 255 \<Longrightarrow> ml_quantum L (of_nat k / 255 * ml_max_rgb L) = of_nat k"

begin

text \<open>The value of a cell after saving and loading.\<close>

lemma load_save_raw:
  assumes "lp_mode p = Raw" and "sp_mode sp = Raw"
  shows "load_cell p matte (save_pixel L sp c) = (if c < 0 \<or> 100 < c then - 1 else c)"
proof (cases "c < 0 \<or> 100 < c")
  case True
  have "ml_quantum L (ml_max_rgb L) = 255" using quantum [of 255] by simp
  with True assms show ?thesis by (simp add: load_cell_def save_pixel_def raw_cell_def)
next
  case False
  then obtain k where k: "c = int k" "k \<le> 100" by (metis int_nat_eq nat_le_iff not_less of_nat_numeral zle_int)
  with quantum [of k] have "ml_quantum L (of_int c / 255 * ml_max_rgb L) = of_nat k" by simp
  moreover have "sint (of_nat k :: 8 word) = int k" using k(2) by (simp add: signed_of_nat signed_take_bit_int_eq_self)
  ultimately show ?thesis using False assms k by (simp add: load_cell_def save_pixel_def raw_cell_def)
qed

end

text \<open>The class of a cell that is saved in trinary mode.\<close>

definition trinary_value :: "real \<Rightarrow> real \<Rightarrow> int \<Rightarrow> int" where
  "trinary_value free_thresh occupied_thresh c =
     (if c < 0 \<or> 100 < c then - 1
      else if c \<le> int (round_half_even (free_thresh * 100)) then 0
      else if int (round_half_even (occupied_thresh * 100)) \<le> c then 100
      else - 1)"

context map_files
begin

lemma load_save_trinary:
  assumes "lp_mode p = Trinary" and "\<not> lp_negate p" and "lp_free_thresh p = 196 / 1000" and "lp_occupied_thresh p = 65 / 100"
    and "sp_mode sp = Trinary"
  shows "load_cell p False (save_pixel L sp c) = trinary_value (sp_free_thresh sp) (sp_occupied_thresh sp) c"
proof -
  have "ml_gray L (205 / 255) = 205" "ml_gray L (254 / 255) = 254" "ml_gray L (0 / 255) = 0"
    using gray [of 205] gray [of 254] gray [of 0] by simp_all
  with assms show ?thesis
    by (simp add: load_cell_def save_pixel_def trinary_value_def trinary_cell_def normalized_def Let_def)
qed

end

section \<open>Rows and paths\<close>

lemma concat_rows:
  "length data = w * h \<Longrightarrow> concat (map (\<lambda>y. map (\<lambda>x. f (data ! (w * y + x))) [0..<w]) [0..<h]) = map f data"
proof (induction h arbitrary: data)
  case (Suc h)
  let ?top = "take (w * h) data" and ?row = "drop (w * h) data"
  have len: "length ?top = w * h" "length ?row = w" using Suc.prems by simp_all
  have "map (\<lambda>y. map (\<lambda>x. f (data ! (w * y + x))) [0..<w]) [0..<h] = map (\<lambda>y. map (\<lambda>x. f (?top ! (w * y + x))) [0..<w]) [0..<h]"
  proof (rule map_cong [OF refl], rule map_cong [OF refl])
    fix y x assume "y \<in> set [0..<h]" "x \<in> set [0..<w]"
    then have "w * y + x < w * h" by (metis atLeastLessThan_iff less_le_trans mult_Suc_right mult_le_mono2 nat_add_left_cancel_less
      add.commute set_upt Suc_leI)
    then show "f (data ! (w * y + x)) = f (?top ! (w * y + x))" by simp
  qed
  moreover have "map (\<lambda>x. f (data ! (w * h + x))) [0..<w] = map f ?row"
    using Suc.prems by (intro nth_equalityI) simp_all
  ultimately have "concat (map (\<lambda>y. map (\<lambda>x. f (data ! (w * y + x))) [0..<w]) [0..<Suc h]) = map f (?top @ ?row)"
    using Suc.IH [OF len(1)] by (simp only: upt_Suc_append map_append concat_append le0 list.map concat.simps append_Nil2)
  then show ?case by (simp only: append_take_drop_id)
qed simp

lemma rev_rows: "rev (map (\<lambda>y. g (h - y - 1)) [0..<h]) = map g [0..<h]"
  by (rule nth_equalityI) (simp_all add: rev_nth)

lemma dirname_slash:
  assumes "d \<noteq> []" and "last d \<noteq> CHR ''/''" and "CHR ''/'' \<notin> set n" and "n \<noteq> []"
  shows "dirname (d @ ''/'' @ n) = d"
proof -
  let ?slash = "\<lambda>c. c = CHR ''/''"
  have "dropWhile ?slash (rev (d @ ''/'' @ n)) = rev n @ CHR ''/'' # rev d"
    using assms(3,4) by (cases n rule: rev_cases) auto
  moreover have "dropWhile (Not \<circ> ?slash) (rev n @ CHR ''/'' # rev d) = CHR ''/'' # rev d"
    using assms(3) by (subst dropWhile_append2) auto
  moreover have "dropWhile ?slash (rev d) = rev d" using assms(1,2) by (cases d rule: rev_cases) auto
  ultimately show ?thesis using assms(1) unfolding dirname_def Let_def 
    by (simp only: if_False list.simps append_is_Nil_conv rev_is_Nil_conv dropWhile.simps) simp
qed

lemma base_name_slash:
  assumes "CHR ''/'' \<notin> set n" and "CHR 0x5C \<notin> set n"
  shows "base_name (d @ ''/'' @ n) = n"
proof -
  have "find_last_of [CHR ''/'', CHR 0x5C] (d @ CHR ''/'' # n) = Some (length d)"
    by (rule find_last_of_Some) (use assms in auto)
  then show ?thesis by (simp add: base_name_def)
qed

section \<open>Maps survive saving and loading\<close>

lemma snd_save_pixel: "sp_mode sp \<noteq> Scale \<Longrightarrow> snd (save_pixel L sp c) = 255"
  by (cases "sp_mode sp") (simp_all add: save_pixel_def Let_def)

lemma load_saved_rows:
  assumes "length (og_data m) = og_width m * og_height m"
  shows "concat (rev (map (map g) (im_rows (save_image L m sp)))) = map (\<lambda>c. g (save_pixel L sp c)) (og_data m)"
proof -
  let ?row = "\<lambda>y. map (\<lambda>x. g (save_pixel L sp (og_data m ! (og_width m * y + x)))) [0..<og_width m]"
  have "rev (map (map g) (im_rows (save_image L m sp))) = rev (map (\<lambda>y. ?row (og_height m - y - 1)) [0..<og_height m])"
    by (simp add: save_image_def o_def)
  also have "\<dots> = map ?row [0..<og_height m]" by (rule rev_rows [of ?row])
  finally show ?thesis using concat_rows [OF assms, of "\<lambda>c. g (save_pixel L sp c)"] by simp
qed

definition saved_value :: "SaveParameters \<Rightarrow> int \<Rightarrow> int" where
  "saved_value sp c =
     (let sp = default_thresholds sp
      in if sp_mode sp = Raw then if c < 0 \<or> 100 < c then - 1 else c
         else trinary_value (sp_free_thresh sp) (sp_occupied_thresh sp) c)"

lemma default_name_id [simp]: "sp_map_file_name sp \<noteq> [] \<Longrightarrow> default_name now sp = sp"
  by (simp add: default_name_def)

lemma default_thresholds_fields [simp]:
  "sp_map_file_name (default_thresholds sp) = sp_map_file_name sp" "sp_mode (default_thresholds sp) = sp_mode sp"
  "sp_image_format (default_thresholds sp) = sp_image_format sp"
  by (simp_all add: default_thresholds_def Let_def)

lemma usable_format_thresholds: "usable_format L (default_thresholds sp) = usable_format L sp"
  by (simp only: usable_format_def default_thresholds_fields)

lemma checkSaveParameters_Inr:
  "checkSaveParameters L now sp = Inr sp' \<Longrightarrow> sp_map_file_name sp \<noteq> [] \<Longrightarrow>
     sp' = (default_thresholds sp)\<lparr>sp_image_format := usable_format L sp\<rparr>"
  using usable_format_thresholds [of L sp] by (simp add: checkSaveParameters_def Let_def split: if_splits)

lemma expand_not_home: "d \<noteq> ''~'' \<Longrightarrow> take 2 d \<noteq> ''~/'' \<Longrightarrow> d \<noteq> [] \<Longrightarrow> expand_user_home_dir_if_needed (d @ CHR ''/'' # n) home = d @ CHR ''/'' # n"
  by (cases d; cases "tl d") (auto simp: expand_user_home_dir_if_needed_def)

lemma map_mode_roundtrip: "map_mode_from_string (map_mode_to_string mode) = Inr mode"
  by (cases mode) (simp_all add: map_mode_from_string_def tolower_def)

context map_files
begin

lemma load_saved_metadata:
  assumes "d \<noteq> []" and "last d \<noteq> CHR ''/''" and "d \<noteq> ''~''" and "take 2 d \<noteq> ''~/''"
    and "set n \<inter> {CHR ''/'', CHR 0x5C} = {}" and "set fmt \<inter> {CHR ''/'', CHR 0x5C} = {}" and "sp_mode sp \<noteq> Scale"
    and "sp_map_file_name sp = d @ ''/'' @ n" and "ml_creatable L (d @ ''/'' @ n @ ''.yaml'')"
  shows "\<exists>p. loadMapYaml L home (d @ ''/'' @ n @ ''.yaml'') (ml_yaml_store L (d @ ''/'' @ n @ ''.yaml'')
      (map (\<lambda>(key, v). (key, ml_emit L v)) (save_metadata L m sp (d @ ''/'' @ n @ ''.'' @ fmt))) fs) = Inr p \<and>
    lp_image_file_name p = d @ ''/'' @ n @ ''.'' @ fmt \<and> lp_mode p = sp_mode sp \<and> \<not> lp_negate p \<and>
    lp_resolution p = fixed_value (og_resolution m) 3 \<and>
    (case og_origin m of (x, y, z) \<Rightarrow> take 3 (lp_origin p) = [fixed_value x 3, fixed_value y 3, fixed_value z 3]) \<and>
    (sp_mode sp = Trinary \<longrightarrow> lp_free_thresh p = 196 / 1000 \<and> lp_occupied_thresh p = 65 / 100)"
proof -
  obtain x y z where o: "og_origin m = (x, y, z)" by (cases "og_origin m")
  have files: "base_name (d @ ''/'' @ n @ ''.'' @ fmt) = n @ ''.'' @ fmt" "dirname (d @ ''/'' @ n @ ''.yaml'') = d"
    using base_name_slash [of "n @ ''.'' @ fmt" d] dirname_slash [OF assms(1,2), of "n @ ''.yaml''"] assms(5,6) by auto
  have first: "(n @ ''.'' @ fmt) ! 0 \<noteq> CHR ''/''" using assms(5) by (cases n) auto
  have path: "image_path (d @ ''/'' @ n @ ''.yaml'') (n @ ''.'' @ fmt) = d @ ''/'' @ n @ ''.'' @ fmt"
    using files(2) first by (simp add: image_path_def)
  obtain yaw where yaw: "ml_as_doubles L (ml_emit L (Y_seq [Y_fixed x 3, Y_fixed y 3, Y_fixed z 3, Y_double (ml_yaw L (og_orientation m))])) =
      Inr [fixed_value x 3, fixed_value y 3, fixed_value z 3, yaw]" using emit_origin by blast
  have thresholds: "ml_as_double L (ml_emit L (Y_double (65 / 100))) = Inr (65 / 100)"
    "ml_as_double L (ml_emit L (Y_double (196 / 1000))) = Inr (196 / 1000)"
    by (rule emit_double; simp)+
  have "ml_yaml_load L (expand_user_home_dir_if_needed (d @ ''/'' @ n @ ''.yaml'') home)
      (ml_yaml_store L (d @ ''/'' @ n @ ''.yaml'') doc fs) = Inr doc" for doc
    using expand_not_home [OF assms(3,4,1), of "n @ ''.yaml''" home] load_store [OF assms(9)] by simp
  then show ?thesis
    unfolding loadMapYaml_def
    by (simp only: bind_result.simps)
      (cases "sp_mode sp"; simp add: save_metadata_def o yaml_get_value_def files(1) [simplified] emit_string emit_fixed emit_int yaw thresholds [simplified]
        read_mode_def read_negate_def map_mode_roundtrip map_mode_roundtrip [of Trinary, simplified] map_mode_roundtrip [of Raw, simplified]
        path [simplified] assms(7))
qed

end

section \<open>A concrete library\<close>

text \<open>
  Files are kept in memory, documents as the values that were written, grey levels are rounded, an orientation is its angle.
\<close>

record mem_fs =
  mf_images :: "(string \<times> Image) list"
  mf_docs :: "(string \<times> (string \<times> yaml_value) list) list"

fun mem_double :: "yaml_value \<Rightarrow> real result" where
  "mem_double (Y_fixed x p) = Inr (fixed_value x p)"
| "mem_double (Y_double x) = Inr x"
| "mem_double (Y_int i) = Inr (of_int i)"
| "mem_double _ = Inl Yaml_exception"

fun mem_doubles :: "yaml_value list \<Rightarrow> real list result" where
  "mem_doubles [] = Inr []"
| "mem_doubles (v # vs) = bind_result (mem_double v) (\<lambda>x. bind_result (mem_doubles vs) (\<lambda>xs. Inr (x # xs)))"

definition mem_lib :: "(yaml_value, real, mem_fs) map_lib" where
  "mem_lib =
     \<lparr>ml_yaml_load = (\<lambda>f fs. case map_of (mf_docs fs) f of Some doc \<Rightarrow> Inr doc | None \<Rightarrow> Inl Yaml_exception),
      ml_yaml_store = (\<lambda>f doc fs. fs\<lparr>mf_docs := (f, doc) # mf_docs fs\<rparr>),
      ml_as_string = (\<lambda>v. case v of Y_string s \<Rightarrow> Inr s | _ \<Rightarrow> Inl Yaml_exception),
      ml_as_double = mem_double,
      ml_as_doubles = (\<lambda>v. case v of Y_seq vs \<Rightarrow> mem_doubles vs | _ \<Rightarrow> Inl Yaml_exception),
      ml_as_int = (\<lambda>v. case v of Y_int i \<Rightarrow> Inr i | _ \<Rightarrow> Inl Yaml_exception),
      ml_as_bool = (\<lambda>v. Inl Yaml_exception),
      ml_emit = id,
      ml_read = (\<lambda>f fs. case map_of (mf_images fs) f of Some img \<Rightarrow> Inr img | None \<Rightarrow> Inl Runtime_error),
      ml_write = (\<lambda>f img fs. (fs\<lparr>mf_images := (f, img) # mf_images fs\<rparr>, None)),
      ml_format = (\<lambda>fmt. if fmt \<in> {''bmp'', ''pgm'', ''png''} then Some True else None),
      ml_creatable = (\<lambda>f. True),
      ml_gray = (\<lambda>shade. word_of_int \<lfloor>shade * 255 + 1 / 2\<rfloor>),
      ml_quantum = (\<lambda>q. word_of_int \<lfloor>q / 257 + 1 / 2\<rfloor>),
      ml_max_rgb = 65535,
      ml_orientation = id,
      ml_yaw = id\<rparr>"

interpretation mem: map_files mem_lib
proof
  have floor_half: "\<lfloor>real k + 1 / 2\<rfloor> = int k" for k by linarith
  show "ml_gray mem_lib (of_nat k / 255) = of_nat k" for k
    using floor_half [of k] by (simp add: mem_lib_def)
  show "ml_quantum mem_lib (of_nat k / 255 * ml_max_rgb mem_lib) = of_nat k" for k
    using floor_half [of k] by (simp add: mem_lib_def)
qed (auto simp: mem_lib_def)

text \<open>
  C32: a map that was saved is loaded again. When \<open>saveMapToFile\<close> reports success in trinary or raw mode with a
  lossless image format and the YAML file could be created, loading that file succeeds. The map has the same
  size; resolution and origin are those of the saved map, rounded to three decimals; no row, column or cell is moved. In raw
  mode every cell from 0 to 100 keeps its value and all others are unknown. In trinary mode a cell is free
  up to the free threshold, occupied from the occupied threshold on, and otherwise unknown, with the
  thresholds in use when the map was saved, not the fixed ones in the file.
\<close>

theorem saveMapToFile_loadMapFromYaml_roundtrip:
  assumes "map_files L" and "saveMapToFile L now m sp fs = (True, fs')"
    and "sp_map_file_name sp = d @ ''/'' @ n" and "sp_mode sp \<noteq> Scale" and "lossless (usable_format L sp)"
    and "ml_creatable L (d @ ''/'' @ n @ ''.yaml'')"
    and "d \<noteq> []" and "last d \<noteq> CHR ''/''" and "d \<noteq> ''~''" and "take 2 d \<noteq> ''~/''" and "set n \<inter> {CHR ''/'', CHR 0x5C} = {}"
    and "length (og_data m) = og_width m * og_height m"
  shows "\<exists>m'. loadMapFromYaml L home (d @ ''/'' @ n @ ''.yaml'') fs' = (LOAD_MAP_SUCCESS, Some m') \<and>
    og_width m' = og_width m \<and> og_height m' = og_height m \<and> og_resolution m' = fixed_value (og_resolution m) 3 \<and>
    og_origin m' = (case og_origin m of (x, y, z) \<Rightarrow> (fixed_value x 3, fixed_value y 3, fixed_value z 3)) \<and>
    og_data m' = map (saved_value sp) (og_data m)"
proof -
  let ?fmt = "usable_format L sp"
  let ?sp = "(default_thresholds sp)\<lparr>sp_image_format := ?fmt\<rparr>" and ?yaml = "d @ ''/'' @ n @ ''.yaml''" and ?image = "d @ ''/'' @ n @ ''.'' @ ?fmt"
  let ?doc = "map (\<lambda>(key, v). (key, ml_emit L v)) (save_metadata L m ?sp ?image)"
  obtain fs1 where written: "ml_write L ?image (save_image L m ?sp) fs = (fs1, None)" and fs': "fs' = ml_yaml_store L ?yaml ?doc fs1"
    using assms(2,3) by (auto simp: saveMapToFile_def tryWriteMapToFile_def Let_def dest!: checkSaveParameters_Inr
      split: sum.splits option.splits prod.splits)
  have "ml_read L ?image fs1 = Inr (save_image L m ?sp)"
    using map_files.read_write [OF assms(1), of "d @ ''/'' @ n" ?fmt] written assms(4,5)
    by (auto simp: save_image_def snd_save_pixel)
  moreover have "?image \<noteq> ?yaml" using assms(5) by (auto simp: lossless_def)
  ultimately have image: "ml_read L ?image fs' = Inr (save_image L m ?sp)"
    using map_files.read_store [OF assms(1)] fs' by simp
  have "set ?fmt \<inter> {CHR ''/'', CHR 0x5C} = {}" using assms(5) by (auto simp: lossless_def)
  then obtain p where p: "loadMapYaml L home ?yaml fs' = Inr p" "lp_image_file_name p = ?image" "lp_mode p = sp_mode sp" "\<not> lp_negate p"
    "lp_resolution p = fixed_value (og_resolution m) 3"
    "case og_origin m of (x, y, z) \<Rightarrow> take 3 (lp_origin p) = [fixed_value x 3, fixed_value y 3, fixed_value z 3]"
    "sp_mode sp = Trinary \<longrightarrow> lp_free_thresh p = 196 / 1000 \<and> lp_occupied_thresh p = 65 / 100"
    using map_files.load_saved_metadata [OF assms(1,7-11), of ?fmt ?sp home m fs1] assms(3,4,6) fs' by auto
  have "load_cell p False (save_pixel L ?sp c) = saved_value sp c" for c
  proof (cases "sp_mode sp = Raw")
    case True
    then show ?thesis using map_files.load_save_raw [OF assms(1)] p(3) by (simp add: saved_value_def Let_def)
  next
    case False
    then have "sp_mode sp = Trinary" using assms(4) by (cases "sp_mode sp") auto
    then show ?thesis using map_files.load_save_trinary [OF assms(1), of p ?sp c] p by (simp add: saved_value_def Let_def)
  qed
  then have data: "concat (rev (map (map (load_cell p False)) (im_rows (save_image L m ?sp)))) = map (saved_value sp) (og_data m)"
    by (simp add: load_saved_rows [OF assms(12)])
  obtain x y z where o: "og_origin m = (x, y, z)" by (cases "og_origin m")
  then have first: "take 3 (lp_origin p) = [fixed_value x 3, fixed_value y 3, fixed_value z 3]" using p(6) by simp
  have "lp_origin p ! 0 = fixed_value x 3" "lp_origin p ! 1 = fixed_value y 3" "lp_origin p ! 2 = fixed_value z 3"
    using arg_cong [OF first, of "\<lambda>l. l ! 0"] arg_cong [OF first, of "\<lambda>l. l ! 1"] arg_cong [OF first, of "\<lambda>l. l ! 2"] by simp_all
  with data image p o assms(4) show ?thesis
    by (simp add: loadMapFromYaml_def loadMapFromFile_def save_image_def)
qed

lemma mem_lib_simps:
  "ml_write mem_lib f img fs = (fs\<lparr>mf_images := (f, img) # mf_images fs\<rparr>, None)" "ml_creatable mem_lib f"
  "ml_format mem_lib fmt = (if fmt \<in> {''bmp'', ''pgm'', ''png''} then Some True else None)"
  by (simp_all add: mem_lib_def)

definition small_map :: "real map_grid" where
  "small_map = \<lparr>og_frame_id = ''map'', og_resolution = 5 / 100, og_width = 3, og_height = 2, og_origin = (1, 2, 0),
     og_data = [0, 10, 60, - 1, 100, 70], og_orientation = 0\<rparr>"

definition small_params :: SaveParameters where
  "small_params = \<lparr>sp_map_file_name = ''maps/hall'', sp_image_format = [], sp_free_thresh = 0, sp_occupied_thresh = 0, sp_mode = Trinary\<rparr>"

definition no_files :: mem_fs where
  "no_files = \<lparr>mf_images = [], mf_docs = []\<rparr>"

theorem saveMapToFile_loadMapFromYaml_roundtrip_witness:
  "\<exists>m'. loadMapFromYaml mem_lib [] ''maps/hall.yaml'' (snd (saveMapToFile mem_lib 0 small_map small_params no_files)) = (LOAD_MAP_SUCCESS, Some m') \<and>
     og_width m' = 3 \<and> og_height m' = 2 \<and> og_data m' = [0, 0, - 1, - 1, 100, 100]"
proof -
  have "usable_format mem_lib small_params = ''pgm''"
    by (simp add: usable_format_def small_params_def mem_lib_simps tolower_def)
  then have format: "lossless (usable_format mem_lib small_params)" by (simp add: lossless_def)
  have "fst (saveMapToFile mem_lib 0 small_map small_params no_files)"
    by (simp add: saveMapToFile_def checkSaveParameters_def default_name_def default_thresholds_def small_params_def tryWriteMapToFile_def
      mem_lib_simps Let_def)
  then have saved: "saveMapToFile mem_lib 0 small_map small_params no_files =
      (True, snd (saveMapToFile mem_lib 0 small_map small_params no_files))" by (simp add: prod_eq_iff)
  have rint: "round_half_even 25 = 25" "round_half_even 65 = 65" by (simp_all add: round_half_even_def)
  have "map (saved_value small_params) (og_data small_map) = [0, 0, - 1, - 1, 100, 100]"
    by (simp add: saved_value_def small_params_def small_map_def default_thresholds_def trinary_value_def rint)
  moreover have "sp_map_file_name small_params = ''maps'' @ ''/'' @ ''hall''" "sp_mode small_params \<noteq> Scale"
    "length (og_data small_map) = og_width small_map * og_height small_map"
    by (simp_all add: small_params_def small_map_def)
  note saveMapToFile_loadMapFromYaml_roundtrip [OF mem.map_files_axioms saved this(1,2) format mem_lib_simps(2) _ _ _ _ _ this(3), of "[]"]
  moreover have "og_width small_map = 3" "og_height small_map = 2" by (simp_all add: small_map_def)
  ultimately show ?thesis by auto
qed

end
