(* ===== verification/Inflation_Layer.thy ===== *)
theory Inflation_Layer
  imports Costmap "HOL-Library.Sublist"
begin

text \<open>
  \<open>nav2_costmap_2d/plugins/inflation_layer.cpp\<close>: the layer that raises the costs around obstacles. Cells are visited by
  increasing distance to the obstacle they were reached from, with one list of waiting cells per distance.

  The lists grow while they are read, so one list is a recursive function with a termination proof: every
  visit marks a cell. An index outside of the array of marks would be undefined in C++ and is skipped.
\<close>

section \<open>State\<close>

record CellData =
  cd_x :: nat
  cd_y :: nat
  cd_src_x :: nat
  cd_src_y :: nat

record InflationLayer =
  il_enabled :: bool
  il_current :: bool
  il_inflation_radius :: real
  il_inscribed_radius :: real
  il_cost_scaling_factor :: real
  il_inflate_unknown :: bool
  il_inflate_around_unknown :: bool
  il_cell_inflation_radius :: nat
  il_cached_cell_inflation_radius :: nat
  il_inflation_cells :: "CellData list list"
  il_resolution :: real
  il_seen :: "bool list"
  il_cached_costs :: "uchar list"
  il_cached_distances :: "real list"
  il_distance_matrix :: "nat list list"
  il_cache_length :: nat
  il_last_min_x :: real
  il_last_min_y :: real
  il_last_max_x :: real
  il_last_max_y :: real
  il_need_reinflation :: bool

section \<open>Caches\<close>

definition computeCost :: "InflationLayer \<Rightarrow> real \<Rightarrow> uchar" where
  "computeCost il distance =
     (if distance = 0 then LETHAL_OBSTACLE
      else if distance * il_resolution il \<le> il_inscribed_radius il then INSCRIBED_INFLATED_OBSTACLE
      else let factor = exp (- 1 * il_cost_scaling_factor il * (distance * il_resolution il - il_inscribed_radius il))
           in word_of_int \<lfloor>252 * factor\<rfloor>)"

definition absdiff :: "nat \<Rightarrow> nat \<Rightarrow> nat" where
  "absdiff a b = (if b < a then a - b else b - a)"

definition distanceLookup :: "InflationLayer \<Rightarrow> nat \<Rightarrow> nat \<Rightarrow> nat \<Rightarrow> nat \<Rightarrow> real" where
  "distanceLookup il mx my src_x src_y = il_cached_distances il ! (absdiff mx src_x * il_cache_length il + absdiff my src_y)"

definition costLookup :: "InflationLayer \<Rightarrow> nat \<Rightarrow> nat \<Rightarrow> nat \<Rightarrow> nat \<Rightarrow> uchar" where
  "costLookup il mx my src_x src_y = il_cached_costs il ! (absdiff mx src_x * il_cache_length il + absdiff my src_y)"

definition sq_dist :: "int \<times> int \<Rightarrow> int" where
  "sq_dist p = fst p * fst p + snd p * snd p"

definition disc_points :: "int \<Rightarrow> (int \<times> int) list" where
  "disc_points r = filter (\<lambda>p. sq_dist p \<le> r * r) (concat (map (\<lambda>y. map (\<lambda>x. (x, y)) [- r..r]) [- r..r]))"

definition set_level :: "int \<Rightarrow> int \<times> int \<Rightarrow> nat list list \<times> (int \<times> int) \<times> nat \<Rightarrow> nat list list \<times> (int \<times> int) \<times> nat" where
  "set_level r p st =
     (case st of (distance_matrix, prev, level) \<Rightarrow>
        let level' = (if sq_dist p \<noteq> sq_dist prev then level + 1 else level)
        in (distance_matrix[nat (fst p + r) := (distance_matrix ! nat (fst p + r))[nat (snd p + r) := level']], p, level'))"

text \<open>The matrix of the levels and the largest level. The order of points at the same distance does not matter.\<close>

definition generateIntegerDistances :: "nat \<Rightarrow> nat list list \<times> nat" where
  "generateIntegerDistances cell_inflation_radius =
     (let r = int cell_inflation_radius + 2; size = nat (r * 2 + 1)
      in case fold (set_level r) (sort_key sq_dist (disc_points r)) (replicate size (replicate size 0), (0, 0), 0) of
           (distance_matrix, prev, level) \<Rightarrow> (distance_matrix, level))"

definition computeCaches :: "InflationLayer \<Rightarrow> InflationLayer" where
  "computeCaches il =
     (if il_cell_inflation_radius il = 0 then il
      else let len = il_cell_inflation_radius il + 2;
               distances = (if il_cell_inflation_radius il \<noteq> il_cached_cell_inflation_radius il
                 then concat (map (\<lambda>i. map (\<lambda>j. sqrt (real (i * i + j * j))) [0..<len]) [0..<len])
                 else il_cached_distances il);
               (distance_matrix, max_dist) = generateIntegerDistances (il_cell_inflation_radius il)
           in il\<lparr>il_cache_length := len, il_cached_distances := distances,
                 il_cached_cell_inflation_radius := il_cell_inflation_radius il,
                 il_cached_costs := map (computeCost il) (take (len * len) distances),
                 il_distance_matrix := distance_matrix, il_inflation_cells := replicate (max_dist + 1) []\<rparr>)"

definition matchSize_inflation :: "Costmap2D \<Rightarrow> InflationLayer \<Rightarrow> InflationLayer" where
  "matchSize_inflation master il =
     (computeCaches (il\<lparr>il_resolution := cm_resolution master, il_cell_inflation_radius := cellDistance master (il_inflation_radius il)\<rparr>))
       \<lparr>il_seen := replicate (wrap32 (cm_size_x master * cm_size_y master)) False\<rparr>"

definition onFootprintChanged :: "Costmap2D \<Rightarrow> real \<Rightarrow> InflationLayer \<Rightarrow> InflationLayer" where
  "onFootprintChanged master inscribed_radius il =
     (computeCaches (il\<lparr>il_inscribed_radius := inscribed_radius, il_cell_inflation_radius := cellDistance master (il_inflation_radius il)\<rparr>))
       \<lparr>il_need_reinflation := True\<rparr>"

section \<open>Inflation\<close>

text \<open>\<open>seen\<close> and \<open>bins\<close>: the marks and the lists of waiting cells.\<close>

definition enqueue :: "InflationLayer \<Rightarrow> nat \<Rightarrow> nat \<Rightarrow> nat \<Rightarrow> nat \<Rightarrow> nat \<Rightarrow> bool list \<Rightarrow> CellData list list \<Rightarrow> CellData list list" where
  "enqueue il index mx my src_x src_y seen bins =
     (if seen ! index then bins
      else if real (il_cell_inflation_radius il) < distanceLookup il mx my src_x src_y then bins
      else let r = il_cell_inflation_radius il + 2;
               dist = il_distance_matrix il ! (mx + r - src_x) ! (my + r - src_y)
           in bins[dist := bins ! dist @ [\<lparr>cd_x = mx, cd_y = my, cd_src_x = src_x, cd_src_y = src_y\<rparr>]])"

definition enqueue_neighbours :: "InflationLayer \<Rightarrow> nat \<Rightarrow> nat \<Rightarrow> nat \<Rightarrow> CellData \<Rightarrow> bool list \<Rightarrow> CellData list list \<Rightarrow> CellData list list" where
  "enqueue_neighbours il size_x size_y index cell seen bins =
     (let mx = cd_x cell; my = cd_y cell; sx = cd_src_x cell; sy = cd_src_y cell;
          bins1 = (if 0 < mx then enqueue il (index - 1) (mx - 1) my sx sy seen bins else bins);
          bins2 = (if 0 < my then enqueue il (index - size_x) mx (my - 1) sx sy seen bins1 else bins1);
          bins3 = (if mx < size_x - 1 then enqueue il (index + 1) (mx + 1) my sx sy seen bins2 else bins2)
      in if my < size_y - 1 then enqueue il (index + size_x) mx (my + 1) sx sy seen bins3 else bins3)"

definition inflated_cost :: "InflationLayer \<Rightarrow> uchar \<Rightarrow> uchar \<Rightarrow> uchar" where
  "inflated_cost il old_cost cost =
     (if old_cost = NO_INFORMATION \<and> (if il_inflate_unknown il then FREE_SPACE < cost else INSCRIBED_INFLATED_OBSTACLE \<le> cost)
      then cost else max old_cost cost)"

type_synonym window = "int \<times> int \<times> int \<times> int"

definition in_window :: "window \<Rightarrow> nat \<Rightarrow> nat \<Rightarrow> bool" where
  "in_window win mx my \<longleftrightarrow> (case win of (min_i, min_j, max_i, max_j) \<Rightarrow> min_i \<le> int mx \<and> min_j \<le> int my \<and> int mx < max_i \<and> int my < max_j)"

definition visit_cell :: "InflationLayer \<Rightarrow> window \<Rightarrow> CellData \<Rightarrow> Costmap2D \<times> bool list \<times> CellData list list \<Rightarrow>
    Costmap2D \<times> bool list \<times> CellData list list" where
  "visit_cell il win cell st =
     (case st of (m, seen, bins) \<Rightarrow>
        let index = getIndex m (cd_x cell) (cd_y cell)
        in if length seen \<le> index \<or> seen ! index then st
           else let seen1 = seen[index := True];
                    cost = costLookup il (cd_x cell) (cd_y cell) (cd_src_x cell) (cd_src_y cell);
                    m1 = (if in_window win (cd_x cell) (cd_y cell)
                      then m\<lparr>cm_costmap := (cm_costmap m)[index := inflated_cost il (cm_costmap m ! index) cost]\<rparr> else m)
                in (m1, seen1, enqueue_neighbours il (cm_size_x m) (cm_size_y m) index cell seen1 bins))"

lemma mark_decreases: "i < length seen \<Longrightarrow> \<not> seen ! i \<Longrightarrow> length (filter Not (seen[i := True])) < length (filter Not seen)"
proof (induction seen arbitrary: i)
  case (Cons b seen)
  then show ?case by (cases i) auto
qed simp

lemma visit_cell_cases:
  "visit_cell il win cell (m, seen, bins) = (m', seen', bins') \<Longrightarrow>
     (m', seen', bins') = (m, seen, bins) \<or> length (filter Not seen') < length (filter Not seen)"
  by (auto simp: visit_cell_def Let_def mark_decreases split: if_splits)

function visit_bin :: "InflationLayer \<Rightarrow> window \<Rightarrow> nat \<Rightarrow> nat \<Rightarrow> Costmap2D \<times> bool list \<times> CellData list list \<Rightarrow>
    Costmap2D \<times> bool list \<times> CellData list list" where
  "visit_bin il win k i (m, seen, bins) =
     (if i < length (bins ! k) then visit_bin il win k (i + 1) (visit_cell il win (bins ! k ! i) (m, seen, bins)) else (m, seen, bins))"
  by pat_completeness auto

termination
proof (relation "measures [\<lambda>(il, win, k, i, m, seen, bins). length (filter Not seen), \<lambda>(il, win, k, i, m, seen, bins). length (bins ! k) - i]",
    goal_cases)
  case (2 il win k i m seen bins)
  obtain m' seen' bins' where v: "visit_cell il win (bins ! k ! i) (m, seen, bins) = (m', seen', bins')" by (metis prod.collapse)
  from visit_cell_cases [OF v] 2 show ?case by (auto simp: v)
qed simp

declare visit_bin.simps [simp del]

definition obstacle :: "InflationLayer \<Rightarrow> Costmap2D \<Rightarrow> nat \<Rightarrow> nat \<Rightarrow> bool" where
  "obstacle il m i j \<longleftrightarrow> (let cost = getCost m i j in cost = LETHAL_OBSTACLE \<or> il_inflate_around_unknown il \<and> cost = NO_INFORMATION)"

definition widen :: "InflationLayer \<Rightarrow> Costmap2D \<Rightarrow> window \<Rightarrow> nat \<times> nat \<times> nat \<times> nat" where
  "widen il m win =
     (case win of (min_i, min_j, max_i, max_j) \<Rightarrow>
        let r = int (il_cell_inflation_radius il)
        in (nat (max 0 (min_i - r)), nat (max 0 (min_j - r)), nat (min (int (cm_size_x m)) (max_i + r)), nat (min (int (cm_size_y m)) (max_j + r))))"

definition obstacle_cells :: "InflationLayer \<Rightarrow> Costmap2D \<Rightarrow> window \<Rightarrow> CellData list" where
  "obstacle_cells il m win =
     (case widen il m win of (min_i, min_j, max_i, max_j) \<Rightarrow>
        concat (map (\<lambda>j. map (\<lambda>i. \<lparr>cd_x = i, cd_y = j, cd_src_x = i, cd_src_y = j\<rparr>) (filter (\<lambda>i. obstacle il m i j) [min_i..<max_i]))
          [min_j..<max_j]))"

definition finish_bin :: "InflationLayer \<Rightarrow> window \<Rightarrow> nat \<Rightarrow> Costmap2D \<times> bool list \<times> CellData list list \<Rightarrow>
    Costmap2D \<times> bool list \<times> CellData list list" where
  "finish_bin il win k st = (case visit_bin il win k 0 st of (m, seen, bins) \<Rightarrow> (m, seen, bins[k := []]))"

definition updateCosts_inflation :: "InflationLayer \<Rightarrow> window \<Rightarrow> Costmap2D \<Rightarrow> Costmap2D \<times> InflationLayer" where
  "updateCosts_inflation il win master =
     (if \<not> il_enabled il \<or> il_cell_inflation_radius il = 0 then (master, il)
      else let seen = replicate (wrap32 (cm_size_x master * cm_size_y master)) False;
               bins = (il_inflation_cells il)[0 := il_inflation_cells il ! 0 @ obstacle_cells il master win]
           in case fold (finish_bin il win) [0..<length bins] (master, seen, bins) of
                (master', seen', bins') \<Rightarrow>
                  (master', il\<lparr>il_seen := seen', il_inflation_cells := bins', il_current := True\<rparr>))"

section \<open>Bounds, reset and parameters\<close>

definition updateBounds_inflation :: "InflationLayer \<Rightarrow> real \<times> real \<times> real \<times> real \<Rightarrow> (real \<times> real \<times> real \<times> real) \<times> InflationLayer" where
  "updateBounds_inflation il bounds =
     (case bounds of (min_x, min_y, max_x, max_y) \<Rightarrow>
        if il_need_reinflation il
        then ((- dbl_max, - dbl_max, dbl_max, dbl_max),
              il\<lparr>il_last_min_x := dbl_max, il_last_min_y := dbl_max, il_last_max_x := - dbl_max, il_last_max_y := - dbl_max,
                 il_need_reinflation := False\<rparr>)
        else ((min (il_last_min_x il) min_x - il_inflation_radius il, min (il_last_min_y il) min_y - il_inflation_radius il,
               max (il_last_max_x il) max_x + il_inflation_radius il, max (il_last_max_y il) max_y + il_inflation_radius il),
              il\<lparr>il_last_min_x := min_x, il_last_min_y := min_y, il_last_max_x := max_x, il_last_max_y := max_y\<rparr>))"

definition reset_inflation :: "Costmap2D \<Rightarrow> InflationLayer \<Rightarrow> InflationLayer" where
  "reset_inflation master il = (matchSize_inflation master il)\<lparr>il_current := False, il_need_reinflation := True\<rparr>"

datatype layer_param = Double_param string real | Bool_param string bool

text \<open>One parameter; the second component tells whether the caches have to be computed again.\<close>

definition set_inflation_param :: "layer_param \<Rightarrow> InflationLayer \<times> bool \<Rightarrow> InflationLayer \<times> bool" where
  "set_inflation_param p st =
     (case (p, st) of
        (Double_param name v, il, recompute) \<Rightarrow>
          if name = ''inflation_radius'' \<and> il_inflation_radius il \<noteq> v
          then (il\<lparr>il_inflation_radius := v, il_need_reinflation := True\<rparr>, True)
          else if name = ''cost_scaling_factor'' \<and> il_cost_scaling_factor il \<noteq> v
          then (il\<lparr>il_cost_scaling_factor := v, il_need_reinflation := True\<rparr>, True)
          else (il, recompute)
      | (Bool_param name b, il, recompute) \<Rightarrow>
          if name = ''enabled'' \<and> il_enabled il \<noteq> b
          then (il\<lparr>il_enabled := b, il_need_reinflation := True, il_current := False\<rparr>, recompute)
          else if name = ''inflate_unknown'' \<and> il_inflate_unknown il \<noteq> b
          then (il\<lparr>il_inflate_unknown := b, il_need_reinflation := True\<rparr>, recompute)
          else if name = ''inflate_around_unknown'' \<and> il_inflate_around_unknown il \<noteq> b
          then (il\<lparr>il_inflate_around_unknown := b, il_need_reinflation := True\<rparr>, recompute)
          else (il, recompute))"

definition inflation_dynamicParametersCallback :: "Costmap2D \<Rightarrow> layer_param list \<Rightarrow> InflationLayer \<Rightarrow> InflationLayer" where
  "inflation_dynamicParametersCallback master ps il =
     (case fold set_inflation_param ps (il, False) of (il', recompute) \<Rightarrow> if recompute then matchSize_inflation master il' else il')"

section \<open>The levels\<close>

text \<open>The level of a point is the number of smaller distances in the disc.\<close>

definition level_of :: "(int \<times> int) set \<Rightarrow> int \<times> int \<Rightarrow> nat" where
  "level_of S p = card (sq_dist ` {q \<in> S. sq_dist q < sq_dist p})"

definition level_at :: "int \<Rightarrow> nat list list \<Rightarrow> int \<times> int \<Rightarrow> nat" where
  "level_at r matrix p = matrix ! nat (fst p + r) ! nat (snd p + r)"

lemma level_of_later:
  assumes "sq_dist q \<le> sq_dist p"
  shows "level_of (insert p S) q = level_of S q"
proof -
  have "{x \<in> insert p S. sq_dist x < sq_dist q} = {x \<in> S. sq_dist x < sq_dist q}" using assms by auto
  then show ?thesis by (simp add: level_of_def)
qed

lemma level_of_next:
  assumes "finite S" and "l \<in> S" and "\<forall>q \<in> S. sq_dist q \<le> sq_dist l" and "sq_dist l < sq_dist p"
  shows "level_of (insert p S) p = level_of S l + 1"
proof -
  let ?below = "{x \<in> S. sq_dist x < sq_dist l}"
  have "{x \<in> insert p S. sq_dist x < sq_dist p} = S" using assms(3,4) by fastforce
  moreover have "sq_dist ` S = insert (sq_dist l) (sq_dist ` ?below)"
  proof (rule set_eqI)
    fix v
    show "v \<in> sq_dist ` S \<longleftrightarrow> v \<in> insert (sq_dist l) (sq_dist ` ?below)"
      using assms(2,3) by (cases "v = sq_dist l") (auto simp: image_iff order_less_le)
  qed
  moreover have "sq_dist l \<notin> sq_dist ` ?below" by auto
  ultimately show ?thesis using assms(1) by (simp add: level_of_def)
qed

lemma level_at_update:
  assumes "\<bar>fst p\<bar> \<le> r" "\<bar>snd p\<bar> \<le> r" "\<bar>fst q\<bar> \<le> r" "\<bar>snd q\<bar> \<le> r" and "length M = nat (2 * r + 1)" "\<forall>row \<in> set M. length row = nat (2 * r + 1)"
  shows "level_at r (M[nat (fst p + r) := (M ! nat (fst p + r))[nat (snd p + r) := v]]) q = (if q = p then v else level_at r M q)"
proof -
  have i: "nat (fst p + r) < length M" using assms(1,5) by linarith
  then have "M ! nat (fst p + r) \<in> set M" by simp
  with assms(6) have "length (M ! nat (fst p + r)) = nat (2 * r + 1)" by blast
  then have j: "nat (snd p + r) < length (M ! nat (fst p + r))" using assms(2) by linarith
  show ?thesis
  proof (cases "fst q = fst p")
    case True
    have "nat (snd q + r) = nat (snd p + r) \<longleftrightarrow> snd q = snd p" using assms(2,4) by linarith
    with True i j show ?thesis by (auto simp: level_at_def prod_eq_iff)
  next
    case False
    then have "nat (fst q + r) \<noteq> nat (fst p + r)" using assms(1,3) by linarith
    with False show ?thesis by (auto simp: level_at_def)
  qed
qed

lemma set_level_fold:
  assumes "sorted (map sq_dist ps)" and "distinct ps" and "\<forall>p \<in> set ps. \<bar>fst p\<bar> \<le> r \<and> \<bar>snd p\<bar> \<le> r"
    and "ps = [] \<or> sq_dist (hd ps) = 0" and "length M0 = nat (2 * r + 1)" and "\<forall>row \<in> set M0. length row = nat (2 * r + 1)"
    and "fold (set_level r) ps (M0, (0, 0), 0) = (M, prev, lev)"
  shows "length M = nat (2 * r + 1) \<and> (\<forall>row \<in> set M. length row = nat (2 * r + 1)) \<and>
    (\<forall>p \<in> set ps. level_at r M p = level_of (set ps) p) \<and>
    (if ps = [] then prev = (0, 0) \<and> lev = 0 else prev = last ps \<and> lev = level_of (set ps) prev)"
  using assms
proof (induction ps arbitrary: M prev lev rule: rev_induct)
  case (snoc p ps)
  obtain M1 prev1 lev1 where run: "fold (set_level r) ps (M0, (0, 0), 0) = (M1, prev1, lev1)" by (metis prod.collapse)
  have "ps = [] \<or> sq_dist (hd ps) = 0" using snoc.prems(4) by (cases ps) auto
  with snoc run have IH: "length M1 = nat (2 * r + 1)" "\<forall>row \<in> set M1. length row = nat (2 * r + 1)"
    "\<forall>p \<in> set ps. level_at r M1 p = level_of (set ps) p"
    "if ps = [] then prev1 = (0, 0) \<and> lev1 = 0 else prev1 = last ps \<and> lev1 = level_of (set ps) prev1"
    by (auto simp: sorted_append)
  let ?lev = "if sq_dist p \<noteq> sq_dist prev1 then lev1 + 1 else lev1"
  have step: "M = M1[nat (fst p + r) := (M1 ! nat (fst p + r))[nat (snd p + r) := ?lev]]" "prev = p" "lev = ?lev"
    using snoc.prems(7) unfolding fold_append o_apply run by (auto simp: set_level_def Let_def simp del: not_None_eq split del: if_split)
  have below: "\<forall>q \<in> set ps. sq_dist q \<le> sq_dist p" using snoc.prems(1) by (auto simp: sorted_append)
  have lev: "?lev = level_of (set (ps @ [p])) p"
  proof (cases "ps = []")
    case True
    with IH(4) snoc.prems(4) show ?thesis by (simp add: sq_dist_def level_of_def)
  next
    case False
    then have prev1: "prev1 \<in> set ps" "prev1 = last ps" "lev1 = level_of (set ps) prev1" using IH(4) by auto
    have top: "\<forall>q \<in> set ps. sq_dist q \<le> sq_dist prev1"
      using snoc.prems(1) False prev1(2) by (cases ps rule: rev_cases) (auto simp: sorted_append)
    show ?thesis
    proof (cases "sq_dist p = sq_dist prev1")
      case True
      have "level_of (insert p (set ps)) p = level_of (set ps) p" by (rule level_of_later) simp
      with True prev1(3) show ?thesis by (simp add: level_of_def)
    next
      case False
      with below prev1(1) have "sq_dist prev1 < sq_dist p" by fastforce
      with level_of_next [OF _ prev1(1) top this] False prev1(3) show ?thesis by simp
    qed
  qed
  have "p \<notin> set ps" using snoc.prems(2) by simp
  have bounds: "\<bar>fst q\<bar> \<le> r" "\<bar>snd q\<bar> \<le> r" if "q \<in> set (ps @ [p])" for q using snoc.prems(3) that by auto
  have "level_at r M q = level_of (set (ps @ [p])) q" if "q \<in> set (ps @ [p])" for q
    using level_at_update [OF bounds [of p] bounds [OF that] IH(1,2), of ?lev] that IH(3) lev step(1) \<open>p \<notin> set ps\<close>
      level_of_later [of q p "set ps"] below by auto
  moreover have "length row = nat (2 * r + 1)" if "row \<in> set M" for row
  proof -
    from that obtain i where "i < length M" "row = M ! i" by (metis in_set_conv_nth)
    with step(1) IH(1,2) show ?thesis by (cases "i = nat (fst p + r)") auto
  qed
  ultimately show ?case using step lev IH(1) by auto
qed simp

lemma set_disc_points: "set (disc_points r) = {p. sq_dist p \<le> r * r \<and> \<bar>fst p\<bar> \<le> r \<and> \<bar>snd p\<bar> \<le> r}"
  by (auto simp: disc_points_def image_iff)

lemma distinct_disc_points: "distinct (disc_points r)"
proof -
  have "distinct (concat (map (\<lambda>y. map (\<lambda>x. (x, y)) [- r..r]) ys))" if "distinct ys" for ys :: "int list"
    using that by (induction ys) (auto simp: distinct_map inj_on_def)
  then show ?thesis by (simp add: disc_points_def)
qed

lemma sq_dist_nonneg: "0 \<le> sq_dist p"
  by (simp add: sq_dist_def)

lemma sq_dist_0: "sq_dist p = 0 \<longleftrightarrow> p = (0, 0)"
  by (cases p) (auto simp: sq_dist_def add_nonneg_eq_0_iff)

lemma generateIntegerDistances_levels:
  assumes "generateIntegerDistances R = (M, max_dist)" and "p \<in> set (disc_points (int R + 2))"
  shows "level_at (int R + 2) M p = level_of (set (disc_points (int R + 2))) p" and "level_at (int R + 2) M p \<le> max_dist"
proof -
  let ?r = "int R + 2"
  let ?S = "disc_points ?r" and ?M0 = "replicate (nat (2 * ?r + 1)) (replicate (nat (2 * ?r + 1)) 0)"
  let ?ps = "sort_key sq_dist ?S"
  obtain prev where run: "fold (set_level ?r) ?ps (?M0, (0, 0), 0) = (M, prev, max_dist)"
    using assms(1) by (auto simp: generateIntegerDistances_def Let_def mult.commute split: prod.splits)
  have "(0, 0) \<in> set ?S" by (simp add: set_disc_points sq_dist_def)
  then have ne: "?ps \<noteq> []" and "hd ?ps \<in> set ?ps" by (metis length_greater_0_conv length_pos_if_in_set set_sort, metis hd_in_set length_greater_0_conv length_pos_if_in_set set_sort)
  moreover have "sq_dist (hd ?ps) \<le> sq_dist (0, 0)"
    using sorted_sort_key [of sq_dist ?S] \<open>(0, 0) \<in> set ?S\<close> ne by (cases ?ps) (auto simp flip: set_sort [of sq_dist ?S])
  moreover have "sq_dist (0, 0) = 0" by (simp add: sq_dist_0)
  ultimately have start: "?ps = [] \<or> sq_dist (hd ?ps) = 0" using sq_dist_nonneg [of "hd ?ps"] by linarith
  have facts: "(\<forall>p \<in> set ?ps. level_at ?r M p = level_of (set ?ps) p) \<and> prev = last ?ps \<and> max_dist = level_of (set ?ps) prev"
    using set_level_fold [OF sorted_sort_key _ _ start _ _ run] ne distinct_disc_points [of ?r] by (auto simp: set_disc_points)
  with assms(2) show level: "level_at ?r M p = level_of (set ?S) p" by simp
  have "sq_dist p \<le> sq_dist (last ?ps)"
    using sorted_sort_key [of sq_dist ?S] assms(2) by (cases ?ps rule: rev_cases) (auto simp: sorted_append simp flip: set_sort [of sq_dist ?S])
  then have "level_of (set ?S) p \<le> level_of (set ?S) (last ?ps)"
    unfolding level_of_def by (intro card_mono image_mono) auto
  with level facts show "level_at ?r M p \<le> max_dist" by simp
qed

lemma level_0_1:
  assumes "generateIntegerDistances R = (M, max_dist)" and "p \<in> set (disc_points (int R + 2))"
  shows "level_at (int R + 2) M p = 0 \<longleftrightarrow> sq_dist p = 0" and "level_at (int R + 2) M p \<le> 1 \<longleftrightarrow> sq_dist p \<le> 1"
proof -
  let ?S = "set (disc_points (int R + 2))"
  let ?below = "{q \<in> ?S. sq_dist q < sq_dist p}"
  note level = generateIntegerDistances_levels(1) [OF assms]
  have in_S: "(0, 0) \<in> ?S" "(1, 0) \<in> ?S" by (auto simp: set_disc_points sq_dist_def algebra_simps)
  have fin: "finite (sq_dist ` ?below)" by simp
  show "level_at (int R + 2) M p = 0 \<longleftrightarrow> sq_dist p = 0"
  proof (cases "sq_dist p = 0")
    case True
    then have "?below = {}" using sq_dist_nonneg by (auto simp: not_less)
    with True show ?thesis by (simp add: level level_of_def)
  next
    case False
    moreover have "sq_dist (0, 0) = 0" by (simp add: sq_dist_0)
    ultimately have "(0, 0) \<in> ?below" using in_S(1) sq_dist_nonneg [of p] by simp
    then have "sq_dist ` ?below \<noteq> {}" by blast
    then have "card (sq_dist ` ?below) \<noteq> 0" using card_0_eq [OF fin] by simp
    with False show ?thesis by (simp add: level level_of_def)
  qed
  show "level_at (int R + 2) M p \<le> 1 \<longleftrightarrow> sq_dist p \<le> 1"
  proof (cases "sq_dist p \<le> 1")
    case True
    have "sq_dist q = 0" if "q \<in> ?below" for q using that True sq_dist_nonneg [of q] by simp
    then have "sq_dist ` ?below \<subseteq> {0}" by blast
    then have "card (sq_dist ` ?below) \<le> card {0 :: int}" by (rule card_mono [rotated]) simp
    with True show ?thesis by (simp add: level level_of_def)
  next
    case False
    have keys: "sq_dist (0, 0) = 0" "sq_dist (1, 0) = 1" by (simp_all add: sq_dist_def)
    with False in_S have "(0, 0) \<in> ?below" "(1, 0) \<in> ?below" by simp_all
    then have "sq_dist (0, 0) \<in> sq_dist ` ?below" "sq_dist (1, 0) \<in> sq_dist ` ?below" by (blast intro: imageI)+
    then have "{0, 1} \<subseteq> sq_dist ` ?below" unfolding keys by blast
    then have "card {0 :: int, 1} \<le> card (sq_dist ` ?below)" by (rule card_mono [OF fin])
    with False show ?thesis by (simp add: level level_of_def)
  qed
qed

section \<open>Lookups\<close>

definition cell_dist :: "nat \<Rightarrow> nat \<Rightarrow> nat \<Rightarrow> nat \<Rightarrow> real" where
  "cell_dist x y sx sy = sqrt (real (absdiff x sx * absdiff x sx + absdiff y sy * absdiff y sy))"

definition caches_ok :: "InflationLayer \<Rightarrow> bool" where
  "caches_ok il \<longleftrightarrow>
     (let R = il_cell_inflation_radius il; len = R + 2
      in il_cache_length il = len \<and> il_cached_distances il = concat (map (\<lambda>i. map (\<lambda>j. sqrt (real (i * i + j * j))) [0..<len]) [0..<len]) \<and>
         il_cached_costs il = map (computeCost il) (il_cached_distances il) \<and> il_inflation_cells il \<noteq> [] \<and>
         generateIntegerDistances R = (il_distance_matrix il, length (il_inflation_cells il) - 1))"

lemma length_grid: "length (concat (map (\<lambda>i. map (f i) [0..<n]) [0..<m])) = m * n"
  by (induction m) simp_all

lemma nth_grid:
  assumes "i < m" and "j < n"
  shows "concat (map (\<lambda>i. map (f i) [0..<n]) [0..<m]) ! (i * n + j) = f i j"
  using assms
proof (induction m)
  case (Suc m)
  show ?case
  proof (cases "i < m")
    case True
    have "i * n + j < m * n" using cell_index_less [of j n i m] True Suc.prems(2) by (simp add: mult.commute)
    with True Suc show ?thesis by (simp add: nth_append length_grid)
  next
    case False
    with Suc.prems have "i = m" by simp
    with Suc.prems(2) show ?thesis by (simp add: nth_append length_grid)
  qed
qed simp

lemma lookups:
  assumes "caches_ok il" and "absdiff x sx < il_cell_inflation_radius il + 2" and "absdiff y sy < il_cell_inflation_radius il + 2"
  shows "distanceLookup il x y sx sy = cell_dist x y sx sy" and "costLookup il x y sx sy = computeCost il (cell_dist x y sx sy)"
proof -
  let ?len = "il_cell_inflation_radius il + 2" and ?i = "absdiff x sx" and ?j = "absdiff y sy"
  let ?grid = "concat (map (\<lambda>i. map (\<lambda>j. sqrt (real (i * i + j * j))) [0..<?len]) [0..<?len])"
  have caches: "il_cache_length il = ?len" "il_cached_distances il = ?grid" "il_cached_costs il = map (computeCost il) ?grid"
    using assms(1) unfolding caches_ok_def Let_def by auto
  have d: "?grid ! (?i * ?len + ?j) = cell_dist x y sx sy"
    using nth_grid [OF assms(2,3), of "\<lambda>i j. sqrt (real (i * i + j * j))"] unfolding cell_dist_def .
  have "?i * ?len + ?j < length ?grid"
    using cell_index_less [OF assms(3,2)] length_grid [of "\<lambda>i j. sqrt (real (i * i + j * j))" ?len ?len] by simp
  with d caches show "distanceLookup il x y sx sy = cell_dist x y sx sy" "costLookup il x y sx sy = computeCost il (cell_dist x y sx sy)"
    unfolding distanceLookup_def costLookup_def by (simp_all only: nth_map)
qed

lemma computeCaches_ok:
  assumes "il_cell_inflation_radius il \<noteq> 0" and "il_cached_cell_inflation_radius il \<noteq> il_cell_inflation_radius il"
  shows "caches_ok (computeCaches il) \<and> concat (il_inflation_cells (computeCaches il)) = []"
proof -
  obtain M max_dist where gen: "generateIntegerDistances (il_cell_inflation_radius il) = (M, max_dist)" by (metis prod.collapse)
  let ?len = "il_cell_inflation_radius il + 2"
  have "length (concat (map (\<lambda>i. map (\<lambda>j. sqrt (real (i * i + j * j))) [0..<?len]) [0..<?len])) = ?len * ?len" by (rule length_grid)
  moreover have "computeCost (il\<lparr>il_cache_length := a, il_cached_distances := b, il_cached_cell_inflation_radius := c, il_cached_costs := d,
      il_distance_matrix := e, il_inflation_cells := f\<rparr>) = computeCost il" for a b c d e f
    by (rule ext) (simp add: computeCost_def)
  ultimately show ?thesis
    using assms by (simp only: caches_ok_def computeCaches_def gen prod.case Let_def if_False if_True not_False_eq_True) (simp add: gen)
qed

text \<open>A waiting cell, its place relative to its obstacle and its level.\<close>

definition cell_offset :: "CellData \<Rightarrow> int \<times> int" where
  "cell_offset c = (int (cd_x c) - int (cd_src_x c), int (cd_y c) - int (cd_src_y c))"

abbreviation src_dist :: "CellData \<Rightarrow> real" where
  "src_dist c \<equiv> cell_dist (cd_x c) (cd_y c) (cd_src_x c) (cd_src_y c)"

definition cell_level :: "InflationLayer \<Rightarrow> CellData \<Rightarrow> nat" where
  "cell_level il c = (let r = il_cell_inflation_radius il + 2
     in il_distance_matrix il ! (cd_x c + r - cd_src_x c) ! (cd_y c + r - cd_src_y c))"

lemma absdiff_sq: "int (absdiff a b * absdiff a b) = (int a - int b) * (int a - int b)"
  by (auto simp: absdiff_def of_nat_diff algebra_simps)

lemma src_dist_cell_offset: "src_dist c = sqrt (of_int (sq_dist (cell_offset c)))"
proof -
  have "int (absdiff (cd_x c) (cd_src_x c) * absdiff (cd_x c) (cd_src_x c) + absdiff (cd_y c) (cd_src_y c) * absdiff (cd_y c) (cd_src_y c)) =
      sq_dist (cell_offset c)"
    unfolding of_nat_add absdiff_sq by (simp add: sq_dist_def cell_offset_def)
  then show ?thesis unfolding cell_dist_def by (metis of_int_of_nat_eq)
qed

lemma cell_level_at: "cell_level il c = level_at (int (il_cell_inflation_radius il) + 2) (il_distance_matrix il) (cell_offset c)"
proof -
  have "nat (int a - int b + (int R + 2)) = a + (R + 2) - b" for a b R by linarith
  then show ?thesis by (simp add: cell_level_def level_at_def cell_offset_def Let_def)
qed

lemma in_disc:
  assumes "src_dist c \<le> real R"
  shows "cell_offset c \<in> set (disc_points (int R + 2))"
proof -
  have "of_int (sq_dist (cell_offset c)) \<le> (real R)\<^sup>2"
    using assms sq_dist_nonneg [of "cell_offset c"] by (simp add: src_dist_cell_offset sqrt_le_D)
  then have "sq_dist (cell_offset c) \<le> int R * int R"
    by (metis of_int_le_iff of_int_mult of_int_of_nat_eq power2_eq_square)
  then have sq: "sq_dist (cell_offset c) \<le> (int R + 2) * (int R + 2)" by (simp add: algebra_simps)
  have "\<bar>a\<bar> \<le> b" if "a * a \<le> b * b" "0 \<le> b" for a b :: int
    using that by (metis abs_le_square_iff abs_of_nonneg power2_eq_square)
  moreover have "fst (cell_offset c) * fst (cell_offset c) \<le> sq_dist (cell_offset c)" "snd (cell_offset c) * snd (cell_offset c) \<le> sq_dist (cell_offset c)"
    by (simp_all add: sq_dist_def)
  ultimately show ?thesis using sq by (auto simp: set_disc_points)
qed

lemma level_in_range:
  assumes "caches_ok il" and "src_dist c \<le> real (il_cell_inflation_radius il)"
  shows "cell_level il c < length (il_inflation_cells il)"
    and "cell_level il c = 0 \<longleftrightarrow> src_dist c = 0" and "cell_level il c \<le> 1 \<longleftrightarrow> src_dist c \<le> 1"
proof -
  have gen: "generateIntegerDistances (il_cell_inflation_radius il) = (il_distance_matrix il, length (il_inflation_cells il) - 1)"
    and "il_inflation_cells il \<noteq> []"
    using assms(1) unfolding caches_ok_def Let_def by auto
  then have "0 < length (il_inflation_cells il)" by simp
  then show "cell_level il c < length (il_inflation_cells il)"
    using generateIntegerDistances_levels(2) [OF gen in_disc [OF assms(2)]] unfolding cell_level_at by linarith
  show "cell_level il c = 0 \<longleftrightarrow> src_dist c = 0" "cell_level il c \<le> 1 \<longleftrightarrow> src_dist c \<le> 1"
    using level_0_1 [OF gen in_disc [OF assms(2)]] unfolding cell_level_at src_dist_cell_offset by simp_all
qed

lemma absdiff_le_dist: "real (absdiff x sx) \<le> cell_dist x y sx sy" "real (absdiff y sy) \<le> cell_dist x y sx sy"
  unfolding cell_dist_def by (rule real_le_rsqrt; simp add: power2_eq_square)+

section \<open>What the visits keep\<close>

text \<open>\<open>Q\<close>: what is known of the places from which cells were reached.\<close>

definition cell_ok :: "(nat \<Rightarrow> nat \<Rightarrow> bool) \<Rightarrow> InflationLayer \<Rightarrow> Costmap2D \<Rightarrow> CellData \<Rightarrow> bool" where
  "cell_ok Q il m c \<longleftrightarrow> in_map m (cd_x c) (cd_y c) \<and> in_map m (cd_src_x c) (cd_src_y c) \<and> Q (cd_src_x c) (cd_src_y c) \<and>
     src_dist c \<le> real (il_cell_inflation_radius il)"

definition waiting_ok :: "(nat \<Rightarrow> nat \<Rightarrow> bool) \<Rightarrow> InflationLayer \<Rightarrow> Costmap2D \<Rightarrow> CellData list list \<Rightarrow> bool" where
  "waiting_ok Q il m bins \<longleftrightarrow> length bins = length (il_inflation_cells il) \<and>
     (\<forall>k < length bins. \<forall>c \<in> set (bins ! k). cell_ok Q il m c \<and> cell_level il c = k)"

text \<open>The new cost of a visited cell comes from an obstacle at most \<open>b\<close> cells away.\<close>

definition explained :: "(nat \<Rightarrow> nat \<Rightarrow> bool) \<Rightarrow> InflationLayer \<Rightarrow> window \<Rightarrow> Costmap2D \<Rightarrow> real \<Rightarrow> nat \<Rightarrow> nat \<Rightarrow> uchar \<Rightarrow> bool" where
  "explained Q il win m b x y cost \<longleftrightarrow> (\<exists>sx sy. in_map m sx sy \<and> Q sx sy \<and> cell_dist x y sx sy \<le> b \<and>
     cost = (if in_window win x y then inflated_cost il (getCost m x y) (computeCost il (cell_dist x y sx sy)) else getCost m x y))"

definition inflating :: "(nat \<Rightarrow> nat \<Rightarrow> bool) \<Rightarrow> InflationLayer \<Rightarrow> window \<Rightarrow> Costmap2D \<Rightarrow> real \<Rightarrow> Costmap2D \<times> bool list \<times> CellData list list \<Rightarrow> bool" where
  "inflating Q il win m0 b st \<longleftrightarrow> (case st of (m, seen, bins) \<Rightarrow>
     m = m0\<lparr>cm_costmap := cm_costmap m\<rparr> \<and> length (cm_costmap m) = length (cm_costmap m0) \<and> length seen = length (cm_costmap m0) \<and>
     waiting_ok Q il m0 bins \<and>
     (\<forall>x y. in_map m0 x y \<longrightarrow>
        (if seen ! getIndex m0 x y then explained Q il win m0 b x y (getCost m x y) else getCost m x y = getCost m0 x y)))"

text \<open>A neighbour that was handed to \<open>enqueue\<close> waits, unless it was seen or is too far away.\<close>

lemma append_bin: "k < length bins \<Longrightarrow> prefix (bins ! k) (bins[d := bins ! d @ xs] ! k)"
  by (cases "d = k") auto

lemma enqueue_keeps: "k < length bins \<Longrightarrow> prefix (bins ! k) (enqueue il index mx my sx sy seen bins ! k)"
  by (cases "seen ! index"; cases "real (il_cell_inflation_radius il) < distanceLookup il mx my sx sy")
    (simp_all only: enqueue_def Let_def if_True if_False prefix_order.refl append_bin)

lemma enqueue_ok:
  assumes "caches_ok il" and "waiting_ok Q il m bins" and "in_map m mx my" and "in_map m sx sy" and "Q sx sy"
    and "absdiff mx sx < il_cell_inflation_radius il + 2" and "absdiff my sy < il_cell_inflation_radius il + 2"
  shows "waiting_ok Q il m (enqueue il index mx my sx sy seen bins)"
    and "cell_dist mx my sx sy \<le> real (il_cell_inflation_radius il) \<Longrightarrow> \<not> seen ! index \<Longrightarrow>
      \<lparr>cd_x = mx, cd_y = my, cd_src_x = sx, cd_src_y = sy\<rparr> \<in>
        set (enqueue il index mx my sx sy seen bins ! cell_level il \<lparr>cd_x = mx, cd_y = my, cd_src_x = sx, cd_src_y = sy\<rparr>)"
proof -
  let ?c = "\<lparr>cd_x = mx, cd_y = my, cd_src_x = sx, cd_src_y = sy\<rparr>"
  have dist: "distanceLookup il mx my sx sy = cell_dist mx my sx sy" by (rule lookups(1) [OF assms(1,6,7)])
  have enq: "enqueue il index mx my sx sy seen bins =
      (if seen ! index \<or> real (il_cell_inflation_radius il) < cell_dist mx my sx sy then bins
       else bins[cell_level il ?c := bins ! cell_level il ?c @ [?c]])"
    by (simp add: enqueue_def dist cell_level_def Let_def)
  have len: "length bins = length (il_inflation_cells il)" using assms(2) by (simp add: waiting_ok_def)
  have range: "cell_level il ?c < length bins" if "cell_dist mx my sx sy \<le> real (il_cell_inflation_radius il)"
    using level_in_range(1) [OF assms(1), of ?c] that len by simp
  show "waiting_ok Q il m (enqueue il index mx my sx sy seen bins)"
    using assms(2-5) range unfolding enq by (auto simp: waiting_ok_def cell_ok_def nth_list_update not_less)
  show "?c \<in> set (enqueue il index mx my sx sy seen bins ! cell_level il ?c)"
    if "cell_dist mx my sx sy \<le> real (il_cell_inflation_radius il)" "\<not> seen ! index"
    using that range unfolding enq by simp
qed

text \<open>The neighbours of a cell, in the order in which they are handed over.\<close>

definition neighbours :: "Costmap2D \<Rightarrow> nat \<Rightarrow> nat \<Rightarrow> (nat \<times> nat) list" where
  "neighbours m x y = filter (\<lambda>(x', y'). in_map m x' y')
     ((if 0 < x then [(x - 1, y)] else []) @ (if 0 < y then [(x, y - 1)] else []) @ [(x + 1, y), (x, y + 1)])"

lemma enqueue_neighbours_fold:
  assumes "wf_costmap m" and "in_map m (cd_x c) (cd_y c)"
  shows "enqueue_neighbours il (cm_size_x m) (cm_size_y m) (getIndex m (cd_x c) (cd_y c)) c seen bins =
    fold (\<lambda>(x, y). enqueue il (getIndex m x y) x y (cd_src_x c) (cd_src_y c) seen) (neighbours m (cd_x c) (cd_y c)) bins"
proof -
  let ?x = "cd_x c" and ?y = "cd_y c"
  have i: "getIndex m ?x ?y = ?y * cm_size_x m + ?x" by (rule getIndex_in_map(1) [OF assms])
  have "getIndex m (?x - 1) ?y = getIndex m ?x ?y - 1" if "0 < ?x"
    using getIndex_in_map(1) [OF assms(1), of "?x - 1" ?y] assms(2) that i by auto
  moreover have "getIndex m ?x (?y - 1) = getIndex m ?x ?y - cm_size_x m" if "0 < ?y"
    using getIndex_in_map(1) [OF assms(1), of ?x "?y - 1"] assms(2) that i by (cases ?y) auto
  moreover have "getIndex m (?x + 1) ?y = getIndex m ?x ?y + 1" if "?x < cm_size_x m - 1"
    using getIndex_in_map(1) [OF assms(1), of "?x + 1" ?y] assms(2) that i by auto
  moreover have "getIndex m ?x (?y + 1) = getIndex m ?x ?y + cm_size_x m" if "?y < cm_size_y m - 1"
    using getIndex_in_map(1) [OF assms(1), of ?x "?y + 1"] assms(2) that i by auto
  moreover have "in_map m (?x - 1) ?y" "in_map m ?x (?y - 1)" "in_map m (?x + 1) ?y \<longleftrightarrow> ?x < cm_size_x m - 1"
    "in_map m ?x (?y + 1) \<longleftrightarrow> ?y < cm_size_y m - 1"
    using assms(2) by linarith+
  ultimately show ?thesis
    unfolding enqueue_neighbours_def neighbours_def Let_def
    by (cases "0 < ?x"; cases "0 < ?y"; cases "?x < cm_size_x m - 1"; cases "?y < cm_size_y m - 1")
      (simp_all only: if_True if_False append_Nil append_Cons filter.simps prod.case fold_simps simp_thms)
qed

lemma length_enqueue [simp]: "length (enqueue il index mx my sx sy seen bins) = length bins"
  by (simp add: enqueue_def Let_def)

lemma neighbours_close:
  assumes "(x', y') \<in> set (neighbours m x y)"
  shows "in_map m x' y'" and "absdiff x' sx \<le> absdiff x sx + 1" and "absdiff y' sy \<le> absdiff y sy + 1"
  using assms by (auto simp: neighbours_def absdiff_def split: if_splits)

lemma enqueue_fold:
  assumes "caches_ok il" and "waiting_ok Q il m bins" and "in_map m sx sy" and "Q sx sy"
    and "\<forall>(x, y) \<in> set ns. in_map m x y \<and> absdiff x sx < il_cell_inflation_radius il + 2 \<and> absdiff y sy < il_cell_inflation_radius il + 2"
    and "bins' = fold (\<lambda>(x, y). enqueue il (getIndex m x y) x y sx sy seen) ns bins"
  shows "waiting_ok Q il m bins' \<and> (\<forall>k < length bins. prefix (bins ! k) (bins' ! k)) \<and>
    (\<forall>x y. (x, y) \<in> set ns \<longrightarrow> cell_dist x y sx sy \<le> real (il_cell_inflation_radius il) \<longrightarrow> \<not> seen ! getIndex m x y \<longrightarrow>
      \<lparr>cd_x = x, cd_y = y, cd_src_x = sx, cd_src_y = sy\<rparr> \<in> set (bins' ! cell_level il \<lparr>cd_x = x, cd_y = y, cd_src_x = sx, cd_src_y = sy\<rparr>))"
  using assms(2,5,6)
proof (induction ns arbitrary: bins)
  case (Cons n ns)
  obtain nx ny where n: "n = (nx, ny)" by (cases n)
  let ?bins = "enqueue il (getIndex m nx ny) nx ny sx sy seen bins"
  have near: "in_map m nx ny" "absdiff nx sx < il_cell_inflation_radius il + 2" "absdiff ny sy < il_cell_inflation_radius il + 2"
    using Cons.prems(2) n by auto
  note new = enqueue_ok [OF assms(1) Cons.prems(1) near(1) assms(3,4) near(2,3), where index = "getIndex m nx ny" and seen = seen]
  have IH: "waiting_ok Q il m bins'" "k < length ?bins \<Longrightarrow> prefix (?bins ! k) (bins' ! k)"
    "(x, y) \<in> set ns \<Longrightarrow> cell_dist x y sx sy \<le> real (il_cell_inflation_radius il) \<Longrightarrow> \<not> seen ! getIndex m x y \<Longrightarrow>
      \<lparr>cd_x = x, cd_y = y, cd_src_x = sx, cd_src_y = sy\<rparr> \<in> set (bins' ! cell_level il \<lparr>cd_x = x, cd_y = y, cd_src_x = sx, cd_src_y = sy\<rparr>)"
    for k x y
    using Cons.IH [OF new(1)] Cons.prems(2,3) n by auto
  have keeps: "prefix (bins ! k) (bins' ! k)" if "k < length bins" for k
    using enqueue_keeps [OF that, of il "getIndex m nx ny" nx ny sx sy seen] IH(2) [of k] that by (simp add: prefix_order.trans)
  have waits: "\<lparr>cd_x = x, cd_y = y, cd_src_x = sx, cd_src_y = sy\<rparr> \<in> set (bins' ! cell_level il \<lparr>cd_x = x, cd_y = y, cd_src_x = sx, cd_src_y = sy\<rparr>)"
    if "(x, y) \<in> set (n # ns)" "cell_dist x y sx sy \<le> real (il_cell_inflation_radius il)" "\<not> seen ! getIndex m x y" for x y
  proof (cases "(x, y) \<in> set ns")
    case True
    with IH(3) that show ?thesis by blast
  next
    case False
    let ?c = "\<lparr>cd_x = x, cd_y = y, cd_src_x = sx, cd_src_y = sy\<rparr>"
    from False that n have "x = nx" "y = ny" by auto
    then have "?c \<in> set (?bins ! cell_level il ?c)" using new(2) that by simp
    moreover have "cell_level il ?c < length ?bins"
      using level_in_range(1) [OF assms(1), of ?c] that(2) new(1) by (simp add: waiting_ok_def)
    ultimately show ?thesis using set_mono_prefix [OF IH(2)] by blast
  qed
  show ?case using IH(1) keeps waits by blast
qed auto

text \<open>One visit.\<close>

lemma inflatingD:
  assumes "inflating Q il win m0 b (m, seen, bins)"
  shows "m = m0\<lparr>cm_costmap := cm_costmap m\<rparr>" "length (cm_costmap m) = length (cm_costmap m0)" "length seen = length (cm_costmap m0)"
    "waiting_ok Q il m0 bins"
    "in_map m0 x y \<Longrightarrow> if seen ! getIndex m0 x y then explained Q il win m0 b x y (getCost m x y) else getCost m x y = getCost m0 x y"
  using assms by (auto simp: inflating_def)

lemma inflating_index:
  assumes "inflating Q il win m0 b (m, seen, bins)"
  shows "getIndex m = getIndex m0" "cm_size_x m = cm_size_x m0" "cm_size_y m = cm_size_y m0" "getCost m x y = cm_costmap m ! getIndex m0 x y"
proof -
  note same = inflatingD(1) [OF assms]
  have size: "cm_size_x m = cm_size_x m0" "cm_size_y m = cm_size_y m0"
    using arg_cong [OF same, of cm_size_x] arg_cong [OF same, of cm_size_y] by simp_all
  then show "getIndex m = getIndex m0" by (simp add: getIndex_def fun_eq_iff)
  then show "getCost m x y = cm_costmap m ! getIndex m0 x y" by (simp add: getCost_def)
  show "cm_size_x m = cm_size_x m0" "cm_size_y m = cm_size_y m0" by (rule size)+
qed

lemma visit_seen:
  assumes "inflating Q il win m0 b (m, seen, bins)" and "seen ! getIndex m0 (cd_x c) (cd_y c)"
  shows "visit_cell il win c (m, seen, bins) = (m, seen, bins)"
  using assms(2) by (simp add: visit_cell_def inflating_index(1) [OF assms(1)])

lemma visit_new:
  assumes "wf_costmap m0" and "caches_ok il" and "inflating Q il win m0 b (m, seen, bins)" and "cell_ok Q il m0 c"
    and "\<not> seen ! getIndex m0 (cd_x c) (cd_y c)" and "visit_cell il win c (m, seen, bins) = (m', seen', bins')"
  shows "seen' = seen[getIndex m0 (cd_x c) (cd_y c) := True]"
    and "m' = (if in_window win (cd_x c) (cd_y c) then m\<lparr>cm_costmap := (cm_costmap m)[getIndex m0 (cd_x c) (cd_y c) :=
      inflated_cost il (getCost m0 (cd_x c) (cd_y c)) (computeCost il (src_dist c))]\<rparr> else m)"
    and "waiting_ok Q il m0 bins' \<and> (\<forall>k < length bins. prefix (bins ! k) (bins' ! k)) \<and>
      (\<forall>x y. (x, y) \<in> set (neighbours m0 (cd_x c) (cd_y c)) \<longrightarrow> cell_dist x y (cd_src_x c) (cd_src_y c) \<le> real (il_cell_inflation_radius il) \<longrightarrow>
        \<not> seen' ! getIndex m0 x y \<longrightarrow> \<lparr>cd_x = x, cd_y = y, cd_src_x = cd_src_x c, cd_src_y = cd_src_y c\<rparr> \<in>
          set (bins' ! cell_level il \<lparr>cd_x = x, cd_y = y, cd_src_x = cd_src_x c, cd_src_y = cd_src_y c\<rparr>))"
proof -
  note inv = inflatingD [OF assms(3)] and index = inflating_index [OF assms(3)]
  let ?x = "cd_x c" and ?y = "cd_y c" and ?sx = "cd_src_x c" and ?sy = "cd_src_y c"
  let ?R = "il_cell_inflation_radius il" and ?i = "getIndex m0 ?x ?y"
  have c: "in_map m0 ?x ?y" "in_map m0 ?sx ?sy" "Q ?sx ?sy" "src_dist c \<le> real ?R" using assms(4) by (simp_all add: cell_ok_def)
  have i: "?i < length seen" using getIndex_in_map(2) [OF assms(1) c(1)] inv(3) by simp
  have near: "absdiff ?x ?sx \<le> ?R" "absdiff ?y ?sy \<le> ?R" using absdiff_le_dist(1) [of ?x ?sx ?y ?sy] absdiff_le_dist(2) [of ?y ?sy ?x ?sx] c(4) by linarith+
  have cost: "costLookup il ?x ?y ?sx ?sy = computeCost il (src_dist c)" by (rule lookups(2) [OF assms(2)]) (use near in simp_all)
  have old: "cm_costmap m ! ?i = getCost m0 ?x ?y" using inv(5) [OF c(1)] assms(5) index(4) by simp
  from assms(6) i assms(5) have v: "seen' = seen[?i := True]"
    "m' = (if in_window win ?x ?y then m\<lparr>cm_costmap := (cm_costmap m)[?i := inflated_cost il (getCost m0 ?x ?y) (computeCost il (src_dist c))]\<rparr> else m)"
    "bins' = enqueue_neighbours il (cm_size_x m0) (cm_size_y m0) ?i c seen' bins"
    by (auto simp: visit_cell_def index(1-3) cost old Let_def)
  then show "seen' = seen[?i := True]"
    "m' = (if in_window win ?x ?y then m\<lparr>cm_costmap := (cm_costmap m)[?i := inflated_cost il (getCost m0 ?x ?y) (computeCost il (src_dist c))]\<rparr> else m)"
    by simp_all
  have "\<forall>(x, y) \<in> set (neighbours m0 ?x ?y). in_map m0 x y \<and> absdiff x ?sx < ?R + 2 \<and> absdiff y ?sy < ?R + 2"
  proof clarify
    fix x y assume n: "(x, y) \<in> set (neighbours m0 ?x ?y)"
    show "in_map m0 x y \<and> absdiff x ?sx < ?R + 2 \<and> absdiff y ?sy < ?R + 2"
      using neighbours_close(1) [OF n] neighbours_close(2) [OF n, of ?sx] neighbours_close(3) [OF n, of ?sy] near by linarith
  qed
  from enqueue_fold [OF assms(2) inv(4) c(2,3) this v(3) [unfolded enqueue_neighbours_fold [OF assms(1) c(1)]]]
  show "waiting_ok Q il m0 bins' \<and> (\<forall>k < length bins. prefix (bins ! k) (bins' ! k)) \<and>
      (\<forall>x y. (x, y) \<in> set (neighbours m0 ?x ?y) \<longrightarrow> cell_dist x y ?sx ?sy \<le> real ?R \<longrightarrow>
        \<not> seen' ! getIndex m0 x y \<longrightarrow> \<lparr>cd_x = x, cd_y = y, cd_src_x = ?sx, cd_src_y = ?sy\<rparr> \<in>
          set (bins' ! cell_level il \<lparr>cd_x = x, cd_y = y, cd_src_x = ?sx, cd_src_y = ?sy\<rparr>))" .
qed

lemma index_inj:
  assumes "wf_costmap m" and "in_map m x y" and "in_map m x' y'"
  shows "getIndex m x y = getIndex m x' y' \<longleftrightarrow> x = x' \<and> y = y'"
  using cell_index_inj [of x "cm_size_x m" x' y y'] assms by (simp add: getIndex_in_map)

lemma visit_cell_inflating:
  assumes "wf_costmap m0" and "caches_ok il" and "inflating Q il win m0 b (m, seen, bins)" and "cell_ok Q il m0 c" and "src_dist c \<le> b"
    and "visit_cell il win c (m, seen, bins) = (m', seen', bins')"
  shows "inflating Q il win m0 b (m', seen', bins')"
proof (cases "seen ! getIndex m0 (cd_x c) (cd_y c)")
  case True
  then show ?thesis using visit_seen [OF assms(3) True] assms(3,6) by simp
next
  case False
  note new = visit_new [OF assms(1-4) False assms(6)] and inv = inflatingD [OF assms(3)] and index = inflating_index [OF assms(3)]
  let ?x = "cd_x c" and ?y = "cd_y c"
  let ?i = "getIndex m0 ?x ?y" and ?cost = "inflated_cost il (getCost m0 (cd_x c) (cd_y c)) (computeCost il (src_dist c))"
  have c: "in_map m0 ?x ?y" "in_map m0 (cd_src_x c) (cd_src_y c)" "Q (cd_src_x c) (cd_src_y c)" using assms(4) by (simp_all add: cell_ok_def)
  have i: "?i < length seen" "?i < length (cm_costmap m)" using getIndex_in_map(2) [OF assms(1) c(1)] inv(2,3) by simp_all
  obtain costs where m: "m = m0\<lparr>cm_costmap := costs\<rparr>" using inv(1) by blast
  have same: "m' = m0\<lparr>cm_costmap := cm_costmap m'\<rparr>" and len: "length (cm_costmap m') = length (cm_costmap m0)"
    using inv(2) by (simp_all add: new(2) m)
  have "getIndex m' = getIndex m0" by (simp add: getIndex_def fun_eq_iff new(2) m)
  then have cost': "getCost m' x y = cm_costmap m' ! getIndex m0 x y" for x y by (simp add: getCost_def)
  have costs: "cm_costmap m' = (if in_window win ?x ?y then (cm_costmap m)[?i := ?cost] else cm_costmap m)" by (simp add: new(2))
  have cells: "if seen' ! getIndex m0 x y then explained Q il win m0 b x y (getCost m' x y) else getCost m' x y = getCost m0 x y"
    if xy: "in_map m0 x y" for x y
  proof (cases "x = ?x \<and> y = ?y")
    case True
    have "getCost m' ?x ?y = (if in_window win ?x ?y then ?cost else getCost m0 ?x ?y)"
      using i(2) inv(5) [OF c(1)] False unfolding cost' costs index(4) by simp
    then have "explained Q il win m0 b ?x ?y (getCost m' ?x ?y)" using c assms(5) unfolding explained_def by auto
    with True i(1) show ?thesis by (simp add: new(1))
  next
    case other: False
    then have "getIndex m0 x y \<noteq> ?i" using index_inj [OF assms(1) xy c(1)] by simp
    then have "seen' ! getIndex m0 x y = seen ! getIndex m0 x y" "getCost m' x y = getCost m x y"
      unfolding cost' costs index(4) new(1) by simp_all
    with inv(5) [OF xy] show ?thesis by simp
  qed
  show ?thesis using same len cells new(1,3) inv(3) unfolding inflating_def by auto
qed

lemma visit_cell_frozen:
  assumes "wf_costmap m0" and "caches_ok il" and "inflating Q il win m0 b (m, seen, bins)" and "cell_ok Q il m0 c"
    and "visit_cell il win c (m, seen, bins) = (m', seen', bins')"
  shows "seen ! i \<Longrightarrow> seen' ! i \<and> cm_costmap m' ! i = cm_costmap m ! i"
    and "seen' ! getIndex m0 (cd_x c) (cd_y c)" and "k < length bins \<Longrightarrow> prefix (bins ! k) (bins' ! k)"
proof -
  let ?j = "getIndex m0 (cd_x c) (cd_y c)"
  have "?j < length seen"
    using getIndex_in_map(2) [OF assms(1), of "cd_x c" "cd_y c"] assms(4) inflatingD(3) [OF assms(3)] by (simp add: cell_ok_def)
  then have "(seen ! i \<longrightarrow> seen' ! i \<and> cm_costmap m' ! i = cm_costmap m ! i) \<and> seen' ! ?j \<and> (k < length bins \<longrightarrow> prefix (bins ! k) (bins' ! k))"
  proof (cases "seen ! ?j")
    case True
    then show ?thesis using visit_seen [OF assms(3) True] assms(5) by auto
  next
    case False
    note new = visit_new [OF assms(1-4) False assms(5)]
    have "seen ! i \<Longrightarrow> i \<noteq> ?j" using False by auto
    then show ?thesis using new(3) \<open>?j < length seen\<close> by (auto simp: new(1,2))
  qed
  then show "seen ! i \<Longrightarrow> seen' ! i \<and> cm_costmap m' ! i = cm_costmap m ! i" "seen' ! ?j" "k < length bins \<Longrightarrow> prefix (bins ! k) (bins' ! k)"
    by blast+
qed

text \<open>A property that every visit keeps holds when a list is finished.\<close>

lemma visit_bin_keeps:
  assumes "P st" and "\<And>m seen bins c. P (m, seen, bins) \<Longrightarrow> c \<in> set (bins ! k) \<Longrightarrow> P (visit_cell il win c (m, seen, bins))"
  shows "P (visit_bin il win k i st)"
  using assms
proof (induction il win k i st rule: visit_bin.induct)
  case (1 il win k i m seen bins)
  show ?case
  proof (cases "i < length (bins ! k)")
    case True
    then have "P (visit_cell il win (bins ! k ! i) (m, seen, bins))" using 1(2,3) by simp
    then have "P (visit_bin il win k (i + 1) (visit_cell il win (bins ! k ! i) (m, seen, bins)))" by (rule 1(1) [OF True]) (rule 1(3))
    with True show ?thesis by (subst visit_bin.simps) simp
  next
    case False
    then show ?thesis using 1(2) by (subst visit_bin.simps) simp
  qed
qed

lemma waiting_cell:
  assumes "inflating Q il win m0 b (m, seen, bins)" and "k < length bins" and "c \<in> set (bins ! k)"
  shows "cell_ok Q il m0 c" and "cell_level il c = k"
  using inflatingD(4) [OF assms(1)] assms(2,3) by (auto simp: waiting_ok_def)

lemma inflating_length: "inflating Q il win m0 b (m, seen, bins) \<Longrightarrow> length bins = length (il_inflation_cells il)"
  using inflatingD(4) by (simp add: waiting_ok_def)

lemma visit_bin_all:
  assumes "wf_costmap m0" and "caches_ok il" and "k < length (il_inflation_cells il)"
    and "\<And>c. cell_ok Q il m0 c \<Longrightarrow> cell_level il c = k \<Longrightarrow> src_dist c \<le> b"
    and "inflating Q il win m0 b (m, seen, bins)" and "\<forall>j < i. seen ! getIndex m0 (cd_x (bins ! k ! j)) (cd_y (bins ! k ! j))"
    and "visit_bin il win k i (m, seen, bins) = (m', seen', bins')"
  shows "(\<forall>c \<in> set (bins' ! k). seen' ! getIndex m0 (cd_x c) (cd_y c)) \<and> prefix (bins ! k) (bins' ! k)"
  using assms
proof (induction il win k i "(m, seen, bins)" arbitrary: m seen bins rule: visit_bin.induct)
  case (1 il win k i m seen bins)
  note prems = "1.prems"
  show ?case
  proof (cases "i < length (bins ! k)")
    case True
    let ?c = "bins ! k ! i"
    have len: "k < length bins" using inflating_length [OF prems(5)] prems(3) by simp
    note c = waiting_cell [OF prems(5) len nth_mem [OF True]]
    obtain m1 seen1 bins1 where v: "visit_cell il win ?c (m, seen, bins) = (m1, seen1, bins1)" by (metis prod.collapse)
    note kept = visit_cell_inflating [OF prems(1,2,5) c(1) prems(4) [OF c] v] and frozen = visit_cell_frozen [OF prems(1,2,5) c(1) v]
    have pre: "prefix (bins ! k) (bins1 ! k)" using frozen(3) len by blast
    then have "bins1 ! k ! j = bins ! k ! j" if "j \<le> i" for j using that True by (auto simp: prefix_def nth_append)
    then have "\<forall>j < i + 1. seen1 ! getIndex m0 (cd_x (bins1 ! k ! j)) (cd_y (bins1 ! k ! j))"
      using prems(6) frozen(1,2) by (auto simp: less_Suc_eq)
    moreover have "visit_bin il win k (i + 1) (m1, seen1, bins1) = (m', seen', bins')"
      using prems(7) True v by (simp add: visit_bin.simps [of il win k i])
    ultimately show ?thesis using "1.hyps" [OF True v prems(1-4) kept] pre prefix_order.trans by blast
  next
    case False
    then have "m' = m" "seen' = seen" "bins' = bins" using prems(7) by (simp_all add: visit_bin.simps [of il win k i])
    with False prems(6) show ?thesis by (auto simp: in_set_conv_nth)
  qed
qed

lemma inflating_clear: "inflating Q il win m0 b (m, seen, bins) \<Longrightarrow> inflating Q il win m0 b (m, seen, bins[k := []])"
  by (cases "k < length bins") (auto simp: inflating_def waiting_ok_def nth_list_update)

lemma inflating_mono: "inflating Q il win m0 b st \<Longrightarrow> b \<le> b' \<Longrightarrow> inflating Q il win m0 b' st"
  by (auto simp: inflating_def explained_def split: if_splits) (meson order_trans)+

text \<open>A finished list: nothing that was seen changes, and every cell that waited in it is seen.\<close>

lemma finish_bin_facts:
  assumes "wf_costmap m0" and "caches_ok il" and "k < length (il_inflation_cells il)"
    and bound: "\<And>c. cell_ok Q il m0 c \<Longrightarrow> cell_level il c = k \<Longrightarrow> src_dist c \<le> b"
    and inv: "inflating Q il win m0 b (m, seen, bins)" and "finish_bin il win k (m, seen, bins) = (m', seen', bins')"
  shows "inflating Q il win m0 b (m', seen', bins')"
    and "seen ! i \<Longrightarrow> seen' ! i \<and> cm_costmap m' ! i = cm_costmap m ! i"
    and "c \<in> set (bins ! k) \<Longrightarrow> seen' ! getIndex m0 (cd_x c) (cd_y c)"
proof -
  obtain bins1 where run: "visit_bin il win k 0 (m, seen, bins) = (m', seen', bins1)" "bins' = bins1[k := []]"
    using assms(6) by (auto simp: finish_bin_def split: prod.splits)
  have step: "inflating Q il win m0 b (visit_cell il win c (m1, seen1, bins1)) \<and>
      (seen ! i \<longrightarrow> fst (snd (visit_cell il win c (m1, seen1, bins1))) ! i \<and> cm_costmap (fst (visit_cell il win c (m1, seen1, bins1))) ! i = cm_costmap m ! i)"
    if "inflating Q il win m0 b (m1, seen1, bins1) \<and> (seen ! i \<longrightarrow> seen1 ! i \<and> cm_costmap m1 ! i = cm_costmap m ! i)" and c: "c \<in> set (bins1 ! k)"
    for m1 seen1 bins1 c i
  proof -
    obtain m2 seen2 bins2 where v: "visit_cell il win c (m1, seen1, bins1) = (m2, seen2, bins2)" by (metis prod.collapse)
    have "k < length bins1" using that(1) inflating_length assms(3) by fastforce
    note ok = waiting_cell [OF conjunct1 [OF that(1)] this c]
    show ?thesis
      using visit_cell_inflating [OF assms(1,2) conjunct1 [OF that(1)] ok(1) bound [OF ok] v]
        visit_cell_frozen(1) [OF assms(1,2) conjunct1 [OF that(1)] ok(1) v, of i] that(1) v by auto
  qed
  have "inflating Q il win m0 b (visit_bin il win k 0 (m, seen, bins)) \<and> (seen ! i \<longrightarrow> fst (snd (visit_bin il win k 0 (m, seen, bins))) ! i \<and>
      cm_costmap (fst (visit_bin il win k 0 (m, seen, bins))) ! i = cm_costmap m ! i)" for i
  proof (rule visit_bin_keeps [where P = "\<lambda>st. inflating Q il win m0 b st \<and>
      (seen ! i \<longrightarrow> fst (snd st) ! i \<and> cm_costmap (fst st) ! i = cm_costmap m ! i)"], goal_cases)
    case 1
    show ?case using inv by simp
  next
    case (2 m1 seen1 bins1 c)
    then show ?case by (intro step) simp_all
  qed
  then show "inflating Q il win m0 b (m', seen', bins')" "seen ! i \<Longrightarrow> seen' ! i \<and> cm_costmap m' ! i = cm_costmap m ! i"
    unfolding run by (auto intro: inflating_clear)
  have "(\<forall>c \<in> set (bins1 ! k). seen' ! getIndex m0 (cd_x c) (cd_y c)) \<and> prefix (bins ! k) (bins1 ! k)"
    by (rule visit_bin_all [OF assms(1-3) bound inv _ run(1)]) auto
  then show "c \<in> set (bins ! k) \<Longrightarrow> seen' ! getIndex m0 (cd_x c) (cd_y c)" using set_mono_prefix by blast
qed

section \<open>The cells beside an obstacle\<close>

definition beside_ok :: "Costmap2D \<Rightarrow> Costmap2D \<times> bool list \<times> CellData list list \<Rightarrow> bool" where
  "beside_ok m0 st \<longleftrightarrow> (case st of (m, seen, bins) \<Rightarrow> \<forall>x y x' y'. in_map m0 x y \<longrightarrow> seen ! getIndex m0 x y \<longrightarrow>
     (x', y') \<in> set (neighbours m0 x y) \<longrightarrow> seen ! getIndex m0 x' y' \<or> (\<exists>c \<in> set (bins ! 1). cd_x c = x' \<and> cd_y c = y'))"

lemma cell_dist_0: "cell_dist x y sx sy = 0 \<longleftrightarrow> x = sx \<and> y = sy"
  by (auto simp: cell_dist_def absdiff_def split: if_splits)

lemma cell_dist_neighbour: "(x', y') \<in> set (neighbours m x y) \<Longrightarrow> cell_dist x' y' x y = 1"
  by (auto simp: neighbours_def cell_dist_def absdiff_def split: if_splits)

lemma visit_cell_beside:
  assumes "wf_costmap m0" and "caches_ok il" and "1 \<le> il_cell_inflation_radius il" and "1 < length bins"
    and "inflating Q il win m0 b (m, seen, bins)" and "cell_ok Q il m0 c" and "cell_level il c = 0" and "beside_ok m0 (m, seen, bins)"
    and "visit_cell il win c (m, seen, bins) = (m', seen', bins')"
  shows "beside_ok m0 (m', seen', bins')"
proof (cases "seen ! getIndex m0 (cd_x c) (cd_y c)")
  case True
  then show ?thesis using visit_seen [OF assms(5) True] assms(8,9) by simp
next
  case False
  note new = visit_new [OF assms(1,2,5,6) False assms(9)] and frozen = visit_cell_frozen [OF assms(1,2,5,6,9)]
  have "src_dist c = 0" using level_in_range(2) [OF assms(2), of c] assms(6,7) by (simp add: cell_ok_def)
  then have src: "cd_src_x c = cd_x c" "cd_src_y c = cd_y c" by (auto simp: cell_dist_0)
  have pre: "set (bins ! 1) \<subseteq> set (bins' ! 1)" using frozen(3) [OF assms(4)] set_mono_prefix by blast
  have cell: "in_map m0 (cd_x c) (cd_y c)" using assms(6) by (simp add: cell_ok_def)
  have "seen' ! getIndex m0 x' y' \<or> (\<exists>c \<in> set (bins' ! 1). cd_x c = x' \<and> cd_y c = y')"
    if xy: "in_map m0 x y" "seen' ! getIndex m0 x y" "(x', y') \<in> set (neighbours m0 x y)" for x y x' y'
  proof (cases "x = cd_x c \<and> y = cd_y c")
    case True
    let ?n = "\<lparr>cd_x = x', cd_y = y', cd_src_x = cd_src_x c, cd_src_y = cd_src_y c\<rparr>"
    have dist: "cell_dist x' y' (cd_src_x c) (cd_src_y c) = 1" using cell_dist_neighbour [OF xy(3)] True src by simp
    then have near: "src_dist ?n \<le> real (il_cell_inflation_radius il)" using assms(3) by simp
    have "cell_level il ?n = 1" using level_in_range(2,3) [OF assms(2) near] dist by simp
    moreover have "\<not> seen' ! getIndex m0 x' y' \<Longrightarrow> ?n \<in> set (bins' ! cell_level il ?n)"
      using new(3) xy(3) True near by simp
    ultimately show ?thesis by force
  next
    case other: False
    then have "getIndex m0 x y \<noteq> getIndex m0 (cd_x c) (cd_y c)" using index_inj [OF assms(1) xy(1) cell] by simp
    then have "seen ! getIndex m0 x y" using xy(2) by (simp add: new(1))
    then have "seen ! getIndex m0 x' y' \<or> (\<exists>c \<in> set (bins ! 1). cd_x c = x' \<and> cd_y c = y')"
      using assms(8) xy(1,3) unfolding beside_ok_def by blast
    then show ?thesis using frozen(1) pre by blast
  qed
  then show ?thesis unfolding beside_ok_def by simp
qed

section \<open>Costs\<close>

lemma uchar_known: "(c :: uchar) \<noteq> 255 \<longleftrightarrow> c \<le> 254"
proof -
  have "unat c < 2 ^ LENGTH(8)" by (rule unsigned_less)
  then show ?thesis by (auto simp: word_le_nat_alt word_unat_eq_iff)
qed

lemma computeCost_le:
  assumes "0 \<le> il_cost_scaling_factor il" and "0 \<le> d"
  shows "computeCost il d \<le> 254"
proof (cases "d = 0 \<or> d * il_resolution il \<le> il_inscribed_radius il")
  case False
  define factor where "factor = exp (- 1 * il_cost_scaling_factor il * (d * il_resolution il - il_inscribed_radius il))"
  have "factor \<le> 1" using assms(1) False by (simp add: factor_def)
  moreover have "0 < factor" by (simp add: factor_def)
  ultimately have "0 \<le> \<lfloor>252 * factor\<rfloor>" "\<lfloor>252 * factor\<rfloor> \<le> 252" by linarith+
  then have "uint (word_of_int \<lfloor>252 * factor\<rfloor> :: uchar) \<le> 252" by (simp add: uint_word_of_int_eq take_bit_int_eq_self)
  moreover have "computeCost il d = word_of_int \<lfloor>252 * factor\<rfloor>" using False by (auto simp: computeCost_def factor_def Let_def)
  ultimately show ?thesis by (simp add: word_le_def)
qed (auto simp: computeCost_def)

lemma inflated_cost_known:
  assumes "old \<noteq> NO_INFORMATION" and "cost \<le> 254"
  shows "old \<le> inflated_cost il old cost" and "cost \<le> inflated_cost il old cost" and "inflated_cost il old cost \<noteq> NO_INFORMATION"
proof -
  have "inflated_cost il old cost = max old cost" using assms(1) by (simp add: inflated_cost_def)
  moreover have "old \<le> 254" using assms(1) uchar_known by blast
  ultimately show "old \<le> inflated_cost il old cost" "cost \<le> inflated_cost il old cost" "inflated_cost il old cost \<noteq> NO_INFORMATION"
    using assms(2) unfolding uchar_known by simp_all
qed

section \<open>One update\<close>

lemma obstacle_cells_iff:
  "c \<in> set (obstacle_cells il m (min_i, min_j, max_i, max_j)) \<longleftrightarrow>
     c = \<lparr>cd_x = cd_x c, cd_y = cd_y c, cd_src_x = cd_x c, cd_src_y = cd_y c\<rparr> \<and> obstacle il m (cd_x c) (cd_y c) \<and> in_map m (cd_x c) (cd_y c) \<and>
     min_i - int (il_cell_inflation_radius il) \<le> int (cd_x c) \<and> min_j - int (il_cell_inflation_radius il) \<le> int (cd_y c) \<and>
     int (cd_x c) < max_i + int (il_cell_inflation_radius il) \<and> int (cd_y c) < max_j + int (il_cell_inflation_radius il)"
proof -
  have "nat (max 0 a) \<le> x \<longleftrightarrow> a \<le> int x" "x < nat (min (int n) b) \<longleftrightarrow> x < n \<and> int x < b" for a b :: int and x n :: nat
    by linarith+
  then show ?thesis by (auto simp: obstacle_cells_def widen_def Let_def)
qed

lemma inflating_start:
  assumes "wf_costmap m" and "caches_ok il" and "waiting_ok Q il m (il_inflation_cells il)" and "\<And>x y. obstacle il m x y \<Longrightarrow> Q x y" and "0 \<le> b"
    and "bins = (il_inflation_cells il)[0 := il_inflation_cells il ! 0 @ obstacle_cells il m win]"
  shows "inflating Q il win m b (m, replicate (wrap32 (cm_size_x m * cm_size_y m)) False, bins)"
    and "set (obstacle_cells il m win) \<subseteq> set (bins ! 0)"
proof -
  have ne: "0 < length (il_inflation_cells il)" using assms(2) unfolding caches_ok_def Let_def by simp
  then show "set (obstacle_cells il m win) \<subseteq> set (bins ! 0)" by (simp add: assms(6))
  obtain min_i min_j max_i max_j where win: "win = (min_i, min_j, max_i, max_j)" by (cases win)
  have start: "cell_ok Q il m c \<and> cell_level il c = 0" if "c \<in> set (obstacle_cells il m win)" for c
  proof -
    note c = that [unfolded win obstacle_cells_iff]
    then have src: "cd_src_x c = cd_x c" "cd_src_y c = cd_y c" by (metis CellData.select_convs(3,4))+
    then have "src_dist c = 0" by (simp add: cell_dist_0)
    with c src assms(4) show ?thesis using level_in_range(2) [OF assms(2), of c] by (simp add: cell_ok_def)
  qed
  have "waiting_ok Q il m bins"
    unfolding waiting_ok_def
  proof (intro conjI allI impI ballI)
    fix k c assume k: "k < length bins" and "c \<in> set (bins ! k)"
    then have "c \<in> set (il_inflation_cells il ! k) \<or> k = 0 \<and> c \<in> set (obstacle_cells il m win)" by (cases k) (auto simp: assms(6))
    then show "cell_ok Q il m c" "cell_level il c = k" using start assms(3) k by (auto simp: waiting_ok_def assms(6))
  qed (simp add: assms(6))
  moreover have "wrap32 (cm_size_x m * cm_size_y m) = length (cm_costmap m)" using assms(1) by (simp add: wf_costmap_def)
  ultimately show "inflating Q il win m b (m, replicate (wrap32 (cm_size_x m * cm_size_y m)) False, bins)"
    using getIndex_in_map(2) [OF assms(1)] by (auto simp: inflating_def)
qed

lemma finish_bins:
  assumes "wf_costmap m0" and "caches_ok il" and "\<forall>k \<in> set ks. k < length (il_inflation_cells il)"
    and "inflating Q il win m0 (real (il_cell_inflation_radius il)) (m, seen, bins)" and "fold (finish_bin il win) ks (m, seen, bins) = (m', seen', bins')"
  shows "inflating Q il win m0 (real (il_cell_inflation_radius il)) (m', seen', bins') \<and> (seen ! i \<longrightarrow> seen' ! i \<and> cm_costmap m' ! i = cm_costmap m ! i)"
  using assms(3-5)
proof (induction ks arbitrary: m seen bins)
  case (Cons k ks)
  obtain m1 seen1 bins1 where f: "finish_bin il win k (m, seen, bins) = (m1, seen1, bins1)" by (metis prod.collapse)
  have k: "k < length (il_inflation_cells il)" using Cons.prems(1) by simp
  have near: "src_dist c \<le> real (il_cell_inflation_radius il)" if "cell_ok Q il m0 c" for c using that by (simp add: cell_ok_def)
  note facts = finish_bin_facts [OF assms(1,2) k near Cons.prems(2) f]
  with Cons.IH [OF _ facts(1)] Cons.prems(1,3) f show ?case by auto
qed simp

lemma first_bins:
  assumes "wf_costmap m0" and "caches_ok il" and "1 \<le> il_cell_inflation_radius il" and "1 < length bins"
    and "inflating Q il win m0 1 (m0, seen, bins)" and "\<forall>i < length seen. \<not> seen ! i"
    and "c \<in> set (bins ! 0)" and "(x, y) \<in> set (neighbours m0 (cd_x c) (cd_y c))"
    and "finish_bin il win 1 (finish_bin il win 0 (m0, seen, bins)) = (m', seen', bins')"
  shows "inflating Q il win m0 1 (m', seen', bins') \<and> seen' ! getIndex m0 x y"
proof -
  obtain m1 seen1 bins1 where f: "finish_bin il win 0 (m0, seen, bins) = (m1, seen1, bins1)" by (metis prod.collapse)
  have len: "length (il_inflation_cells il) = length bins" using inflating_length [OF assms(5)] by simp
  then have range: "0 < length (il_inflation_cells il)" "1 < length (il_inflation_cells il)" using assms(4) by linarith+
  have near: "src_dist c \<le> 1" if "cell_ok Q il m0 c" "cell_level il c \<le> 1" for c
    using level_in_range(3) [OF assms(2), of c] that by (simp add: cell_ok_def)
  have near0: "src_dist c \<le> 1" if "cell_ok Q il m0 c" "cell_level il c = 0" for c using near that by simp
  have near1: "src_dist c \<le> 1" if "cell_ok Q il m0 c" "cell_level il c = 1" for c using near that by simp
  have stage0: "inflating Q il win m0 1 (m1, seen1, bins1)" "c \<in> set (bins ! 0) \<Longrightarrow> seen1 ! getIndex m0 (cd_x c) (cd_y c)" for c
    using finish_bin_facts [OF assms(1,2) range(1) near0 assms(5) f] by blast+
  have "beside_ok m0 (m0, seen, bins)"
    using assms(6) getIndex_in_map(2) [OF assms(1)] inflatingD(3) [OF assms(5)] unfolding beside_ok_def by simp
  then have "inflating Q il win m0 1 (visit_bin il win 0 0 (m0, seen, bins)) \<and> beside_ok m0 (visit_bin il win 0 0 (m0, seen, bins))"
  proof (rule visit_bin_keeps [where P = "\<lambda>st. inflating Q il win m0 1 st \<and> beside_ok m0 st", OF conjI [OF assms(5)]])
    fix m2 seen2 bins2 c2
    assume P: "inflating Q il win m0 1 (m2, seen2, bins2) \<and> beside_ok m0 (m2, seen2, bins2)" and c2: "c2 \<in> set (bins2 ! 0)"
    obtain m3 seen3 bins3 where v: "visit_cell il win c2 (m2, seen2, bins2) = (m3, seen3, bins3)" by (metis prod.collapse)
    have lens: "0 < length bins2" "1 < length bins2" using inflating_length [OF conjunct1 [OF P]] range by linarith+
    note ok = waiting_cell [OF conjunct1 [OF P] lens(1) c2]
    show "inflating Q il win m0 1 (visit_cell il win c2 (m2, seen2, bins2)) \<and> beside_ok m0 (visit_cell il win c2 (m2, seen2, bins2))"
      using visit_cell_inflating [OF assms(1,2) conjunct1 [OF P] ok(1) near0 [OF ok] v]
        visit_cell_beside [OF assms(1-3) lens(2) conjunct1 [OF P] ok conjunct2 [OF P] v] v by simp
  qed
  then have beside: "beside_ok m0 (m1, seen1, bins1)"
    using f unfolding finish_bin_def beside_ok_def by (fastforce split: prod.splits)
  have "cell_ok Q il m0 c" using waiting_cell(1) [OF assms(5) _ assms(7)] assms(4) by linarith
  then have waits: "seen1 ! getIndex m0 x y \<or> (\<exists>c \<in> set (bins1 ! 1). cd_x c = x \<and> cd_y c = y)"
    using beside stage0(2) [OF assms(7)] assms(8) unfolding beside_ok_def cell_ok_def by blast
  have stage1: "inflating Q il win m0 1 (m', seen', bins')" "seen1 ! i \<Longrightarrow> seen' ! i" "c \<in> set (bins1 ! 1) \<Longrightarrow> seen' ! getIndex m0 (cd_x c) (cd_y c)" for c i
    using finish_bin_facts [OF assms(1,2) range(2) near1 stage0(1) assms(9) [unfolded f]] by blast+
  from waits stage1(2,3) have "seen' ! getIndex m0 x y" by blast
  with stage1(1) show ?thesis by blast
qed

lemma waiting_empty: "concat (il_inflation_cells il) = [] \<Longrightarrow> waiting_ok Q il m (il_inflation_cells il)"
  unfolding waiting_ok_def by (metis concat_eq_Nil_conv empty_iff list.set(1) nth_mem)

lemma updateCosts_run:
  assumes "wf_costmap m" and "caches_ok il" and "waiting_ok Q il m (il_inflation_cells il)" and "\<And>x y. obstacle il m x y \<Longrightarrow> Q x y"
    and "il_enabled il" and "0 < il_cell_inflation_radius il" and "updateCosts_inflation il win m = (m', il')"
  shows "\<exists>seen'. inflating Q il win m (real (il_cell_inflation_radius il)) (m', seen', il_inflation_cells il') \<and>
      il' = il\<lparr>il_seen := seen', il_inflation_cells := il_inflation_cells il', il_current := True\<rparr>"
    and "c \<in> set (obstacle_cells il m win) \<Longrightarrow> (x, y) \<in> set (neighbours m (cd_x c) (cd_y c)) \<Longrightarrow> explained Q il win m 1 x y (getCost m' x y)"
proof -
  let ?R = "real (il_cell_inflation_radius il)" and ?seen = "replicate (wrap32 (cm_size_x m * cm_size_y m)) False"
  define bins where "bins = (il_inflation_cells il)[0 := il_inflation_cells il ! 0 @ obstacle_cells il m win]"
  have len: "length bins = length (il_inflation_cells il)" by (simp add: bins_def)
  let ?c = "\<lparr>cd_x = 1, cd_y = 0, cd_src_x = 0, cd_src_y = 0\<rparr>"
  have "src_dist ?c = 1" by (simp add: cell_dist_def absdiff_def)
  then have two: "1 < length bins" using level_in_range [OF assms(2), of ?c] assms(6) len by simp
  then have ks: "[0..<length bins] = 0 # 1 # [2..<length bins]" using upt_conv_Cons [of 0 "length bins"] upt_conv_Cons [of 1 "length bins"] by (fastforce simp: numeral_2_eq_2)
  obtain seen' bins' where run: "fold (finish_bin il win) [0..<length bins] (m, ?seen, bins) = (m', seen', bins')"
      and il': "il' = il\<lparr>il_seen := seen', il_inflation_cells := bins', il_current := True\<rparr>"
    using assms(5-7) by (auto simp: updateCosts_inflation_def Let_def bins_def split: prod.splits)
  note start = inflating_start [OF assms(1-4) _ bins_def]
  have final: "inflating Q il win m ?R (m', seen', bins')"
    using finish_bins [OF assms(1,2) _ start(1) run] len by simp
  then show "\<exists>seen'. inflating Q il win m ?R (m', seen', il_inflation_cells il') \<and>
      il' = il\<lparr>il_seen := seen', il_inflation_cells := il_inflation_cells il', il_current := True\<rparr>"
    by (auto simp: il')
  show "explained Q il win m 1 x y (getCost m' x y)"
    if c: "c \<in> set (obstacle_cells il m win)" and n: "(x, y) \<in> set (neighbours m (cd_x c) (cd_y c))"
  proof -
    obtain m2 seen2 bins2 where f: "finish_bin il win 1 (finish_bin il win 0 (m, ?seen, bins)) = (m2, seen2, bins2)" by (metis prod.collapse)
    have "inflating Q il win m 1 (m2, seen2, bins2) \<and> seen2 ! getIndex m x y"
      by (rule first_bins [OF assms(1,2) _ two start(1) _ _ n f]) (use assms(6) c start(2) [of 0] in auto)
    then have st2: "inflating Q il win m 1 (m2, seen2, bins2)" "seen2 ! getIndex m x y" by simp_all
    have R: "inflating Q il win m ?R (m2, seen2, bins2)" by (rule inflating_mono [OF st2(1)]) (use assms(6) in simp)
    have "fold (finish_bin il win) [2..<length bins] (m2, seen2, bins2) = (m', seen', bins')" using run f by (simp add: ks)
    then have "cm_costmap m' ! getIndex m x y = cm_costmap m2 ! getIndex m x y"
      using finish_bins [OF assms(1,2) _ R, of "[2..<length bins]"] st2(2) len by simp
    then have "getCost m' x y = getCost m2 x y" by (simp add: inflating_index(4) [OF final] inflating_index(4) [OF st2(1)])
    with inflatingD(5) [OF st2(1), of x y] st2(2) neighbours_close(1) [OF n] show ?thesis by simp
  qed
qed

lemma neighbours_sym: "in_map m x y \<Longrightarrow> (x', y') \<in> set (neighbours m x y) \<Longrightarrow> (x, y) \<in> set (neighbours m x' y')"
  by (auto simp: neighbours_def split: if_splits)

lemma cell_dist_le_1:
  assumes "cell_dist x y sx sy \<le> 1"
  shows "cell_dist x y sx sy = 0 \<or> cell_dist x y sx sy = 1"
proof -
  have "absdiff x sx * absdiff x sx + absdiff y sy * absdiff y sy \<le> 1" using assms unfolding cell_dist_def real_sqrt_le_1_iff by (simp only: of_nat_le_1_iff)
  then have "absdiff x sx * absdiff x sx + absdiff y sy * absdiff y sy = 0 \<or> absdiff x sx * absdiff x sx + absdiff y sy * absdiff y sy = 1"
    by linarith
  then show ?thesis
  proof
    assume sum: "absdiff x sx * absdiff x sx + absdiff y sy * absdiff y sy = 1"
    show ?thesis unfolding cell_dist_def sum by simp
  qed (simp add: cell_dist_def)
qed

lemma updateCosts_inflation_cell:
  assumes "wf_costmap m" and "caches_ok il" and "concat (il_inflation_cells il) = []" and "il_enabled il" and "0 < il_cell_inflation_radius il"
    and "0 \<le> il_cost_scaling_factor il" and "updateCosts_inflation il win m = (m', il')" and "in_map m x y"
  shows "m' = m\<lparr>cm_costmap := cm_costmap m'\<rparr>" and "\<not> in_window win x y \<Longrightarrow> getCost m' x y = getCost m x y"
    and "getCost m' x y = getCost m x y \<or> (\<exists>sx sy. in_map m sx sy \<and> obstacle il m sx sy \<and> cell_dist x y sx sy \<le> real (il_cell_inflation_radius il) \<and>
      getCost m' x y = inflated_cost il (getCost m x y) (computeCost il (cell_dist x y sx sy)))"
    and "getCost m x y \<noteq> NO_INFORMATION \<Longrightarrow> getCost m x y \<le> getCost m' x y \<and> getCost m' x y \<noteq> NO_INFORMATION"
    and "getCost m x y \<noteq> NO_INFORMATION \<Longrightarrow> in_window win x y \<Longrightarrow> (ox, oy) \<in> set (neighbours m x y) \<Longrightarrow> obstacle il m ox oy \<Longrightarrow>
      computeCost il 1 \<le> getCost m' x y"
proof -
  have "waiting_ok (obstacle il m) il m (il_inflation_cells il)" using assms(3) by (rule waiting_empty)
  note run = updateCosts_run [OF assms(1,2) this _ assms(4,5,7)]
  obtain seen' where inv: "inflating (obstacle il m) il win m (real (il_cell_inflation_radius il)) (m', seen', il_inflation_cells il')"
    using run(1) by blast
  show "m' = m\<lparr>cm_costmap := cm_costmap m'\<rparr>" by (rule inflatingD(1) [OF inv])
  note cell = inflatingD(5) [OF inv assms(8)]
  have le: "computeCost il (cell_dist a b c d) \<le> 254" for a b c d by (rule computeCost_le [OF assms(6)]) (simp add: cell_dist_def)
  show "\<not> in_window win x y \<Longrightarrow> getCost m' x y = getCost m x y" using cell by (auto simp: explained_def split: if_splits)
  show change: "getCost m' x y = getCost m x y \<or> (\<exists>sx sy. in_map m sx sy \<and> obstacle il m sx sy \<and> cell_dist x y sx sy \<le> real (il_cell_inflation_radius il) \<and>
      getCost m' x y = inflated_cost il (getCost m x y) (computeCost il (cell_dist x y sx sy)))"
    using cell unfolding explained_def by (auto split: if_splits)
  then show "getCost m x y \<noteq> NO_INFORMATION \<Longrightarrow> getCost m x y \<le> getCost m' x y \<and> getCost m' x y \<noteq> NO_INFORMATION"
    using inflated_cost_known [OF _ le] by force
  show "computeCost il 1 \<le> getCost m' x y"
    if known: "getCost m x y \<noteq> NO_INFORMATION" and w: "in_window win x y" and n: "(ox, oy) \<in> set (neighbours m x y)" and o: "obstacle il m ox oy"
  proof -
    obtain min_i min_j max_i max_j where win: "win = (min_i, min_j, max_i, max_j)" by (cases win)
    let ?c = "\<lparr>cd_x = ox, cd_y = oy, cd_src_x = ox, cd_src_y = oy\<rparr>"
    have "absdiff ox x \<le> 1" "absdiff oy y \<le> 1" using neighbours_close(2) [OF n, of x] neighbours_close(3) [OF n, of y] by (simp_all add: absdiff_def)
    then have "?c \<in> set (obstacle_cells il m win)"
      using w o neighbours_close(1) [OF n] assms(5) unfolding win obstacle_cells_iff by (auto simp: in_window_def absdiff_def split: if_splits)
    then have "explained (obstacle il m) il win m 1 x y (getCost m' x y)"
      using run(2) neighbours_sym [OF assms(8) n] by simp
    then obtain sx sy where s: "cell_dist x y sx sy \<le> 1" "getCost m' x y = inflated_cost il (getCost m x y) (computeCost il (cell_dist x y sx sy))"
      using w by (auto simp: explained_def)
    have "computeCost il 1 \<le> 254" by (rule computeCost_le [OF assms(6)]) simp
    then have "computeCost il 1 \<le> computeCost il (cell_dist x y sx sy)" using cell_dist_le_1 [OF s(1)] by (auto simp: computeCost_def [of _ 0])
    with inflated_cost_known(2) [OF known le, of x y sx sy] s(2) show ?thesis by (metis order_trans)
  qed
qed

text \<open>
  C17: an update by the inflation layer ends and raises costs where it should. It changes no cell outside of the given
  window. A cell that changes gets the cost that belongs to its distance from some obstacle within the
  inflation radius, merged with its old cost. A known cost never falls and never becomes unknown, so obstacles stay
  obstacles. A known cell of the window directly beside an obstacle has at least the cost of distance one.
\<close>

theorem updateCosts_inflation_correct:
  assumes "wf_costmap m" and "caches_ok il" and "concat (il_inflation_cells il) = []" and "il_enabled il" and "0 < il_cell_inflation_radius il"
    and "0 \<le> il_cost_scaling_factor il" and "updateCosts_inflation il win m = (m', il')" and "in_map m x y"
  shows "m' = m\<lparr>cm_costmap := cm_costmap m'\<rparr> \<and> (\<not> in_window win x y \<longrightarrow> getCost m' x y = getCost m x y) \<and>
    (getCost m' x y = getCost m x y \<or> (\<exists>sx sy. in_map m sx sy \<and> obstacle il m sx sy \<and> cell_dist x y sx sy \<le> real (il_cell_inflation_radius il) \<and>
      getCost m' x y = inflated_cost il (getCost m x y) (computeCost il (cell_dist x y sx sy)))) \<and>
    (getCost m x y \<noteq> NO_INFORMATION \<longrightarrow> getCost m x y \<le> getCost m' x y \<and> getCost m' x y \<noteq> NO_INFORMATION) \<and>
    (getCost m x y \<noteq> NO_INFORMATION \<and> in_window win x y \<and> (\<exists>(ox, oy) \<in> set (neighbours m x y). obstacle il m ox oy) \<longrightarrow>
      computeCost il 1 \<le> getCost m' x y)"
  using updateCosts_inflation_cell [OF assms] by blast

section \<open>A layer that is used again\<close>

text \<open>The caches fit, and what is left in the lists from an earlier update lies within the map.\<close>

definition inflation_ok :: "InflationLayer \<Rightarrow> Costmap2D \<Rightarrow> bool" where
  "inflation_ok il m \<longleftrightarrow> il_cell_inflation_radius il = 0 \<or> caches_ok il \<and> waiting_ok (\<lambda>_ _. True) il m (il_inflation_cells il)"

definition distances_ok :: "InflationLayer \<Rightarrow> bool" where
  "distances_ok il \<longleftrightarrow> (let len = il_cached_cell_inflation_radius il + 2
     in il_cached_cell_inflation_radius il = 0 \<or>
        il_cached_distances il = concat (map (\<lambda>i. map (\<lambda>j. sqrt (real (i * i + j * j))) [0..<len]) [0..<len]))"

lemma computeCaches_fields [simp]:
  "il_enabled (computeCaches il) = il_enabled il" "il_cell_inflation_radius (computeCaches il) = il_cell_inflation_radius il"
  "il_cost_scaling_factor (computeCaches il) = il_cost_scaling_factor il" "il_inscribed_radius (computeCaches il) = il_inscribed_radius il"
  "il_resolution (computeCaches il) = il_resolution il" "il_inflate_around_unknown (computeCaches il) = il_inflate_around_unknown il"
  "il_inflate_unknown (computeCaches il) = il_inflate_unknown il" "il_inflation_radius (computeCaches il) = il_inflation_radius il"
  "il_need_reinflation (computeCaches il) = il_need_reinflation il" "il_current (computeCaches il) = il_current il"
  "il_last_min_x (computeCaches il) = il_last_min_x il" "il_last_min_y (computeCaches il) = il_last_min_y il"
  "il_last_max_x (computeCaches il) = il_last_max_x il" "il_last_max_y (computeCaches il) = il_last_max_y il"
  by (simp_all add: computeCaches_def Let_def split: prod.split)

lemma computeCaches_inflation_ok:
  assumes "distances_ok il \<or> il_cell_inflation_radius il \<noteq> 0 \<and> il_cell_inflation_radius il \<noteq> il_cached_cell_inflation_radius il"
  shows "inflation_ok (computeCaches il) m" and "distances_ok (computeCaches il)"
proof -
  let ?R = "il_cell_inflation_radius il" and ?grid = "\<lambda>n. concat (map (\<lambda>i. map (\<lambda>j. sqrt (real (i * i + j * j))) [0..<n]) [0..<n])"
  have "inflation_ok (computeCaches il) m \<and> distances_ok (computeCaches il)"
  proof (cases "?R = 0")
    case True
    then show ?thesis using assms by (simp add: computeCaches_def inflation_ok_def)
  next
    case False
    obtain M max_dist where gen: "generateIntegerDistances ?R = (M, max_dist)" by (metis prod.collapse)
    have "(if ?R \<noteq> il_cached_cell_inflation_radius il then ?grid (?R + 2) else il_cached_distances il) = ?grid (?R + 2)"
      using assms False unfolding distances_ok_def Let_def by (cases "?R = il_cached_cell_inflation_radius il") simp_all
    then have cc: "computeCaches il = il\<lparr>il_cache_length := ?R + 2, il_cached_distances := ?grid (?R + 2), il_cached_cell_inflation_radius := ?R,
        il_cached_costs := map (computeCost il) (take ((?R + 2) * (?R + 2)) (?grid (?R + 2))), il_distance_matrix := M,
        il_inflation_cells := replicate (max_dist + 1) []\<rparr>"
      using False unfolding computeCaches_def Let_def gen prod.case by (simp only: if_False)
    have "length (?grid (?R + 2)) = (?R + 2) * (?R + 2)" by (rule length_grid)
    then have all: "take ((?R + 2) * (?R + 2)) (?grid (?R + 2)) = ?grid (?R + 2)" by simp
    have cost: "computeCost (computeCaches il) = computeCost il" by (rule ext) (simp add: computeCost_def)
    have "caches_ok (computeCaches il)"
      unfolding caches_ok_def Let_def computeCaches_fields cost by (simp only: cc all) (simp add: gen)
    moreover have "waiting_ok (\<lambda>_ _. True) (computeCaches il) m (il_inflation_cells (computeCaches il))"
      by (rule waiting_empty) (simp add: cc)
    moreover have "distances_ok (computeCaches il)" unfolding distances_ok_def Let_def by (simp only: cc) simp
    ultimately show ?thesis by (simp add: inflation_ok_def)
  qed
  then show "inflation_ok (computeCaches il) m" "distances_ok (computeCaches il)" by blast+
qed

lemma inflation_ok_cong:
  assumes "inflation_ok il m" and "il_cell_inflation_radius il' = il_cell_inflation_radius il" "il_cache_length il' = il_cache_length il"
    "il_cached_distances il' = il_cached_distances il" "il_cached_costs il' = il_cached_costs il" "il_distance_matrix il' = il_distance_matrix il"
    "computeCost il' = computeCost il" "il_inflation_cells il' = il_inflation_cells il" "cm_size_x m' = cm_size_x m" "cm_size_y m' = cm_size_y m"
  shows "inflation_ok il' m'"
  using assms unfolding inflation_ok_def caches_ok_def waiting_ok_def cell_ok_def cell_level_def by simp

lemma updateCosts_inflation_keeps:
  assumes "wf_costmap m" and "inflation_ok il m" and "0 \<le> il_cost_scaling_factor il" and "updateCosts_inflation il win m = (m', il')"
  shows "m' = m\<lparr>cm_costmap := cm_costmap m'\<rparr>" and "wf_costmap m'" and "inflation_ok il' m'"
    and "in_map m x y \<Longrightarrow> \<not> in_window win x y \<Longrightarrow> getCost m' x y = getCost m x y"
    and "in_map m x y \<Longrightarrow> getCost m x y \<noteq> NO_INFORMATION \<Longrightarrow> getCost m x y \<le> getCost m' x y \<and> getCost m' x y \<noteq> NO_INFORMATION"
    and "\<exists>seen current. il' = il\<lparr>il_seen := seen, il_inflation_cells := il_inflation_cells il', il_current := current\<rparr>"
proof -
  have "m' = m\<lparr>cm_costmap := cm_costmap m'\<rparr> \<and> wf_costmap m' \<and> inflation_ok il' m' \<and>
      (in_map m x y \<longrightarrow> \<not> in_window win x y \<longrightarrow> getCost m' x y = getCost m x y) \<and>
      (in_map m x y \<longrightarrow> getCost m x y \<noteq> NO_INFORMATION \<longrightarrow> getCost m x y \<le> getCost m' x y \<and> getCost m' x y \<noteq> NO_INFORMATION) \<and>
      (\<exists>seen current. il' = il\<lparr>il_seen := seen, il_inflation_cells := il_inflation_cells il', il_current := current\<rparr>)" for x y
  proof (cases "\<not> il_enabled il \<or> il_cell_inflation_radius il = 0")
    case True
    then have "m' = m" "il' = il" using assms(4) by (auto simp: updateCosts_inflation_def)
    moreover have "il = il\<lparr>il_seen := il_seen il, il_inflation_cells := il_inflation_cells il, il_current := il_current il\<rparr>" by simp
    moreover have "m = m\<lparr>cm_costmap := cm_costmap m\<rparr>" by simp
    ultimately show ?thesis using assms(1,2) by (simp only: order_refl simp_thms) blast
  next
    case False
    then have ok: "caches_ok il" "waiting_ok (\<lambda>_ _. True) il m (il_inflation_cells il)" using assms(2) by (simp_all add: inflation_ok_def)
    obtain seen' where inv: "inflating (\<lambda>_ _. True) il win m (real (il_cell_inflation_radius il)) (m', seen', il_inflation_cells il')"
      and il': "il' = il\<lparr>il_seen := seen', il_inflation_cells := il_inflation_cells il', il_current := True\<rparr>"
      using updateCosts_run(1) [OF assms(1) ok _ _ _ assms(4)] False by auto
    note same = inflatingD(1-4) [OF inv] and size = inflating_index(2,3) [OF inv]
    have wf: "wf_costmap m'" using assms(1) same(2) size arg_cong [OF same(1), of cm_resolution] by (simp add: wf_costmap_def)
    have "caches_ok il'" using ok(1) same(4) by (subst il') (auto simp: caches_ok_def waiting_ok_def Let_def computeCost_def [abs_def])
    moreover have "waiting_ok (\<lambda>_ _. True) il' m' (il_inflation_cells il')"
      using same(4) size by (subst (1) il') (simp add: waiting_ok_def cell_ok_def cell_level_def)
    ultimately have "inflation_ok il' m'" by (simp add: inflation_ok_def)
    moreover have le: "computeCost il (cell_dist a b c d) \<le> 254" for a b c d by (rule computeCost_le [OF assms(3)]) (simp add: cell_dist_def)
    moreover have "getCost m' x y = getCost m x y" if "in_map m x y" "\<not> in_window win x y"
      using inflatingD(5) [OF inv that(1)] that(2) by (auto simp: explained_def split: if_splits)
    moreover have "getCost m x y \<le> getCost m' x y \<and> getCost m' x y \<noteq> NO_INFORMATION" if "in_map m x y" "getCost m x y \<noteq> NO_INFORMATION"
      using inflatingD(5) [OF inv that(1)] inflated_cost_known [OF that(2) le] that(2) unfolding explained_def by (auto split: if_splits)
    ultimately show ?thesis using same(1) wf il' by blast
  qed
  then show "m' = m\<lparr>cm_costmap := cm_costmap m'\<rparr>" "wf_costmap m'" "inflation_ok il' m'"
    "in_map m x y \<Longrightarrow> \<not> in_window win x y \<Longrightarrow> getCost m' x y = getCost m x y"
    "in_map m x y \<Longrightarrow> getCost m x y \<noteq> NO_INFORMATION \<Longrightarrow> getCost m x y \<le> getCost m' x y \<and> getCost m' x y \<noteq> NO_INFORMATION"
    "\<exists>seen current. il' = il\<lparr>il_seen := seen, il_inflation_cells := il_inflation_cells il', il_current := current\<rparr>"
    by blast+
qed

text \<open>A wall at the left end of a corridor of three cells.\<close>

definition corridor :: Costmap2D where
  "corridor = setCost 0 0 254 (new_Costmap2D (\<lambda>i. 7) 3 1 1 0 0 0)"

definition robot_layer :: InflationLayer where
  "robot_layer = computeCaches
     \<lparr>il_enabled = True, il_current = True, il_inflation_radius = 1, il_inscribed_radius = 1, il_cost_scaling_factor = 10,
      il_inflate_unknown = False, il_inflate_around_unknown = False, il_cell_inflation_radius = 1, il_cached_cell_inflation_radius = 0,
      il_inflation_cells = [], il_resolution = 1, il_seen = [], il_cached_costs = [], il_cached_distances = [], il_distance_matrix = [],
      il_cache_length = 0, il_last_min_x = 0, il_last_min_y = 0, il_last_max_x = 0, il_last_max_y = 0, il_need_reinflation = False\<rparr>"

theorem updateCosts_inflation_correct_witness:
  "253 \<le> getCost (fst (updateCosts_inflation robot_layer (0, 0, 3, 1) corridor)) 1 0"
proof -
  obtain m' il' where run: "updateCosts_inflation robot_layer (0, 0, 3, 1) corridor = (m', il')" by (metis prod.collapse)
  have wf: "wf_costmap (new_Costmap2D (\<lambda>i. 7) 3 1 1 0 0 0)" by (rule wf_new_Costmap2D) simp_all
  then have m: "wf_costmap corridor" "in_map corridor 1 0" by (simp_all add: corridor_def)
  have costs: "getCost corridor 0 0 = 254" "getCost corridor 1 0 = 0"
    unfolding corridor_def using wf by (simp_all add: getCost_setCost getCost_new_Costmap2D)
  have "caches_ok robot_layer" "concat (il_inflation_cells robot_layer) = []"
    unfolding robot_layer_def by (metis (no_types, lifting) computeCaches_ok InflationLayer.select_convs(8,9) zero_neq_one)+
  moreover have "il_enabled robot_layer" "0 < il_cell_inflation_radius robot_layer" "0 \<le> il_cost_scaling_factor robot_layer"
    by (simp_all add: robot_layer_def)
  ultimately have "getCost corridor 1 0 \<noteq> NO_INFORMATION \<and> in_window (0, 0, 3, 1) 1 0 \<and>
      (\<exists>(ox, oy) \<in> set (neighbours corridor 1 0). obstacle robot_layer corridor ox oy) \<longrightarrow> computeCost robot_layer 1 \<le> getCost m' 1 0"
    using updateCosts_inflation_correct [OF m(1) _ _ _ _ _ run m(2)] by blast
  moreover have "(0, 0) \<in> set (neighbours corridor 1 0)" by (simp add: neighbours_def corridor_def)
  moreover have "obstacle robot_layer corridor 0 0" by (simp add: obstacle_def costs)
  ultimately have "computeCost robot_layer 1 \<le> getCost m' 1 0" using costs(2) by (auto simp: in_window_def)
  moreover have "computeCost robot_layer 1 = 253" by (simp add: computeCost_def robot_layer_def)
  ultimately show ?thesis by (simp add: run)
qed

end
