(* ===== verification/Layered_Costmap.thy ===== *)
theory Layered_Costmap
  imports Inflation_Layer Multi_Costmap
begin

text \<open>
  \<open>nav2_costmap_2d\<close>: \<open>layered_costmap.cpp\<close>, \<open>costmap_layer.cpp\<close> and \<open>plugins/static_layer.cpp\<close>, as the multi-costmap node uses
  them for a room: one costmap that does not roll, with a static layer that receives the map of the room and
  an inflation layer after it, in this order, and no filters. The static layer keeps a copy of the map as costs;
  every update resets a window of the combined costmap and lets both layers write it again.

  Rolling windows, filters and the clearing of the robot's footprint are not used for rooms and are left out. The
  array of the static layer is allocated before any cell of it is read, since the map resizes it.
\<close>

section \<open>Layers of costs\<close>

type_synonym bounds = "real \<times> real \<times> real \<times> real"

definition touch :: "real \<Rightarrow> real \<Rightarrow> bounds \<Rightarrow> bounds" where
  "touch x y b = (case b of (min_x, min_y, max_x, max_y) \<Rightarrow> (min x min_x, min y min_y, max x max_x, max y max_y))"

definition window_cells :: "window \<Rightarrow> (nat \<times> nat) list" where
  "window_cells win = (case win of (min_i, min_j, max_i, max_j) \<Rightarrow>
     concat (map (\<lambda>j. map (\<lambda>i. (i, j)) [nat min_i..<nat max_i]) [nat min_j..<nat max_j]))"

text \<open>The loop that the combinations of a layer and the costmap share: \<open>f\<close> merges the cost of the layer with the old one.\<close>

definition update_window :: "(uchar \<Rightarrow> uchar \<Rightarrow> uchar) \<Rightarrow> Costmap2D \<Rightarrow> window \<Rightarrow> Costmap2D \<Rightarrow> Costmap2D" where
  "update_window f layer win master_grid =
     master_grid\<lparr>cm_costmap := fold (\<lambda>(i, j) costs. let it = wrap32 (j * cm_size_x master_grid + i)
       in costs[it := f (cm_costmap layer ! it) (costs ! it)]) (window_cells win) (cm_costmap master_grid)\<rparr>"

definition updateWithTrueOverwrite :: "bool \<Rightarrow> Costmap2D \<Rightarrow> window \<Rightarrow> Costmap2D \<Rightarrow> Costmap2D" where
  "updateWithTrueOverwrite enabled layer win master_grid = (if \<not> enabled then master_grid else update_window (\<lambda>cost old_cost. cost) layer win master_grid)"

definition updateWithOverwrite :: "bool \<Rightarrow> Costmap2D \<Rightarrow> window \<Rightarrow> Costmap2D \<Rightarrow> Costmap2D" where
  "updateWithOverwrite enabled layer win master_grid = (if \<not> enabled then master_grid else update_window (\<lambda>cost old_cost. if cost \<noteq> NO_INFORMATION then cost else old_cost) layer win master_grid)"

definition updateWithMax :: "bool \<Rightarrow> Costmap2D \<Rightarrow> window \<Rightarrow> Costmap2D \<Rightarrow> Costmap2D" where
  "updateWithMax enabled layer win master_grid = (if \<not> enabled then master_grid else update_window (\<lambda>cost old_cost.
     if cost = NO_INFORMATION then old_cost else if old_cost = NO_INFORMATION \<or> old_cost < cost then cost else old_cost) layer win master_grid)"

definition updateWithMaxWithoutUnknownOverwrite :: "bool \<Rightarrow> Costmap2D \<Rightarrow> window \<Rightarrow> Costmap2D \<Rightarrow> Costmap2D" where
  "updateWithMaxWithoutUnknownOverwrite enabled layer win master_grid = (if \<not> enabled then master_grid else update_window (\<lambda>cost old_cost.
     if cost = NO_INFORMATION then old_cost else if old_cost \<noteq> NO_INFORMATION \<and> old_cost < cost then cost else old_cost) layer win master_grid)"

definition updateWithAddition :: "bool \<Rightarrow> Costmap2D \<Rightarrow> window \<Rightarrow> Costmap2D \<Rightarrow> Costmap2D" where
  "updateWithAddition enabled layer win master_grid = (if \<not> enabled then master_grid else update_window (\<lambda>cost old_cost.
     if cost = NO_INFORMATION then old_cost
     else if old_cost = NO_INFORMATION then cost
     else let sum = unat old_cost + unat cost in if 253 \<le> sum then 252 else of_nat sum) layer win master_grid)"

section \<open>The static layer\<close>

record StaticLayer =
  sl_costmap :: Costmap2D
  sl_enabled :: bool
  sl_current :: bool
  sl_has_extra_bounds :: bool
  sl_extra :: bounds
  sl_x :: nat
  sl_y :: nat
  sl_width :: nat
  sl_height :: nat
  sl_map_frame :: string
  sl_has_updated_data :: bool
  sl_map_received :: bool
  sl_map_received_in_update_bounds :: bool
  sl_map_buffer :: "OccupancyGrid option"
  sl_track_unknown_space :: bool
  sl_use_maximum :: bool
  sl_trinary_costmap :: bool
  sl_lethal_threshold :: uchar
  sl_unknown_cost_value :: uchar

definition addExtraBounds :: "bounds \<Rightarrow> StaticLayer \<Rightarrow> StaticLayer" where
  "addExtraBounds b sl =
     (case (b, sl_extra sl) of ((mx0, my0, mx1, my1), (min_x, min_y, max_x, max_y)) \<Rightarrow>
        sl\<lparr>sl_extra := (min mx0 min_x, min my0 min_y, max mx1 max_x, max my1 max_y), sl_has_extra_bounds := True\<rparr>)"

definition useExtraBounds :: "bounds \<Rightarrow> StaticLayer \<Rightarrow> bounds \<times> StaticLayer" where
  "useExtraBounds b sl =
     (if \<not> sl_has_extra_bounds sl then (b, sl)
      else case (b, sl_extra sl) of ((min_x, min_y, max_x, max_y), (ex0, ey0, ex1, ey1)) \<Rightarrow>
        ((min ex0 min_x, min ey0 min_y, max ex1 max_x, max ey1 max_y),
         sl\<lparr>sl_extra := (1000000, 1000000, - 1000000, - 1000000), sl_has_extra_bounds := False\<rparr>))"

definition clearArea :: "int \<Rightarrow> int \<Rightarrow> int \<Rightarrow> int \<Rightarrow> bool \<Rightarrow> StaticLayer \<Rightarrow> StaticLayer" where
  "clearArea start_x start_y end_x end_y invert sl =
     (let m = sl_costmap sl;
          cells = filter (\<lambda>(x, y). (start_x < int x \<and> int x < end_x \<and> start_y < int y \<and> int y < end_y) \<noteq> invert)
            (concat (map (\<lambda>x. map (\<lambda>y. (x, y)) [0..<cm_size_y m]) [0..<cm_size_x m]))
      in sl\<lparr>sl_current := False,
            sl_costmap := m\<lparr>cm_costmap := fold (\<lambda>(x, y) costs. costs[getIndex m x y := NO_INFORMATION]) cells (cm_costmap m)\<rparr>\<rparr>)"

definition interpretValue :: "StaticLayer \<Rightarrow> uchar \<Rightarrow> uchar" where
  "interpretValue sl v =
     (if sl_track_unknown_space sl \<and> v = sl_unknown_cost_value sl then NO_INFORMATION
      else if \<not> sl_track_unknown_space sl \<and> v = sl_unknown_cost_value sl then FREE_SPACE
      else if sl_lethal_threshold sl \<le> v then LETHAL_OBSTACLE
      else if sl_trinary_costmap sl then FREE_SPACE
      else word_of_int \<lfloor>(real (unat v) / real (unat (sl_lethal_threshold sl))) * 254\<rfloor>)"

definition isEqual :: "real \<Rightarrow> real \<Rightarrow> real \<Rightarrow> bool" where
  "isEqual a b epsilon \<longleftrightarrow> \<bar>a - b\<bar> < epsilon"

definition matchSize_static :: "(nat \<Rightarrow> uchar) \<Rightarrow> Costmap2D \<Rightarrow> StaticLayer \<Rightarrow> StaticLayer" where
  "matchSize_static junk master sl =
     sl\<lparr>sl_costmap := resizeMap junk (cm_size_x master) (cm_size_y master) (cm_resolution master) (cm_origin_x master) (cm_origin_y master)
          (sl_costmap sl)\<rparr>"

definition reset_static :: "StaticLayer \<Rightarrow> StaticLayer" where
  "reset_static sl = sl\<lparr>sl_has_updated_data := True, sl_current := False\<rparr>"

definition set_static_param :: "layer_param \<Rightarrow> StaticLayer \<Rightarrow> StaticLayer" where
  "set_static_param p sl =
     (case p of
        Bool_param name b \<Rightarrow>
          if name = ''enabled'' \<and> sl_enabled sl \<noteq> b
          then sl\<lparr>sl_enabled := b, sl_x := 0, sl_y := 0, sl_width := cm_size_x (sl_costmap sl), sl_height := cm_size_y (sl_costmap sl),
                  sl_has_updated_data := True, sl_current := False\<rparr>
          else sl
      | Double_param name v \<Rightarrow> sl)"

section \<open>The layered costmap of a room\<close>

record LayeredCostmap =
  lc_primary_costmap :: Costmap2D
  lc_combined_costmap :: Costmap2D
  lc_size_locked :: bool
  lc_initialized :: bool
  lc_bounds :: bounds
  lc_window :: window
  lc_inscribed_radius :: real
  lc_static :: StaticLayer
  lc_inflation :: InflationLayer

definition layered_resizeMap :: "(nat \<Rightarrow> uchar) \<Rightarrow> nat \<Rightarrow> nat \<Rightarrow> real \<Rightarrow> real \<Rightarrow> real \<Rightarrow> bool \<Rightarrow> LayeredCostmap \<Rightarrow> LayeredCostmap" where
  "layered_resizeMap junk size_x size_y resolution origin_x origin_y size_locked lc =
     (let primary = resizeMap junk size_x size_y resolution origin_x origin_y (lc_primary_costmap lc);
          combined = resizeMap junk size_x size_y resolution origin_x origin_y (lc_combined_costmap lc)
      in lc\<lparr>lc_size_locked := size_locked, lc_primary_costmap := primary, lc_combined_costmap := combined,
            lc_static := matchSize_static junk combined (lc_static lc), lc_inflation := matchSize_inflation combined (lc_inflation lc)\<rparr>)"

definition differs :: "Costmap2D \<Rightarrow> OccupancyGrid \<Rightarrow> bool" where
  "differs m new_map \<longleftrightarrow> (case og_origin new_map of (x, y, z) \<Rightarrow>
     cm_size_x m \<noteq> og_width new_map \<or> cm_size_y m \<noteq> og_height new_map \<or> \<not> isEqual (cm_resolution m) (og_resolution new_map) (1 / 100000) \<or>
     \<not> isEqual (cm_origin_x m) x (1 / 100000) \<or> \<not> isEqual (cm_origin_y m) y (1 / 100000))"

definition processMap :: "(nat \<Rightarrow> uchar) \<Rightarrow> OccupancyGrid \<Rightarrow> LayeredCostmap \<Rightarrow> LayeredCostmap" where
  "processMap junk new_map lc =
     (case og_origin new_map of (origin_x, origin_y, origin_z) \<Rightarrow>
        let size_x = og_width new_map; size_y = og_height new_map;
            lc1 = (if differs (lc_combined_costmap lc) new_map \<or> \<not> lc_size_locked lc
              then layered_resizeMap junk size_x size_y (og_resolution new_map) origin_x origin_y True lc
              else if differs (sl_costmap (lc_static lc)) new_map
              then lc\<lparr>lc_static := (lc_static lc)\<lparr>sl_costmap := resizeMap junk size_x size_y (og_resolution new_map) origin_x origin_y
                     (sl_costmap (lc_static lc))\<rparr>\<rparr>
              else lc);
            sl = lc_static lc1; m = sl_costmap sl
        in lc1\<lparr>lc_static := sl\<lparr>
             sl_costmap := m\<lparr>cm_costmap := memcpy 0 (map (\<lambda>v. interpretValue sl (word_of_int v)) (og_data new_map)) 0
               (wrap32 (size_x * size_y)) (cm_costmap m)\<rparr>,
             sl_map_frame := og_frame_id new_map, sl_x := 0, sl_y := 0, sl_width := cm_size_x m, sl_height := cm_size_y m,
             sl_has_updated_data := True, sl_current := True\<rparr>\<rparr>)"

text \<open>\<open>pose_valid\<close>: whether the origin's orientation is a rotation and no number of the message is infinite or undefined.\<close>

definition validateMsg :: "bool \<Rightarrow> OccupancyGrid \<Rightarrow> bool" where
  "validateMsg pose_valid msg \<longleftrightarrow> og_frame_id msg \<noteq> [] \<and> pose_valid \<and> og_height msg \<noteq> 0 \<and> og_width msg \<noteq> 0 \<and> 0 < og_resolution msg \<and>
     length (og_data msg) = wrap32 (og_width msg * og_height msg)"

definition incomingMap :: "(nat \<Rightarrow> uchar) \<Rightarrow> bool \<Rightarrow> OccupancyGrid \<Rightarrow> LayeredCostmap \<Rightarrow> LayeredCostmap" where
  "incomingMap junk pose_valid new_map lc =
     (if \<not> validateMsg pose_valid new_map then lc
      else if \<not> sl_map_received (lc_static lc)
      then let lc1 = processMap junk new_map lc in lc1\<lparr>lc_static := (lc_static lc1)\<lparr>sl_map_received := True\<rparr>\<rparr>
      else lc\<lparr>lc_static := (lc_static lc)\<lparr>sl_map_buffer := Some new_map\<rparr>\<rparr>)"

definition load_buffer :: "(nat \<Rightarrow> uchar) \<Rightarrow> LayeredCostmap \<Rightarrow> LayeredCostmap" where
  "load_buffer junk lc =
     (case sl_map_buffer (lc_static lc) of
        Some m \<Rightarrow> let lc1 = processMap junk m lc in lc1\<lparr>lc_static := (lc_static lc1)\<lparr>sl_map_buffer := None\<rparr>\<rparr>
      | None \<Rightarrow> lc)"

definition updateBounds_static :: "(nat \<Rightarrow> uchar) \<Rightarrow> bounds \<Rightarrow> LayeredCostmap \<Rightarrow> bounds \<times> LayeredCostmap" where
  "updateBounds_static junk b lc =
     (if \<not> sl_map_received (lc_static lc)
      then (b, lc\<lparr>lc_static := (lc_static lc)\<lparr>sl_map_received_in_update_bounds := False\<rparr>\<rparr>)
      else let lc1 = load_buffer junk (lc\<lparr>lc_static := (lc_static lc)\<lparr>sl_map_received_in_update_bounds := True\<rparr>\<rparr>);
               sl = lc_static lc1
           in if \<not> (sl_has_updated_data sl \<or> sl_has_extra_bounds sl) then (b, lc1)
              else case useExtraBounds b sl of ((min_x, min_y, max_x, max_y), sl1) \<Rightarrow>
                case (mapToWorld (sl_costmap sl1) (sl_x sl1) (sl_y sl1),
                      mapToWorld (sl_costmap sl1) (sl_x sl1 + sl_width sl1) (sl_y sl1 + sl_height sl1)) of
                  ((wx0, wy0), (wx1, wy1)) \<Rightarrow>
                    ((min wx0 min_x, min wy0 min_y, max wx1 max_x, max wy1 max_y),
                     lc1\<lparr>lc_static := sl1\<lparr>sl_has_updated_data := False\<rparr>\<rparr>))"

definition updateCosts_static :: "StaticLayer \<Rightarrow> window \<Rightarrow> Costmap2D \<Rightarrow> Costmap2D \<times> StaticLayer" where
  "updateCosts_static sl win master_grid =
     (if \<not> sl_enabled sl \<or> \<not> sl_map_received_in_update_bounds sl then (master_grid, sl)
      else ((if sl_use_maximum sl then updateWithMax else updateWithTrueOverwrite) (sl_enabled sl) (sl_costmap sl) win master_grid, sl\<lparr>sl_current := True\<rparr>))"

definition updateMap :: "(nat \<Rightarrow> uchar) \<Rightarrow> LayeredCostmap \<Rightarrow> LayeredCostmap" where
  "updateMap junk lc =
     (case updateBounds_static junk (dbl_max, dbl_max, - dbl_max, - dbl_max) lc of (b1, lc1) \<Rightarrow>
      case updateBounds_inflation (lc_inflation lc1) b1 of ((minx, miny, maxx, maxy), il) \<Rightarrow>
        let m = lc_combined_costmap lc1;
            (ex0, ey0) = worldToMapEnforceBounds m minx miny; (exn, eyn) = worldToMapEnforceBounds m maxx maxy;
            x0 = max 0 ex0; xn = min (int (cm_size_x m)) (exn + 1); y0 = max 0 ey0; yn = min (int (cm_size_y m)) (eyn + 1);
            lc2 = lc1\<lparr>lc_bounds := (minx, miny, maxx, maxy), lc_inflation := il\<rparr>
        in if xn < x0 \<or> yn < y0 then lc2
           else case updateCosts_static (lc_static lc2) (x0, y0, xn, yn) (resetMap (nat x0) (nat y0) (nat xn) (nat yn) m) of (m1, sl) \<Rightarrow>
                case updateCosts_inflation il (x0, y0, xn, yn) m1 of (m2, il') \<Rightarrow>
                  lc2\<lparr>lc_combined_costmap := m2, lc_static := sl, lc_inflation := il', lc_window := (x0, y0, xn, yn), lc_initialized := True\<rparr>)"

definition layered_isCurrent :: "LayeredCostmap \<Rightarrow> bool" where
  "layered_isCurrent lc \<longleftrightarrow> (sl_current (lc_static lc) \<or> \<not> sl_enabled (lc_static lc)) \<and> (il_current (lc_inflation lc) \<or> \<not> il_enabled (lc_inflation lc))"

text \<open>\<open>inscribed_radius\<close>: the inner radius of the footprint.\<close>

definition setFootprint :: "real \<Rightarrow> LayeredCostmap \<Rightarrow> LayeredCostmap" where
  "setFootprint inscribed_radius lc =
     lc\<lparr>lc_inscribed_radius := inscribed_radius, lc_inflation := onFootprintChanged (lc_combined_costmap lc) inscribed_radius (lc_inflation lc)\<rparr>"

section \<open>The layers of a new room\<close>

record layer_params =
  ly_enabled :: bool
  ly_track_unknown_space :: bool
  ly_use_maximum :: bool
  ly_lethal_cost_threshold :: int
  ly_unknown_cost_value :: uchar
  ly_trinary_costmap :: bool
  ly_inflation_enabled :: bool
  ly_inflation_radius :: real
  ly_cost_scaling_factor :: real
  ly_inflate_unknown :: bool
  ly_inflate_around_unknown :: bool

definition no_costmap :: "uchar \<Rightarrow> Costmap2D" where
  "no_costmap default_value = \<lparr>cm_size_x = 0, cm_size_y = 0, cm_resolution = 0, cm_origin_x = 0, cm_origin_y = 0, cm_costmap = [],
     cm_default_value = default_value\<rparr>"

text \<open>
  The parameters of the static layer; the threshold is kept within 0 and 100. The default value of the layer's own grid is not initialised in C++; here it is
  0. The grid is resized and written by the first map before it is read.
\<close>

definition getParameters :: "layer_params \<Rightarrow> StaticLayer" where
  "getParameters ps =
     \<lparr>sl_costmap = no_costmap 0, sl_enabled = ly_enabled ps, sl_current = False, sl_has_extra_bounds = False,
      sl_extra = (1000000, 1000000, - 1000000, - 1000000), sl_x = 0, sl_y = 0, sl_width = 0, sl_height = 0, sl_map_frame = [],
      sl_has_updated_data = False, sl_map_received = False, sl_map_received_in_update_bounds = False, sl_map_buffer = None,
      sl_track_unknown_space = ly_track_unknown_space ps, sl_use_maximum = ly_use_maximum ps, sl_trinary_costmap = ly_trinary_costmap ps,
      sl_lethal_threshold = word_of_int (max (min (ly_lethal_cost_threshold ps) 100) 0), sl_unknown_cost_value = ly_unknown_cost_value ps\<rparr>"

definition new_InflationLayer :: InflationLayer where
  "new_InflationLayer =
     \<lparr>il_enabled = False, il_current = False, il_inflation_radius = 0, il_inscribed_radius = 0, il_cost_scaling_factor = 0,
      il_inflate_unknown = False, il_inflate_around_unknown = False, il_cell_inflation_radius = 0, il_cached_cell_inflation_radius = 0,
      il_inflation_cells = [], il_resolution = 0, il_seen = [], il_cached_costs = [], il_cached_distances = [], il_distance_matrix = [],
      il_cache_length = 0, il_last_min_x = - dbl_max, il_last_min_y = - dbl_max, il_last_max_x = dbl_max, il_last_max_y = dbl_max,
      il_need_reinflation = False\<rparr>"

definition inflation_onInitialize :: "layer_params \<Rightarrow> Costmap2D \<Rightarrow> InflationLayer \<Rightarrow> InflationLayer" where
  "inflation_onInitialize ps master il = matchSize_inflation master
     (il\<lparr>il_enabled := ly_inflation_enabled ps, il_inflation_radius := ly_inflation_radius ps, il_cost_scaling_factor := ly_cost_scaling_factor ps,
         il_inflate_unknown := ly_inflate_unknown ps, il_inflate_around_unknown := ly_inflate_around_unknown ps, il_current := True, il_seen := [],
         il_cached_distances := [], il_cached_costs := [], il_need_reinflation := False,
         il_cell_inflation_radius := cellDistance master (ly_inflation_radius ps)\<rparr>)"

text \<open>
  The costmap of a room before its map arrives: \<open>initializeRoomLayeredCostmap\<close> and the layers of \<open>createRoomCostmapData\<close>. A layer is initialised by
  \<open>Layer::initialize\<close>, which calls \<open>onInitialize\<close>, and once more by a call of \<open>onInitialize\<close>.
\<close>

definition room_layers :: "(nat \<Rightarrow> uchar) \<Rightarrow> layer_params \<Rightarrow> real \<Rightarrow> LayeredCostmap" where
  "room_layers junk ps inscribed_radius =
     (let m = resizeMap junk 200 200 (1 / 20) (- 5) (- 5) (no_costmap NO_INFORMATION);
          lc = setFootprint inscribed_radius
            \<lparr>lc_primary_costmap = m, lc_combined_costmap = m, lc_size_locked = False, lc_initialized = False, lc_bounds = (0, 0, 0, 0),
             lc_window = (0, 0, 0, 0), lc_inscribed_radius = 1 / 10, lc_static = getParameters ps,
             lc_inflation = inflation_onInitialize ps m (inflation_onInitialize ps m new_InflationLayer)\<rparr>
      in lc\<lparr>lc_inflation := matchSize_inflation m (lc_inflation lc)\<rparr>)"

section \<open>Windows\<close>

lemma resizeMap_new:
  "resizeMap junk sx sy res ox oy m = new_Costmap2D junk sx sy res ox oy (cm_default_value m)"
  by (simp add: resizeMap_def new_Costmap2D_def resetMaps_def initMaps_def)

lemma window_cells_iff: "0 \<le> x0 \<Longrightarrow> 0 \<le> y0 \<Longrightarrow> (i, j) \<in> set (window_cells (x0, y0, xn, yn)) \<longleftrightarrow> in_window (x0, y0, xn, yn) i j"
  by (auto simp: window_cells_def in_window_def image_iff)

lemma distinct_window_cells: "distinct (window_cells win)"
proof -
  have "distinct (concat (map (\<lambda>j. map (\<lambda>i. (i, j)) xs) ys))" if "distinct xs" "distinct ys" for xs ys :: "nat list"
    using that by (induction ys) (auto simp: distinct_map inj_on_def)
  then show ?thesis by (cases win) (simp add: window_cells_def)
qed

text \<open>A loop over distinct cells that changes each from its old value.\<close>

lemma fold_cells:
  assumes "distinct (map idx cells)" and "\<forall>c \<in> set cells. idx c < length costs"
  shows "length (fold (\<lambda>c costs. costs[idx c := g c (costs ! idx c)]) cells costs) = length costs"
    and "c \<in> set cells \<Longrightarrow> fold (\<lambda>c costs. costs[idx c := g c (costs ! idx c)]) cells costs ! idx c = g c (costs ! idx c)"
    and "k \<notin> idx ` set cells \<Longrightarrow> fold (\<lambda>c costs. costs[idx c := g c (costs ! idx c)]) cells costs ! k = costs ! k"
proof -
  have "length (fold (\<lambda>c costs. costs[idx c := g c (costs ! idx c)]) cells costs) = length costs \<and>
    (\<forall>c \<in> set cells. fold (\<lambda>c costs. costs[idx c := g c (costs ! idx c)]) cells costs ! idx c = g c (costs ! idx c)) \<and>
    (\<forall>k. k \<notin> idx ` set cells \<longrightarrow> fold (\<lambda>c costs. costs[idx c := g c (costs ! idx c)]) cells costs ! k = costs ! k)"
    using assms
  proof (induction cells arbitrary: costs)
    case (Cons c cells)
    let ?costs = "costs[idx c := g c (costs ! idx c)]"
    have ih: "length (fold (\<lambda>c costs. costs[idx c := g c (costs ! idx c)]) cells ?costs) = length costs"
      "\<forall>d \<in> set cells. fold (\<lambda>c costs. costs[idx c := g c (costs ! idx c)]) cells ?costs ! idx d = g d (?costs ! idx d)"
      "\<forall>k. k \<notin> idx ` set cells \<longrightarrow> fold (\<lambda>c costs. costs[idx c := g c (costs ! idx c)]) cells ?costs ! k = ?costs ! k"
      using Cons.IH [of ?costs] Cons.prems by simp_all
    have other: "idx d \<noteq> idx c" if "d \<in> set cells" for d using Cons.prems(1) that by (auto simp: image_iff)
    show ?case using ih other Cons.prems by (auto simp: image_iff)
  qed simp
  then show "length (fold (\<lambda>c costs. costs[idx c := g c (costs ! idx c)]) cells costs) = length costs"
    "c \<in> set cells \<Longrightarrow> fold (\<lambda>c costs. costs[idx c := g c (costs ! idx c)]) cells costs ! idx c = g c (costs ! idx c)"
    "k \<notin> idx ` set cells \<Longrightarrow> fold (\<lambda>c costs. costs[idx c := g c (costs ! idx c)]) cells costs ! k = costs ! k"
    by blast+
qed

definition win_fits :: "window \<Rightarrow> Costmap2D \<Rightarrow> bool" where
  "win_fits win m \<longleftrightarrow> (case win of (x0, y0, xn, yn) \<Rightarrow> 0 \<le> x0 \<and> 0 \<le> y0 \<and> x0 \<le> xn \<and> y0 \<le> yn \<and> xn \<le> int (cm_size_x m) \<and> yn \<le> int (cm_size_y m))"

lemma update_window_cell:
  assumes "wf_costmap m" and "win_fits win m"
  shows "wf_costmap (update_window f layer win m)" and "update_window f layer win m = m\<lparr>cm_costmap := cm_costmap (update_window f layer win m)\<rparr>"
    and "in_map m x y \<Longrightarrow> getCost (update_window f layer win m) x y =
      (if in_window win x y then f (cm_costmap layer ! getIndex m x y) (getCost m x y) else getCost m x y)"
proof -
  obtain x0 y0 xn yn where win: "win = (x0, y0, xn, yn)" by (cases win)
  note fits = assms(2) [unfolded win_fits_def win, simplified]
  let ?idx = "\<lambda>(i, j). getIndex m i j" and ?g = "\<lambda>c old. f (cm_costmap layer ! (case c of (i, j) \<Rightarrow> getIndex m i j)) old"
  let ?costs = "fold (\<lambda>c costs. costs[?idx c := ?g c (costs ! ?idx c)]) (window_cells win) (cm_costmap m)"
  have costs: "cm_costmap (update_window f layer win m) = ?costs"
    by (simp add: update_window_def getIndex_def Let_def case_prod_beta')
  have cells: "in_map m i j" if "(i, j) \<in> set (window_cells win)" for i j
    using that fits window_cells_iff [of x0 y0 i j xn yn] by (auto simp: win in_window_def)
  have "inj_on ?idx (set (window_cells win))"
  proof (rule inj_onI, clarify)
    fix i j i' j' assume c: "(i, j) \<in> set (window_cells win)" "(i', j') \<in> set (window_cells win)" and eq: "getIndex m i j = getIndex m i' j'"
    from index_inj [OF assms(1) cells [OF c(1)] cells [OF c(2)]] eq show "i = i' \<and> j = j'" by simp
  qed
  then have dist: "distinct (map ?idx (window_cells win))" by (simp add: distinct_map distinct_window_cells)
  have range: "\<forall>c \<in> set (window_cells win). ?idx c < length (cm_costmap m)"
    using cells getIndex_in_map(2) [OF assms(1)] by auto
  note loop = fold_cells [OF dist range, where g = ?g]
  show same: "update_window f layer win m = m\<lparr>cm_costmap := cm_costmap (update_window f layer win m)\<rparr>" by (simp add: update_window_def)
  show "wf_costmap (update_window f layer win m)"
    using assms(1) loop(1) costs by (subst same) (simp add: wf_costmap_def)
  show "getCost (update_window f layer win m) x y =
      (if in_window win x y then f (cm_costmap layer ! getIndex m x y) (getCost m x y) else getCost m x y)" if xy: "in_map m x y"
  proof -
    have idx: "getCost (update_window f layer win m) x y = ?costs ! getIndex m x y"
      using costs by (simp add: getCost_def update_window_def getIndex_def)
    have mem: "(x, y) \<in> set (window_cells win) \<longleftrightarrow> in_window win x y" using fits by (simp add: win window_cells_iff)
    show ?thesis
    proof (cases "in_window win x y")
      case True
      with loop(2) [of "(x, y)"] mem idx show ?thesis by (simp add: getCost_def)
    next
      case False
      have "getIndex m x y \<notin> ?idx ` set (window_cells win)"
      proof clarify
        fix i j assume c: "(i, j) \<in> set (window_cells win)" "getIndex m x y = getIndex m i j"
        with index_inj [OF assms(1) xy cells [OF c(1)]] mem False show False by simp
      qed
      with loop(3) idx False show ?thesis by (simp add: getCost_def)
    qed
  qed
qed

lemma reset_rows:
  assumes "x0 \<le> xn" and "xn \<le> sx" and "yn * sx \<le> length xs"
  shows "length (fold (\<lambda>y. memset (y * sx + x0) v (xn - x0)) [y0..<yn] xs) = length xs"
    and "x < sx \<Longrightarrow> y * sx + x < length xs \<Longrightarrow>
      fold (\<lambda>y. memset (y * sx + x0) v (xn - x0)) [y0..<yn] xs ! (y * sx + x) = (if x0 \<le> x \<and> x < xn \<and> y0 \<le> y \<and> y < yn then v else xs ! (y * sx + x))"
proof -
  have "length (fold (\<lambda>y. memset (y * sx + x0) v (xn - x0)) [y0..<yn] xs) = length xs \<and>
    (\<forall>x y. x < sx \<longrightarrow> y * sx + x < length xs \<longrightarrow> fold (\<lambda>y. memset (y * sx + x0) v (xn - x0)) [y0..<yn] xs ! (y * sx + x) =
      (if x0 \<le> x \<and> x < xn \<and> y0 \<le> y \<and> y < yn then v else xs ! (y * sx + x)))"
    using assms(3)
  proof (induction yn)
    case (Suc yn)
    show ?case
    proof (cases "y0 \<le> yn")
      case True
      let ?rest = "fold (\<lambda>y. memset (y * sx + x0) v (xn - x0)) [y0..<yn] xs"
      have ih: "length ?rest = length xs" "\<forall>x y. x < sx \<longrightarrow> y * sx + x < length xs \<longrightarrow> ?rest ! (y * sx + x) =
          (if x0 \<le> x \<and> x < xn \<and> y0 \<le> y \<and> y < yn then v else xs ! (y * sx + x))"
        using Suc by simp_all
      have fits: "yn * sx + x0 + (xn - x0) \<le> length ?rest" using Suc.prems assms(1,2) ih(1) by simp
      have row: "yn * sx + x0 \<le> y * sx + x \<and> y * sx + x < yn * sx + x0 + (xn - x0) \<longleftrightarrow> y = yn \<and> x0 \<le> x \<and> x < xn" if "x < sx" for x y
      proof
        assume a: "yn * sx + x0 \<le> y * sx + x \<and> y * sx + x < yn * sx + x0 + (xn - x0)"
        have "y = (y * sx + x) div sx" using that by simp
        moreover have "(y * sx + x) div sx = yn" using a assms(1,2) by (intro div_nat_eqI) (simp_all add: mult.commute)
        ultimately show "y = yn \<and> x0 \<le> x \<and> x < xn" using a assms(1) by auto
      qed (use assms(1) in auto)
      show ?thesis
        using True ih length_memset [OF fits] nth_memset [OF fits, of _ v] row by (auto simp: less_Suc_eq)
    next
      case False
      then show ?thesis using Suc by auto
    qed
  qed simp
  then show "length (fold (\<lambda>y. memset (y * sx + x0) v (xn - x0)) [y0..<yn] xs) = length xs"
    "x < sx \<Longrightarrow> y * sx + x < length xs \<Longrightarrow>
      fold (\<lambda>y. memset (y * sx + x0) v (xn - x0)) [y0..<yn] xs ! (y * sx + x) = (if x0 \<le> x \<and> x < xn \<and> y0 \<le> y \<and> y < yn then v else xs ! (y * sx + x))"
    by blast+
qed

lemma resetMap_cell:
  assumes "wf_costmap m" and "win_fits (x0, y0, xn, yn) m" and "cm_size_x m < 2 ^ 32"
  shows "wf_costmap (resetMap (nat x0) (nat y0) (nat xn) (nat yn) m)"
    and "resetMap (nat x0) (nat y0) (nat xn) (nat yn) m = m\<lparr>cm_costmap := cm_costmap (resetMap (nat x0) (nat y0) (nat xn) (nat yn) m)\<rparr>"
    and "in_map m x y \<Longrightarrow> getCost (resetMap (nat x0) (nat y0) (nat xn) (nat yn) m) x y =
      (if in_window (x0, y0, xn, yn) x y then cm_default_value m else getCost m x y)"
proof -
  let ?m = "resetMap (nat x0) (nat y0) (nat xn) (nat yn) m"
  have fits: "nat x0 \<le> nat xn" "nat xn \<le> cm_size_x m" "nat yn \<le> cm_size_y m" "0 \<le> x0" "0 \<le> y0"
    using assms(2) by (auto simp: win_fits_def)
  have "nat xn + 2 ^ 32 - nat x0 = (nat xn - nat x0) + 2 ^ 32" using fits(1) by simp
  moreover have "nat xn - nat x0 < 2 ^ 32" using fits(2) assms(3) by linarith
  ultimately have "wrap32 (nat xn + 2 ^ 32 - nat x0) = nat xn - nat x0" by (simp only: wrap32_def mod_add_self2 mod_less)
  then have costs: "cm_costmap ?m = fold (\<lambda>y. memset (y * cm_size_x m + nat x0) (cm_default_value m) (nat xn - nat x0)) [nat y0..<nat yn] (cm_costmap m)"
    by (simp add: resetMap_def resetMapToValue_def)
  have len: "nat yn * cm_size_x m \<le> length (cm_costmap m)"
    using fits(3) assms(1) by (simp add: wf_costmap_def mult.commute)
  note rows = reset_rows [OF fits(1,2) len, where v = "cm_default_value m" and ?y0.0 = "nat y0"]
  show same: "?m = m\<lparr>cm_costmap := cm_costmap ?m\<rparr>" by (simp add: resetMap_def resetMapToValue_def)
  show "wf_costmap ?m" using assms(1) rows(1) costs by (subst same) (simp add: wf_costmap_def)
  show "getCost ?m x y = (if in_window (x0, y0, xn, yn) x y then cm_default_value m else getCost m x y)" if xy: "in_map m x y"
  proof -
    note idx = getIndex_in_map [OF assms(1) xy]
    have "getCost ?m x y = cm_costmap ?m ! (y * cm_size_x m + x)"
      using idx(1) by (simp add: getCost_def getIndex_def resetMap_def resetMapToValue_def)
    moreover have "getCost m x y = cm_costmap m ! (y * cm_size_x m + x)" using idx(1) by (simp add: getCost_def)
    moreover have "in_window (x0, y0, xn, yn) x y \<longleftrightarrow> nat x0 \<le> x \<and> x < nat xn \<and> nat y0 \<le> y \<and> y < nat yn" by (auto simp: in_window_def)
    ultimately show ?thesis using rows(2) [of x y] costs idx xy by simp
  qed
qed

section \<open>The states of a room\<close>

definition in_doubles :: "real \<Rightarrow> real \<Rightarrow> real \<Rightarrow> nat \<Rightarrow> nat \<Rightarrow> bool" where
  "in_doubles ox oy res sx sy \<longleftrightarrow> - dbl_max \<le> ox \<and> - dbl_max \<le> oy \<and> res * real sx + ox \<le> dbl_max \<and> res * real sy + oy \<le> dbl_max"

text \<open>A valid map whose number of cells and whose coordinates are representable.\<close>

definition good_map :: "OccupancyGrid \<Rightarrow> bool" where
  "good_map g \<longleftrightarrow> validateMsg True g \<and> og_width g * og_height g < 2 ^ 32 \<and>
     in_doubles (fst (og_origin g)) (fst (snd (og_origin g))) (og_resolution g) (og_width g) (og_height g)"

definition same_grid :: "Costmap2D \<Rightarrow> Costmap2D \<Rightarrow> bool" where
  "same_grid m m' \<longleftrightarrow> cm_size_x m = cm_size_x m' \<and> cm_size_y m = cm_size_y m' \<and> cm_resolution m = cm_resolution m' \<and>
     cm_origin_x m = cm_origin_x m' \<and> cm_origin_y m = cm_origin_y m'"

definition shows_layer :: "LayeredCostmap \<Rightarrow> bool" where
  "shows_layer lc \<longleftrightarrow> (\<forall>x y. in_map (lc_combined_costmap lc) x y \<longrightarrow> getCost (sl_costmap (lc_static lc)) x y \<noteq> NO_INFORMATION \<longrightarrow>
     getCost (sl_costmap (lc_static lc)) x y \<le> getCost (lc_combined_costmap lc) x y \<and> getCost (lc_combined_costmap lc) x y \<noteq> NO_INFORMATION)"

definition master_ok :: "LayeredCostmap \<Rightarrow> bool" where
  "master_ok lc \<longleftrightarrow> (let m = lc_combined_costmap lc; il = lc_inflation lc
     in wf_costmap m \<and> 0 < cm_size_x m \<and> 0 < cm_size_y m \<and> cm_default_value m = NO_INFORMATION \<and>
        in_doubles (cm_origin_x m) (cm_origin_y m) (cm_resolution m) (cm_size_x m) (cm_size_y m) \<and>
        inflation_ok il m \<and> distances_ok il \<and> 0 \<le> il_cost_scaling_factor il \<and> 0 \<le> il_inflation_radius il)"

definition static_ok :: "LayeredCostmap \<Rightarrow> bool" where
  "static_ok lc \<longleftrightarrow> (let m = lc_combined_costmap lc; sl = lc_static lc
     in wf_costmap (sl_costmap sl) \<and> same_grid (sl_costmap sl) m \<and> sl_x sl = 0 \<and> sl_y sl = 0 \<and> sl_width sl = cm_size_x m \<and> sl_height sl = cm_size_y m)"

text \<open>\<open>msg\<close>: the last valid map that was received.\<close>

definition map_in_use :: "OccupancyGrid \<Rightarrow> LayeredCostmap \<Rightarrow> bool" where
  "map_in_use g lc \<longleftrightarrow> (let m = sl_costmap (lc_static lc)
     in cm_size_x m = og_width g \<and> cm_size_y m = og_height g \<and> \<not> differs m g \<and>
        cm_costmap m = map (\<lambda>v. interpretValue (lc_static lc) (word_of_int v)) (og_data g))"

text \<open>The inflation radius in cells of the given size.\<close>

definition cell_radius :: "real \<Rightarrow> real \<Rightarrow> nat" where
  "cell_radius radius res = to_uint (max 0 (of_int \<lceil>radius / res\<rceil>))"

lemma cellDistance_cell_radius: "cellDistance m radius = cell_radius radius (cm_resolution m)"
  by (simp add: cellDistance_def cell_radius_def)

text \<open>The distances of the layer are there, or a map of the given resolution makes the layer compute them.\<close>

definition refill_ok :: "real \<Rightarrow> InflationLayer \<Rightarrow> bool" where
  "refill_ok res il \<longleftrightarrow> distances_ok il \<or> cell_radius (il_inflation_radius il) res \<noteq> 0 \<and> cell_radius (il_inflation_radius il) res \<noteq> il_cached_cell_inflation_radius il"

text \<open>
  The second initialisation of the inflation layer clears its tables of distances and costs but keeps the radius they were computed for, so that they stay empty
  until the radius in cells changes: the lookups then lie outside of the vectors. The first map of a room has to have a resolution that changes it.
\<close>

definition refills :: "layer_params \<Rightarrow> OccupancyGrid \<Rightarrow> bool" where
  "refills ps g \<longleftrightarrow> cell_radius (ly_inflation_radius ps) (1 / 20) = 0 \<or>
     cell_radius (ly_inflation_radius ps) (og_resolution g) \<notin> {0, cell_radius (ly_inflation_radius ps) (1 / 20)}"

text \<open>A room before its first map: all is unknown, and nothing waits to be inflated.\<close>

definition fresh_ok :: "layer_params \<Rightarrow> LayeredCostmap \<Rightarrow> bool" where
  "fresh_ok ps lc \<longleftrightarrow> (let m = lc_combined_costmap lc; il = lc_inflation lc
     in wf_costmap m \<and> 0 < cm_size_y m \<and> cm_resolution m = 1 / 20 \<and> cm_default_value m = NO_INFORMATION \<and>
        (\<forall>x y. in_map m x y \<longrightarrow> getCost m x y = NO_INFORMATION) \<and> concat (il_inflation_cells il) = [] \<and> \<not> il_inflate_around_unknown il \<and>
        0 \<le> il_cost_scaling_factor il \<and> 0 \<le> il_inflation_radius il \<and> il_inflation_radius il = ly_inflation_radius ps \<and>
        il_cached_cell_inflation_radius il = cell_radius (ly_inflation_radius ps) (1 / 20))"

definition room_ok :: "layer_params \<Rightarrow> OccupancyGrid option \<Rightarrow> LayeredCostmap \<Rightarrow> bool" where
  "room_ok ps msg lc \<longleftrightarrow> sl_enabled (lc_static lc) \<and>
     (case msg of
        None \<Rightarrow> fresh_ok ps lc \<and> \<not> sl_map_received (lc_static lc) \<and> \<not> lc_size_locked lc \<and> sl_map_buffer (lc_static lc) = None
      | Some g \<Rightarrow> master_ok lc \<and> good_map g \<and> sl_map_received (lc_static lc) \<and> lc_size_locked lc \<and> static_ok lc \<and>
          (sl_has_updated_data (lc_static lc) \<or> shows_layer lc) \<and>
          (sl_map_buffer (lc_static lc) = Some g \<or> sl_map_buffer (lc_static lc) = None \<and> map_in_use g lc))"

text \<open>What the layered costmap needs for a resize to the given resolution.\<close>

definition resize_ready :: "real \<Rightarrow> LayeredCostmap \<Rightarrow> bool" where
  "resize_ready res lc \<longleftrightarrow> cm_default_value (lc_combined_costmap lc) = NO_INFORMATION \<and> refill_ok res (lc_inflation lc) \<and>
     0 \<le> il_cost_scaling_factor (lc_inflation lc) \<and> 0 \<le> il_inflation_radius (lc_inflation lc)"

lemma master_ok_resize: "master_ok lc \<Longrightarrow> resize_ready res lc"
  by (simp add: master_ok_def resize_ready_def refill_ok_def Let_def)

lemma fresh_ok_resize: "fresh_ok ps lc \<Longrightarrow> refills ps g \<Longrightarrow> resize_ready (og_resolution g) lc"
  by (auto simp: fresh_ok_def refills_def resize_ready_def refill_ok_def distances_ok_def Let_def)

lemma matchSize_inflation_ok:
  assumes "refill_ok (cm_resolution master) il"
  shows "inflation_ok (matchSize_inflation master il) m" and "distances_ok (matchSize_inflation master il)"
proof -
  let ?il = "il\<lparr>il_resolution := cm_resolution master, il_cell_inflation_radius := cellDistance master (il_inflation_radius il)\<rparr>"
  have "distances_ok ?il \<or> il_cell_inflation_radius ?il \<noteq> 0 \<and> il_cell_inflation_radius ?il \<noteq> il_cached_cell_inflation_radius ?il"
    using assms by (auto simp: refill_ok_def distances_ok_def cellDistance_cell_radius Let_def)
  note ok = computeCaches_inflation_ok [OF this]
  have "computeCost ((computeCaches ?il)\<lparr>il_seen := s\<rparr>) = computeCost (computeCaches ?il)" for s by (rule ext) (simp add: computeCost_def)
  then show "inflation_ok (matchSize_inflation master il) m"
    unfolding matchSize_inflation_def by (intro inflation_ok_cong [OF ok(1) [of m]]) simp_all
  show "distances_ok (matchSize_inflation master il)"
    using ok(2) unfolding matchSize_inflation_def by (simp add: distances_ok_def Let_def)
qed

lemma matchSize_inflation_fields [simp]:
  "il_cost_scaling_factor (matchSize_inflation master il) = il_cost_scaling_factor il"
  "il_inflation_radius (matchSize_inflation master il) = il_inflation_radius il"
  "il_need_reinflation (matchSize_inflation master il) = il_need_reinflation il"
  by (simp_all add: matchSize_inflation_def)

lemma differs_costs [simp]: "differs (m\<lparr>cm_costmap := costs\<rparr>) = differs m"
  by (rule ext) (simp add: differs_def)

lemma interpretValue_cong:
  "interpretValue (sl\<lparr>sl_costmap := m\<rparr>) = interpretValue sl"
  by (rule ext) (simp add: interpretValue_def)

section \<open>A map arrives\<close>

lemma memcpy_all: "length src = length xs \<Longrightarrow> memcpy 0 src 0 (length xs) xs = src"
  by (simp add: memcpy_def)

lemma new_Costmap2D_same_grid: "same_grid (new_Costmap2D j sx sy res ox oy v) (new_Costmap2D j' sx sy res ox oy v')"
  by (simp add: same_grid_def)

text \<open>The costmaps after a map was taken over, with or without resizing.\<close>

lemma processMap_sized:
  assumes "good_map g" and "resize_ready (og_resolution g) lc"
    and "lc_size_locked lc \<Longrightarrow> master_ok lc \<and> wf_costmap (sl_costmap (lc_static lc)) \<and> same_grid (sl_costmap (lc_static lc)) (lc_combined_costmap lc)"
  obtains lc1 where "processMap junk g lc = lc1\<lparr>lc_static := (lc_static lc1)\<lparr>
      sl_costmap := (sl_costmap (lc_static lc1))\<lparr>cm_costmap := map (\<lambda>v. interpretValue (lc_static lc) (word_of_int v)) (og_data g)\<rparr>,
      sl_map_frame := og_frame_id g, sl_x := 0, sl_y := 0, sl_width := og_width g, sl_height := og_height g,
      sl_has_updated_data := True, sl_current := True\<rparr>\<rparr>"
    and "master_ok lc1" and "lc_size_locked lc1" and "same_grid (sl_costmap (lc_static lc1)) (lc_combined_costmap lc1)" and "wf_costmap (sl_costmap (lc_static lc1))"
    and "cm_size_x (sl_costmap (lc_static lc1)) = og_width g" and "cm_size_y (sl_costmap (lc_static lc1)) = og_height g"
    and "lc_static lc1 = (lc_static lc)\<lparr>sl_costmap := sl_costmap (lc_static lc1)\<rparr>"
    and "il_need_reinflation (lc_inflation lc1) = il_need_reinflation (lc_inflation lc)" and "\<not> differs (sl_costmap (lc_static lc1)) g"
proof -
  obtain ox oy oz where o: "og_origin g = (ox, oy, oz)" by (cases "og_origin g")
  have g: "og_width g * og_height g < 2 ^ 32" "0 < og_width g" "0 < og_height g" "0 < og_resolution g"
    "length (og_data g) = og_width g * og_height g" "in_doubles ox oy (og_resolution g) (og_width g) (og_height g)"
    using assms(1) by (auto simp: good_map_def validateMsg_def o)
  let ?resize = "differs (lc_combined_costmap lc) g \<or> \<not> lc_size_locked lc"
  define lc1 where "lc1 = (if ?resize then layered_resizeMap junk (og_width g) (og_height g) (og_resolution g) ox oy True lc else lc)"
  have same: "differs (sl_costmap (lc_static lc)) g \<longleftrightarrow> differs (lc_combined_costmap lc) g" if "lc_size_locked lc"
    using assms(3) [OF that] by (auto simp: differs_def same_grid_def)
  have facts: "master_ok lc1 \<and> lc_size_locked lc1 \<and> same_grid (sl_costmap (lc_static lc1)) (lc_combined_costmap lc1) \<and>
      wf_costmap (sl_costmap (lc_static lc1)) \<and> cm_size_x (sl_costmap (lc_static lc1)) = og_width g \<and> cm_size_y (sl_costmap (lc_static lc1)) = og_height g \<and>
      lc_static lc1 = (lc_static lc)\<lparr>sl_costmap := sl_costmap (lc_static lc1)\<rparr> \<and>
      il_need_reinflation (lc_inflation lc1) = il_need_reinflation (lc_inflation lc) \<and> \<not> differs (sl_costmap (lc_static lc1)) g"
  proof (cases ?resize)
    case True
    have wf: "wf_costmap (new_Costmap2D junk (og_width g) (og_height g) (og_resolution g) ox oy v)" for v
      by (rule wf_new_Costmap2D [OF g(1,4)])
    note inf = matchSize_inflation_ok [of "new_Costmap2D junk (og_width g) (og_height g) (og_resolution g) ox oy NO_INFORMATION" "lc_inflation lc"]
    from True assms(2) g wf inf show ?thesis
      by (simp add: resize_ready_def lc1_def layered_resizeMap_def resizeMap_new matchSize_static_def master_ok_def same_grid_def differs_def isEqual_def o Let_def)
  next
    case False
    then have "\<not> differs (sl_costmap (lc_static lc)) g" using same by simp
    with False assms(3) show ?thesis by (auto simp: lc1_def differs_def o)
  qed
  have len: "length (cm_costmap (sl_costmap (lc_static lc1))) = og_width g * og_height g" using facts by (simp add: wf_costmap_def)
  have interp: "interpretValue (lc_static lc1) = interpretValue (lc_static lc)"
    using facts interpretValue_cong [where sl = "lc_static lc" and m = "sl_costmap (lc_static lc1)"] by metis
  have "memcpy 0 (map f (og_data g)) 0 (wrap32 (og_width g * og_height g)) (cm_costmap (sl_costmap (lc_static lc1))) = map f (og_data g)" for f
    using memcpy_all [of "map f (og_data g)" "cm_costmap (sl_costmap (lc_static lc1))"] len g(1,5) by simp
  moreover have "processMap junk g lc = lc1\<lparr>lc_static := (lc_static lc1)\<lparr>
      sl_costmap := (sl_costmap (lc_static lc1))\<lparr>cm_costmap := memcpy 0 (map (\<lambda>v. interpretValue (lc_static lc1) (word_of_int v)) (og_data g)) 0
        (wrap32 (og_width g * og_height g)) (cm_costmap (sl_costmap (lc_static lc1)))\<rparr>,
      sl_map_frame := og_frame_id g, sl_x := 0, sl_y := 0, sl_width := og_width g, sl_height := og_height g,
      sl_has_updated_data := True, sl_current := True\<rparr>\<rparr>"
    using same facts by (auto simp: processMap_def o lc1_def Let_def)
  ultimately show ?thesis using that [of lc1] facts interp by simp
qed

lemma wf_map_cells:
  assumes "wf_costmap m" and "cm_size_x m = og_width g" and "cm_size_y m = og_height g" and "good_map g"
  shows "wf_costmap (m\<lparr>cm_costmap := map f (og_data g)\<rparr>)"
  using assms by (simp add: wf_costmap_def good_map_def validateMsg_def)

lemma processMap_ok:
  assumes "good_map g" and "resize_ready (og_resolution g) lc" and "sl_enabled (lc_static lc)"
    and "lc_size_locked lc \<Longrightarrow> master_ok lc \<and> wf_costmap (sl_costmap (lc_static lc)) \<and> same_grid (sl_costmap (lc_static lc)) (lc_combined_costmap lc)"
    and "lc' = processMap junk g lc"
  shows "master_ok lc' \<and> static_ok lc' \<and> lc_size_locked lc' \<and> sl_enabled (lc_static lc') \<and> sl_has_updated_data (lc_static lc') \<and> map_in_use g lc' \<and>
    sl_map_received (lc_static lc') = sl_map_received (lc_static lc) \<and> sl_map_buffer (lc_static lc') = sl_map_buffer (lc_static lc) \<and>
    sl_map_received_in_update_bounds (lc_static lc') = sl_map_received_in_update_bounds (lc_static lc) \<and>
    il_need_reinflation (lc_inflation lc') = il_need_reinflation (lc_inflation lc)"
proof -
  obtain lc1 where lc': "lc' = lc1\<lparr>lc_static := (lc_static lc1)\<lparr>
      sl_costmap := (sl_costmap (lc_static lc1))\<lparr>cm_costmap := map (\<lambda>v. interpretValue (lc_static lc) (word_of_int v)) (og_data g)\<rparr>,
      sl_map_frame := og_frame_id g, sl_x := 0, sl_y := 0, sl_width := og_width g, sl_height := og_height g,
      sl_has_updated_data := True, sl_current := True\<rparr>\<rparr>"
    and lc1: "master_ok lc1" "lc_size_locked lc1" "same_grid (sl_costmap (lc_static lc1)) (lc_combined_costmap lc1)" "wf_costmap (sl_costmap (lc_static lc1))"
      "cm_size_x (sl_costmap (lc_static lc1)) = og_width g" "cm_size_y (sl_costmap (lc_static lc1)) = og_height g"
      "lc_static lc1 = (lc_static lc)\<lparr>sl_costmap := sl_costmap (lc_static lc1)\<rparr>"
      "il_need_reinflation (lc_inflation lc1) = il_need_reinflation (lc_inflation lc)" "\<not> differs (sl_costmap (lc_static lc1)) g"
    using processMap_sized [OF assms(1,2,4), of junk] assms(5) by metis
  obtain m1 where sl: "lc_static lc1 = (lc_static lc)\<lparr>sl_costmap := m1\<rparr>" using lc1(7) by blast
  have "interpretValue (lc_static lc') = interpretValue (lc_static lc)" unfolding lc' by (rule ext) (simp add: interpretValue_def sl)
  then have "map_in_use g lc'" using lc1(5,6,9) by (simp add: map_in_use_def Let_def) (simp add: lc')
  moreover have "static_ok lc'"
    using lc1(3,5,6) wf_map_cells [OF lc1(4-6) assms(1)] by (simp add: static_ok_def lc' same_grid_def Let_def)
  moreover have "master_ok lc'" using lc1(1) by (simp add: master_ok_def lc' Let_def)
  ultimately show ?thesis using lc1(2,8) assms(3) by (simp add: lc' sl)
qed

lemma master_ok_static [simp]: "master_ok (lc\<lparr>lc_static := sl\<rparr>) \<longleftrightarrow> master_ok lc"
  by (simp add: master_ok_def)

lemma interpretValue_flags [simp]:
  "interpretValue (sl\<lparr>sl_map_received := b\<rparr>) = interpretValue sl" "interpretValue (sl\<lparr>sl_map_received_in_update_bounds := b\<rparr>) = interpretValue sl"
  "interpretValue (sl\<lparr>sl_map_buffer := buf\<rparr>) = interpretValue sl" "interpretValue (sl\<lparr>sl_has_updated_data := b\<rparr>) = interpretValue sl"
  "interpretValue (sl\<lparr>sl_current := b\<rparr>) = interpretValue sl" "interpretValue (sl\<lparr>sl_extra := e\<rparr>) = interpretValue sl"
  "interpretValue (sl\<lparr>sl_has_extra_bounds := b\<rparr>) = interpretValue sl" "interpretValue (sl\<lparr>sl_costmap := m\<rparr>) = interpretValue sl"
  "interpretValue (sl\<lparr>sl_map_frame := f\<rparr>) = interpretValue sl" "interpretValue (sl\<lparr>sl_x := n\<rparr>) = interpretValue sl"
  "interpretValue (sl\<lparr>sl_y := n\<rparr>) = interpretValue sl" "interpretValue (sl\<lparr>sl_width := n\<rparr>) = interpretValue sl"
  "interpretValue (sl\<lparr>sl_height := n\<rparr>) = interpretValue sl"
  by (rule ext, simp add: interpretValue_def)+

lemma flag_updates [simp]:
  "static_ok (lc\<lparr>lc_static := (lc_static lc)\<lparr>sl_map_received := b\<rparr>\<rparr>) \<longleftrightarrow> static_ok lc"
  "static_ok (lc\<lparr>lc_static := (lc_static lc)\<lparr>sl_map_received_in_update_bounds := b\<rparr>\<rparr>) \<longleftrightarrow> static_ok lc"
  "static_ok (lc\<lparr>lc_static := (lc_static lc)\<lparr>sl_map_buffer := buf\<rparr>\<rparr>) \<longleftrightarrow> static_ok lc"
  "shows_layer (lc\<lparr>lc_static := (lc_static lc)\<lparr>sl_map_received_in_update_bounds := b\<rparr>\<rparr>) \<longleftrightarrow> shows_layer lc"
  "shows_layer (lc\<lparr>lc_static := (lc_static lc)\<lparr>sl_map_buffer := buf\<rparr>\<rparr>) \<longleftrightarrow> shows_layer lc"
  "map_in_use g (lc\<lparr>lc_static := (lc_static lc)\<lparr>sl_map_received := b\<rparr>\<rparr>) \<longleftrightarrow> map_in_use g lc"
  "map_in_use g (lc\<lparr>lc_static := (lc_static lc)\<lparr>sl_map_received_in_update_bounds := b\<rparr>\<rparr>) \<longleftrightarrow> map_in_use g lc"
  "map_in_use g (lc\<lparr>lc_static := (lc_static lc)\<lparr>sl_map_buffer := buf\<rparr>\<rparr>) \<longleftrightarrow> map_in_use g lc"
  by (simp_all add: static_ok_def shows_layer_def map_in_use_def Let_def)

lemma incomingMap_ok:
  assumes "room_ok ps msg lc" and "good_map g" and "msg = None \<Longrightarrow> refills ps g"
  shows "room_ok ps (Some g) (incomingMap junk True g lc)"
proof (cases "sl_map_received (lc_static lc)")
  case True
  then have "incomingMap junk True g lc = lc\<lparr>lc_static := (lc_static lc)\<lparr>sl_map_buffer := Some g\<rparr>\<rparr>"
    using assms(2) by (simp add: incomingMap_def good_map_def)
  with True assms show ?thesis by (cases msg) (simp_all add: room_ok_def)
next
  case False
  then have none: "msg = None" using assms(1) by (cases msg) (simp_all add: room_ok_def)
  obtain lc2 where lc2: "lc2 = processMap junk g lc" by blast
  have "master_ok lc2 \<and> static_ok lc2 \<and> lc_size_locked lc2 \<and> sl_enabled (lc_static lc2) \<and> sl_has_updated_data (lc_static lc2) \<and> map_in_use g lc2 \<and>
      sl_map_buffer (lc_static lc2) = None"
    using processMap_ok [OF assms(2) fresh_ok_resize [of ps lc g] _ _ lc2] assms(1,3) none by (simp add: room_ok_def)
  moreover have "incomingMap junk True g lc = lc2\<lparr>lc_static := (lc_static lc2)\<lparr>sl_map_received := True\<rparr>\<rparr>"
    using False assms(2) by (simp add: incomingMap_def good_map_def lc2 Let_def)
  ultimately show ?thesis using assms(2) by (simp add: room_ok_def)
qed

lemma load_buffer_ok:
  assumes "room_ok ps (Some g) lc" and "sl_map_received_in_update_bounds (lc_static lc)" and "lc' = load_buffer junk lc"
  shows "room_ok ps (Some g) lc' \<and> sl_map_buffer (lc_static lc') = None \<and> map_in_use g lc' \<and> sl_map_received_in_update_bounds (lc_static lc')"
proof (cases "sl_map_buffer (lc_static lc)")
  case None
  then show ?thesis using assms by (auto simp: load_buffer_def room_ok_def)
next
  case (Some b)
  obtain lc2 where lc2: "lc2 = processMap junk g lc" by blast
  have b: "b = g" using assms(1) Some by (simp add: room_ok_def)
  have "master_ok lc2 \<and> static_ok lc2 \<and> lc_size_locked lc2 \<and> sl_enabled (lc_static lc2) \<and> sl_has_updated_data (lc_static lc2) \<and> map_in_use g lc2 \<and>
      sl_map_received (lc_static lc2) \<and> sl_map_received_in_update_bounds (lc_static lc2)"
    using processMap_ok [OF _ master_ok_resize [of lc] _ _ lc2] assms(1,2) by (simp add: room_ok_def static_ok_def Let_def)
  moreover have "lc' = lc2\<lparr>lc_static := (lc_static lc2)\<lparr>sl_map_buffer := None\<rparr>\<rparr>" using assms(3) Some b by (simp add: load_buffer_def lc2 Let_def)
  ultimately show ?thesis using assms(1) by (simp add: room_ok_def)
qed

section \<open>An update\<close>

lemma enforce_low:
  assumes "0 < res" and "0 < cells" and "w \<le> origin + res / 2"
  shows "max 0 (enforce_bounds origin cells res w) = 0"
proof -
  have "res \<le> res * real cells" using assms(1,2) by simp
  then have "\<not> res * real cells + origin < w" using assms(1,3) by linarith
  moreover have "to_int ((w - origin) / res) = 0" if "\<not> w < origin"
  proof -
    have "0 \<le> (w - origin) / res" "(w - origin) / res < 1" using that assms(1,3) by (simp_all add: field_simps)
    then show ?thesis by (simp add: to_int_def floor_eq_iff)
  qed
  ultimately show ?thesis by (simp add: enforce_bounds_def)
qed

lemma enforce_high:
  assumes "0 < res" and "0 < cells" and "res * real cells + origin \<le> w"
  shows "min (int cells) (enforce_bounds origin cells res w + 1) = int cells"
proof -
  have pos: "0 < res * real cells" using assms(1,2) by simp
  show ?thesis
  proof (cases "res * real cells + origin < w")
    case True
    with pos show ?thesis by (simp add: enforce_bounds_def)
  next
    case False
    with assms have "(w - origin) / res = real cells" by (simp add: field_simps)
    with False pos assms(3) show ?thesis by (simp add: enforce_bounds_def to_int_def)
  qed
qed

lemma static_write:
  assumes "wf_costmap m" and "win_fits win m" and "wf_costmap (sl_costmap sl)" and "same_grid (sl_costmap sl) m" and "sl_enabled sl"
    and "sl_map_received_in_update_bounds sl" and "updateCosts_static sl win m = (m', sl')"
    and "\<And>x y. in_map m x y \<Longrightarrow> in_window win x y \<Longrightarrow> getCost m x y = NO_INFORMATION"
  shows "wf_costmap m'" and "m' = m\<lparr>cm_costmap := cm_costmap m'\<rparr>" and "sl' = sl\<lparr>sl_current := True\<rparr>"
    and "in_map m x y \<Longrightarrow> getCost m' x y = (if in_window win x y then getCost (sl_costmap sl) x y else getCost m x y)"
proof -
  have idx: "getIndex (sl_costmap sl) = getIndex m" using assms(4) by (simp add: same_grid_def getIndex_def fun_eq_iff)
  let ?f = "if sl_use_maximum sl then (\<lambda>cost old_cost. if cost = NO_INFORMATION then old_cost else if old_cost = NO_INFORMATION \<or> old_cost < cost then cost else old_cost)
    else (\<lambda>cost old_cost. cost)"
  have m': "m' = update_window ?f (sl_costmap sl) win m" "sl' = sl\<lparr>sl_current := True\<rparr>"
    using assms(5-7) by (auto simp: updateCosts_static_def updateWithMax_def updateWithTrueOverwrite_def)
  show "wf_costmap m'" "m' = m\<lparr>cm_costmap := cm_costmap m'\<rparr>" using update_window_cell(1,2) [OF assms(1,2)] by (simp_all only: m')
  show "sl' = sl\<lparr>sl_current := True\<rparr>" by (rule m'(2))
  show "getCost m' x y = (if in_window win x y then getCost (sl_costmap sl) x y else getCost m x y)" if xy: "in_map m x y"
    using update_window_cell(3) [OF assms(1,2) xy, of ?f "sl_costmap sl"] assms(8) [OF xy] unfolding m'(1) by (auto simp: getCost_def [of "sl_costmap sl"] idx)
qed

text \<open>The rectangle contains the centre of the first cell and reaches the far corner of the map.\<close>

definition covers :: "bounds \<Rightarrow> Costmap2D \<Rightarrow> bool" where
  "covers b m \<longleftrightarrow> (case b of (min_x, min_y, max_x, max_y) \<Rightarrow>
     min_x \<le> cm_origin_x m + cm_resolution m / 2 \<and> min_y \<le> cm_origin_y m + cm_resolution m / 2 \<and>
     cm_resolution m * real (cm_size_x m) + cm_origin_x m \<le> max_x \<and> cm_resolution m * real (cm_size_y m) + cm_origin_y m \<le> max_y)"

definition loaded :: "OccupancyGrid \<Rightarrow> LayeredCostmap \<Rightarrow> bool" where
  "loaded g lc \<longleftrightarrow> good_map g \<and> master_ok lc \<and> static_ok lc \<and> lc_size_locked lc \<and> map_in_use g lc \<and>
     sl_enabled (lc_static lc) \<and> sl_map_received (lc_static lc) \<and> sl_map_received_in_update_bounds (lc_static lc) \<and> sl_map_buffer (lc_static lc) = None"

lemma map_covers:
  assumes "same_grid layer m" and "0 < cm_resolution m" and "mapToWorld layer 0 0 = (wx0, wy0)"
    and "mapToWorld layer (cm_size_x m) (cm_size_y m) = (wx1, wy1)"
  shows "covers (min wx0 min_x, min wy0 min_y, max wx1 max_x, max wy1 max_y) m"
proof -
  have "wx0 = cm_origin_x m + cm_resolution m / 2" "wy0 = cm_origin_y m + cm_resolution m / 2"
    "wx1 = cm_resolution m * real (cm_size_x m) + cm_origin_x m + cm_resolution m / 2"
    "wy1 = cm_resolution m * real (cm_size_y m) + cm_origin_y m + cm_resolution m / 2"
    using assms(1,3,4) by (auto simp: mapToWorld_def same_grid_def field_simps)
  with assms(2) show ?thesis by (simp add: covers_def le_max_iff_disj)
qed

lemma updateBounds_static_ok:
  assumes "room_ok ps (Some g) lc" and "updateBounds_static junk b lc = (b1, lc1)"
  shows "loaded g lc1 \<and> (shows_layer lc1 \<or> covers b1 (lc_combined_costmap lc1))"
proof -
  define lc0 where "lc0 = lc\<lparr>lc_static := (lc_static lc)\<lparr>sl_map_received_in_update_bounds := True\<rparr>\<rparr>"
  define lc2 where "lc2 = load_buffer junk lc0"
  have "room_ok ps (Some g) lc0" using assms(1) by (simp add: room_ok_def lc0_def)
  from load_buffer_ok [OF this _ lc2_def] have ok: "room_ok ps (Some g) lc2" "sl_map_buffer (lc_static lc2) = None" "map_in_use g lc2"
      "sl_map_received_in_update_bounds (lc_static lc2)"
    by (simp_all add: lc0_def)
  then have l: "loaded g lc2" by (simp add: loaded_def room_ok_def)
  have "sl_map_received (lc_static lc)" using assms(1) by (simp add: room_ok_def)
  note run = assms(2) [unfolded updateBounds_static_def, folded lc0_def, folded lc2_def, unfolded Let_def, simplified this]
  show ?thesis
  proof (cases "sl_has_updated_data (lc_static lc2) \<or> sl_has_extra_bounds (lc_static lc2)")
    case False
    then have "lc1 = lc2" using run by simp
    moreover have "shows_layer lc2" using ok(1) False by (simp add: room_ok_def)
    ultimately show ?thesis using l by simp
  next
    case True
    obtain bx0 by0 bx1 by1 sl1 where use: "useExtraBounds b (lc_static lc2) = ((bx0, by0, bx1, by1), sl1)" by (metis prod.collapse)
    have sl1: "\<exists>e h. sl1 = (lc_static lc2)\<lparr>sl_extra := e, sl_has_extra_bounds := h\<rparr>"
    proof (cases "sl_has_extra_bounds (lc_static lc2)")
      case True
      then have "sl1 = (lc_static lc2)\<lparr>sl_extra := (1000000, 1000000, - 1000000, - 1000000), sl_has_extra_bounds := False\<rparr>"
        using use by (auto simp: useExtraBounds_def split: prod.splits)
      then show ?thesis by blast
    next
      case False
      then have "sl1 = (lc_static lc2)\<lparr>sl_extra := sl_extra (lc_static lc2), sl_has_extra_bounds := sl_has_extra_bounds (lc_static lc2)\<rparr>"
        using use by (simp add: useExtraBounds_def)
      then show ?thesis by blast
    qed
    obtain wx0 wy0 where w0: "mapToWorld (sl_costmap sl1) (sl_x sl1) (sl_y sl1) = (wx0, wy0)" by (metis prod.collapse)
    obtain wx1 wy1 where w1: "mapToWorld (sl_costmap sl1) (sl_x sl1 + sl_width sl1) (sl_y sl1 + sl_height sl1) = (wx1, wy1)" by (metis prod.collapse)
    have "b1 = (min wx0 bx0, min wy0 by0, max wx1 bx1, max wy1 by1)" and lc1: "lc1 = lc2\<lparr>lc_static := sl1\<lparr>sl_has_updated_data := False\<rparr>\<rparr>"
      using run True use w0 w1 by auto
    moreover have "loaded g lc1"
      using l sl1 unfolding lc1 by (auto simp: loaded_def static_ok_def map_in_use_def Let_def)
    moreover have "covers (min wx0 bx0, min wy0 by0, max wx1 bx1, max wy1 by1) (lc_combined_costmap lc1)"
    proof (rule map_covers)
      show "same_grid (sl_costmap sl1) (lc_combined_costmap lc1)" using l sl1 unfolding lc1 by (auto simp: loaded_def static_ok_def Let_def)
      show "0 < cm_resolution (lc_combined_costmap lc1)" using l unfolding lc1 by (simp add: loaded_def master_ok_def wf_costmap_def Let_def)
      show "mapToWorld (sl_costmap sl1) 0 0 = (wx0, wy0)" "mapToWorld (sl_costmap sl1) (cm_size_x (lc_combined_costmap lc1)) (cm_size_y (lc_combined_costmap lc1)) = (wx1, wy1)"
        using w0 w1 l sl1 unfolding lc1 by (auto simp: loaded_def static_ok_def Let_def)
    qed
    ultimately show ?thesis by simp
  qed
qed

lemma updateBounds_inflation_ok:
  assumes "master_ok lc" and "updateBounds_inflation (lc_inflation lc) b = (b', il)"
  shows "inflation_ok il (lc_combined_costmap lc) \<and> distances_ok il \<and> 0 \<le> il_cost_scaling_factor il \<and> 0 \<le> il_inflation_radius il"
    and "covers b (lc_combined_costmap lc) \<Longrightarrow> covers b' (lc_combined_costmap lc)"
proof -
  obtain min_x min_y max_x max_y where b: "b = (min_x, min_y, max_x, max_y)" by (cases b)
  note ok = assms(1) [unfolded master_ok_def Let_def]
  let ?il = "lc_inflation lc"
  have "il = snd (updateBounds_inflation ?il b)" using assms(2) by simp
  then have il: "il_cell_inflation_radius il = il_cell_inflation_radius ?il" "il_cache_length il = il_cache_length ?il"
    "il_cached_distances il = il_cached_distances ?il" "il_cached_costs il = il_cached_costs ?il" "il_distance_matrix il = il_distance_matrix ?il"
    "il_inflation_cells il = il_inflation_cells ?il" "il_cached_cell_inflation_radius il = il_cached_cell_inflation_radius ?il"
    "il_cost_scaling_factor il = il_cost_scaling_factor ?il" "il_inflation_radius il = il_inflation_radius ?il"
    "il_resolution il = il_resolution ?il" "il_inscribed_radius il = il_inscribed_radius ?il"
    by (simp_all add: updateBounds_inflation_def b)
  have "computeCost il = computeCost ?il" by (rule ext) (simp add: computeCost_def il)
  moreover have inf: "inflation_ok ?il (lc_combined_costmap lc)" using ok by blast
  ultimately have "inflation_ok il (lc_combined_costmap lc)" by - (rule inflation_ok_cong [OF inf], simp_all add: il)
  then show "inflation_ok il (lc_combined_costmap lc) \<and> distances_ok il \<and> 0 \<le> il_cost_scaling_factor il \<and> 0 \<le> il_inflation_radius il"
    using ok by (simp add: il distances_ok_def Let_def)
  have res: "0 < cm_resolution (lc_combined_costmap lc)" using ok by (simp add: wf_costmap_def)
  show "covers b' (lc_combined_costmap lc)" if "covers b (lc_combined_costmap lc)"
  proof (cases "il_need_reinflation ?il")
    case True
    then have "b' = (- dbl_max, - dbl_max, dbl_max, dbl_max)" using assms(2) by (simp add: updateBounds_inflation_def b)
    with ok res show ?thesis by (auto simp: covers_def in_doubles_def intro: order_trans)
  next
    case False
    then have "b' = (min (il_last_min_x ?il) min_x - il_inflation_radius ?il, min (il_last_min_y ?il) min_y - il_inflation_radius ?il,
        max (il_last_max_x ?il) max_x + il_inflation_radius ?il, max (il_last_max_y ?il) max_y + il_inflation_radius ?il)"
      using assms(2) by (simp add: updateBounds_inflation_def b)
    with that ok show ?thesis by (auto simp: covers_def b)
  qed
qed

definition win_of :: "Costmap2D \<Rightarrow> bounds \<Rightarrow> window" where
  "win_of m b = (case b of (min_x, min_y, max_x, max_y) \<Rightarrow>
     case (worldToMapEnforceBounds m min_x min_y, worldToMapEnforceBounds m max_x max_y) of ((ex0, ey0), (exn, eyn)) \<Rightarrow>
       (max 0 ex0, max 0 ey0, min (int (cm_size_x m)) (exn + 1), min (int (cm_size_y m)) (eyn + 1)))"

lemma covers_all:
  assumes "covers b m" and "wf_costmap m" and "0 < cm_size_x m" and "0 < cm_size_y m"
  shows "win_of m b = (0, 0, int (cm_size_x m), int (cm_size_y m))"
proof -
  obtain min_x min_y max_x max_y where b: "b = (min_x, min_y, max_x, max_y)" by (cases b)
  have res: "0 < cm_resolution m" using assms(2) by (simp add: wf_costmap_def)
  show ?thesis
    using assms(1) enforce_low [OF res assms(3)] enforce_low [OF res assms(4)] enforce_high [OF res assms(3)] enforce_high [OF res assms(4)]
    by (simp add: win_of_def b covers_def worldToMapEnforceBounds_def)
qed

lemma with_costs_trans: "m0 = m\<lparr>cm_costmap := a\<rparr> \<Longrightarrow> m1 = m0\<lparr>cm_costmap := b\<rparr> \<Longrightarrow> m1 = m\<lparr>cm_costmap := cm_costmap m1\<rparr>"
  by simp

text \<open>Both layers write a window of the combined costmap.\<close>

lemma layers_write:
  assumes "wf_costmap m" and "win_fits win m" and "win = (x0, y0, xn, yn)" and "cm_size_x m < 2 ^ 32" and "cm_default_value m = NO_INFORMATION"
    and "inflation_ok il m" and "0 \<le> il_cost_scaling_factor il"
    and "updateCosts_static sl win (resetMap (nat x0) (nat y0) (nat xn) (nat yn) m) = (m1, sl')" and "updateCosts_inflation il win m1 = (m2, il')"
  shows "wf_costmap m2" and "m2 = m\<lparr>cm_costmap := cm_costmap m2\<rparr>" and "inflation_ok il' m2"
    and "\<exists>seen current. il' = il\<lparr>il_seen := seen, il_inflation_cells := il_inflation_cells il', il_current := current\<rparr>"
    and "\<exists>current. sl' = sl\<lparr>sl_current := current\<rparr>"
    and "wf_costmap (sl_costmap sl) \<Longrightarrow> same_grid (sl_costmap sl) m \<Longrightarrow> sl_enabled sl \<Longrightarrow> sl_map_received_in_update_bounds sl \<Longrightarrow> in_map m x y \<Longrightarrow>
      in_window win x y \<Longrightarrow> getCost (sl_costmap sl) x y \<noteq> NO_INFORMATION \<Longrightarrow>
      getCost (sl_costmap sl) x y \<le> getCost m2 x y \<and> getCost m2 x y \<noteq> NO_INFORMATION"
    and "in_map m x y \<Longrightarrow> \<not> in_window win x y \<Longrightarrow> getCost m2 x y = getCost m x y"
proof -
  let ?m0 = "resetMap (nat x0) (nat y0) (nat xn) (nat yn) m"
  note reset = resetMap_cell [OF assms(1) assms(2) [unfolded assms(3)] assms(4), folded assms(3)]
  have size0: "cm_size_x ?m0 = cm_size_x m" "cm_size_y ?m0 = cm_size_y m" "win_fits win ?m0"
    using arg_cong [OF reset(2), of cm_size_x] arg_cong [OF reset(2), of cm_size_y] assms(2) by (simp_all add: win_fits_def)
  have m1: "wf_costmap m1 \<and> m1 = ?m0\<lparr>cm_costmap := cm_costmap m1\<rparr> \<and> (\<exists>current. sl' = sl\<lparr>sl_current := current\<rparr>) \<and>
      (\<forall>x y. in_map m x y \<longrightarrow> \<not> in_window win x y \<longrightarrow> getCost m1 x y = getCost m x y)"
  proof (cases "sl_enabled sl \<and> sl_map_received_in_update_bounds sl")
    case True
    define f where "f = (if sl_use_maximum sl then (\<lambda>cost old_cost :: uchar. if cost = NO_INFORMATION then old_cost else if old_cost = NO_INFORMATION \<or> old_cost < cost then cost else old_cost)
      else (\<lambda>cost old_cost. cost))"
    have "m1 = update_window f (sl_costmap sl) win ?m0" and sl': "sl' = sl\<lparr>sl_current := True\<rparr>"
      using True assms(8) by (auto simp: updateCosts_static_def updateWithMax_def updateWithTrueOverwrite_def f_def)
    with update_window_cell [OF reset(1) size0(3), where f = f and layer = "sl_costmap sl"] have "wf_costmap m1" "m1 = ?m0\<lparr>cm_costmap := cm_costmap m1\<rparr>"
      "\<forall>x y. in_map m x y \<longrightarrow> \<not> in_window win x y \<longrightarrow> getCost m1 x y = getCost ?m0 x y" by (simp_all add: size0)
    then show ?thesis using reset(3) sl' by auto
  next
    case False
    then have "m1 = ?m0" "sl' = sl" using assms(8) by (auto simp: updateCosts_static_def)
    moreover have "\<exists>current. sl = sl\<lparr>sl_current := current\<rparr>" by (rule exI [of _ "sl_current sl"]) simp
    ultimately show ?thesis using reset(1,3) by simp
  qed
  then have same1: "m1 = m\<lparr>cm_costmap := cm_costmap m1\<rparr>" using with_costs_trans [OF reset(2)] by blast
  have size1: "cm_size_x m1 = cm_size_x m" "cm_size_y m1 = cm_size_y m" using arg_cong [OF same1, of cm_size_x] arg_cong [OF same1, of cm_size_y] by simp_all
  have "inflation_ok il m1" by (rule inflation_ok_cong [OF assms(6)]) (simp_all add: size1)
  note inflated = updateCosts_inflation_keeps [OF conjunct1 [OF m1] this assms(7,9)]
  show "wf_costmap m2" "inflation_ok il' m2" "\<exists>current. sl' = sl\<lparr>sl_current := current\<rparr>"
    "\<exists>seen current. il' = il\<lparr>il_seen := seen, il_inflation_cells := il_inflation_cells il', il_current := current\<rparr>"
    using inflated(2,3,6) m1 by blast+
  show "m2 = m\<lparr>cm_costmap := cm_costmap m2\<rparr>" by (rule with_costs_trans [OF same1 inflated(1)])
  show "getCost m2 x y = getCost m x y" if "in_map m x y" "\<not> in_window win x y" using inflated(4) [of x y] m1 that by (simp add: size1)
  show "getCost (sl_costmap sl) x y \<le> getCost m2 x y \<and> getCost m2 x y \<noteq> NO_INFORMATION"
    if layer: "wf_costmap (sl_costmap sl)" "same_grid (sl_costmap sl) m" "sl_enabled sl" "sl_map_received_in_update_bounds sl" and xy: "in_map m x y"
      and win: "in_window win x y" and known: "getCost (sl_costmap sl) x y \<noteq> NO_INFORMATION"
  proof -
    have grid: "same_grid (sl_costmap sl) ?m0" using layer(2) by (subst reset(2)) (simp add: same_grid_def)
    have "getCost m1 x y = getCost (sl_costmap sl) x y"
      using static_write(4) [OF reset(1) size0(3) layer(1) grid layer(3,4) assms(8), of x y] reset(3) assms(5) xy win by (simp add: size0)
    then show ?thesis using inflated(5) [of x y] known xy by (simp add: size1)
  qed
qed

lemma updateMap_win:
  assumes "updateBounds_static junk (dbl_max, dbl_max, - dbl_max, - dbl_max) lc = (b1, lc1)" and "updateBounds_inflation (lc_inflation lc1) b1 = (b2, il)"
    and "win_of (lc_combined_costmap lc1) b2 = (x0, y0, xn, yn)"
  shows "updateMap junk lc =
    (let lc2 = lc1\<lparr>lc_bounds := b2, lc_inflation := il\<rparr>
     in if xn < x0 \<or> yn < y0 then lc2
        else case updateCosts_static (lc_static lc1) (x0, y0, xn, yn) (resetMap (nat x0) (nat y0) (nat xn) (nat yn) (lc_combined_costmap lc1)) of (m1, sl) \<Rightarrow>
             case updateCosts_inflation il (x0, y0, xn, yn) m1 of (m2, il') \<Rightarrow>
               lc2\<lparr>lc_combined_costmap := m2, lc_static := sl, lc_inflation := il', lc_window := (x0, y0, xn, yn), lc_initialized := True\<rparr>)"
proof -
  obtain min_x min_y max_x max_y where b2: "b2 = (min_x, min_y, max_x, max_y)" by (cases b2)
  let ?m = "lc_combined_costmap lc1"
  obtain ex0 ey0 where e0: "worldToMapEnforceBounds ?m min_x min_y = (ex0, ey0)" by (metis prod.collapse)
  obtain exn eyn where en: "worldToMapEnforceBounds ?m max_x max_y = (exn, eyn)" by (metis prod.collapse)
  have w: "x0 = max 0 ex0" "y0 = max 0 ey0" "xn = min (int (cm_size_x ?m)) (exn + 1)" "yn = min (int (cm_size_y ?m)) (eyn + 1)"
    using assms(3) by (simp_all add: win_of_def b2 e0 en)
  show ?thesis
    unfolding updateMap_def assms(1) prod.case assms(2) b2 Let_def e0 en w [symmetric] by simp
qed

lemma wf_size_x: "wf_costmap m \<Longrightarrow> 0 < cm_size_y m \<Longrightarrow> cm_size_x m < 2 ^ 32"
  unfolding wf_costmap_def using le_less_trans [of "cm_size_x m" "cm_size_x m * cm_size_y m" "2 ^ 32"] by simp

lemma master_ok_write:
  assumes "master_ok lc" and "wf_costmap m2" and "m2 = (lc_combined_costmap lc)\<lparr>cm_costmap := cm_costmap m2\<rparr>" and "inflation_ok il' m2"
    and "distances_ok il'" and "0 \<le> il_cost_scaling_factor il'" and "0 \<le> il_inflation_radius il'"
  shows "master_ok (lc\<lparr>lc_bounds := b, lc_inflation := il'', lc_combined_costmap := m2, lc_static := sl, lc_inflation := il', lc_window := w, lc_initialized := i\<rparr>)"
proof -
  have "cm_size_x m2 = cm_size_x (lc_combined_costmap lc)" "cm_size_y m2 = cm_size_y (lc_combined_costmap lc)"
    "cm_default_value m2 = cm_default_value (lc_combined_costmap lc)" "cm_origin_x m2 = cm_origin_x (lc_combined_costmap lc)"
    "cm_origin_y m2 = cm_origin_y (lc_combined_costmap lc)" "cm_resolution m2 = cm_resolution (lc_combined_costmap lc)"
    by (subst assms(3), simp)+
  with assms(1,2,4-7) show ?thesis by (simp add: master_ok_def Let_def)
qed

lemma updateMap_step:
  assumes "master_ok lc1" and "updateBounds_static junk (dbl_max, dbl_max, - dbl_max, - dbl_max) lc = (b1, lc1)" and "lc' = updateMap junk lc"
  shows "master_ok lc'" and "lc_size_locked lc' = lc_size_locked lc1" and "same_grid (lc_combined_costmap lc') (lc_combined_costmap lc1)"
    and "\<exists>current. lc_static lc' = (lc_static lc1)\<lparr>sl_current := current\<rparr>"
    and "static_ok lc1 \<Longrightarrow> sl_enabled (lc_static lc1) \<Longrightarrow> sl_map_received_in_update_bounds (lc_static lc1) \<Longrightarrow>
      shows_layer lc1 \<or> covers b1 (lc_combined_costmap lc1) \<Longrightarrow> shows_layer lc'"
proof -
  let ?m = "lc_combined_costmap lc1" and ?sl = "lc_static lc1"
  obtain b2 il where b2: "updateBounds_inflation (lc_inflation lc1) b1 = (b2, il)" by (metis prod.collapse)
  obtain x0 y0 xn yn where win: "win_of ?m b2 = (x0, y0, xn, yn)" by (metis prod.collapse)
  note run = updateMap_win [OF assms(2) b2 win, folded assms(3)] and il = updateBounds_inflation_ok [OF assms(1) b2]
  have m: "wf_costmap ?m" "0 < cm_size_x ?m" "0 < cm_size_y ?m" "cm_default_value ?m = NO_INFORMATION" using assms(1) by (simp_all add: master_ok_def Let_def)
  have "master_ok lc' \<and> lc_size_locked lc' = lc_size_locked lc1 \<and> same_grid (lc_combined_costmap lc') ?m \<and>
      (\<exists>current. lc_static lc' = ?sl\<lparr>sl_current := current\<rparr>) \<and>
      (static_ok lc1 \<and> sl_enabled ?sl \<and> sl_map_received_in_update_bounds ?sl \<and> (shows_layer lc1 \<or> covers b1 ?m) \<longrightarrow> shows_layer lc')"
  proof (cases "xn < x0 \<or> yn < y0")
    case True
    then have lc': "lc' = lc1\<lparr>lc_bounds := b2, lc_inflation := il\<rparr>" using run by (simp add: Let_def)
    have "\<exists>current. ?sl = ?sl\<lparr>sl_current := current\<rparr>" by (rule exI [of _ "sl_current ?sl"]) simp
    moreover have "\<not> covers b1 ?m" using True win covers_all [OF il(2) m(1-3)] by auto
    ultimately show ?thesis using il(1) assms(1) by (auto simp: lc' master_ok_def same_grid_def shows_layer_def Let_def)
  next
    case False
    obtain m1 sl where m1: "updateCosts_static ?sl (x0, y0, xn, yn) (resetMap (nat x0) (nat y0) (nat xn) (nat yn) ?m) = (m1, sl)" by (metis prod.collapse)
    obtain m2 il' where m2: "updateCosts_inflation il (x0, y0, xn, yn) m1 = (m2, il')" by (metis prod.collapse)
    have lc': "lc' = lc1\<lparr>lc_bounds := b2, lc_inflation := il, lc_combined_costmap := m2, lc_static := sl, lc_inflation := il', lc_window := (x0, y0, xn, yn), lc_initialized := True\<rparr>"
      using run False by (simp add: m1 m2)
    have fits: "win_fits (x0, y0, xn, yn) ?m" using False win by (cases b2) (auto simp: win_of_def win_fits_def split: prod.splits)
    note both = layers_write [OF m(1) fits refl wf_size_x [OF m(1,3)] m(4) conjunct1 [OF il(1)] _ m1 m2]
    obtain seen cells current where il': "il' = il\<lparr>il_seen := seen, il_inflation_cells := cells, il_current := current\<rparr>" using both(4) il(1) by blast
    have ok: "wf_costmap m2" "m2 = ?m\<lparr>cm_costmap := cm_costmap m2\<rparr>" "inflation_ok il' m2" "\<exists>current. sl = ?sl\<lparr>sl_current := current\<rparr>"
      using both(1-3,5) il(1) by blast+
    have "master_ok lc'" unfolding lc' using il(1) by (intro master_ok_write [OF assms(1) ok(1-3)]) (simp_all add: il' distances_ok_def Let_def)
    moreover have grid: "same_grid m2 ?m" by (subst ok(2)) (simp add: same_grid_def)
    moreover have "shows_layer lc'"
      if l: "static_ok lc1" "sl_enabled ?sl" "sl_map_received_in_update_bounds ?sl" "shows_layer lc1 \<or> covers b1 ?m"
      unfolding shows_layer_def
    proof (intro allI impI)
      fix x y assume "in_map (lc_combined_costmap lc') x y" and "getCost (sl_costmap (lc_static lc')) x y \<noteq> NO_INFORMATION"
      then have xy: "in_map ?m x y" "getCost (sl_costmap ?sl) x y \<noteq> NO_INFORMATION" using ok(4) grid by (auto simp: lc' same_grid_def)
      have "getCost (sl_costmap ?sl) x y \<le> getCost m2 x y \<and> getCost m2 x y \<noteq> NO_INFORMATION"
      proof (cases "in_window (x0, y0, xn, yn) x y")
        case True
        then show ?thesis using both(6) [of x y] il(1) l xy by (simp add: static_ok_def Let_def)
      next
        case False
        then have "\<not> covers b1 ?m" using win covers_all [OF il(2) m(1-3)] xy(1) by (auto simp: in_window_def)
        with l(4) xy have "getCost (sl_costmap ?sl) x y \<le> getCost ?m x y \<and> getCost ?m x y \<noteq> NO_INFORMATION" unfolding shows_layer_def by blast
        with both(7) [of x y] il(1) xy(1) False show ?thesis by simp
      qed
      then show "getCost (sl_costmap (lc_static lc')) x y \<le> getCost (lc_combined_costmap lc') x y \<and> getCost (lc_combined_costmap lc') x y \<noteq> NO_INFORMATION"
        using ok(4) by (auto simp: lc')
    qed
    ultimately show ?thesis using ok(4) by (simp add: lc')
  qed
  then show "master_ok lc'" "lc_size_locked lc' = lc_size_locked lc1" "same_grid (lc_combined_costmap lc') ?m"
    "\<exists>current. lc_static lc' = ?sl\<lparr>sl_current := current\<rparr>"
    "static_ok lc1 \<Longrightarrow> sl_enabled ?sl \<Longrightarrow> sl_map_received_in_update_bounds ?sl \<Longrightarrow> shows_layer lc1 \<or> covers b1 ?m \<Longrightarrow> shows_layer lc'"
    by blast+
qed

lemma updateMap_ok:
  assumes "room_ok ps (Some g) lc" and "lc' = updateMap junk lc"
  shows "room_ok ps (Some g) lc' \<and> shows_layer lc' \<and> map_in_use g lc'"
proof -
  obtain b1 lc1 where b: "updateBounds_static junk (dbl_max, dbl_max, - dbl_max, - dbl_max) lc = (b1, lc1)" by (metis prod.collapse)
  note l = updateBounds_static_ok [OF assms(1) b]
  then have m: "master_ok lc1" by (simp add: loaded_def)
  note step = updateMap_step [OF m b assms(2)]
  obtain current where sl: "lc_static lc' = (lc_static lc1)\<lparr>sl_current := current\<rparr>" using step(4) by blast
  have "shows_layer lc'" using step(5) l by (simp add: loaded_def)
  moreover have "static_ok lc'" using l step(3) by (auto simp: loaded_def static_ok_def sl same_grid_def Let_def)
  moreover have "map_in_use g lc'" using l by (simp add: loaded_def map_in_use_def sl Let_def)
  ultimately show ?thesis using l step(1,2) by (simp add: loaded_def room_ok_def sl)
qed

section \<open>Before the first map\<close>

lemma finish_bins_empty:
  assumes "concat bins = []" and "set ks \<subseteq> {..<length bins}"
  shows "fold (finish_bin il win) ks (m, seen, bins) = (m, seen, bins)"
  using assms(2)
proof (induction ks)
  case (Cons k ks)
  then have k: "bins ! k = []" using assms(1) by simp
  then have "bins[k := []] = bins" by (metis list_update_id)
  then have "finish_bin il win k (m, seen, bins) = (m, seen, bins)" using k by (simp add: finish_bin_def visit_bin.simps)
  then show ?case using Cons by simp
qed simp

lemma updateCosts_inflation_idle:
  assumes "concat (il_inflation_cells il) = []" and "\<And>x y. in_map m x y \<Longrightarrow> \<not> obstacle il m x y" and "updateCosts_inflation il win m = (m', il')"
  shows "m' = m \<and> (\<exists>seen current. il' = il\<lparr>il_seen := seen, il_current := current\<rparr>)"
proof -
  obtain x0 y0 xn yn where win: "win = (x0, y0, xn, yn)" by (cases win)
  have "False" if "c \<in> set (obstacle_cells il m win)" for c
    using obstacle_cells_iff [THEN iffD1, OF that [unfolded win]] assms(2) [of "cd_x c" "cd_y c"] by fast
  then have "obstacle_cells il m win = []" by (metis list.set_intros(1) neq_Nil_conv)
  moreover have "(il_inflation_cells il)[0 := il_inflation_cells il ! 0] = il_inflation_cells il" by simp
  moreover have "fold (finish_bin il win) [0..<length (il_inflation_cells il)] (m, seen, il_inflation_cells il) = (m, seen, il_inflation_cells il)" for seen
    by (rule finish_bins_empty [OF assms(1)]) auto
  ultimately have run: "updateCosts_inflation il win m = (m, if \<not> il_enabled il \<or> il_cell_inflation_radius il = 0 then il
      else il\<lparr>il_seen := replicate (wrap32 (cm_size_x m * cm_size_y m)) False, il_inflation_cells := il_inflation_cells il, il_current := True\<rparr>)"
    by (simp add: updateCosts_inflation_def Let_def)
  show ?thesis
  proof (cases "\<not> il_enabled il \<or> il_cell_inflation_radius il = 0")
    case True
    then have "m' = m" "il' = il\<lparr>il_seen := il_seen il, il_current := il_current il\<rparr>" using run assms(3) by simp_all
    then show ?thesis by blast
  next
    case False
    then have "m' = m" "il' = il\<lparr>il_seen := replicate (wrap32 (cm_size_x m * cm_size_y m)) False, il_current := True\<rparr>" using run assms(3) by auto
    then show ?thesis by blast
  qed
qed

lemma fresh_ok_cong:
  assumes "fresh_ok ps lc" and "lc_combined_costmap lc' = lc_combined_costmap lc" and "il_inflation_cells (lc_inflation lc') = il_inflation_cells (lc_inflation lc)"
    and "il_inflate_around_unknown (lc_inflation lc') = il_inflate_around_unknown (lc_inflation lc)"
    and "il_cost_scaling_factor (lc_inflation lc') = il_cost_scaling_factor (lc_inflation lc)"
    and "il_inflation_radius (lc_inflation lc') = il_inflation_radius (lc_inflation lc)"
    and "il_cached_cell_inflation_radius (lc_inflation lc') = il_cached_cell_inflation_radius (lc_inflation lc)"
  shows "fresh_ok ps lc'"
  using assms by (simp add: fresh_ok_def Let_def)

lemma updateBounds_inflation_fields:
  assumes "updateBounds_inflation il0 b = (b', il)"
  shows "il_inflation_cells il = il_inflation_cells il0" "il_inflate_around_unknown il = il_inflate_around_unknown il0"
    "il_cost_scaling_factor il = il_cost_scaling_factor il0" "il_inflation_radius il = il_inflation_radius il0"
    "il_cached_cell_inflation_radius il = il_cached_cell_inflation_radius il0"
proof -
  have "il = snd (updateBounds_inflation il0 b)" using assms by simp
  then show "il_inflation_cells il = il_inflation_cells il0" "il_inflate_around_unknown il = il_inflate_around_unknown il0"
    "il_cost_scaling_factor il = il_cost_scaling_factor il0" "il_inflation_radius il = il_inflation_radius il0"
    "il_cached_cell_inflation_radius il = il_cached_cell_inflation_radius il0"
    by (cases b, simp add: updateBounds_inflation_def)+
qed

lemma fresh_reset:
  assumes "fresh_ok ps lc" and "lc_combined_costmap lc' = resetMap (nat x0) (nat y0) (nat xn) (nat yn) (lc_combined_costmap lc)"
    and "win_fits (x0, y0, xn, yn) (lc_combined_costmap lc)" and "lc_inflation lc' = lc_inflation lc"
  shows "fresh_ok ps lc'"
proof -
  let ?m = "lc_combined_costmap lc"
  have m: "wf_costmap ?m" "0 < cm_size_y ?m" using assms(1) by (simp_all add: fresh_ok_def Let_def)
  note reset = resetMap_cell [OF m(1) assms(3) wf_size_x [OF m], folded assms(2)]
  have "cm_size_x (lc_combined_costmap lc') = cm_size_x ?m" "cm_size_y (lc_combined_costmap lc') = cm_size_y ?m"
    "cm_resolution (lc_combined_costmap lc') = cm_resolution ?m" "cm_default_value (lc_combined_costmap lc') = cm_default_value ?m"
    by (subst reset(2), simp)+
  with reset(1,3) assms(1,4) show ?thesis by (simp add: fresh_ok_def Let_def)
qed

lemma updateMap_no_map:
  assumes "room_ok ps None lc"
  shows "room_ok ps None (updateMap junk lc) \<and> interpretValue (lc_static (updateMap junk lc)) = interpretValue (lc_static lc)"
proof -
  define sl1 where "sl1 = (lc_static lc)\<lparr>sl_map_received_in_update_bounds := False\<rparr>"
  let ?b = "(dbl_max, dbl_max, - dbl_max, - dbl_max)" and ?m = "lc_combined_costmap lc"
  have sl: "sl_enabled (lc_static lc)" "\<not> sl_map_received (lc_static lc)" "\<not> lc_size_locked lc" "sl_map_buffer (lc_static lc) = None" and f: "fresh_ok ps lc"
    using assms by (simp_all add: room_ok_def)
  have b: "updateBounds_static junk ?b lc = (?b, lc\<lparr>lc_static := sl1\<rparr>)" using sl(2) by (simp add: updateBounds_static_def sl1_def)
  obtain b2 il where b2: "updateBounds_inflation (lc_inflation (lc\<lparr>lc_static := sl1\<rparr>)) ?b = (b2, il)" by (metis prod.collapse)
  obtain x0 y0 xn yn where win: "win_of ?m b2 = (x0, y0, xn, yn)" by (metis prod.collapse)
  have "win_of (lc_combined_costmap (lc\<lparr>lc_static := sl1\<rparr>)) b2 = (x0, y0, xn, yn)" using win by simp
  note run = updateMap_win [OF b b2 this]
  have il: "fresh_ok ps (lc\<lparr>lc_inflation := il\<rparr>)" using updateBounds_inflation_fields [OF b2] by (intro fresh_ok_cong [OF f]) simp_all
  have "fresh_ok ps (updateMap junk lc) \<and> lc_static (updateMap junk lc) = sl1 \<and> \<not> lc_size_locked (updateMap junk lc)"
  proof (cases "xn < x0 \<or> yn < y0")
    case True
    then have "updateMap junk lc = lc\<lparr>lc_static := sl1, lc_bounds := b2, lc_inflation := il\<rparr>" using run by (simp add: Let_def)
    then show ?thesis using sl(3) fresh_ok_cong [OF il] by simp
  next
    case False
    let ?m1 = "resetMap (nat x0) (nat y0) (nat xn) (nat yn) ?m"
    have fits: "win_fits (x0, y0, xn, yn) ?m" using False win by (cases b2) (auto simp: win_of_def win_fits_def split: prod.splits)
    have reset: "fresh_ok ps (lc\<lparr>lc_inflation := il, lc_combined_costmap := ?m1\<rparr>)" by (rule fresh_reset [OF il, where ?x0.0 = x0 and ?y0.0 = y0 and xn = xn and yn = yn]) (use fits in simp_all)
    obtain m2 il' where m2: "updateCosts_inflation il (x0, y0, xn, yn) ?m1 = (m2, il')" by (metis prod.collapse)
    have "m2 = ?m1 \<and> (\<exists>seen current. il' = il\<lparr>il_seen := seen, il_current := current\<rparr>)"
      using reset by (intro updateCosts_inflation_idle [OF _ _ m2]) (simp_all add: fresh_ok_def obstacle_def Let_def)
    then obtain seen current where idle: "m2 = ?m1" "il' = il\<lparr>il_seen := seen, il_current := current\<rparr>" by blast
    have "updateCosts_static sl1 (x0, y0, xn, yn) ?m1 = (?m1, sl1)" by (simp add: updateCosts_static_def sl1_def)
    then have "updateMap junk lc = lc\<lparr>lc_static := sl1, lc_bounds := b2, lc_inflation := il, lc_combined_costmap := m2, lc_static := sl1,
        lc_inflation := il', lc_window := (x0, y0, xn, yn), lc_initialized := True\<rparr>"
      using run False by (simp add: m2 Let_def)
    then show ?thesis using sl(3) fresh_ok_cong [OF reset] idle by simp
  qed
  then show ?thesis using sl by (simp add: room_ok_def sl1_def)
qed

section \<open>The life of a room's costmap\<close>

text \<open>
  What happens to the costmap of a room: it is set up, maps arrive, the update loop of the node runs, and the footprint of the robot is set.
  The second argument is the last good map that arrived.
\<close>

inductive room_reach :: "layer_params \<Rightarrow> OccupancyGrid option \<Rightarrow> LayeredCostmap \<Rightarrow> bool" for ps where
  room_start: "room_reach ps None (room_layers junk ps radius)"
| room_first_map: "room_reach ps None lc \<Longrightarrow> good_map g \<Longrightarrow> refills ps g \<Longrightarrow> room_reach ps (Some g) (incomingMap junk True g lc)"
| room_next_map: "room_reach ps (Some h) lc \<Longrightarrow> good_map g \<Longrightarrow> room_reach ps (Some g) (incomingMap junk True g lc)"
| room_bad_map: "room_reach ps msg lc \<Longrightarrow> \<not> validateMsg pose_valid g \<Longrightarrow> room_reach ps msg (incomingMap junk pose_valid g lc)"
| room_update: "room_reach ps msg lc \<Longrightarrow> room_reach ps msg (updateMap junk lc)"
| room_footprint: "room_reach ps msg lc \<Longrightarrow> room_reach ps msg (setFootprint radius lc)"

lemma onFootprintChanged_ok:
  assumes "distances_ok il"
  shows "inflation_ok (onFootprintChanged m radius il) m'" and "distances_ok (onFootprintChanged m radius il)"
proof -
  let ?il = "il\<lparr>il_inscribed_radius := radius, il_cell_inflation_radius := cellDistance m (il_inflation_radius il)\<rparr>"
  have "distances_ok ?il" using assms by (simp add: distances_ok_def Let_def)
  note ok = computeCaches_inflation_ok [OF disjI1 [OF this]]
  have "computeCost ((computeCaches ?il)\<lparr>il_need_reinflation := s\<rparr>) = computeCost (computeCaches ?il)" for s by (rule ext) (simp add: computeCost_def)
  then show "inflation_ok (onFootprintChanged m radius il) m'"
    unfolding onFootprintChanged_def by (intro inflation_ok_cong [OF ok(1) [of m']]) simp_all
  show "distances_ok (onFootprintChanged m radius il)" using ok(2) unfolding onFootprintChanged_def by (simp add: distances_ok_def Let_def)
qed

lemma onFootprintChanged_fields [simp]:
  "il_cost_scaling_factor (onFootprintChanged m radius il) = il_cost_scaling_factor il"
  "il_inflation_radius (onFootprintChanged m radius il) = il_inflation_radius il"
  "il_inflate_around_unknown (onFootprintChanged m radius il) = il_inflate_around_unknown il"
  by (simp_all add: onFootprintChanged_def)

lemma computeCaches_radius:
  "il_cached_cell_inflation_radius (computeCaches il) = (if il_cell_inflation_radius il = 0 then il_cached_cell_inflation_radius il else il_cell_inflation_radius il)"
  "concat (il_inflation_cells il) = [] \<Longrightarrow> concat (il_inflation_cells (computeCaches il)) = []"
  by (simp_all add: computeCaches_def Let_def split: prod.split)

lemma setFootprint_fresh:
  assumes "fresh_ok ps lc"
  shows "fresh_ok ps (setFootprint radius lc)"
proof -
  let ?il = "(lc_inflation lc)\<lparr>il_inscribed_radius := radius, il_cell_inflation_radius := cellDistance (lc_combined_costmap lc) (il_inflation_radius (lc_inflation lc))\<rparr>"
  have "concat (il_inflation_cells (computeCaches ?il)) = []" by (rule computeCaches_radius(2)) (use assms in \<open>simp add: fresh_ok_def Let_def\<close>)
  moreover have res: "cm_resolution (lc_combined_costmap lc) = 1 / 20" using assms unfolding fresh_ok_def Let_def by blast
  moreover have "il_cached_cell_inflation_radius (computeCaches ?il) = cell_radius (ly_inflation_radius ps) (1 / 20)"
    unfolding computeCaches_radius(1) cellDistance_cell_radius res using assms by (simp add: computeCaches_radius(1) fresh_ok_def cellDistance_cell_radius Let_def)
  ultimately show ?thesis using assms by (simp add: fresh_ok_def setFootprint_def Let_def) (simp add: onFootprintChanged_def)
qed

lemma setFootprint_ok: "room_ok ps msg lc \<Longrightarrow> room_ok ps msg (setFootprint radius lc)"
proof (cases msg)
  case None
  assume "room_ok ps msg lc"
  with None setFootprint_fresh [of ps lc radius] show ?thesis by (simp add: room_ok_def) (simp add: setFootprint_def)
next
  case (Some g)
  assume "room_ok ps msg lc"
  with Some onFootprintChanged_ok(1) [of "lc_inflation lc" "lc_combined_costmap lc" radius "lc_combined_costmap lc"]
    onFootprintChanged_ok(2) [of "lc_inflation lc" "lc_combined_costmap lc" radius] show ?thesis
    by (simp add: room_ok_def master_ok_def static_ok_def map_in_use_def shows_layer_def setFootprint_def Let_def)
qed

lemma dbl_max_large: "10 \<le> dbl_max"
proof -
  have "(10::real) \<le> 1 * 2 ^ 4" by simp
  also have "(1::real) * 2 ^ 4 \<le> (2 - 1 / 2 ^ 52) * 2 ^ 1023" by (rule mult_mono) (simp_all add: power_increasing)
  finally show ?thesis by (simp add: dbl_max_def)
qed

lemma matchSize_inflation_fresh:
  assumes "concat (il_inflation_cells il) = []" and "il_cached_cell_inflation_radius il \<in> {0, cell_radius (il_inflation_radius il) (cm_resolution m)}"
  shows "concat (il_inflation_cells (matchSize_inflation m il)) = []"
    and "il_cached_cell_inflation_radius (matchSize_inflation m il) = cell_radius (il_inflation_radius il) (cm_resolution m)"
    and "il_inflate_around_unknown (matchSize_inflation m il) = il_inflate_around_unknown il"
proof -
  let ?il = "il\<lparr>il_resolution := cm_resolution m, il_cell_inflation_radius := cellDistance m (il_inflation_radius il)\<rparr>"
  have "concat (il_inflation_cells (computeCaches ?il)) = []" by (rule computeCaches_radius(2)) (use assms in simp)
  then show "concat (il_inflation_cells (matchSize_inflation m il)) = []" by (simp add: matchSize_inflation_def)
  show "il_cached_cell_inflation_radius (matchSize_inflation m il) = cell_radius (il_inflation_radius il) (cm_resolution m)"
    using assms(2) by (auto simp: matchSize_inflation_def computeCaches_radius(1) cellDistance_cell_radius)
  show "il_inflate_around_unknown (matchSize_inflation m il) = il_inflate_around_unknown il" by (simp add: matchSize_inflation_def)
qed

lemma inflation_onInitialize_fields [simp]:
  "il_cost_scaling_factor (inflation_onInitialize ps m il) = ly_cost_scaling_factor ps" "il_inflation_radius (inflation_onInitialize ps m il) = ly_inflation_radius ps"
  by (simp_all add: inflation_onInitialize_def)

lemma inflation_onInitialize_fresh:
  assumes "concat (il_inflation_cells il) = []" and "il_cached_cell_inflation_radius il \<in> {0, cell_radius (ly_inflation_radius ps) (cm_resolution m)}"
  shows "concat (il_inflation_cells (inflation_onInitialize ps m il)) = []"
    and "il_cached_cell_inflation_radius (inflation_onInitialize ps m il) = cell_radius (ly_inflation_radius ps) (cm_resolution m)"
    and "il_inflate_around_unknown (inflation_onInitialize ps m il) = ly_inflate_around_unknown ps"
proof -
  let ?il = "il\<lparr>il_enabled := ly_inflation_enabled ps, il_inflation_radius := ly_inflation_radius ps, il_cost_scaling_factor := ly_cost_scaling_factor ps,
         il_inflate_unknown := ly_inflate_unknown ps, il_inflate_around_unknown := ly_inflate_around_unknown ps, il_current := True, il_seen := [],
         il_cached_distances := [], il_cached_costs := [], il_need_reinflation := False,
         il_cell_inflation_radius := cellDistance m (ly_inflation_radius ps)\<rparr>"
  have "concat (il_inflation_cells ?il) = []" "il_cached_cell_inflation_radius ?il \<in> {0, cell_radius (il_inflation_radius ?il) (cm_resolution m)}"
    using assms by simp_all
  note fresh = matchSize_inflation_fresh [OF this, folded inflation_onInitialize_def]
  then show "concat (il_inflation_cells (inflation_onInitialize ps m il)) = []"
    "il_cached_cell_inflation_radius (inflation_onInitialize ps m il) = cell_radius (ly_inflation_radius ps) (cm_resolution m)"
    "il_inflate_around_unknown (inflation_onInitialize ps m il) = ly_inflate_around_unknown ps"
    by simp_all
qed



lemma room_layers_ok:
  assumes "ly_enabled ps" and "0 \<le> ly_cost_scaling_factor ps" and "0 \<le> ly_inflation_radius ps" and "\<not> ly_inflate_around_unknown ps"
  shows "room_ok ps None (room_layers junk ps radius)"
proof -
  let ?m = "new_Costmap2D junk 200 200 (1 / 20) (- 5) (- 5) NO_INFORMATION"
  define il where "il = inflation_onInitialize ps ?m (inflation_onInitialize ps ?m new_InflationLayer)"
  define lc where "lc = \<lparr>lc_primary_costmap = ?m, lc_combined_costmap = ?m, lc_size_locked = False, lc_initialized = False, lc_bounds = (0, 0, 0, 0),
     lc_window = (0, 0, 0, 0), lc_inscribed_radius = 1 / 10, lc_static = getParameters ps, lc_inflation = il\<rparr>"
  define lc1 where "lc1 = setFootprint radius lc"
  have m: "resizeMap junk 200 200 (1 / 20) (- 5) (- 5) (no_costmap NO_INFORMATION) = ?m" by (simp add: resizeMap_new no_costmap_def)
  have room: "room_layers junk ps radius = lc1\<lparr>lc_inflation := matchSize_inflation ?m (lc_inflation lc1)\<rparr>"
    by (simp add: room_layers_def m lc1_def lc_def il_def Let_def)
  have wf: "wf_costmap ?m" by (rule wf_new_Costmap2D) simp_all
  have costs: "getCost ?m x y = NO_INFORMATION" if "in_map ?m x y" for x y using that by (intro getCost_new_Costmap2D) simp_all
  have first: "concat (il_inflation_cells (inflation_onInitialize ps ?m new_InflationLayer)) = []"
      "il_cached_cell_inflation_radius (inflation_onInitialize ps ?m new_InflationLayer) = cell_radius (ly_inflation_radius ps) (cm_resolution ?m)"
    by (rule inflation_onInitialize_fresh; simp add: new_InflationLayer_def)+
  have il: "concat (il_inflation_cells il) = []" "il_cached_cell_inflation_radius il = cell_radius (ly_inflation_radius ps) (cm_resolution ?m)"
      "il_inflate_around_unknown il = ly_inflate_around_unknown ps" "il_cost_scaling_factor il = ly_cost_scaling_factor ps"
      "il_inflation_radius il = ly_inflation_radius ps"
    using inflation_onInitialize_fresh [of "inflation_onInitialize ps ?m new_InflationLayer" ps ?m] first unfolding il_def by simp_all
  have "fresh_ok ps lc" using wf costs il assms by (simp add: fresh_ok_def lc_def Let_def)
  then have lc1: "fresh_ok ps lc1" unfolding lc1_def by (rule setFootprint_fresh)
  have m1: "lc_combined_costmap lc1 = ?m" by (simp add: lc1_def lc_def setFootprint_def)
  have "fresh_ok ps (room_layers junk ps radius)"
    using lc1 matchSize_inflation_fresh [of "lc_inflation lc1" ?m] unfolding room fresh_ok_def Let_def by (simp add: m1)
  then show ?thesis using assms(1) by (simp add: room_ok_def) (simp add: room lc1_def lc_def setFootprint_def getParameters_def)
qed

text \<open>The parameters that give a map its costs never change.\<close>

lemma processMap_params: "interpretValue (lc_static (processMap junk g lc)) = interpretValue (lc_static lc)"
  by (simp add: processMap_def layered_resizeMap_def matchSize_static_def Let_def split: prod.split)

lemma load_buffer_params: "interpretValue (lc_static (load_buffer junk lc)) = interpretValue (lc_static lc)"
  by (simp add: load_buffer_def processMap_params Let_def split: option.split)

lemma incomingMap_params: "interpretValue (lc_static (incomingMap junk pose_valid g lc)) = interpretValue (lc_static lc)"
  by (simp add: incomingMap_def processMap_params Let_def)

lemma useExtraBounds_params: "interpretValue (snd (useExtraBounds b sl)) = interpretValue sl"
  by (cases b; cases "sl_extra sl") (simp add: useExtraBounds_def)

lemma updateBounds_static_params: "interpretValue (lc_static (snd (updateBounds_static junk b lc))) = interpretValue (lc_static lc)"
proof -
  define lc0 where "lc0 = lc\<lparr>lc_static := (lc_static lc)\<lparr>sl_map_received_in_update_bounds := True\<rparr>\<rparr>"
  have "interpretValue (lc_static (load_buffer junk lc0)) = interpretValue (lc_static lc)" by (simp add: load_buffer_params lc0_def)
  then show ?thesis
    using useExtraBounds_params [of b "lc_static (load_buffer junk lc0)"]
    by (simp add: updateBounds_static_def lc0_def [symmetric] Let_def split_beta)
qed

lemma updateMap_params:
  assumes "room_ok ps (Some g) lc"
  shows "interpretValue (lc_static (updateMap junk lc)) = interpretValue (lc_static lc)"
proof -
  obtain b1 lc1 where b: "updateBounds_static junk (dbl_max, dbl_max, - dbl_max, - dbl_max) lc = (b1, lc1)" by (metis prod.collapse)
  have "master_ok lc1" using updateBounds_static_ok [OF assms b] by (simp add: loaded_def)
  from updateMap_step(4) [OF this b refl] updateBounds_static_params [of junk "(dbl_max, dbl_max, - dbl_max, - dbl_max)" lc] show ?thesis by (auto simp: b)
qed

lemma room_reach_ok:
  assumes "room_reach ps msg lc" and "ly_enabled ps" and "0 \<le> ly_cost_scaling_factor ps" and "0 \<le> ly_inflation_radius ps"
    and "\<not> ly_inflate_around_unknown ps"
  shows "room_ok ps msg lc \<and> interpretValue (lc_static lc) = interpretValue (getParameters ps)"
  using assms(1)
proof induction
  case (room_start junk radius)
  show ?case using room_layers_ok [OF assms(2-5)] by (simp add: room_layers_def setFootprint_def Let_def)
next
  case (room_first_map lc g junk)
  then show ?case using incomingMap_ok [of ps None lc g] incomingMap_params by simp
next
  case (room_next_map h lc g junk)
  then show ?case using incomingMap_ok [of ps "Some h" lc g] incomingMap_params by simp
next
  case (room_bad_map msg lc pose_valid g junk)
  then show ?case by (simp add: incomingMap_def)
next
  case (room_update msg lc junk)
  then show ?case using updateMap_no_map [of ps lc junk] updateMap_ok [OF _ refl, of ps _ lc junk] updateMap_params [of ps _ lc junk] by (cases msg) auto
next
  case (room_footprint msg lc radius)
  then show ?case using setFootprint_ok by (simp add: setFootprint_def)
qed

lemma lethal_stays: "254 \<le> (c :: uchar) \<Longrightarrow> c \<noteq> NO_INFORMATION \<Longrightarrow> c = LETHAL_OBSTACLE"
  using unsigned_less [of c, where ?'a = nat] by (simp add: word_le_nat_alt word_unat_eq_iff)


text \<open>An occupied cell beside a free one, with the inflation of \<open>navbim_params.yaml\<close>.\<close>

definition room_params :: layer_params where
  "room_params = \<lparr>ly_enabled = True, ly_track_unknown_space = True, ly_use_maximum = False, ly_lethal_cost_threshold = 100,
     ly_unknown_cost_value = 255, ly_trinary_costmap = True, ly_inflation_enabled = True, ly_inflation_radius = 3 / 10,
     ly_cost_scaling_factor = 5 / 2, ly_inflate_unknown = False, ly_inflate_around_unknown = False\<rparr>"

definition two_cells :: OccupancyGrid where
  "two_cells = \<lparr>og_frame_id = ''map'', og_resolution = 1, og_width = 2, og_height = 1, og_origin = (0, 0, 0), og_data = [100, 0]\<rparr>"


section \<open>Layers that are initialised twice\<close>

definition lost :: "nat \<Rightarrow> InflationLayer \<Rightarrow> bool" where
  "lost c il \<longleftrightarrow> il_cached_cell_inflation_radius il = c \<and> il_cached_distances il = [] \<and> il_cached_costs il = []"

lemma computeCaches_lost: "lost c il \<Longrightarrow> il_cell_inflation_radius il = c \<Longrightarrow> lost c (computeCaches il)"
  by (simp add: lost_def computeCaches_def Let_def split: prod.split)

lemma matchSize_inflation_lost:
  assumes "lost c il" and "cell_radius (il_inflation_radius il) (cm_resolution m) = c"
  shows "lost c (matchSize_inflation m il)" and "il_cell_inflation_radius (matchSize_inflation m il) = c"
proof -
  let ?il = "il\<lparr>il_resolution := cm_resolution m, il_cell_inflation_radius := cellDistance m (il_inflation_radius il)\<rparr>"
  have "lost c (computeCaches ?il)" using assms by (intro computeCaches_lost) (simp_all add: lost_def cellDistance_cell_radius)
  then show "lost c (matchSize_inflation m il)" by (simp add: matchSize_inflation_def lost_def)
  show "il_cell_inflation_radius (matchSize_inflation m il) = c" using assms(2) by (simp add: matchSize_inflation_def cellDistance_cell_radius)
qed

lemma onFootprintChanged_lost:
  assumes "lost c il" and "cell_radius (il_inflation_radius il) (cm_resolution m) = c"
  shows "lost c (onFootprintChanged m radius il)"
proof -
  let ?il = "il\<lparr>il_inscribed_radius := radius, il_cell_inflation_radius := cellDistance m (il_inflation_radius il)\<rparr>"
  have "lost c (computeCaches ?il)" using assms by (intro computeCaches_lost) (simp_all add: lost_def cellDistance_cell_radius)
  then show ?thesis by (simp add: onFootprintChanged_def lost_def)
qed

lemma inflation_onInitialize_lost:
  assumes "il_cached_cell_inflation_radius il = c" and "cell_radius (ly_inflation_radius ps) (cm_resolution m) = c"
  shows "lost c (inflation_onInitialize ps m il)"
  unfolding inflation_onInitialize_def by (rule matchSize_inflation_lost) (use assms in \<open>simp_all add: lost_def\<close>)

text \<open>
  The second \<open>onInitialize\<close> of a new room leaves the tables of the inflation layer empty. A first map that keeps the radius in cells, like one with the
  resolution of the dummy map, does not fill them: every lookup of a cost or of a distance then lies outside of the vectors.
\<close>

lemma initialised_twice:
  assumes "c = cell_radius (ly_inflation_radius ps) (1 / 20)" and "validateMsg True g" and "cell_radius (ly_inflation_radius ps) (og_resolution g) = c"
    and "il = lc_inflation (incomingMap junk True g (room_layers junk' ps radius))"
  shows "il_cell_inflation_radius il = c \<and> il_cached_distances il = [] \<and> il_cached_costs il = []"
proof -
  let ?m = "new_Costmap2D junk' 200 200 (1 / 20) (- 5) (- 5) NO_INFORMATION"
  let ?first = "inflation_onInitialize ps ?m new_InflationLayer"
  obtain ox oy oz where o: "og_origin g = (ox, oy, oz)" by (cases "og_origin g")
  have m: "resizeMap junk' 200 200 (1 / 20) (- 5) (- 5) (no_costmap NO_INFORMATION) = ?m" by (simp add: resizeMap_new no_costmap_def)
  have res: "cell_radius (ly_inflation_radius ps) (cm_resolution ?m) = c" using assms(1) by simp
  have "il_cached_cell_inflation_radius ?first = c"
    using inflation_onInitialize_fresh(2) [of new_InflationLayer ps ?m] assms(1) by (simp add: new_InflationLayer_def)
  then have "lost c (inflation_onInitialize ps ?m ?first)" by (rule inflation_onInitialize_lost [OF _ res])
  then have "lost c (onFootprintChanged ?m radius (inflation_onInitialize ps ?m ?first))" by (rule onFootprintChanged_lost) (use res in simp)
  then have "lost c (matchSize_inflation ?m (onFootprintChanged ?m radius (inflation_onInitialize ps ?m ?first)))" by (rule matchSize_inflation_lost(1)) (use res in simp)
  moreover have "lc_inflation (room_layers junk' ps radius) = matchSize_inflation ?m (onFootprintChanged ?m radius (inflation_onInitialize ps ?m ?first))"
    by (simp add: room_layers_def m setFootprint_def Let_def)
  ultimately have lost: "lost c (lc_inflation (room_layers junk' ps radius))" "il_inflation_radius (lc_inflation (room_layers junk' ps radius)) = ly_inflation_radius ps"
    by simp_all
  have "\<not> sl_map_received (lc_static (room_layers junk' ps radius))" "\<not> lc_size_locked (room_layers junk' ps radius)"
    by (simp_all add: room_layers_def setFootprint_def getParameters_def Let_def)
  then have "\<exists>m. cm_resolution m = og_resolution g \<and> il = matchSize_inflation m (lc_inflation (room_layers junk' ps radius))"
    using assms(2) unfolding assms(4)
    by (auto simp: incomingMap_def processMap_def o layered_resizeMap_def resizeMap_new Let_def intro!: exI [where x = "new_Costmap2D _ _ _ _ _ _ _"])
  then show ?thesis using matchSize_inflation_lost [OF lost(1)] lost(2) assms(3) by (auto simp: lost_def)
qed

end
