(* ===== verification/Spec2Isabelle.thy ===== *)
theory Spec2Isabelle
  imports Topomap_Server Floor_Segmentation Gpp_Live Clearance_Server Room_Planner Multi_Costmap
    Room_Tracker Map_Io Layered_Costmap
begin

text \<open>
  \<^bold>\<open>NavBIM: route planning in buildings.\<close>

  NavBIM plans routes for a robot through a building that is described by a topological map (rooms,
  doors, stairs and floors, from a BIM model) and by one grid of costs per room. The parts
  of the program and how they work together:

  \<^item> the \<^emph>\<open>map server\<close> (\<open>navbim_topomap_server\<close>) reads the map from a JSON file, owns it, answers queries
    about it and stores planned paths in it;
  \<^item> the \<^emph>\<open>planner node\<close> (\<open>navbim_gpp_bim/gpp_bim_server.cpp\<close>) fetches a copy of the map from the map server.
    For a goal it finds the rooms of both coordinates, inserts a start and a goal node into its copy,
    searches a route over the edges of the map (\<open>topomap_planner.cpp\<close>), cuts the route into floors,
    has it smoothed, and removes the two nodes again;
  \<^item> the \<^emph>\<open>room planner\<close> (\<open>room_planner_server.cpp\<close>) plans the piece of a route inside one room with a grid
    planner on the costmap of the room, and smooths routes with the costmaps of the floors
    (\<open>navbim_smoother\<close>);
  \<^item> the \<^emph>\<open>multi-costmap node\<close> (\<open>navbim_multi_costmap_2d\<close>) keeps the costmaps of the rooms and merges them
    into one costmap per floor;
  \<^item> the \<^emph>\<open>multi-map server\<close> (\<open>navbim_multimap_server\<close>) loads the map of every room and announces which there are; the
    multi-costmap node sets up a room for each of them;
  \<^item> the \<^emph>\<open>room tracker\<close> (\<open>navbim_room_tracker\<close>) asks the map server for the room of the robot and tells the
    multi-costmap node;
  \<^item> the \<^emph>\<open>clearance server\<close> (\<open>clearance_server.cpp\<close>) measures how far a path stays from the obstacles of
    its floors.

  \<^bold>\<open>The theories\<close> (sources are below \<open>src/\<close>; a definition has the name of the C++ function it translates, an
  extracted piece of a function or a loop has a name of its own, a record field is the member's name behind
  a prefix).

  \<^item> \<open>Prelude\<close>: exceptions as values (\<open>cpp_exception\<close>, \<open>result\<close>), doubles with infinities, number and
    string conversions, list lemmas, the collections of rewrite rules.
  \<^item> \<open>Topomap_Types\<close> (\<open>navbim_util/topological_map_types.hpp\<close>, \<open>navbim_msgs\<close>), \<open>Boost_Graph\<close> (the interface of
    Boost.Graph as a locale, with an implementation), \<open>Topological_Map\<close> (\<open>navbim_util/topological_map.cpp\<close>): the
    planner's copy of the map. Loading a message refines a description of the graph by lists;
    afterwards the lookup tables agree with the graph; both conversions are inverse to each other where the
    code allows it.
  \<^item> \<open>Topomap_Utils\<close> (\<open>topological_map_utils.cpp\<close>), \<open>Json_Library\<close> (the interface of nlohmann/json),
    \<open>Map_Loader\<close> (\<open>topological_map_loader.cpp\<close>), \<open>Topomap_Server\<close> (\<open>topomap_server.cpp\<close>): the map server.
    Queries are specified; saving and loading are inverse; every reachable state satisfies the
    server's invariant; each service changes exactly what it should.
  \<^item> \<open>Graph_Utils\<close> (\<open>graph_utils.cpp\<close>), \<open>Augmented_Graph\<close> (\<open>augmented_graph_view.cpp\<close>), \<open>Floor_Segmentation\<close>
    (\<open>floor_segmentation.hpp\<close>): start and goal nodes, pruning and floors of a route.
  \<^item> \<open>Score_Tree\<close>, \<open>Topomap_Planner\<close> (\<open>topomap_planner.cpp\<close>), \<open>Planner_Correct\<close>, \<open>Planner_Live\<close>: the search. It
    returns, its result is a route of enabled planned edges with the sum of their costs, and it finds a route
    when there is one.
  \<^item> \<open>Gpp_Server\<close> (\<open>gpp_bim_server.cpp\<close>), \<open>Gpp_Correct\<close>, \<open>Gpp_Live\<close>: the planner node. A goal gives the map
    back as it was, its answers are well formed, connected rooms get a route, and pre-planning
    reports what it did.
  \<^item> \<open>Costmap\<close> (\<open>nav2_costmap_2d/costmap_2d.cpp\<close>), \<open>Line_Iterator\<close> (\<open>nav2_util/line_iterator.hpp\<close>): grids,
    coordinates, windows and lines of cells.
  \<^item> \<open>Simple_Smoother\<close> (\<open>simple_smoother.cpp\<close>, \<open>nav2_smoother/smoother_utils.hpp\<close>), \<open>Savitzky_Golay\<close>
    (\<open>savitzky_golay_smoother.cpp\<close>): smoothing ends, keeps the ends of a path and moves waypoints only to free
    cells; the filter is exact on polynomials.
  \<^item> \<open>Room_Planner\<close> (\<open>room_planner_server.cpp\<close>): answers of the action, the smoothing service, the pointers of
    the planners, and an invariant of the reachable states.
  \<^item> \<open>Clearance_Server\<close> (\<open>clearance_server.cpp\<close>): the ring search finds the nearest obstacle; the service
    reports minimum and mean.
  \<^item> \<open>Multi_Costmap\<close> (\<open>multi_costmap_2d_ros.cpp\<close>): a floor shows the largest known cost of its rooms; a
    room that is added later loses the floor.
  \<^item> \<open>Inflation_Layer\<close> (\<open>plugins/inflation_layer.cpp\<close>), \<open>Layered_Costmap\<close> (\<open>layered_costmap.cpp\<close>, \<open>costmap_layer.cpp\<close>,
    \<open>plugins/static_layer.cpp\<close> of \<open>nav2_costmap_2d\<close>, and the layers of \<open>createRoomCostmapData\<close>): the costmap of one room. Inflation ends, raises
    costs only near obstacles and lowers none; after an update a room shows the last map that arrived. The layers are initialised twice,
    which empties the tables of the inflation layer (\<open>initialised_twice\<close>).
  \<^item> \<open>Multimap_Server\<close> (\<open>multimap_server.cpp\<close>): its states as a step relation; every room that is announced has
    exactly one map, published where the room waits for it.
  \<^item> \<open>Map_Io\<close> (\<open>map_io.cpp\<close>, \<open>map_mode.cpp\<close>): occupancy maps as images with a YAML file; a map that was saved is
    loaded again, cell by cell.
  \<^item> \<open>Room_Tracker\<close> (\<open>room_tracker_node.cpp\<close>): the multi-costmap node follows the room that the map server
    sees the robot in.
  \<^item> this theory: the planner node on top of the room planner, and the room planner on top of the
    multi-costmap node.

  \<^bold>\<open>State and effects.\<close> The state of a node is a record; a callback is a function from the state and its arguments to
  the new state, the answer and what is published. A callback that holds its lock for its whole body is one
  step; where the code releases a lock in between, the state at the second time is an
  argument (\<open>createFloorCostmap\<close>). Exceptions are values of a sum type, also where they are caught. What other nodes
  and the operating system do is a function on a world \<open>'w\<close> that is threaded through the calls.

  \<^bold>\<open>Code outside of the repository\<close> is a parameter, with the documented behaviour the proofs need as a locale:
  Boost.Graph (\<open>boost_graph\<close>), nlohmann/json (\<open>json_lib\<close>), \<open>boost::connected_components\<close> (\<open>components\<close>), the
  Fibonacci heap (\<open>fib_heap\<close>), the iteration order of unordered containers (\<open>unordered\<close>), GraphicsMagick, yaml-cpp and the
  file system (\<open>map_files\<close>). Each is interpreted on a
  concrete implementation, on which the witnesses run. Boost.Geometry, tf2, the inversion of
  Eigen and planner plugins are plain arguments, and so are the merged grids of the rooms in the multi-costmap node. The interfaces between the components are locales too
  (the message codecs of server and client, the smoothers of the room planner) and are interpreted on the
  model's own definitions.

  \<^bold>\<open>Loops and bounds.\<close> Loops over containers are folds or structural recursion. The search of the buffer
  radii, the rings of the clearance search, the cells of a line and the iterations of the smoother are
  functions with a termination proof, and so are the lists of the inflation layer, which grow while they are read. The search for a route and its recursive correction of scores are
  partial functions with the value \<^const>\<open>None\<close> for not returning, and are proved to return; no fuel is
  used. \<open>size_t\<close> and \<open>unsigned int\<close> wrap where the code can reach the bound (building names, cell
  indices); other indices are guarded in the code and are natural numbers. Doubles are exact
  real numbers; those that may be infinite are the datatype \<open>double\<close>.

  \<^bold>\<open>Not modelled\<close>: rounding of floating point numbers; logging, time measurement and the creation of publishers
  and services; the configuration of the multi-costmap and clearance nodes,
  which only create objects of other packages; rolling windows, filters, partial map updates and the clearing of the footprint in the costmap layers,
  which rooms do not use; polygon filling and ray tracing of \<open>Costmap2D\<close>, which
  the NavBIM nodes do not use; the behaviour tree nodes and the smoother server, which forward messages
  between the parts modelled here; the OMPL, theta star and navfn planners behind \<open>createPlan\<close>; the user interface,
  the Python tools and the other packages of the Navigation2 stack.
\<close>

section \<open>The planner node and the room planner\<close>

text \<open>
  The two nodes together: whatever the planner node hears from the action and the service of the room
  planner has been computed by it, in some state of that node and of its world. Nothing is assumed
  about when it answers.
\<close>

definition served_by_room_planner :: "(cpp_exception \<Rightarrow> string) \<Rightarrow> 'v room_env \<Rightarrow> 'w gpp_env \<Rightarrow> bool" where
  "served_by_room_planner what renv env \<longleftrightarrow>
     (\<forall>goal w r w'. ge_room_planner env goal w = (Room_answer r, w') \<longrightarrow>
        (\<exists>pub rp v rp' v'. computePlanInRoom what renv goal rp v = (pub, Room_succeeded r, rp', v'))) \<and>
     (\<forall>request w response w'. ge_smooth env request w = (Inr (Some response), w') \<longrightarrow>
        (\<exists>rp v. response = smoothPathWithFloorCostmaps renv rp request v))"

lemma served_contract:
  assumes "served_by_room_planner what renv env"
  shows "room_costs_ok env" and "smoothing_keeps env"
proof -
  show "room_costs_ok env"
    using assms computePlanInRoom_code_0(1) unfolding room_costs_ok_def served_by_room_planner_def by metis
  show "smoothing_keeps env"
    using assms smoothPathWithFloorCostmaps_length unfolding smoothing_keeps_def served_by_room_planner_def by metis
qed

text \<open>
  C4: the planner node on top of the room planner. With the answers of the room planner server, every
  goal ends; a success has error code 0, its node ids lead from the virtual start to the virtual goal,
  and every segment index lies inside the path that is sent, smoothed or not; and the
  conditions on the map hold again for the next goal. No hypothesis on the answers is left: the room
  planner's own guarantees discharge them.
\<close>

theorem computePathToPose_with_room_planner:
  assumes "boost_graph B" and "fib_heap H entries" and "unordered ord" and "served_by_room_planner rwhat renv env"
    and "gb_topomap_loaded srv" and "map_ok B (gp_reuse_paths (gb_params srv)) (gb_topological_map srv)"
  shows "\<exists>out outcome srv' w'. computePathToPose cc pt_within buffer f32 what B H ord env loads goal srv w = Some (out, outcome, srv', w') \<and>
    (case outcome of
       Succeeded r \<Rightarrow> rs_error_code r = ERR_NONE \<and>
         hd (rs_node_ids r) = to_string (getMaxNodeId (gb_topological_map srv) + 1) \<and>
         last (rs_node_ids r) = to_string (getMaxNodeId (gb_topological_map srv) + 2) \<and>
         length (rs_segment_start_indices r) = length (rs_floor_names r) \<and>
         length (rs_segment_end_indices r) = length (rs_floor_names r) \<and>
         list_all (\<lambda>i. unat i < length (path_poses (rs_path r))) (rs_segment_start_indices r @ rs_segment_end_indices r)
     | Terminated r \<Rightarrow> failure_ok (gb_timeout_occurred srv') outcome) \<and>
    gb_topomap_loaded srv' \<and> map_ok B (gp_reuse_paths (gb_params srv')) (gb_topological_map srv')"
proof -
  note contract = served_contract [OF assms(4)]
  obtain out outcome srv' w' where run: "computePathToPose cc pt_within buffer f32 what B H ord env loads goal srv w = Some (out, outcome, srv', w')"
    and kept: "gb_topomap_loaded srv'" "map_ok B (gp_reuse_paths (gb_params srv')) (gb_topological_map srv')"
    using computePathToPose_returns [OF assms(1-3) contract(1) assms(5,6)] by blast
  with computePathToPose_answers [OF assms(1-3) contract(1) assms(5,6) run] contract(2) kept show ?thesis
    by (cases outcome) (auto simp: answer_ok_def)
qed

text \<open>The house again, with a room planner server that knows the planner the node asks for.\<close>

definition house_rooms_world :: "unit room_env" where
  "house_rooms_world = room_world\<lparr>re_getCostmapForRoom := (\<lambda>w fl rm. Some 8), re_getCostmapForFloor := (\<lambda>w fl. Some 8)\<rparr>"

definition house_room_planner :: RoomPlannerServer where
  "house_room_planner = room_server\<lparr>rp_planners := [(''A*'', \<lparr>pl_wrapped = True, pl_costmap = Some 2\<rparr>)]\<rparr>"

definition linked_env :: "unit gpp_env" where
  "linked_env = house_env\<lparr>
     ge_room_planner := (\<lambda>goal w. case computePlanInRoom (\<lambda>e. []) house_rooms_world goal house_room_planner w of
        (pub, Room_succeeded r, rp, w') \<Rightarrow> (Room_answer r, w')
      | (pub, outcome, rp, w') \<Rightarrow> (Action_not_succeeded, w')),
     ge_smooth := (\<lambda>request w. (Inr (Some (smoothPathWithFloorCostmaps house_rooms_world house_room_planner request w)), w))\<rparr>"

lemma linked_served: "served_by_room_planner (\<lambda>e. []) house_rooms_world linked_env"
  unfolding served_by_room_planner_def
  by (auto simp: linked_env_def split: prod.splits room_outcome.splits)

lemma linked_answers: "nodes_answer linked_env (gb_params house_server)"
proof -
  have "\<exists>r w'. ge_room_planner linked_env goal w = (Room_answer r, w') \<and> rr_error_code r = 0"
    if "rg_planner_id goal = ''A*''" "rg_use_start goal" for goal w
    using that
    by (simp add: linked_env_def computePlanInRoom_def plan_with_costmap_def house_rooms_world_def house_room_planner_def
        room_world_def room_server_def getPlan_def setCostmap_def smooth_room_path_def measure_path_def complete_goal_def Let_def)
  then show ?thesis
    by (simp add: nodes_answer_def house_server_def) (simp add: linked_env_def house_env_def)
qed

theorem computePathToPose_with_room_planner_witness:
  "\<exists>out r srv w. computePathToPose relabel_components on_ring (\<lambda>r q. []) id (\<lambda>exn. []) vec_graph slot_heap_ops
      sorted_list_of_set linked_env False house_goal house_server () = Some (out, Succeeded r, srv, w) \<and>
     rs_error_code r = 0 \<and> hd (rs_node_ids r) = ''6'' \<and> last (rs_node_ids r) = ''7'' \<and> gb_topomap_loaded srv"
proof -
  have cancel: "\<not> ge_cancel_requested linked_env ()" by (simp add: linked_env_def house_env_def)
  obtain out r srv w where q: "computePathToPose relabel_components on_ring (\<lambda>r q. []) id (\<lambda>exn. []) vec_graph slot_heap_ops
      sorted_list_of_set linked_env False house_goal house_server () = Some (out, Succeeded r, srv, w)"
    using computePathToPose_finds [OF house_sample(1-3) served_contract(1) [OF linked_served] linked_answers house_loaded
        house_map_ok house_facts(5,6,1-3) cancel house_rounding [symmetric] house_facts(7-9)] by blast
  have "to_string 6 = ''6''" "to_string 7 = ''7''" by code_simp+
  with q computePathToPose_with_room_planner [OF house_sample(1-3) linked_served house_loaded house_map_ok, of relabel_components on_ring
      "\<lambda>r q. []" id "\<lambda>exn. []" False house_goal "()"]
  show ?thesis by (auto simp: house_max_id)
qed

section \<open>The floors and the smoothing of a route\<close>

text \<open>The largest known cost at a cell bounds the cost of every room there.\<close>

lemma free_floor_cell:
  assumes "getCost m fx fy = Max (insert FREE_SPACE (room_costs rooms m fx fy - {NO_INFORMATION}))"
    and "getCost m fx fy \<le> MAX_NON_OBSTACLE \<or> getCost m fx fy = NO_INFORMATION"
    and "c \<in> room_costs rooms m fx fy" and "c \<noteq> NO_INFORMATION"
  shows "c \<le> MAX_NON_OBSTACLE"
proof -
  let ?costs = "insert FREE_SPACE (room_costs rooms m fx fy - {NO_INFORMATION})"
  have "Max ?costs \<in> ?costs" by (rule Max_in) simp_all
  then have "getCost m fx fy \<noteq> NO_INFORMATION" using assms(1) by auto
  moreover have "c \<le> Max ?costs" using assms(3,4) by (intro Max_ge) auto
  ultimately show ?thesis using assms(1,2) by (metis order_trans)
qed

text \<open>
  C13: a smoothed route stays clear of the rooms. When the floor smoothing service runs on the costmap
  that the multi-costmap node has built for a floor, every waypoint it has moved lies
  outside of that costmap or on a cell at which no room of the floor has an inscribed or lethal cost:
  merging the rooms hides no obstacle from the smoother.
\<close>

theorem smoothed_route_clear_of_rooms:
  assumes "distinct (map fst (mc_room_costmaps st))" and "map_of (mc_floor_costmap_cache st) floor_name = None"
    and "floor_rooms st floor_name \<noteq> []"
    and "those (map (\<lambda>(_, room). ready_costmap room) (floor_rooms st floor_name)) = Some rooms"
    and "\<forall>room \<in> set rooms. on_grid (cm_resolution (rooms ! 0)) room"
    and "fst (snd (floor_box rooms)) * snd (snd (floor_box rooms)) < 2 ^ 32"
    and "createFloorCostmap junk (mc_room_costmaps st) floor_name st = (created, st')"
    and "re_getCostmapForFloor env w floor_name = Some ptr"
    and "getCostmapForFloor st' floor_name = Some (re_costmap_at env w ptr)"
    and "set (sq_floor_names request) \<subseteq> {floor_name}" and "i < length (path_poses (sq_path request))"
  shows "let m = re_costmap_at env w ptr;
      poses' = path_poses (sr_smoothed_path (smoothPathWithFloorCostmaps env srv request w))
    in pose_xy (poses' ! i) = pose_xy (path_poses (sq_path request) ! i) \<or>
      (case worldToMap m (fst (pose_xy (poses' ! i))) (snd (pose_xy (poses' ! i))) of
         None \<Rightarrow> True
       | Some (fx, fy) \<Rightarrow> INSCRIBED_INFLATED_OBSTACLE \<notin> room_costs rooms m fx fy \<and> LETHAL_OBSTACLE \<notin> room_costs rooms m fx fy)"
proof -
  let ?m = "re_costmap_at env w ptr"
  let ?q = "pose_xy (path_poses (sr_smoothed_path (smoothPathWithFloorCostmaps env srv request w)) ! i)"
  have merged: "wf_costmap ?m" "\<And>fx fy. in_map ?m fx fy \<Longrightarrow>
      getCost ?m fx fy = Max (insert FREE_SPACE (room_costs rooms ?m fx fy - {NO_INFORMATION}))"
    using floor_costmap_merged [OF assms(1-6), of junk] assms(7,9) by auto
  have "?q = pose_xy (path_poses (sq_path request) ! i) \<or> sg_free ?m ?q"
  proof (cases "?q = pose_xy (path_poses (sq_path request) ! i)")
    case False
    then obtain f s e where seg: "(f, s, e) \<in> set (requested_segments request)" and free: "free_on_floor env w f ?q"
      using smoothPathWithFloorCostmaps_smoothed [of env w request srv] assms(11) unfolding smoothed_by_def by blast
    have "f = floor_name" using requested_segments_bounds [OF seg] assms(10) by blast
    with free assms(8) have "sg_free ?m ?q" by (simp add: free_on_floor_def)
    then show ?thesis ..
  qed simp
  moreover have "INSCRIBED_INFLATED_OBSTACLE \<notin> room_costs rooms ?m fx fy \<and> LETHAL_OBSTACLE \<notin> room_costs rooms ?m fx fy"
    if "worldToMap ?m (fst ?q) (snd ?q) = Some (fx, fy)" and "sg_free ?m ?q" for fx fy
  proof -
    have "in_map ?m fx fy" using that(1) by (auto simp: worldToMap_def Let_def split: if_splits)
    note cost = merged(2) [OF this]
    have free: "getCost ?m fx fy \<le> MAX_NON_OBSTACLE \<or> getCost ?m fx fy = NO_INFORMATION" using that by (simp add: sg_free_def)
    show ?thesis using free_floor_cell [OF cost free] by force
  qed
  ultimately show ?thesis unfolding Let_def by (auto split: option.split)
qed

text \<open>The floor of the hall and the study, and a route through it.\<close>

definition eg_floor :: Costmap2D where
  "eg_floor = the (getCostmapForFloor (snd (createFloorCostmap (\<lambda>i. 7) (mc_room_costmaps hall_and_study) ''EG'' hall_and_study)) ''EG'')"

definition eg_world :: "unit room_env" where
  "eg_world = room_world\<lparr>re_getCostmapForFloor := (\<lambda>w f. Some 8), re_costmap_at := (\<lambda>w c. eg_floor)\<rparr>"

definition eg_request :: smooth_request where
  "eg_request = \<lparr>sq_path = \<lparr>path_frame_id = ''ifc'',
       path_poses = map (pose_of_waypoint ''ifc'') [(1, 1, 0), (2, 3, 0), (3, 1, 0), (4, 3, 0), (5, 1, 0)]\<rparr>,
     sq_floor_names = [''EG''], sq_segment_start_indices = [0], sq_segment_end_indices = [4], sq_max_smoothing_time = 1\<rparr>"

definition eg_server :: RoomPlannerServer where
  "eg_server = room_server\<lparr>rp_smoother := Some (SimpleSmoother \<lparr>sp_tolerance = 1, sp_max_its = 10, sp_data_w = 1 / 5,
     sp_smooth_w = 3 / 10, sp_do_refinement = True, sp_refinement_num = 2, sp_enforce_path_inversion = True\<rparr>)\<rparr>"

theorem smoothed_route_clear_of_rooms_witness:
  "let poses' = path_poses (sr_smoothed_path (smoothPathWithFloorCostmaps eg_world eg_server eg_request ()))
   in pose_xy (poses' ! 2) = (3, 1) \<or>
     (case worldToMap eg_floor (fst (pose_xy (poses' ! 2))) (snd (pose_xy (poses' ! 2))) of
        None \<Rightarrow> True
      | Some (fx, fy) \<Rightarrow> INSCRIBED_INFLATED_OBSTACLE \<notin> room_costs [hall, study] eg_floor fx fy \<and>
          LETHAL_OBSTACLE \<notin> room_costs [hall, study] eg_floor fx fy)"
proof -
  obtain created st' where run: "createFloorCostmap (\<lambda>i. 7) (mc_room_costmaps hall_and_study) ''EG'' hall_and_study = (created, st')" by fastforce
  have env: "re_getCostmapForFloor eg_world () ''EG'' = Some 8" "re_costmap_at eg_world () 8 = eg_floor" by (simp_all add: eg_world_def)
  have floor: "getCostmapForFloor st' ''EG'' = Some (re_costmap_at eg_world () 8)"
    using floor_costmap_merged [OF hall_and_study_ok, of "\<lambda>i. 7"] run by (auto simp: env(2) eg_floor_def)
  have request: "set (sq_floor_names eg_request) \<subseteq> {''EG''}" "2 < length (path_poses (sq_path eg_request))"
    "pose_xy (path_poses (sq_path eg_request) ! 2) = (3, 1)"
    by (simp_all add: eg_request_def pose_of_waypoint_def)
  from smoothed_route_clear_of_rooms [OF hall_and_study_ok run env(1) floor request(1,2), of eg_server] show ?thesis
    unfolding env(2) request(3) Let_def .
qed

end
